(* ===== verification/Prelude.thy ===== *)
theory Prelude
  imports Complex_Main "HOL-Library.Word"
begin

text \<open>
  Shared vocabulary of the development: machine integers, the result type of fallible and
  panicking Rust code, checked slice access, and the \<open>usize\<close> arithmetic of the byte walkers.

  \<^item> \<open>outcome\<close> is Rust's \<open>Result<T, E>\<close> together with the panic an out-of-range index
    or slice raises: \<open>Ok\<close>, \<open>Err\<close> and \<open>Panic\<close>. \<open>and_then\<close> is the \<open>?\<close> operator.
  \<^item> \<open>byte_at\<close> and \<open>slice\<close> are \<open>bytes[i]\<close> and \<open>&bytes[a..b]\<close>, which panic out of
    range; \<open>get_byte\<close> and \<open>get_slice\<close> are \<open>bytes.get(..)\<close>, which answer \<open>None\<close>.
  \<^item> A byte string is a list of \<open>8 word\<close>; a Rust \<open>str\<close> is the list of its UTF-8 bytes
    as \<open>char\<close>s, which is what \<open>len()\<close> and byte indexing count.
\<close>

unbundle bit_operations_syntax

type_synonym u8 = "8 word"
type_synonym u16 = "16 word"
type_synonym u32 = "32 word"
type_synonym u64 = "64 word"
type_synonym bytes = "8 word list"

named_theorems access_simps \<open>evaluation of slice access with known bounds\<close>

lemma unat_inject [simp]: "unat v = unat w \<longleftrightarrow> v = w"
  by (simp add: word_unat_eq_iff)

lemma u8_less [simp]: "unat (w :: u8) < 256"
  using unsigned_less [of w] by simp

lemma u16_less [simp]: "unat (w :: u16) < 65536"
  using unsigned_less [of w] by simp

lemma u32_less [simp]: "unat (w :: u32) < 4294967296"
  using unsigned_less [of w] by simp

lemma u32_le [simp]: "unat (w :: u32) \<le> 4294967295"
  using u32_less [of w] by linarith

section \<open>Results and panics\<close>

datatype ('e, 'a) outcome = Ok 'a | Err 'e | Panic

primrec and_then :: "('e, 'a) outcome \<Rightarrow> ('a \<Rightarrow> ('e, 'b) outcome) \<Rightarrow> ('e, 'b) outcome" where
  "and_then (Ok x) f = f x"
| "and_then (Err e) f = Err e"
| "and_then Panic f = Panic"

primrec map_ok :: "('a \<Rightarrow> 'b) \<Rightarrow> ('e, 'a) outcome \<Rightarrow> ('e, 'b) outcome" where
  "map_ok f (Ok x) = Ok (f x)"
| "map_ok f (Err e) = Err e"
| "map_ok f Panic = Panic"

primrec map_err :: "('e \<Rightarrow> 'f) \<Rightarrow> ('e, 'a) outcome \<Rightarrow> ('f, 'a) outcome" where
  "map_err f (Ok x) = Ok x"
| "map_err f (Err e) = Err (f e)"
| "map_err f Panic = Panic"

primrec ok_or :: "'e \<Rightarrow> 'a option \<Rightarrow> ('e, 'a) outcome" where
  "ok_or e None = Err e"
| "ok_or e (Some x) = Ok x"

text \<open>The early return \<open>if cond { return Err(e); }\<close>.\<close>

definition reject_if :: "bool \<Rightarrow> 'e \<Rightarrow> ('e, unit) outcome" where
  "reject_if c e = (if c then Err e else Ok ())"

lemma and_then_cong [fundef_cong]:
  "m = m' \<Longrightarrow> (\<And>x. m' = Ok x \<Longrightarrow> f x = f' x) \<Longrightarrow> and_then m f = and_then m' f'"
  by (cases m') auto

lemma and_then_eq_Ok [simp]:
  "and_then m f = Ok y \<longleftrightarrow> (\<exists>x. m = Ok x \<and> f x = Ok y)"
  by (cases m) auto

lemma and_then_eq_Panic:
  "and_then m f = Panic \<longleftrightarrow> m = Panic \<or> (\<exists>x. m = Ok x \<and> f x = Panic)"
  by (cases m) auto

lemma and_then_eq_Err:
  "and_then m f = Err e \<longleftrightarrow> m = Err e \<or> (\<exists>x. m = Ok x \<and> f x = Err e)"
  by (cases m) auto

lemma map_ok_eq_Ok [simp]: "map_ok f m = Ok y \<longleftrightarrow> (\<exists>x. m = Ok x \<and> y = f x)"
  by (cases m) auto

lemma map_ok_eq_Panic [simp]: "map_ok f m = Panic \<longleftrightarrow> m = Panic"
  by (cases m) auto

lemma map_err_eq_Ok [simp]: "map_err f m = Ok y \<longleftrightarrow> m = Ok y"
  by (cases m) auto

lemma map_err_eq_Panic [simp]: "map_err f m = Panic \<longleftrightarrow> m = Panic"
  by (cases m) auto

lemma reject_if_eq_Ok [simp]: "reject_if c e = Ok u \<longleftrightarrow> \<not> c"
  by (simp add: reject_if_def)

lemma reject_if_eq_Err [simp]: "reject_if c e = Err e' \<longleftrightarrow> c \<and> e' = e"
  by (auto simp: reject_if_def)

lemma reject_if_not_Panic [simp]: "reject_if c e \<noteq> Panic"
  by (simp add: reject_if_def)

lemma reject_if_True [simp]: "reject_if True e = Err e"
  and reject_if_False [simp]: "reject_if False e = Ok ()"
  by (simp_all add: reject_if_def)

lemma ok_or_eq_Ok [simp]: "ok_or e m = Ok x \<longleftrightarrow> m = Some x"
  by (cases m) auto

lemma ok_or_not_Panic [simp]: "ok_or e m \<noteq> Panic"
  by (cases m) auto

text \<open>The property \<open>no_panic\<close> composes along \<open>and_then\<close>.\<close>

definition no_panic :: "('e, 'a) outcome \<Rightarrow> bool" where
  "no_panic m \<longleftrightarrow> m \<noteq> Panic"

lemma no_panic_intros [simp, intro]:
  "no_panic (Ok x)" "no_panic (Err e)" "no_panic (reject_if c e)" "no_panic (ok_or e m)"
  by (simp_all add: no_panic_def)

lemma no_panic_Panic [simp]: "\<not> no_panic Panic"
  by (simp add: no_panic_def)

lemma no_panic_and_then [simp]:
  "no_panic (and_then m f) \<longleftrightarrow> no_panic m \<and> (\<forall>x. m = Ok x \<longrightarrow> no_panic (f x))"
  by (cases m) (auto simp: no_panic_def)

lemma no_panic_map_ok [simp]: "no_panic (map_ok f m) \<longleftrightarrow> no_panic m"
  by (simp add: no_panic_def)

lemma no_panic_map_err [simp]: "no_panic (map_err f m) \<longleftrightarrow> no_panic m"
  by (simp add: no_panic_def)

section \<open>Slices\<close>

definition byte_at :: "bytes \<Rightarrow> nat \<Rightarrow> ('e, u8) outcome" where
  "byte_at bs i = (if i < length bs then Ok (bs ! i) else Panic)"

definition sub_bytes :: "bytes \<Rightarrow> nat \<Rightarrow> nat \<Rightarrow> bytes" where
  "sub_bytes bs a b = take (b - a) (drop a bs)"

definition slice :: "bytes \<Rightarrow> nat \<Rightarrow> nat \<Rightarrow> ('e, bytes) outcome" where
  "slice bs a b = (if a \<le> b \<and> b \<le> length bs then Ok (sub_bytes bs a b) else Panic)"

definition get_byte :: "bytes \<Rightarrow> nat \<Rightarrow> u8 option" where
  "get_byte bs i = (if i < length bs then Some (bs ! i) else None)"

definition get_slice :: "bytes \<Rightarrow> nat \<Rightarrow> nat \<Rightarrow> bytes option" where
  "get_slice bs a b = (if a \<le> b \<and> b \<le> length bs then Some (sub_bytes bs a b) else None)"

lemma byte_at_Ok [access_simps]: "i < length bs \<Longrightarrow> byte_at bs i = Ok (bs ! i)"
  by (simp add: byte_at_def)

lemma slice_Ok [access_simps]:
  "a \<le> b \<Longrightarrow> b \<le> length bs \<Longrightarrow> slice bs a b = Ok (sub_bytes bs a b)"
  by (simp add: slice_def)

lemma no_panic_byte_at [simp]: "no_panic (byte_at bs i) \<longleftrightarrow> i < length bs"
  by (simp add: byte_at_def no_panic_def)

lemma no_panic_slice [simp]: "no_panic (slice bs a b) \<longleftrightarrow> a \<le> b \<and> b \<le> length bs"
  by (simp add: slice_def no_panic_def)

lemma length_sub_bytes [simp]:
  "b \<le> length bs \<Longrightarrow> length (sub_bytes bs a b) = b - a"
  by (simp add: sub_bytes_def)

lemma byte_at_eq_Ok [simp]: "byte_at bs i = Ok x \<longleftrightarrow> i < length bs \<and> x = bs ! i"
  by (auto simp: byte_at_def)

lemma slice_eq_Ok [simp]:
  "slice bs a b = Ok x \<longleftrightarrow> a \<le> b \<and> b \<le> length bs \<and> x = sub_bytes bs a b"
  by (auto simp: slice_def)

lemma byte_at_neq_Err [simp]: "byte_at bs i \<noteq> Err e"
  by (simp add: byte_at_def)

lemma slice_neq_Err [simp]: "slice bs a b \<noteq> Err e"
  by (simp add: slice_def)

lemma sub_bytes_append_left [simp]:
  "b \<le> length xs \<Longrightarrow> sub_bytes (xs @ ys) a b = sub_bytes xs a b"
  by (simp add: sub_bytes_def)

lemma sub_bytes_append_right:
  "length xs \<le> a \<Longrightarrow> sub_bytes (xs @ ys) a b = sub_bytes ys (a - length xs) (b - length xs)"
  by (simp add: sub_bytes_def)

lemma sub_bytes_all [simp]: "sub_bytes bs 0 (length bs) = bs"
  by (simp add: sub_bytes_def)

definition starts_with :: "'a list \<Rightarrow> 'a list \<Rightarrow> bool" where
  "starts_with s p \<longleftrightarrow> take (length p) s = p"

definition strip_prefix :: "'a list \<Rightarrow> 'a list \<Rightarrow> 'a list option" where
  "strip_prefix s p = (if starts_with s p then Some (drop (length p) s) else None)"

lemma starts_with_append [simp]: "starts_with (p @ s) p"
  by (simp add: starts_with_def)

lemma starts_withE: "starts_with s p \<Longrightarrow> \<exists>r. s = p @ r"
  by (metis append_take_drop_id starts_with_def)

lemma starts_with_length: "starts_with s p \<Longrightarrow> length p \<le> length s"
  by (metis starts_with_def length_take min.cobounded1 min.commute)

lemma starts_with_Nil [simp]: "starts_with s []"
  by (simp add: starts_with_def)

lemma starts_with_Cons [simp]:
  "starts_with (x # s) (y # p) \<longleftrightarrow> x = y \<and> starts_with s p"
  by (auto simp: starts_with_def)

lemma starts_with_Nil_Cons [simp]: "\<not> starts_with [] (y # p)"
  by (simp add: starts_with_def)

text \<open>
  \<open>haystack.windows(needle.len()).position(|w| w == needle)\<close> for a needle that is not
  empty (\<open>windows(0)\<close> panics; every needle of the source is a literal or starts with one).
\<close>

fun find_sub :: "'a list \<Rightarrow> 'a list \<Rightarrow> nat option" where
  "find_sub [] p = None"
| "find_sub (x # s) p =
     (if starts_with (x # s) p then Some 0 else map_option Suc (find_sub s p))"

lemma find_sub_Some:
  "find_sub s p = Some i \<Longrightarrow> i + length p \<le> length s \<and> starts_with (drop i s) p"
proof (induction s arbitrary: i)
  case (Cons x s)
  then show ?case
    by (auto split: if_splits dest: starts_with_length)
qed simp

lemma find_sub_least:
  "find_sub s p = Some i \<Longrightarrow> j < i \<Longrightarrow> \<not> starts_with (drop j s) p"
proof (induction s arbitrary: i j)
  case (Cons x s)
  show ?case
  proof (cases j)
    case 0
    then show ?thesis using Cons.prems by (auto split: if_splits)
  next
    case (Suc k)
    then show ?thesis using Cons by (auto split: if_splits)
  qed
qed simp

lemma find_sub_None: "find_sub s p = None \<Longrightarrow> p \<noteq> [] \<Longrightarrow> \<not> starts_with (drop j s) p"
proof (induction s arbitrary: j)
  case Nil
  then show ?case by (cases p) auto
next
  case (Cons x s)
  then show ?case by (cases j) (auto split: if_splits)
qed

lemma find_sub_here: "p \<noteq> [] \<Longrightarrow> find_sub (p @ s) p = Some 0"
  by (cases p) (auto simp: starts_with_def)

section \<open>Sizes\<close>

text \<open>
  \<open>usize\<close> is 64 bits wide on the platforms truss ships for. Offsets into a slice are \<open>nat\<close>:
  a slice has at most \<open>isize::MAX\<close> bytes, so an unchecked \<open>offset + k\<close> with a literal
  \<open>k\<close> does not wrap. Where the source uses \<open>checked_add\<close> the bound is written out.
\<close>

definition usize_max :: nat where
  "usize_max = 2 ^ 64 - 1"

definition checked_add :: "nat \<Rightarrow> nat \<Rightarrow> nat option" where
  "checked_add a b = (if a + b \<le> usize_max then Some (a + b) else None)"

definition saturating_add :: "nat \<Rightarrow> nat \<Rightarrow> nat" where
  "saturating_add a b = min (a + b) usize_max"

text \<open>An evaluation that does not write \<open>2 ^ 64\<close> as a \<open>nat\<close>.\<close>

lemma checked_add_code [code]:
  "checked_add a b = (if int a + int b < 18446744073709551616 then Some (a + b) else None)"
proof -
  have "a + b \<le> usize_max \<longleftrightarrow> int (a + b) \<le> int usize_max" by (simp only: of_nat_le_iff)
  moreover have "int usize_max = 18446744073709551615" by (simp add: usize_max_def)
  ultimately show ?thesis by (auto simp: checked_add_def)
qed

lemma checked_add_Some [simp]:
  "checked_add a b = Some c \<longleftrightarrow> c = a + b \<and> a + b \<le> usize_max"
  by (auto simp: checked_add_def)

section \<open>Byte order\<close>

definition u16_of_be :: "u8 \<Rightarrow> u8 \<Rightarrow> u16" where
  "u16_of_be a b = push_bit 8 (ucast a) OR ucast b"

definition u16_of_le :: "u8 \<Rightarrow> u8 \<Rightarrow> u16" where
  "u16_of_le a b = u16_of_be b a"

definition u32_of_be :: "u8 \<Rightarrow> u8 \<Rightarrow> u8 \<Rightarrow> u8 \<Rightarrow> u32" where
  "u32_of_be a b c d =
     push_bit 24 (ucast a) OR push_bit 16 (ucast b) OR push_bit 8 (ucast c) OR ucast d"

definition u32_of_le :: "u8 \<Rightarrow> u8 \<Rightarrow> u8 \<Rightarrow> u8 \<Rightarrow> u32" where
  "u32_of_le a b c d = u32_of_be d c b a"

definition u16_to_be :: "u16 \<Rightarrow> bytes" where
  "u16_to_be w = [ucast (drop_bit 8 w), ucast w]"

definition u32_to_be :: "u32 \<Rightarrow> bytes" where
  "u32_to_be w = [ucast (drop_bit 24 w), ucast (drop_bit 16 w), ucast (drop_bit 8 w), ucast w]"

definition u32_to_le :: "u32 \<Rightarrow> bytes" where
  "u32_to_le w = rev (u32_to_be w)"

lemmas byte_order_defs = u16_of_be_def u16_of_le_def u32_of_be_def u32_of_le_def
  u16_to_be_def u32_to_be_def u32_to_le_def

lemma u32_be_roundtrip:
  "u32_of_be (ucast (drop_bit 24 w)) (ucast (drop_bit 16 w)) (ucast (drop_bit 8 w)) (ucast w) = w"
proof (rule bit_word_eqI)
  fix n assume "n < LENGTH(32)"
  moreover have "n < 8 \<or> (8 \<le> n \<and> n < 16) \<or> (16 \<le> n \<and> n < 24) \<or> 24 \<le> n" by arith
  ultimately show "bit (u32_of_be (ucast (drop_bit 24 w)) (ucast (drop_bit 16 w))
      (ucast (drop_bit 8 w)) (ucast w)) n \<longleftrightarrow> bit w n"
    by (auto simp: u32_of_be_def bit_simps)
qed

lemma u32_le_roundtrip:
  "u32_of_le (ucast w) (ucast (drop_bit 8 w)) (ucast (drop_bit 16 w)) (ucast (drop_bit 24 w)) = w"
  by (simp add: u32_of_le_def u32_be_roundtrip)

lemma u16_be_roundtrip: "u16_of_be (ucast (drop_bit 8 w)) (ucast w) = w"
  by (rule bit_word_eqI) (auto simp: u16_of_be_def bit_simps less_diff_conv2)

lemma length_u32_to_le [simp]: "length (u32_to_le w) = 4"
  by (simp add: byte_order_defs)

lemma length_u32_to_be [simp]: "length (u32_to_be w) = 4"
  by (simp add: byte_order_defs)

lemma length_u16_to_be [simp]: "length (u16_to_be w) = 2"
  by (simp add: byte_order_defs)

end
