(* ===== verification/Text.thy ===== *)
theory Text
  imports Prelude
begin

text \<open>
  The part of Rust's \<open>str\<close> and integer parsing that the program calls: \<open>split\<close>,
  \<open>split_once\<close>, \<open>trim\<close>, ASCII case folding, decimal and hexadecimal text. A string is
  the list of its UTF-8 bytes.
\<close>

unbundle bit_operations_syntax

abbreviation code :: "char \<Rightarrow> nat" where
  "code c \<equiv> of_char c"

definition ascii :: "string \<Rightarrow> bytes" where
  "ascii s = map of_char s"

lemma length_ascii [simp]: "length (ascii s) = length s"
  by (simp add: ascii_def)

section \<open>Splitting\<close>

fun split_on :: "char \<Rightarrow> string \<Rightarrow> string list" where
  "split_on c [] = [[]]"
| "split_on c (x # xs) =
     (if x = c then [] # split_on c xs
      else (case split_on c xs of [] \<Rightarrow> [[x]] | p # ps \<Rightarrow> (x # p) # ps))"

fun split_once :: "char \<Rightarrow> string \<Rightarrow> (string \<times> string) option" where
  "split_once c [] = None"
| "split_once c (x # xs) =
     (if x = c then Some ([], xs)
      else map_option (\<lambda>(a, b). (x # a, b)) (split_once c xs))"

fun join_with :: "string \<Rightarrow> string list \<Rightarrow> string" where
  "join_with sep [] = []"
| "join_with sep [p] = p"
| "join_with sep (p # ps) = p @ sep @ join_with sep ps"

lemma split_on_not_Nil [simp]: "split_on c s \<noteq> []"
  by (cases s) (auto split: list.split)

lemma join_split_on: "join_with [c] (split_on c s) = s"
proof (induction s)
  case (Cons x xs)
  then show ?case
    by (cases "split_on c xs"; cases "tl (split_on c xs)") (auto split: list.split)
qed simp

lemma split_on_no_sep: "c \<notin> set s \<Longrightarrow> split_on c s = [s]"
  by (induction s) auto

lemma split_on_append_sep:
  "c \<notin> set s \<Longrightarrow> split_on c (s @ c # t) = s # split_on c t"
  by (induction s) auto

lemma split_on_pieces: "p \<in> set (split_on c s) \<Longrightarrow> c \<notin> set p"
proof (induction s arbitrary: p)
  case (Cons x xs)
  then show ?case
    by (cases "split_on c xs") (auto split: if_splits)
qed simp

lemma split_on_chars: "p \<in> set (split_on c s) \<Longrightarrow> set p \<subseteq> set s"
proof (induction s arbitrary: p)
  case (Cons x xs)
  then show ?case
    by (cases "split_on c xs") (fastforce split: if_splits)+
qed simp

lemma split_once_Some_iff:
  "split_once c s = Some (a, b) \<longleftrightarrow> s = a @ c # b \<and> c \<notin> set a"
proof (induction s arbitrary: a b)
  case (Cons x xs)
  show ?case
  proof (cases "x = c")
    case True
    then show ?thesis by (cases a) auto
  next
    case False
    then show ?thesis using Cons by (cases a) auto
  qed
qed simp

lemma split_once_None_iff: "split_once c s = None \<longleftrightarrow> c \<notin> set s"
  by (induction s) auto

lemma hd_split_on_eq:
  "hd (split_on c s) = (case split_once c s of None \<Rightarrow> s | Some (a, _) \<Rightarrow> a)"
proof (induction s)
  case (Cons x xs)
  then show ?case
    by (cases "split_on c xs"; cases "split_once c xs") (auto split: list.split)
qed simp

section \<open>Case and white space\<close>

definition ascii_lower_char :: "char \<Rightarrow> char" where
  "ascii_lower_char c =
     (if 65 \<le> code c \<and> code c \<le> 90 then char_of (code c + 32) else c)"

definition ascii_upper_char :: "char \<Rightarrow> char" where
  "ascii_upper_char c =
     (if 97 \<le> code c \<and> code c \<le> 122 then char_of (code c - 32) else c)"

definition ascii_lower :: "string \<Rightarrow> string" where
  "ascii_lower s = map ascii_lower_char s"

definition ascii_upper :: "string \<Rightarrow> string" where
  "ascii_upper s = map ascii_upper_char s"

definition eq_ignore_ascii_case :: "string \<Rightarrow> string \<Rightarrow> bool" where
  "eq_ignore_ascii_case s t \<longleftrightarrow> ascii_lower s = ascii_lower t"

lemma code_char_of [simp]: "n < 256 \<Longrightarrow> code (char_of n) = n"
  by simp

lemma ascii_lower_char_idem [simp]: "ascii_lower_char (ascii_lower_char c) = ascii_lower_char c"
  by (auto simp: ascii_lower_char_def)

lemma ascii_lower_idem [simp]: "ascii_lower (ascii_lower s) = ascii_lower s"
  by (simp add: ascii_lower_def)

text \<open>
  \<open>char::is_whitespace\<close> is Unicode \<open>White_Space\<close>. \<open>leading_ws\<close> is the number of bytes
  of a white-space character at the front of the text, 0 if there is none: the six ASCII
  ones, U+0085 and U+00A0 in two bytes, and U+1680, U+2000 to U+200A, U+2028, U+2029, U+202F,
  U+205F and U+3000 in three.
\<close>

definition ascii_ws :: "nat \<Rightarrow> bool" where
  "ascii_ws x \<longleftrightarrow> (9 \<le> x \<and> x \<le> 13) \<or> x = 32"

fun wide_ws :: "nat list \<Rightarrow> nat" where
  "wide_ws (x # y # z # _) =
     (if x = 0xC2 \<and> (y = 0x85 \<or> y = 0xA0) then 2
      else if x = 0xE1 \<and> y = 0x9A \<and> z = 0x80 then 3
      else if x = 0xE2 \<and> y = 0x80 \<and> (0x80 \<le> z \<and> z \<le> 0x8A \<or> z = 0xA8 \<or> z = 0xA9 \<or> z = 0xAF)
        then 3
      else if x = 0xE2 \<and> y = 0x81 \<and> z = 0x9F then 3
      else if x = 0xE3 \<and> y = 0x80 \<and> z = 0x80 then 3
      else 0)"
| "wide_ws [x, y] = (if x = 0xC2 \<and> (y = 0x85 \<or> y = 0xA0) then 2 else 0)"
| "wide_ws _ = 0"

fun leading_ws :: "string \<Rightarrow> nat" where
  "leading_ws [] = 0"
| "leading_ws (c # s) =
     (if ascii_ws (code c) then 1 else wide_ws (map of_char (take 3 (c # s))))"

definition trailing_ws :: "string \<Rightarrow> nat" where
  "trailing_ws s =
     (let n = length s in
      if 1 \<le> n \<and> leading_ws (drop (n - 1) s) = 1 then 1
      else if 2 \<le> n \<and> leading_ws (drop (n - 2) s) = 2 then 2
      else if 3 \<le> n \<and> leading_ws (drop (n - 3) s) = 3 then 3
      else 0)"

lemma wide_ws_le: "wide_ws xs \<le> length xs"
  by (induction xs rule: wide_ws.induct) auto

lemma leading_ws_le: "leading_ws s \<le> length s"
proof (cases s)
  case (Cons c t)
  have "wide_ws (map of_char (take 3 s)) \<le> length s"
    using wide_ws_le [of "map of_char (take 3 s)"] by simp
  with Cons show ?thesis by simp
qed simp

lemma trailing_ws_le: "trailing_ws s \<le> length s"
  by (simp add: trailing_ws_def Let_def)

function trim_start :: "string \<Rightarrow> string" where
  "trim_start s = (if leading_ws s = 0 then s else trim_start (drop (leading_ws s) s))"
  by pat_completeness auto
termination
proof (relation "measure length", simp)
  fix s :: string
  assume "leading_ws s \<noteq> 0"
  then have "s \<noteq> []" by auto
  with \<open>leading_ws s \<noteq> 0\<close> show "(drop (leading_ws s) s, s) \<in> measure length"
    by (cases s) auto
qed

function trim_end :: "string \<Rightarrow> string" where
  "trim_end s =
     (if trailing_ws s = 0 then s else trim_end (take (length s - trailing_ws s) s))"
  by pat_completeness auto
termination
proof (relation "measure length", simp)
  fix s :: string
  assume "trailing_ws s \<noteq> 0"
  with trailing_ws_le [of s] show "(take (length s - trailing_ws s) s, s) \<in> measure length"
    by auto
qed

declare trim_start.simps [simp del] trim_end.simps [simp del]

definition trim :: "string \<Rightarrow> string" where
  "trim s = trim_end (trim_start s)"

lemma trim_start_id: "leading_ws s = 0 \<Longrightarrow> trim_start s = s"
  by (simp add: trim_start.simps [of s])

lemma trim_end_id: "trailing_ws s = 0 \<Longrightarrow> trim_end s = s"
  by (simp add: trim_end.simps [of s])

lemma trim_start_suffix: "\<exists>p. s = p @ trim_start s"
proof (induction s rule: trim_start.induct)
  case (1 s)
  show ?case
  proof (cases "leading_ws s = 0")
    case False
    with "1.IH" obtain p where "drop (leading_ws s) s = p @ trim_start (drop (leading_ws s) s)"
      by blast
    then have "s = (take (leading_ws s) s @ p) @ trim_start (drop (leading_ws s) s)"
      by (metis append.assoc append_take_drop_id)
    with False show ?thesis by (metis trim_start.simps)
  qed (simp add: trim_start_id)
qed

lemma trim_end_prefix: "\<exists>p. s = trim_end s @ p"
proof (induction s rule: trim_end.induct)
  case (1 s)
  let ?k = "length s - trailing_ws s"
  show ?case
  proof (cases "trailing_ws s = 0")
    case False
    with "1.IH" obtain p where "take ?k s = trim_end (take ?k s) @ p"
      by blast
    then have "s = trim_end (take ?k s) @ (p @ drop ?k s)"
      by (metis append.assoc append_take_drop_id)
    with False show ?thesis by (metis trim_end.simps)
  qed (simp add: trim_end_id)
qed

lemma set_trim: "set (trim s) \<subseteq> set s"
proof -
  obtain p q where "s = p @ trim_start s" and "trim_start s = trim_end (trim_start s) @ q"
    using trim_start_suffix trim_end_prefix by blast
  then show ?thesis by (metis trim_def Un_iff set_append subsetI)
qed

lemma leading_ws_plain: "\<lbrakk>s \<noteq> []; 33 \<le> code (hd s); code (hd s) < 127\<rbrakk> \<Longrightarrow> leading_ws s = 0"
proof (cases s)
  case (Cons c t)
  assume "s \<noteq> []" "33 \<le> code (hd s)" "code (hd s) < 127"
  with Cons show ?thesis
    by (cases t; cases "tl t") (auto simp: ascii_ws_def numeral_3_eq_3)
qed simp

text \<open>Text of printable ASCII at both ends is its own trim.\<close>

definition plain_char :: "char \<Rightarrow> bool" where
  "plain_char c \<longleftrightarrow> 33 \<le> code c \<and> code c < 127"

lemma leading_ws_plain_all: "list_all plain_char s \<Longrightarrow> leading_ws s = 0"
  by (cases s) (simp, rule leading_ws_plain, auto simp: plain_char_def)

lemma trim_plain: "list_all plain_char s \<Longrightarrow> trim s = s"
proof -
  assume pl: "list_all plain_char s"
  have "leading_ws (drop k s) = 0" for k
    using pl by (intro leading_ws_plain_all) (auto simp: list_all_iff dest: in_set_dropD)
  then have "trailing_ws s = 0"
    by (simp add: trailing_ws_def Let_def)
  with leading_ws_plain_all [OF pl] show ?thesis
    by (simp add: trim_def trim_start_id trim_end_id)
qed

section \<open>Decimal text\<close>

definition digit_char :: "nat \<Rightarrow> char" where
  "digit_char n = char_of (48 + n)"

fun show_nat :: "nat \<Rightarrow> string" where
  "show_nat n = (if n < 10 then [digit_char n] else show_nat (n div 10) @ [digit_char (n mod 10)])"

declare show_nat.simps [simp del]

definition digit_val :: "char \<Rightarrow> nat option" where
  "digit_val c = (if 48 \<le> code c \<and> code c \<le> 57 then Some (code c - 48) else None)"

definition is_ascii_digit :: "char \<Rightarrow> bool" where
  "is_ascii_digit c \<longleftrightarrow> 48 \<le> code c \<and> code c \<le> 57"

datatype int_error = Empty | InvalidDigit | PosOverflow | NegOverflow

text \<open>
  The loop of \<open>from_str_radix\<close> reads one digit at a time and reports the first thing
  that goes wrong: a character that is not a digit, or a value past the type's end. A
  character after the digit that overflows is therefore never looked at.
\<close>

fun read_up :: "int \<Rightarrow> int \<Rightarrow> string \<Rightarrow> int_error + int" where
  "read_up hi acc [] = Inr acc"
| "read_up hi acc (c # cs) =
     (case digit_val c of
        None \<Rightarrow> Inl InvalidDigit
      | Some d \<Rightarrow> if acc * 10 > hi then Inl PosOverflow
          else if acc * 10 + int d > hi then Inl PosOverflow
          else read_up hi (acc * 10 + int d) cs)"

fun read_down :: "int \<Rightarrow> int \<Rightarrow> string \<Rightarrow> int_error + int" where
  "read_down lo acc [] = Inr acc"
| "read_down lo acc (c # cs) =
     (case digit_val c of
        None \<Rightarrow> Inl InvalidDigit
      | Some d \<Rightarrow> if acc * 10 < lo then Inl NegOverflow
          else if acc * 10 - int d < lo then Inl NegOverflow
          else read_down lo (acc * 10 - int d) cs)"

definition i64_max :: int where "i64_max = 2 ^ 63 - 1"
definition i64_min :: int where "i64_min = - (2 ^ 63)"

text \<open>\<open>i64::from_str\<close> and, with an upper end, \<open>from_str\<close> of the unsigned types.\<close>

fun parse_i64 :: "string \<Rightarrow> int_error + int" where
  "parse_i64 [] = Inl Empty"
| "parse_i64 [c] =
     (if c = CHR ''+'' \<or> c = CHR ''-'' then Inl InvalidDigit else read_up i64_max 0 [c])"
| "parse_i64 (c # cs) =
     (if c = CHR ''+'' then read_up i64_max 0 cs
      else if c = CHR ''-'' then read_down i64_min 0 cs
      else read_up i64_max 0 (c # cs))"

fun parse_unsigned :: "int \<Rightarrow> string \<Rightarrow> int_error + int" where
  "parse_unsigned hi [] = Inl Empty"
| "parse_unsigned hi [c] =
     (if c = CHR ''+'' \<or> c = CHR ''-'' then Inl InvalidDigit else read_up hi 0 [c])"
| "parse_unsigned hi (c # cs) =
     (if c = CHR ''+'' then read_up hi 0 cs else read_up hi 0 (c # cs))"

text \<open>The value a digit string stands for, without any bound.\<close>

definition decimal_value :: "string \<Rightarrow> nat" where
  "decimal_value s = foldl (\<lambda>a c. a * 10 + (code c - 48)) 0 s"

lemma digit_val_digit_char [simp]: "n < 10 \<Longrightarrow> digit_val (digit_char n) = Some n"
  by (simp add: digit_val_def digit_char_def)

lemma is_ascii_digit_digit_char [simp]: "n < 10 \<Longrightarrow> is_ascii_digit (digit_char n)"
  by (simp add: is_ascii_digit_def digit_char_def)

lemma digit_val_eq: "digit_val c = (if is_ascii_digit c then Some (code c - 48) else None)"
  by (simp add: digit_val_def is_ascii_digit_def)

lemma foldl_decimal_ge:
  "a * 10 ^ length s \<le> foldl (\<lambda>a c. a * 10 + (code c - 48)) a s" for a :: nat
proof (induction s arbitrary: a)
  case (Cons c s)
  have "a * 10 ^ length (c # s) \<le> (a * 10 + (code c - 48)) * 10 ^ length s"
    by (simp add: algebra_simps)
  also have "\<dots> \<le> foldl (\<lambda>a c. a * 10 + (code c - 48)) (a * 10 + (code c - 48)) s"
    by (rule Cons.IH)
  finally show ?case by simp
qed simp

lemma foldl_decimal_mono: "a \<le> foldl (\<lambda>a c. a * 10 + (code c - 48)) a s" for a :: nat
  using order_trans [OF _ foldl_decimal_ge [of a s]] by simp

text \<open>On digits only, \<open>read_up\<close> answers the value or that it is too large.\<close>

lemma read_up_digits:
  "list_all is_ascii_digit s \<Longrightarrow>
   read_up hi (int a) s =
     (let v = int (foldl (\<lambda>a c. a * 10 + (code c - 48)) a s) in
      if s \<noteq> [] \<and> hi < v then Inl PosOverflow else Inr v)"
proof (induction s arbitrary: a)
  case (Cons c s)
  obtain d where d: "code c - 48 = d" by blast
  let ?b = "a * 10 + d"
  have dv: "digit_val c = Some d"
    using Cons.prems d by (simp add: digit_val_eq)
  have IH: "read_up hi (int ?b) s =
     (let v = int (foldl (\<lambda>a c. a * 10 + (code c - 48)) ?b s) in
      if s \<noteq> [] \<and> hi < v then Inl PosOverflow else Inr v)"
    using Cons.prems by (intro Cons.IH) simp
  have le: "int ?b \<le> int (foldl (\<lambda>a c. a * 10 + (code c - 48)) ?b s)"
    using foldl_decimal_mono by (rule of_nat_mono)
  show ?case
  proof (cases "hi < int ?b")
    case True
    then have "read_up hi (int a) (c # s) = Inl PosOverflow"
      by (simp add: dv)
    with True le show ?thesis by (simp add: Let_def d)
  next
    case False
    then have "read_up hi (int a) (c # s) = read_up hi (int ?b) s"
      by (simp add: dv)
    with IH False show ?thesis by (cases s) (simp_all add: Let_def d)
  qed
qed simp

lemma decimal_value_snoc [simp]:
  "decimal_value (s @ [c]) = decimal_value s * 10 + (code c - 48)"
  by (simp add: decimal_value_def)

lemma show_nat_digits: "list_all is_ascii_digit (show_nat n)"
proof (induction n rule: show_nat.induct)
  case (1 n)
  then show ?case by (subst show_nat.simps) simp
qed

lemma show_nat_not_Nil [simp]: "show_nat n \<noteq> []"
  by (subst show_nat.simps) simp

lemma decimal_value_show_nat [simp]: "decimal_value (show_nat n) = n"
proof (induction n rule: show_nat.induct)
  case (1 n)
  show ?case
  proof (cases "n < 10")
    case True
    then show ?thesis
      by (subst show_nat.simps) (simp add: decimal_value_def digit_char_def)
  next
    case False
    with 1 show ?thesis
      by (subst show_nat.simps) (simp add: digit_char_def)
  qed
qed

lemma show_nat_inject [simp]: "show_nat m = show_nat n \<longleftrightarrow> m = n"
  by (metis decimal_value_show_nat)

lemma is_ascii_digit_not_sign:
  "is_ascii_digit c \<Longrightarrow> c \<noteq> CHR ''+'' \<and> c \<noteq> CHR ''-''"
  by (auto simp: is_ascii_digit_def)

lemma parse_unsigned_digits:
  assumes "list_all is_ascii_digit s" and "s \<noteq> []"
  shows "parse_unsigned hi s =
    (if hi < int (decimal_value s) then Inl PosOverflow else Inr (int (decimal_value s)))"
proof -
  have "parse_unsigned hi s = read_up hi (int 0) s"
    using assms is_ascii_digit_not_sign by (cases s; cases "tl s") auto
  with read_up_digits [OF assms(1), of hi 0] assms(2) show ?thesis
    by (simp add: decimal_value_def Let_def)
qed

lemma parse_i64_digits:
  assumes "list_all is_ascii_digit s" and "s \<noteq> []"
  shows "parse_i64 s =
    (if i64_max < int (decimal_value s) then Inl PosOverflow else Inr (int (decimal_value s)))"
proof -
  have "parse_i64 s = read_up i64_max (int 0) s"
    using assms is_ascii_digit_not_sign by (cases s; cases "tl s") auto
  with read_up_digits [OF assms(1), of i64_max 0] assms(2) show ?thesis
    by (simp add: decimal_value_def Let_def)
qed

lemma read_up_bounds:
  "read_up hi acc s = Inr v \<Longrightarrow> 0 \<le> acc \<Longrightarrow> acc \<le> hi \<Longrightarrow> 0 \<le> v \<and> v \<le> hi"
  by (induction hi acc s rule: read_up.induct) (auto split: option.splits if_splits)

lemma read_down_bounds:
  "read_down lo acc s = Inr v \<Longrightarrow> acc \<le> 0 \<Longrightarrow> lo \<le> acc \<Longrightarrow> lo \<le> v \<and> v \<le> 0"
  by (induction lo acc s rule: read_down.induct) (auto split: option.splits if_splits)

lemma parse_i64_bounds: "parse_i64 s = Inr v \<Longrightarrow> i64_min \<le> v \<and> v \<le> i64_max"
proof (induction s rule: parse_i64.induct)
  case (2 c)
  then show ?case
    using read_up_bounds [of i64_max 0 "[c]" v]
    by (auto simp: i64_min_def i64_max_def simp del: read_up.simps split: if_splits)
next
  case (3 c d cs)
  then show ?case
    using read_up_bounds [of i64_max 0 "d # cs" v] read_up_bounds [of i64_max 0 "c # d # cs" v]
      read_down_bounds [of i64_min 0 "d # cs" v]
    by (auto simp: i64_min_def i64_max_def simp del: read_up.simps read_down.simps
        split: if_splits)
qed simp

section \<open>Hexadecimal text\<close>

definition hex_char :: "nat \<Rightarrow> char" where
  "hex_char n = (if n < 10 then char_of (48 + n) else char_of (87 + n))"

definition hex_char_upper :: "nat \<Rightarrow> char" where
  "hex_char_upper n = (if n < 10 then char_of (48 + n) else char_of (55 + n))"

definition hex_val :: "char \<Rightarrow> nat option" where
  "hex_val c =
     (let x = code c in
      if 48 \<le> x \<and> x \<le> 57 then Some (x - 48)
      else if 97 \<le> x \<and> x \<le> 102 then Some (x - 87)
      else if 65 \<le> x \<and> x \<le> 70 then Some (x - 55)
      else None)"

definition is_ascii_hexdigit :: "char \<Rightarrow> bool" where
  "is_ascii_hexdigit c \<longleftrightarrow> hex_val c \<noteq> None"

definition hex2 :: "u8 \<Rightarrow> string" where
  "hex2 b = [hex_char (unat b div 16), hex_char (unat b mod 16)]"

definition hex2_upper :: "u8 \<Rightarrow> string" where
  "hex2_upper b = [hex_char_upper (unat b div 16), hex_char_upper (unat b mod 16)]"

lemma hex_val_hex_char [simp]: "n < 16 \<Longrightarrow> hex_val (hex_char n) = Some n"
  by (simp add: hex_val_def hex_char_def)

lemma hex_val_hex_char_upper [simp]: "n < 16 \<Longrightarrow> hex_val (hex_char_upper n) = Some n"
  by (simp add: hex_val_def hex_char_upper_def)

lemma hex_val_less: "hex_val c = Some n \<Longrightarrow> n < 16"
  by (auto simp: hex_val_def Let_def split: if_splits)

text \<open>A quoted value, as the messages write it; a single quote is not a string literal here.\<close>

definition quoted :: "string \<Rightarrow> string" where
  "quoted s = CHR 0x27 # s @ [CHR 0x27]"

section \<open>UTF-8\<close>

text \<open>
  \<open>std::str::from_utf8\<close> accepts exactly the well-formed sequences of Unicode's table 3-7: no
  overlong form, no surrogate, nothing past U+10FFFF.
\<close>

definition cont_byte :: "u8 \<Rightarrow> bool" where
  "cont_byte b \<longleftrightarrow> 0x80 \<le> b \<and> b \<le> 0xBF"

definition second_byte_ok :: "u8 \<Rightarrow> u8 \<Rightarrow> bool" where
  "second_byte_ok a b \<longleftrightarrow>
     (if a = 0xE0 then 0xA0 \<le> b \<and> b \<le> 0xBF
      else if a = 0xED then 0x80 \<le> b \<and> b \<le> 0x9F
      else if a = 0xF0 then 0x90 \<le> b \<and> b \<le> 0xBF
      else if a = 0xF4 then 0x80 \<le> b \<and> b \<le> 0x8F
      else cont_byte b)"

fun utf8_valid :: "bytes \<Rightarrow> bool" where
  "utf8_valid [] = True"
| "utf8_valid (a # bs) =
     (if a < 0x80 then utf8_valid bs
      else if 0xC2 \<le> a \<and> a \<le> 0xDF then
        (case bs of b # r \<Rightarrow> cont_byte b \<and> utf8_valid r | _ \<Rightarrow> False)
      else if 0xE0 \<le> a \<and> a \<le> 0xEF then
        (case bs of b # c # r \<Rightarrow> second_byte_ok a b \<and> cont_byte c \<and> utf8_valid r | _ \<Rightarrow> False)
      else if 0xF0 \<le> a \<and> a \<le> 0xF4 then
        (case bs of b # c # d # r \<Rightarrow>
           second_byte_ok a b \<and> cont_byte c \<and> cont_byte d \<and> utf8_valid r | _ \<Rightarrow> False)
      else False)"

definition str_of_bytes :: "bytes \<Rightarrow> string" where
  "str_of_bytes bs = map (\<lambda>b. char_of (unat b)) bs"

definition str_from_utf8 :: "bytes \<Rightarrow> string option" where
  "str_from_utf8 bs = (if utf8_valid bs then Some (str_of_bytes bs) else None)"

lemma unat_of_char [simp]: "unat (of_char c :: u8) = code c"
  by (simp add: unat_of_nat take_bit_nat_eq_self flip: of_nat_of_char [where 'a = u8])

lemma of_char_char_of [simp]: "(of_char (char_of (unat b) :: char) :: u8) = b"
  by (rule unat_inject [THEN iffD1]) simp

lemma str_of_bytes_ascii [simp]: "str_of_bytes (ascii s) = s"
  by (induction s) (simp_all add: str_of_bytes_def ascii_def)

lemma ascii_str_of_bytes [simp]: "ascii (str_of_bytes bs) = bs"
  by (induction bs) (simp_all add: str_of_bytes_def ascii_def)

lemma utf8_valid_ascii: "list_all (\<lambda>b. b < 0x80) bs \<Longrightarrow> utf8_valid bs"
  by (induction bs) simp_all

end
