(* ===== verification/Floats.thy ===== *)
theory Floats
  imports Text
begin

text \<open>
  IEEE 754 binary floating point, as far as the program computes with \<open>f32\<close> and \<open>f64\<close>:
  a value is a rational, an infinity or NaN, and every operation is the exact one followed by
  rounding to nearest, ties to even, at the format's precision and smallest exponent, with
  overflow to infinity. The sign of a zero is not represented: no operation modelled here
  tells the two zeros apart.

  The locale \<open>rounding\<close> is the interface the geometry relies on: rounding is monotone, exact
  on small integer multiples of a power of two, and within half a unit in the last place.
  It is interpreted below on the executable rounding of \<open>f64\<close>.
\<close>

datatype float_val = Fin rat | Inf bool \<comment> \<open>negative?\<close> | NaN

section \<open>Rounding\<close>

fun nat_log2 :: "nat \<Rightarrow> nat" where
  "nat_log2 n = (if n < 2 then 0 else Suc (nat_log2 (n div 2)))"

declare nat_log2.simps [simp del]

definition rat_log2 :: "rat \<Rightarrow> int" where
  "rat_log2 x =
     (let (p, q) = quotient_of x; k = int (nat_log2 (nat p)) - int (nat_log2 (nat q))
      in if 2 powi k \<le> x then k else k - 1)"

definition round_even :: "rat \<Rightarrow> int" where
  "round_even x =
     (let f = \<lfloor>x\<rfloor>; r = x - of_int f in
      if r < 1 / 2 then f else if 1 / 2 < r then f + 1 else if even f then f else f + 1)"

definition fl_unit :: "nat \<Rightarrow> int \<Rightarrow> rat \<Rightarrow> rat" where
  "fl_unit p emin x = 2 powi (max (rat_log2 \<bar>x\<bar>) emin - int p + 1)"

definition fl_round :: "nat \<Rightarrow> int \<Rightarrow> rat \<Rightarrow> rat" where
  "fl_round p emin x =
     (if x = 0 then 0
      else of_int (round_even (x / fl_unit p emin x)) * fl_unit p emin x)"

definition f64_of :: "rat \<Rightarrow> float_val" where
  "f64_of x = (let r = fl_round 53 (-1022) x in
     if 2 powi 1024 \<le> \<bar>r\<bar> then Inf (r < 0) else Fin r)"

definition f32_of :: "rat \<Rightarrow> float_val" where
  "f32_of x = (let r = fl_round 24 (-126) x in
     if 2 powi 128 \<le> \<bar>r\<bar> then Inf (r < 0) else Fin r)"

section \<open>Operations\<close>

fun f64_div :: "float_val \<Rightarrow> float_val \<Rightarrow> float_val" where
  "f64_div (Fin a) (Fin b) =
     (if b = 0 then (if a = 0 then NaN else Inf (a < 0)) else f64_of (a / b))"
| "f64_div (Fin a) (Inf s) = Fin 0"
| "f64_div (Inf s) (Fin b) = Inf (s \<noteq> (b < 0))"
| "f64_div _ _ = NaN"

fun f64_mul :: "float_val \<Rightarrow> float_val \<Rightarrow> float_val" where
  "f64_mul (Fin a) (Fin b) = f64_of (a * b)"
| "f64_mul (Fin a) (Inf s) = (if a = 0 then NaN else Inf (s \<noteq> (a < 0)))"
| "f64_mul (Inf s) (Fin b) = (if b = 0 then NaN else Inf (s \<noteq> (b < 0)))"
| "f64_mul (Inf s) (Inf t) = Inf (s \<noteq> t)"
| "f64_mul _ _ = NaN"

text \<open>Adding opposite infinities is NaN; subtraction adds the negated operand.\<close>

fun f64_add :: "float_val \<Rightarrow> float_val \<Rightarrow> float_val" where
  "f64_add (Fin a) (Fin b) = f64_of (a + b)"
| "f64_add (Fin a) (Inf s) = Inf s"
| "f64_add (Inf s) (Fin b) = Inf s"
| "f64_add (Inf s) (Inf t) = (if s = t then Inf s else NaN)"
| "f64_add _ _ = NaN"

fun float_neg :: "float_val \<Rightarrow> float_val" where
  "float_neg (Fin a) = Fin (- a)"
| "float_neg (Inf s) = Inf (\<not> s)"
| "float_neg NaN = NaN"

definition f64_sub :: "float_val \<Rightarrow> float_val \<Rightarrow> float_val" where
  "f64_sub a b = f64_add a (float_neg b)"

text \<open>\<open>Duration::as_secs_f64\<close> of a duration in nanoseconds.\<close>

definition as_secs_f64 :: "nat \<Rightarrow> float_val" where
  "as_secs_f64 n = f64_add (f64_of (of_nat (n div 10 ^ 9)))
     (f64_div (Fin (of_nat (n mod 10 ^ 9))) (Fin (10 ^ 9)))"

fun float_le :: "float_val \<Rightarrow> float_val \<Rightarrow> bool" where
  "float_le (Fin a) (Fin b) = (a \<le> b)"
| "float_le (Fin a) (Inf s) = (\<not> s)"
| "float_le (Inf s) (Fin b) = s"
| "float_le (Inf s) (Inf t) = (s \<or> \<not> t)"
| "float_le _ _ = False"

definition float_lt :: "float_val \<Rightarrow> float_val \<Rightarrow> bool" where
  "float_lt a b \<longleftrightarrow> float_le a b \<and> \<not> float_le b a"

text \<open>\<open>f64::min\<close> and \<open>f64::max\<close> answer the other operand for a NaN.\<close>

definition float_min :: "float_val \<Rightarrow> float_val \<Rightarrow> float_val" where
  "float_min a b = (if a = NaN then b else if b = NaN then a else if float_le a b then a else b)"

definition float_max :: "float_val \<Rightarrow> float_val \<Rightarrow> float_val" where
  "float_max a b = (if a = NaN then b else if b = NaN then a else if float_le a b then b else a)"

text \<open>\<open>f64::round\<close>: halves go away from zero. An integer of this size is a float.\<close>

definition round_away :: "rat \<Rightarrow> int" where
  "round_away x = (if 0 \<le> x then \<lfloor>x + 1 / 2\<rfloor> else - \<lfloor>- x + 1 / 2\<rfloor>)"

fun float_round :: "float_val \<Rightarrow> float_val" where
  "float_round (Fin a) = Fin (of_int (round_away a))"
| "float_round x = x"

text \<open>\<open>as u32\<close>: truncates towards zero, saturates at the ends, and takes NaN to 0.\<close>

fun float_to_u32 :: "float_val \<Rightarrow> u32" where
  "float_to_u32 (Fin a) =
     (if a < 0 then 0 else if 2 ^ 32 - 1 \<le> a then - 1 else word_of_int \<lfloor>a\<rfloor>)"
| "float_to_u32 (Inf s) = (if s then 0 else - 1)"
| "float_to_u32 NaN = 0"

definition float_of_u32 :: "u32 \<Rightarrow> float_val" where
  "float_of_u32 w = Fin (of_nat (unat w))"

definition is_finite :: "float_val \<Rightarrow> bool" where
  "is_finite x \<longleftrightarrow> (case x of Fin _ \<Rightarrow> True | _ \<Rightarrow> False)"

text \<open>\<open>(lo..=hi).contains(&x)\<close>\<close>

definition float_in_range :: "float_val \<Rightarrow> float_val \<Rightarrow> float_val \<Rightarrow> bool" where
  "float_in_range lo hi x \<longleftrightarrow> float_le lo x \<and> float_le x hi"

section \<open>Reading a decimal\<close>

text \<open>
  \<open>f32::from_str\<close> and \<open>f64::from_str\<close>: an optional sign, then \<open>inf\<close>, \<open>infinity\<close> or \<open>nan\<close> in any case,
  or digits with an optional point and an optional exponent, at least one digit among them.
\<close>

definition parse_exponent :: "string \<Rightarrow> int option" where
  "parse_exponent s =
     (case s of
        [] \<Rightarrow> Some 0
      | c # t \<Rightarrow>
          if c = CHR ''e'' \<or> c = CHR ''E'' then
            (let (neg, ds) = (case t of
                [] \<Rightarrow> (False, [])
              | d # u \<Rightarrow> if d = CHR ''-'' then (True, u)
                         else if d = CHR ''+'' then (False, u) else (False, t))
             in if ds \<noteq> [] \<and> list_all is_ascii_digit ds
                then Some ((if neg then -1 else 1) * int (decimal_value ds)) else None)
          else None)"

definition parse_number :: "string \<Rightarrow> rat option" where
  "parse_number s =
     (let ip = takeWhile is_ascii_digit s; r = dropWhile is_ascii_digit s;
          (fp, r') = (case r of
             [] \<Rightarrow> ([], [])
           | c # t \<Rightarrow> if c = CHR ''.''
               then (takeWhile is_ascii_digit t, dropWhile is_ascii_digit t) else ([], r))
      in if ip = [] \<and> fp = [] then None
         else map_option
           (\<lambda>e. of_nat (decimal_value (ip @ fp)) * 10 powi (e - int (length fp)))
           (parse_exponent r'))"

definition parse_float :: "(rat \<Rightarrow> float_val) \<Rightarrow> string \<Rightarrow> float_val option" where
  "parse_float rnd s =
     (let (neg, t) = (case s of
          [] \<Rightarrow> (False, [])
        | c # u \<Rightarrow> if c = CHR ''-'' then (True, u)
                    else if c = CHR ''+'' then (False, u) else (False, s));
          v = (if eq_ignore_ascii_case t ''inf'' \<or> eq_ignore_ascii_case t ''infinity''
                 then Some (Inf False)
               else if eq_ignore_ascii_case t ''nan'' then Some NaN
               else map_option rnd (parse_number t))
      in map_option (if neg then float_neg else id) v)"

abbreviation parse_f32 :: "string \<Rightarrow> float_val option" where
  "parse_f32 \<equiv> parse_float f32_of"

abbreviation parse_f64 :: "string \<Rightarrow> float_val option" where
  "parse_f64 \<equiv> parse_float f64_of"

section \<open>The logarithm of the unit\<close>

lemma nat_log2_bounds: "0 < n \<Longrightarrow> 2 ^ nat_log2 n \<le> n \<and> n < 2 ^ Suc (nat_log2 n)"
proof (induction n rule: nat_log2.induct)
  case (1 n)
  show ?case
  proof (cases "n < 2")
    case True
    with "1.prems" show ?thesis by (simp add: nat_log2.simps [of n])
  next
    case False
    then have "2 ^ nat_log2 (n div 2) \<le> n div 2 \<and> n div 2 < 2 ^ Suc (nat_log2 (n div 2))"
      by (intro "1.IH") auto
    with False show ?thesis by (auto simp: nat_log2.simps [of n])
  qed
qed

lemma powi_nat_diff: "(2::rat) powi (int a - int b) = 2 ^ a / 2 ^ b"
  by (simp add: power_int_diff)

lemma rat_log2_bounds:
  assumes "0 < x"
  shows "2 powi (rat_log2 x) \<le> x" and "x < 2 powi (rat_log2 x + 1)"
proof -
  obtain p q where pq: "quotient_of x = (p, q)" by (cases "quotient_of x")
  have q0: "0 < q" using pq by (rule quotient_of_denom_pos)
  have xpq: "x = of_int p / of_int q" using pq by (rule quotient_of_div)
  with assms q0 have p0: "0 < p" by (simp add: zero_less_divide_iff)
  define a where "a = nat_log2 (nat p)"
  define b where "b = nat_log2 (nat q)"
  have P: "2 ^ a \<le> nat p \<and> nat p < 2 ^ Suc a" and Q: "2 ^ b \<le> nat q \<and> nat q < 2 ^ Suc b"
    unfolding a_def b_def using p0 q0 by (simp_all only: nat_log2_bounds zero_less_nat_eq)
  have P': "(2::rat) ^ a \<le> of_int p" "of_int p < (2::rat) ^ Suc a"
    using P p0 by (metis of_int_of_nat_eq of_nat_le_iff of_nat_numeral of_nat_power nat_0_le less_imp_le,
      metis P p0 of_int_of_nat_eq of_nat_less_iff of_nat_numeral of_nat_power nat_0_le less_imp_le)
  have Q': "(2::rat) ^ b \<le> of_int q" "of_int q < (2::rat) ^ Suc b"
    using Q q0 by (metis of_int_of_nat_eq of_nat_le_iff of_nat_numeral of_nat_power nat_0_le less_imp_le,
      metis Q q0 of_int_of_nat_eq of_nat_less_iff of_nat_numeral of_nat_power nat_0_le less_imp_le)
  define k where "k = int a - int b"
  have lo: "2 powi (k - 1) < x"
  proof -
    have "2 powi (k - 1) = (2::rat) ^ a / 2 ^ Suc b"
      unfolding k_def using powi_nat_diff [of a "Suc b"] by (simp add: diff_diff_eq add.commute)
    also have "\<dots> < 2 ^ a / of_int q" using Q' q0 by (simp add: frac_less2)
    also have "\<dots> \<le> x" unfolding xpq using P' q0 by (simp add: divide_right_mono)
    finally show ?thesis .
  qed
  have hi: "x < 2 powi (k + 1)"
  proof -
    have "x < 2 ^ Suc a / of_int q" unfolding xpq using P' q0 by (simp add: divide_strict_right_mono)
    also have "\<dots> \<le> 2 ^ Suc a / 2 ^ b" using Q' q0 by (simp add: frac_le)
    also have "\<dots> = 2 powi (k + 1)"
      unfolding k_def using powi_nat_diff [of "Suc a" b] by (simp add: algebra_simps)
    finally show ?thesis .
  qed
  have def: "rat_log2 x = (if 2 powi k \<le> x then k else k - 1)"
    by (simp add: rat_log2_def pq k_def a_def b_def)
  show "2 powi (rat_log2 x) \<le> x" using lo by (simp add: def)
  show "x < 2 powi (rat_log2 x + 1)" using hi by (simp add: def)
qed

lemma rat_log2_mono: "0 < x \<Longrightarrow> x \<le> y \<Longrightarrow> rat_log2 x \<le> rat_log2 y"
proof (rule ccontr)
  assume x: "0 < x" and xy: "x \<le> y" and "\<not> rat_log2 x \<le> rat_log2 y"
  then have "rat_log2 y + 1 \<le> rat_log2 x" by simp
  then have "(2::rat) powi (rat_log2 y + 1) \<le> 2 powi (rat_log2 x)"
    by (rule power_int_increasing) simp
  with rat_log2_bounds [of x] rat_log2_bounds [of y] x xy show False by simp
qed


section \<open>Rounding is monotone, exact on short values, and close\<close>

lemma round_even_bounds: "of_int (round_even x) \<le> x + 1 / 2" "x - 1 / 2 \<le> of_int (round_even x)"
  by (auto simp: round_even_def Let_def) linarith+

lemma round_even_int [simp]: "round_even (of_int k) = k"
  by (simp add: round_even_def)

lemma round_even_cases:
  "round_even x = \<lfloor>x\<rfloor> \<and> x - of_int \<lfloor>x\<rfloor> \<le> 1 / 2 \<or>
   round_even x = \<lfloor>x\<rfloor> + 1 \<and> 1 / 2 \<le> x - of_int \<lfloor>x\<rfloor>"
  by (auto simp: round_even_def Let_def)

lemma round_even_mono: "x \<le> y \<Longrightarrow> round_even x \<le> round_even y"
proof -
  assume xy: "x \<le> y"
  then have fl: "\<lfloor>x\<rfloor> \<le> \<lfloor>y\<rfloor>" by (rule floor_mono)
  show ?thesis
  proof (cases "\<lfloor>x\<rfloor> = \<lfloor>y\<rfloor>")
    case True
    with xy show ?thesis by (auto simp: round_even_def Let_def)
  next
    case False
    with fl have "\<lfloor>x\<rfloor> + 1 \<le> \<lfloor>y\<rfloor>" by simp
    with round_even_cases [of x] round_even_cases [of y] show ?thesis by linarith
  qed
qed

lemma fl_unit_pos [simp]: "0 < fl_unit p emin x"
  by (simp add: fl_unit_def)

lemma fl_unit_neq0 [simp]: "fl_unit p emin x \<noteq> 0"
  using fl_unit_pos [of p emin x] by linarith

lemma powi_2_nat: "0 \<le> k \<Longrightarrow> (2::rat) powi k = of_int (2 ^ nat k)"
  by (simp add: power_int_def)

text \<open>A multiple of a power of two that needs at most \<open>p\<close> bits is not changed.\<close>

lemma fl_round_exact:
  assumes x: "x = of_int m * 2 powi j" and m: "\<bar>m\<bar> \<le> 2 ^ p" and j: "emin - int p + 1 \<le> j"
    and p: "1 \<le> p"
  shows "fl_round p emin x = x"
proof (cases "m = 0")
  case True
  with x show ?thesis by (simp add: fl_round_def)
next
  case m0: False
  have ax: "\<bar>x\<bar> = of_int \<bar>m\<bar> * 2 powi j" by (simp add: x abs_mult)
  have x0: "0 < \<bar>x\<bar>" using m0 by (simp add: x)
  define e where "e = max (rat_log2 \<bar>x\<bar>) emin"
  define u where "u = e - int p + 1"
  have unit: "fl_unit p emin x = 2 powi u" by (simp add: fl_unit_def u_def e_def)
  have "\<exists>k. x = of_int k * 2 powi u"
  proof (cases "u \<le> j")
    case True
    then have "(2::rat) powi j = of_int (2 ^ nat (j - u)) * 2 powi u"
      by (metis diff_add_cancel diff_ge_0_iff_ge power_int_add powi_2_nat zero_neq_numeral)
    then show ?thesis unfolding x by (metis mult.assoc of_int_mult)
  next
    case False
    \<comment> \<open>Then \<open>\<bar>m\<bar> = 2 ^ p\<close>, and the value is a power of two.\<close>
    with j have e: "e = rat_log2 \<bar>x\<bar>" and uj: "j + 1 \<le> u" by (auto simp: u_def e_def)
    have "(of_int \<bar>m\<bar> :: rat) \<le> 2 ^ p" using m by (metis of_int_le_iff of_int_numeral of_int_power)
    then have "\<bar>x\<bar> \<le> 2 ^ p * 2 powi j" unfolding ax by (simp add: mult_right_mono)
    also have "\<dots> = 2 powi (int p + j)" by (simp add: power_int_add)
    finally have le: "\<bar>x\<bar> \<le> 2 powi (int p + j)" .
    have "(2::rat) powi (int p + j) \<le> 2 powi e"
      using uj by (intro power_int_increasing) (auto simp: u_def)
    with le rat_log2_bounds(1) [OF x0] have "\<bar>x\<bar> = 2 powi e" by (simp add: e)
    also have "\<dots> = 2 powi (int p - 1) * 2 powi u"
      by (simp add: u_def flip: power_int_add)
    finally have *: "\<bar>x\<bar> = 2 powi (int p - 1) * 2 powi u" .
    have "\<bar>x\<bar> = of_int (2 ^ nat (int p - 1)) * 2 powi u" using * p by (simp add: powi_2_nat)
    then have "x = of_int (2 ^ nat (int p - 1)) * 2 powi u \<or>
        x = of_int (- (2 ^ nat (int p - 1))) * 2 powi u"
      by (auto simp: abs_if split: if_splits)
    then show ?thesis by blast
  qed
  then show ?thesis by (auto simp: fl_round_def unit)
qed

lemma fl_round_mono:
  assumes x0: "0 < x" and xy: "x \<le> y" and p: "1 \<le> p"
  shows "fl_round p emin x \<le> fl_round p emin y"
proof -
  define ex where "ex = max (rat_log2 x) emin"
  define ey where "ey = max (rat_log2 y) emin"
  have y0: "0 < y" using x0 xy by simp
  have ux: "fl_unit p emin x = 2 powi (ex - int p + 1)"
    and uy: "fl_unit p emin y = 2 powi (ey - int p + 1)"
    using x0 y0 by (simp_all add: fl_unit_def ex_def ey_def)
  have rx: "fl_round p emin x = of_int (round_even (x / fl_unit p emin x)) * fl_unit p emin x"
    and ry: "fl_round p emin y = of_int (round_even (y / fl_unit p emin y)) * fl_unit p emin y"
    using x0 y0 by (simp_all add: fl_round_def)
  have exy: "ex \<le> ey" unfolding ex_def ey_def using rat_log2_mono [OF x0 xy] by auto
  show ?thesis
  proof (cases "ex = ey")
    case True
    then have same: "fl_unit p emin y = fl_unit p emin x" by (simp add: ux uy)
    have "x / fl_unit p emin x \<le> y / fl_unit p emin x"
      using xy by (simp add: divide_right_mono less_imp_le)
    then have "round_even (x / fl_unit p emin x) \<le> round_even (y / fl_unit p emin x)"
      by (rule round_even_mono)
    then show ?thesis unfolding rx ry same by (simp add: mult_right_mono less_imp_le)
  next
    case False
    with exy have lt: "ex + 1 \<le> ey" by simp
    then have ey: "ey = rat_log2 y" by (auto simp: ex_def ey_def)
    have "x \<le> 2 powi (ex + 1)"
    proof -
      have "(2::rat) powi (rat_log2 x + 1) \<le> 2 powi (ex + 1)"
        by (rule power_int_increasing) (auto simp: ex_def)
      with rat_log2_bounds(2) [OF x0] show ?thesis by simp
    qed
    also have "2 powi (ex + 1) = of_int (2 ^ p) * fl_unit p emin x"
      by (simp add: ux flip: power_int_add power_int_of_nat)
    finally have "x / fl_unit p emin x \<le> of_int (2 ^ p)" by (simp add: pos_divide_le_eq)
    then have "round_even (x / fl_unit p emin x) \<le> 2 ^ p"
      by (metis round_even_int round_even_mono)
    then have "(of_int (round_even (x / fl_unit p emin x)) :: rat) \<le> of_int (2 ^ p)"
      by (simp only: of_int_le_iff)
    then have A: "fl_round p emin x \<le> of_int (2 ^ p) * fl_unit p emin x"
      unfolding rx by (rule mult_right_mono) (simp add: less_imp_le)
    have "of_int (2 ^ p) * fl_unit p emin x = (2::rat) powi (ex + 1)"
      by (simp add: ux flip: power_int_add power_int_of_nat)
    with A have A': "fl_round p emin x \<le> 2 powi (ex + 1)" by simp
    have "of_int (2 ^ (p - 1)) * fl_unit p emin y = (2::rat) powi ey"
      using p by (simp add: uy of_nat_diff flip: power_int_add power_int_of_nat)
    moreover have "2 powi ey \<le> y" unfolding ey by (rule rat_log2_bounds(1) [OF y0])
    ultimately have "of_int (2 ^ (p - 1)) \<le> y / fl_unit p emin y"
      by (simp add: pos_le_divide_eq)
    then have "2 ^ (p - 1) \<le> round_even (y / fl_unit p emin y)"
      by (metis round_even_int round_even_mono)
    then have "(of_int (2 ^ (p - 1)) :: rat) \<le> of_int (round_even (y / fl_unit p emin y))"
      by (simp only: of_int_le_iff)
    then have "of_int (2 ^ (p - 1)) * fl_unit p emin y \<le> fl_round p emin y"
      unfolding ry by (rule mult_right_mono) (simp add: less_imp_le)
    with \<open>of_int (2 ^ (p - 1)) * fl_unit p emin y = 2 powi ey\<close>
    have B: "2 powi ey \<le> fl_round p emin y" by simp
    have "(2::rat) powi (ex + 1) \<le> 2 powi ey" using lt by (intro power_int_increasing) auto
    with A' B show ?thesis by linarith
  qed
qed

lemma fl_round_error:
  assumes x0: "0 < x" and emin: "emin \<le> rat_log2 x"
  shows "\<bar>fl_round p emin x - x\<bar> \<le> x * 2 powi (- int p)"
proof -
  define u where "u = fl_unit p emin x"
  have u: "u = 2 powi (rat_log2 x) * 2 powi (1 - int p)"
    using x0 emin by (simp add: u_def fl_unit_def max_def algebra_simps flip: power_int_add)
  have u0: "0 < u" by (simp add: u_def)
  have "\<bar>of_int (round_even (x / u)) - x / u\<bar> \<le> 1 / 2"
    using round_even_bounds [of "x / u"] by linarith
  then have "\<bar>of_int (round_even (x / u)) - x / u\<bar> * u \<le> 1 / 2 * u"
    using u0 by (intro mult_right_mono) simp_all
  moreover have "\<bar>of_int (round_even (x / u)) - x / u\<bar> * u = \<bar>fl_round p emin x - x\<bar>"
    using x0 u0 by (simp add: fl_round_def u_def [symmetric] abs_mult_pos left_diff_distrib)
  moreover have "1 / 2 * u \<le> x * 2 powi (- int p)"
  proof -
    have "1 / 2 * u = 2 powi (rat_log2 x) * 2 powi (- int p)"
      by (simp add: u power_int_diff power_int_minus field_simps)
    also have "\<dots> \<le> x * 2 powi (- int p)"
      using rat_log2_bounds(1) [OF x0] by (intro mult_right_mono) simp_all
    finally show ?thesis .
  qed
  ultimately show ?thesis by linarith
qed

lemma fl_round_nonneg: "0 \<le> x \<Longrightarrow> 1 \<le> p \<Longrightarrow> 0 \<le> fl_round p emin x"
proof -
  assume x: "0 \<le> x" "1 \<le> p"
  have "round_even 0 \<le> round_even (x / fl_unit p emin x)"
    using x by (intro round_even_mono) (simp add: less_imp_le)
  then show ?thesis using round_even_int [of 0] by (simp add: fl_round_def less_imp_le)
qed

section \<open>The rounding interface of the geometry\<close>

locale rounding =
  fixes fl :: "rat \<Rightarrow> rat"
  assumes mono: "0 \<le> x \<Longrightarrow> x \<le> y \<Longrightarrow> fl x \<le> fl y"
    and exact_quarter: "n < 2 ^ 40 \<Longrightarrow> fl (of_nat n / 4) = of_nat n / 4"
    and close: "2 powi (- 64) \<le> x \<Longrightarrow> \<bar>fl x - x\<bar> \<le> x * 2 powi (- 53)"
begin

lemma exact_nat: "n < 2 ^ 32 \<Longrightarrow> fl (of_nat n) = of_nat n"
  using exact_quarter [of "4 * n"] by simp

lemma zero [simp]: "fl 0 = 0"
  using exact_nat [of 0] by simp

lemma nonneg: "0 \<le> x \<Longrightarrow> 0 \<le> fl x"
  using mono [of 0 x] by simp

text \<open>The ratio of two sizes, scaled back, misses the size by less than a quarter.\<close>

lemma ratio_close:
  assumes w: "1 \<le> w" "w < 2 ^ 32" and t: "1 \<le> t" "t < 2 ^ 32"
  shows "of_nat t - 1 / 4 \<le> of_nat w * fl (of_nat t / of_nat w)"
    and "of_nat w * fl (of_nat t / of_nat w) \<le> of_nat t + 1 / 4"
proof -
  have w': "(of_nat w :: rat) \<le> 2 ^ 32"
    using w by (metis less_imp_le of_nat_le_iff of_nat_numeral of_nat_power)
  have t': "(of_nat t :: rat) \<le> 2 ^ 32"
    using t by (metis less_imp_le of_nat_le_iff of_nat_numeral of_nat_power)
  have w1: "(1::rat) \<le> of_nat w" and t1: "(1::rat) \<le> of_nat t" using w t by simp_all
  have "(2::rat) powi (- 64) \<le> 1 / 2 ^ 32" by (simp add: power_int_minus)
  also have "\<dots> \<le> of_nat t / of_nat w" using w' w1 t1 by (intro frac_le) auto
  finally have "\<bar>fl (of_nat t / of_nat w) - of_nat t / of_nat w\<bar>
      \<le> of_nat t / of_nat w * 2 powi (- 53)" by (rule close)
  then have "of_nat w * \<bar>fl (of_nat t / of_nat w) - of_nat t / of_nat w\<bar>
      \<le> of_nat w * (of_nat t / of_nat w * 2 powi (- 53))"
    using w1 by (intro mult_left_mono) auto
  also have "\<dots> = of_nat t * 2 powi (- 53)" using w1 by simp
  also have "\<dots> \<le> 2 ^ 32 * 2 powi (- 53)" using t' by (intro mult_right_mono) auto
  also have "\<dots> \<le> 1 / 4" by (simp add: power_int_minus)
  finally have "\<bar>of_nat w * (fl (of_nat t / of_nat w) - of_nat t / of_nat w)\<bar> \<le> 1 / 4"
    using w1 by (simp add: abs_mult)
  moreover have "of_nat w * (fl (of_nat t / of_nat w) - of_nat t / of_nat w) =
      of_nat w * fl (of_nat t / of_nat w) - (of_nat t :: rat)"
    using w1 by (simp add: right_diff_distrib)
  ultimately show "of_nat t - 1 / 4 \<le> of_nat w * fl (of_nat t / of_nat w)"
    and "of_nat w * fl (of_nat t / of_nat w) \<le> of_nat t + 1 / 4"
    by linarith+
qed

lemma scaled_le:
  assumes w: "1 \<le> w" "w < 2 ^ 32" and t: "1 \<le> t" "t < 2 ^ 32"
    and s: "0 \<le> s" "s \<le> fl (of_nat t / of_nat w)"
  shows "fl (of_nat w * s) \<le> of_nat t + 1 / 4"
proof -
  have "of_nat w * s \<le> of_nat w * fl (of_nat t / of_nat w)" using s by (intro mult_left_mono) auto
  also have "\<dots> \<le> of_nat t + 1 / 4" by (rule ratio_close [OF w t])
  finally have "of_nat w * s \<le> of_nat t + 1 / 4" .
  then have "fl (of_nat w * s) \<le> fl (of_nat t + 1 / 4)" using s by (intro mono) auto
  also have "of_nat t + 1 / 4 = (of_nat (4 * t + 1) / 4 :: rat)" by (simp add: add_divide_distrib)
  also have "fl \<dots> = \<dots>" using t by (intro exact_quarter) simp
  finally show ?thesis by (simp add: add_divide_distrib)
qed

lemma scaled_ge:
  assumes w: "1 \<le> w" "w < 2 ^ 32" and t: "1 \<le> t" "t < 2 ^ 32"
    and s: "fl (of_nat t / of_nat w) \<le> s"
  shows "of_nat t - 1 / 4 \<le> fl (of_nat w * s)"
proof -
  have "of_nat t - 1 / 4 \<le> of_nat w * fl (of_nat t / of_nat w)" by (rule ratio_close [OF w t])
  also have "\<dots> \<le> of_nat w * s" using s by (intro mult_left_mono) auto
  finally have le: "of_nat t - 1 / 4 \<le> of_nat w * s" .
  have eq: "of_nat t - 1 / 4 = (of_nat (4 * t - 1) / 4 :: rat)"
    using t by (simp add: of_nat_diff diff_divide_distrib)
  have "fl (of_nat (4 * t - 1) / 4) \<le> fl (of_nat w * s)"
    using le unfolding eq by (intro mono) auto
  moreover have "fl (of_nat (4 * t - 1) / 4) = of_nat (4 * t - 1) / 4"
    using t by (intro exact_quarter) simp
  ultimately show ?thesis by (simp add: eq)
qed

end

definition fl64 :: "rat \<Rightarrow> rat" where
  "fl64 x = fl_round 53 (-1022) x"

lemma fl64_mono: "0 \<le> x \<Longrightarrow> x \<le> y \<Longrightarrow> fl64 x \<le> fl64 y"
proof (cases "x = 0")
  case True
  assume "0 \<le> x" "x \<le> y"
  with True show ?thesis using fl_round_nonneg [of y 53 "-1022"] by (simp add: fl64_def fl_round_def)
next
  case False
  assume "0 \<le> x" "x \<le> y"
  with False show ?thesis by (simp add: fl64_def fl_round_mono)
qed

lemma fl64_exact_quarter: "n < 2 ^ 40 \<Longrightarrow> fl64 (of_nat n / 4) = of_nat n / 4"
proof -
  assume "n < 2 ^ 40"
  then have "\<bar>int n\<bar> \<le> 2 ^ 53" by simp
  then show ?thesis unfolding fl64_def
    by (intro fl_round_exact [where m = "int n" and j = "- 2"]) (simp_all add: power_int_minus)
qed

lemma fl64_close: "2 powi (- 64) \<le> x \<Longrightarrow> \<bar>fl64 x - x\<bar> \<le> x * 2 powi (- 53)"
proof -
  assume x: "2 powi (- 64) \<le> x"
  have "0 < (2::rat) powi (- 64)" by simp
  with x have x0: "0 < x" by linarith
  have "- 64 < rat_log2 x + 1"
  proof (rule ccontr)
    assume "\<not> ?thesis"
    then have "(2::rat) powi (rat_log2 x + 1) \<le> 2 powi (- 64)"
      by (intro power_int_increasing) auto
    with x rat_log2_bounds(2) [OF x0] show False by simp
  qed
  then show ?thesis
    unfolding fl64_def using fl_round_error [OF x0, of "-1022" 53] by simp
qed

interpretation f64: rounding fl64
  by unfold_locales (fact fl64_mono fl64_exact_quarter fl64_close)+

text \<open>Below \<open>2 ^ 100\<close> rounding does not overflow.\<close>

lemma f64_of_Fin: "0 \<le> x \<Longrightarrow> x \<le> 2 ^ 100 \<Longrightarrow> f64_of x = Fin (fl64 x)"
proof -
  assume x: "0 \<le> x" "x \<le> 2 ^ 100"
  have "fl64 (2 ^ 100) = 2 ^ 100"
    unfolding fl64_def
    by (rule fl_round_exact [where m = 1 and j = 100]) (simp_all add: power_int_def)
  with fl64_mono [OF x] have "fl64 x \<le> 2 ^ 100" by simp
  also have "(2::rat) ^ 100 < 2 powi 1024" by (simp add: power_int_def)
  finally show ?thesis
    using f64.nonneg [OF x(1)] by (simp add: f64_of_def fl64_def Let_def)
qed

lemma fl64_le_double: "0 \<le> x \<Longrightarrow> fl64 x \<le> 2 * x + 1"
proof -
  assume x: "0 \<le> x"
  have one: "fl64 1 = 1" using f64.exact_nat [of 1] by simp
  show ?thesis
  proof (cases "x \<le> 1")
    case True
    with f64.mono [OF x True] x one show ?thesis by simp
  next
    case False
    then have "(2::rat) powi (- 64) \<le> x" by (simp add: power_int_minus)
    from f64.close [OF this] have "\<bar>fl64 x - x\<bar> \<le> x * 2 powi (- 53)" .
    moreover have "x * 2 powi (- 53) \<le> x" using x by (simp add: power_int_minus)
    ultimately show ?thesis by linarith
  qed
qed

lemma fl64_near: "0 \<le> x \<Longrightarrow> x \<le> 2 ^ 20 \<Longrightarrow> \<bar>fl64 x - x\<bar> \<le> 1 / 2 ^ 33"
proof -
  assume x: "0 \<le> x" "x \<le> 2 ^ 20"
  let ?t = "2 powi (- 64) :: rat"
  show ?thesis
  proof (cases "?t \<le> x")
    case True
    from f64.close [OF this] have "\<bar>fl64 x - x\<bar> \<le> x * 2 powi (- 53)" .
    also have "\<dots> \<le> 2 ^ 20 * 2 powi (- 53)" using x by (intro mult_right_mono) auto
    finally show ?thesis by (simp add: power_int_minus)
  next
    case False
    then have "fl64 x \<le> fl64 ?t" using x by (intro f64.mono) auto
    moreover have "\<bar>fl64 ?t - ?t\<bar> \<le> ?t * 2 powi (- 53)" by (intro f64.close) simp
    ultimately have "fl64 x \<le> ?t + ?t * 2 powi (- 53)" by linarith
    then have "fl64 x \<le> 1 / 2 ^ 33" by (simp add: power_int_minus)
    moreover have "x \<le> 1 / 2 ^ 33" using False by (simp add: power_int_minus)
    ultimately show ?thesis using x f64.nonneg [OF x(1)] by linarith
  qed
qed

text \<open>A finite result for operands of any sign, with a coarse bound.\<close>

lemma f64_of_bounded:
  assumes "\<bar>x\<bar> \<le> 2 ^ 100"
  shows "\<exists>r. f64_of x = Fin r \<and> \<bar>r\<bar> \<le> 2 * \<bar>x\<bar> + 1"
proof -
  let ?r = "fl_round 53 (-1022) x" and ?u = "fl_unit 53 (-1022) x"
  have "\<bar>?r\<bar> \<le> 2 * \<bar>x\<bar> + 1"
  proof (cases "x = 0")
    case True
    then show ?thesis by (simp add: fl_round_def)
  next
    case False
    have u: "?u \<le> \<bar>x\<bar> + 1"
    proof (cases "-1022 \<le> rat_log2 \<bar>x\<bar>")
      case True
      then have "?u \<le> 2 powi rat_log2 \<bar>x\<bar>" by (simp add: fl_unit_def power_int_increasing)
      also have "\<dots> \<le> \<bar>x\<bar>" using rat_log2_bounds(1) [of "\<bar>x\<bar>"] False by simp
      finally show ?thesis by simp
    next
      case small: False
      then have "?u = 2 powi (- 1022 - 53 + 1)" by (simp add: fl_unit_def)
      also have "\<dots> \<le> 2 powi 0" by (rule power_int_increasing) simp_all
      finally show ?thesis by simp
    qed
    have "\<bar>of_int (round_even (x / ?u)) - x / ?u\<bar> \<le> 1 / 2"
      using round_even_bounds [of "x / ?u"] unfolding abs_le_iff by linarith
    then have "\<bar>of_int (round_even (x / ?u)) - x / ?u\<bar> * ?u \<le> 1 / 2 * ?u"
      by (rule mult_right_mono) (simp add: less_imp_le)
    then have "\<bar>?r - x\<bar> \<le> ?u / 2"
      using False by (simp add: fl_round_def abs_mult_pos left_diff_distrib less_imp_le)
    then show ?thesis using u unfolding abs_le_iff by linarith
  qed
  moreover have "2 * (2 ^ 100) + 1 < (2 powi 1024 :: rat)" by (simp add: power_int_def)
  ultimately have "\<not> 2 powi 1024 \<le> \<bar>?r\<bar>" using assms by linarith
  with \<open>\<bar>?r\<bar> \<le> 2 * \<bar>x\<bar> + 1\<close> show ?thesis by (simp add: f64_of_def Let_def)
qed

text \<open>The rules that evaluate a rounding of a numeral or of a quotient of numerals.\<close>

lemma floor_rat_numeral [simp]:
  "\<lfloor>numeral a / numeral b :: rat\<rfloor> = numeral a div numeral b"
  "\<lfloor>- (numeral a / numeral b) :: rat\<rfloor> = - numeral a div numeral b"
  "\<lfloor>1 / numeral b :: rat\<rfloor> = 1 div numeral b"
  using floor_divide_of_int_eq [of "numeral a" "numeral b", where 'a = rat]
    floor_divide_of_int_eq [of "- numeral a" "numeral b", where 'a = rat]
    floor_divide_of_int_eq [of 1 "numeral b", where 'a = rat] by simp_all

lemma quotient_of_numeral_divide:
  "quotient_of (numeral a / numeral b) = Rat.normalize (numeral a, numeral b)"
  "quotient_of (1 / numeral b) = Rat.normalize (1, numeral b)"
  using quotient_of_Fract [of "numeral a" "numeral b"] quotient_of_Fract [of 1 "numeral b"]
  by (simp_all add: Fract_of_int_quotient)

lemmas float_eval = fl_round_def fl_unit_def rat_log2_def nat_log2.simps round_even_def
  quotient_of_numeral_divide Rat.normalize_def Let_def

end
