(* ===== verification/Media.thy ===== *)
theory Media
  imports Floats
begin

text \<open>
  The vocabulary of \<open>src/core.rs\<close>: media types, fit and position modes, optimize modes,
  quality metrics, dimensions, crop rectangles, rotations and colours, each with the names
  the adapters publish and the parser that reads them back, and the errors and warnings of
  the core. The interface \<open>named_option\<close> states what every closed vocabulary promises.
\<close>

unbundle bit_operations_syntax

section \<open>The interface of a closed vocabulary\<close>

locale named_option =
  fixes as_name :: "'a \<Rightarrow> string"
    and from_str :: "string \<Rightarrow> (string, 'a) outcome"
    and accepted_aliases :: "string \<Rightarrow> 'a option"
  assumes roundtrip: "from_str (as_name x) = Ok x"
    and refuses: "(\<forall>x. s \<noteq> as_name x) \<Longrightarrow> accepted_aliases s = None \<Longrightarrow> \<exists>m. from_str s = Err m"
    and aliases: "accepted_aliases s = Some x \<Longrightarrow> from_str s = Ok x"
begin

lemma name_inject: "as_name x = as_name y \<Longrightarrow> x = y"
  by (metis outcome.inject(1) roundtrip)

lemma accepts_iff: "from_str s = Ok x \<longleftrightarrow> s = as_name x \<or> accepted_aliases s = Some x"
proof
  assume ok: "from_str s = Ok x"
  show "s = as_name x \<or> accepted_aliases s = Some x"
  proof (cases "accepted_aliases s")
    case None
    with ok refuses [of s] obtain y where "s = as_name y" by auto
    with ok roundtrip [of y] show ?thesis by simp
  next
    case (Some y)
    with aliases [OF Some] ok show ?thesis by simp
  qed
qed (auto simp: roundtrip aliases)

lemma never_panics: "no_panic (from_str s)"
proof (cases "accepted_aliases s")
  case None
  then show ?thesis
    using refuses [of s] roundtrip by (cases "\<forall>x. s \<noteq> as_name x") auto
next
  case (Some y)
  then show ?thesis using aliases [OF Some] by simp
qed

end

section \<open>Media types\<close>

datatype media_type = Jpeg | Png | Webp | Svg | Bmp | Tiff | Gif

fun media_name :: "media_type \<Rightarrow> string" where
  "media_name Jpeg = ''jpeg''"
| "media_name Png = ''png''"
| "media_name Webp = ''webp''"
| "media_name Svg = ''svg''"
| "media_name Bmp = ''bmp''"
| "media_name Tiff = ''tiff''"
| "media_name Gif = ''gif''"

fun as_mime :: "media_type \<Rightarrow> string" where
  "as_mime Jpeg = ''image/jpeg''"
| "as_mime Png = ''image/png''"
| "as_mime Webp = ''image/webp''"
| "as_mime Svg = ''image/svg+xml''"
| "as_mime Bmp = ''image/bmp''"
| "as_mime Tiff = ''image/tiff''"
| "as_mime Gif = ''image/gif''"

definition is_lossy :: "media_type \<Rightarrow> bool" where
  "is_lossy m \<longleftrightarrow> m = Jpeg \<or> m = Webp"

definition supports_optimization :: "media_type \<Rightarrow> bool" where
  "supports_optimization m \<longleftrightarrow> m = Jpeg \<or> m = Png \<or> m = Webp"

definition supports_lossy_optimization :: "media_type \<Rightarrow> bool" where
  "supports_lossy_optimization m \<longleftrightarrow> m = Jpeg \<or> m = Webp"

fun max_output_dimension :: "media_type \<Rightarrow> u32 option" where
  "max_output_dimension Jpeg = Some 65535"
| "max_output_dimension Webp = Some 16383"
| "max_output_dimension _ = None"

definition supports_icc_profile :: "media_type \<Rightarrow> bool" where
  "supports_icc_profile m \<longleftrightarrow> m = Jpeg \<or> m = Png \<or> m = Webp"

definition is_raster :: "media_type \<Rightarrow> bool" where
  "is_raster m \<longleftrightarrow> m \<noteq> Svg"

definition is_encodable :: "media_type \<Rightarrow> bool" where
  "is_encodable m \<longleftrightarrow> m \<noteq> Gif"

definition unencodable_reason :: "media_type \<Rightarrow> string option" where
  "unencodable_reason m =
     (if \<not> is_encodable m
      then Some (media_name m @
        '' is an input-only format; choose an output format such as png, jpeg, or webp'')
      else None)"

definition default_output :: "media_type \<Rightarrow> media_type" where
  "default_output m = (if is_encodable m then m else Png)"

definition media_from_str :: "string \<Rightarrow> (string, media_type) outcome" where
  "media_from_str v =
     (if v = ''jpeg'' \<or> v = ''jpg'' then Ok Jpeg
      else if v = ''png'' then Ok Png
      else if v = ''webp'' then Ok Webp
      else if v = ''svg'' then Ok Svg
      else if v = ''bmp'' then Ok Bmp
      else if v = ''tiff'' \<or> v = ''tif'' then Ok Tiff
      else if v = ''gif'' then Ok Gif
      else Err (''unsupported media type `'' @ v @ ''`''))"

definition media_aliases :: "string \<Rightarrow> media_type option" where
  "media_aliases v = (if v = ''jpg'' then Some Jpeg else if v = ''tif'' then Some Tiff else None)"

lemma all_media_type: "(\<forall>m. P m) \<longleftrightarrow>
    P Jpeg \<and> P Png \<and> P Webp \<and> P Svg \<and> P Bmp \<and> P Tiff \<and> P Gif"
  by (metis media_type.exhaust)

interpretation media: named_option media_name media_from_str media_aliases
proof unfold_locales
  show "media_from_str (media_name x) = Ok x" for x
    by (cases x) (simp_all add: media_from_str_def)
  show "\<exists>m. media_from_str s = Err m"
    if "\<forall>x. s \<noteq> media_name x" and "media_aliases s = None" for s
    using that by (auto simp: media_from_str_def media_aliases_def all_media_type split: if_splits)
  show "media_from_str s = Ok x" if "media_aliases s = Some x" for s x
    using that by (auto simp: media_from_str_def media_aliases_def split: if_splits)
qed

lemma as_mime_inject: "as_mime a = as_mime b \<longleftrightarrow> a = b"
  by (cases a; cases b) simp_all

lemma default_output_encodable: "is_encodable (default_output m)"
  by (simp add: default_output_def is_encodable_def)

section \<open>Optimize modes, metrics, fit and position\<close>

datatype optimize_mode = NoOpt | Auto | Lossless | Lossy

fun optimize_name :: "optimize_mode \<Rightarrow> string" where
  "optimize_name NoOpt = ''none''"
| "optimize_name Auto = ''auto''"
| "optimize_name Lossless = ''lossless''"
| "optimize_name Lossy = ''lossy''"

definition optimize_from_str :: "string \<Rightarrow> (string, optimize_mode) outcome" where
  "optimize_from_str v =
     (if v = ''none'' then Ok NoOpt
      else if v = ''auto'' then Ok Auto
      else if v = ''lossless'' then Ok Lossless
      else if v = ''lossy'' then Ok Lossy
      else Err (''unsupported optimize mode `'' @ v @ ''`''))"

datatype quality_metric = Ssim | Psnr

fun metric_name :: "quality_metric \<Rightarrow> string" where
  "metric_name Ssim = ''ssim''"
| "metric_name Psnr = ''psnr''"

definition metric_from_str :: "string \<Rightarrow> (string, quality_metric) outcome" where
  "metric_from_str v =
     (if v = ''ssim'' then Ok Ssim
      else if v = ''psnr'' then Ok Psnr
      else Err (''unsupported target quality metric `'' @ v @ ''`''))"

datatype fit = Contain | Cover | Fill | Inside

fun fit_name :: "fit \<Rightarrow> string" where
  "fit_name Contain = ''contain''"
| "fit_name Cover = ''cover''"
| "fit_name Fill = ''fill''"
| "fit_name Inside = ''inside''"

definition fit_from_str :: "string \<Rightarrow> (string, fit) outcome" where
  "fit_from_str v =
     (if v = ''contain'' then Ok Contain
      else if v = ''cover'' then Ok Cover
      else if v = ''fill'' then Ok Fill
      else if v = ''inside'' then Ok Inside
      else Err (''unsupported fit mode `'' @ v @ ''`''))"

datatype position =
  Center | Top | Right | Bottom | Left | TopLeft | TopRight | BottomLeft | BottomRight

fun position_name :: "position \<Rightarrow> string" where
  "position_name Center = ''center''"
| "position_name Top = ''top''"
| "position_name Right = ''right''"
| "position_name Bottom = ''bottom''"
| "position_name Left = ''left''"
| "position_name TopLeft = ''top-left''"
| "position_name TopRight = ''top-right''"
| "position_name BottomLeft = ''bottom-left''"
| "position_name BottomRight = ''bottom-right''"

definition position_from_str :: "string \<Rightarrow> (string, position) outcome" where
  "position_from_str v =
     (if v = ''center'' then Ok Center
      else if v = ''top'' then Ok Top
      else if v = ''right'' then Ok Right
      else if v = ''bottom'' then Ok Bottom
      else if v = ''left'' then Ok Left
      else if v = ''top-left'' then Ok TopLeft
      else if v = ''top-right'' then Ok TopRight
      else if v = ''bottom-left'' then Ok BottomLeft
      else if v = ''bottom-right'' then Ok BottomRight
      else Err (''unsupported position `'' @ v @ ''`''))"

abbreviation no_aliases :: "string \<Rightarrow> 'a option" where
  "no_aliases \<equiv> (\<lambda>_. None)"

lemma all_position: "(\<forall>p. P p) \<longleftrightarrow> P Center \<and> P Top \<and> P Right \<and> P Bottom \<and> P Left \<and>
    P TopLeft \<and> P TopRight \<and> P BottomLeft \<and> P BottomRight"
  by (metis position.exhaust)

lemma all_fit: "(\<forall>f. P f) \<longleftrightarrow> P Contain \<and> P Cover \<and> P Fill \<and> P Inside"
  by (metis fit.exhaust)

lemma all_optimize_mode: "(\<forall>m. P m) \<longleftrightarrow> P NoOpt \<and> P Auto \<and> P Lossless \<and> P Lossy"
  by (metis optimize_mode.exhaust)

lemma all_quality_metric: "(\<forall>m. P m) \<longleftrightarrow> P Ssim \<and> P Psnr"
  by (metis quality_metric.exhaust)

interpretation fit: named_option fit_name fit_from_str no_aliases
proof unfold_locales
  show "fit_from_str (fit_name x) = Ok x" for x by (cases x) (simp_all add: fit_from_str_def)
  show "\<exists>m. fit_from_str s = Err m" if "\<forall>x. s \<noteq> fit_name x" for s
    using that by (auto simp: fit_from_str_def all_fit)
qed simp

interpretation position: named_option position_name position_from_str no_aliases
proof unfold_locales
  show "position_from_str (position_name x) = Ok x" for x
    by (cases x) (simp_all add: position_from_str_def)
  show "\<exists>m. position_from_str s = Err m" if "\<forall>x. s \<noteq> position_name x" for s
    using that by (auto simp: position_from_str_def all_position)
qed simp

interpretation optimize: named_option optimize_name optimize_from_str no_aliases
proof unfold_locales
  show "optimize_from_str (optimize_name x) = Ok x" for x
    by (cases x) (simp_all add: optimize_from_str_def)
  show "\<exists>m. optimize_from_str s = Err m" if "\<forall>x. s \<noteq> optimize_name x" for s
    using that by (auto simp: optimize_from_str_def all_optimize_mode)
qed simp

interpretation metric: named_option metric_name metric_from_str no_aliases
proof unfold_locales
  show "metric_from_str (metric_name x) = Ok x" for x
    by (cases x) (simp_all add: metric_from_str_def)
  show "\<exists>m. metric_from_str s = Err m" if "\<forall>x. s \<noteq> metric_name x" for s
    using that by (auto simp: metric_from_str_def all_quality_metric)
qed simp

end
