(* ===== verification/Core_Types.thy ===== *)
theory Core_Types
  imports Media
begin

text \<open>
  The value types of \<open>src/core.rs\<close>: dimensions, artifacts and their metadata, crop
  rectangles, rotations, colours, integers of any width, metadata policies, and the errors
  and warnings of the core, with the text forms the signed URL and the CLI use.
\<close>

unbundle bit_operations_syntax

section \<open>Limits, dimensions, artifacts\<close>

definition MAX_OUTPUT_PIXELS :: nat where "MAX_OUTPUT_PIXELS = 67108864"
definition MAX_DECODED_PIXELS :: nat where "MAX_DECODED_PIXELS = 100000000"
definition MAX_WATERMARK_PIXELS :: nat where "MAX_WATERMARK_PIXELS = 4000000"

definition show_word :: "'a::len word \<Rightarrow> string" where
  "show_word w = show_nat (unat w)"

lemma show_word_inject [simp]: "show_word v = show_word w \<longleftrightarrow> v = w"
  unfolding show_word_def show_nat_inject by (rule unat_inject)

record dimensions =
  dim_width :: u32
  dim_height :: u32

definition dims :: "u32 \<Rightarrow> u32 \<Rightarrow> dimensions" where
  "dims w h = \<lparr>dim_width = w, dim_height = h\<rparr>"

definition pixel_count :: "dimensions \<Rightarrow> u64" where
  "pixel_count d = ucast (dim_width d) * ucast (dim_height d)"

definition show_dimensions :: "dimensions \<Rightarrow> string" where
  "show_dimensions d = show_word (dim_width d) @ ''x'' @ show_word (dim_height d)"

record raw_artifact =
  raw_bytes :: bytes
  raw_declared :: "media_type option"

record artifact_metadata =
  meta_width :: "u32 option"
  meta_height :: "u32 option"
  meta_frame_count :: u32
  meta_duration :: "nat option" \<comment> \<open>nanoseconds\<close>
  meta_has_alpha :: "bool option"
  meta_orientation :: "u16 option"

record artifact =
  art_bytes :: bytes
  art_media_type :: media_type
  art_metadata :: artifact_metadata

definition default_metadata :: artifact_metadata where
  "default_metadata = \<lparr>meta_width = None, meta_height = None, meta_frame_count = 1,
     meta_duration = None, meta_has_alpha = None, meta_orientation = None\<rparr>"

definition meta_dimensions :: "artifact_metadata \<Rightarrow> dimensions option" where
  "meta_dimensions m =
     (case (meta_width m, meta_height m) of (Some w, Some h) \<Rightarrow> Some (dims w h) | _ \<Rightarrow> None)"

definition orientation_transposes :: "u16 option \<Rightarrow> bool" where
  "orientation_transposes o' = (case o' of Some v \<Rightarrow> 5 \<le> v \<and> v \<le> 8 | None \<Rightarrow> False)"

definition oriented_dimensions :: "artifact_metadata \<Rightarrow> dimensions option" where
  "oriented_dimensions m =
     map_option (\<lambda>d. if orientation_transposes (meta_orientation m)
       then dims (dim_height d) (dim_width d) else d) (meta_dimensions m)"

text \<open>The product of two \<open>u32\<close> sizes does not wrap in \<open>u64\<close>.\<close>

lemma unat_ucast_u32_u64 [simp]: "unat (ucast (w :: u32) :: u64) = unat w"
proof -
  have "unat w < 2 ^ 64" by (rule less_trans [OF u32_less]) simp
  then show ?thesis by (simp add: unsigned_ucast_eq take_bit_nat_eq_self)
qed

lemma unat_mult_u32_u64 [simp]:
  "unat (ucast (v :: u32) * ucast (w :: u32) :: u64) = unat v * unat w"
proof -
  have "unat v * unat w \<le> 4294967295 * 4294967295"
    by (intro mult_le_mono u32_le)
  then show ?thesis by (simp add: unat_word_ariths)
qed

lemma unat_pixel_count: "unat (pixel_count d) = unat (dim_width d) * unat (dim_height d)"
  by (simp add: pixel_count_def)

section \<open>Integers of any width\<close>

datatype wide_integer = Fits int | Above | Below

definition wide_parse :: "string \<Rightarrow> wide_integer option" where
  "wide_parse text =
     (case parse_i64 text of
        Inr v \<Rightarrow> Some (Fits v)
      | Inl PosOverflow \<Rightarrow> Some Above
      | Inl NegOverflow \<Rightarrow> Some Below
      | Inl _ \<Rightarrow> None)"

fun wide_saturated :: "wide_integer \<Rightarrow> int" where
  "wide_saturated (Fits v) = v"
| "wide_saturated Above = i64_max"
| "wide_saturated Below = i64_min"

definition u32_try_from :: "int \<Rightarrow> u32 option" where
  "u32_try_from v = (if 0 \<le> v \<and> v < 2 ^ 32 then Some (word_of_int v) else None)"

definition u8_try_from :: "int \<Rightarrow> u8 option" where
  "u8_try_from v = (if 0 \<le> v \<and> v < 2 ^ 8 then Some (word_of_int v) else None)"

definition u16_try_from :: "int \<Rightarrow> u16 option" where
  "u16_try_from v = (if 0 \<le> v \<and> v < 2 ^ 16 then Some (word_of_int v) else None)"

lemma uint_u32_less [simp]: "uint (w :: u32) < 4294967296"
  using unsigned_less [of w, where ?'a = int] by simp

lemma u32_try_from_uint [simp]: "u32_try_from (uint w) = Some w"
  by (simp add: u32_try_from_def)

lemma u32_try_from_Some: "u32_try_from v = Some w \<longleftrightarrow> uint w = v"
proof
  assume "u32_try_from v = Some w"
  then have "0 \<le> v" "v < 2 ^ 32" "w = word_of_int v"
    by (auto simp: u32_try_from_def split: if_splits)
  then show "uint w = v" by (simp add: uint_word_of_int)
next
  assume "uint w = v"
  then show "u32_try_from v = Some w" using u32_try_from_uint [of w] by simp
qed

lemma wide_parse_digits:
  assumes "list_all is_ascii_digit s" and "s \<noteq> []"
  shows "wide_parse s =
    Some (if i64_max < int (decimal_value s) then Above else Fits (int (decimal_value s)))"
  by (simp add: wide_parse_def parse_i64_digits [OF assms])

lemma wide_parse_show_nat:
  "int n \<le> i64_max \<Longrightarrow> wide_parse (show_nat n) = Some (Fits (int n))"
  by (simp add: wide_parse_digits show_nat_digits)

lemma wide_parse_Fits_bounds:
  "wide_parse s = Some (Fits v) \<Longrightarrow> i64_min \<le> v \<and> v \<le> i64_max"
  by (auto simp: wide_parse_def split: sum.splits int_error.splits dest: parse_i64_bounds)

section \<open>Crop rectangles\<close>

record crop_region =
  crop_x :: u32
  crop_y :: u32
  crop_width :: u32
  crop_height :: u32

definition u32_max_text :: string where "u32_max_text = ''4294967295''"

definition crop_field :: "string \<Rightarrow> string \<Rightarrow> (string, u32) outcome" where
  "crop_field name text =
     (let too_large = ''crop '' @ name @ '' must be at most '' @ u32_max_text @ '', got '' @ quoted text;
          not_integer = ''crop '' @ name @ '' must be a non-negative integer, got '' @ quoted text
      in if \<not> list_all is_ascii_digit text then Err not_integer
         else case wide_parse text of
           Some (Fits v) \<Rightarrow>
             if 0 \<le> v then (case u32_try_from v of Some w \<Rightarrow> Ok w | None \<Rightarrow> Err too_large)
             else Err not_integer
         | Some Above \<Rightarrow> Err too_large
         | _ \<Rightarrow> Err not_integer)"

definition crop_from_str :: "string \<Rightarrow> (string, crop_region) outcome" where
  "crop_from_str s =
     (case split_on CHR '','' s of
        [p0, p1, p2, p3] \<Rightarrow>
          and_then (crop_field ''x'' p0) (\<lambda>x.
          and_then (crop_field ''y'' p1) (\<lambda>y.
          and_then (crop_field ''width'' p2) (\<lambda>w.
          and_then (crop_field ''height'' p3) (\<lambda>h.
            if w = 0 \<or> h = 0 then Err ''crop width and height must be greater than zero''
            else Ok \<lparr>crop_x = x, crop_y = y, crop_width = w, crop_height = h\<rparr>))))
      | _ \<Rightarrow> Err (''crop must be x,y,w,h (four comma-separated integers), got '' @ quoted s))"

definition show_crop :: "crop_region \<Rightarrow> string" where
  "show_crop c = show_word (crop_x c) @ '','' @ show_word (crop_y c) @ '','' @
     show_word (crop_width c) @ '','' @ show_word (crop_height c)"

lemma show_word_digits: "list_all is_ascii_digit (show_word w)"
  by (simp add: show_word_def show_nat_digits)

lemma comma_not_in_show_word [simp]: "CHR '','' \<notin> set (show_word w)"
  using show_word_digits [of w] by (auto simp: list_all_iff is_ascii_digit_def)

lemma crop_field_show_word [simp]: "crop_field n (show_word w) = Ok w"
proof -
  have "int (unat w) \<le> int 4294967295" by (intro of_nat_mono u32_le)
  then have "int (unat w) \<le> i64_max" by (rule order_trans) (simp add: i64_max_def)
  then have "wide_parse (show_nat (unat w)) = Some (Fits (int (unat w)))"
    by (rule wide_parse_show_nat)
  then show ?thesis
    using show_word_digits [of w] by (simp add: crop_field_def show_word_def Let_def)
qed

lemma crop_field_Ok:
  "crop_field n t = Ok w \<Longrightarrow> list_all is_ascii_digit t \<and> t \<noteq> [] \<and> unat w = decimal_value t"
proof -
  assume ok: "crop_field n t = Ok w"
  then have dg: "list_all is_ascii_digit t" by (auto simp: crop_field_def Let_def split: if_splits)
  with ok have ne: "t \<noteq> []" by (auto simp: crop_field_def wide_parse_def Let_def)
  from ok dg ne have "u32_try_from (int (decimal_value t)) = Some w"
    by (auto simp: crop_field_def wide_parse_digits Let_def split: if_splits option.splits)
  then have "int (unat w) = int (decimal_value t)" by (simp add: u32_try_from_Some)
  then have "unat w = decimal_value t" by (simp only: of_nat_eq_iff)
  with dg ne show ?thesis by simp
qed

section \<open>Rotation\<close>

text \<open>Rust's \<open>%\<close> on signed integers truncates towards zero.\<close>

definition rust_rem :: "int \<Rightarrow> int \<Rightarrow> int" where
  "rust_rem a b = sgn a * (\<bar>a\<bar> mod \<bar>b\<bar>)"

datatype rotation = Rotation (as_degrees: u16)

definition rotation_from_degrees :: "int \<Rightarrow> rotation" where
  "rotation_from_degrees degrees =
     (let wrapped = rust_rem degrees 360;
          normalized = (if wrapped < 0 then wrapped + 360 else wrapped)
      in Rotation (word_of_int normalized))"

definition rotation_is_identity :: "rotation \<Rightarrow> bool" where
  "rotation_is_identity r \<longleftrightarrow> as_degrees r = 0"

definition quarter_turns :: "rotation \<Rightarrow> u8 option" where
  "quarter_turns r =
     (if as_degrees r mod 90 = 0 then Some (ucast (as_degrees r div 90)) else None)"

definition show_rotation :: "rotation \<Rightarrow> string" where
  "show_rotation r = show_word (as_degrees r)"

definition ROTATION_RANGE :: string where
  "ROTATION_RANGE =
     ''the angle must be between -9223372036854775808 and 9223372036854775807 degrees''"

definition rotation_from_str :: "string \<Rightarrow> (string, rotation) outcome" where
  "rotation_from_str v =
     (case wide_parse v of
        Some (Fits d) \<Rightarrow> Ok (rotation_from_degrees (rust_rem d 360))
      | Some _ \<Rightarrow> Err (''unsupported rotation `'' @ v @ ''`: out of range, '' @ ROTATION_RANGE)
      | None \<Rightarrow> Err (''unsupported rotation `'' @ v @ ''`: expected a whole number of degrees''))"

lemma rust_rem_normalized:
  "(if rust_rem d 360 < 0 then rust_rem d 360 + 360 else rust_rem d 360) = d mod 360"
proof (cases d "0 :: int" rule: linorder_cases)
  case less
  have "d mod 360 = (if (- d) mod 360 = 0 then 0 else 360 - (- d) mod 360)"
    using zmod_zminus1_eq_if [of "- d" 360] by simp
  moreover have "0 \<le> (- d) mod 360" by simp
  ultimately show ?thesis using less by (auto simp: rust_rem_def)
qed (simp_all add: rust_rem_def)

lemma rotation_from_degrees_mod: "rotation_from_degrees d = Rotation (word_of_int (d mod 360))"
  by (simp add: rotation_from_degrees_def Let_def rust_rem_normalized)

lemma rust_rem_mod: "rust_rem d 360 mod 360 = d mod 360"
proof -
  have "(if rust_rem d 360 < 0 then rust_rem d 360 + 360 else rust_rem d 360) mod 360 = d mod 360"
    by (simp only: rust_rem_normalized) simp
  then show ?thesis by (auto split: if_splits)
qed

lemma rotation_wraps: "rotation_from_degrees (rust_rem d 360) = rotation_from_degrees d"
  by (simp add: rotation_from_degrees_mod rust_rem_mod)

lemma uint_rotation_from_degrees:
  "uint (as_degrees (rotation_from_degrees d)) = d mod 360"
proof -
  have "0 \<le> d mod 360" "d mod 360 < 2 ^ 16"
    using pos_mod_bound [of 360 d] by simp_all
  then show ?thesis
    by (simp add: rotation_from_degrees_mod uint_word_of_int)
qed

section \<open>Colours\<close>

record rgba8 =
  col_r :: u8
  col_g :: u8
  col_b :: u8
  col_a :: u8

text \<open>\<open>u8::from_str_radix(s, 16)\<close> on two bytes; it also takes a leading \<open>+\<close>.\<close>

fun hex_pair :: "string \<Rightarrow> u8 option" where
  "hex_pair [a, b] =
     (if a = CHR ''+'' then map_option of_nat (hex_val b)
      else case (hex_val a, hex_val b) of
        (Some x, Some y) \<Rightarrow> Some (of_nat (16 * x + y)) | _ \<Rightarrow> None)"
| "hex_pair _ = None"

definition color_rule :: "string \<Rightarrow> string" where
  "color_rule v = ''unsupported color `'' @ v @ ''`: a color is six or eight hexadecimal digits with no leading `#`, as in ffffff or ffffffaa''"

definition str_range :: "string \<Rightarrow> nat \<Rightarrow> nat \<Rightarrow> string" where
  "str_range s a b = take (b - a) (drop a s)"

definition rgba_from_hex :: "string \<Rightarrow> (string, rgba8) outcome" where
  "rgba_from_hex v =
     (if \<not> list_all is_ascii_hexdigit v \<or> (length v \<noteq> 6 \<and> length v \<noteq> 8) then Err (color_rule v)
      else
        and_then (ok_or (color_rule v) (hex_pair (str_range v 0 2))) (\<lambda>r.
        and_then (ok_or (color_rule v) (hex_pair (str_range v 2 4))) (\<lambda>g.
        and_then (ok_or (color_rule v) (hex_pair (str_range v 4 6))) (\<lambda>b.
        and_then (if length v = 8 then ok_or (color_rule v) (hex_pair (str_range v 6 8))
                  else Ok (- 1)) (\<lambda>a.
          Ok \<lparr>col_r = r, col_g = g, col_b = b, col_a = a\<rparr>)))))"

text \<open>\<open>encode_background\<close> of \<open>src/adapters/server/auth.rs\<close>, the form a signed URL carries.\<close>

definition encode_background :: "rgba8 \<Rightarrow> string" where
  "encode_background c =
     (if col_a c = - 1 then hex2_upper (col_r c) @ hex2_upper (col_g c) @ hex2_upper (col_b c)
      else hex2_upper (col_r c) @ hex2_upper (col_g c) @ hex2_upper (col_b c) @ hex2_upper (col_a c))"

lemma u8_div16 [simp]: "unat (w :: u8) div 16 < 16"
  using u8_less [of w] by (simp add: div_less_iff_less_mult)

lemma hex_char_upper_neq_plus [simp]: "n < 16 \<Longrightarrow> hex_char_upper n \<noteq> CHR ''+''"
proof
  assume "n < 16" "hex_char_upper n = CHR ''+''"
  then have "hex_val (CHR ''+'') = Some n" by (metis hex_val_hex_char_upper)
  then show False by (simp add: hex_val_def)
qed

lemma hex_pair_hex2_upper [simp]: "hex_pair (hex2_upper w) = Some w"
proof -
  have "16 * (unat w div 16) + unat w mod 16 = unat w" by simp
  then have "of_nat (16 * (unat w div 16) + unat w mod 16) = w" by (simp only: word_of_nat_eq_iff unat_inject, simp)
  then show ?thesis by (simp add: hex2_upper_def)
qed

lemma hex2_upper_hexdigits [simp]: "list_all is_ascii_hexdigit (hex2_upper w)"
  by (simp add: hex2_upper_def is_ascii_hexdigit_def)

lemma length_hex2_upper [simp]: "length (hex2_upper w) = 2"
  by (simp add: hex2_upper_def)

lemma hex2_upper_append [simp]:
  "take 2 (hex2_upper w @ s) = hex2_upper w" "drop 2 (hex2_upper w @ s) = s"
  by (simp_all add: hex2_upper_def)

lemma drop_hex2_upper [simp]:
  "drop 4 (hex2_upper v @ hex2_upper w @ s) = s"
  "drop 6 (hex2_upper u @ hex2_upper v @ hex2_upper w @ s) = s"
  by (simp_all add: hex2_upper_def)

section \<open>Metadata policies, errors and warnings\<close>

datatype metadata_policy = StripAll | KeepAll | PreserveIcc | PreserveExif

datatype transform_error =
    InvalidInput string
  | InvalidOptions string
  | UnsupportedInputMediaType string
  | UnsupportedOutputMediaType media_type
  | DecodeFailed string
  | EncodeFailed string
  | CapabilityMissing string
  | LimitExceeded string

fun show_transform_error :: "transform_error \<Rightarrow> string" where
  "show_transform_error (InvalidInput r) = ''invalid input: '' @ r"
| "show_transform_error (InvalidOptions r) = ''invalid transform options: '' @ r"
| "show_transform_error (UnsupportedInputMediaType r) = ''unsupported input media type: '' @ r"
| "show_transform_error (UnsupportedOutputMediaType m) =
     (case m of
        Svg \<Rightarrow> ''svg output requires an svg input; choose a raster output format such as png, jpeg, or webp''
      | Gif \<Rightarrow> ''gif is an input-only format; choose an output format such as png, jpeg, or webp''
      | other \<Rightarrow> ''unsupported output media type: '' @ as_mime other)"
| "show_transform_error (DecodeFailed r) = ''decode failed: '' @ r"
| "show_transform_error (EncodeFailed r) = ''encode failed: '' @ r"
| "show_transform_error (CapabilityMissing r) = ''missing capability: '' @ r"
| "show_transform_error (LimitExceeded r) = ''limit exceeded: '' @ r"

datatype metadata_kind = Xmp | Iptc | Exif | Icc

fun metadata_kind_name :: "metadata_kind \<Rightarrow> string" where
  "metadata_kind_name Xmp = ''XMP''"
| "metadata_kind_name Iptc = ''IPTC''"
| "metadata_kind_name Exif = ''EXIF''"
| "metadata_kind_name Icc = ''ICC profile''"

text \<open>A perceptual target: a metric and the threshold the encode should reach.\<close>

record target_quality =
  tq_metric :: quality_metric
  tq_value :: float_val

datatype transform_warning =
    MetadataDropped metadata_kind
  | OrientationDropped u16
  | TargetQualityNotReached target_quality float_val u8

section \<open>Text forms read back\<close>

text \<open>
  A crop rectangle written for a signed URL reads back as itself: for every rectangle
  with a non-zero width and height, \<open>CropRegion::from_str\<close> of its \<open>Display\<close> form is that
  rectangle, and a rectangle with a zero side is refused.
\<close>

lemma crop_text_roundtrip:
  "crop_from_str (show_crop c) =
     (if crop_width c = 0 \<or> crop_height c = 0
      then Err ''crop width and height must be greater than zero'' else Ok c)"
proof -
  have "split_on CHR '','' (show_crop c) =
      [show_word (crop_x c), show_word (crop_y c), show_word (crop_width c), show_word (crop_height c)]"
    by (simp add: show_crop_def split_on_append_sep split_on_no_sep)
  then show ?thesis by (simp add: crop_from_str_def)
qed

text \<open>
  A colour written for a signed URL reads back as itself: \<open>Rgba8::from_hex\<close> of
  \<open>encode_background\<close> is the colour, with the alpha channel restored when it was left out.
\<close>

lemma background_roundtrip [simp]: "rgba_from_hex (encode_background c) = Ok c"
  by (cases "col_a c = - 1") (simp_all add: rgba_from_hex_def encode_background_def str_range_def)

text \<open>
  Every angle \<open>i64\<close> can hold is accepted, and what it means is its remainder modulo a
  full turn in \<open>0..360\<close>: a negative angle turns counter-clockwise and one past a full turn
  wraps, however many turns it is past.
\<close>

theorem rotation_reads_modulo_turn:
  assumes "wide_parse v = Some (Fits d)"
  shows "\<exists>r. rotation_from_str v = Ok r \<and> uint (as_degrees r) = d mod 360"
  using assms by (simp add: rotation_from_str_def rotation_wraps uint_rotation_from_degrees)

theorem rotation_reads_modulo_turn_witness:
  "\<exists>r. rotation_from_str ''-90'' = Ok r \<and> uint (as_degrees r) = (- 90) mod 360"
  by (rule rotation_reads_modulo_turn) code_simp

end
