(* ===== verification/Options.thy ===== *)
theory Options
  imports Core_Types
begin

text \<open>
  Transform options of \<open>src/core.rs\<close>: the raw options an adapter fills in, the rules the
  options decide between themselves (\<open>validate_without_input\<close>), the resolution against the
  input format (\<open>normalize\<close>), the metadata flags the adapters share, and the numbers read at
  any width. Errors are \<open>transform_error\<close>s; every rejection here is \<open>InvalidOptions\<close>.
\<close>

unbundle bit_operations_syntax

section \<open>Target qualities\<close>

definition target_quality_from_str :: "string \<Rightarrow> (string, target_quality) outcome" where
  "target_quality_from_str value =
     and_then (ok_or ''targetQuality must be <metric>:<value>, for example ssim:0.98''
       (split_once CHR '':'' value)) (\<lambda>(metric, raw).
     and_then (metric_from_str metric) (\<lambda>m.
     and_then (ok_or (''target quality value must be a number, got `'' @ raw @ ''`'') (parse_f32 raw)) (\<lambda>v.
       Ok \<lparr>tq_metric = m, tq_value = v\<rparr>)))"

definition default_lossy_target_quality :: "media_type \<Rightarrow> target_quality option" where
  "default_lossy_target_quality m =
     (if m = Jpeg \<or> m = Webp
      then Some \<lparr>tq_metric = Ssim, tq_value = f32_of (985 / 1000)\<rparr> else None)"

section \<open>Raw and normalized options\<close>

record transform_options =
  opt_width :: "u32 option"
  opt_height :: "u32 option"
  opt_fit :: "fit option"
  opt_position :: "position option"
  opt_format :: "media_type option"
  opt_quality :: "u8 option"
  opt_optimize :: optimize_mode
  opt_target_quality :: "target_quality option"
  opt_background :: "rgba8 option"
  opt_rotate :: rotation
  opt_auto_orient :: bool
  opt_strip_metadata :: bool
  opt_preserve_exif :: bool
  opt_blur :: "float_val option"
  opt_sharpen :: "float_val option"
  opt_grayscale :: bool
  opt_without_enlargement :: bool
  opt_crop :: "crop_region option"
  opt_deadline :: "nat option"

definition default_options :: transform_options where
  "default_options = \<lparr>opt_width = None, opt_height = None, opt_fit = None, opt_position = None,
     opt_format = None, opt_quality = None, opt_optimize = NoOpt, opt_target_quality = None,
     opt_background = None, opt_rotate = Rotation 0, opt_auto_orient = True,
     opt_strip_metadata = True, opt_preserve_exif = False, opt_blur = None, opt_sharpen = None,
     opt_grayscale = False, opt_without_enlargement = False, opt_crop = None,
     opt_deadline = None\<rparr>"

record normalized_options =
  n_width :: "u32 option"
  n_height :: "u32 option"
  n_fit :: "fit option"
  n_position :: position
  n_format :: media_type
  n_quality :: "u8 option"
  n_optimize :: optimize_mode
  n_target_quality :: "target_quality option"
  n_background :: "rgba8 option"
  n_rotate :: rotation
  n_auto_orient :: bool
  n_metadata_policy :: metadata_policy
  n_blur :: "float_val option"
  n_sharpen :: "float_val option"
  n_grayscale :: bool
  n_without_enlargement :: bool
  n_crop :: "crop_region option"
  n_deadline :: "nat option"

section \<open>Rules on one option\<close>

definition validate_dimension :: "string \<Rightarrow> u32 option \<Rightarrow> (transform_error, unit) outcome" where
  "validate_dimension name v =
     reject_if (v = Some 0) (InvalidOptions (name @ '' must be greater than zero''))"

definition quality_range_message :: string where
  "quality_range_message = ''quality must be between 1 and 100''"

definition validate_quality_value :: "int \<Rightarrow> (string, u8) outcome" where
  "validate_quality_value v =
     (if 1 \<le> v \<and> v \<le> 100 then Ok (word_of_int v) else Err quality_range_message)"

definition validate_quality :: "u8 option \<Rightarrow> (transform_error, unit) outcome" where
  "validate_quality v =
     (case v of
        Some q \<Rightarrow> map_err InvalidOptions (map_ok (\<lambda>_. ()) (validate_quality_value (uint q)))
      | None \<Rightarrow> Ok ())"

definition validate_target_quality :: "target_quality option \<Rightarrow> (transform_error, unit) outcome" where
  "validate_target_quality t =
     (case t of
        None \<Rightarrow> Ok ()
      | Some tq \<Rightarrow>
          if \<not> is_finite (tq_value tq) then Err (InvalidOptions ''targetQuality must be finite'')
          else (case tq_metric tq of
              Ssim \<Rightarrow> reject_if (\<not> float_in_range (Fin 0) (Fin 1) (tq_value tq) \<or> tq_value tq = Fin 0)
                (InvalidOptions ''ssim targetQuality must be greater than 0.0 and at most 1.0'')
            | Psnr \<Rightarrow> reject_if (float_le (tq_value tq) (Fin 0))
                (InvalidOptions ''psnr targetQuality must be greater than 0'')))"

definition sigma_ok :: "float_val \<Rightarrow> bool" where
  "sigma_ok sigma \<longleftrightarrow> float_in_range (f32_of (1 / 10)) (Fin 100) sigma"

definition validate_blur :: "float_val option \<Rightarrow> (transform_error, unit) outcome" where
  "validate_blur v =
     (case v of
        Some sigma \<Rightarrow> reject_if (\<not> sigma_ok sigma)
          (InvalidOptions ''blur sigma must be between 0.1 and 100.0'')
      | None \<Rightarrow> Ok ())"

definition validate_sharpen :: "float_val option \<Rightarrow> (transform_error, unit) outcome" where
  "validate_sharpen v =
     (case v of
        Some sigma \<Rightarrow> reject_if (\<not> sigma_ok sigma)
          (InvalidOptions ''sharpen sigma must be between 0.1 and 100.0'')
      | None \<Rightarrow> Ok ())"

section \<open>Rules the options decide between themselves\<close>

definition has_bounded_resize :: "transform_options \<Rightarrow> bool" where
  "has_bounded_resize opts \<longleftrightarrow> opt_width opts \<noteq> None \<and> opt_height opts \<noteq> None"

definition validate_without_input :: "transform_options \<Rightarrow> (transform_error, unit) outcome" where
  "validate_without_input opts =
     and_then (validate_dimension ''width'' (opt_width opts)) (\<lambda>_.
     and_then (validate_dimension ''height'' (opt_height opts)) (\<lambda>_.
     and_then (validate_quality (opt_quality opts)) (\<lambda>_.
     and_then (validate_target_quality (opt_target_quality opts)) (\<lambda>_.
     and_then (validate_blur (opt_blur opts)) (\<lambda>_.
     and_then (validate_sharpen (opt_sharpen opts)) (\<lambda>_.
     and_then (case opt_crop opts of
         Some c \<Rightarrow> reject_if (crop_width c = 0 \<or> crop_height c = 0)
           (InvalidOptions ''crop width and height must be greater than zero'')
       | None \<Rightarrow> Ok ()) (\<lambda>_.
     and_then (reject_if (opt_fit opts \<noteq> None \<and> \<not> has_bounded_resize opts)
       (InvalidOptions ''fit requires both width and height'')) (\<lambda>_.
     and_then (reject_if (opt_position opts \<noteq> None \<and> \<not> has_bounded_resize opts)
       (InvalidOptions ''position requires both width and height'')) (\<lambda>_.
     and_then (reject_if (opt_without_enlargement opts \<and> opt_width opts = None \<and> opt_height opts = None)
       (InvalidOptions ''withoutEnlargement requires width or height'')) (\<lambda>_.
       reject_if (opt_preserve_exif opts \<and> opt_strip_metadata opts)
         (InvalidOptions ''preserveExif requires stripMetadata to be false'')))))))))))"

definition svg_passthrough_unsupported_option :: "transform_options \<Rightarrow> string option" where
  "svg_passthrough_unsupported_option opts =
     (if opt_width opts \<noteq> None then Some ''width''
      else if opt_height opts \<noteq> None then Some ''height''
      else if \<not> rotation_is_identity (opt_rotate opts) then Some ''rotate''
      else if opt_grayscale opts then Some ''grayscale''
      else if opt_background opts \<noteq> None then Some ''background''
      else None)"

definition normalize_metadata_policy ::
  "bool \<Rightarrow> bool \<Rightarrow> optimize_mode \<Rightarrow> media_type \<Rightarrow> metadata_policy" where
  "normalize_metadata_policy strip preserve optimize format =
     (if preserve then PreserveExif
      else if strip \<and> optimize \<noteq> NoOpt \<and> supports_icc_profile format then PreserveIcc
      else if strip then StripAll
      else KeepAll)"

definition resolve_format :: "transform_options \<Rightarrow> media_type \<Rightarrow> media_type" where
  "resolve_format opts input =
     (case opt_format opts of Some f \<Rightarrow> f | None \<Rightarrow> default_output input)"

definition normalize :: "transform_options \<Rightarrow> media_type \<Rightarrow> (transform_error, normalized_options) outcome"
where
  "normalize opts input =
     and_then (validate_without_input opts) (\<lambda>_.
     let format = resolve_format opts input; optimize = opt_optimize opts in
     and_then (reject_if (optimize \<noteq> NoOpt \<and> \<not> supports_optimization format)
       (InvalidOptions (''optimization is not supported for '' @ media_name format @ '' output''))) (\<lambda>_.
     and_then (reject_if (optimize = Lossy \<and> \<not> supports_lossy_optimization format)
       (InvalidOptions (''lossy optimization requires jpeg or webp output, got '' @ media_name format))) (\<lambda>_.
     and_then (reject_if (opt_preserve_exif opts \<and> format = Svg)
       (InvalidOptions ''preserveExif is not supported with SVG output'')) (\<lambda>_.
     and_then (if input = Svg \<and> format = Svg then
         (case svg_passthrough_unsupported_option opts of
            Some option \<Rightarrow> Err (InvalidOptions (option @
              '' is not supported with SVG output; choose a raster output format such as png''))
          | None \<Rightarrow> Ok ())
       else Ok ()) (\<lambda>_.
     and_then (reject_if (opt_quality opts \<noteq> None \<and> \<not> is_lossy format)
       (InvalidOptions ''quality requires a lossy output format'')) (\<lambda>_.
     and_then (reject_if (opt_quality opts \<noteq> None \<and> optimize = Lossless)
       (InvalidOptions ''quality cannot be combined with optimize=lossless'')) (\<lambda>_.
     and_then (reject_if (opt_target_quality opts \<noteq> None \<and> (optimize = NoOpt \<or> optimize = Lossless))
       (InvalidOptions ''targetQuality requires optimize=auto or optimize=lossy'')) (\<lambda>_.
     and_then (reject_if (opt_target_quality opts \<noteq> None \<and> \<not> supports_lossy_optimization format)
       (InvalidOptions ''targetQuality requires jpeg or webp output'')) (\<lambda>_.
       Ok \<lparr>n_width = opt_width opts, n_height = opt_height opts,
         n_fit = (if has_bounded_resize opts
           then Some (case opt_fit opts of Some f \<Rightarrow> f | None \<Rightarrow> Contain) else None),
         n_position = (case opt_position opts of Some p \<Rightarrow> p | None \<Rightarrow> Center),
         n_format = format, n_quality = opt_quality opts, n_optimize = optimize,
         n_target_quality = opt_target_quality opts, n_background = opt_background opts,
         n_rotate = opt_rotate opts, n_auto_orient = opt_auto_orient opts,
         n_metadata_policy = normalize_metadata_policy (opt_strip_metadata opts)
           (opt_preserve_exif opts) optimize format,
         n_blur = opt_blur opts, n_sharpen = opt_sharpen opts, n_grayscale = opt_grayscale opts,
         n_without_enlargement = opt_without_enlargement opts, n_crop = opt_crop opts,
         n_deadline = opt_deadline opts\<rparr>)))))))))"

section \<open>Metadata flags shared by the adapters\<close>

definition resolve_metadata_flags ::
  "bool option \<Rightarrow> bool option \<Rightarrow> bool option \<Rightarrow> (transform_error, bool \<times> bool) outcome" where
  "resolve_metadata_flags strip keep preserve =
     (let k = (case keep of Some b \<Rightarrow> b | None \<Rightarrow> False);
          p = (case preserve of Some b \<Rightarrow> b | None \<Rightarrow> False)
      in if k \<and> p then
           Err (InvalidOptions ''keepMetadata and preserveExif cannot both be true'')
         else Ok (if k \<or> p then False else (case strip of Some b \<Rightarrow> b | None \<Rightarrow> True), p))"

section \<open>Numbers read at any width\<close>

definition dimension_value :: "int \<Rightarrow> string \<Rightarrow> string \<Rightarrow> (string, u32) outcome" where
  "dimension_value v not_positive too_large =
     (case u32_try_from v of
        Some p \<Rightarrow> Ok p
      | None \<Rightarrow> if v \<le> 0 then Err not_positive else Err too_large)"

definition validate_width_value :: "int \<Rightarrow> (string, u32) outcome" where
  "validate_width_value v = dimension_value v
     ''width must be greater than zero'' ''width is too large to be a number of pixels''"

definition validate_height_value :: "int \<Rightarrow> (string, u32) outcome" where
  "validate_height_value v = dimension_value v
     ''height must be greater than zero'' ''height is too large to be a number of pixels''"

definition validate_watermark_margin_value :: "int \<Rightarrow> (string, u32) outcome" where
  "validate_watermark_margin_value v = dimension_value v
     ''watermark margin must not be negative''
     ''watermark margin is too large to be a number of pixels''"

definition opacity_message :: string where
  "opacity_message = ''watermark opacity must be between 1 and 100''"

definition validate_watermark_opacity_value :: "int \<Rightarrow> (string, u8) outcome" where
  "validate_watermark_opacity_value v =
     (if 1 \<le> v \<and> v \<le> 100 then Ok (word_of_int v) else Err opacity_message)"

definition validate_watermark_opacity :: "u8 \<Rightarrow> (string, unit) outcome" where
  "validate_watermark_opacity o' = reject_if (o' = 0 \<or> 100 < o') opacity_message"

text \<open>
  What \<open>serde\<close> hands the visitor of \<open>WideInteger\<close>: a signed, an unsigned or a floating
  number. \<open>serde_json\<close> passes an integer outside both 64-bit types as a float.
\<close>

datatype json_number = JInt int | JUnsigned int | JFloat float_val

definition wide_visit :: "json_number \<Rightarrow> (string, wide_integer) outcome" where
  "wide_visit j =
     (case j of
        JInt v \<Rightarrow> Ok (Fits v)
      | JUnsigned v \<Rightarrow> Ok (if v \<le> i64_max then Fits v else Above)
      | JFloat (Fin a) \<Rightarrow>
          if a = of_int \<lfloor>a\<rfloor> \<and> 2 ^ 63 \<le> a then Ok Above
          else if a = of_int \<lfloor>a\<rfloor> \<and> a < - (2 ^ 63) then Ok Below
          else Err ''invalid type: floating point, expected an integer''
      | JFloat _ \<Rightarrow> Err ''invalid type: floating point, expected an integer'')"

definition deserialize_ranged ::
  "(int \<Rightarrow> (string, 'a) outcome) \<Rightarrow> json_number option \<Rightarrow> (string, 'a option) outcome" where
  "deserialize_ranged validate j =
     (case j of
        None \<Rightarrow> Ok None
      | Some n \<Rightarrow> and_then (wide_visit n) (\<lambda>v. map_ok Some (validate (wide_saturated v))))"

text \<open>
  A value the field can hold is handed on; one it cannot hold is refused with the sentence of
  the range check. \<open>expect_err\<close> panics if the range check accepts it.
\<close>

definition expect_err :: "('e, 'a) outcome \<Rightarrow> ('e, 'b) outcome" where
  "expect_err m = (case m of Err e \<Rightarrow> Err e | _ \<Rightarrow> Panic)"

definition hold_or_judge ::
  "(int \<Rightarrow> 'a option) \<Rightarrow> (int \<Rightarrow> (string, 'a) outcome) \<Rightarrow> int \<Rightarrow> (string, 'a) outcome" where
  "hold_or_judge try_from validate v =
     (case try_from v of Some w \<Rightarrow> Ok w | None \<Rightarrow> expect_err (validate v))"

definition deserialize_quality :: "json_number option \<Rightarrow> (string, u8 option) outcome" where
  "deserialize_quality = deserialize_ranged (hold_or_judge u8_try_from validate_quality_value)"

definition deserialize_width :: "json_number option \<Rightarrow> (string, u32 option) outcome" where
  "deserialize_width = deserialize_ranged validate_width_value"

definition deserialize_height :: "json_number option \<Rightarrow> (string, u32 option) outcome" where
  "deserialize_height = deserialize_ranged validate_height_value"

definition deserialize_watermark_opacity :: "json_number option \<Rightarrow> (string, u8 option) outcome" where
  "deserialize_watermark_opacity =
     deserialize_ranged (hold_or_judge u8_try_from validate_watermark_opacity_value)"

definition deserialize_watermark_margin :: "json_number option \<Rightarrow> (string, u32 option) outcome" where
  "deserialize_watermark_margin = deserialize_ranged validate_watermark_margin_value"

definition deserialize_rotation_degrees :: "json_number option \<Rightarrow> (string, int option) outcome" where
  "deserialize_rotation_degrees j =
     (case j of
        None \<Rightarrow> Ok None
      | Some n \<Rightarrow> and_then (wide_visit n) (\<lambda>v.
          case v of
            Fits d \<Rightarrow> Ok (Some (rust_rem d 360))
          | _ \<Rightarrow> Err (''rotate is out of range: '' @ ROTATION_RANGE)))"

section \<open>Requests\<close>

record watermark_input =
  wm_image :: artifact
  wm_position :: position
  wm_opacity :: u8
  wm_margin :: u32

definition WATERMARK_DEFAULT_POSITION :: position where "WATERMARK_DEFAULT_POSITION = BottomRight"
definition WATERMARK_DEFAULT_OPACITY :: u8 where "WATERMARK_DEFAULT_OPACITY = 50"
definition WATERMARK_DEFAULT_MARGIN :: u32 where "WATERMARK_DEFAULT_MARGIN = 10"

definition watermark_new :: "artifact \<Rightarrow> watermark_input" where
  "watermark_new img = \<lparr>wm_image = img, wm_position = WATERMARK_DEFAULT_POSITION,
     wm_opacity = WATERMARK_DEFAULT_OPACITY, wm_margin = WATERMARK_DEFAULT_MARGIN\<rparr>"

definition validate_watermark :: "watermark_input \<Rightarrow> (transform_error, unit) outcome" where
  "validate_watermark wm =
     and_then (map_err InvalidOptions (validate_watermark_opacity (wm_opacity wm))) (\<lambda>_.
       reject_if (\<not> is_raster (art_media_type (wm_image wm)))
         (InvalidOptions ''watermark image must be a raster format''))"

record transform_request =
  req_input :: artifact
  req_options :: transform_options
  req_watermark :: "watermark_input option"

record normalized_request =
  nreq_input :: artifact
  nreq_options :: normalized_options
  nreq_watermark :: "watermark_input option"

definition normalize_request :: "transform_request \<Rightarrow> (transform_error, normalized_request) outcome" where
  "normalize_request req =
     and_then (normalize (req_options req) (art_media_type (req_input req))) (\<lambda>options.
     and_then (case req_watermark req of Some wm \<Rightarrow> validate_watermark wm | None \<Rightarrow> Ok ()) (\<lambda>_.
       Ok \<lparr>nreq_input = req_input req, nreq_options = options,
         nreq_watermark = req_watermark req\<rparr>))"

section \<open>What normalization promises\<close>

text \<open>The facts about the one-option checks that the proofs below share.\<close>

lemma validate_dimension_Ok [simp]: "validate_dimension n v = Ok u \<longleftrightarrow> v \<noteq> Some 0"
  by (auto simp: validate_dimension_def)

lemma validate_quality_Ok [simp]:
  "validate_quality v = Ok u \<longleftrightarrow> (\<forall>q. v = Some q \<longrightarrow> 1 \<le> unat q \<and> unat q \<le> 100)"
proof (cases v)
  case (Some q)
  have "uint q = int (unat q)" by simp
  then have "1 \<le> uint q \<and> uint q \<le> 100 \<longleftrightarrow> 1 \<le> unat q \<and> unat q \<le> 100" by presburger
  then show ?thesis
    unfolding validate_quality_def validate_quality_value_def Some by (simp split: if_splits)
qed (simp add: validate_quality_def)

lemma validate_blur_Ok [simp]: "validate_blur v = Ok u \<longleftrightarrow> (\<forall>s. v = Some s \<longrightarrow> sigma_ok s)"
  by (auto simp: validate_blur_def split: option.splits)

lemma validate_sharpen_Ok [simp]: "validate_sharpen v = Ok u \<longleftrightarrow> (\<forall>s. v = Some s \<longrightarrow> sigma_ok s)"
  by (auto simp: validate_sharpen_def split: option.splits)

definition target_ok :: "target_quality \<Rightarrow> bool" where
  "target_ok tq \<longleftrightarrow> (\<exists>a. tq_value tq = Fin a \<and> 0 < a \<and> (tq_metric tq = Ssim \<longrightarrow> a \<le> 1))"

lemma validate_target_quality_Ok [simp]:
  "validate_target_quality v = Ok u \<longleftrightarrow> (\<forall>t. v = Some t \<longrightarrow> target_ok t)"
proof (cases v)
  case (Some t)
  show ?thesis
    by (cases "tq_value t"; cases "tq_metric t")
      (auto simp: Some validate_target_quality_def target_ok_def is_finite_def float_in_range_def
        not_le order.order_iff_strict)
qed (simp add: validate_target_quality_def)

text \<open>Every outcome of a check is success or \<open>InvalidOptions\<close>.\<close>

definition only_invalid_options :: "(transform_error, 'a) outcome \<Rightarrow> bool" where
  "only_invalid_options m \<longleftrightarrow> (\<exists>x. m = Ok x) \<or> (\<exists>msg. m = Err (InvalidOptions msg))"

lemma only_invalid_options_simps [simp]:
  "only_invalid_options (Ok x)"
  "only_invalid_options (Err (InvalidOptions msg))"
  "only_invalid_options (reject_if c (InvalidOptions msg))"
  by (auto simp: only_invalid_options_def reject_if_def)

lemma only_invalid_options_and_then [intro]:
  assumes "only_invalid_options m" and "\<And>x. m = Ok x \<Longrightarrow> only_invalid_options (f x)"
  shows "only_invalid_options (and_then m f)"
  using assms unfolding only_invalid_options_def by (cases m) auto

lemma only_invalid_options_checks [simp]:
  "only_invalid_options (validate_dimension n v)"
  "only_invalid_options (validate_quality q)"
  "only_invalid_options (validate_target_quality t)"
  "only_invalid_options (validate_blur b)"
  "only_invalid_options (validate_sharpen b)"
  by (auto simp: validate_dimension_def validate_quality_def validate_quality_value_def
      validate_target_quality_def validate_blur_def validate_sharpen_def
      split: option.splits quality_metric.splits)

lemma only_invalid_options_without_input [simp]:
  "only_invalid_options (validate_without_input opts)"
  unfolding validate_without_input_def
  by (intro only_invalid_options_and_then) (simp_all split: option.splits)

text \<open>The well-formedness invariant of normalized options, relative to the input format.\<close>

definition normalized_ok :: "media_type \<Rightarrow> normalized_options \<Rightarrow> bool" where
  "normalized_ok input n \<longleftrightarrow>
     n_width n \<noteq> Some 0 \<and> n_height n \<noteq> Some 0 \<and>
     (n_fit n \<noteq> None \<longleftrightarrow> n_width n \<noteq> None \<and> n_height n \<noteq> None) \<and>
     (\<forall>q. n_quality n = Some q \<longrightarrow>
        1 \<le> unat q \<and> unat q \<le> 100 \<and> is_lossy (n_format n) \<and> n_optimize n \<noteq> Lossless) \<and>
     (\<forall>t. n_target_quality n = Some t \<longrightarrow> target_ok t \<and>
        (n_optimize n = Auto \<or> n_optimize n = Lossy) \<and> supports_lossy_optimization (n_format n)) \<and>
     (n_optimize n \<noteq> NoOpt \<longrightarrow> supports_optimization (n_format n)) \<and>
     (n_optimize n = Lossy \<longrightarrow> supports_lossy_optimization (n_format n)) \<and>
     (\<forall>s. n_blur n = Some s \<longrightarrow> sigma_ok s) \<and> (\<forall>s. n_sharpen n = Some s \<longrightarrow> sigma_ok s) \<and>
     (\<forall>c. n_crop n = Some c \<longrightarrow> crop_width c \<noteq> 0 \<and> crop_height c \<noteq> 0) \<and>
     (n_without_enlargement n \<longrightarrow> n_width n \<noteq> None \<or> n_height n \<noteq> None) \<and>
     (n_metadata_policy n = PreserveExif \<longrightarrow> n_format n \<noteq> Svg) \<and>
     (n_metadata_policy n = PreserveIcc \<longrightarrow>
        n_optimize n \<noteq> NoOpt \<and> supports_icc_profile (n_format n)) \<and>
     (input = Svg \<and> n_format n = Svg \<longrightarrow>
        n_width n = None \<and> n_height n = None \<and> rotation_is_identity (n_rotate n) \<and>
        \<not> n_grayscale n \<and> n_background n = None)"

text \<open>What \<open>normalize\<close> answers when it accepts, and under which conditions.\<close>

lemma validate_without_input_Ok:
  "validate_without_input opts = Ok u \<longleftrightarrow>
     opt_width opts \<noteq> Some 0 \<and> opt_height opts \<noteq> Some 0 \<and>
     (\<forall>q. opt_quality opts = Some q \<longrightarrow> 1 \<le> unat q \<and> unat q \<le> 100) \<and>
     (\<forall>t. opt_target_quality opts = Some t \<longrightarrow> target_ok t) \<and>
     (\<forall>s. opt_blur opts = Some s \<longrightarrow> sigma_ok s) \<and> (\<forall>s. opt_sharpen opts = Some s \<longrightarrow> sigma_ok s) \<and>
     (\<forall>c. opt_crop opts = Some c \<longrightarrow> crop_width c \<noteq> 0 \<and> crop_height c \<noteq> 0) \<and>
     (opt_fit opts \<noteq> None \<longrightarrow> has_bounded_resize opts) \<and>
     (opt_position opts \<noteq> None \<longrightarrow> has_bounded_resize opts) \<and>
     (opt_without_enlargement opts \<longrightarrow> opt_width opts \<noteq> None \<or> opt_height opts \<noteq> None) \<and>
     \<not> (opt_preserve_exif opts \<and> opt_strip_metadata opts)"
  unfolding validate_without_input_def by (cases "opt_crop opts"; cases "opt_fit opts"; cases "opt_position opts") simp_all

lemma svg_passthrough_None:
  "svg_passthrough_unsupported_option opts = None \<longleftrightarrow>
     opt_width opts = None \<and> opt_height opts = None \<and> rotation_is_identity (opt_rotate opts) \<and>
     \<not> opt_grayscale opts \<and> opt_background opts = None"
  by (simp add: svg_passthrough_unsupported_option_def)

lemma normalize_OkD:
  assumes "normalize opts input = Ok n"
  shows "validate_without_input opts = Ok ()"
    and "n = \<lparr>n_width = opt_width opts, n_height = opt_height opts,
         n_fit = (if has_bounded_resize opts
           then Some (case opt_fit opts of Some f \<Rightarrow> f | None \<Rightarrow> Contain) else None),
         n_position = (case opt_position opts of Some p \<Rightarrow> p | None \<Rightarrow> Center),
         n_format = resolve_format opts input, n_quality = opt_quality opts,
         n_optimize = opt_optimize opts,
         n_target_quality = opt_target_quality opts, n_background = opt_background opts,
         n_rotate = opt_rotate opts, n_auto_orient = opt_auto_orient opts,
         n_metadata_policy = normalize_metadata_policy (opt_strip_metadata opts)
           (opt_preserve_exif opts) (opt_optimize opts) (resolve_format opts input),
         n_blur = opt_blur opts, n_sharpen = opt_sharpen opts, n_grayscale = opt_grayscale opts,
         n_without_enlargement = opt_without_enlargement opts, n_crop = opt_crop opts,
         n_deadline = opt_deadline opts\<rparr>"
    and "opt_optimize opts \<noteq> NoOpt \<Longrightarrow> supports_optimization (resolve_format opts input)"
    and "opt_optimize opts = Lossy \<Longrightarrow> supports_lossy_optimization (resolve_format opts input)"
    and "opt_preserve_exif opts \<Longrightarrow> resolve_format opts input \<noteq> Svg"
    and "input = Svg \<Longrightarrow> resolve_format opts input = Svg \<Longrightarrow>
           svg_passthrough_unsupported_option opts = None"
    and "opt_quality opts \<noteq> None \<Longrightarrow>
           is_lossy (resolve_format opts input) \<and> opt_optimize opts \<noteq> Lossless"
    and "opt_target_quality opts \<noteq> None \<Longrightarrow> opt_optimize opts \<noteq> NoOpt \<and>
           opt_optimize opts \<noteq> Lossless \<and> supports_lossy_optimization (resolve_format opts input)"
  using assms unfolding normalize_def Let_def
  by (auto split: if_splits option.splits)

lemma optimize_other: "m \<noteq> NoOpt \<Longrightarrow> m \<noteq> Lossless \<Longrightarrow> m = Auto \<or> m = Lossy"
  by (cases m) simp_all

lemma normalize_metadata_policy_cases:
  "normalize_metadata_policy s p opt f = PreserveExif \<longleftrightarrow> p"
  "normalize_metadata_policy s p opt f = PreserveIcc \<longleftrightarrow>
     \<not> p \<and> s \<and> opt \<noteq> NoOpt \<and> supports_icc_profile f"
  by (simp_all add: normalize_metadata_policy_def)

text \<open>
  C8. Options that normalize are well formed: whatever an adapter filled in, the normalized
  options satisfy every relation between options that the pipeline relies on (no zero side, a
  fit exactly when the box is bounded, a quality only for a lossy format and never with a
  lossless optimization, a target only where a search can run, a metadata policy the output
  can carry, and no pixel option on an SVG passed through as SVG).
\<close>

theorem normalize_well_formed:
  assumes "normalize opts input = Ok n"
  shows "normalized_ok input n"
proof -
  note n = normalize_OkD [OF assms]
  note valid = n(1) [unfolded validate_without_input_Ok]
  have other: "opt_optimize opts = Auto \<or> opt_optimize opts = Lossy" if "opt_target_quality opts \<noteq> None"
    using n(8) [OF that] by (simp add: optimize_other)
  have svg: "input = Svg \<and> resolve_format opts input = Svg \<longrightarrow>
      opt_width opts = None \<and> opt_height opts = None \<and> rotation_is_identity (opt_rotate opts) \<and>
      \<not> opt_grayscale opts \<and> opt_background opts = None"
    using n(6) unfolding svg_passthrough_None by blast
  show ?thesis
    unfolding normalized_ok_def n(2)
    using valid n(3,4,5,7,8) other svg
    by (simp add: normalize_metadata_policy_cases has_bounded_resize_def; blast)
qed

theorem normalize_well_formed_witness:
  "case normalize (default_options\<lparr>opt_width := Some 8, opt_height := Some 9,
      opt_optimize := Auto\<rparr>) Png of
     Ok n \<Rightarrow> normalized_ok Png n \<and> n_fit n = Some Contain \<and> n_metadata_policy n = PreserveIcc
   | _ \<Rightarrow> False"
proof -
  let ?m = "normalize (default_options\<lparr>opt_width := Some 8, opt_height := Some 9,
      opt_optimize := Auto\<rparr>) Png"
  have "case ?m of Ok n \<Rightarrow> n_fit n = Some Contain \<and> n_metadata_policy n = PreserveIcc | _ \<Rightarrow> False"
    by code_simp
  then show ?thesis by (auto split: outcome.splits intro: normalize_well_formed)
qed

text \<open>
  Normalization is total and every refusal is \<open>InvalidOptions\<close>; a set of options that
  \<open>validate_without_input\<close> refuses is refused with the same error for every input format, so
  an adapter may check before it reads a file and answer what the transform would answer.
\<close>

theorem normalize_refuses_as_validate:
  "only_invalid_options (normalize opts input) \<and>
   (validate_without_input opts = Err e \<longrightarrow> normalize opts input = Err e)"
proof
  show "only_invalid_options (normalize opts input)"
    unfolding normalize_def Let_def
    by (intro only_invalid_options_and_then) (simp_all split: option.splits)
qed (simp add: normalize_def)

theorem normalize_refuses_as_validate_witness:
  "normalize (default_options\<lparr>opt_width := Some 0\<rparr>) Svg =
     Err (InvalidOptions ''width must be greater than zero'')"
  by (rule normalize_refuses_as_validate [THEN conjunct2, THEN mp]) code_simp

text \<open>
  The metadata flags an adapter resolves always pass the rule on metadata flags: the
  resolution refuses only \<open>keepMetadata\<close> together with \<open>preserveExif\<close>, and what it answers
  never asks to strip and to preserve at once, so no adapter can be refused by
  \<open>validate_without_input\<close> for flags it derived here.
\<close>

theorem metadata_flags_consistent:
  assumes "validate_without_input opts = Ok ()"
    and "resolve_metadata_flags strip keep preserve = Ok (s, p)"
  shows "validate_without_input (opts\<lparr>opt_strip_metadata := s, opt_preserve_exif := p\<rparr>) = Ok ()"
proof -
  have "\<not> (p \<and> s)"
    using assms(2) by (auto simp: resolve_metadata_flags_def Let_def split: if_splits)
  with assms(1) show ?thesis
    by (simp add: validate_without_input_def has_bounded_resize_def)
qed

theorem metadata_flags_consistent_witness:
  "validate_without_input (default_options\<lparr>opt_strip_metadata := False,
     opt_preserve_exif := True\<rparr>) = Ok ()"
  by (rule metadata_flags_consistent [where strip = "Some True" and keep = None
        and preserve = "Some True"]) code_simp+

section \<open>Numbers of any width\<close>

text \<open>
  What \<open>serde_json\<close> hands over for an integer literal: a \<open>u64\<close> when it is not negative and
  fits, an \<open>i64\<close> when it is negative and fits, and a whole float past either end otherwise.
  A literal just below \<open>i64::MIN\<close> may round to \<open>-(2 ^ 63)\<close> itself.
\<close>

definition serde_integer :: "int \<Rightarrow> json_number \<Rightarrow> bool" where
  "serde_integer z j \<longleftrightarrow>
     (0 \<le> z \<and> z < 2 ^ 64 \<and> j = JUnsigned z) \<or>
     (i64_min \<le> z \<and> z < 0 \<and> j = JInt z) \<or>
     (\<exists>a. 2 ^ 64 \<le> z \<and> 2 ^ 64 \<le> a \<and> j = JFloat (Fin (of_int a))) \<or>
     (\<exists>a. z < i64_min \<and> a \<le> i64_min \<and> j = JFloat (Fin (of_int a)))"

lemma wide_visit_integer:
  assumes "serde_integer z j" and "j \<noteq> JFloat (Fin (- (2 ^ 63)))"
  shows "wide_visit j = Ok (if i64_max < z then Above else if z < i64_min then Below else Fits z)"
proof -
  have float: "(2 ^ 63 \<le> (of_int a :: rat)) = (2 ^ 63 \<le> a)"
    "((of_int a :: rat) < - (2 ^ 63)) = (a < - (2 ^ 63))" for a
    by (metis of_int_le_iff of_int_numeral of_int_power,
        metis of_int_less_iff of_int_minus of_int_numeral of_int_power)
  have "a \<noteq> - (2 ^ 63)" if "j = JFloat (Fin (of_int a))" for a
    using assms(2) that by auto
  then show ?thesis
    using assms(1) unfolding serde_integer_def wide_visit_def i64_max_def i64_min_def
    by (auto simp: float)
qed

text \<open>
  An integer option is judged by its own range at any width: an integer of a JSON body,
  however long, is accepted as a quality when a \<open>u8\<close> holds it and as a width when a \<open>u32\<close>
  holds it, every other one is refused with the sentence of the range check, and the
  \<open>expect_err\<close> of the refusal cannot panic.
\<close>

theorem deserialize_any_width:
  assumes "serde_integer z j" and "j \<noteq> JFloat (Fin (- (2 ^ 63)))"
  shows "deserialize_quality (Some j) =
       (if 0 \<le> z \<and> z < 256 then Ok (Some (word_of_int z)) else Err quality_range_message) \<and>
     deserialize_width (Some j) =
       (if 0 \<le> z \<and> z < 2 ^ 32 then Ok (Some (word_of_int z))
        else if z \<le> 0 then Err ''width must be greater than zero''
        else Err ''width is too large to be a number of pixels'')"
  by (simp add: deserialize_quality_def deserialize_width_def deserialize_ranged_def
      wide_visit_integer [OF assms] hold_or_judge_def u8_try_from_def u32_try_from_def
      validate_quality_value_def validate_width_value_def dimension_value_def expect_err_def
      i64_max_def i64_min_def)

theorem deserialize_any_width_witness:
  "deserialize_quality (Some (JFloat (Fin (2 ^ 70)))) = Err quality_range_message"
proof -
  have "serde_integer (2 ^ 70) (JFloat (Fin (of_int (2 ^ 70))))"
    unfolding serde_integer_def by (intro disjI2 disjI1 exI [of _ "2 ^ 70"]) simp
  from deserialize_any_width [OF this] show ?thesis by simp
qed

text \<open>
  The band the theorem leaves out: \<open>-(2 ^ 63) - 1\<close> reaches the visitor as \<open>-(2 ^ 63)\<close>, and the
  strict comparison takes it for a float rather than an integer below the range.
\<close>

lemma below_i64_read_as_float:
  "f64_of (- (2 ^ 63) - 1) = Fin (- (2 ^ 63)) \<and>
   deserialize_quality (Some (JFloat (Fin (- (2 ^ 63))))) =
     Err ''invalid type: floating point, expected an integer''"
proof -
  have "fl_round 53 (-1022) (- (2 ^ 63) - 1) = - (2 ^ 63)" by (simp add: float_eval)
  then have "f64_of (- (2 ^ 63) - 1) = Fin (- (2 ^ 63))" by (simp add: f64_of_def)
  then show ?thesis
    by (simp add: deserialize_quality_def deserialize_ranged_def wide_visit_def)
qed

end
