(* ===== verification/Svg_Text.thy ===== *)
theory Svg_Text
  imports Core_Types
begin

text \<open>
  The SVG sniffer of \<open>src/core.rs\<close>: the walk over the XML prolog to the root element, the
  doctype with its internal subset, the root start tag and its attributes, and the intrinsic
  size they declare. The source keeps a byte index or a remaining slice; here every position
  is the remaining text, so \<open>&bytes[index..]\<close> is the text itself and an index past the end
  cannot be formed. The functions return \<open>None\<close> where the source does.
\<close>

abbreviation dquote :: char where "dquote \<equiv> CHR 0x22"
abbreviation squote :: char where "squote \<equiv> CHR 0x27"

definition is_quote :: "char \<Rightarrow> bool" where
  "is_quote c \<longleftrightarrow> c = dquote \<or> c = squote"

section \<open>The doctype\<close>

text \<open>The text past the first occurrence of a needle.\<close>

definition after_sub :: "string \<Rightarrow> string \<Rightarrow> string option" where
  "after_sub s p = map_option (\<lambda>k. drop (k + length p) s) (find_sub s p)"

lemma after_sub_length: "after_sub s p = Some r \<Longrightarrow> length r + length p \<le> length s"
  by (auto simp: after_sub_def dest: find_sub_Some)

lemma after_sub_suffix: "after_sub s p = Some r \<Longrightarrow> \<exists>q. s = q @ p @ r"
proof -
  assume "after_sub s p = Some r"
  then obtain k where k: "find_sub s p = Some k" "r = drop (k + length p) s"
    by (auto simp: after_sub_def)
  from find_sub_Some [OF k(1)] have "drop k s = p @ drop (length p) (drop k s)"
    by (metis append_take_drop_id starts_with_def)
  then have "s = take k s @ p @ r"
    using k(2) by (metis add.commute append_take_drop_id drop_drop)
  then show ?thesis by blast
qed

lemma after_sub_found:
  assumes p: "p \<noteq> []" and "\<And>k. k < length q \<Longrightarrow> \<not> starts_with (drop k (q @ p @ r)) p"
  shows "after_sub (q @ p @ r) p = Some r"
proof -
  have "find_sub (q @ p @ r) p = Some (length q)"
    using assms(2)
  proof (induction q)
    case Nil
    with p show ?case by (simp add: find_sub_here)
  next
    case (Cons c q)
    have "\<not> starts_with (c # q @ p @ r) p" using Cons.prems [of 0] by simp
    moreover have "find_sub (q @ p @ r) p = Some (length q)"
      by (rule Cons.IH) (use Cons.prems [of "Suc k" for k] in simp)
    ultimately show ?case by simp
  qed
  then show ?thesis by (simp add: after_sub_def)
qed

lemma after_sub_char:
  "c \<notin> set q \<Longrightarrow> after_sub (q @ c # r) [c] = Some r"
proof -
  assume c: "c \<notin> set q"
  have "\<not> starts_with (drop k (q @ [c] @ r)) [c]" if "k < length q" for k
  proof -
    have "drop k (q @ [c] @ r) = q ! k # drop (Suc k) (q @ [c] @ r)"
      using that by (simp add: Cons_nth_drop_Suc [symmetric])
    with c nth_mem [OF that] show ?thesis by (auto simp: starts_with_def)
  qed
  from after_sub_found [OF _ this] show ?thesis by simp
qed

text \<open>The text past the quoted literal that opens the text.\<close>

fun skip_literal :: "string \<Rightarrow> string option" where
  "skip_literal [] = None"
| "skip_literal (q # t) = after_sub t [q]"

lemma skip_literal_length: "skip_literal s = Some r \<Longrightarrow> length r < length s"
  by (cases s) (auto dest: after_sub_length)

declare skip_literal.simps [simp del]

datatype doctype_part = Ended string | Subset string

function doctype_head :: "string \<Rightarrow> doctype_part option" where
  "doctype_head s =
     (case s of
        [] \<Rightarrow> None
      | c # t \<Rightarrow>
          if is_quote c then (case skip_literal s of None \<Rightarrow> None | Some r \<Rightarrow> doctype_head r)
          else if c = CHR ''['' then Some (Subset t)
          else if c = CHR ''>'' then Some (Ended t)
          else doctype_head t)"
  by pat_completeness auto
termination
  by (relation "measure length") (auto dest: skip_literal_length after_sub_length)

function declaration_end :: "string \<Rightarrow> string option" where
  "declaration_end s =
     (case s of
        [] \<Rightarrow> None
      | c # t \<Rightarrow>
          if is_quote c then (case skip_literal s of None \<Rightarrow> None | Some r \<Rightarrow> declaration_end r)
          else if c = CHR ''>'' then Some t
          else declaration_end t)"
  by pat_completeness auto
termination
  by (relation "measure length") (auto dest: skip_literal_length after_sub_length)

declare doctype_head.simps [simp del] declaration_end.simps [simp del]

lemma declaration_end_length: "declaration_end s = Some r \<Longrightarrow> length r < length s"
proof (induction s rule: declaration_end.induct)
  case (1 s)
  show ?case
  proof (cases s)
    case (Cons c t)
    with "1.prems" "1.IH" [OF Cons] show ?thesis
      by (simp add: declaration_end.simps [of "c # t"] split: if_splits option.splits)
        (fastforce dest!: skip_literal_length)+
  qed (use "1.prems" in \<open>simp add: declaration_end.simps\<close>)
qed

definition is_declaration :: "string \<Rightarrow> bool" where
  "is_declaration s \<longleftrightarrow>
     starts_with s ''<!ENTITY'' \<or> starts_with s ''<!ATTLIST'' \<or> starts_with s ''<!NOTATION''"

function doctype_subset :: "string \<Rightarrow> string option" where
  "doctype_subset s =
     (case s of
        [] \<Rightarrow> None
      | c # t \<Rightarrow>
          if c = CHR '']'' then Some t
          else if starts_with s ''<?'' then
            (case after_sub (drop 2 s) ''?>'' of None \<Rightarrow> None | Some r \<Rightarrow> doctype_subset r)
          else if starts_with s ''<!--'' then
            (case after_sub (drop 4 s) ''-->'' of None \<Rightarrow> None | Some r \<Rightarrow> doctype_subset r)
          else if is_declaration s then
            (case declaration_end (drop 2 s) of None \<Rightarrow> None | Some r \<Rightarrow> doctype_subset r)
          else if c = CHR ''<'' then
            (case after_sub s ''>'' of None \<Rightarrow> None | Some r \<Rightarrow> doctype_subset r)
          else doctype_subset t)"
  by pat_completeness auto
termination
  by (relation "measure length")
    (auto dest!: after_sub_length declaration_end_length split: if_splits)

declare doctype_subset.simps [simp del]

definition skip_doctype :: "string \<Rightarrow> string option" where
  "skip_doctype rest =
     (case doctype_head rest of
        None \<Rightarrow> None
      | Some (Ended r) \<Rightarrow> Some r
      | Some (Subset s) \<Rightarrow>
          (case doctype_subset s of None \<Rightarrow> None | Some r \<Rightarrow> after_sub r ''>''))"

text \<open>A successful walk ends behind a \<open>>\<close> of the text.\<close>

lemma doctype_head_length:
  "doctype_head s = Some p \<Longrightarrow> (case p of Ended r \<Rightarrow> length r < length s | Subset r \<Rightarrow> length r < length s)"
proof (induction s rule: doctype_head.induct)
  case (1 s)
  show ?case
  proof (cases s)
    case (Cons c t)
    with "1.prems" "1.IH" [OF Cons] show ?thesis
      by (simp add: doctype_head.simps [of "c # t"] split: if_splits option.splits)
        (fastforce dest!: skip_literal_length split: doctype_part.splits)+
  qed (use "1.prems" in \<open>simp add: doctype_head.simps\<close>)
qed

lemma doctype_subset_length: "doctype_subset s = Some r \<Longrightarrow> length r < length s"
proof (induction "length s" arbitrary: s rule: less_induct)
  case less
  have step: "doctype_subset x = Some r \<Longrightarrow> length x < length s \<Longrightarrow> length r < length s" for x
    using less.hyps [of x] by simp
  show ?case
  proof (cases s)
    case (Cons c t)
    have step': "doctype_subset x = Some r \<Longrightarrow> length x \<le> length t \<Longrightarrow> length r < Suc (length t)" for x
      using step [of x] Cons by simp
    have skip: "doctype_subset x = Some r \<Longrightarrow> after_sub (drop k t) p = Some x \<Longrightarrow>
        length r < Suc (length t)" for x k p
      by (rule step') (auto dest!: after_sub_length)
    have whole: "doctype_subset x = Some r \<Longrightarrow> after_sub (c # t) (d # p) = Some x \<Longrightarrow>
        length r < Suc (length t)" for x d p
      by (rule step') (auto dest!: after_sub_length)
    have decl: "doctype_subset x = Some r \<Longrightarrow> declaration_end (drop k t) = Some x \<Longrightarrow>
        length r < Suc (length t)" for x k
      by (rule step') (auto dest!: declaration_end_length)
    from less.prems show ?thesis
      by (subst (asm) doctype_subset.simps)
        (use Cons step' [of t] in \<open>auto simp del: starts_with_Cons
            split: if_splits option.splits intro: skip decl whole\<close>)
  qed (use less.prems in \<open>simp add: doctype_subset.simps\<close>)
qed

lemma skip_doctype_length: "skip_doctype s = Some r \<Longrightarrow> length r < length s"
  by (auto simp: skip_doctype_def split: option.splits doctype_part.splits
      dest!: doctype_head_length doctype_subset_length after_sub_length)

section \<open>The prolog and the root element\<close>

definition bom :: string where
  "bom = [CHR 0xEF, CHR 0xBB, CHR 0xBF]"

lemma trim_start_length: "length (trim_start s) \<le> length s"
  using trim_start_suffix [of s] by (metis le_add2 length_append)

lemma strip_prefix_length: "strip_prefix s p = Some r \<Longrightarrow> length r + length p = length s"
  by (auto simp: strip_prefix_def starts_with_length split: if_splits)

lemma markup_shorter:
  "strip_prefix (trim_start s) (c # p) = Some rest \<Longrightarrow> length rest < length s"
  using trim_start_length [of s] by (auto dest!: strip_prefix_length)

lemma after_markup_shorter:
  "strip_prefix (trim_start s) (c # p) = Some rest \<Longrightarrow> after_sub rest q = Some r \<Longrightarrow>
   length r < length s"
  by (auto dest!: markup_shorter after_sub_length)

lemma doctype_shorter:
  "strip_prefix (trim_start s) (c # p) = Some rest \<Longrightarrow> skip_doctype rest = Some r \<Longrightarrow>
   length r < length s"
  by (auto dest!: markup_shorter skip_doctype_length)

function svg_prolog :: "bool \<Rightarrow> string \<Rightarrow> string option" where
  "svg_prolog seen_doctype s =
     (let remaining = trim_start s in
      case strip_prefix remaining ''<!--'' of
        Some rest \<Rightarrow>
          (case after_sub rest ''-->'' of None \<Rightarrow> None | Some r \<Rightarrow> svg_prolog seen_doctype r)
      | None \<Rightarrow>
      (case strip_prefix remaining ''<?'' of
        Some rest \<Rightarrow>
          (case after_sub rest ''?>'' of None \<Rightarrow> None | Some r \<Rightarrow> svg_prolog seen_doctype r)
      | None \<Rightarrow>
      (case if seen_doctype then None else strip_prefix remaining ''<!DOCTYPE'' of
        Some rest \<Rightarrow>
          (case skip_doctype rest of None \<Rightarrow> None | Some after \<Rightarrow> svg_prolog True after)
      | None \<Rightarrow> Some remaining)))"
  by pat_completeness auto
termination
  by (relation "measure (\<lambda>(_, s). length s)")
    (auto dest: markup_shorter after_markup_shorter doctype_shorter split: if_split_asm)

declare svg_prolog.simps [simp del]

definition is_svg_root :: "string \<Rightarrow> bool" where
  "is_svg_root s \<longleftrightarrow>
     (case strip_prefix s ''<svg'' of
        None \<Rightarrow> False
      | Some after \<Rightarrow>
          (case after of
             c # _ \<Rightarrow> c \<in> {CHR '' '', CHR 0x09, CHR 0x0A, CHR 0x0D, CHR ''>''}
           | [] \<Rightarrow> False) \<or> starts_with after ''/>'')"

definition svg_root_element :: "bytes \<Rightarrow> string option" where
  "svg_root_element bs =
     (case str_from_utf8 bs of
        None \<Rightarrow> None
      | Some text \<Rightarrow>
          (case svg_prolog False
              (case strip_prefix text bom of Some r \<Rightarrow> r | None \<Rightarrow> text) of
             None \<Rightarrow> None
           | Some remaining \<Rightarrow> if is_svg_root remaining then Some remaining else None))"

definition is_svg :: "bytes \<Rightarrow> bool" where
  "is_svg bs \<longleftrightarrow> svg_root_element bs \<noteq> None"

section \<open>The root start tag and its attributes\<close>

text \<open>The index of the \<open>>\<close> that closes the tag: the first one outside a quoted value.\<close>

fun tag_end :: "char option \<Rightarrow> string \<Rightarrow> nat option" where
  "tag_end quote [] = None"
| "tag_end quote (c # s) =
     (case quote of
        Some q \<Rightarrow> map_option Suc (tag_end (if c = q then None else Some q) s)
      | None \<Rightarrow>
          if is_quote c then map_option Suc (tag_end (Some c) s)
          else if c = CHR ''>'' then Some 0
          else map_option Suc (tag_end None s))"

text \<open>\<open>&root[1..index]\<close>; the text opens with \<open><svg\<close>, so the index is at least 4.\<close>

definition svg_root_tag :: "string \<Rightarrow> string option" where
  "svg_root_tag doc = map_option (\<lambda>i. str_range doc 1 i) (tag_end None doc)"

definition is_ascii_whitespace :: "char \<Rightarrow> bool" where
  "is_ascii_whitespace c \<longleftrightarrow> c \<in> {CHR '' '', CHR 0x09, CHR 0x0A, CHR 0x0C, CHR 0x0D}"

abbreviation skip_ws :: "string \<Rightarrow> string" where
  "skip_ws \<equiv> dropWhile is_ascii_whitespace"

definition attribute_char :: "char \<Rightarrow> bool" where
  "attribute_char c \<longleftrightarrow> c \<noteq> CHR ''='' \<and> \<not> is_ascii_whitespace c \<and> c \<noteq> CHR ''/''"

lemma length_dropWhile_less: "takeWhile P s \<noteq> [] \<Longrightarrow> length (dropWhile P s) < length s"
  by (metis append_Nil length_append length_greater_0_conv less_add_same_cancel2 takeWhile_dropWhile_id)

lemma skip_ws_shorter: "skip_ws s = c # t \<Longrightarrow> length t < length s"
  using length_dropWhile_le [of is_ascii_whitespace s] by simp

lemma skip_ws_tl: "skip_ws s \<noteq> [] \<Longrightarrow> length (tl (skip_ws s)) < length s"
  using length_dropWhile_le [of is_ascii_whitespace s] by (cases "skip_ws s") auto

lemma attribute_shorter:
  "takeWhile attribute_char (skip_ws s) \<noteq> [] \<Longrightarrow>
   length (dropWhile attribute_char (skip_ws s)) < length s"
  using length_dropWhile_less length_dropWhile_le [of is_ascii_whitespace s]
  by (rule less_le_trans)

lemma value_shorter: "dropWhile P s = c # t \<Longrightarrow> length t < length s"
  using length_dropWhile_le [of P s] by simp

function find_attribute :: "string \<Rightarrow> string \<Rightarrow> string option" where
  "find_attribute name s0 =
     (let s = skip_ws s0 in
      if s = [] then None
      else
        let attribute = takeWhile attribute_char s; rest = dropWhile attribute_char s in
        if attribute = [] then find_attribute name (tl s)
        else
          case skip_ws rest of
            [] \<Rightarrow> find_attribute name []
          | c # t \<Rightarrow>
              if c \<noteq> CHR ''='' then find_attribute name (c # t)
              else
                case skip_ws t of
                  [] \<Rightarrow> None
                | quote # value \<Rightarrow>
                    if \<not> is_quote quote then None
                    else
                      case dropWhile (\<lambda>c. c \<noteq> quote) value of
                        [] \<Rightarrow> None
                      | _ # after \<Rightarrow>
                          if attribute = name then Some (takeWhile (\<lambda>c. c \<noteq> quote) value)
                          else find_attribute name after)"
  by pat_completeness auto
termination
  by (relation "measure (\<lambda>(_, s). length s)")
    (auto simp del: dropWhile_eq_Nil_conv simp: skip_ws_tl simp flip: length_tl
      dest!: skip_ws_shorter attribute_shorter value_shorter)

declare find_attribute.simps [simp del]

definition root_attribute :: "string \<Rightarrow> string \<Rightarrow> string option" where
  "root_attribute tag name = find_attribute name (dropWhile (\<lambda>c. \<not> is_ascii_whitespace c) tag)"

section \<open>The intrinsic size\<close>

definition length_char :: "char \<Rightarrow> bool" where
  "length_char c \<longleftrightarrow> is_ascii_digit c \<or> c \<in> set ''.+-eE''"

definition unit_scale :: "string \<Rightarrow> float_val option" where
  "unit_scale u =
     (if u = [] \<or> u = ''px'' then Some (Fin 1)
      else if u = ''pt'' then Some (f64_div (Fin 96) (Fin 72))
      else if u = ''pc'' then Some (Fin 16)
      else if u = ''in'' then Some (Fin 96)
      else if u = ''cm'' then Some (f64_div (Fin 96) (f64_of (254 / 100)))
      else if u = ''mm'' then Some (f64_div (Fin 96) (f64_of (254 / 10)))
      else if u = ''q'' then Some (f64_div (Fin 96) (f64_of (1016 / 10)))
      else None)"

definition positive_finite :: "float_val \<Rightarrow> bool" where
  "positive_finite x \<longleftrightarrow> is_finite x \<and> float_lt (Fin 0) x"

definition svg_length_px :: "string \<Rightarrow> float_val option" where
  "svg_length_px v =
     (let value = trim v in
      case parse_f64 (takeWhile length_char value) of
        None \<Rightarrow> None
      | Some number \<Rightarrow>
          (case unit_scale (ascii_lower (trim (dropWhile length_char value))) of
             None \<Rightarrow> None
           | Some scale \<Rightarrow>
               let pixels = f64_mul number scale in
               if positive_finite pixels then Some pixels else None))"

fun split_any :: "char set \<Rightarrow> string \<Rightarrow> string list" where
  "split_any cs [] = [[]]"
| "split_any cs (x # xs) =
     (if x \<in> cs then [] # split_any cs xs
      else (case split_any cs xs of [] \<Rightarrow> [[x]] | p # ps \<Rightarrow> (x # p) # ps))"

definition all_some :: "'a option list \<Rightarrow> 'a list option" where
  "all_some xs = (if None \<in> set xs then None else Some (map the xs))"

definition parse_view_box :: "string \<Rightarrow> (float_val \<times> float_val) option" where
  "parse_view_box v =
     (let parts = filter (\<lambda>p. p \<noteq> [])
        (split_any {CHR '' '', CHR 0x09, CHR 0x0A, CHR 0x0D, CHR '',''} v) in
      case all_some (map parse_f64 parts) of
        Some [_, _, width, height] \<Rightarrow>
          if positive_finite width \<and> positive_finite height then Some (width, height) else None
      | _ \<Rightarrow> None)"

definition to_dimension :: "float_val \<Rightarrow> u32 option" where
  "to_dimension v =
     (if is_finite v \<and> float_le (Fin 1) v \<and> float_lt v (Fin 4294967295)
      then Some (float_to_u32 v) else None)"

definition svg_declared_size :: "string \<Rightarrow> (float_val \<times> float_val) option" where
  "svg_declared_size tag =
     (let w = Option.bind (root_attribute tag ''width'') svg_length_px;
          h = Option.bind (root_attribute tag ''height'') svg_length_px;
          vb = Option.bind (root_attribute tag ''viewBox'') parse_view_box
      in case (w, h, vb) of
           (Some width, Some height, _) \<Rightarrow> Some (width, height)
         | (Some width, None, Some (bw, bh)) \<Rightarrow> Some (width, f64_div (f64_mul width bh) bw)
         | (None, Some height, Some (bw, bh)) \<Rightarrow> Some (f64_div (f64_mul height bw) bh, height)
         | (None, None, Some box) \<Rightarrow> Some box
         | _ \<Rightarrow> None)"

definition svg_intrinsic_size :: "string \<Rightarrow> (u32 \<times> u32) option" where
  "svg_intrinsic_size doc =
     (case svg_root_tag doc of
        None \<Rightarrow> None
      | Some tag \<Rightarrow>
          (case svg_declared_size tag of
             None \<Rightarrow> None
           | Some (width, height) \<Rightarrow>
               (case (to_dimension width, to_dimension height) of
                  (Some w, Some h) \<Rightarrow> Some (w, h) | _ \<Rightarrow> None)))"

definition sniff_svg :: "bytes \<Rightarrow> artifact_metadata" where
  "sniff_svg bs =
     (let sz = Option.bind (svg_root_element bs) svg_intrinsic_size
      in \<lparr>meta_width = map_option fst sz, meta_height = map_option snd sz,
          meta_frame_count = 1, meta_duration = None, meta_has_alpha = Some True,
          meta_orientation = None\<rparr>)"

text \<open>A reported size is never zero: a length below one pixel has no answer.\<close>

lemma to_dimension_nonzero: "to_dimension v = Some w \<Longrightarrow> w \<noteq> 0"
proof -
  assume "to_dimension v = Some w"
  then obtain a where a: "v = Fin a" "1 \<le> a" "a < 4294967295" and w: "w = float_to_u32 (Fin a)"
    by (cases v) (auto simp: to_dimension_def is_finite_def float_lt_def not_le split: if_splits)
  have fl: "1 \<le> \<lfloor>a\<rfloor>" "\<lfloor>a\<rfloor> < 4294967295" using a by (simp_all add: le_floor_iff floor_less_iff)
  have "w = word_of_int \<lfloor>a\<rfloor>" using a w by simp
  then have "uint w = \<lfloor>a\<rfloor>" using fl by (simp add: uint_word_of_int)
  then have "uint w \<noteq> 0" using fl(1) by linarith
  then show ?thesis by auto
qed

lemma svg_intrinsic_size_nonzero:
  "svg_intrinsic_size doc = Some (w, h) \<Longrightarrow> w \<noteq> 0 \<and> h \<noteq> 0"
  by (auto simp: svg_intrinsic_size_def dest!: to_dimension_nonzero split: option.splits prod.splits)

section \<open>The grammar the walk accepts\<close>

text \<open>
  The prolog of XML 1.0, as a generator: what a document may write before its root element.
  The walk has to end exactly where the generated prolog ends.
\<close>

datatype text_part = Plain string | Literal char string

fun part_text :: "text_part \<Rightarrow> string" where
  "part_text (Plain s) = s"
| "part_text (Literal q s) = q # s @ [q]"

fun part_ok :: "char set \<Rightarrow> text_part \<Rightarrow> bool" where
  "part_ok stops (Plain s) \<longleftrightarrow> (\<forall>c \<in> set s. \<not> is_quote c \<and> c \<notin> stops)"
| "part_ok stops (Literal q s) \<longleftrightarrow> is_quote q \<and> q \<notin> set s"

definition parts_text :: "text_part list \<Rightarrow> string" where
  "parts_text ps = concat (map part_text ps)"

datatype subset_item =
    Instruction string
  | Comment string
  | Declaration string "text_part list"
  | Markup string
  | Other char

fun item_text :: "subset_item \<Rightarrow> string" where
  "item_text (Instruction s) = ''<?'' @ s @ ''?>''"
| "item_text (Comment s) = ''<!--'' @ s @ ''-->''"
| "item_text (Declaration kw ps) = ''<!'' @ kw @ parts_text ps @ ''>''"
| "item_text (Markup s) = ''<'' @ s @ ''>''"
| "item_text (Other c) = [c]"

definition ends_first :: "string \<Rightarrow> string \<Rightarrow> bool" where
  "ends_first s p \<longleftrightarrow> find_sub (s @ p) p = Some (length s)"

fun item_ok :: "subset_item \<Rightarrow> bool" where
  "item_ok (Instruction s) \<longleftrightarrow> ends_first s ''?>''"
| "item_ok (Comment s) \<longleftrightarrow> ends_first s ''-->''"
| "item_ok (Declaration kw ps) \<longleftrightarrow>
     kw \<in> {''ENTITY'', ''ATTLIST'', ''NOTATION''} \<and> list_all (part_ok {CHR ''>''}) ps"
| "item_ok (Markup s) \<longleftrightarrow> CHR ''>'' \<notin> set s \<and> \<not> starts_with s ''?'' \<and> \<not> starts_with s ''!--'' \<and>
     \<not> is_declaration (CHR ''<'' # s)"
| "item_ok (Other c) \<longleftrightarrow> c \<noteq> CHR '']'' \<and> c \<noteq> CHR ''<''"

lemma starts_with_extend: "length p \<le> length s \<Longrightarrow> starts_with (s @ r) p \<longleftrightarrow> starts_with s p"
  by (simp add: starts_with_def)

lemma after_sub_ends_first:
  assumes "ends_first s p" and "p \<noteq> []"
  shows "after_sub (s @ p @ r) p = Some r"
proof (rule after_sub_found [OF assms(2)])
  fix k assume k: "k < length s"
  with assms(1) have "\<not> starts_with (drop k (s @ p)) p"
    unfolding ends_first_def by (rule find_sub_least)
  moreover have "starts_with (drop k (s @ p) @ r) p \<longleftrightarrow> starts_with (drop k (s @ p)) p"
    using k by (intro starts_with_extend) simp
  ultimately show "\<not> starts_with (drop k (s @ p @ r)) p" using k by simp
qed

lemma after_instruction [simp]:
  "ends_first s ''?>'' \<Longrightarrow> after_sub (s @ CHR ''?'' # CHR ''>'' # r) ''?>'' = Some r"
  using after_sub_ends_first [of s "''?>''" r] by simp

lemma after_comment [simp]:
  "ends_first s ''-->'' \<Longrightarrow> after_sub (s @ CHR ''-'' # CHR ''-'' # CHR ''>'' # r) ''-->'' = Some r"
  using after_sub_ends_first [of s "''-->''" r] by simp

lemma skip_literal_text [simp]:
  "q \<notin> set s \<Longrightarrow> skip_literal (q # s @ q # r) = Some r"
  by (simp add: skip_literal.simps after_sub_char)

lemma declaration_end_plain:
  "part_ok {CHR ''>''} (Plain s) \<Longrightarrow> declaration_end (s @ r) = declaration_end r"
proof (induction s)
  case (Cons c s)
  then show ?case by (subst declaration_end.simps) (auto split: list.splits)
qed simp

lemma declaration_end_parts:
  "list_all (part_ok {CHR ''>''}) ps \<Longrightarrow> declaration_end (parts_text ps @ CHR ''>'' # r) = Some r"
proof (induction ps)
  case Nil
  then show ?case by (subst declaration_end.simps) (simp add: parts_text_def is_quote_def)
next
  case (Cons p ps)
  show ?case
  proof (cases p)
    case (Plain s)
    with Cons declaration_end_plain [of s "parts_text ps @ CHR ''>'' # r"] show ?thesis
      by (simp add: parts_text_def)
  next
    case (Literal q s)
    with Cons show ?thesis
      by (subst declaration_end.simps) (simp add: parts_text_def)
  qed
qed

abbreviation head_stops :: "char set" where
  "head_stops \<equiv> {CHR ''['', CHR ''>''}"

lemma doctype_head_plain:
  "part_ok head_stops (Plain s) \<Longrightarrow> doctype_head (s @ r) = doctype_head r"
proof (induction s)
  case (Cons c s)
  then show ?case by (subst doctype_head.simps) (auto split: list.splits)
qed simp

lemma doctype_head_parts:
  "list_all (part_ok head_stops) ps \<Longrightarrow> doctype_head (parts_text ps @ r) = doctype_head r"
proof (induction ps)
  case (Cons p ps)
  show ?case
  proof (cases p)
    case (Plain s)
    with Cons doctype_head_plain [of s "parts_text ps @ r"] show ?thesis
      by (simp add: parts_text_def)
  next
    case (Literal q s)
    with Cons show ?thesis by (subst doctype_head.simps) (simp add: parts_text_def)
  qed
qed (simp add: parts_text_def)

lemma doctype_head_stop [simp]:
  "doctype_head (CHR ''['' # r) = Some (Subset r)"
  "doctype_head (CHR ''>'' # r) = Some (Ended r)"
  by (subst doctype_head.simps, simp add: is_quote_def)+

lemma starts_with_until:
  "c \<notin> set p \<Longrightarrow> starts_with (s @ c # r) p \<longleftrightarrow> starts_with s p"
proof (induction s arbitrary: p)
  case Nil
  then show ?case by (cases p) auto
next
  case (Cons x s)
  then show ?case by (cases p) auto
qed

lemma doctype_subset_item:
  assumes "item_ok i"
  shows "doctype_subset (item_text i @ r) = doctype_subset r"
proof (cases i)
  case (Instruction s)
  with assms show ?thesis by (subst doctype_subset.simps) simp
next
  case (Comment s)
  with assms show ?thesis by (subst doctype_subset.simps) simp
next
  case (Declaration kw ps)
  have "declaration_end (kw @ parts_text ps @ CHR ''>'' # r) = Some r"
    using assms Declaration
      declaration_end_plain [of kw "parts_text ps @ CHR ''>'' # r"]
    by (auto simp: declaration_end_parts is_quote_def)
  with assms Declaration show ?thesis
    by (subst doctype_subset.simps) (auto simp: is_declaration_def)
next
  case (Markup s)
  have "after_sub (CHR ''<'' # s @ CHR ''>'' # r) ''>'' = Some r"
    using assms Markup after_sub_char [of "CHR ''>''" "CHR ''<'' # s" r] by simp
  with assms Markup show ?thesis
    by (subst doctype_subset.simps) (simp add: is_declaration_def starts_with_until)
next
  case (Other c)
  with assms show ?thesis
    by (subst doctype_subset.simps) (simp add: is_declaration_def)
qed

lemma doctype_subset_items:
  "list_all item_ok is \<Longrightarrow> doctype_subset (concat (map item_text is) @ CHR '']'' # r) = Some r"
proof (induction "is")
  case Nil
  then show ?case by (subst doctype_subset.simps) simp
next
  case (Cons i "is")
  then show ?case using doctype_subset_item [of i] by simp
qed

text \<open>A doctype: an external identifier, and perhaps a subset with what may follow it.\<close>

datatype doctype = Doctype "text_part list" "(subset_item list \<times> string) option"

fun doctype_text :: "doctype \<Rightarrow> string" where
  "doctype_text (Doctype ps None) = parts_text ps @ ''>''"
| "doctype_text (Doctype ps (Some (is, tail))) =
     parts_text ps @ ''['' @ concat (map item_text is) @ '']'' @ tail @ ''>''"

fun doctype_ok :: "doctype \<Rightarrow> bool" where
  "doctype_ok (Doctype ps sub) \<longleftrightarrow> list_all (part_ok head_stops) ps \<and>
     (case sub of None \<Rightarrow> True | Some (is, tail) \<Rightarrow> list_all item_ok is \<and> CHR ''>'' \<notin> set tail)"

lemma skip_doctype_text: "doctype_ok d \<Longrightarrow> skip_doctype (doctype_text d @ r) = Some r"
proof (cases d)
  case (Doctype ps sub)
  assume "doctype_ok d"
  with Doctype show ?thesis
    by (cases sub)
      (auto simp: skip_doctype_def doctype_head_parts doctype_subset_items after_sub_char)
qed

text \<open>What may stand around the doctype: comments, processing instructions and white space.\<close>

datatype misc = MComment string | MInstruction string | MSpace char

fun misc_text :: "misc \<Rightarrow> string" where
  "misc_text (MComment s) = ''<!--'' @ s @ ''-->''"
| "misc_text (MInstruction s) = ''<?'' @ s @ ''?>''"
| "misc_text (MSpace c) = [c]"

fun misc_ok :: "misc \<Rightarrow> bool" where
  "misc_ok (MComment s) \<longleftrightarrow> ends_first s ''-->''"
| "misc_ok (MInstruction s) \<longleftrightarrow> ends_first s ''?>''"
| "misc_ok (MSpace c) \<longleftrightarrow> c \<in> {CHR '' '', CHR 0x09, CHR 0x0A, CHR 0x0D}"

definition miscs_text :: "misc list \<Rightarrow> string" where
  "miscs_text ms = concat (map misc_text ms)"

lemma trim_start_markup [simp]: "trim_start (CHR ''<'' # s) = CHR ''<'' # s"
  by (rule trim_start_id, rule leading_ws_plain) simp_all

lemma trim_start_space:
  "c \<in> {CHR '' '', CHR 0x09, CHR 0x0A, CHR 0x0D} \<Longrightarrow> trim_start (c # s) = trim_start s"
  by (subst trim_start.simps) (auto simp: ascii_ws_def)

lemma strip_prefix_simps [simp]:
  "strip_prefix s [] = Some s"
  "strip_prefix (x # s) (y # p) = (if x = y then strip_prefix s p else None)"
  by (simp_all add: strip_prefix_def)

lemma svg_prolog_misc: "misc_ok m \<Longrightarrow> svg_prolog seen (misc_text m @ s) = svg_prolog seen s"
proof (cases m)
  case (MSpace c)
  assume "misc_ok m"
  with MSpace have "trim_start (c # s) = trim_start s" by (intro trim_start_space) simp
  with MSpace show ?thesis by (simp add: svg_prolog.simps [of seen "c # s"] svg_prolog.simps [of seen s])
qed (subst svg_prolog.simps, simp)+

lemma svg_prolog_miscs:
  "list_all misc_ok ms \<Longrightarrow> svg_prolog seen (miscs_text ms @ s) = svg_prolog seen s"
  by (induction ms) (simp_all add: miscs_text_def svg_prolog_misc)

lemma svg_prolog_doctype:
  "doctype_ok d \<Longrightarrow> svg_prolog False (''<!DOCTYPE'' @ doctype_text d @ s) = svg_prolog True s"
  by (subst svg_prolog.simps) (simp add: skip_doctype_text)

lemma svg_prolog_root:
  assumes "is_svg_root s"
  shows "svg_prolog seen s = Some s"
proof -
  obtain t where s: "s = ''<svg'' @ t"
    using assms starts_withE [of s "''<svg''"]
    by (auto simp: is_svg_root_def strip_prefix_def split: if_splits)
  show ?thesis by (subst svg_prolog.simps) (simp add: s Let_def)
qed

definition document_text :: "misc list \<Rightarrow> (doctype \<times> misc list) option \<Rightarrow> string \<Rightarrow> string" where
  "document_text ms d doc =
     miscs_text ms @ (case d of None \<Rightarrow> doc
       | Some (dt, ms') \<Rightarrow> ''<!DOCTYPE'' @ doctype_text dt @ miscs_text ms' @ doc)"

definition document_ok :: "misc list \<Rightarrow> (doctype \<times> misc list) option \<Rightarrow> bool" where
  "document_ok ms d \<longleftrightarrow> list_all misc_ok ms \<and>
     (case d of None \<Rightarrow> True | Some (dt, ms') \<Rightarrow> doctype_ok dt \<and> list_all misc_ok ms')"

lemma svg_prolog_document:
  "document_ok ms d \<Longrightarrow> is_svg_root doc \<Longrightarrow> svg_prolog False (document_text ms d doc) = Some doc"
  by (auto simp: document_text_def document_ok_def svg_prolog_miscs svg_prolog_root
      svg_prolog_doctype [simplified] split: option.splits)

text \<open>
  The SVG detector finds the root element of every document whose prolog XML 1.0 allows:
  comments and processing instructions on either side of a doctype and in any number, white
  space between them, a doctype whose external identifier quotes \<open>[\<close> or \<open>>\<close> and whose
  internal subset holds instructions and comments with unbalanced quotes and declarations
  with quoted \<open>>\<close>. The text it answers starts exactly at the root.
\<close>

theorem svg_root_after_any_prolog:
  assumes "document_ok ms d" and "is_svg_root doc"
    and "utf8_valid (ascii (document_text ms d doc))"
    and "\<not> starts_with (document_text ms d doc) bom"
  shows "svg_root_element (ascii (document_text ms d doc)) = Some doc \<and>
    (utf8_valid (ascii (bom @ document_text ms d doc)) \<longrightarrow>
       svg_root_element (ascii (bom @ document_text ms d doc)) = Some doc)"
  using assms svg_prolog_document [OF assms(1,2)]
  by (simp add: svg_root_element_def str_from_utf8_def strip_prefix_def)

theorem svg_root_after_any_prolog_witness:
  "svg_root_element (ascii
     (document_text [MInstruction ''xml version'', MComment ''a'']
       (Some (Doctype [Plain '' svg '', Literal squote ''[>'']
          (Some ([Instruction [dquote], Declaration ''ENTITY'' [Plain '' a '', Literal dquote ''>'']],
             '' '')), [MSpace (CHR '' '')]))
       ''<svg/>'')) = Some ''<svg/>''"
  by (rule svg_root_after_any_prolog [THEN conjunct1]) code_simp+

section \<open>Attributes by exact name\<close>

text \<open>A start tag as the generator writes it: attributes with quoted values.\<close>

record attribute =
  at_name :: string
  at_quote :: char
  at_value :: string

definition attribute_ok :: "attribute \<Rightarrow> bool" where
  "attribute_ok a \<longleftrightarrow> at_name a \<noteq> [] \<and> list_all attribute_char (at_name a) \<and>
     is_quote (at_quote a) \<and> at_quote a \<notin> set (at_value a)"

definition attribute_text :: "attribute \<Rightarrow> string" where
  "attribute_text a = '' '' @ at_name a @ ''='' @ [at_quote a] @ at_value a @ [at_quote a]"

lemma takeWhile_stop: "list_all P p \<Longrightarrow> \<not> P c \<Longrightarrow> takeWhile P (p @ c # r) = p"
  by (induction p) auto

lemma dropWhile_stop: "list_all P p \<Longrightarrow> \<not> P c \<Longrightarrow> dropWhile P (p @ c # r) = c # r"
  by (induction p) auto

lemma find_attribute_text:
  assumes "attribute_ok a"
  shows "find_attribute name (attribute_text a @ r) =
    (if at_name a = name then Some (at_value a) else find_attribute name r)"
proof -
  obtain c n where n: "at_name a = c # n" and c: "\<not> is_ascii_whitespace c"
    using assms by (cases "at_name a") (auto simp: attribute_ok_def attribute_char_def)
  let ?q = "at_quote a"
  have q: "\<not> is_ascii_whitespace ?q" "is_quote ?q"
    using assms by (auto simp: attribute_ok_def is_quote_def is_ascii_whitespace_def)
  have names: "takeWhile attribute_char (at_name a @ CHR ''='' # s) = at_name a"
    "dropWhile attribute_char (at_name a @ CHR ''='' # s) = CHR ''='' # s" for s
    using assms by (auto simp: attribute_ok_def attribute_char_def intro: takeWhile_stop dropWhile_stop)
  have vals: "takeWhile (\<lambda>c. c \<noteq> ?q) (at_value a @ ?q # r) = at_value a"
    "dropWhile (\<lambda>c. c \<noteq> ?q) (at_value a @ ?q # r) = ?q # r"
    using assms by (auto simp: attribute_ok_def list_all_iff intro!: takeWhile_stop dropWhile_stop)
  have ws: "skip_ws (attribute_text a @ r) = at_name a @ CHR ''='' # ?q # at_value a @ ?q # r"
    using c by (simp add: attribute_text_def n is_ascii_whitespace_def)
  have eq: "skip_ws (CHR ''='' # s) = CHR ''='' # s" for s by (simp add: is_ascii_whitespace_def)
  have ne: "at_name a \<noteq> []" by (simp add: n)
  show ?thesis
    by (subst find_attribute.simps)
      (simp add: Let_def ws names vals q ne eq del: dropWhile.simps, simp add: q vals)
qed

text \<open>
  An attribute is found by its whole name: in a start tag of any attributes, asking for
  a name answers the value of the first attribute of exactly that name, so \<open>stroke-width\<close>
  never answers for \<open>width\<close>, whatever its quoted value holds.
\<close>

theorem root_attribute_exact:
  assumes "list_all attribute_ok as" and "list_all (\<lambda>c. \<not> is_ascii_whitespace c) element"
  shows "root_attribute (element @ concat (map attribute_text as)) name =
    map_of (map (\<lambda>a. (at_name a, at_value a)) as) name"
proof -
  have "find_attribute name (concat (map attribute_text as)) =
      map_of (map (\<lambda>a. (at_name a, at_value a)) as) name"
    using assms(1)
    by (induction as) (simp_all add: find_attribute_text find_attribute.simps [of name "[]"])
  moreover have "dropWhile (\<lambda>c. \<not> is_ascii_whitespace c) (element @ s) = s"
    if "s = [] \<or> is_ascii_whitespace (hd s)" for s
    using assms(2) that by (cases s) (auto simp: list_all_iff intro: dropWhile_append2)
  moreover have "concat (map attribute_text as) = [] \<or>
      is_ascii_whitespace (hd (concat (map attribute_text as)))"
    by (cases as) (simp_all add: attribute_text_def is_ascii_whitespace_def)
  ultimately show ?thesis by (simp add: root_attribute_def)
qed

theorem root_attribute_exact_witness:
  "root_attribute (''svg'' @ concat (map attribute_text
      [\<lparr>at_name = ''stroke-width'', at_quote = dquote, at_value = ''3''\<rparr>,
       \<lparr>at_name = ''width'', at_quote = squote, at_value = ''10''\<rparr>])) ''width'' = Some ''10''"
  by (subst root_attribute_exact) code_simp+

end
