(* ===== verification/Sniff.thy ===== *)
theory Sniff
  imports Options Svg_Text
begin

text \<open>
  Artifact detection of \<open>src/core.rs\<close>: the magic numbers, the header walks of the binary
  formats, the EXIF locators, and \<open>sniff_artifact\<close>. An index past the end is the outcome
  \<open>Panic\<close>, so the theorems on panics are statements about every byte string.

  Every header walk is one combinator, \<open>walk\<close>, over the step the source writes as the body of
  its \<open>while\<close>; the interface \<open>byte_walk\<close> asks that a step which goes on moves forward inside the
  file, and gives the loop's own equation, an invariant rule and a no-panic rule.

  Two crates are parameters, the fields of \<open>codecs\<close>: the TIFF decoder of \<open>image\<close> and the Exif
  reader.
\<close>

unbundle bit_operations_syntax

section \<open>Walks over a byte string\<close>

datatype ('s, 'a) loop = Next nat 's | Stop 'a

text \<open>
  \<open>walk step len offset s\<close> repeats \<open>step\<close> from \<open>offset\<close> until it stops. A step that does
  not move forward inside the file would repeat for ever; it is answered \<open>Panic\<close>, and
  \<open>byte_walk.walk_unfold\<close> shows that no walk of the program has such a step.
\<close>

function walk ::
  "(nat \<Rightarrow> 's \<Rightarrow> ('e, ('s, 'a) loop) outcome) \<Rightarrow> nat \<Rightarrow> nat \<Rightarrow> 's \<Rightarrow> ('e, 'a) outcome" where
  "walk step len offset s =
     (case step offset s of
        Panic \<Rightarrow> Panic
      | Err e \<Rightarrow> Err e
      | Ok (Stop x) \<Rightarrow> Ok x
      | Ok (Next offset' s') \<Rightarrow>
          if offset < offset' \<and> offset < len then walk step len offset' s' else Panic)"
  by pat_completeness auto
termination
  by (relation "measure (\<lambda>(_, len, offset, _). len - offset)") auto

declare walk.simps [simp del]

locale byte_walk =
  fixes step :: "nat \<Rightarrow> 's \<Rightarrow> ('e, ('s, 'a) loop) outcome" and len :: nat
  assumes progress: "step offset s = Ok (Next offset' s') \<Longrightarrow> offset < offset' \<and> offset < len"
begin

lemma walk_unfold:
  "walk step len offset s =
     and_then (step offset s) (\<lambda>r. case r of
        Stop x \<Rightarrow> Ok x | Next offset' s' \<Rightarrow> walk step len offset' s')"
  by (subst walk.simps) (auto dest: progress split: outcome.splits loop.splits)

lemma walk_Stop: "step offset s = Ok (Stop x) \<Longrightarrow> walk step len offset s = Ok x"
  by (simp add: walk_unfold)

lemma walk_Next: "step offset s = Ok (Next o' s') \<Longrightarrow> walk step len offset s = walk step len o' s'"
  by (simp add: walk_unfold)

lemma walk_Err: "step offset s = Err e \<Longrightarrow> walk step len offset s = Err e"
  by (simp add: walk_unfold)

lemma walk_Panic: "step offset s = Panic \<Longrightarrow> walk step len offset s = Panic"
  by (simp add: walk_unfold)

lemma walk_invariant:
  assumes inv: "I offset s"
    and more: "\<And>o1 s1 o2 s2. I o1 s1 \<Longrightarrow> step o1 s1 = Ok (Next o2 s2) \<Longrightarrow> I o2 s2"
    and stop: "\<And>o1 s1 x. I o1 s1 \<Longrightarrow> step o1 s1 = Ok (Stop x) \<Longrightarrow> Q (Ok x)"
    and err: "\<And>o1 s1 e. I o1 s1 \<Longrightarrow> step o1 s1 = Err e \<Longrightarrow> Q (Err e)"
    and panic: "\<And>o1 s1. I o1 s1 \<Longrightarrow> step o1 s1 = Panic \<Longrightarrow> Q Panic"
  shows "Q (walk step len offset s)"
  using inv
proof (induction "len - offset" arbitrary: offset s rule: less_induct)
  case less
  show ?case
  proof (cases "step offset s")
    case (Ok r)
    show ?thesis
    proof (cases r)
      case (Next o' s')
      with Ok have "step offset s = Ok (Next o' s')" by simp
      with progress [OF this] more [OF less.prems this] less.hyps [of o' s'] show ?thesis
        by (simp add: walk_Next diff_less_mono2 order.strict_trans2)
    qed (use Ok less.prems stop in \<open>simp add: walk_unfold\<close>)
  qed (use less.prems err panic in \<open>simp_all add: walk_unfold\<close>)
qed

lemma walk_no_panic:
  assumes "\<And>o1 s1. no_panic (step o1 s1)"
  shows "no_panic (walk step len offset s)"
  by (rule walk_invariant [where I = "\<lambda>_ _. True"])
    (use assms in \<open>auto simp: no_panic_def\<close>)

end

section \<open>Integer readers\<close>

definition expected_bytes :: "string \<Rightarrow> transform_error" where
  "expected_bytes n = DecodeFailed (''expected '' @ n @ '' bytes'')"

fun read_u16_be :: "bytes \<Rightarrow> (transform_error, u16) outcome" where
  "read_u16_be [a, b] = Ok (u16_of_be a b)"
| "read_u16_be _ = Err (expected_bytes ''2'')"

fun read_u16_le :: "bytes \<Rightarrow> (transform_error, u16) outcome" where
  "read_u16_le [a, b] = Ok (u16_of_le a b)"
| "read_u16_le _ = Err (expected_bytes ''2'')"

fun read_u24_le :: "bytes \<Rightarrow> (transform_error, u32) outcome" where
  "read_u24_le [a, b, c] = Ok (ucast a OR push_bit 8 (ucast b) OR push_bit 16 (ucast c))"
| "read_u24_le _ = Err (expected_bytes ''3'')"

fun read_u32_be :: "bytes \<Rightarrow> (transform_error, u32) outcome" where
  "read_u32_be [a, b, c, d] = Ok (u32_of_be a b c d)"
| "read_u32_be _ = Err (expected_bytes ''4'')"

fun read_u32_le :: "bytes \<Rightarrow> (transform_error, u32) outcome" where
  "read_u32_le [a, b, c, d] = Ok (u32_of_le a b c d)"
| "read_u32_le _ = Err (expected_bytes ''4'')"

text \<open>Reading a slice of the right length succeeds.\<close>

lemma length_eq_2: "length xs = 2 \<longleftrightarrow> (\<exists>a b. xs = [a, b])"
  by (auto simp: numeral_2_eq_2 length_Suc_conv)

lemma length_eq_3: "length xs = 3 \<longleftrightarrow> (\<exists>a b c. xs = [a, b, c])"
  by (auto simp: numeral_3_eq_3 length_Suc_conv)

lemma length_eq_4: "length xs = 4 \<longleftrightarrow> (\<exists>a b c d. xs = [a, b, c, d])"
  by (auto simp: eval_nat_numeral length_Suc_conv)

lemma no_panic_readers [simp]:
  "no_panic (read_u16_be bs)" "no_panic (read_u16_le bs)" "no_panic (read_u24_le bs)"
  "no_panic (read_u32_be bs)" "no_panic (read_u32_le bs)"
  by ((cases bs rule: read_u16_be.cases; simp), (cases bs rule: read_u16_le.cases; simp),
      (cases bs rule: read_u24_le.cases; simp), (cases bs rule: read_u32_be.cases; simp),
      (cases bs rule: read_u32_le.cases; simp))

section \<open>Magic numbers\<close>

definition is_png :: "bytes \<Rightarrow> bool" where
  "is_png bs \<longleftrightarrow> starts_with bs [0x89, 0x50, 0x4E, 0x47, 0x0D, 0x0A, 0x1A, 0x0A]"

definition is_jpeg :: "bytes \<Rightarrow> bool" where
  "is_jpeg bs \<longleftrightarrow> 3 \<le> length bs \<and> bs ! 0 = 0xFF \<and> bs ! 1 = 0xD8 \<and> bs ! 2 = 0xFF"

definition is_webp :: "bytes \<Rightarrow> bool" where
  "is_webp bs \<longleftrightarrow> 12 \<le> length bs \<and> sub_bytes bs 0 4 = ascii ''RIFF'' \<and>
     sub_bytes bs 8 12 = ascii ''WEBP''"

definition is_avif_brand :: "bytes \<Rightarrow> bool" where
  "is_avif_brand b \<longleftrightarrow> b = ascii ''avif'' \<or> b = ascii ''avis''"

text \<open>\<open>as_chunks::<4>().0\<close>: the whole groups of four, without the remainder.\<close>

fun chunks4 :: "bytes \<Rightarrow> bytes list" where
  "chunks4 (a # b # c # d # r) = [a, b, c, d] # chunks4 r"
| "chunks4 _ = []"

definition is_avif :: "bytes \<Rightarrow> bool" where
  "is_avif bs \<longleftrightarrow>
     (if length bs < 16 \<or> sub_bytes bs 4 8 \<noteq> ascii ''ftyp'' then False
      else
        let declared = (case read_u32_be (sub_bytes bs 0 4) of Ok w \<Rightarrow> unat w | _ \<Rightarrow> 0);
            stop = min (max declared 16) (length bs)
        in is_avif_brand (sub_bytes bs 8 12) \<or>
           list_ex is_avif_brand (chunks4 (sub_bytes bs 16 stop)))"

definition is_bmp :: "bytes \<Rightarrow> bool" where
  "is_bmp bs \<longleftrightarrow> 26 \<le> length bs \<and> bs ! 0 = 0x42 \<and> bs ! 1 = 0x4D"

definition is_tiff :: "bytes \<Rightarrow> bool" where
  "is_tiff bs \<longleftrightarrow> 4 \<le> length bs \<and>
     (bs ! 0 = 0x49 \<and> bs ! 1 = 0x49 \<and> bs ! 2 = 0x2A \<and> bs ! 3 = 0 \<or>
      bs ! 0 = 0x4D \<and> bs ! 1 = 0x4D \<and> bs ! 2 = 0 \<and> bs ! 3 = 0x2A)"

definition is_gif :: "bytes \<Rightarrow> bool" where
  "is_gif bs \<longleftrightarrow> starts_with bs (ascii ''GIF87a'') \<or> starts_with bs (ascii ''GIF89a'')"

section \<open>BMP\<close>

definition raster_metadata :: "u32 \<Rightarrow> u32 \<Rightarrow> bool option \<Rightarrow> artifact_metadata" where
  "raster_metadata w h alpha = \<lparr>meta_width = Some w, meta_height = Some h, meta_frame_count = 1,
     meta_duration = None, meta_has_alpha = alpha, meta_orientation = None\<rparr>"

text \<open>\<open>i32::unsigned_abs\<close>\<close>

definition unsigned_abs :: "u32 \<Rightarrow> u32" where
  "unsigned_abs w = (if sint w < 0 then - w else w)"

definition sniff_bmp :: "bytes \<Rightarrow> (transform_error, artifact_metadata) outcome" where
  "sniff_bmp bs =
     (if length bs < 30 then Err (DecodeFailed ''bmp file is too short'')
      else
        and_then (byte_at bs 18) (\<lambda>w0. and_then (byte_at bs 19) (\<lambda>w1.
        and_then (byte_at bs 20) (\<lambda>w2. and_then (byte_at bs 21) (\<lambda>w3.
        and_then (byte_at bs 22) (\<lambda>h0. and_then (byte_at bs 23) (\<lambda>h1.
        and_then (byte_at bs 24) (\<lambda>h2. and_then (byte_at bs 25) (\<lambda>h3.
        and_then (byte_at bs 28) (\<lambda>b0. and_then (byte_at bs 29) (\<lambda>b1.
          Ok (raster_metadata (u32_of_le w0 w1 w2 w3) (unsigned_abs (u32_of_le h0 h1 h2 h3))
            (Some (u16_of_le b0 b1 = 32))))))))))))))"

lemma sniff_bmp_no_panic [simp]: "no_panic (sniff_bmp bs)"
  by (simp add: sniff_bmp_def)

section \<open>GIF\<close>

text \<open>
  The additions that saturate in the source cannot reach \<open>usize::MAX\<close>: an offset inside a
  slice is at most \<open>isize::MAX\<close>, and what is added is at most 769.
\<close>

definition gif_sub_step :: "bytes \<Rightarrow> nat \<Rightarrow> unit \<Rightarrow> (transform_error, (unit, nat) loop) outcome" where
  "gif_sub_step bs offset u =
     (if length bs \<le> offset then Err (DecodeFailed ''gif file ends inside a data block'')
      else and_then (byte_at bs offset) (\<lambda>len.
        if len = 0 then Ok (Stop (offset + 1))
        else Ok (Next (offset + 1 + unat len) ())))"

definition skip_gif_sub_blocks :: "bytes \<Rightarrow> nat \<Rightarrow> (transform_error, nat) outcome" where
  "skip_gif_sub_blocks bs offset = walk (gif_sub_step bs) (length bs) offset ()"

interpretation gif_sub: byte_walk "gif_sub_step bs" "length bs" for bs
  by unfold_locales (auto simp: gif_sub_step_def split: if_splits)

record gif_facts =
  gif_frames :: u32
  gif_alpha :: bool

definition saturating_inc :: "u32 \<Rightarrow> u32" where
  "saturating_inc w = (if w = - 1 then w else w + 1)"

text \<open>The bytes a colour table takes: three per entry, \<open>2 ^ (N + 1)\<close> entries, if the flag is set.\<close>

definition color_table :: "u8 \<Rightarrow> nat" where
  "color_table packed = (if packed AND 0x80 \<noteq> 0 then 2 ^ (unat (packed AND 7) + 1) * 3 else 0)"

text \<open>
  A graphic control extension declares transparency in bit 0 of its packed field, the first
  byte of its single data sub-block.
\<close>

definition gif_transparency :: "bytes \<Rightarrow> u8 \<Rightarrow> nat \<Rightarrow> (transform_error, bool) outcome" where
  "gif_transparency bs label cursor =
     (if label = 0xF9 \<and> cursor + 2 < length bs
      then and_then (byte_at bs cursor) (\<lambda>n.
        if 1 \<le> n then map_ok (\<lambda>b. b AND 1 \<noteq> 0) (byte_at bs (cursor + 1)) else Ok False)
      else Ok False)"

definition gif_step ::
  "bytes \<Rightarrow> nat \<Rightarrow> gif_facts \<Rightarrow> (transform_error, (gif_facts, gif_facts) loop) outcome" where
  "gif_step bs offset f =
     (if length bs \<le> offset then Ok (Stop f)
      else and_then (byte_at bs offset) (\<lambda>introducer.
        if introducer = 0x3B then Ok (Stop f)
        else if introducer = 0x21 then
          (if length bs \<le> offset + 1 then Ok (Stop f)
           else and_then (byte_at bs (offset + 1)) (\<lambda>label.
             let cursor = offset + 2 in
             and_then (gif_transparency bs label cursor) (\<lambda>alpha.
             map_ok (\<lambda>cursor'. Next cursor' (if alpha then f\<lparr>gif_alpha := True\<rparr> else f))
               (skip_gif_sub_blocks bs cursor))))
        else if introducer = 0x2C then
          (let f' = f\<lparr>gif_frames := saturating_inc (gif_frames f)\<rparr> in
           if length bs < offset + 10 then Ok (Stop f')
           else and_then (byte_at bs (offset + 9)) (\<lambda>local_packed.
             map_ok (\<lambda>cursor'. Next cursor' f')
               (skip_gif_sub_blocks bs (offset + 10 + color_table local_packed + 1))))
        else Err (DecodeFailed (''gif file has an unknown block introducer 0x'' @ hex2 introducer))))"

definition sniff_gif :: "bytes \<Rightarrow> (transform_error, artifact_metadata) outcome" where
  "sniff_gif bs =
     (if length bs < 13 then Err (DecodeFailed ''gif file is too short'')
      else
        and_then (and_then (slice bs 6 8) read_u16_le) (\<lambda>width.
        and_then (and_then (slice bs 8 10) read_u16_le) (\<lambda>height.
        and_then (byte_at bs 10) (\<lambda>packed.
        and_then (walk (gif_step bs) (length bs) (13 + color_table packed)
            \<lparr>gif_frames = 0, gif_alpha = False\<rparr>) (\<lambda>f.
          if gif_frames f = 0 then Err (DecodeFailed ''gif file contains no image data'')
          else Ok \<lparr>meta_width = Some (ucast width), meta_height = Some (ucast height),
            meta_frame_count = gif_frames f, meta_duration = None,
            meta_has_alpha = Some (gif_alpha f), meta_orientation = None\<rparr>)))))"

lemma gif_sub_step_no_panic [simp]: "no_panic (gif_sub_step bs o' u)"
  by (simp add: gif_sub_step_def)

lemma skip_gif_no_panic [simp]: "no_panic (skip_gif_sub_blocks bs o')"
  unfolding skip_gif_sub_blocks_def by (rule gif_sub.walk_no_panic) simp

text \<open>A chain that ends was started inside the file and ends past its start.\<close>

lemma skip_gif_forward:
  "skip_gif_sub_blocks bs o1 = Ok o2 \<Longrightarrow> o1 < o2 \<and> o1 < length bs"
proof -
  have "case skip_gif_sub_blocks bs o1 of Ok o2 \<Rightarrow> o1 < o2 \<and> o1 < length bs | _ \<Rightarrow> True"
    unfolding skip_gif_sub_blocks_def
    by (rule gif_sub.walk_invariant [where I = "\<lambda>o' _. o1 \<le> o'"])
      (auto simp: gif_sub_step_def split: if_splits)
  then show "skip_gif_sub_blocks bs o1 = Ok o2 \<Longrightarrow> o1 < o2 \<and> o1 < length bs" by simp
qed

interpretation gif: byte_walk "gif_step bs" "length bs" for bs
proof
  fix o' o'' and f f' :: gif_facts
  assume "gif_step bs o' f = Ok (Next o'' f')"
  then show "o' < o'' \<and> o' < length bs"
    by (auto simp: gif_step_def Let_def split: if_splits dest: skip_gif_forward)
qed

lemma gif_step_no_panic [simp]: "no_panic (gif_step bs o' f)"
  by (simp add: gif_step_def gif_transparency_def Let_def)

lemma sniff_gif_no_panic [simp]: "no_panic (sniff_gif bs)"
  by (simp add: sniff_gif_def gif.walk_no_panic)

section \<open>PNG\<close>

record png_facts =
  png_has_trns :: bool
  png_frame_count :: u32

definition png_step ::
  "bytes \<Rightarrow> nat \<Rightarrow> png_facts \<Rightarrow> (transform_error, (png_facts, png_facts) loop) outcome" where
  "png_step bs offset f =
     (if length bs < offset + 8 then Ok (Stop f)
      else and_then (slice bs offset (offset + 4)) (\<lambda>raw.
        case read_u32_be raw of
          Ok len \<Rightarrow>
            and_then (slice bs (offset + 4) (offset + 8)) (\<lambda>chunk_type.
              if chunk_type = ascii ''IDAT'' \<or> chunk_type = ascii ''IEND'' then Ok (Stop f)
              else
                and_then
                  (if chunk_type = ascii ''tRNS'' then Ok (f\<lparr>png_has_trns := True\<rparr>)
                   else if chunk_type = ascii ''acTL'' \<and> 4 \<le> len then
                     map_ok (\<lambda>s. case read_u32_be s of
                         Ok frames \<Rightarrow> f\<lparr>png_frame_count := max frames 1\<rparr> | _ \<Rightarrow> f)
                       (slice bs (offset + 8) (offset + 12))
                   else Ok f) (\<lambda>f'.
                case Option.bind (checked_add offset 12) (\<lambda>n. checked_add n (unat len)) of
                  None \<Rightarrow> Ok (Stop f')
                | Some next_offset \<Rightarrow> Ok (Next next_offset f')))
        | _ \<Rightarrow> Ok (Stop f)))"

definition png_ancillary_facts :: "bytes \<Rightarrow> (transform_error, png_facts) outcome" where
  "png_ancillary_facts bs =
     walk (png_step bs) (length bs) (8 + 12 + 13) \<lparr>png_has_trns = False, png_frame_count = 1\<rparr>"

interpretation png: byte_walk "png_step bs" "length bs" for bs
proof
  fix o' o'' and f f' :: png_facts
  assume "png_step bs o' f = Ok (Next o'' f')"
  then show "o' < o'' \<and> o' < length bs"
    by (auto simp: png_step_def split: if_splits outcome.splits option.splits bind_splits)
qed

text \<open>The orientation of a PNG is read from its \<open>eXIf\<close> chunk.\<close>

definition exif_prefix :: bytes where
  "exif_prefix = [0x45, 0x78, 0x69, 0x66, 0, 0]"

definition strip_exif_prefix :: "bytes \<Rightarrow> bytes" where
  "strip_exif_prefix payload =
     (case strip_prefix payload exif_prefix of Some r \<Rightarrow> r | None \<Rightarrow> payload)"

text \<open>\<open>?\<close> in a loop of a function that returns an \<open>Option\<close>: \<open>None\<close> ends the function.\<close>

definition or_none :: "'a option \<Rightarrow> ('a \<Rightarrow> ('e, ('s, 'b option) loop) outcome) \<Rightarrow>
    ('e, ('s, 'b option) loop) outcome" where
  "or_none m f = (case m of None \<Rightarrow> Ok (Stop None) | Some x \<Rightarrow> f x)"

definition ok_of :: "('e, 'a) outcome \<Rightarrow> 'a option" where
  "ok_of m = (case m of Ok x \<Rightarrow> Some x | _ \<Rightarrow> None)"

lemma or_none_simps [simp]: "or_none None f = Ok (Stop None)" "or_none (Some x) f = f x"
  by (simp_all add: or_none_def)

lemma or_none_Next [simp]:
  "or_none m f = Ok (Next o' s) \<longleftrightarrow> (\<exists>x. m = Some x \<and> f x = Ok (Next o' s))"
  by (cases m) simp_all

lemma no_panic_or_none [simp]: "no_panic (or_none m f) \<longleftrightarrow> (\<forall>x. m = Some x \<longrightarrow> no_panic (f x))"
  by (cases m) simp_all

definition png_exif_step ::
  "bytes \<Rightarrow> nat \<Rightarrow> unit \<Rightarrow> (transform_error, (unit, bytes option) loop) outcome" where
  "png_exif_step bs offset u =
     (if length bs < offset + 8 then Ok (Stop None)
      else
        or_none (Option.bind (get_slice bs offset (offset + 4)) (\<lambda>s. ok_of (read_u32_be s))) (\<lambda>len.
        or_none (get_slice bs (offset + 4) (offset + 8)) (\<lambda>chunk_type.
        let start = offset + 8 in
        or_none (checked_add start (unat len)) (\<lambda>fin.
          if length bs < fin then Ok (Stop None)
          else if chunk_type = ascii ''eXIf'' then
            Ok (Stop (map_option strip_exif_prefix (get_slice bs start fin)))
          else if chunk_type = ascii ''IEND'' then Ok (Stop None)
          else or_none (checked_add fin 4) (\<lambda>o'. Ok (Next o' ()))))))"

definition png_exif_payload :: "bytes \<Rightarrow> (transform_error, bytes option) outcome" where
  "png_exif_payload bs = walk (png_exif_step bs) (length bs) 8 ()"

interpretation png_exif: byte_walk "png_exif_step bs" "length bs" for bs
  by unfold_locales (auto simp: png_exif_step_def Let_def split: if_splits)

lemma png_exif_no_panic [simp]: "no_panic (png_exif_payload bs)"
  unfolding png_exif_payload_def
  by (rule png_exif.walk_no_panic) (simp add: png_exif_step_def Let_def)

section \<open>TIFF and the Exif reader\<close>

datatype color_type = L8 | La8 | Rgb8 | Rgba8 | L16 | La16 | Rgb16 | Rgba16 | Rgb32F | Rgba32F

datatype exif_value = Short "u16 list" | Long "u32 list" | OtherValue

text \<open>
  The crates: \<open>tiff_decoder\<close> is \<open>TiffDecoder::new\<close> with the dimensions and colour type it
  reports, or its message; \<open>exif_field\<close> is the value of the primary Orientation field of a raw
  Exif block, if the reader accepts the block and finds the field.
\<close>

record codecs =
  tiff_decoder :: "bytes \<Rightarrow> string + (u32 \<times> u32 \<times> color_type)"
  exif_field :: "bytes \<Rightarrow> exif_value option"

definition tiff_u16 :: "bool \<Rightarrow> bytes \<Rightarrow> nat \<Rightarrow> u16 option" where
  "tiff_u16 little bs offset =
     (case get_slice bs offset (offset + 2) of
        Some [a, b] \<Rightarrow> Some (if little then u16_of_le a b else u16_of_be a b)
      | _ \<Rightarrow> None)"

definition tiff_u32 :: "bool \<Rightarrow> bytes \<Rightarrow> nat \<Rightarrow> u32 option" where
  "tiff_u32 little bs offset =
     (case get_slice bs offset (offset + 4) of
        Some [a, b, c, d] \<Rightarrow> Some (if little then u32_of_le a b c d else u32_of_be a b c d)
      | _ \<Rightarrow> None)"

definition ORIENTATION_TAG :: u16 where "ORIENTATION_TAG = 0x0112"
definition TYPE_SHORT :: u16 where "TYPE_SHORT = 3"
definition TYPE_LONG :: u16 where "TYPE_LONG = 4"

definition u16_of_u32 :: "u32 \<Rightarrow> u16 option" where
  "u16_of_u32 w = u16_try_from (uint w)"

text \<open>The entries from \<open>entry\<close> on, \<open>n\<close> of them, twelve bytes each.\<close>

fun tiff_entries :: "bool \<Rightarrow> bytes \<Rightarrow> nat \<Rightarrow> nat \<Rightarrow> u16 option" where
  "tiff_entries little bs entry 0 = None"
| "tiff_entries little bs entry (Suc n) =
     (case tiff_u16 little bs entry of
        None \<Rightarrow> None
      | Some tag \<Rightarrow>
          if tag \<noteq> ORIENTATION_TAG then tiff_entries little bs (entry + 12) n
          else (case tiff_u16 little bs (entry + 2) of
              None \<Rightarrow> None
            | Some typ \<Rightarrow>
                if typ = TYPE_SHORT then tiff_u16 little bs (entry + 8)
                else if typ = TYPE_LONG then Option.bind (tiff_u32 little bs (entry + 8)) u16_of_u32
                else None))"

definition tiff_orientation :: "bytes \<Rightarrow> u16 option" where
  "tiff_orientation bs =
     (case get_slice bs 0 2 of
        None \<Rightarrow> None
      | Some mark \<Rightarrow>
          if mark \<noteq> ascii ''II'' \<and> mark \<noteq> ascii ''MM'' then None
          else
            let little = (mark = ascii ''II'') in
            (case tiff_u32 little bs 4 of
               None \<Rightarrow> None
             | Some ifd \<Rightarrow>
                 (case tiff_u16 little bs (unat ifd) of
                    None \<Rightarrow> None
                  | Some entry_count \<Rightarrow> tiff_entries little bs (unat ifd + 2) (unat entry_count))))"

definition exif_orientation_from_payload :: "codecs \<Rightarrow> bytes \<Rightarrow> u16 option" where
  "exif_orientation_from_payload X payload =
     (case exif_field X payload of
        Some (Short (v # _)) \<Rightarrow> Some v
      | Some (Long (v # _)) \<Rightarrow> u16_of_u32 v
      | _ \<Rightarrow> None)"

section \<open>JPEG\<close>

text \<open>\<open>while offset < bytes.len() && bytes[offset] == 0xFF { offset += 1; }\<close>\<close>

definition skip_fill :: "bytes \<Rightarrow> nat \<Rightarrow> nat" where
  "skip_fill bs offset = offset + length (takeWhile (\<lambda>b. b = 0xFF) (drop offset bs))"

definition is_standalone_marker :: "u8 \<Rightarrow> bool" where
  "is_standalone_marker m \<longleftrightarrow> 0xD0 \<le> m \<and> m \<le> 0xD7 \<or> m = 1"

definition is_jpeg_sof_marker :: "u8 \<Rightarrow> bool" where
  "is_jpeg_sof_marker m \<longleftrightarrow>
     m \<in> {0xC0, 0xC1, 0xC2, 0xC3, 0xC5, 0xC6, 0xC7, 0xC9, 0xCA, 0xCB, 0xCD, 0xCE, 0xCF}"

definition jpeg_exif_step ::
  "bytes \<Rightarrow> nat \<Rightarrow> unit \<Rightarrow> (transform_error, (unit, bytes option) loop) outcome" where
  "jpeg_exif_step bs offset u =
     (if length bs \<le> offset + 1 then Ok (Stop None)
      else and_then (byte_at bs offset) (\<lambda>b.
        if b \<noteq> 0xFF then Ok (Stop None)
        else
          let o1 = skip_fill bs offset in
          or_none (get_byte bs o1) (\<lambda>marker.
          let o2 = o1 + 1 in
          if marker = 0xD9 \<or> marker = 0xDA then Ok (Stop None)
          else if is_standalone_marker marker then Ok (Next o2 ())
          else
            or_none (Option.bind (get_slice bs o2 (o2 + 2)) (\<lambda>s. ok_of (read_u16_be s))) (\<lambda>w.
            let len = unat w in
            if len < 2 \<or> length bs < o2 + len then Ok (Stop None)
            else if marker = 0xE1 then
              and_then (slice bs (o2 + 2) (o2 + len)) (\<lambda>s.
                case strip_prefix s exif_prefix of
                  Some payload \<Rightarrow> Ok (Stop (Some payload))
                | None \<Rightarrow> Ok (Next (o2 + len) ()))
            else Ok (Next (o2 + len) ())))))"

definition jpeg_exif_payload :: "bytes \<Rightarrow> (transform_error, bytes option) outcome" where
  "jpeg_exif_payload bs = walk (jpeg_exif_step bs) (length bs) 2 ()"

lemma skip_fill_ge: "offset \<le> skip_fill bs offset"
  by (simp add: skip_fill_def)

lemma skip_fill_less: "skip_fill bs offset < length bs \<Longrightarrow> offset < length bs"
  by (simp add: skip_fill_def)

interpretation jpeg_exif: byte_walk "jpeg_exif_step bs" "length bs" for bs
proof
  fix o' o'' and u u' :: unit
  assume "jpeg_exif_step bs o' u = Ok (Next o'' u')"
  with skip_fill_ge [of o' bs] show "o' < o'' \<and> o' < length bs"
    by (auto simp: jpeg_exif_step_def Let_def split: if_splits option.splits)
qed

lemma jpeg_exif_no_panic [simp]: "no_panic (jpeg_exif_payload bs)"
  unfolding jpeg_exif_payload_def
  by (rule jpeg_exif.walk_no_panic)
    (auto simp: jpeg_exif_step_def Let_def split: option.splits)

definition sniff_jpeg_step ::
  "codecs \<Rightarrow> bytes \<Rightarrow> nat \<Rightarrow> bytes option \<Rightarrow>
    (transform_error, (bytes option, artifact_metadata) loop) outcome" where
  "sniff_jpeg_step X bs offset exif_payload =
     (let missing = DecodeFailed ''jpeg file is missing a SOF segment'' in
      if length bs \<le> offset + 1 then Err missing
      else and_then (byte_at bs offset) (\<lambda>b.
        if b \<noteq> 0xFF then Err (DecodeFailed ''jpeg file has an invalid marker prefix'')
        else
          let o1 = skip_fill bs offset in
          if length bs \<le> o1 then Err missing
          else and_then (byte_at bs o1) (\<lambda>marker.
          let o2 = o1 + 1 in
          if marker = 0xD9 \<or> marker = 0xDA then Err missing
          else if is_standalone_marker marker then Ok (Next o2 exif_payload)
          else if length bs < o2 + 2 then Err (DecodeFailed ''jpeg segment is truncated'')
          else and_then (and_then (slice bs o2 (o2 + 2)) read_u16_be) (\<lambda>w.
            let len = unat w in
            if len < 2 \<or> length bs < o2 + len
            then Err (DecodeFailed ''jpeg segment length is invalid'')
            else and_then
              (if marker = 0xE1 \<and> exif_payload = None
               then map_ok (\<lambda>s. strip_prefix s exif_prefix) (slice bs (o2 + 2) (o2 + len))
               else Ok exif_payload) (\<lambda>payload.
              if is_jpeg_sof_marker marker then
                (if len < 7 then Err (DecodeFailed ''jpeg SOF segment is too short'')
                 else
                   and_then (and_then (slice bs (o2 + 3) (o2 + 5)) read_u16_be) (\<lambda>height.
                   and_then (and_then (slice bs (o2 + 5) (o2 + 7)) read_u16_be) (\<lambda>width.
                     Ok (Stop ((raster_metadata (ucast width) (ucast height) (Some False))
                       \<lparr>meta_orientation :=
                          Option.bind payload (exif_orientation_from_payload X)\<rparr>)))))
              else Ok (Next (o2 + len) payload))))))"

definition sniff_jpeg :: "codecs \<Rightarrow> bytes \<Rightarrow> (transform_error, artifact_metadata) outcome" where
  "sniff_jpeg X bs = walk (sniff_jpeg_step X bs) (length bs) 2 None"

interpretation jpeg: byte_walk "sniff_jpeg_step X bs" "length bs" for X bs
proof
  fix o' o'' and u u' :: "bytes option"
  assume "sniff_jpeg_step X bs o' u = Ok (Next o'' u')"
  with skip_fill_ge [of o' bs] show "o' < o'' \<and> o' < length bs"
    by (auto simp: sniff_jpeg_step_def Let_def split: if_splits)
qed

lemma sniff_jpeg_no_panic [simp]: "no_panic (sniff_jpeg X bs)"
  unfolding sniff_jpeg_def
  by (rule jpeg.walk_no_panic) (auto simp: sniff_jpeg_step_def Let_def)

section \<open>WebP\<close>

definition VP8X_ALPHA_FLAG :: u8 where "VP8X_ALPHA_FLAG = 0x10"
definition VP8X_ANIMATION_FLAG :: u8 where "VP8X_ANIMATION_FLAG = 0x02"

definition webp_exif_step ::
  "bytes \<Rightarrow> nat \<Rightarrow> unit \<Rightarrow> (transform_error, (unit, bytes option) loop) outcome" where
  "webp_exif_step bs offset u =
     (if length bs < offset + 8 then Ok (Stop None)
      else
        or_none (get_slice bs offset (offset + 4)) (\<lambda>chunk_tag.
        or_none (Option.bind (get_slice bs (offset + 4) (offset + 8))
          (\<lambda>s. ok_of (read_u32_le s))) (\<lambda>w.
        let sz = unat w; start = offset + 8 in
        or_none (checked_add start sz) (\<lambda>fin.
          if length bs < fin then Ok (Stop None)
          else if chunk_tag = ascii ''EXIF'' then
            Ok (Stop (map_option strip_exif_prefix (get_slice bs start fin)))
          else or_none (checked_add fin (sz mod 2)) (\<lambda>o'. Ok (Next o' ()))))))"

definition webp_exif_payload :: "bytes \<Rightarrow> (transform_error, bytes option) outcome" where
  "webp_exif_payload bs = walk (webp_exif_step bs) (length bs) 12 ()"

interpretation webp_exif: byte_walk "webp_exif_step bs" "length bs" for bs
  by unfold_locales (auto simp: webp_exif_step_def Let_def split: if_splits)

lemma webp_exif_no_panic [simp]: "no_panic (webp_exif_payload bs)"
  unfolding webp_exif_payload_def
  by (rule webp_exif.walk_no_panic) (simp add: webp_exif_step_def Let_def)

text \<open>The one reader the sniffers and the pipeline share.\<close>

definition exif_orientation ::
  "codecs \<Rightarrow> media_type \<Rightarrow> bytes \<Rightarrow> (transform_error, u16 option) outcome" where
  "exif_orientation X m bs =
     (let read = map_ok (\<lambda>p. Option.bind p (exif_orientation_from_payload X)) in
      case m of
        Jpeg \<Rightarrow> read (jpeg_exif_payload bs)
      | Png \<Rightarrow> read (png_exif_payload bs)
      | Webp \<Rightarrow> read (webp_exif_payload bs)
      | Tiff \<Rightarrow> Ok (tiff_orientation bs)
      | _ \<Rightarrow> Ok None)"

lemma exif_orientation_no_panic [simp]: "no_panic (exif_orientation X m bs)"
  by (cases m) (simp_all add: exif_orientation_def Let_def)

definition count_webp_step ::
  "bytes \<Rightarrow> nat \<Rightarrow> u32 \<Rightarrow> (transform_error, (u32, u32) loop) outcome" where
  "count_webp_step bs offset frames =
     (if length bs < offset + 8 then Ok (Stop frames)
      else and_then (slice bs (offset + 4) (offset + 8)) (\<lambda>s.
        case read_u32_le s of
          Ok w \<Rightarrow> and_then (slice bs offset (offset + 4)) (\<lambda>tag.
            let frames' = (if tag = ascii ''ANMF'' then saturating_inc frames else frames);
                sz = unat w
            in case Option.bind (checked_add offset 8) (\<lambda>n.
                 Option.bind (checked_add n sz) (\<lambda>n. checked_add n (sz mod 2))) of
                 None \<Rightarrow> Ok (Stop frames')
               | Some next_offset \<Rightarrow> Ok (Next next_offset frames'))
        | _ \<Rightarrow> Ok (Stop frames)))"

definition count_webp_frames :: "bytes \<Rightarrow> (transform_error, u32) outcome" where
  "count_webp_frames bs = walk (count_webp_step bs) (length bs) 12 0"

interpretation webp_frames: byte_walk "count_webp_step bs" "length bs" for bs
  by unfold_locales
    (auto simp: count_webp_step_def Let_def split: if_splits outcome.splits option.splits bind_splits)

lemma count_webp_no_panic [simp]: "no_panic (count_webp_frames bs)"
  unfolding count_webp_frames_def
  by (rule webp_frames.walk_no_panic)
    (auto simp: count_webp_step_def Let_def split: outcome.splits option.splits)

definition sniff_webp_vp8x :: "bytes \<Rightarrow> (transform_error, artifact_metadata) outcome" where
  "sniff_webp_vp8x bs =
     (if length bs < 10 then Err (DecodeFailed ''webp VP8X chunk is too short'')
      else
        and_then (byte_at bs 0) (\<lambda>flags.
        and_then (and_then (slice bs 4 7) read_u24_le) (\<lambda>w.
        and_then (and_then (slice bs 7 10) read_u24_le) (\<lambda>h.
          Ok ((raster_metadata (w + 1) (h + 1) (Some (flags AND VP8X_ALPHA_FLAG \<noteq> 0)))
            \<lparr>meta_frame_count := (if flags AND VP8X_ANIMATION_FLAG \<noteq> 0 then 1 else 0) + 1\<rparr>)))))"

definition sniff_webp_vp8 :: "bytes \<Rightarrow> (transform_error, artifact_metadata) outcome" where
  "sniff_webp_vp8 bs =
     (if length bs < 10 then Err (DecodeFailed ''webp VP8 chunk is too short'')
      else
        and_then (slice bs 3 6) (\<lambda>code.
          if code \<noteq> [0x9D, 0x01, 0x2A]
          then Err (DecodeFailed ''webp VP8 chunk has an invalid start code'')
          else
            and_then (and_then (slice bs 6 8) read_u16_le) (\<lambda>w.
            and_then (and_then (slice bs 8 10) read_u16_le) (\<lambda>h.
              Ok (raster_metadata (ucast (w AND 0x3FFF)) (ucast (h AND 0x3FFF)) (Some False))))))"

definition sniff_webp_vp8l :: "bytes \<Rightarrow> (transform_error, artifact_metadata) outcome" where
  "sniff_webp_vp8l bs =
     (if length bs < 5 then Err (DecodeFailed ''webp VP8L chunk is too short'')
      else
        and_then (byte_at bs 0) (\<lambda>b.
          if b \<noteq> 0x2F then Err (DecodeFailed ''webp VP8L chunk has an invalid signature'')
          else
            and_then (and_then (slice bs 1 5) read_u32_le) (\<lambda>bits.
              Ok (raster_metadata ((bits AND 0x3FFF) + 1) ((drop_bit 14 bits AND 0x3FFF) + 1)
                (Some (drop_bit 28 bits AND 1 \<noteq> 0))))))"

definition sniff_webp_step ::
  "codecs \<Rightarrow> bytes \<Rightarrow> nat \<Rightarrow> unit \<Rightarrow>
    (transform_error, (unit, artifact_metadata) loop) outcome" where
  "sniff_webp_step X bs offset u =
     (if length bs < offset + 8 then Err (DecodeFailed ''webp file is missing an image chunk'')
      else
        and_then (slice bs offset (offset + 4)) (\<lambda>tag.
        and_then (and_then (slice bs (offset + 4) (offset + 8)) read_u32_le) (\<lambda>w.
        let chunk_size = unat w; chunk_start = offset + 8 in
        and_then (ok_or (DecodeFailed ''webp chunk is too large'')
          (checked_add chunk_start chunk_size)) (\<lambda>chunk_end.
          if length bs < chunk_end then Err (DecodeFailed ''webp chunk exceeds file length'')
          else
            and_then (slice bs chunk_start chunk_end) (\<lambda>chunk_data.
            if tag \<noteq> ascii ''VP8X'' \<and> tag \<noteq> ascii ''VP8 '' \<and> tag \<noteq> ascii ''VP8L''
            then Ok (Next (chunk_end + chunk_size mod 2) ())
            else
              and_then (if tag = ascii ''VP8X'' then sniff_webp_vp8x chunk_data
                else if tag = ascii ''VP8 '' then sniff_webp_vp8 chunk_data
                else sniff_webp_vp8l chunk_data) (\<lambda>meta.
              and_then (exif_orientation X Webp bs) (\<lambda>orientation.
              map_ok (\<lambda>frames. Stop (meta\<lparr>meta_orientation := orientation, meta_frame_count := frames\<rparr>))
                (if 1 < meta_frame_count meta then map_ok (max 2) (count_webp_frames bs)
                 else Ok (meta_frame_count meta)))))))))"

definition sniff_webp :: "codecs \<Rightarrow> bytes \<Rightarrow> (transform_error, artifact_metadata) outcome" where
  "sniff_webp X bs = walk (sniff_webp_step X bs) (length bs) 12 ()"

interpretation webp: byte_walk "sniff_webp_step X bs" "length bs" for X bs
  by unfold_locales (auto simp: sniff_webp_step_def Let_def split: if_splits)

lemma webp_chunk_no_panic [simp]:
  "no_panic (sniff_webp_vp8x bs)" "no_panic (sniff_webp_vp8 bs)" "no_panic (sniff_webp_vp8l bs)"
  by (auto simp: sniff_webp_vp8x_def sniff_webp_vp8_def sniff_webp_vp8l_def)

lemma sniff_webp_no_panic [simp]: "no_panic (sniff_webp X bs)"
  unfolding sniff_webp_def
  by (rule webp.walk_no_panic) (auto simp: sniff_webp_step_def Let_def)

section \<open>Detection\<close>

definition sniff_tiff :: "codecs \<Rightarrow> bytes \<Rightarrow> (transform_error, artifact_metadata) outcome" where
  "sniff_tiff X bs =
     (case tiff_decoder X bs of
        Inl e \<Rightarrow> Err (DecodeFailed (''tiff decode: '' @ e))
      | Inr (w, h, color) \<Rightarrow>
          map_ok (\<lambda>o'. (raster_metadata w h
              (Some (color \<in> {La8, Rgba8, La16, Rgba16, Rgba32F})))\<lparr>meta_orientation := o'\<rparr>)
            (exif_orientation X Tiff bs))"

definition sniff_png :: "codecs \<Rightarrow> bytes \<Rightarrow> (transform_error, artifact_metadata) outcome" where
  "sniff_png X bs =
     (if length bs < 29 then Err (DecodeFailed ''png file is too short'')
      else
        and_then (slice bs 12 16) (\<lambda>ihdr.
          if ihdr \<noteq> ascii ''IHDR'' then Err (DecodeFailed ''png file is missing an IHDR chunk'')
          else
            and_then (and_then (slice bs 16 20) read_u32_be) (\<lambda>width.
            and_then (and_then (slice bs 20 24) read_u32_be) (\<lambda>height.
            and_then (byte_at bs 25) (\<lambda>color_type.
            and_then (png_ancillary_facts bs) (\<lambda>ancillary.
            let has_alpha =
              (if color_type \<in> {4, 6} then Some True
               else if color_type \<in> {0, 2, 3} then Some (png_has_trns ancillary)
               else None)
            in map_ok (\<lambda>o'. (raster_metadata width height has_alpha)
                \<lparr>meta_frame_count := png_frame_count ancillary, meta_orientation := o'\<rparr>)
              (exif_orientation X Png bs)))))))"

definition AVIF_INPUT_REFUSAL :: string where
  "AVIF_INPUT_REFUSAL = ''AVIF is not supported; convert the image to PNG, JPEG, or WebP before passing it to truss''"

definition detect_artifact ::
  "codecs \<Rightarrow> bytes \<Rightarrow> (transform_error, media_type \<times> artifact_metadata) outcome" where
  "detect_artifact X bs =
     (if is_png bs then map_ok (Pair Png) (sniff_png X bs)
      else if is_jpeg bs then map_ok (Pair Jpeg) (sniff_jpeg X bs)
      else if is_webp bs then map_ok (Pair Webp) (sniff_webp X bs)
      else if is_avif bs then Err (UnsupportedInputMediaType AVIF_INPUT_REFUSAL)
      else if is_bmp bs then map_ok (Pair Bmp) (sniff_bmp bs)
      else if is_tiff bs then map_ok (Pair Tiff) (sniff_tiff X bs)
      else if is_gif bs then map_ok (Pair Gif) (sniff_gif bs)
      else if is_svg bs then Ok (Svg, sniff_svg bs)
      else Err (UnsupportedInputMediaType
        (''unknown file signature ('' @ show_nat (length bs) @ '' bytes)'')))"

definition sniff_artifact :: "codecs \<Rightarrow> raw_artifact \<Rightarrow> (transform_error, artifact) outcome" where
  "sniff_artifact X input =
     and_then (detect_artifact X (raw_bytes input)) (\<lambda>(m, meta).
       if raw_declared input \<noteq> None \<and> raw_declared input \<noteq> Some m
       then Err (InvalidInput ''declared media type does not match detected media type'')
       else Ok \<lparr>art_bytes = raw_bytes input, art_media_type = m, art_metadata = meta\<rparr>)"

section \<open>What detection promises\<close>

text \<open>The magic number of each binary format; no byte string carries two of them.\<close>

fun magic :: "media_type \<Rightarrow> bytes \<Rightarrow> bool" where
  "magic Png bs = is_png bs"
| "magic Jpeg bs = is_jpeg bs"
| "magic Webp bs = is_webp bs"
| "magic Bmp bs = is_bmp bs"
| "magic Tiff bs = is_tiff bs"
| "magic Gif bs = is_gif bs"
| "magic Svg bs = is_svg bs"

definition first_byte :: "media_type \<Rightarrow> u8 set" where
  "first_byte m =
     (case m of Png \<Rightarrow> {0x89} | Jpeg \<Rightarrow> {0xFF} | Webp \<Rightarrow> {0x52} | Bmp \<Rightarrow> {0x42}
      | Tiff \<Rightarrow> {0x49, 0x4D} | Gif \<Rightarrow> {0x47} | Svg \<Rightarrow> {})"

lemma starts_with_nth0: "starts_with bs (p # ps) \<Longrightarrow> bs ! 0 = p"
  by (cases bs) auto

lemma magic_first_byte: "magic m bs \<Longrightarrow> m \<noteq> Svg \<Longrightarrow> bs ! 0 \<in> first_byte m"
proof (cases m)
  case Webp
  assume "magic m bs"
  with Webp have "sub_bytes bs 0 4 ! 0 = ascii ''RIFF'' ! 0" by (simp add: is_webp_def)
  with Webp show ?thesis by (simp add: first_byte_def sub_bytes_def ascii_def)
qed (auto simp: first_byte_def is_png_def is_jpeg_def is_bmp_def is_tiff_def is_gif_def ascii_def
    dest: starts_with_nth0)

lemma magic_exclusive:
  "magic m bs \<Longrightarrow> magic n bs \<Longrightarrow> m \<noteq> Svg \<Longrightarrow> n \<noteq> Svg \<Longrightarrow> m = n"
  using magic_first_byte [of m bs] magic_first_byte [of n bs]
  by (cases m; cases n) (auto simp: first_byte_def)

text \<open>
  C11. Detection is sound and does not depend on the order of its checks: an accepted input
  keeps its bytes, its media type is one whose magic number the bytes carry and, unless it is
  SVG, the only such binary format, and it is the declared type whenever one was declared.
\<close>

theorem sniff_artifact_sound:
  assumes "sniff_artifact X input = Ok a"
  shows "art_bytes a = raw_bytes input \<and> magic (art_media_type a) (raw_bytes input) \<and>
    (\<forall>m. magic m (raw_bytes input) \<and> m \<noteq> Svg \<and> art_media_type a \<noteq> Svg \<longrightarrow> m = art_media_type a) \<and>
    (raw_declared input = None \<or> raw_declared input = Some (art_media_type a))"
proof -
  obtain m meta where d: "detect_artifact X (raw_bytes input) = Ok (m, meta)"
    and a: "a = \<lparr>art_bytes = raw_bytes input, art_media_type = m, art_metadata = meta\<rparr>"
    and decl: "raw_declared input = None \<or> raw_declared input = Some m"
    using assms by (auto simp: sniff_artifact_def split: if_splits)
  from d have "magic m (raw_bytes input)"
    by (auto simp: detect_artifact_def split: if_splits)
  with a decl show ?thesis by (auto dest: magic_exclusive)
qed

definition no_codecs :: codecs where
  "no_codecs = \<lparr>tiff_decoder = (\<lambda>_. Inl []), exif_field = (\<lambda>_. None)\<rparr>"

definition tiny_bmp :: bytes where
  "tiny_bmp = [0x42, 0x4D] @ replicate 16 0 @ [3, 0, 0, 0, 0xFE, 0xFF, 0xFF, 0xFF, 1, 0, 32, 0]"

lemma sniff_tiny_bmp:
  "sniff_artifact no_codecs \<lparr>raw_bytes = tiny_bmp, raw_declared = Some Bmp\<rparr> =
     Ok \<lparr>art_bytes = tiny_bmp, art_media_type = Bmp,
       art_metadata = raster_metadata 3 2 (Some True)\<rparr>"
  by code_simp

theorem sniff_artifact_sound_witness:
  "magic Bmp tiny_bmp \<and> \<not> magic Gif tiny_bmp \<and> \<not> magic Png tiny_bmp"
proof -
  have all: "\<forall>m. magic m tiny_bmp \<and> m \<noteq> Svg \<longrightarrow> m = Bmp" and bmp: "magic Bmp tiny_bmp"
    using sniff_artifact_sound [OF sniff_tiny_bmp] by (simp_all del: magic.simps)
  show ?thesis using bmp spec [OF all, of Gif] spec [OF all, of Png] by (simp del: magic.simps)
qed

section \<open>The one panic of the sniffers\<close>

definition png_len :: "bytes \<Rightarrow> nat \<Rightarrow> nat" where
  "png_len bs o' = (case read_u32_be (sub_bytes bs o' (o' + 4)) of Ok w \<Rightarrow> unat w | _ \<Rightarrow> 0)"

definition png_tag :: "bytes \<Rightarrow> nat \<Rightarrow> bytes" where
  "png_tag bs o' = sub_bytes bs (o' + 4) (o' + 8)"

text \<open>The offsets at which the chunk walk reads a chunk header.\<close>

inductive png_chunk_at :: "bytes \<Rightarrow> nat \<Rightarrow> bool" for bs where
  first: "png_chunk_at bs 33"
| further: "png_chunk_at bs o' \<Longrightarrow> o' + 8 \<le> length bs \<Longrightarrow> png_tag bs o' \<noteq> ascii ''IDAT'' \<Longrightarrow>
    png_tag bs o' \<noteq> ascii ''IEND'' \<Longrightarrow> o' + 12 + png_len bs o' \<le> usize_max \<Longrightarrow>
    png_chunk_at bs (o' + 12 + png_len bs o')"

definition cut_actl :: "bytes \<Rightarrow> nat \<Rightarrow> bool" where
  "cut_actl bs o' \<longleftrightarrow> o' + 8 \<le> length bs \<and> length bs < o' + 12 \<and>
     png_tag bs o' = ascii ''acTL'' \<and> 4 \<le> png_len bs o'"

lemma read_u32_be_slice:
  "o' + 4 \<le> length bs \<Longrightarrow> \<exists>w. read_u32_be (sub_bytes bs o' (o' + 4)) = Ok w"
  using length_eq_4 [of "sub_bytes bs o' (o' + 4)"] by auto

lemma png_step_panic: "png_step bs o' f = Panic \<longleftrightarrow> cut_actl bs o'"
proof (cases "o' + 8 \<le> length bs")
  case True
  then obtain w where w: "read_u32_be (sub_bytes bs o' (o' + 4)) = Ok w"
    using read_u32_be_slice [of o' bs] by auto
  have tags: "ascii ''acTL'' \<noteq> ascii ''IDAT''" "ascii ''acTL'' \<noteq> ascii ''IEND''"
    "ascii ''acTL'' \<noteq> ascii ''tRNS''" by (simp_all add: ascii_def)
  have le: "4 \<le> w \<longleftrightarrow> 4 \<le> unat w" by (simp add: word_le_nat_alt)
  show ?thesis
    using True tags
    by (auto simp: png_step_def cut_actl_def png_tag_def png_len_def w le access_simps
        and_then_eq_Panic slice_def split: option.splits)
qed (simp add: png_step_def cut_actl_def)

lemma png_step_Next:
  assumes "png_step bs o' f = Ok (Next o'' f')"
  shows "o' + 8 \<le> length bs \<and> png_tag bs o' \<noteq> ascii ''IDAT'' \<and> png_tag bs o' \<noteq> ascii ''IEND'' \<and>
    o'' = o' + 12 + png_len bs o' \<and> o'' \<le> usize_max"
  using assms
  by (auto simp: png_step_def png_tag_def png_len_def
      split: if_splits outcome.splits option.splits bind_splits)

lemma png_step_goes_on:
  assumes "o' + 8 \<le> length bs" "png_tag bs o' \<noteq> ascii ''IDAT''" "png_tag bs o' \<noteq> ascii ''IEND''"
    and "o' + 12 + png_len bs o' \<le> usize_max" and "\<not> cut_actl bs o'"
  shows "\<exists>f'. png_step bs o' f = Ok (Next (o' + 12 + png_len bs o') f')"
proof -
  obtain w where w: "read_u32_be (sub_bytes bs o' (o' + 4)) = Ok w"
    using assms(1) read_u32_be_slice [of o' bs] by auto
  have le: "4 \<le> w \<longleftrightarrow> 4 \<le> unat w" by (simp add: word_le_nat_alt)
  show ?thesis
    using assms
    by (auto simp: png_step_def cut_actl_def png_tag_def png_len_def w le access_simps checked_add_def)
qed

lemma png_facts_panic:
  "png_ancillary_facts bs = Panic \<longleftrightarrow> (\<exists>o'. png_chunk_at bs o' \<and> cut_actl bs o')"
proof
  let ?f0 = "\<lparr>png_has_trns = False, png_frame_count = 1\<rparr>"
  let ?W = "walk (png_step bs) (length bs)"
  have W: "png_ancillary_facts bs = ?W 33 ?f0" by (simp add: png_ancillary_facts_def)
  {
    assume "png_ancillary_facts bs = Panic"
    moreover have "?W 33 ?f0 = Panic \<longrightarrow> (\<exists>o'. png_chunk_at bs o' \<and> cut_actl bs o')"
      by (rule png.walk_invariant [where I = "\<lambda>o' _. png_chunk_at bs o'"])
        (auto simp: png_step_panic intro: png_chunk_at.intros dest: png_step_Next)
    ultimately show "\<exists>o'. png_chunk_at bs o' \<and> cut_actl bs o'" by (simp add: W)
  next
    have reach: "png_chunk_at bs o' \<Longrightarrow> ?W 33 ?f0 = Panic \<or> (\<exists>f. ?W 33 ?f0 = ?W o' f)" for o'
    proof (induction rule: png_chunk_at.induct)
      case (further o')
      show ?case
      proof (cases "cut_actl bs o'")
        case True
        then have "?W o' f = Panic" for f by (simp add: png.walk_Panic png_step_panic)
        with further.IH show ?thesis by metis
      next
        case False
        with further.hyps png_step_goes_on [of o' bs]
        have "\<exists>f'. ?W o' f = ?W (o' + 12 + png_len bs o') f'" for f
          by (metis png.walk_Next)
        with further.IH show ?thesis by metis
      qed
    qed auto
    assume "\<exists>o'. png_chunk_at bs o' \<and> cut_actl bs o'"
    then obtain o' where o': "png_chunk_at bs o'" "cut_actl bs o'" by blast
    then have "?W o' f = Panic" for f by (simp add: png.walk_Panic png_step_panic)
    with reach [OF o'(1)] show "png_ancillary_facts bs = Panic" by (auto simp: W)
  }
qed

text \<open>
  C4. The sniffers index untrusted bytes without panicking, with exactly one exception:
  detection panics if and only if the input is a PNG with an IHDR chunk whose chunk walk
  reaches an \<open>acTL\<close> header that declares at least four bytes and has fewer than four bytes
  of the file left behind it.
\<close>

theorem detect_panics_iff:
  "detect_artifact X bs = Panic \<longleftrightarrow>
     is_png bs \<and> 29 \<le> length bs \<and> sub_bytes bs 12 16 = ascii ''IHDR'' \<and>
     (\<exists>o'. png_chunk_at bs o' \<and> cut_actl bs o')"
proof -
  have np: "m \<noteq> Panic" if "no_panic m" for m :: "(transform_error, 'x) outcome"
    using that by (simp add: no_panic_def)
  have tiff: "no_panic (sniff_tiff X bs)"
    by (simp add: sniff_tiff_def split: sum.split)
  have png: "sniff_png X bs = Panic \<longleftrightarrow> 29 \<le> length bs \<and> sub_bytes bs 12 16 = ascii ''IHDR'' \<and>
      png_ancillary_facts bs = Panic"
  proof (cases "29 \<le> length bs")
    case True
    then have "\<exists>w. read_u32_be (sub_bytes bs 16 20) = Ok w" "\<exists>w. read_u32_be (sub_bytes bs 20 24) = Ok w"
      using read_u32_be_slice [of 16 bs] read_u32_be_slice [of 20 bs] by auto
    with True np [OF exif_orientation_no_panic] show ?thesis
      by (auto simp: sniff_png_def Let_def access_simps and_then_eq_Panic)
  qed (simp add: sniff_png_def)
  show ?thesis
    using np [OF tiff]
      np [OF sniff_jpeg_no_panic [of X bs]] np [OF sniff_webp_no_panic [of X bs]]
      np [OF sniff_bmp_no_panic [of bs]] np [OF sniff_gif_no_panic [of bs]]
    by (auto simp: detect_artifact_def png png_facts_panic [symmetric])
qed

text \<open>The 41 bytes that reach it: the signature, an IHDR chunk, and a bare \<open>acTL\<close> header.\<close>

definition cut_png :: bytes where
  "cut_png = [0x89, 0x50, 0x4E, 0x47, 0x0D, 0x0A, 0x1A, 0x0A] @ [0, 0, 0, 13] @ ascii ''IHDR'' @
     [0, 0, 0, 1, 0, 0, 0, 1, 8, 6, 0, 0, 0] @ [0, 0, 0, 0] @ [0, 0, 0, 8] @ ascii ''acTL''"

lemma cut_png_panics: "sniff_artifact X \<lparr>raw_bytes = cut_png, raw_declared = None\<rparr> = Panic"
proof -
  have "is_png cut_png \<and> 29 \<le> length cut_png \<and> sub_bytes cut_png 12 16 = ascii ''IHDR''"
    by code_simp
  moreover have "cut_actl cut_png 33" by code_simp
  then have "png_ancillary_facts cut_png = Panic" by (auto simp: png_facts_panic intro: png_chunk_at.first)
  moreover have "read_u32_be (sub_bytes cut_png 16 20) = Ok 1" "read_u32_be (sub_bytes cut_png 20 24) = Ok 1"
    by code_simp+
  moreover have "length cut_png = 41" by code_simp
  ultimately have "detect_artifact X cut_png = Panic"
    unfolding detect_artifact_def sniff_png_def by (simp add: access_simps)
  then show ?thesis by (simp add: sniff_artifact_def)
qed

section \<open>Counting the frames of a GIF\<close>

text \<open>A GIF file as an encoder writes it.\<close>

datatype gif_block =
    Extension u8 "bytes list"
  | Image bytes u8 bytes u8 "bytes list" \<comment> \<open>frame, packed field, colour table, code size, data\<close>

definition sub_blocks :: "bytes list \<Rightarrow> bytes" where
  "sub_blocks subs = concat (map (\<lambda>b. of_nat (length b) # b) subs) @ [0]"

fun gif_block_bytes :: "gif_block \<Rightarrow> bytes" where
  "gif_block_bytes (Extension label subs) = [0x21, label] @ sub_blocks subs"
| "gif_block_bytes (Image frame packed table code_size subs) =
     0x2C # frame @ packed # table @ code_size # sub_blocks subs"

definition sub_block_ok :: "bytes \<Rightarrow> bool" where
  "sub_block_ok b \<longleftrightarrow> 1 \<le> length b \<and> length b \<le> 255"

fun gif_block_ok :: "gif_block \<Rightarrow> bool" where
  "gif_block_ok (Extension label subs) \<longleftrightarrow> list_all sub_block_ok subs"
| "gif_block_ok (Image frame packed table code_size subs) \<longleftrightarrow>
     length frame = 8 \<and> length table = color_table packed \<and> list_all sub_block_ok subs"

definition gif_bytes :: "u16 \<Rightarrow> u16 \<Rightarrow> u8 \<Rightarrow> bytes \<Rightarrow> gif_block list \<Rightarrow> bytes \<Rightarrow> bytes" where
  "gif_bytes w h packed table blocks tail =
     ascii ''GIF89a'' @ [ucast w, ucast (drop_bit 8 w), ucast h, ucast (drop_bit 8 h), packed, 0, 0] @
     table @ concat (map gif_block_bytes blocks) @ 0x3B # tail"

fun gif_is_image :: "gif_block \<Rightarrow> bool" where
  "gif_is_image (Image _ _ _ _ _) = True"
| "gif_is_image _ = False"

fun gif_declares_alpha :: "gif_block \<Rightarrow> bool" where
  "gif_declares_alpha (Extension label (b # _)) \<longleftrightarrow> label = 0xF9 \<and> hd b AND 1 \<noteq> 0"
| "gif_declares_alpha _ \<longleftrightarrow> False"

fun gif_account :: "gif_facts \<Rightarrow> gif_block \<Rightarrow> gif_facts" where
  "gif_account f b =
     (if gif_is_image b then f\<lparr>gif_frames := saturating_inc (gif_frames f)\<rparr>
      else if gif_declares_alpha b then f\<lparr>gif_alpha := True\<rparr> else f)"

declare gif_account.simps [simp del]

lemma unat_of_length: "length b \<le> 255 \<Longrightarrow> unat (of_nat (length b) :: u8) = length b"
  by (simp add: unat_of_nat take_bit_nat_eq_self)

lemma of_length_neq0: "sub_block_ok b \<Longrightarrow> (of_nat (length b) :: u8) \<noteq> 0"
  using unat_of_length [of b] by (metis sub_block_ok_def not_one_le_zero unat_0)

lemma skip_gif_sub_blocks_text:
  "list_all sub_block_ok subs \<Longrightarrow>
   skip_gif_sub_blocks (pre @ sub_blocks subs @ post) (length pre) =
     Ok (length pre + length (sub_blocks subs))"
proof (induction subs arbitrary: pre)
  case Nil
  show ?case unfolding skip_gif_sub_blocks_def
    by (rule gif_sub.walk_Stop) (simp add: gif_sub_step_def sub_blocks_def access_simps)
next
  case (Cons b subs)
  let ?bs = "pre @ sub_blocks (b # subs) @ post"
  let ?pre = "pre @ of_nat (length b) # b"
  have eq: "?bs = ?pre @ sub_blocks subs @ post" by (simp add: sub_blocks_def)
  have ok: "sub_block_ok b" "length b \<le> 255" using Cons.prems by (simp_all add: sub_block_ok_def)
  have step: "gif_sub_step ?bs (length pre) () = Ok (Next (length ?pre) ())"
    using ok by (simp add: gif_sub_step_def sub_blocks_def access_simps of_length_neq0 unat_of_length)
  have "skip_gif_sub_blocks ?bs (length pre) = skip_gif_sub_blocks ?bs (length ?pre)"
    unfolding skip_gif_sub_blocks_def by (rule gif_sub.walk_Next [OF step])
  also have "\<dots> = Ok (length ?pre + length (sub_blocks subs))"
    unfolding eq using Cons.prems by (intro Cons.IH) simp
  finally show ?case by (simp add: sub_blocks_def)
qed

lemma gif_step_block:
  assumes ok: "gif_block_ok blk" and post: "post \<noteq> []"
  shows "gif_step (pre @ gif_block_bytes blk @ post) (length pre) f =
    Ok (Next (length pre + length (gif_block_bytes blk)) (gif_account f blk))"
proof (cases blk)
  case (Extension label subs)
  let ?bs = "pre @ gif_block_bytes blk @ post"
  have eq: "?bs = (pre @ [0x21, label]) @ sub_blocks subs @ post" by (simp add: Extension)
  have sub: "skip_gif_sub_blocks ?bs (length pre + 2) =
      Ok (length pre + 2 + length (sub_blocks subs))"
    unfolding eq using ok Extension skip_gif_sub_blocks_text [of subs "pre @ [0x21, label]" post] by simp
  have at: "?bs ! length pre = 0x21" "?bs ! (length pre + 1) = label"
    by (simp_all add: Extension nth_append)
  have long: "length pre + 1 < length ?bs" by (simp add: Extension sub_blocks_def)
  have alpha: "gif_transparency ?bs label (length pre + 2) = Ok (gif_declares_alpha blk)"
  proof (cases subs)
    case Nil
    then have "?bs ! (length pre + 2) = 0" by (simp add: Extension sub_blocks_def nth_append)
    with Nil Extension show ?thesis
      by (simp add: gif_transparency_def access_simps sub_blocks_def nth_append)
  next
    case (Cons b rest)
    then obtain c t where b: "b = c # t" and bl: "length b \<le> 255" "sub_block_ok b"
      using ok Extension by (cases b) (auto simp: sub_block_ok_def)
    have "?bs ! (length pre + 2) = of_nat (length b)" "?bs ! (length pre + 2 + 1) = c"
      by (simp_all add: Extension Cons b sub_blocks_def nth_append)
    moreover have "(1 :: u8) \<le> of_nat (length b)"
      using unat_of_length [OF bl(1)] bl(2) by (simp add: word_le_nat_alt sub_block_ok_def)
    moreover have "length pre + 2 + 2 < length ?bs"
      using post by (cases post) (simp_all add: Extension Cons b sub_blocks_def)
    ultimately show ?thesis
      using post by (cases "label = 0xF9") (simp_all add: gif_transparency_def access_simps Extension Cons b)
  qed
  have "gif_step ?bs (length pre) f = Ok (Next (length pre + 2 + length (sub_blocks subs))
      (if gif_declares_alpha blk then f\<lparr>gif_alpha := True\<rparr> else f))"
    using long alpha sub at post unfolding gif_step_def Let_def
    by (simp add: access_simps)
  then show ?thesis by (simp add: Extension gif_account.simps)
next
  case (Image frame packed table code_size subs)
  let ?bs = "pre @ gif_block_bytes blk @ post"
  let ?head = "pre @ 0x2C # frame @ packed # table @ [code_size]"
  have eq: "?bs = ?head @ sub_blocks subs @ post" by (simp add: Image)
  have len: "length frame = 8" "length table = color_table packed" "list_all sub_block_ok subs"
    using ok Image by simp_all
  have hl: "length pre + 10 + color_table packed + 1 = length ?head" using len by simp
  have sub: "skip_gif_sub_blocks ?bs (length ?head) = Ok (length ?head + length (sub_blocks subs))"
    unfolding eq by (rule skip_gif_sub_blocks_text [OF len(3)])
  have at: "?bs ! length pre = 0x2C" "?bs ! (length pre + 9) = packed"
    using len by (simp_all add: Image nth_append)
  have long: "length pre + 10 \<le> length ?bs" using len by (simp add: Image)
  have "gif_step ?bs (length pre) f = Ok (Next (length ?head + length (sub_blocks subs))
      (f\<lparr>gif_frames := saturating_inc (gif_frames f)\<rparr>))"
    using long at sub [folded hl] post len unfolding gif_step_def Let_def
    by (simp add: access_simps)
  then show ?thesis using len by (simp add: Image gif_account.simps)
qed

lemma gif_walk_blocks:
  "list_all gif_block_ok blocks \<Longrightarrow>
   walk (gif_step (pre @ concat (map gif_block_bytes blocks) @ 0x3B # tail))
     (length (pre @ concat (map gif_block_bytes blocks) @ 0x3B # tail)) (length pre) f =
   Ok (foldl gif_account f blocks)"
proof (induction blocks arbitrary: pre f)
  case Nil
  show ?case by (rule gif.walk_Stop) (simp add: gif_step_def access_simps)
next
  case (Cons blk blocks)
  let ?post = "concat (map gif_block_bytes blocks) @ 0x3B # tail"
  let ?bs = "pre @ gif_block_bytes blk @ ?post"
  have step: "gif_step ?bs (length pre) f =
      Ok (Next (length (pre @ gif_block_bytes blk)) (gif_account f blk))"
    using gif_step_block [of blk ?post pre f] Cons.prems by simp
  have "walk (gif_step ?bs) (length ?bs) (length pre) f =
      walk (gif_step ?bs) (length ?bs) (length (pre @ gif_block_bytes blk)) (gif_account f blk)"
    by (rule gif.walk_Next [OF step])
  also have "\<dots> = Ok (foldl gif_account (gif_account f blk) blocks)"
    using Cons.IH [of "pre @ gif_block_bytes blk" "gif_account f blk"] Cons.prems by simp
  finally show ?case by simp
qed

lemma unat_saturating_inc: "unat (saturating_inc w) = min (unat w + 1) (2 ^ 32 - 1)"
proof (cases "w = - 1")
  case False
  have "unat w \<noteq> 4294967295"
  proof
    assume "unat w = 4294967295"
    then have "unat w = unat (- 1 :: u32)"
      by (simp add: unsigned_minus_1_eq_mask mask_eq_exp_minus_1)
    with False show False by (simp only: unat_inject)
  qed
  with u32_le [of w] have "unat w + 1 \<le> 4294967295" by linarith
  then have "unat w + 1 < 2 ^ 32" by simp
  then have "unat (w + 1) = unat w + 1" by (simp add: unat_word_ariths)
  with \<open>unat w + 1 < 2 ^ 32\<close> False show ?thesis by (simp add: saturating_inc_def)
qed (simp add: saturating_inc_def unsigned_minus_1_eq_mask mask_eq_exp_minus_1)

lemma gif_account_frames:
  "unat (gif_frames (foldl gif_account f blocks)) =
     min (unat (gif_frames f) + length (filter gif_is_image blocks)) (2 ^ 32 - 1)"
  by (induction blocks arbitrary: f) (auto simp: gif_account.simps unat_saturating_inc min_def)

lemma gif_account_alpha:
  "gif_alpha (foldl gif_account f blocks) \<longleftrightarrow>
     gif_alpha f \<or> (\<exists>b \<in> set blocks. gif_declares_alpha b)"
proof (induction blocks arbitrary: f)
  case (Cons b blocks)
  then show ?case by (cases b) (auto simp: gif_account.simps)
qed simp

lemma gif_bytes_access:
  "is_gif (gif_bytes w h packed table blocks tail)"
  "\<not> length (gif_bytes w h packed table blocks tail) < 13"
  "and_then (slice (gif_bytes w h packed table blocks tail) 6 8) read_u16_le = Ok w"
  "and_then (slice (gif_bytes w h packed table blocks tail) 8 10) read_u16_le = Ok h"
  "byte_at (gif_bytes w h packed table blocks tail) 10 = Ok packed"
  by (simp_all add: gif_bytes_def is_gif_def ascii_def access_simps sub_bytes_def u16_of_le_def
      u16_be_roundtrip)

text \<open>
  The GIF walk counts frames exactly: for a file of any blocks an encoder can write, with
  any colour tables and any data, the reported frame count is the number of image blocks (held
  at \<open>u32::MAX\<close>), transparency is reported when some graphic control extension declares it,
  the size is the canvas size, and a file without an image is refused.
\<close>

theorem gif_frames_counted:
  assumes "list_all gif_block_ok blocks" and "length table = color_table packed"
  shows "\<exists>f. sniff_gif (gif_bytes w h packed table blocks tail) =
      (if filter gif_is_image blocks = [] then Err (DecodeFailed ''gif file contains no image data'')
       else Ok \<lparr>meta_width = Some (ucast w), meta_height = Some (ucast h), meta_frame_count = f,
         meta_duration = None, meta_has_alpha = Some (\<exists>b \<in> set blocks. gif_declares_alpha b),
         meta_orientation = None\<rparr>) \<and>
    unat f = min (length (filter gif_is_image blocks)) (2 ^ 32 - 1)"
proof -
  let ?bs = "gif_bytes w h packed table blocks tail"
  let ?pre = "ascii ''GIF89a'' @
      [ucast w, ucast (drop_bit 8 w), ucast h, ucast (drop_bit 8 h), packed, 0, 0] @ table"
  let ?init = "\<lparr>gif_frames = 0, gif_alpha = False\<rparr>"
  let ?f = "foldl gif_account ?init blocks"
  have eq: "?bs = ?pre @ concat (map gif_block_bytes blocks) @ 0x3B # tail"
    by (simp add: gif_bytes_def)
  have len: "length ?pre = 13 + color_table packed" using assms(2) by (simp add: ascii_def)
  have walk: "walk (gif_step ?bs) (length ?bs) (13 + color_table packed) ?init = Ok ?f"
    using gif_walk_blocks [OF assms(1), of ?pre tail ?init] by (simp only: eq len)
  have count: "unat (gif_frames ?f) = min (length (filter gif_is_image blocks)) (2 ^ 32 - 1)"
    using gif_account_frames [of ?init blocks] by simp
  have zero: "gif_frames ?f = 0 \<longleftrightarrow> filter gif_is_image blocks = []"
  proof -
    have "gif_frames ?f = 0 \<longleftrightarrow> unat (gif_frames ?f) = 0" by (simp only: unat_eq_0)
    then show ?thesis unfolding count by (auto simp: min_def)
  qed
  have "gif_alpha ?f \<longleftrightarrow> (\<exists>b \<in> set blocks. gif_declares_alpha b)"
    using gif_account_alpha [of ?init blocks] by simp
  then show ?thesis
    using count zero by (intro exI [of _ "gif_frames ?f"]) (simp add: sniff_gif_def gif_bytes_access walk)
qed

theorem gif_frames_counted_witness:
  "\<exists>f. sniff_gif (gif_bytes 2 1 0 []
      [Extension 0xF9 [[1, 0, 0, 0]], Image [0, 0, 0, 0, 2, 0, 1, 0] 0 [] 2 [[68, 1]],
       Image [0, 0, 0, 0, 2, 0, 1, 0] 0x80 [0, 0, 0, 1, 1, 1] 2 [[68, 1]]] []) =
     Ok \<lparr>meta_width = Some 2, meta_height = Some 1, meta_frame_count = f, meta_duration = None,
       meta_has_alpha = Some True, meta_orientation = None\<rparr> \<and> unat f = 2"
proof -
  let ?blocks = "[Extension 0xF9 [[1, 0, 0, 0]], Image [0, 0, 0, 0, 2, 0, 1, 0] 0 [] 2 [[68, 1]],
      Image [0, 0, 0, 0, 2, 0, 1, 0] 0x80 [0, 0, 0, 1, 1, 1] 2 [[68, 1]]]"
  have "list_all gif_block_ok ?blocks" by code_simp
  moreover have "length [] = color_table 0" by code_simp
  ultimately have "\<exists>f. sniff_gif (gif_bytes 2 1 0 [] ?blocks []) =
      (if filter gif_is_image ?blocks = [] then Err (DecodeFailed ''gif file contains no image data'')
       else Ok \<lparr>meta_width = Some (ucast (2::u16)), meta_height = Some (ucast (1::u16)),
         meta_frame_count = f, meta_duration = None,
         meta_has_alpha = Some (\<exists>b \<in> set ?blocks. gif_declares_alpha b), meta_orientation = None\<rparr>) \<and>
      unat f = min (length (filter gif_is_image ?blocks)) (2 ^ 32 - 1)"
    by (rule gif_frames_counted)
  then show ?thesis by (simp flip: numeral_2_eq_2)
qed

section \<open>The orientation of a JPEG\<close>

text \<open>While no Exif segment has been seen, the two JPEG walks take the same steps.\<close>

lemma jpeg_same_step:
  assumes "sniff_jpeg_step X bs o' None = Ok r"
  shows "(\<exists>o''. r = Next o'' None \<and> jpeg_exif_step bs o' () = Ok (Next o'' ())) \<or>
    (\<exists>o'' p. r = Next o'' (Some p) \<and> jpeg_exif_step bs o' () = Ok (Stop (Some p))) \<or>
    (\<exists>meta. r = Stop meta \<and> meta_orientation meta = None)"
proof -
  have sof: "is_jpeg_sof_marker 0xE1 = False" by (simp add: is_jpeg_sof_marker_def)
  have rd: "ok_of m = Some x \<longleftrightarrow> m = Ok x" for m :: "(transform_error, 'x) outcome" and x
    by (cases m) (simp_all add: ok_of_def)
  have [simp]: "ok_of (Ok x) = Some x" for x :: u16 by (simp add: ok_of_def)
  show ?thesis
    using assms
    by (auto simp: sniff_jpeg_step_def jpeg_exif_step_def Let_def raster_metadata_def sof
        access_simps get_byte_def get_slice_def or_none_def rd
        split: if_splits option.splits)
qed

lemma jpeg_payload_kept:
  "sniff_jpeg_step X bs o' (Some p) = Ok r \<Longrightarrow>
   (\<exists>o''. r = Next o'' (Some p)) \<or>
   (\<exists>meta. r = Stop meta \<and> meta_orientation meta = exif_orientation_from_payload X p)"
  by (auto simp: sniff_jpeg_step_def Let_def split: if_splits)

lemma jpeg_walk_payload:
  "case walk (sniff_jpeg_step X bs) (length bs) o' (Some p) of
     Ok meta \<Rightarrow> meta_orientation meta = exif_orientation_from_payload X p | _ \<Rightarrow> True"
  by (rule jpeg.walk_invariant [where I = "\<lambda>_ s. s = Some p"]) (auto dest: jpeg_payload_kept)

lemma jpeg_walks_agree:
  assumes "walk (sniff_jpeg_step X bs) (length bs) o' None = Ok meta"
    and "meta_orientation meta = Some v"
  shows "\<exists>p. walk (jpeg_exif_step bs) (length bs) o' () = Ok (Some p) \<and>
    exif_orientation_from_payload X p = Some v"
  using assms(1)
proof (induction "length bs - o'" arbitrary: o' rule: less_induct)
  case less
  then obtain r where r: "sniff_jpeg_step X bs o' None = Ok r"
    by (cases "sniff_jpeg_step X bs o' None") (auto simp: jpeg.walk_Err jpeg.walk_Panic)
  from jpeg_same_step [OF r] consider
      (same) o'' where "r = Next o'' None" "jpeg_exif_step bs o' () = Ok (Next o'' ())"
    | (found) o'' p where "r = Next o'' (Some p)" "jpeg_exif_step bs o' () = Ok (Stop (Some p))"
    | (stop) meta' where "r = Stop meta'" "meta_orientation meta' = None"
    by blast
  then show ?case
  proof cases
    case same
    have W: "walk (sniff_jpeg_step X bs) (length bs) o'' None = Ok meta"
      using less.prems jpeg.walk_Next [OF r [unfolded same(1)]] by simp
    have "length bs - o'' < length bs - o'"
      using jpeg_exif.progress [OF same(2)] by auto
    from less.hyps [OF this W] show ?thesis
      by (simp add: jpeg_exif.walk_Next [OF same(2)])
  next
    case found
    have "walk (sniff_jpeg_step X bs) (length bs) o'' (Some p) = Ok meta"
      using less.prems jpeg.walk_Next [OF r [unfolded found(1)]] by simp
    with jpeg_walk_payload [where X = X and bs = bs and o' = o'' and p = p] assms(2) show ?thesis
      by (simp add: jpeg_exif.walk_Stop [OF found(2)])
  next
    case stop
    with jpeg.walk_Stop [OF r [unfolded stop(1)]] less.prems assms(2) show ?thesis by simp
  qed
qed

text \<open>
  The orientation \<open>inspect\<close> reports for a JPEG is the one \<open>convert\<close> applies: whenever the
  sniffer, which picks the Exif segment up on its way to the frame header, reports an
  orientation, the locator the pipeline uses finds the same Exif block and the same value.
\<close>

theorem jpeg_orientation_agrees:
  assumes "sniff_jpeg X bs = Ok meta" and "meta_orientation meta = Some v"
  shows "exif_orientation X Jpeg bs = Ok (Some v)"
proof -
  obtain p where "jpeg_exif_payload bs = Ok (Some p)" "exif_orientation_from_payload X p = Some v"
    using jpeg_walks_agree assms unfolding sniff_jpeg_def jpeg_exif_payload_def by blast
  then show ?thesis by (simp add: exif_orientation_def)
qed

definition exif_says_six :: codecs where
  "exif_says_six = \<lparr>tiff_decoder = (\<lambda>_. Inl []), exif_field = (\<lambda>_. Some (Short [6]))\<rparr>"

definition exif_segment :: bytes where
  "exif_segment = [0xFF, 0xE1, 0, 9] @ exif_prefix @ [0]"

definition sof_segment :: bytes where
  "sof_segment = [0xFF, 0xC0, 0, 8, 8, 0, 1, 0, 2, 1]"

lemma sniff_exif_first:
  "sniff_jpeg exif_says_six ([0xFF, 0xD8] @ exif_segment @ sof_segment) =
     Ok ((raster_metadata 2 1 (Some False))\<lparr>meta_orientation := Some 6\<rparr>)"
  by code_simp

theorem jpeg_orientation_agrees_witness:
  "exif_orientation exif_says_six Jpeg ([0xFF, 0xD8] @ exif_segment @ sof_segment) = Ok (Some 6)"
  by (rule jpeg_orientation_agrees [OF sniff_exif_first]) simp

text \<open>
  The converse fails: with the Exif segment behind the frame header the sniffer stops before
  it, while the pipeline reads it.
\<close>

lemma jpeg_exif_after_sof:
  "sniff_jpeg exif_says_six ([0xFF, 0xD8] @ sof_segment @ exif_segment) =
     Ok (raster_metadata 2 1 (Some False)) \<and>
   exif_orientation exif_says_six Jpeg ([0xFF, 0xD8] @ sof_segment @ exif_segment) = Ok (Some 6)"
  by code_simp

end
