(* ===== verification/Geometry.thy ===== *)
theory Geometry
  imports Options
begin

text \<open>
  The sizes and offsets of \<open>src/codecs/raster.rs\<close>, on dimensions alone: the scale of a fit
  mode, the content and output size of a resize, the pixel limits, the watermark's margins and
  offset, and the offset of content in a box. The arithmetic on \<open>f64\<close> is the rounding one of
  \<open>Floats\<close>, and the facts about it come through the interpretation \<open>f64\<close> of the interface
  \<open>rounding\<close>. Sizes stay \<open>u32\<close>, pixel counts \<open>u64\<close>.
\<close>

unbundle bit_operations_syntax

type_synonym dim = "u32 \<times> u32"

abbreviation f64_from :: "u32 \<Rightarrow> float_val" where
  "f64_from \<equiv> float_of_u32"

section \<open>Scaling\<close>

definition fit_scale :: "dim \<Rightarrow> dim \<Rightarrow> fit \<Rightarrow> float_val" where
  "fit_scale source target fit =
     (let source_w = f64_from (fst source); source_h = f64_from (snd source);
          target_w = f64_from (fst target); target_h = f64_from (snd target)
      in case fit of
           Contain \<Rightarrow> float_min (f64_div target_w source_w) (f64_div target_h source_h)
         | Inside \<Rightarrow> float_min (f64_div target_w source_w) (f64_div target_h source_h)
         | Cover \<Rightarrow> float_max (f64_div target_w source_w) (f64_div target_h source_h)
         | Fill \<Rightarrow> Fin 1)"

definition scale_axis :: "u32 \<Rightarrow> float_val \<Rightarrow> u32" where
  "scale_axis side scale =
     float_to_u32 (float_max (float_round (f64_mul (f64_from side) scale)) (Fin 1))"

definition scale_both :: "dim \<Rightarrow> float_val \<Rightarrow> dim" where
  "scale_both source scale = (scale_axis (fst source) scale, scale_axis (snd source) scale)"

definition fit_content_size :: "dim \<Rightarrow> dim \<Rightarrow> fit \<Rightarrow> bool \<Rightarrow> dim" where
  "fit_content_size source target fit without_enlargement =
     (if fit = Fill then
        (if without_enlargement
         then (min (fst target) (fst source), min (snd target) (snd source)) else target)
      else
        let scale = fit_scale source target fit;
            scale = (if without_enlargement then float_min scale (Fin 1) else scale)
        in scale_both source scale)"

definition scale_dimension :: "u32 \<Rightarrow> u32 \<Rightarrow> u32 \<Rightarrow> u32" where
  "scale_dimension source target reference =
     float_to_u32 (float_max (float_round
       (f64_div (f64_mul (f64_from source) (f64_from target)) (f64_from reference))) (Fin 1))"

definition fit_or_contain :: "fit option \<Rightarrow> fit" where
  "fit_or_contain fit = (case fit of Some f \<Rightarrow> f | None \<Rightarrow> Contain)"

definition resolved_output_dimensions ::
  "dim \<Rightarrow> u32 option \<Rightarrow> u32 option \<Rightarrow> fit option \<Rightarrow> bool \<Rightarrow> dim" where
  "resolved_output_dimensions current width height fit without_enlargement =
     (let (current_w, current_h) = current in
      case (width, height) of
        (None, None) \<Rightarrow> current
      | (Some target_width, None) \<Rightarrow>
          (let target_width = (if without_enlargement then min target_width current_w
                               else target_width)
           in (target_width, scale_dimension current_h target_width current_w))
      | (None, Some target_height) \<Rightarrow>
          (let target_height = (if without_enlargement then min target_height current_h
                                else target_height)
           in (scale_dimension current_w target_height current_h, target_height))
      | (Some target_width, Some target_height) \<Rightarrow>
          (let target = (target_width, target_height); fit = fit_or_contain fit;
               content = fit_content_size current target fit without_enlargement
           in case fit of
                Contain \<Rightarrow> target
              | Inside \<Rightarrow> content
              | Fill \<Rightarrow> content
              | Cover \<Rightarrow> (min (fst target) (fst content), min (snd target) (snd content))))"

definition resize_content_size ::
  "dim \<Rightarrow> u32 option \<Rightarrow> u32 option \<Rightarrow> fit option \<Rightarrow> bool \<Rightarrow> dim" where
  "resize_content_size source width height fit without_enlargement =
     (case (width, height) of
        (None, None) \<Rightarrow> source
      | (Some target_width, Some target_height) \<Rightarrow>
          fit_content_size source (target_width, target_height) (fit_or_contain fit)
            without_enlargement
      | _ \<Rightarrow> resolved_output_dimensions source width height fit without_enlargement)"

section \<open>Limits\<close>

definition pixels_of :: "dim \<Rightarrow> nat" where
  "pixels_of d = unat (ucast (fst d) * ucast (snd d) :: u64)"

lemma pixels_of_eq: "pixels_of d = unat (fst d) * unat (snd d)"
  by (simp add: pixels_of_def)

definition show_dim :: "dim \<Rightarrow> string" where
  "show_dim d = show_word (fst d) @ ''x'' @ show_word (snd d)"

definition check_output_format_dimensions ::
  "media_type \<Rightarrow> u32 \<Rightarrow> u32 \<Rightarrow> (transform_error, unit) outcome" where
  "check_output_format_dimensions format width height =
     (case max_output_dimension format of
        None \<Rightarrow> Ok ()
      | Some cap \<Rightarrow>
          if width \<le> cap \<and> height \<le> cap then Ok ()
          else Err (LimitExceeded (media_name format @ '' output cannot be '' @
            show_dim (width, height) @ '': the format holds at most '' @ show_word cap @
            '' pixels on an axis'')))"

definition check_output_pixel_limit ::
  "dim \<Rightarrow> u32 option \<Rightarrow> u32 option \<Rightarrow> fit option \<Rightarrow> bool \<Rightarrow> media_type \<Rightarrow>
    (transform_error, unit) outcome" where
  "check_output_pixel_limit source width height fit without_enlargement format =
     and_then
       (case (width, height) of
          (Some target_w, Some target_h) \<Rightarrow>
            if fit_or_contain fit = Cover then
              let content = fit_content_size source (target_w, target_h) Cover without_enlargement;
                  pixels = pixels_of content
              in reject_if (MAX_OUTPUT_PIXELS < pixels) (LimitExceeded
                   (''fit=cover scales '' @ show_dim source @ '' to '' @ show_dim content @ '' ('' @
                    show_nat pixels @ '' pixels) before cropping to '' @
                    show_dim (target_w, target_h) @ '', limit is '' @ show_nat MAX_OUTPUT_PIXELS))
            else Ok ()
        | _ \<Rightarrow> Ok ()) (\<lambda>_.
     let out = resolved_output_dimensions source width height fit without_enlargement;
         pixels = pixels_of out
     in and_then (reject_if (MAX_OUTPUT_PIXELS < pixels) (LimitExceeded
          (''output image would have '' @ show_nat pixels @ '' pixels, limit is '' @
           show_nat MAX_OUTPUT_PIXELS))) (\<lambda>_.
        check_output_format_dimensions format (fst out) (snd out)))"

definition check_input_pixel_limit :: "artifact \<Rightarrow> (transform_error, unit) outcome" where
  "check_input_pixel_limit input =
     (case (meta_width (art_metadata input), meta_height (art_metadata input)) of
        (Some w, Some h) \<Rightarrow>
          reject_if (MAX_DECODED_PIXELS < pixels_of (w, h)) (LimitExceeded
            (''decoded image has '' @ show_nat (pixels_of (w, h)) @ '' pixels, limit is '' @
             show_nat MAX_DECODED_PIXELS))
      | _ \<Rightarrow> Ok ())"

section \<open>Crop bounds, watermark and placement\<close>

definition saturating_add_u32 :: "u32 \<Rightarrow> u32 \<Rightarrow> u32" where
  "saturating_add_u32 a b = (if unat a + unat b < 2 ^ 32 then a + b else - 1)"

definition saturating_sub_u32 :: "u32 \<Rightarrow> u32 \<Rightarrow> u32" where
  "saturating_sub_u32 a b = (if a < b then 0 else a - b)"

definition check_crop_bounds :: "crop_region \<Rightarrow> dim \<Rightarrow> (transform_error, unit) outcome" where
  "check_crop_bounds crop d =
     reject_if (fst d < saturating_add_u32 (crop_x crop) (crop_width crop) \<or>
         snd d < saturating_add_u32 (crop_y crop) (crop_height crop))
       (InvalidOptions (''crop region '' @ show_word (crop_width crop) @ ''x'' @
         show_word (crop_height crop) @ ''+'' @ show_word (crop_x crop) @ ''+'' @
         show_word (crop_y crop) @ '' exceeds image bounds '' @ show_dim d))"

definition watermark_margins :: "position \<Rightarrow> u32 \<Rightarrow> dim" where
  "watermark_margins pos margin =
     (case pos of
        Center \<Rightarrow> (0, 0)
      | Top \<Rightarrow> (0, margin) | Bottom \<Rightarrow> (0, margin)
      | Left \<Rightarrow> (margin, 0) | Right \<Rightarrow> (margin, 0)
      | _ \<Rightarrow> (margin, margin))"

definition check_watermark_fits :: "dim \<Rightarrow> dim \<Rightarrow> watermark_input \<Rightarrow> (transform_error, unit) outcome"
where
  "check_watermark_fits wm main watermark =
     (let margins = watermark_margins (wm_position watermark) (wm_margin watermark) in
      if (ucast (fst wm) :: u64) + ucast (fst margins) \<le> ucast (fst main) \<and>
         (ucast (snd wm) :: u64) + ucast (snd margins) \<le> ucast (snd main)
      then Ok ()
      else Err (InvalidOptions (''watermark '' @ show_dim wm @ '' with a '' @
        show_word (wm_margin watermark) @ ''px margin does not fit a '' @ show_dim main @
        '' output'')))"

definition watermark_offset :: "u32 \<Rightarrow> u32 \<Rightarrow> u32 \<Rightarrow> u32 \<Rightarrow> position \<Rightarrow> u32 \<Rightarrow> dim" where
  "watermark_offset main_w main_h wm_w wm_h pos margin =
     (let middle_x = saturating_sub_u32 main_w wm_w div 2;
          middle_y = saturating_sub_u32 main_h wm_h div 2;
          far_x = saturating_sub_u32 (saturating_sub_u32 main_w wm_w) margin;
          far_y = saturating_sub_u32 (saturating_sub_u32 main_h wm_h) margin
      in case pos of
           TopLeft \<Rightarrow> (margin, margin)
         | Top \<Rightarrow> (middle_x, margin)
         | TopRight \<Rightarrow> (far_x, margin)
         | Left \<Rightarrow> (margin, middle_y)
         | Center \<Rightarrow> (middle_x, middle_y)
         | Right \<Rightarrow> (far_x, middle_y)
         | BottomLeft \<Rightarrow> (margin, far_y)
         | Bottom \<Rightarrow> (middle_x, far_y)
         | BottomRight \<Rightarrow> (far_x, far_y))"

definition position_offset :: "u32 \<Rightarrow> u32 \<Rightarrow> u32 \<Rightarrow> u32 \<Rightarrow> position \<Rightarrow> dim" where
  "position_offset container_w container_h content_w content_h pos =
     (let horizontal_space = saturating_sub_u32 container_w content_w;
          vertical_space = saturating_sub_u32 container_h content_h;
          x = (if pos \<in> {Center, Top, Bottom} then horizontal_space div 2
               else if pos \<in> {Left, TopLeft, BottomLeft} then 0
               else horizontal_space);
          y = (if pos \<in> {Center, Left, Right} then vertical_space div 2
               else if pos \<in> {Top, TopLeft, TopRight} then 0
               else vertical_space)
      in (x, y))"

definition background_pixel :: "rgba8 option \<Rightarrow> media_type \<Rightarrow> rgba8" where
  "background_pixel background format =
     (case background of
        Some color \<Rightarrow> color
      | None \<Rightarrow>
          if format = Jpeg \<or> format = Bmp
          then \<lparr>col_r = - 1, col_g = - 1, col_b = - 1, col_a = - 1\<rparr>
          else \<lparr>col_r = 0, col_g = 0, col_b = 0, col_a = 0\<rparr>)"

section \<open>Facts about one axis\<close>

declare of_nat_unat [simp del]

lemma of_nat_unat_u32: "(of_nat (unat (w :: u32)) :: rat) \<le> 4294967295"
proof -
  have "(of_nat (unat w) :: rat) \<le> of_nat 4294967295" by (intro of_nat_mono u32_le)
  then show ?thesis by simp
qed

lemma unat_lt_32: "unat (w :: u32) < 2 ^ 32"
  using unsigned_less [of w] by simp

lemma unat_pos: "w \<noteq> 0 \<Longrightarrow> 1 \<le> unat w" for w :: u32
  by (simp add: Suc_leI unat_gt_0)

text \<open>The quotient of two non-zero sizes is the rounding of the exact one, at most \<open>2 ^ 32\<close>.\<close>

lemma size_ratio:
  fixes t w :: u32
  assumes "w \<noteq> 0"
  shows "f64_div (f64_from t) (f64_from w) = Fin (fl64 (of_nat (unat t) / of_nat (unat w)))"
    and "0 \<le> fl64 (of_nat (unat t) / of_nat (unat w))"
    and "fl64 (of_nat (unat t) / of_nat (unat w)) \<le> 4294967295"
proof -
  let ?r = "of_nat (unat t) / of_nat (unat w) :: rat"
  have w: "(1::rat) \<le> of_nat (unat w)" using unat_pos [OF assms] by simp
  have "of_nat (unat t) * 1 \<le> of_nat (unat t) * (of_nat (unat w) :: rat)"
    using w by (intro mult_left_mono) simp_all
  then have "?r \<le> of_nat (unat t)" using w by (simp add: pos_divide_le_eq)
  then have le: "?r \<le> 4294967295" using of_nat_unat_u32 [of t] by linarith
  have ge: "0 \<le> ?r" by simp
  show "f64_div (f64_from t) (f64_from w) = Fin (fl64 ?r)"
    using w le ge by (simp add: float_of_u32_def f64_of_Fin)
  show "0 \<le> fl64 ?r" using ge by (rule f64.nonneg)
  have "fl64 ?r \<le> fl64 4294967295" using ge le by (rule f64.mono)
  also have "\<dots> = 4294967295" using f64.exact_nat [of 4294967295] by simp
  finally show "fl64 ?r \<le> 4294967295" .
qed

lemma float_min_Fin [simp]: "float_min (Fin a) (Fin b) = Fin (min a b)"
  by (simp add: float_min_def min_def)

lemma float_max_Fin [simp]: "float_max (Fin a) (Fin b) = Fin (max a b)"
  by (simp add: float_max_def max_def)

lemma round_away_nonneg: "0 \<le> x \<Longrightarrow> 0 \<le> round_away x"
  by (simp add: round_away_def)

lemma round_away_le: "0 \<le> x \<Longrightarrow> x \<le> of_nat n + 1 / 4 \<Longrightarrow> round_away x \<le> int n"
proof -
  assume "0 \<le> x" "x \<le> of_nat n + 1 / 4"
  then have "x + 1 / 2 < of_int (int n + 1)" by simp
  then have "\<lfloor>x + 1 / 2\<rfloor> < int n + 1" by (simp only: floor_less_iff)
  with \<open>0 \<le> x\<close> show ?thesis by (simp add: round_away_def)
qed

lemma round_away_ge: "of_nat n - 1 / 4 \<le> x \<Longrightarrow> 0 \<le> x \<Longrightarrow> int n \<le> round_away x"
  by (simp add: round_away_def le_floor_iff)

text \<open>The cast of a rounded, clamped value: at least one, held at \<open>u32::MAX\<close>.\<close>

lemma unat_rounded:
  assumes "0 \<le> x"
  shows "unat (float_to_u32 (float_max (float_round (Fin x)) (Fin 1))) =
    nat (min (max (round_away x) 1) (2 ^ 32 - 1))"
proof -
  let ?n = "max (round_away x) 1"
  have m: "float_max (float_round (Fin x)) (Fin 1) = Fin (of_int ?n)" by (simp add: max_def)
  have big: "(4294967295 \<le> (of_int ?n :: rat)) = (4294967295 \<le> ?n)"
    by (metis of_int_le_iff of_int_numeral)
  have one: "1 \<le> ?n" by simp
  show ?thesis
  proof (cases "4294967295 \<le> ?n")
    case True
    then have top: "?n = round_away x" by (simp add: max_def split: if_splits)
    with big True have "float_to_u32 (Fin (of_int ?n)) = - 1" by simp
    with True show ?thesis unfolding m
      by (simp add: min_absorb2 unsigned_minus_1_eq_mask mask_eq_exp_minus_1 del: float_to_u32.simps)
  next
    case False
    with big have "float_to_u32 (Fin (of_int ?n)) = word_of_int ?n"
      using one by (simp del: of_int_max)
    moreover have "uint (word_of_int ?n :: u32) = ?n" using False by (simp add: uint_word_of_int)
    ultimately have "uint (float_to_u32 (Fin (of_int ?n))) = ?n" by simp
    then have "unat (float_to_u32 (Fin (of_int ?n))) = nat ?n" by (metis unat_eq_nat_uint)
    with False show ?thesis unfolding m by (simp add: min_def)
  qed
qed

definition axis_value :: "u32 \<Rightarrow> rat \<Rightarrow> rat" where
  "axis_value w s = fl64 (of_nat (unat w) * s)"

lemma unat_scale_axis:
  assumes s: "0 \<le> s" "s \<le> 4294967295"
  shows "unat (scale_axis w (Fin s)) = nat (min (max (round_away (axis_value w s)) 1) (2 ^ 32 - 1))"
    and "0 \<le> axis_value w s"
proof -
  have p: "0 \<le> of_nat (unat w) * s" using s by simp
  have "of_nat (unat w) * s \<le> 4294967295 * 4294967295"
    using s of_nat_unat_u32 [of w] by (intro mult_mono) simp_all
  then have le: "of_nat (unat w) * s \<le> 2 ^ 100" by (rule order_trans) simp
  show nn: "0 \<le> axis_value w s" unfolding axis_value_def using p by (rule f64.nonneg)
  have "f64_mul (f64_from w) (Fin s) = Fin (axis_value w s)"
    using f64_of_Fin [OF p le] by (simp add: float_of_u32_def axis_value_def)
  then show "unat (scale_axis w (Fin s)) = nat (min (max (round_away (axis_value w s)) 1) (2 ^ 32 - 1))"
    using unat_rounded [OF nn] by (simp add: scale_axis_def)
qed

lemma scale_axis_nonzero:
  assumes "0 \<le> s" "s \<le> 4294967295"
  shows "1 \<le> unat (scale_axis w (Fin s))"
  unfolding unat_scale_axis(1) [OF assms] by (auto simp: min_def max_def le_nat_iff)

abbreviation ratio :: "u32 \<Rightarrow> u32 \<Rightarrow> rat" where
  "ratio t w \<equiv> fl64 (of_nat (unat t) / of_nat (unat w))"

lemma axis_le_target:
  assumes "w \<noteq> 0" "t \<noteq> 0" and s: "0 \<le> s" "s \<le> ratio t w"
  shows "unat (scale_axis w (Fin s)) \<le> unat t"
proof -
  have b: "s \<le> 4294967295" using s(2) size_ratio(3) [OF assms(1), of t] by linarith
  have "axis_value w s \<le> of_nat (unat t) + 1 / 4"
    unfolding axis_value_def
    using f64.scaled_le [OF unat_pos [OF assms(1)] unat_lt_32 unat_pos [OF assms(2)] unat_lt_32 s] .
  then have "round_away (axis_value w s) \<le> int (unat t)"
    using unat_scale_axis(2) [OF s(1) b] by (intro round_away_le)
  moreover have "1 \<le> int (unat t)" using unat_pos [OF assms(2)] by linarith
  ultimately have "nat (min (max (round_away (axis_value w s)) 1) (2 ^ 32 - 1)) \<le> unat t"
    by linarith
  then show ?thesis by (simp only: unat_scale_axis(1) [OF s(1) b])
qed

lemma axis_ge_target:
  assumes "w \<noteq> 0" "t \<noteq> 0" and s: "ratio t w \<le> s" "s \<le> 4294967295"
  shows "unat t \<le> unat (scale_axis w (Fin s))"
proof -
  have s0: "0 \<le> s" using s(1) size_ratio(2) [OF assms(1), of t] by linarith
  have "of_nat (unat t) - 1 / 4 \<le> axis_value w s"
    unfolding axis_value_def
    using f64.scaled_ge [OF unat_pos [OF assms(1)] unat_lt_32 unat_pos [OF assms(2)] unat_lt_32 s(1)] .
  then have "int (unat t) \<le> round_away (axis_value w s)"
    using unat_scale_axis(2) [OF s0 s(2)] by (intro round_away_ge)
  moreover have "int (unat t) \<le> int 4294967295" by (intro of_nat_mono u32_le)
  ultimately have "int (unat t) \<le> min (max (round_away (axis_value w s)) 1) (2 ^ 32 - 1)" by simp
  then have "unat t \<le> nat (min (max (round_away (axis_value w s)) 1) (2 ^ 32 - 1))"
    by linarith
  then show ?thesis by (simp only: unat_scale_axis(1) [OF s0 s(2)])
qed

lemma axis_not_enlarged:
  assumes "w \<noteq> 0" and s: "0 \<le> s" "s \<le> 1"
  shows "unat (scale_axis w (Fin s)) \<le> unat w"
proof -
  have b: "s \<le> 4294967295" using s(2) by simp
  have "of_nat (unat w) * s \<le> of_nat (unat w)" using s by (simp add: mult_left_le)
  then have "axis_value w s \<le> fl64 (of_nat (unat w))"
    unfolding axis_value_def using s by (intro f64.mono) simp_all
  also have "\<dots> = of_nat (unat w)" by (rule f64.exact_nat [OF unat_lt_32])
  finally have "round_away (axis_value w s) \<le> int (unat w)"
    using unat_scale_axis(2) [OF s(1) b] by (intro round_away_le) simp_all
  moreover have "1 \<le> int (unat w)" using unat_pos [OF assms(1)] by linarith
  ultimately have "nat (min (max (round_away (axis_value w s)) 1) (2 ^ 32 - 1)) \<le> unat w"
    by linarith
  then show ?thesis by (simp only: unat_scale_axis(1) [OF s(1) b])
qed

definition nonzero :: "dim \<Rightarrow> bool" where
  "nonzero d \<longleftrightarrow> fst d \<noteq> 0 \<and> snd d \<noteq> 0"

definition fits_in :: "dim \<Rightarrow> dim \<Rightarrow> bool" where
  "fits_in a b \<longleftrightarrow> unat (fst a) \<le> unat (fst b) \<and> unat (snd a) \<le> unat (snd b)"

lemma pixels_of_mono: "fits_in a b \<Longrightarrow> pixels_of a \<le> pixels_of b"
  by (simp add: fits_in_def pixels_of_eq mult_le_mono)

text \<open>The scale a fit mode uses, as a rational.\<close>

lemma fit_scale_Fin:
  assumes "nonzero source"
  shows "fit_scale source target Contain =
      Fin (min (ratio (fst target) (fst source)) (ratio (snd target) (snd source)))"
    and "fit_scale source target Inside =
      Fin (min (ratio (fst target) (fst source)) (ratio (snd target) (snd source)))"
    and "fit_scale source target Cover =
      Fin (max (ratio (fst target) (fst source)) (ratio (snd target) (snd source)))"
  using assms by (simp_all add: nonzero_def fit_scale_def size_ratio(1) Let_def)

lemma scale_of_fit:
  assumes "nonzero source" and "fit \<noteq> Fill"
  obtains s where "fit_scale source target fit = Fin s" "0 \<le> s" "s \<le> 4294967295"
proof -
  let ?rw = "ratio (fst target) (fst source)" and ?rh = "ratio (snd target) (snd source)"
  have r: "0 \<le> ?rw" "?rw \<le> 4294967295" "0 \<le> ?rh" "?rh \<le> 4294967295"
    using assms(1) by (simp_all add: nonzero_def size_ratio(2,3))
  show thesis
  proof (cases "fit = Cover")
    case True
    then show thesis using that [of "max ?rw ?rh"] r fit_scale_Fin(3) [OF assms(1)] by simp
  next
    case False
    then have "fit_scale source target fit = Fin (min ?rw ?rh)"
      using assms(2) fit_scale_Fin(1,2) [OF assms(1)] by (cases fit) simp_all
    then show thesis using that [of "min ?rw ?rh"] r by simp
  qed
qed

lemma content_nonzero:
  assumes "nonzero source" "nonzero target"
  shows "nonzero (fit_content_size source target fit we)"
proof (cases "fit = Fill")
  case True
  with assms show ?thesis by (auto simp: fit_content_size_def nonzero_def min_def)
next
  case False
  obtain s where s: "fit_scale source target fit = Fin s" "0 \<le> s" "s \<le> 4294967295"
    using scale_of_fit [OF assms(1) False] .
  define s' where "s' = (if we then min s 1 else s)"
  have s': "0 \<le> s'" "s' \<le> 4294967295" using s by (auto simp: s'_def min_def)
  have "fit_content_size source target fit we = scale_both source (Fin s')"
    using False s by (simp add: fit_content_size_def s'_def Let_def)
  moreover have "scale_axis w (Fin s') \<noteq> 0" for w
    using scale_axis_nonzero [OF s', of w] by auto
  ultimately show ?thesis by (simp add: nonzero_def scale_both_def)
qed

lemma content_within_box:
  assumes "nonzero source" "nonzero target" "fit \<noteq> Cover"
  shows "fits_in (fit_content_size source target fit we) target"
proof (cases "fit = Fill")
  case True
  then show ?thesis
    by (auto simp: fit_content_size_def fits_in_def min_def word_le_nat_alt)
next
  case False
  let ?rw = "ratio (fst target) (fst source)" and ?rh = "ratio (snd target) (snd source)"
  define s where "s = (if we then min (min ?rw ?rh) 1 else min ?rw ?rh)"
  have "fit_scale source target fit = Fin (min ?rw ?rh)"
    using False assms(3) fit_scale_Fin(1,2) [OF assms(1)] by (cases fit) simp_all
  then have c: "fit_content_size source target fit we = scale_both source (Fin s)"
    using False by (simp add: fit_content_size_def s_def Let_def)
  have "0 \<le> ?rw" "0 \<le> ?rh" using assms(1) by (simp_all add: nonzero_def size_ratio(2))
  then have "0 \<le> s" "s \<le> ?rw" "s \<le> ?rh" by (auto simp: s_def min_def)
  then show ?thesis
    using assms(1,2) by (simp add: c fits_in_def scale_both_def nonzero_def axis_le_target)
qed

lemma content_not_enlarged:
  assumes "nonzero source"
  shows "fits_in (fit_content_size source target fit True) source"
proof (cases "fit = Fill")
  case True
  then show ?thesis by (auto simp: fit_content_size_def fits_in_def min_def word_le_nat_alt)
next
  case False
  obtain s where s: "fit_scale source target fit = Fin s" "0 \<le> s" "s \<le> 4294967295"
    using scale_of_fit [OF assms False] .
  have "fit_content_size source target fit True = scale_both source (Fin (min s 1))"
    using False s by (simp add: fit_content_size_def Let_def)
  then show ?thesis
    using s assms by (simp add: fits_in_def scale_both_def nonzero_def axis_not_enlarged)
qed

text \<open>The factor a fit mode promises, as the exact rational.\<close>

definition ideal_scale :: "dim \<Rightarrow> dim \<Rightarrow> fit \<Rightarrow> bool \<Rightarrow> rat" where
  "ideal_scale source target fit without_enlargement =
     (let rw = of_nat (unat (fst target)) / of_nat (unat (fst source));
          rh = of_nat (unat (snd target)) / of_nat (unat (snd source));
          s = (if fit = Cover then max rw rh else min rw rh)
      in if without_enlargement then min s 1 else s)"

text \<open>A side is one pixel or less from another one held at \<open>u32::MAX\<close>.\<close>

definition near_side :: "u32 \<Rightarrow> rat \<Rightarrow> bool" where
  "near_side w x \<longleftrightarrow> \<bar>of_nat (unat w) - min x (2 ^ 32 - 1)\<bar> \<le> 1"

lemma fl64_min: "0 \<le> a \<Longrightarrow> 0 \<le> b \<Longrightarrow> fl64 (min a b) = min (fl64 a) (fl64 b)"
  using f64.mono [of a b] f64.mono [of b a] by (auto simp: min_def)

lemma fl64_max: "0 \<le> a \<Longrightarrow> 0 \<le> b \<Longrightarrow> fl64 (max a b) = max (fl64 a) (fl64 b)"
  using f64.mono [of a b] f64.mono [of b a] by (auto simp: max_def)

lemma quotient_bounds:
  fixes a b :: rat
  assumes "1 \<le> a" "a \<le> 4294967295" "1 \<le> b" "b \<le> 4294967295"
  shows "1 / 4294967296 \<le> a / b" "a / b \<le> 4294967295"
proof -
  have "b \<le> 4294967296 * a" "a \<le> 4294967295 * b" using assms by linarith+
  then show "1 / 4294967296 \<le> a / b" "a / b \<le> 4294967295"
    using assms(3) by (simp_all add: le_divide_eq divide_le_eq)
qed

lemma ideal_scale_bounds:
  assumes "nonzero source" "nonzero target"
  shows "2 powi (- 32) \<le> ideal_scale source target fit we" "ideal_scale source target fit we \<le> 4294967295"
proof -
  have r: "2 powi (- 32) \<le> (of_nat (unat t) / of_nat (unat w) :: rat) \<and> (of_nat (unat t) / of_nat (unat w) :: rat) \<le> 4294967295"
    if "w \<noteq> 0" "t \<noteq> 0" for t w :: u32
  proof -
    have t: "(1::rat) \<le> of_nat (unat t)" "(of_nat (unat t) :: rat) \<le> 4294967295" using unat_pos [OF that(2)] of_nat_unat_u32 by auto
    have w: "(1::rat) \<le> of_nat (unat w)" "(of_nat (unat w) :: rat) \<le> 4294967295" using unat_pos [OF that(1)] of_nat_unat_u32 by auto
    show ?thesis using quotient_bounds [OF t w] by (simp add: power_int_minus)
  qed
  have one: "(2::rat) powi (- 32) \<le> 1" by (simp add: power_int_minus)
  note rs = r [of "fst source" "fst target"] r [of "snd source" "snd target"]
  show "2 powi (- 32) \<le> ideal_scale source target fit we" "ideal_scale source target fit we \<le> 4294967295"
    using rs one assms by (auto simp: ideal_scale_def nonzero_def Let_def min_def max_def)
qed

lemma content_is_ideal:
  assumes "nonzero source" "nonzero target" "fit \<noteq> Fill"
  shows "fit_content_size source target fit we = scale_both source (Fin (fl64 (ideal_scale source target fit we)))"
proof -
  let ?rw = "of_nat (unat (fst target)) / of_nat (unat (fst source)) :: rat"
  let ?rh = "of_nat (unat (snd target)) / of_nat (unat (snd source)) :: rat"
  have nn: "0 \<le> ?rw" "0 \<le> ?rh" by simp_all
  have one: "fl64 1 = 1" using f64.exact_nat [of 1] by simp
  have "fit_scale source target fit = Fin (fl64 (if fit = Cover then max ?rw ?rh else min ?rw ?rh))"
    using fit_scale_Fin [OF assms(1)] assms(3) fl64_min [OF nn] fl64_max [OF nn] by (cases fit) simp_all
  moreover define S where "S = (if fit = Cover then max ?rw ?rh else min ?rw ?rh)"
  have "0 \<le> S" using nn by (simp add: S_def le_max_iff_disj)
  then have "fl64 (min S 1) = min (fl64 S) 1" using fl64_min [of S 1] one by simp
  moreover have "ideal_scale source target fit we = (if we then min S 1 else S)" by (simp add: ideal_scale_def S_def Let_def)
  ultimately show ?thesis using assms(3) unfolding S_def [symmetric] by (simp add: fit_content_size_def Let_def)
qed

lemma clamped_near:
  fixes y :: int and t :: rat
  assumes "\<bar>of_int y - t\<bar> \<le> 3 / 4" "0 \<le> y" "0 < t"
  shows "\<bar>of_nat (nat (min (max y 1) (2 ^ 32 - 1))) - min t (2 ^ 32 - 1)\<bar> \<le> 1"
proof -
  have "(of_nat (nat (min (max y 1) (2 ^ 32 - 1))) :: rat) = min (max (of_int y) 1) (2 ^ 32 - 1)"
    by (simp add: of_nat_nat min_def max_def)
  moreover have "of_int y - t \<le> 3 / 4" "t - of_int y \<le> 3 / 4" using assms(1) unfolding abs_le_iff by linarith+
  moreover have "y = 0 \<or> 1 \<le> (of_int y :: rat)" using assms(2) by (cases "y = 0") auto
  moreover define M :: rat where "M = 2 ^ 32 - 1"
  have "1 \<le> M" by (simp add: M_def)
  ultimately show ?thesis using assms(3) unfolding M_def [symmetric] by (auto simp: min_def max_def abs_le_iff)
qed

lemma axis_near_ideal:
  assumes w: "w \<noteq> 0" and s: "2 powi (- 32) \<le> s" "s \<le> 4294967295"
  shows "near_side (scale_axis w (Fin (fl64 s))) (of_nat (unat w) * s)"
proof -
  define W :: rat where "W = of_nat (unat w)"
  define c :: rat where "c = 1 / 2 ^ 53"
  have W: "1 \<le> W" "W \<le> 4294967295" unfolding W_def using unat_pos [OF w] of_nat_unat_u32 by auto
  have s0: "(2::rat) powi (- 64) \<le> 2 powi (- 32)" "0 < s" using s(1) by (simp_all add: power_int_minus)
  have fs: "\<bar>fl64 s - s\<bar> \<le> s * c" using f64.close [OF order_trans [OF s0(1) s(1)]] by (simp add: power_int_minus c_def)
  have "fl64 s \<le> fl64 4294967295" using s s0 by (intro f64.mono) auto
  also have "\<dots> = 4294967295" using f64.exact_nat [of 4294967295] by simp
  finally have fs_le: "fl64 s \<le> 4294967295" .
  have fs0: "0 \<le> fl64 s" using s0 by (intro f64.nonneg) simp
  have "s - s * c \<le> fl64 s" using fs by (simp only: abs_le_iff) linarith
  moreover have "s * c \<le> s / 2" using s0(2) by (simp add: c_def)
  ultimately have half: "s / 2 \<le> fl64 s" by linarith
  have x: "\<bar>W * fl64 s - W * s\<bar> \<le> W * s * c"
    using fs W(1) by (simp add: abs_mult right_diff_distrib [symmetric] mult.assoc)
  have "s / 2 \<le> W * fl64 s" using half W(1) fs0 mult_right_mono [of 1 W "fl64 s"] by simp
  moreover have "(2::rat) powi (- 64) \<le> 2 powi (- 32) / 2" by (simp add: power_int_minus)
  ultimately have "2 powi (- 64) \<le> W * fl64 s" using s(1) by linarith
  from f64.close [OF this] have v: "\<bar>fl64 (W * fl64 s) - W * fl64 s\<bar> \<le> W * fl64 s * c"
    by (simp add: power_int_minus c_def)
  define v where "v = axis_value w (fl64 s)"
  have v': "\<bar>v - W * fl64 s\<bar> \<le> W * fl64 s * c" using v by (simp add: v_def axis_value_def W_def)
  have T: "0 < W * s" using W(1) s0(2) by simp
  have v0: "0 \<le> v" unfolding v_def using unat_scale_axis(2) [OF fs0 fs_le] .
  have err: "\<bar>v - W * s\<bar> \<le> W * s * (3 * c)"
  proof -
    have "W * fl64 s \<le> W * s * (1 + c)" using x by (simp add: distrib_left abs_le_iff)
    then have "W * fl64 s * c \<le> W * s * (1 + c) * c" by (rule mult_right_mono) (simp add: c_def)
    also have "\<dots> \<le> W * s * (2 * c)" unfolding mult.assoc using T by (intro mult_left_mono) (simp_all add: c_def W_def s0(2) less_imp_le)
    finally have "\<bar>v - W * fl64 s\<bar> \<le> W * s * (2 * c)" using v' by linarith
    with x have "\<bar>v - W * s\<bar> \<le> W * s * (2 * c) + W * s * c" by linarith
    then show ?thesis by (simp add: distrib_left [symmetric])
  qed
  have out: "unat (scale_axis w (Fin (fl64 s))) = nat (min (max (round_away v) 1) (2 ^ 32 - 1))"
    using unat_scale_axis(1) [OF fs0 fs_le] by (simp add: v_def)
  have r: "\<bar>of_int (round_away v) - v\<bar> \<le> 1 / 2" proof -
    have "of_int \<lfloor>v + 1 / 2\<rfloor> \<le> v + 1 / 2" "v + 1 / 2 < of_int \<lfloor>v + 1 / 2\<rfloor> + 1"
      using floor_correct [of "v + 1 / 2"] by simp_all
    moreover have "round_away v = \<lfloor>v + 1 / 2\<rfloor>" using v0 by (simp add: round_away_def)
    ultimately show ?thesis unfolding abs_le_iff by linarith
  qed
  show ?thesis
  proof (cases "W * s \<le> 2 ^ 33")
    case True
    then have "W * s * (3 * c) \<le> 2 ^ 33 * (3 * c)" by (intro mult_right_mono) (simp_all add: c_def)
    also have "\<dots> \<le> 1 / 4" by (simp add: c_def)
    finally have "\<bar>of_int (round_away v) - W * s\<bar> \<le> 3 / 4" using err r by linarith
    from clamped_near [OF this round_away_nonneg [OF v0] T] show ?thesis
      unfolding near_side_def out W_def [symmetric] .
  next
    case False
    have "W * s * (1 - 3 * c) \<le> v" using err by (simp add: right_diff_distrib abs_le_iff)
    moreover have "2 ^ 33 * (1 - 3 * c) \<le> W * s * (1 - 3 * c)" using False by (intro mult_right_mono) (simp_all add: c_def)
    moreover have "2 ^ 32 + 1 \<le> 2 ^ 33 * (1 - 3 * c)" by (simp add: c_def)
    ultimately have "(2 ^ 32 + 1 :: rat) \<le> v" by linarith
    with r have "(2 ^ 32 :: rat) \<le> of_int (round_away v)" by linarith
    then have "2 ^ 32 \<le> round_away v" by (metis of_int_le_iff of_int_numeral of_int_power)
    then have "unat (scale_axis w (Fin (fl64 s))) = 2 ^ 32 - 1" unfolding out by simp
    moreover have "min (of_nat (unat w) * s) (2 ^ 32 - 1) = (2 ^ 32 - 1 :: rat)" using False by (simp add: W_def min_def)
    ultimately show ?thesis by (simp add: near_side_def)
  qed
qed

lemma content_near_ideal:
  assumes "nonzero source" "nonzero target" "fit \<noteq> Fill"
  shows "near_side (fst (fit_content_size source target fit we)) (of_nat (unat (fst source)) * ideal_scale source target fit we) \<and>
    near_side (snd (fit_content_size source target fit we)) (of_nat (unat (snd source)) * ideal_scale source target fit we)"
  using axis_near_ideal [OF _ ideal_scale_bounds [OF assms(1,2)]] assms(1)
  unfolding content_is_ideal [OF assms] by (simp add: scale_both_def nonzero_def)

text \<open>
  C9. A resize keeps what its fit mode promises, for every pair of sizes and despite the
  rounding of \<open>f64\<close>. No side is ever scaled to zero, and without enlargement none grows. \<open>fill\<close>
  stretches to the box itself, each axis held at the source's where enlargement is excluded. The
  other modes scale both axes by one factor, each to within a pixel of the exact product (held at
  \<open>u32::MAX\<close>): the smaller of the two ratios for \<open>contain\<close> and \<open>inside\<close>, the larger for \<open>cover\<close>,
  and at most one without enlargement. Where enlargement is allowed, \<open>contain\<close> and \<open>inside\<close> stay
  inside the box and reach it on one axis, and \<open>cover\<close> covers it and equals it on one.
\<close>

theorem fit_modes_meet_box:
  assumes "nonzero source" and "nonzero target"
  shows "nonzero (fit_content_size source target fit we) \<and>
    (we \<longrightarrow> fits_in (fit_content_size source target fit we) source) \<and>
    (fit \<noteq> Cover \<longrightarrow> fits_in (fit_content_size source target fit we) target) \<and>
    (fit = Fill \<longrightarrow> fit_content_size source target fit we =
       (if we then (min (fst target) (fst source), min (snd target) (snd source)) else target)) \<and>
    (fit \<noteq> Fill \<longrightarrow>
       near_side (fst (fit_content_size source target fit we)) (of_nat (unat (fst source)) * ideal_scale source target fit we) \<and>
       near_side (snd (fit_content_size source target fit we)) (of_nat (unat (snd source)) * ideal_scale source target fit we)) \<and>
    (fit \<noteq> Fill \<longrightarrow>
       fst (fit_content_size source target fit False) = fst target \<or>
       snd (fit_content_size source target fit False) = snd target) \<and>
    (fit = Cover \<longrightarrow> fits_in target (fit_content_size source target fit False))"
proof -
  let ?rw = "ratio (fst target) (fst source)" and ?rh = "ratio (snd target) (snd source)"
  have nz: "fst source \<noteq> 0" "snd source \<noteq> 0" "fst target \<noteq> 0" "snd target \<noteq> 0"
    using assms by (simp_all add: nonzero_def)
  have r: "0 \<le> ?rw" "?rw \<le> 4294967295" "0 \<le> ?rh" "?rh \<le> 4294967295"
    using nz by (simp_all add: size_ratio(2,3))
  have exact: "scale_axis w (Fin (ratio t w)) = t" if "w \<noteq> 0" "t \<noteq> 0" for t w
  proof -
    have "unat (scale_axis w (Fin (ratio t w))) = unat t"
      using axis_le_target [OF that size_ratio(2) [OF that(1)], of t]
        axis_ge_target [OF that, of "ratio t w"] size_ratio(3) [OF that(1), of t]
      by (simp add: order_antisym)
    then show ?thesis by (simp only: unat_inject)
  qed
  have content: "fit_content_size source target fit False = scale_both source (fit_scale source target fit)"
    if "fit \<noteq> Fill" using that by (simp add: fit_content_size_def)
  have touches: "fst (fit_content_size source target fit False) = fst target \<or>
      snd (fit_content_size source target fit False) = snd target" if "fit \<noteq> Fill"
  proof -
    have "fit_scale source target fit \<in> {Fin ?rw, Fin ?rh}"
      using that fit_scale_Fin [OF assms(1)] by (cases fit) (auto simp: min_def max_def)
    then show ?thesis using that nz by (auto simp: content scale_both_def exact)
  qed
  have covers: "fits_in target (fit_content_size source target Cover False)"
    using nz r by (simp add: fit_content_size_def fits_in_def scale_both_def Let_def
        fit_scale_Fin(3) [OF assms(1)] axis_ge_target)
  have fill: "fit_content_size source target Fill we =
      (if we then (min (fst target) (fst source), min (snd target) (snd source)) else target)"
    by (simp add: fit_content_size_def)
  show ?thesis
    using content_nonzero [OF assms] content_within_box [OF assms] touches covers fill
      content_near_ideal [OF assms] content_not_enlarged [OF assms(1)] by auto
qed

theorem fit_modes_meet_box_witness:
  "fits_in (10, 7) (fit_content_size (3, 1000) (10, 7) Cover False) \<and>
   fits_in (fit_content_size (3, 1000) (10, 7) Contain True) (10, 7) \<and>
   near_side (fst (fit_content_size (3, 1000) (10, 7) Contain True)) (3 * ideal_scale (3, 1000) (10, 7) Contain True)"
proof -
  have nz: "nonzero (3, 1000)" "nonzero (10, 7)" by (simp_all add: nonzero_def)
  from fit_modes_meet_box [OF nz, of Cover False] fit_modes_meet_box [OF nz, of Contain True]
  show ?thesis by simp
qed

lemma scale_dimension_not_enlarged:
  assumes "w \<noteq> 0" "h \<noteq> 0" "unat t \<le> unat w"
  shows "unat (scale_dimension h t w) \<le> unat h"
proof -
  let ?h = "of_nat (unat h) :: rat" and ?t = "of_nat (unat t) :: rat" and ?w = "of_nat (unat w) :: rat"
  have h1: "1 \<le> ?h" "?h \<le> 2 ^ 32" and w1: "1 \<le> ?w" "?w \<le> 2 ^ 32"
    using unat_pos [OF assms(1)] unat_pos [OF assms(2)]
      order_trans [OF of_nat_unat_u32, of "2 ^ 32" h] order_trans [OF of_nat_unat_u32, of "2 ^ 32" w]
    by simp_all
  have tw: "0 \<le> ?t" "?t \<le> ?w" using assms(3) by simp_all
  have ht: "0 \<le> ?h * ?t" "?h * ?t \<le> ?h * ?w" using h1 tw by (simp_all add: mult_left_mono)
  have "?h * ?w \<le> 2 ^ 32 * 2 ^ 32" using h1 w1 by (intro mult_mono) simp_all
  moreover have "(2::rat) ^ 32 * 2 ^ 32 \<le> 2 ^ 100" by simp
  ultimately have small: "?h * ?t \<le> 2 ^ 100" using ht by (meson order_trans)
  define P where "P = fl64 (?h * ?t)"
  have P0: "0 \<le> P" unfolding P_def by (rule f64.nonneg [OF ht(1)])
  have mul: "f64_mul (f64_from h) (f64_from t) = Fin P"
    using f64_of_Fin [OF ht(1) small] by (simp add: float_of_u32_def P_def)
  have hw1: "1 \<le> ?h * ?w" using mult_mono [OF h1(1) w1(1)] by simp
  have "P \<le> fl64 (?h * ?w)" unfolding P_def using ht by (rule f64.mono)
  also have "\<dots> \<le> ?h * ?w + ?h * ?w * 2 powi (- 53)"
  proof -
    have "(2::rat) powi (- 64) \<le> 1" by (simp add: power_int_minus)
    then have "2 powi (- 64) \<le> ?h * ?w" using hw1 by linarith
    from f64.close [OF this] show ?thesis by linarith
  qed
  finally have "P / ?w \<le> (?h * ?w + ?h * ?w * 2 powi (- 53)) / ?w"
    using w1 by (intro divide_right_mono) simp_all
  also have "\<dots> = ?h + ?h * 2 powi (- 53)" using w1 by (simp add: add_divide_distrib)
  also have "\<dots> \<le> ?h + 1 / 4"
  proof -
    have "?h * 2 powi (- 53) \<le> 2 ^ 32 * 2 powi (- 53)" using h1 by (intro mult_right_mono) simp_all
    also have "\<dots> \<le> 1 / 4" by (simp add: power_int_minus)
    finally show ?thesis by simp
  qed
  finally have le: "P / ?w \<le> ?h + 1 / 4" .
  have q0: "0 \<le> P / ?w" using P0 w1 by simp
  have div: "f64_div (Fin P) (f64_from w) = Fin (fl64 (P / ?w))"
    using w1 q0 le h1 by (simp add: float_of_u32_def f64_of_Fin)
  have "fl64 (P / ?w) \<le> fl64 (?h + 1 / 4)" using q0 le by (rule f64.mono)
  also have "?h + 1 / 4 = (of_nat (4 * unat h + 1) / 4 :: rat)" by (simp add: add_divide_distrib)
  also have "fl64 \<dots> = \<dots>"
  proof (rule f64.exact_quarter)
    have "4 * unat h + 1 \<le> 4 * 4294967295 + 1" by (intro add_mono mult_le_mono u32_le order_refl)
    then show "4 * unat h + 1 < 2 ^ 40" by (rule le_less_trans) simp
  qed
  finally have "fl64 (P / ?w) \<le> ?h + 1 / 4" by (simp add: add_divide_distrib)
  then have r: "round_away (fl64 (P / ?w)) \<le> int (unat h)"
    by (rule round_away_le [OF f64.nonneg [OF q0]])
  have "1 \<le> int (unat h)" using unat_pos [OF assms(2)] by linarith
  with r have "nat (min (max (round_away (fl64 (P / ?w))) 1) (2 ^ 32 - 1)) \<le> unat h" by linarith
  then show ?thesis
    unfolding scale_dimension_def mul div unat_rounded [OF f64.nonneg [OF q0]] .
qed

text \<open>
  C10. The pixel limit is applied to the sizes that are allocated: when the check accepts a
  resize, both the buffer the content is scaled into, which \<open>cover\<close> makes larger than what it
  returns, and the output have at most \<open>MAX_OUTPUT_PIXELS\<close> pixels, and no side of the output is
  past what its format can hold.
\<close>

theorem accepted_resize_is_bounded:
  assumes "check_output_pixel_limit source width height fit we format = Ok ()"
    and "nonzero source" and "width \<noteq> Some 0" and "height \<noteq> Some 0"
  shows "pixels_of (resize_content_size source width height fit we) \<le> MAX_OUTPUT_PIXELS \<and>
    pixels_of (resolved_output_dimensions source width height fit we) \<le> MAX_OUTPUT_PIXELS \<and>
    (\<forall>cap. max_output_dimension format = Some cap \<longrightarrow>
       fst (resolved_output_dimensions source width height fit we) \<le> cap \<and>
       snd (resolved_output_dimensions source width height fit we) \<le> cap)"
proof -
  let ?out = "resolved_output_dimensions source width height fit we"
  have out: "pixels_of ?out \<le> MAX_OUTPUT_PIXELS"
    and fmt: "check_output_format_dimensions format (fst ?out) (snd ?out) = Ok ()"
    using assms(1) by (auto simp: check_output_pixel_limit_def Let_def)
  have content: "pixels_of (resize_content_size source width height fit we) \<le> MAX_OUTPUT_PIXELS"
  proof (cases "width = None \<or> height = None")
    case True
    then show ?thesis using out
      by (cases width; cases height)
        (auto simp: resize_content_size_def resolved_output_dimensions_def split: prod.splits)
  next
    case False
    then obtain w h where wh: "width = Some w" "height = Some h" by auto
    have nz: "nonzero (w, h)" using assms(3,4) wh by (simp add: nonzero_def)
    show ?thesis
    proof (cases "fit_or_contain fit")
      case Cover
      with assms(1) wh show ?thesis
        by (auto simp: check_output_pixel_limit_def resize_content_size_def Let_def)
    next
      case Contain
      have "fits_in (fit_content_size source (w, h) Contain we) (w, h)"
        by (rule content_within_box [OF assms(2) nz]) simp
      from pixels_of_mono [OF this] out show ?thesis
        by (cases source) (simp add: Contain wh resize_content_size_def
            resolved_output_dimensions_def Let_def)
    qed (use out wh in \<open>cases source, simp add: resize_content_size_def
        resolved_output_dimensions_def Let_def\<close>)+
  qed
  have "\<forall>cap. max_output_dimension format = Some cap \<longrightarrow> fst ?out \<le> cap \<and> snd ?out \<le> cap"
    using fmt by (auto simp: check_output_format_dimensions_def split: if_splits)
  with out content show ?thesis by simp
qed

theorem accepted_resize_is_bounded_witness:
  "pixels_of (resize_content_size (100, 50) (Some 20) (Some 30) (Some Fill) False) \<le> MAX_OUTPUT_PIXELS"
proof -
  have "check_output_pixel_limit (100, 50) (Some 20) (Some 30) (Some Fill) False Jpeg = Ok ()"
    by (simp add: check_output_pixel_limit_def resolved_output_dimensions_def fit_content_size_def
        pixels_of_eq MAX_OUTPUT_PIXELS_def fit_or_contain_def check_output_format_dimensions_def Let_def)
  moreover have "nonzero (100, 50)" by (simp add: nonzero_def)
  ultimately show ?thesis by (rule accepted_resize_is_bounded [THEN conjunct1]) simp_all
qed

text \<open>
  \<open>withoutEnlargement\<close> never enlarges: the scaled content has no side longer than the
  source's in any fit mode and on a single axis, and the same holds of the output unless
  \<open>contain\<close> pads it out to its box.
\<close>

theorem without_enlargement_holds:
  assumes "nonzero source"
  shows "fits_in (resize_content_size source width height fit True) source \<and>
    (width = None \<or> height = None \<or> fit_or_contain fit \<noteq> Contain \<longrightarrow>
       fits_in (resolved_output_dimensions source width height fit True) source)"
proof -
  obtain sw sh where s: "source = (sw, sh)" by (cases source)
  have nz: "sw \<noteq> 0" "sh \<noteq> 0" using assms by (simp_all add: s nonzero_def)
  have m: "unat (min t r) \<le> unat r" for t r :: u32 by (simp add: min_def word_le_nat_alt)
  have both: "fits_in (fit_content_size source (w, h) f True) source" for w h f
    by (rule content_not_enlarged [OF assms])
  have one: "fits_in (resolved_output_dimensions source width height fit True) source"
    if "width = None \<or> height = None"
    using that nz m
    by (cases width; cases height)
      (auto simp: s resolved_output_dimensions_def fits_in_def Let_def scale_dimension_not_enlarged)
  have two: "fits_in (resolved_output_dimensions source (Some w) (Some h) fit True) source"
    if "fit_or_contain fit \<noteq> Contain" for w h
    using that both [of w h "fit_or_contain fit"]
    by (cases "fit_or_contain fit")
      (auto simp: s resolved_output_dimensions_def fits_in_def Let_def intro: order_trans [OF m])
  have content: "fits_in (resize_content_size source width height fit True) source"
  proof (cases "width = None \<or> height = None")
    case True
    then show ?thesis using one
      by (cases width; cases height) (auto simp: resize_content_size_def fits_in_def)
  next
    case False
    then show ?thesis using both by (auto simp: resize_content_size_def)
  qed
  show ?thesis using content one two by (cases width; cases height) auto
qed

theorem without_enlargement_holds_witness:
  "fits_in (resolved_output_dimensions (40, 30) (Some 80) None None True) (40, 30)"
  using without_enlargement_holds [of "(40, 30)" "Some 80" None None] by (simp add: nonzero_def)

section \<open>Placement\<close>

lemma unat_saturating_sub [simp]: "unat (saturating_sub_u32 a b) = unat a - unat b"
proof (cases "a < b")
  case True
  then have "unat a < unat b" by (simp add: word_less_nat_alt)
  with True show ?thesis by (simp add: saturating_sub_u32_def)
next
  case False
  then have "b \<le> a" by simp
  with False show ?thesis by (simp add: saturating_sub_u32_def unat_sub)
qed

lemma unat_halved [simp]: "unat ((w :: u32) div 2) = unat w div 2"
  by (simp add: unat_div)

lemma half_fits [simp]: "b \<le> a \<Longrightarrow> (a - b) div 2 + b \<le> a" for a b :: nat
  using div_le_dividend [of "a - b" 2] by linarith

lemma watermark_fits_iff:
  "check_watermark_fits wm main W = Ok () \<longleftrightarrow>
     (let margins = watermark_margins (wm_position W) (wm_margin W) in
      unat (fst wm) + unat (fst margins) \<le> unat (fst main) \<and>
      unat (snd wm) + unat (snd margins) \<le> unat (snd main))"
proof -
  have sum: "unat (ucast (a :: u32) + ucast (b :: u32) :: u64) = unat a + unat b" for a b
  proof -
    have "unat a + unat b \<le> 4294967295 + 4294967295" by (intro add_mono u32_le)
    then have "unat a + unat b < 2 ^ 64" by (rule le_less_trans) simp
    then show ?thesis by (simp add: unat_word_ariths)
  qed
  have le: "(ucast a + ucast b \<le> (ucast c :: u64)) = (unat a + unat b \<le> unat c)" for a b c :: u32
    by (simp add: word_le_nat_alt sum)
  show ?thesis by (simp add: check_watermark_fits_def le Let_def)
qed

text \<open>
  An accepted watermark lies inside the output, at its margin: when the check passes, the
  offset plus the watermark's size is within the output on both axes, and on an axis where the
  position asks for a margin the watermark keeps exactly that distance from its edge. The check
  adds in \<open>u64\<close>, so no margin wraps into one that seems to fit.
\<close>

theorem watermark_lies_inside:
  assumes "check_watermark_fits wm main W = Ok ()"
  shows "(let off = watermark_offset (fst main) (snd main) (fst wm) (snd wm) (wm_position W) (wm_margin W)
     in unat (fst off) + unat (fst wm) \<le> unat (fst main) \<and>
        unat (snd off) + unat (snd wm) \<le> unat (snd main) \<and>
        (wm_position W \<in> {TopLeft, Left, BottomLeft} \<longrightarrow> fst off = wm_margin W) \<and>
        (wm_position W \<in> {TopRight, Right, BottomRight} \<longrightarrow>
           unat (fst off) + unat (fst wm) + unat (wm_margin W) = unat (fst main)) \<and>
        (wm_position W \<in> {TopLeft, Top, TopRight} \<longrightarrow> snd off = wm_margin W) \<and>
        (wm_position W \<in> {BottomLeft, Bottom, BottomRight} \<longrightarrow>
           unat (snd off) + unat (snd wm) + unat (wm_margin W) = unat (snd main)))"
  using assms unfolding watermark_fits_iff
  by (cases "wm_position W") (simp_all add: watermark_margins_def watermark_offset_def Let_def)

definition sample_watermark :: watermark_input where
  "sample_watermark = \<lparr>wm_image = \<lparr>art_bytes = [], art_media_type = Png,
     art_metadata = default_metadata\<rparr>, wm_position = BottomRight, wm_opacity = 50, wm_margin = 10\<rparr>"

theorem watermark_lies_inside_witness:
  "watermark_offset 100 50 20 20 BottomRight 10 = (70, 20) \<and>
   unat (fst (watermark_offset 100 50 20 20 BottomRight 10)) + 20 + 10 = 100"
proof -
  have "check_watermark_fits (20, 20) (100, 50) sample_watermark = Ok ()" by code_simp
  from watermark_lies_inside [OF this]
  have "unat (fst (watermark_offset 100 50 20 20 BottomRight 10)) + 20 + 10 = 100"
    by (simp add: Let_def sample_watermark_def)
  moreover have "watermark_offset 100 50 20 20 BottomRight 10 = (70, 20)" by code_simp
  ultimately show ?thesis by simp
qed

text \<open>
  Content no larger than its box is placed inside it whatever the position: the overlay
  of \<open>contain\<close> never clips the content and the crop of \<open>cover\<close> never leaves the scaled image.
\<close>

theorem position_offset_inside:
  assumes "fits_in (cw, ch) (bw, bh)"
  shows "unat (fst (position_offset bw bh cw ch pos)) + unat cw \<le> unat bw \<and>
    unat (snd (position_offset bw bh cw ch pos)) + unat ch \<le> unat bh"
  using assms by (auto simp: position_offset_def fits_in_def Let_def)

theorem position_offset_inside_witness:
  "unat (fst (position_offset 10 10 3 4 Right)) + unat (3 :: u32) \<le> unat (10 :: u32)"
  using position_offset_inside [of 3 4 10 10 Right] by (simp add: fits_in_def)

text \<open>
  A crop is accepted exactly when its rectangle lies inside the image, for every image
  with sides below \<open>u32::MAX\<close>: the saturating additions cannot let one through that wraps.
\<close>

theorem crop_bounds_exact:
  assumes "unat (fst d) < 2 ^ 32 - 1" and "unat (snd d) < 2 ^ 32 - 1"
  shows "check_crop_bounds c d = Ok () \<longleftrightarrow>
    unat (crop_x c) + unat (crop_width c) \<le> unat (fst d) \<and>
    unat (crop_y c) + unat (crop_height c) \<le> unat (snd d)"
proof -
  have sat: "unat (saturating_add_u32 a b) = min (unat a + unat b) (2 ^ 32 - 1)" for a b
  proof (cases "unat a + unat b < 2 ^ 32")
    case True
    then have "unat (a + b) = unat a + unat b" by (simp add: unat_word_ariths)
    with True show ?thesis by (simp add: saturating_add_u32_def)
  next
    case False
    then have "saturating_add_u32 a b = - 1" by (simp only: saturating_add_u32_def if_False)
    moreover have "unat (- 1 :: u32) = 2 ^ 32 - 1"
      by (simp add: unsigned_minus_1_eq_mask mask_eq_exp_minus_1)
    ultimately show ?thesis using False by simp
  qed
  have "(n < saturating_add_u32 a b) = (unat n < unat a + unat b)" if "unat n < 2 ^ 32 - 1" for n a b
    using that by (auto simp: word_less_nat_alt sat)
  with assms show ?thesis by (simp add: check_crop_bounds_def not_less)
qed

theorem crop_bounds_exact_witness:
  "check_crop_bounds \<lparr>crop_x = 1, crop_y = 2, crop_width = 3, crop_height = 4\<rparr> (4, 6) = Ok ()"
  by (subst crop_bounds_exact) simp_all

end
