(* ===== verification/Containers.thy ===== *)
theory Containers
  imports Sniff
begin

text \<open>
  What the lossless rewriters of \<open>src/codecs/raster.rs\<close> share. A file is read as a list of
  items and a tail. The interface \<open>item_reader\<close> says what a step of a walk makes of one item,
  \<open>item_grammar\<close> adds that nothing but an item takes a step, and their lemmas say what the
  whole walk makes of a file. JPEG and PNG provide the second, the chunk list of a WebP the
  first.
\<close>

unbundle bit_operations_syntax

lemma map_ok_eq_Err [simp]: "map_ok f m = Err e \<longleftrightarrow> m = Err e"
  by (cases m) simp_all

section \<open>Files as lists of items\<close>

fun run_items :: "(nat \<Rightarrow> 's \<Rightarrow> 'i \<Rightarrow> 's) \<Rightarrow> ('i \<Rightarrow> bytes) \<Rightarrow> nat \<Rightarrow> 's \<Rightarrow> 'i list \<Rightarrow> 's" where
  "run_items account item offset s [] = s"
| "run_items account item offset s (i # is) =
     run_items account item (offset + length (item i)) (account offset s i) is"

locale item_reader =
  fixes step :: "bytes \<Rightarrow> nat \<Rightarrow> 's \<Rightarrow> ('e, ('s, 'r) loop) outcome"
    and item :: "'i \<Rightarrow> bytes" and item_ok :: "'i \<Rightarrow> bool"
    and tail :: "'t \<Rightarrow> bytes" and tail_ok :: "'t \<Rightarrow> bool"
    and account :: "nat \<Rightarrow> 's \<Rightarrow> 'i \<Rightarrow> 's" and finish :: "'s \<Rightarrow> 't \<Rightarrow> 'r" and fits :: "bytes \<Rightarrow> bool"
  assumes forward: "step bs offset s = Ok (Next offset' s') \<Longrightarrow> offset < offset' \<and> offset < length bs"
    and on_item: "item_ok i \<Longrightarrow> fits (pre @ item i @ post) \<Longrightarrow> step (pre @ item i @ post) (length pre) s =
      Ok (Next (length pre + length (item i)) (account (length pre) s i))"
    and on_tail: "tail_ok t \<Longrightarrow> fits (pre @ tail t) \<Longrightarrow> step (pre @ tail t) (length pre) s = Ok (Stop (finish s t))"
begin

lemma walks: "byte_walk (step bs) (length bs)"
  by unfold_locales (rule forward)

lemma walk_items:
  "list_all item_ok is \<Longrightarrow> tail_ok t \<Longrightarrow> fits (pre @ concat (map item is) @ tail t) \<Longrightarrow>
   walk (step (pre @ concat (map item is) @ tail t)) (length (pre @ concat (map item is) @ tail t))
     (length pre) s = Ok (finish (run_items account item (length pre) s is) t)"
proof (induction "is" arbitrary: pre s)
  case Nil
  then show ?case using byte_walk.walk_Stop [OF walks on_tail] by simp
next
  case (Cons i "is")
  let ?bs = "pre @ concat (map item (i # is)) @ tail t"
  have "step ?bs (length pre) s = Ok (Next (length (pre @ item i)) (account (length pre) s i))"
    using on_item [of i pre "concat (map item is) @ tail t" s] Cons.prems(1,3) by simp
  from byte_walk.walk_Next [OF walks this] Cons.IH [of "pre @ item i" "account (length pre) s i"]
    Cons.prems show ?case by simp
qed

end

locale item_grammar = item_reader +
  fixes good :: "'r \<Rightarrow> bool"
  assumes next_item: "step bs offset s = Ok (Next offset' s') \<Longrightarrow>
      \<exists>i. item_ok i \<and> drop offset bs = item i @ drop offset' bs \<and> offset' = offset + length (item i) \<and>
        offset' \<le> length bs \<and> s' = account offset s i"
    and stop_tail: "step bs offset s = Ok (Stop r) \<Longrightarrow> good r \<Longrightarrow>
      \<exists>t. tail_ok t \<and> drop offset bs = tail t \<and> r = finish s t"
begin

lemma walk_decomposes:
  assumes "walk (step bs) (length bs) offset s = Ok r" "good r"
  shows "\<exists>is t. list_all item_ok is \<and> tail_ok t \<and> drop offset bs = concat (map item is) @ tail t \<and>
    r = finish (run_items account item offset s is) t"
  using assms(1)
proof (induction "length bs - offset" arbitrary: offset s rule: less_induct)
  case less
  note w = byte_walk.walk_unfold [OF walks, of bs offset s]
  show ?case
  proof (cases "step bs offset s")
    case (Ok l)
    show ?thesis
    proof (cases l)
      case (Next o' s')
      with Ok have step: "step bs offset s = Ok (Next o' s')" by simp
      have "length bs - o' < length bs - offset" using forward [OF step] by auto
      from less.hyps [OF this, of s'] w step less.prems obtain "is" t where
        rest: "list_all item_ok is" "tail_ok t" "drop o' bs = concat (map item is) @ tail t"
          "r = finish (run_items account item o' s' is) t" by auto
      from next_item [OF step] obtain i where
        "item_ok i" "drop offset bs = item i @ drop o' bs" "o' = offset + length (item i)"
        "s' = account offset s i" by blast
      with rest show ?thesis by (intro exI [of _ "i # is"] exI [of _ t]) simp
    next
      case (Stop x)
      with Ok w less.prems have "step bs offset s = Ok (Stop r)" by simp
      from stop_tail [OF this assms(2)] obtain t where
        "tail_ok t" "drop offset bs = tail t" "r = finish s t" by blast
      then show ?thesis by (intro exI [of _ "[]"] exI [of _ t]) simp
    qed
  qed (use w less.prems in simp_all)
qed

lemma walk_iff:
  assumes "good r" "offset \<le> length bs" "fits bs"
  shows "walk (step bs) (length bs) offset s = Ok r \<longleftrightarrow>
    (\<exists>is t. list_all item_ok is \<and> tail_ok t \<and> drop offset bs = concat (map item is) @ tail t \<and>
      r = finish (run_items account item offset s is) t)" (is "?L \<longleftrightarrow> ?R")
proof
  assume ?R
  then obtain "is" t where *: "list_all item_ok is" "tail_ok t"
    "drop offset bs = concat (map item is) @ tail t" "r = finish (run_items account item offset s is) t"
    by blast
  have eq: "bs = take offset bs @ concat (map item is) @ tail t"
    using *(3) by (metis append_take_drop_id)
  have "length (take offset bs) = offset" using assms(2) by simp
  with walk_items [OF *(1,2), of "take offset bs" s] *(4) assms(3) show ?L by (simp flip: eq)
qed (use walk_decomposes assms(1) in blast)

end

text \<open>A walk that only appends to its output filters and concatenates.\<close>

lemma run_items_append:
  "run_items (\<lambda>_ out i. if keep i then out @ emit i else out) item offset out is =
     out @ concat (map emit (filter keep is))"
  by (induction "is" arbitrary: offset out) simp_all

section \<open>Slices and integers of a file\<close>

lemma drop_sub_bytes: "a \<le> b \<Longrightarrow> b \<le> length bs \<Longrightarrow> drop a bs = sub_bytes bs a b @ drop b bs"
  by (metis append_take_drop_id drop_drop le_add_diff_inverse2 sub_bytes_def)

lemma sub_bytes_split:
  "a \<le> b \<Longrightarrow> b \<le> c \<Longrightarrow> c \<le> length bs \<Longrightarrow> sub_bytes bs a c = sub_bytes bs a b @ sub_bytes bs b c"
proof -
  assume "a \<le> b" "b \<le> c"
  then have "c - a = (b - a) + (c - b)" "b = (b - a) + a" by simp_all
  then show ?thesis unfolding sub_bytes_def by (metis drop_drop take_add)
qed

lemma sub_bytes_pair: "i + 2 \<le> length bs \<Longrightarrow> sub_bytes bs i (i + 2) = [bs ! i, bs ! (i + 1)]"
  by (simp add: sub_bytes_def numeral_2_eq_2 take_Suc_conv_app_nth)

lemma sub_bytes_middle: "sub_bytes (pre @ xs @ post) (length pre) (length pre + length xs) = xs"
  by (simp add: sub_bytes_def)

lemma get_slice_at:
  "bs = pre @ xs @ post \<Longrightarrow> a = length pre \<Longrightarrow> b = length pre + length xs \<Longrightarrow> get_slice bs a b = Some xs"
  by (simp add: get_slice_def sub_bytes_def)

lemma get_slice_eq_Some: "get_slice bs a b = Some x \<longleftrightarrow> a \<le> b \<and> b \<le> length bs \<and> x = sub_bytes bs a b"
  by (auto simp: get_slice_def)

lemma u32_to_be_of_be: "u32_to_be (u32_of_be a b c d) = [a, b, c, d]"
proof -
  let ?w = "u32_of_be a b c d"
  have bit: "bit ?w n \<longleftrightarrow> (if n < 8 then bit d n else if n < 16 then bit c (n - 8)
      else if n < 24 then bit b (n - 16) else bit a (n - 24))" for n
    by (auto simp: u32_of_be_def bit_simps dest: bit_imp_le_length)
  have "ucast (drop_bit 24 ?w) = a" "ucast (drop_bit 16 ?w) = b" "ucast (drop_bit 8 ?w) = c" "ucast ?w = d"
    by (rule bit_word_eqI; simp add: bit_simps bit)+
  then show ?thesis by (simp add: u32_to_be_def)
qed

lemma u32_to_be_read: "read_u32_be (u32_to_be w) = Ok w"
  by (simp add: u32_to_be_def u32_be_roundtrip)

lemma read_u32_be_to: "read_u32_be s = Ok w \<Longrightarrow> s = u32_to_be w"
  by (cases s rule: read_u32_be.cases) (auto simp: u32_to_be_of_be)

lemma unat_of_u32_length: "n < 2 ^ 32 \<Longrightarrow> unat (of_nat n :: u32) = n"
  by (simp add: unat_of_nat take_bit_nat_eq_self)

lemma of_unat_u32: "of_nat (unat (w :: u32)) = w"
  by simp

lemma ok_of_Some [simp]: "ok_of m = Some x \<longleftrightarrow> m = Ok x" "ok_of (Ok y) = Some y"
  by (cases m; simp add: ok_of_def) (simp add: ok_of_def)

lemma u16_to_be_of_be: "u16_to_be (u16_of_be a b) = [a, b]"
proof -
  have "ucast (drop_bit 8 (u16_of_be a b)) = a"
    by (rule bit_word_eqI) (auto simp: u16_of_be_def bit_simps dest: bit_imp_le_length)
  moreover have "ucast (u16_of_be a b) = b"
    by (rule bit_word_eqI) (auto simp: u16_of_be_def bit_simps)
  ultimately show ?thesis by (simp add: u16_to_be_def)
qed

lemma of_unat_u16: "of_nat (unat (w :: u16)) = w"
  by simp

lemma unat_of_u16_length: "n \<le> 65535 \<Longrightarrow> unat (of_nat n :: u16) = n"
  by (simp add: unat_of_nat take_bit_nat_eq_self)

end
