(* ===== verification/Jpeg_Policy.thy ===== *)
theory Jpeg_Policy
  imports Containers
begin

text \<open>
  The JPEG rewriter of \<open>src/codecs/raster.rs\<close>: which segments a metadata policy keeps, the copy
  of a file without the others, and what the copy says of its orientation.

  What is shown: the rewriter accepts exactly the files that are marker segments up to an end or
  a scan, its answer is the file of the segments kept, it never panics, doing it twice changes
  nothing, and the orientation survives exactly under a policy that keeps Exif.
\<close>

unbundle bit_operations_syntax

section \<open>JPEG\<close>

definition not_a_jpeg :: transform_error where
  "not_a_jpeg = InvalidInput ''input is not a valid JPEG bitstream''"

definition jpeg_segment_end :: "bytes \<Rightarrow> nat \<Rightarrow> (transform_error, nat) outcome" where
  "jpeg_segment_end bs index =
     (if length bs < index + 2 then Err not_a_jpeg
      else and_then (byte_at bs index) (\<lambda>a. and_then (byte_at bs (index + 1)) (\<lambda>b.
        let len = unat (u16_of_be a b) in
        if len < 2 then Err not_a_jpeg
        else if length bs < index + len then Err not_a_jpeg
        else Ok (index + len))))"

definition should_keep_jpeg_segment :: "u8 \<Rightarrow> bytes \<Rightarrow> metadata_policy \<Rightarrow> bool" where
  "should_keep_jpeg_segment marker payload policy =
     (if marker = 0xE0 \<or> marker = 0xEE then True
      else if 0xE1 \<le> marker \<and> marker \<le> 0xEF \<or> marker = 0xFE then
        (case policy of
           KeepAll \<Rightarrow> True
         | PreserveIcc \<Rightarrow> marker = 0xE2 \<and> starts_with payload (ascii ''ICC_PROFILE'' @ [0])
         | PreserveExif \<Rightarrow> marker = 0xE1 \<and> starts_with payload exif_prefix
         | StripAll \<Rightarrow> False)
      else True)"

definition jpeg_policy_step ::
  "metadata_policy \<Rightarrow> bytes \<Rightarrow> nat \<Rightarrow> bytes \<Rightarrow> (transform_error, (bytes, bytes) loop) outcome" where
  "jpeg_policy_step policy bs index output =
     (if length bs \<le> index + 1 then Err not_a_jpeg
      else and_then (byte_at bs index) (\<lambda>b.
        if b \<noteq> 0xFF then Err not_a_jpeg
        else
          let marker_index = skip_fill bs (index + 1) in
          if length bs \<le> marker_index then Err not_a_jpeg
          else and_then (byte_at bs marker_index) (\<lambda>marker.
            let index' = marker_index + 1 in
            if marker = 0xD9 then Ok (Stop (output @ [0xFF, marker]))
            else if marker = 0xDA then
              and_then (jpeg_segment_end bs index') (\<lambda>segment_end.
              and_then (slice bs segment_end (length bs)) (\<lambda>scan.
                if find_sub scan [0xFF, 0xD9] = None then Err not_a_jpeg
                else and_then (slice bs index' segment_end) (\<lambda>header.
                  Ok (Stop (output @ [0xFF, marker] @ header @ scan)))))
            else if is_standalone_marker marker then Ok (Next index' (output @ [0xFF, marker]))
            else
              and_then (jpeg_segment_end bs index') (\<lambda>segment_end.
              and_then (slice bs (index' + 2) segment_end) (\<lambda>payload.
              and_then (slice bs index' segment_end) (\<lambda>segment.
                Ok (Next segment_end
                  (if should_keep_jpeg_segment marker payload policy
                   then output @ [0xFF, marker] @ segment else output))))))))"

definition optimize_jpeg_bytes_losslessly ::
  "bytes \<Rightarrow> metadata_policy \<Rightarrow> (transform_error, bytes) outcome" where
  "optimize_jpeg_bytes_losslessly bs policy =
     (if length bs < 4 then Err not_a_jpeg
      else and_then (byte_at bs 0) (\<lambda>a. and_then (byte_at bs 1) (\<lambda>b.
        if a \<noteq> 0xFF \<or> b \<noteq> 0xD8 then Err not_a_jpeg
        else and_then (slice bs 0 2) (\<lambda>soi. walk (jpeg_policy_step policy bs) (length bs) 2 soi))))"

text \<open>A JPEG file: bare markers and segments, each with its fill bytes, then the end or a scan.\<close>

datatype jpeg_part = Bare nat u8 | Segment nat u8 bytes
datatype jpeg_tail = Eoi nat bytes | Scan nat bytes bytes

definition marker_bytes :: "nat \<Rightarrow> u8 \<Rightarrow> bytes" where
  "marker_bytes fill m = 0xFF # replicate fill 0xFF @ [m]"

definition segment_bytes :: "bytes \<Rightarrow> bytes" where
  "segment_bytes payload = u16_to_be (of_nat (length payload + 2)) @ payload"

fun part_bytes :: "jpeg_part \<Rightarrow> bytes" where
  "part_bytes (Bare fill m) = marker_bytes fill m"
| "part_bytes (Segment fill m payload) = marker_bytes fill m @ segment_bytes payload"

fun tail_bytes :: "jpeg_tail \<Rightarrow> bytes" where
  "tail_bytes (Eoi fill rest) = marker_bytes fill 0xD9 @ rest"
| "tail_bytes (Scan fill header scan) = marker_bytes fill 0xDA @ segment_bytes header @ scan"

fun jpeg_part_ok :: "jpeg_part \<Rightarrow> bool" where
  "jpeg_part_ok (Bare fill m) \<longleftrightarrow> is_standalone_marker m"
| "jpeg_part_ok (Segment fill m payload) \<longleftrightarrow>
     \<not> is_standalone_marker m \<and> m \<noteq> 0xD9 \<and> m \<noteq> 0xDA \<and> m \<noteq> 0xFF \<and> length payload \<le> 65533"

fun tail_ok :: "jpeg_tail \<Rightarrow> bool" where
  "tail_ok (Eoi fill rest) \<longleftrightarrow> True"
| "tail_ok (Scan fill header scan) \<longleftrightarrow> length header \<le> 65533 \<and> find_sub scan [0xFF, 0xD9] \<noteq> None"

text \<open>What is kept of a file: no fill bytes, nothing behind the end.\<close>

fun keep_part :: "metadata_policy \<Rightarrow> jpeg_part \<Rightarrow> bool" where
  "keep_part policy (Bare fill m) \<longleftrightarrow> True"
| "keep_part policy (Segment fill m payload) \<longleftrightarrow> should_keep_jpeg_segment m payload policy"

fun tidy_part :: "jpeg_part \<Rightarrow> jpeg_part" where
  "tidy_part (Bare fill m) = Bare 0 m"
| "tidy_part (Segment fill m payload) = Segment 0 m payload"

fun tidy_tail :: "jpeg_tail \<Rightarrow> jpeg_tail" where
  "tidy_tail (Eoi fill rest) = Eoi 0 []"
| "tidy_tail (Scan fill header scan) = Scan 0 header scan"

definition jpeg_bytes :: "jpeg_part list \<Rightarrow> jpeg_tail \<Rightarrow> bytes" where
  "jpeg_bytes parts t = [0xFF, 0xD8] @ concat (map part_bytes parts) @ tail_bytes t"

lemma skip_fill_text:
  "m \<noteq> 0xFF \<Longrightarrow> skip_fill (pre @ replicate fill 0xFF @ m # post) (length pre) = length pre + fill"
  by (simp add: skip_fill_def takeWhile_append)

lemma length_segment_bytes [simp]: "length (segment_bytes payload) = length payload + 2"
  by (simp add: segment_bytes_def)

lemma length_marker_bytes [simp]: "length (marker_bytes fill m) = fill + 2"
  by (simp add: marker_bytes_def)

lemma jpeg_segment_end_text:
  assumes "length payload \<le> 65533"
  shows "jpeg_segment_end (pre @ segment_bytes payload @ post) (length pre) =
    Ok (length pre + (length payload + 2))"
proof -
  let ?n = "length payload + 2"
  have "unat (u16_of_be (ucast (drop_bit 8 (of_nat ?n :: u16))) (ucast (of_nat ?n :: u16))) = ?n"
    unfolding u16_be_roundtrip by (rule unat_of_u16_length) (use assms in simp)
  then show ?thesis
    by (simp add: jpeg_segment_end_def segment_bytes_def u16_to_be_def access_simps nth_append Let_def)
qed

lemma jpeg_segment_end_Ok:
  assumes "jpeg_segment_end bs i = Ok e"
  shows "i + 2 \<le> e \<and> e \<le> length bs \<and> length (sub_bytes bs (i + 2) e) \<le> 65533 \<and>
    sub_bytes bs i e = segment_bytes (sub_bytes bs (i + 2) e)"
proof -
  let ?w = "u16_of_be (bs ! i) (bs ! (i + 1))"
  have e: "i + 2 \<le> length bs" "2 \<le> unat ?w" "e = i + unat ?w" "e \<le> length bs"
    using assms by (auto simp: jpeg_segment_end_def Let_def split: if_splits)
  have "length (sub_bytes bs (i + 2) e) + 2 = unat ?w" using e by simp
  then have "u16_to_be (of_nat (length (sub_bytes bs (i + 2) e) + 2)) = sub_bytes bs i (i + 2)"
    using e(1) by (simp only: of_unat_u16 u16_to_be_of_be sub_bytes_pair)
  then have "sub_bytes bs i e = segment_bytes (sub_bytes bs (i + 2) e)"
    using e sub_bytes_split [of i "i + 2" e bs] by (simp add: segment_bytes_def)
  moreover have "length (sub_bytes bs (i + 2) e) \<le> 65533"
    using u16_less [of ?w] \<open>length (sub_bytes bs (i + 2) e) + 2 = unat ?w\<close> by linarith
  ultimately show ?thesis using e by simp
qed

lemma skip_fill_drop:
  assumes "skip_fill bs i < length bs"
  shows "drop i bs = replicate (skip_fill bs i - i) 0xFF @ bs ! skip_fill bs i # drop (skip_fill bs i + 1) bs"
    and "bs ! skip_fill bs i \<noteq> 0xFF"
proof -
  let ?n = "length (takeWhile (\<lambda>b. b = 0xFF) (drop i bs))"
  have n: "skip_fill bs i = i + ?n" by (simp add: skip_fill_def)
  have "takeWhile (\<lambda>b. b = 0xFF) (drop i bs) = replicate ?n 0xFF"
    by (metis (mono_tags, lifting) replicate_length_same set_takeWhileD)
  moreover have "dropWhile (\<lambda>b. b = 0xFF) (drop i bs) = drop (i + ?n) bs"
    by (simp add: dropWhile_eq_drop add.commute)
  moreover have "drop (i + ?n) bs = bs ! (i + ?n) # drop (i + ?n + 1) bs"
    using assms n by (simp add: Cons_nth_drop_Suc)
  ultimately show "drop i bs = replicate (skip_fill bs i - i) 0xFF @
      bs ! skip_fill bs i # drop (skip_fill bs i + 1) bs"
    unfolding n by (metis diff_add_inverse takeWhile_dropWhile_id)
  show "bs ! skip_fill bs i \<noteq> 0xFF"
    using assms nth_length_takeWhile [of "\<lambda>b. b = 0xFF" "drop i bs"] by (simp add: n)
qed

lemma marker_drop:
  assumes "i + 1 < length bs" "bs ! i = 0xFF" "skip_fill bs (i + 1) < length bs"
  shows "drop i bs = marker_bytes (skip_fill bs (i + 1) - (i + 1)) (bs ! skip_fill bs (i + 1)) @
    drop (skip_fill bs (i + 1) + 1) bs"
proof -
  have "drop i bs = bs ! i # drop (i + 1) bs" using assms(1) by (simp add: Cons_nth_drop_Suc)
  with skip_fill_drop(1) [OF assms(3)] assms(2) show ?thesis by (simp add: marker_bytes_def)
qed

definition jpeg_account :: "metadata_policy \<Rightarrow> nat \<Rightarrow> bytes \<Rightarrow> jpeg_part \<Rightarrow> bytes" where
  "jpeg_account policy = (\<lambda>_ out i. if keep_part policy i then out @ part_bytes (tidy_part i) else out)"

lemma standalone_not_special: "is_standalone_marker m \<Longrightarrow> m \<noteq> 0xFF \<and> m \<noteq> 0xD9 \<and> m \<noteq> 0xDA"
  by (auto simp: is_standalone_marker_def)

text \<open>The step in terms of the marker it stands on.\<close>

lemma jpeg_step_at_marker:
  assumes "m \<noteq> 0xFF" "bs = pre @ marker_bytes fill m @ post"
  shows "jpeg_policy_step policy bs (length pre) out =
    (let index' = length pre + (fill + 2) in
     if m = 0xD9 then Ok (Stop (out @ [0xFF, m]))
     else if m = 0xDA then
       and_then (jpeg_segment_end bs index') (\<lambda>segment_end.
       and_then (slice bs segment_end (length bs)) (\<lambda>scan.
         if find_sub scan [0xFF, 0xD9] = None then Err not_a_jpeg
         else and_then (slice bs index' segment_end) (\<lambda>header.
           Ok (Stop (out @ [0xFF, m] @ header @ scan)))))
     else if is_standalone_marker m then Ok (Next index' (out @ [0xFF, m]))
     else
       and_then (jpeg_segment_end bs index') (\<lambda>segment_end.
       and_then (slice bs (index' + 2) segment_end) (\<lambda>payload.
       and_then (slice bs index' segment_end) (\<lambda>segment.
         Ok (Next segment_end
           (if should_keep_jpeg_segment m payload policy then out @ [0xFF, m] @ segment else out))))))"
proof -
  have "skip_fill bs (length pre + 1) = length pre + 1 + fill"
    using skip_fill_text [OF assms(1), of "pre @ [0xFF]" fill post] assms(2) by (simp add: marker_bytes_def)
  moreover have "bs ! length pre = 0xFF" "bs ! (length pre + 1 + fill) = m" "length pre + 1 + fill < length bs"
    using assms(2) by (simp_all add: marker_bytes_def nth_append)
  ultimately show ?thesis
    unfolding jpeg_policy_step_def by (simp add: access_simps Let_def)
qed

lemma jpeg_step_segment:
  assumes "m \<noteq> 0xFF" "\<not> is_standalone_marker m" "m \<noteq> 0xD9" "m \<noteq> 0xDA" "length payload \<le> 65533"
  shows "jpeg_policy_step policy (pre @ part_bytes (Segment fill m payload) @ post) (length pre) out =
    Ok (Next (length pre + length (part_bytes (Segment fill m payload)))
      (jpeg_account policy (length pre) out (Segment fill m payload)))"
proof -
  let ?bs = "pre @ part_bytes (Segment fill m payload) @ post"
  let ?pre = "pre @ marker_bytes fill m"
  have eq: "?bs = ?pre @ segment_bytes payload @ post" by simp
  have fin: "jpeg_segment_end ?bs (length pre + (fill + 2)) = Ok (length pre + (fill + 2) + (length payload + 2))"
    using jpeg_segment_end_text [OF assms(5), of ?pre post] by (simp only: eq) simp
  have seg: "sub_bytes ?bs (length pre + (fill + 2)) (length pre + (fill + 2) + (length payload + 2)) =
      segment_bytes payload"
    using sub_bytes_middle [of ?pre "segment_bytes payload" post] by (simp only: eq) simp
  have pay: "sub_bytes ?bs (length pre + (fill + 2) + 2) (length pre + (fill + 2) + (length payload + 2)) = payload"
    using sub_bytes_middle [of "?pre @ u16_to_be (of_nat (length payload + 2))" payload post]
    by (simp add: segment_bytes_def add.assoc)
  have long: "length pre + (fill + 2) + (length payload + 2) \<le> length ?bs" by simp
  have head: "?bs = pre @ marker_bytes fill m @ segment_bytes payload @ post" by simp
  show ?thesis
    using assms long
    by (simp only: jpeg_step_at_marker [OF assms(1) head] fin Let_def and_then.simps slice_Ok seg pay
        if_False simp_thms)
      (simp add: access_simps seg pay [simplified] jpeg_account_def marker_bytes_def)
qed

lemma jpeg_step_tail:
  assumes "tail_ok t"
  shows "jpeg_policy_step policy (pre @ tail_bytes t) (length pre) out =
    Ok (Stop (out @ tail_bytes (tidy_tail t)))"
proof (cases t)
  case (Eoi fill rest)
  have "pre @ tail_bytes t = pre @ marker_bytes fill 0xD9 @ rest" by (simp add: Eoi)
  from jpeg_step_at_marker [OF _ this] show ?thesis by (simp add: Eoi marker_bytes_def)
next
  case (Scan fill header scan)
  define bs where "bs = pre @ tail_bytes t"
  let ?pre = "pre @ marker_bytes fill 0xDA"
  let ?fin = "length pre + (fill + 2) + (length header + 2)"
  have ok: "length header \<le> 65533" "find_sub scan [0xFF, 0xD9] \<noteq> None" using assms Scan by simp_all
  have head: "bs = pre @ marker_bytes fill 0xDA @ segment_bytes header @ scan" by (simp add: Scan bs_def)
  have eq: "bs = ?pre @ segment_bytes header @ scan" by (simp add: Scan bs_def)
  have fin: "jpeg_segment_end bs (length pre + (fill + 2)) = Ok ?fin"
    using jpeg_segment_end_text [OF ok(1), of ?pre scan] by (simp only: eq) simp
  have seg: "sub_bytes bs (length pre + (fill + 2)) ?fin = segment_bytes header"
    using sub_bytes_middle [of ?pre "segment_bytes header" scan] by (simp only: eq) simp
  have rest: "sub_bytes bs ?fin (length bs) = scan"
    using sub_bytes_middle [of "?pre @ segment_bytes header" scan "[]"] by (simp add: eq add.assoc)
  have long: "?fin \<le> length bs" by (simp add: eq)
  have "jpeg_policy_step policy bs (length pre) out =
      Ok (Stop (out @ [0xFF, 0xDA] @ segment_bytes header @ scan))"
    unfolding jpeg_step_at_marker [OF _ head, simplified] Let_def
    using ok(2) long fin seg rest by (simp add: access_simps add.assoc)
  then show ?thesis unfolding bs_def [symmetric] by (simp add: Scan marker_bytes_def)
qed

text \<open>Nothing but a part takes a step, nothing but a tail ends the walk.\<close>

lemma jpeg_step_marker:
  assumes "jpeg_policy_step policy bs i out = Ok l"
  shows "\<exists>fill m post. m \<noteq> 0xFF \<and> i < length bs \<and> drop i bs = marker_bytes fill m @ post \<and>
    bs = take i bs @ marker_bytes fill m @ post"
proof -
  have "i + 1 < length bs" "bs ! i = 0xFF" "skip_fill bs (i + 1) < length bs"
    using assms by (auto simp: jpeg_policy_step_def Let_def split: if_splits)
  from marker_drop [OF this] skip_fill_drop(2) [OF this(3)] this(1) show ?thesis
    by (metis append_take_drop_id add_lessD1)
qed

lemma jpeg_step_cases:
  assumes "jpeg_policy_step policy bs i out = Ok l"
  obtains (Part) p where "jpeg_part_ok p" "drop i bs = part_bytes p @ drop (i + length (part_bytes p)) bs"
      "i + length (part_bytes p) \<le> length bs"
      "l = Next (i + length (part_bytes p)) (jpeg_account policy i out p)"
  | (Tail) t where "tail_ok t" "drop i bs = tail_bytes t" "l = Stop (out @ tail_bytes (tidy_tail t))"
proof -
  obtain fill m post where m: "m \<noteq> 0xFF" "i < length bs" "drop i bs = marker_bytes fill m @ post"
    "bs = take i bs @ marker_bytes fill m @ post"
    using jpeg_step_marker [OF assms] by blast
  have len: "length (take i bs) = i" using m(2) by simp
  note step = jpeg_step_at_marker [OF m(1,4), unfolded len, of policy out, unfolded assms Let_def, symmetric]
  let ?j = "i + (fill + 2)"
  have post: "drop ?j bs = post" "?j \<le> length bs"
    using arg_cong [OF m(3), of "drop (fill + 2)"] arg_cong [OF m(3), of length] m(2)
    by (simp_all add: add.commute)
  have split_at: "drop ?j bs = segment_bytes (sub_bytes bs (?j + 2) e) @ drop e bs"
    "length (sub_bytes bs (?j + 2) e) \<le> 65533" "e = i + (fill + 2 + (length (sub_bytes bs (?j + 2) e) + 2))"
    "e \<le> length bs" "sub_bytes bs ?j e = segment_bytes (sub_bytes bs (?j + 2) e)"
    if "jpeg_segment_end bs ?j = Ok e" for e
    using jpeg_segment_end_Ok [OF that] drop_sub_bytes [of ?j e bs] by auto
  consider "m = 0xD9" | "m = 0xDA" | "is_standalone_marker m" | "m \<noteq> 0xD9" "m \<noteq> 0xDA" "\<not> is_standalone_marker m"
    by blast
  then show thesis
  proof cases
    case 1
    show thesis by (rule Tail [of "Eoi fill post"]) (use 1 m(3) step in \<open>simp_all add: marker_bytes_def\<close>)
  next
    case 2
    with step obtain e where e: "jpeg_segment_end bs ?j = Ok e"
      "find_sub (drop e bs) [0xFF, 0xD9] \<noteq> None" "l = Stop (out @ [0xFF, m] @ sub_bytes bs ?j e @ drop e bs)"
      by (auto simp: sub_bytes_def split: if_splits)
    show thesis
      by (rule Tail [of "Scan fill (sub_bytes bs (?j + 2) e) (drop e bs)"])
        (use 2 e split_at [OF e(1)] m(3) post(1) in \<open>simp_all add: marker_bytes_def\<close>)
  next
    case 3
    then have "m \<noteq> 0xD9 \<and> m \<noteq> 0xDA" by (simp add: standalone_not_special)
    with 3 step have "l = Next ?j (out @ [0xFF, m])" by simp
    then show thesis using 3 m(3) post
      by (intro Part [of "Bare fill m"]) (simp_all add: marker_bytes_def jpeg_account_def)
  next
    case 4
    with step obtain e where e: "jpeg_segment_end bs ?j = Ok e"
      "l = Next e (if should_keep_jpeg_segment m (sub_bytes bs (?j + 2) e) policy
        then out @ [0xFF, m] @ sub_bytes bs ?j e else out)"
      by auto
    note s = split_at [OF e(1)]
    have end_at: "i + length (part_bytes (Segment fill m (sub_bytes bs (?j + 2) e))) = e" using s(3) by simp
    show thesis
      by (rule Part [of "Segment fill m (sub_bytes bs (?j + 2) e)"], unfold end_at)
        (use 4 m(1,3) e(2) post(1) s in \<open>simp_all add: marker_bytes_def jpeg_account_def\<close>)
  qed
qed

interpretation jpeg_policy: item_grammar "jpeg_policy_step policy" part_bytes jpeg_part_ok tail_bytes tail_ok
  "jpeg_account policy" "\<lambda>out t. out @ tail_bytes (tidy_tail t)" "\<lambda>_. True" "\<lambda>_. True" for policy
proof
  fix bs and o' o'' :: nat and out out' :: bytes
  assume step: "jpeg_policy_step policy bs o' out = Ok (Next o'' out')"
  have "part_bytes p \<noteq> []" for p by (cases p) (simp_all add: marker_bytes_def)
  with jpeg_step_marker [OF step] show "o' < o'' \<and> o' < length bs"
    by (cases rule: jpeg_step_cases [OF step]) auto
  show "\<exists>i. jpeg_part_ok i \<and> drop o' bs = part_bytes i @ drop o'' bs \<and> o'' = o' + length (part_bytes i) \<and>
      o'' \<le> length bs \<and> out' = jpeg_account policy o' out i"
    by (cases rule: jpeg_step_cases [OF step]) auto
next
  fix i pre post and out :: bytes
  assume ok: "jpeg_part_ok i"
  show "jpeg_policy_step policy (pre @ part_bytes i @ post) (length pre) out =
      Ok (Next (length pre + length (part_bytes i)) (jpeg_account policy (length pre) out i))"
  proof (cases i)
    case (Bare fill m)
    with ok have m: "is_standalone_marker m" "m \<noteq> 0xFF" "m \<noteq> 0xD9" "m \<noteq> 0xDA"
      using standalone_not_special by auto
    have "pre @ part_bytes i @ post = pre @ marker_bytes fill m @ post" by (simp add: Bare)
    from jpeg_step_at_marker [OF m(2) this] m show ?thesis
      by (simp add: Bare jpeg_account_def marker_bytes_def)
  qed (use ok jpeg_step_segment in auto)
next
  fix t pre and out :: bytes
  assume "tail_ok t"
  then show "jpeg_policy_step policy (pre @ tail_bytes t) (length pre) out =
      Ok (Stop (out @ tail_bytes (tidy_tail t)))" by (rule jpeg_step_tail)
next
  fix bs and o' :: nat and out r :: bytes
  assume step: "jpeg_policy_step policy bs o' out = Ok (Stop r)"
  show "\<exists>t. tail_ok t \<and> drop o' bs = tail_bytes t \<and> r = out @ tail_bytes (tidy_tail t)"
    by (cases rule: jpeg_step_cases [OF step]) auto
qed

definition jpeg_kept :: "metadata_policy \<Rightarrow> jpeg_part list \<Rightarrow> jpeg_part list" where
  "jpeg_kept policy parts = map tidy_part (filter (keep_part policy) parts)"

lemma length_part_bytes: "2 \<le> length (part_bytes p)"
  by (cases p) simp_all

lemma length_tail_bytes: "2 \<le> length (tail_bytes t)"
  by (cases t) simp_all

lemma length_jpeg_bytes: "4 \<le> length (jpeg_bytes parts t)"
  using length_tail_bytes [of t] by (simp add: jpeg_bytes_def)

lemma optimize_jpeg_iff:
  "optimize_jpeg_bytes_losslessly bs policy = Ok r \<longleftrightarrow>
     (\<exists>parts t. list_all jpeg_part_ok parts \<and> tail_ok t \<and> bs = jpeg_bytes parts t \<and>
       r = jpeg_bytes (jpeg_kept policy parts) (tidy_tail t))" (is "?L \<longleftrightarrow> ?R")
proof -
  have run: "run_items (jpeg_account policy) part_bytes 2 out parts =
      out @ concat (map part_bytes (jpeg_kept policy parts))" for out parts
    unfolding jpeg_account_def run_items_append by (simp add: jpeg_kept_def comp_def)
  have start: "?L \<longleftrightarrow> 4 \<le> length bs \<and> take 2 bs = [0xFF, 0xD8] \<and>
      walk (jpeg_policy_step policy bs) (length bs) 2 [0xFF, 0xD8] = Ok r"
  proof (cases "4 \<le> length bs")
    case True
    then obtain a b rest where "bs = a # b # rest" by (cases bs; cases "tl bs") auto
    with True show ?thesis
      by (auto simp: optimize_jpeg_bytes_losslessly_def access_simps sub_bytes_def)
  qed (simp add: optimize_jpeg_bytes_losslessly_def)
  have whole: "take 2 bs = [0xFF, 0xD8] \<and> drop 2 bs = xs \<longleftrightarrow> bs = [0xFF, 0xD8] @ xs" for xs :: bytes
    by (metis append_take_drop_id append_eq_conv_conj length_Cons list.size(3) numeral_2_eq_2)
  show ?thesis
  proof
    assume ?L
    with start jpeg_policy.walk_iff [where r = r and offset = 2 and bs = bs and policy = policy] run obtain parts t where
      "list_all jpeg_part_ok parts" "tail_ok t" "drop 2 bs = concat (map part_bytes parts) @ tail_bytes t"
      "r = ([0xFF, 0xD8] @ concat (map part_bytes (jpeg_kept policy parts))) @ tail_bytes (tidy_tail t)"
      by auto
    with start \<open>?L\<close> whole show ?R by (auto simp: jpeg_bytes_def)
  next
    assume ?R
    then obtain parts t where *: "list_all jpeg_part_ok parts" "tail_ok t" "bs = jpeg_bytes parts t"
      "r = jpeg_bytes (jpeg_kept policy parts) (tidy_tail t)" by blast
    have bs: "[0xFF, 0xD8] @ concat (map part_bytes parts) @ tail_bytes t = bs" and two: "length [0xFF :: u8, 0xD8] = 2"
      using *(3) by (simp_all add: jpeg_bytes_def)
    have "walk (jpeg_policy_step policy bs) (length bs) 2 [0xFF, 0xD8] =
        Ok (run_items (jpeg_account policy) part_bytes 2 [0xFF, 0xD8] parts @ tail_bytes (tidy_tail t))"
      using jpeg_policy.walk_items [OF *(1,2), where policy = policy and pre = "[0xFF, 0xD8]"]
      by (simp only: bs two)
    then have "walk (jpeg_policy_step policy bs) (length bs) 2 [0xFF, 0xD8] = Ok r"
      by (simp add: run *(4) jpeg_bytes_def)
    then show ?L unfolding start using *(3) length_jpeg_bytes [of parts t] by (simp add: jpeg_bytes_def)
  qed
qed

lemma jpeg_segment_end_no_panic [simp]: "no_panic (jpeg_segment_end bs i)"
  by (simp add: jpeg_segment_end_def Let_def)

lemma optimize_jpeg_no_panic: "no_panic (optimize_jpeg_bytes_losslessly bs policy)"
proof -
  have "no_panic (jpeg_policy_step policy bs i out)" for i out
    by (auto simp: jpeg_policy_step_def Let_def dest: jpeg_segment_end_Ok)
  then have "no_panic (walk (jpeg_policy_step policy bs) (length bs) 2 out)" for out
    by (intro byte_walk.walk_no_panic [OF jpeg_policy.walks])
  moreover have "\<not> length bs < 4 \<Longrightarrow> bs \<noteq> []" by auto
  ultimately show ?thesis by (auto simp: optimize_jpeg_bytes_losslessly_def)
qed

lemma tidy_ok [simp]: "jpeg_part_ok (tidy_part p) \<longleftrightarrow> jpeg_part_ok p" "tail_ok (tidy_tail t) \<longleftrightarrow> tail_ok t"
  "keep_part policy (tidy_part p) \<longleftrightarrow> keep_part policy p" "tidy_part (tidy_part p) = tidy_part p"
  "tidy_tail (tidy_tail t) = tidy_tail t"
  by ((cases p; simp), (cases t; simp), (cases p; simp), (cases p; simp), (cases t; simp))

lemma jpeg_kept_ok: "list_all jpeg_part_ok parts \<Longrightarrow> list_all jpeg_part_ok (jpeg_kept policy parts)"
  by (auto simp: jpeg_kept_def list_all_iff)

lemma jpeg_kept_twice: "jpeg_kept policy (jpeg_kept policy parts) = jpeg_kept policy parts"
  by (induction parts) (auto simp: jpeg_kept_def)

lemma length_tidy: "length (part_bytes (tidy_part p)) \<le> length (part_bytes p)"
  "length (tail_bytes (tidy_tail t)) \<le> length (tail_bytes t)"
  by ((cases p; simp), (cases t; simp))

lemma length_jpeg_kept:
  "length (concat (map part_bytes (jpeg_kept policy parts))) \<le> length (concat (map part_bytes parts))"
proof (induction parts)
  case (Cons p parts)
  then show ?case using length_tidy(1) [of p] by (simp add: jpeg_kept_def)
qed (simp add: jpeg_kept_def)

lemma length_after_rewrite:
  assumes "optimize_jpeg_bytes_losslessly bs policy = Ok r"
  shows "length r \<le> length bs"
proof -
  obtain parts t where "bs = jpeg_bytes parts t" "r = jpeg_bytes (jpeg_kept policy parts) (tidy_tail t)"
    using assms unfolding optimize_jpeg_iff by blast
  then show ?thesis
    using length_jpeg_kept [of policy parts] length_tidy(2) [of t] by (simp add: jpeg_bytes_def)
qed

section \<open>What a kept JPEG says of its orientation\<close>

fun first_exif :: "jpeg_part list \<Rightarrow> bytes option" where
  "first_exif [] = None"
| "first_exif (Bare fill m # ps) = first_exif ps"
| "first_exif (Segment fill m payload # ps) =
     (if m = 0xE1 \<and> strip_prefix payload exif_prefix \<noteq> None then strip_prefix payload exif_prefix
      else first_exif ps)"

lemma jpeg_exif_step_at_marker:
  assumes "m \<noteq> 0xFF" "bs = pre @ marker_bytes fill m @ post"
  shows "jpeg_exif_step bs (length pre) () =
    (let o2 = length pre + (fill + 2) in
     if m = 0xD9 \<or> m = 0xDA then Ok (Stop None)
     else if is_standalone_marker m then Ok (Next o2 ())
     else
       or_none (Option.bind (get_slice bs o2 (o2 + 2)) (\<lambda>s. ok_of (read_u16_be s))) (\<lambda>w.
       let len = unat w in
       if len < 2 \<or> length bs < o2 + len then Ok (Stop None)
       else if m = 0xE1 then
         and_then (slice bs (o2 + 2) (o2 + len)) (\<lambda>s.
           case strip_prefix s exif_prefix of
             Some payload \<Rightarrow> Ok (Stop (Some payload))
           | None \<Rightarrow> Ok (Next (o2 + len) ()))
       else Ok (Next (o2 + len) ())))"
proof -
  have "skip_fill bs (length pre) = length pre + (1 + fill)"
    using skip_fill_text [OF assms(1), of pre "1 + fill" post] assms(2) by (simp add: marker_bytes_def)
  moreover have "bs ! length pre = 0xFF" "bs ! (length pre + (1 + fill)) = m" "length pre + (1 + fill) < length bs"
    using assms(2) by (simp_all add: marker_bytes_def nth_append)
  ultimately show ?thesis
    unfolding jpeg_exif_step_def by (simp add: access_simps Let_def get_byte_def)
qed

lemma jpeg_exif_step_segment:
  assumes "jpeg_part_ok (Segment fill m payload)" "bs = pre @ part_bytes (Segment fill m payload) @ post"
  shows "jpeg_exif_step bs (length pre) () =
    (if m = 0xE1 \<and> strip_prefix payload exif_prefix \<noteq> None
     then Ok (Stop (strip_prefix payload exif_prefix))
     else Ok (Next (length pre + length (part_bytes (Segment fill m payload))) ()))"
proof -
  let ?o2 = "length pre + (fill + 2)" and ?n = "length payload + 2"
  have head: "bs = pre @ marker_bytes fill m @ segment_bytes payload @ post" using assms(2) by simp
  have cut: "bs = ((pre @ marker_bytes fill m) @ u16_to_be (of_nat ?n)) @ payload @ post"
    using assms(2) by (simp add: segment_bytes_def)
  have len: "get_slice bs ?o2 (?o2 + 2) = Some (u16_to_be (of_nat ?n))"
    using sub_bytes_middle [of "pre @ marker_bytes fill m" "u16_to_be (of_nat ?n)" "payload @ post"]
    by (simp add: get_slice_def cut)
  have rd: "ok_of (read_u16_be (u16_to_be (of_nat ?n))) = Some (of_nat ?n)"
    by (simp add: u16_to_be_def u16_be_roundtrip ok_of_def)
  have n: "unat (of_nat ?n :: u16) = ?n" using assms(1) by (intro unat_of_u16_length) simp
  have pay: "sub_bytes bs (?o2 + 2) (?o2 + ?n) = payload" "?o2 + ?n \<le> length bs"
    using sub_bytes_middle [of "(pre @ marker_bytes fill m) @ u16_to_be (of_nat ?n)" payload post]
    by (simp_all add: cut add.assoc)
  have m: "m \<noteq> 0xFF" "m \<noteq> 0xD9" "m \<noteq> 0xDA" "\<not> is_standalone_marker m" using assms(1) by simp_all
  have "jpeg_exif_step bs (length pre) () =
      (if m = 0xE1 then
         (case strip_prefix payload exif_prefix of
            Some p \<Rightarrow> Ok (Stop (Some p)) | None \<Rightarrow> Ok (Next (?o2 + ?n) ()))
       else Ok (Next (?o2 + ?n) ()))"
    unfolding jpeg_exif_step_at_marker [OF m(1) head] Let_def len rd bind.bind_lunit or_none_simps n
    using m pay by (simp only: slice_Ok and_then.simps if_False if_True simp_thms) (simp add: access_simps)
  then show ?thesis by (auto simp: add.assoc split: option.splits)
qed

lemma jpeg_exif_parts:
  "list_all jpeg_part_ok parts \<Longrightarrow> tail_ok t \<Longrightarrow>
   bs = pre @ concat (map part_bytes parts) @ tail_bytes t \<Longrightarrow>
   walk (jpeg_exif_step bs) (length bs) (length pre) () = Ok (first_exif parts)"
proof (induction parts arbitrary: pre)
  case Nil
  obtain fill m post where m: "tail_bytes t = marker_bytes fill m @ post" "m = 0xD9 \<or> m = 0xDA"
    by (cases t) auto
  then have "m \<noteq> 0xFF" "bs = pre @ marker_bytes fill m @ post" using Nil.prems(3) by auto
  from jpeg_exif_step_at_marker [OF this] m(2) show ?case by (simp add: jpeg_exif.walk_Stop)
next
  case (Cons p parts)
  have IH: "walk (jpeg_exif_step bs) (length bs) (length (pre @ part_bytes p)) () = Ok (first_exif parts)"
    by (rule Cons.IH) (use Cons.prems in simp_all)
  show ?case
  proof (cases p)
    case (Bare fill m)
    with Cons.prems have m: "is_standalone_marker m" by simp
    then have "m \<noteq> 0xFF" "m \<noteq> 0xD9" "m \<noteq> 0xDA" by (simp_all add: standalone_not_special)
    moreover have "bs = pre @ marker_bytes fill m @ concat (map part_bytes parts) @ tail_bytes t"
      using Cons.prems(3) by (simp add: Bare)
    ultimately have "jpeg_exif_step bs (length pre) () = Ok (Next (length (pre @ part_bytes p)) ())"
      using jpeg_exif_step_at_marker [of m bs pre fill] m by (simp add: Bare)
    from jpeg_exif.walk_Next [OF this] IH show ?thesis by (simp add: Bare)
  next
    case (Segment fill m payload)
    have "jpeg_part_ok (Segment fill m payload)" using Cons.prems(1) Segment by simp
    moreover have "bs = pre @ part_bytes (Segment fill m payload) @ concat (map part_bytes parts) @ tail_bytes t"
      using Cons.prems(3) by (simp add: Segment)
    ultimately have step: "jpeg_exif_step bs (length pre) () =
        (if m = 0xE1 \<and> strip_prefix payload exif_prefix \<noteq> None
         then Ok (Stop (strip_prefix payload exif_prefix))
         else Ok (Next (length (pre @ part_bytes p)) ()))"
      unfolding Segment length_append by (rule jpeg_exif_step_segment)
    show ?thesis
    proof (cases "m = 0xE1 \<and> strip_prefix payload exif_prefix \<noteq> None")
      case True
      with step show ?thesis by (simp add: jpeg_exif.walk_Stop Segment)
    next
      case False
      with step have "jpeg_exif_step bs (length pre) () = Ok (Next (length (pre @ part_bytes p)) ())" by simp
      from jpeg_exif.walk_Next [OF this] IH False show ?thesis by (auto simp: Segment)
    qed
  qed
qed

lemma jpeg_exif_payload_bytes:
  "list_all jpeg_part_ok parts \<Longrightarrow> tail_ok t \<Longrightarrow> jpeg_exif_payload (jpeg_bytes parts t) = Ok (first_exif parts)"
  using jpeg_exif_parts [of parts t "jpeg_bytes parts t" "[0xFF, 0xD8]"]
  by (simp add: jpeg_exif_payload_def jpeg_bytes_def numeral_2_eq_2)

text \<open>Asked of the same function that does the copying, as in the code.\<close>

definition metadata_policy_retains_exif :: "metadata_policy \<Rightarrow> bool" where
  "metadata_policy_retains_exif policy = should_keep_jpeg_segment 0xE1 exif_prefix policy"

lemma retains_exif: "metadata_policy_retains_exif policy \<longleftrightarrow> policy = KeepAll \<or> policy = PreserveExif"
  by (cases policy)
    (simp_all add: metadata_policy_retains_exif_def should_keep_jpeg_segment_def exif_prefix_def)

lemma first_exif_kept:
  "first_exif (jpeg_kept policy parts) = (if metadata_policy_retains_exif policy then first_exif parts else None)"
proof (induction parts)
  case (Cons p parts)
  show ?case
  proof (cases p)
    case (Segment fill m payload)
    have "strip_prefix payload exif_prefix \<noteq> None \<longleftrightarrow> starts_with payload exif_prefix"
      by (simp add: strip_prefix_def)
    with Cons Segment show ?thesis
      by (cases policy) (auto simp: jpeg_kept_def retains_exif should_keep_jpeg_segment_def)
  qed (use Cons in \<open>simp add: jpeg_kept_def\<close>)
qed (simp add: jpeg_kept_def)

lemma orientation_after_rewrite:
  assumes "optimize_jpeg_bytes_losslessly bs policy = Ok r"
  shows "exif_orientation X Jpeg r =
    (if metadata_policy_retains_exif policy then exif_orientation X Jpeg bs else Ok None)"
proof -
  obtain parts t where *: "list_all jpeg_part_ok parts" "tail_ok t" "bs = jpeg_bytes parts t"
    "r = jpeg_bytes (jpeg_kept policy parts) (tidy_tail t)"
    using assms unfolding optimize_jpeg_iff by blast
  have "jpeg_exif_payload r = Ok (first_exif (jpeg_kept policy parts))"
    unfolding *(4) by (rule jpeg_exif_payload_bytes) (simp_all add: jpeg_kept_ok * (1,2))
  moreover have "jpeg_exif_payload bs = Ok (first_exif parts)"
    unfolding *(3) by (rule jpeg_exif_payload_bytes) (simp_all add: *(1,2))
  ultimately show ?thesis by (simp add: exif_orientation_def first_exif_kept)
qed

section \<open>What the rewriter promises\<close>

text \<open>
  C22. The JPEG rewriter is a filter on segments. It never panics; it accepts exactly the files
  that are, behind the start marker, marker segments up to an end marker or a scan that has one;
  its answer is the file of the segments the policy keeps, in order, without fill bytes.
\<close>

theorem jpeg_rewrite_is_filter:
  "optimize_jpeg_bytes_losslessly bs policy \<noteq> Panic \<and>
   ((\<exists>r. optimize_jpeg_bytes_losslessly bs policy = Ok r) \<longleftrightarrow>
     (\<exists>parts t. list_all jpeg_part_ok parts \<and> tail_ok t \<and> bs = jpeg_bytes parts t)) \<and>
   (list_all jpeg_part_ok parts \<and> tail_ok t \<longrightarrow>
     optimize_jpeg_bytes_losslessly (jpeg_bytes parts t) policy =
       Ok (jpeg_bytes (map tidy_part (filter (keep_part policy) parts)) (tidy_tail t)))"
proof -
  have "optimize_jpeg_bytes_losslessly bs policy \<noteq> Panic"
    using optimize_jpeg_no_panic [of bs policy] by (simp add: no_panic_def)
  moreover have "(\<exists>r. optimize_jpeg_bytes_losslessly bs policy = Ok r) \<longleftrightarrow>
      (\<exists>parts t. list_all jpeg_part_ok parts \<and> tail_ok t \<and> bs = jpeg_bytes parts t)"
    unfolding optimize_jpeg_iff by blast
  moreover have "optimize_jpeg_bytes_losslessly (jpeg_bytes parts t) policy =
      Ok (jpeg_bytes (map tidy_part (filter (keep_part policy) parts)) (tidy_tail t))"
    if "list_all jpeg_part_ok parts \<and> tail_ok t"
    unfolding optimize_jpeg_iff using that by (intro exI [of _ parts] exI [of _ t]) (simp add: jpeg_kept_def)
  ultimately show ?thesis by blast
qed

theorem jpeg_rewrite_is_filter_witness:
  "optimize_jpeg_bytes_losslessly
     (jpeg_bytes [Segment 2 0xE1 (exif_prefix @ [7]), Bare 0 1, Segment 0 0xE2 [9], Segment 1 0xDB [5]]
       (Scan 0 [1] [2, 0xFF, 0xD9])) PreserveExif =
   Ok (jpeg_bytes [Segment 0 0xE1 (exif_prefix @ [7]), Bare 0 1, Segment 0 0xDB [5]] (Scan 0 [1] [2, 0xFF, 0xD9]))"
proof -
  let ?parts = "[Segment 2 0xE1 (exif_prefix @ [7]), Bare 0 1, Segment 0 0xE2 [9], Segment 1 0xDB [5]]"
  let ?t = "Scan 0 [1] [2, 0xFF, 0xD9 :: u8]"
  have ok: "list_all jpeg_part_ok ?parts \<and> tail_ok ?t"
    by (simp add: is_standalone_marker_def exif_prefix_def)
  have kept: "map tidy_part (filter (keep_part PreserveExif) ?parts) =
      [Segment 0 0xE1 (exif_prefix @ [7]), Bare 0 1, Segment 0 0xDB [5]]" by code_simp
  show ?thesis
    using mp [OF conjunct2 [OF conjunct2 [OF jpeg_rewrite_is_filter [where bs = "[]"]]] ok, of PreserveExif]
    unfolding kept tidy_tail.simps .
qed

text \<open>
  C23. A JPEG the rewriter answers is no longer than the input, the rewriter leaves it as it is,
  and the orientation the pipeline reads from it is the input's where the policy keeps Exif and
  none where it does not.
\<close>

theorem jpeg_rewrite_settles:
  assumes "optimize_jpeg_bytes_losslessly bs policy = Ok r"
  shows "optimize_jpeg_bytes_losslessly r policy = Ok r \<and> length r \<le> length bs \<and>
    exif_orientation X Jpeg r =
      (if metadata_policy_retains_exif policy then exif_orientation X Jpeg bs else Ok None)"
proof -
  obtain parts t where *: "list_all jpeg_part_ok parts" "tail_ok t" "bs = jpeg_bytes parts t"
    "r = jpeg_bytes (jpeg_kept policy parts) (tidy_tail t)"
    using assms unfolding optimize_jpeg_iff by blast
  have "optimize_jpeg_bytes_losslessly r policy = Ok r"
    unfolding optimize_jpeg_iff
    using * by (intro exI [of _ "jpeg_kept policy parts"] exI [of _ "tidy_tail t"])
      (simp add: jpeg_kept_ok jpeg_kept_twice)
  then show ?thesis using length_after_rewrite [OF assms] orientation_after_rewrite [OF assms] by blast
qed

definition tagged_jpeg :: bytes where
  "tagged_jpeg = [0xFF, 0xD8] @ [0xFF, 0xFF, 0xE1, 0, 9] @ exif_prefix @ [0] @ [0xFF, 0xE2, 0, 3, 1, 0xFF, 0xD9, 7]"

lemma tagged_jpeg_kept:
  "optimize_jpeg_bytes_losslessly tagged_jpeg PreserveExif =
     Ok ([0xFF, 0xD8, 0xFF, 0xE1, 0, 9] @ exif_prefix @ [0, 0xFF, 0xD9])"
  by code_simp

theorem jpeg_rewrite_settles_witness:
  "exif_orientation exif_says_six Jpeg ([0xFF, 0xD8, 0xFF, 0xE1, 0, 9] @ exif_prefix @ [0, 0xFF, 0xD9]) = Ok (Some 6)"
proof -
  have "exif_orientation exif_says_six Jpeg tagged_jpeg = Ok (Some 6)" by code_simp
  then show ?thesis
    using jpeg_rewrite_settles [OF tagged_jpeg_kept, of exif_says_six] by (simp add: retains_exif)
qed

end
