(* ===== verification/Png_Policy.thy ===== *)
theory Png_Policy
  imports Jpeg_Policy
begin

text \<open>
  The PNG rewriter of \<open>src/codecs/raster.rs\<close>: the chunks truss treats as metadata, and the copy
  of a file without those a policy removes. It answers for exactly the files whose chunks can be
  walked up to \<open>IEND\<close>, with the chunks kept.
\<close>

unbundle bit_operations_syntax

section \<open>PNG\<close>

definition METADATA_CHUNKS :: "bytes list" where
  "METADATA_CHUNKS = map ascii [''iCCP'', ''eXIf'', ''tEXt'', ''zTXt'', ''iTXt'']"

definition png_kept_chunk :: "metadata_policy \<Rightarrow> bytes" where
  "png_kept_chunk policy = (case policy of
     PreserveIcc \<Rightarrow> ascii ''iCCP'' | PreserveExif \<Rightarrow> ascii ''eXIf''
   | StripAll \<Rightarrow> [0, 0, 0, 0] | KeepAll \<Rightarrow> [0, 0, 0, 0])"

definition png_keeps :: "metadata_policy \<Rightarrow> bytes \<Rightarrow> bool" where
  "png_keeps policy chunk_type \<longleftrightarrow>
     chunk_type = png_kept_chunk policy \<or> \<not> list_ex (\<lambda>c. c = chunk_type) METADATA_CHUNKS"

definition png_policy_step ::
  "metadata_policy \<Rightarrow> bytes \<Rightarrow> nat \<Rightarrow> bytes \<Rightarrow> (transform_error, (bytes, bytes option) loop) outcome" where
  "png_policy_step policy bs offset kept_bytes =
     (if length bs < offset + 8 then Ok (Stop None)
      else
        or_none (Option.bind (get_slice bs offset (offset + 4)) (\<lambda>s. ok_of (read_u32_be s))) (\<lambda>len.
        or_none (get_slice bs (offset + 4) (offset + 8)) (\<lambda>chunk_type.
        or_none (Option.bind (checked_add offset 12) (\<lambda>n. checked_add n (unat len))) (\<lambda>fin.
        or_none (get_slice bs offset fin) (\<lambda>chunk.
          let kept' = (if png_keeps policy chunk_type then kept_bytes @ chunk else kept_bytes) in
          if chunk_type = ascii ''IEND'' then Ok (Stop (Some kept'))
          else Ok (Next fin kept'))))))"

definition png_bytes_satisfying_metadata_policy ::
  "bytes \<Rightarrow> metadata_policy \<Rightarrow> (transform_error, bytes option) outcome" where
  "png_bytes_satisfying_metadata_policy bs policy =
     (if policy = KeepAll then Ok (Some bs)
      else case get_slice bs 0 8 of
          None \<Rightarrow> Ok None
        | Some signature \<Rightarrow> walk (png_policy_step policy bs) (length bs) 8 signature)"

text \<open>A PNG file: the signature, chunks up to the one that ends the image, and what follows it.\<close>

datatype png_chunk = Chunk (chunk_type: bytes) (chunk_data: bytes) (chunk_crc: bytes)

definition chunk_bytes :: "png_chunk \<Rightarrow> bytes" where
  "chunk_bytes c = u32_to_be (of_nat (length (chunk_data c))) @ chunk_type c @ chunk_data c @ chunk_crc c"

definition chunk_ok :: "png_chunk \<Rightarrow> bool" where
  "chunk_ok c \<longleftrightarrow> length (chunk_type c) = 4 \<and> length (chunk_crc c) = 4 \<and> length (chunk_data c) < 2 ^ 32"

definition png_inner :: "png_chunk \<Rightarrow> bool" where
  "png_inner c \<longleftrightarrow> chunk_ok c \<and> chunk_type c \<noteq> ascii ''IEND''"

definition png_end :: "png_chunk \<times> bytes \<Rightarrow> bool" where
  "png_end t \<longleftrightarrow> chunk_ok (fst t) \<and> chunk_type (fst t) = ascii ''IEND''"

definition png_end_bytes :: "png_chunk \<times> bytes \<Rightarrow> bytes" where
  "png_end_bytes t = chunk_bytes (fst t) @ snd t"

definition png_bytes :: "bytes \<Rightarrow> png_chunk list \<Rightarrow> bytes \<Rightarrow> bytes" where
  "png_bytes signature chunks rest = signature @ concat (map chunk_bytes chunks) @ rest"

definition png_account :: "metadata_policy \<Rightarrow> nat \<Rightarrow> bytes \<Rightarrow> png_chunk \<Rightarrow> bytes" where
  "png_account policy = (\<lambda>_ out c. if png_keeps policy (chunk_type c) then out @ chunk_bytes c else out)"

text \<open>The step on a chunk.\<close>

lemma png_step_chunk:
  assumes "chunk_ok c" "bs = pre @ chunk_bytes c @ post" "length bs \<le> usize_max"
  shows "png_policy_step policy bs (length pre) out =
    (if chunk_type c = ascii ''IEND'' then Ok (Stop (Some (png_account policy (length pre) out c)))
     else Ok (Next (length pre + length (chunk_bytes c)) (png_account policy (length pre) out c)))"
proof -
  let ?n = "length (chunk_data c)"
  have len: "length (chunk_type c) = 4" "length (chunk_crc c) = 4" using assms(1) by (simp_all add: chunk_ok_def)
  have total: "length (chunk_bytes c) = 12 + ?n" by (simp add: chunk_bytes_def len)
  have n: "unat (of_nat ?n :: u32) = ?n" using assms(1) by (intro unat_of_u32_length) (simp add: chunk_ok_def)
  have "get_slice bs (length pre) (length pre + 4) = Some (u32_to_be (of_nat ?n))"
    by (rule get_slice_at [of _ pre _ "chunk_type c @ chunk_data c @ chunk_crc c @ post"])
      (simp_all add: assms(2) chunk_bytes_def)
  moreover have "get_slice bs (length pre + 4) (length pre + 8) = Some (chunk_type c)"
    by (rule get_slice_at [of _ "pre @ u32_to_be (of_nat ?n)" _ "chunk_data c @ chunk_crc c @ post"])
      (simp_all add: assms(2) chunk_bytes_def len)
  moreover have "get_slice bs (length pre) (length pre + 12 + ?n) = Some (chunk_bytes c)"
    by (rule get_slice_at [of _ pre _ post]) (simp_all add: assms(2) total)
  moreover have "length pre + 12 + ?n \<le> usize_max" "\<not> length bs < length pre + 8"
    using assms(2,3) total by simp_all
  ultimately show ?thesis
    by (simp add: png_policy_step_def png_account_def Let_def u32_to_be_read n total checked_add_def add.assoc)
qed

lemma png_step_read:
  assumes "png_policy_step policy bs i out = Ok l" "l \<noteq> Stop None"
  obtains c where "chunk_ok c" "i + length (chunk_bytes c) \<le> length bs"
    "drop i bs = chunk_bytes c @ drop (i + length (chunk_bytes c)) bs"
    "l = (if chunk_type c = ascii ''IEND'' then Stop (Some (png_account policy i out c))
      else Next (i + length (chunk_bytes c)) (png_account policy i out c))"
proof -
  obtain w where w: "read_u32_be (sub_bytes bs i (i + 4)) = Ok w" and
    fin: "i + 12 + unat w \<le> length bs" "i + 8 \<le> length bs" and
    l: "l = (let kept' = (if png_keeps policy (sub_bytes bs (i + 4) (i + 8))
        then out @ sub_bytes bs i (i + 12 + unat w) else out) in
      if sub_bytes bs (i + 4) (i + 8) = ascii ''IEND'' then Stop (Some kept')
      else Next (i + 12 + unat w) kept')"
    using assms
    by (auto simp: png_policy_step_def or_none_def get_slice_eq_Some Let_def add.assoc
        split: if_splits option.splits bind_splits)
  define c where "c = Chunk (sub_bytes bs (i + 4) (i + 8)) (sub_bytes bs (i + 8) (i + 8 + unat w))
    (sub_bytes bs (i + 8 + unat w) (i + 12 + unat w))"
  have data: "length (chunk_data c) = unat w" using fin by (simp add: c_def)
  have ok: "chunk_ok c" using fin data u32_less [of w] by (simp add: chunk_ok_def c_def)
  have "sub_bytes bs i (i + 12 + unat w) = sub_bytes bs i (i + 4) @ sub_bytes bs (i + 4) (i + 8) @
      sub_bytes bs (i + 8) (i + 8 + unat w) @ sub_bytes bs (i + 8 + unat w) (i + 12 + unat w)"
    using fin sub_bytes_split [of i "i + 4" "i + 12 + unat w" bs]
      sub_bytes_split [of "i + 4" "i + 8" "i + 12 + unat w" bs]
      sub_bytes_split [of "i + 8" "i + 8 + unat w" "i + 12 + unat w" bs] by simp
  then have bytes: "chunk_bytes c = sub_bytes bs i (i + 12 + unat w)"
    unfolding chunk_bytes_def data of_unat_u32 read_u32_be_to [OF w] by (simp add: c_def)
  then have len: "i + length (chunk_bytes c) = i + 12 + unat w" using fin by simp
  have type: "chunk_type c = sub_bytes bs (i + 4) (i + 8)" by (simp add: c_def)
  show thesis
    by (rule that [OF ok], unfold len bytes png_account_def type)
      (use fin drop_sub_bytes [of i "i + 12 + unat w" bs] l in \<open>simp_all add: Let_def add.assoc\<close>)
qed

interpretation png_policy: item_grammar "png_policy_step policy" chunk_bytes png_inner png_end_bytes png_end
  "png_account policy" "\<lambda>out t. Some (png_account policy 0 out (fst t))" "\<lambda>bs. length bs \<le> usize_max"
  "\<lambda>r. r \<noteq> None" for policy
proof
  fix bs and o' o'' :: nat and out out' :: bytes
  assume step: "png_policy_step policy bs o' out = Ok (Next o'' out')"
  from png_step_read [OF step] obtain c where c: "chunk_ok c" "o' + length (chunk_bytes c) \<le> length bs"
    "drop o' bs = chunk_bytes c @ drop (o' + length (chunk_bytes c)) bs"
    "Next o'' out' = (if chunk_type c = ascii ''IEND'' then Stop (Some (png_account policy o' out c))
      else Next (o' + length (chunk_bytes c)) (png_account policy o' out c))"
    by blast
  have "4 \<le> length (chunk_bytes c)" by (simp add: chunk_bytes_def)
  with c show "o' < o'' \<and> o' < length bs" by (auto split: if_splits)
  show "\<exists>i. png_inner i \<and> drop o' bs = chunk_bytes i @ drop o'' bs \<and> o'' = o' + length (chunk_bytes i) \<and>
      o'' \<le> length bs \<and> out' = png_account policy o' out i"
    using c by (intro exI [of _ c]) (auto simp: png_inner_def split: if_splits)
next
  fix i pre post and out :: bytes
  assume "png_inner i" "length (pre @ chunk_bytes i @ post) \<le> usize_max"
  then show "png_policy_step policy (pre @ chunk_bytes i @ post) (length pre) out =
      Ok (Next (length pre + length (chunk_bytes i)) (png_account policy (length pre) out i))"
    using png_step_chunk [of i _ pre post policy out] by (simp add: png_inner_def)
next
  fix t pre and out :: bytes
  assume "png_end t" "length (pre @ png_end_bytes t) \<le> usize_max"
  then show "png_policy_step policy (pre @ png_end_bytes t) (length pre) out =
      Ok (Stop (Some (png_account policy 0 out (fst t))))"
    using png_step_chunk [of "fst t" _ pre "snd t" policy out]
    by (simp add: png_end_def png_end_bytes_def png_account_def)
next
  fix bs and o' :: nat and out and r :: "bytes option"
  assume step: "png_policy_step policy bs o' out = Ok (Stop r)" and "r \<noteq> None"
  with png_step_read [OF step] obtain c where c: "chunk_ok c"
    "drop o' bs = chunk_bytes c @ drop (o' + length (chunk_bytes c)) bs"
    "Stop r = (if chunk_type c = ascii ''IEND'' then Stop (Some (png_account policy o' out c))
      else Next (o' + length (chunk_bytes c)) (png_account policy o' out c))"
    by blast
  then show "\<exists>t. png_end t \<and> drop o' bs = png_end_bytes t \<and> r = Some (png_account policy 0 out (fst t))"
    by (intro exI [of _ "(c, drop (o' + length (chunk_bytes c)) bs)"])
      (auto simp: png_end_def png_end_bytes_def png_account_def split: if_splits)
qed

definition png_kept :: "metadata_policy \<Rightarrow> png_chunk list \<Rightarrow> png_chunk list" where
  "png_kept policy = filter (\<lambda>c. png_keeps policy (chunk_type c))"

lemma png_keeps_end: "png_keeps policy (ascii ''IEND'')"
  by (simp add: png_keeps_def METADATA_CHUNKS_def ascii_def)

lemma png_policy_iff:
  assumes "policy \<noteq> KeepAll" "length bs \<le> usize_max"
  shows "png_bytes_satisfying_metadata_policy bs policy = Ok (Some r) \<longleftrightarrow>
    (\<exists>signature chunks t. length signature = 8 \<and> list_all png_inner chunks \<and> png_end t \<and>
       bs = png_bytes signature chunks (png_end_bytes t) \<and>
       r = png_bytes signature (png_kept policy chunks) (chunk_bytes (fst t)))"
    (is "?L \<longleftrightarrow> ?R")
proof -
  have run: "run_items (png_account policy) chunk_bytes 8 out chunks =
      out @ concat (map chunk_bytes (png_kept policy chunks))" for out chunks
    unfolding png_account_def run_items_append by (simp add: png_kept_def)
  have fin: "png_account policy 0 out c = out @ chunk_bytes c" if "png_end (c, x)" for out c x
    using that png_keeps_end by (simp add: png_account_def png_end_def)
  show ?thesis
  proof (cases "8 \<le> length bs")
    case True
    then have "?L \<longleftrightarrow> walk (png_policy_step policy bs) (length bs) 8 (take 8 bs) = Ok (Some r)"
      using assms(1) by (simp add: png_bytes_satisfying_metadata_policy_def get_slice_def sub_bytes_def)
    also have "\<dots> \<longleftrightarrow> (\<exists>chunks t. list_all png_inner chunks \<and> png_end t \<and>
        drop 8 bs = concat (map chunk_bytes chunks) @ png_end_bytes t \<and>
        r = png_bytes (take 8 bs) (png_kept policy chunks) (chunk_bytes (fst t)))"
      using png_policy.walk_iff [of "Some r" 8 bs policy "take 8 bs"] True assms(2) run fin
      by (simp add: png_bytes_def) (metis prod.collapse append.assoc)
    also have "\<dots> \<longleftrightarrow> ?R"
    proof
      assume "\<exists>chunks t. list_all png_inner chunks \<and> png_end t \<and>
        drop 8 bs = concat (map chunk_bytes chunks) @ png_end_bytes t \<and>
        r = png_bytes (take 8 bs) (png_kept policy chunks) (chunk_bytes (fst t))"
      with True show ?R
        by (metis append_take_drop_id length_take min.absorb2 png_bytes_def)
    next
      assume ?R
      then obtain signature chunks t where *: "length signature = 8" "list_all png_inner chunks" "png_end t"
        "bs = png_bytes signature chunks (png_end_bytes t)"
        "r = png_bytes signature (png_kept policy chunks) (chunk_bytes (fst t))" by blast
      then have "take 8 bs = signature" "drop 8 bs = concat (map chunk_bytes chunks) @ png_end_bytes t"
        by (simp_all add: png_bytes_def)
      with * show "\<exists>chunks t. list_all png_inner chunks \<and> png_end t \<and>
        drop 8 bs = concat (map chunk_bytes chunks) @ png_end_bytes t \<and>
        r = png_bytes (take 8 bs) (png_kept policy chunks) (chunk_bytes (fst t))" by metis
    qed
    finally show ?thesis .
  next
    case False
    then have "\<not> ?L" using assms(1) by (simp add: png_bytes_satisfying_metadata_policy_def get_slice_def)
    moreover have "\<not> ?R" using False by (auto simp: png_bytes_def)
    ultimately show ?thesis by blast
  qed
qed

lemma png_policy_no_panic: "no_panic (png_bytes_satisfying_metadata_policy bs policy)"
proof -
  have "no_panic (png_policy_step policy bs i out)" for i out
    by (simp add: png_policy_step_def Let_def)
  then have "no_panic (walk (png_policy_step policy bs) (length bs) 8 out)" for out
    by (intro byte_walk.walk_no_panic [OF png_policy.walks])
  then show ?thesis by (simp add: png_bytes_satisfying_metadata_policy_def split: option.split)
qed

section \<open>What the rewriter promises\<close>

text \<open>
  The PNG rewriter is a filter on chunks, for every policy but \<open>KeepAll\<close>, which copies the
  file. It never panics; it answers exactly for the files whose chunks can be walked from the
  signature to \<open>IEND\<close>, with the chunks kept and nothing behind \<open>IEND\<close>; every critical chunk and
  every rendering hint is kept.
\<close>

theorem png_rewrite_is_filter:
  assumes "policy \<noteq> KeepAll" "length bs \<le> usize_max"
  shows "png_bytes_satisfying_metadata_policy bs policy \<noteq> Panic \<and>
    (png_bytes_satisfying_metadata_policy bs policy = Ok (Some r) \<longleftrightarrow>
      (\<exists>signature chunks last rest. length signature = 8 \<and> list_all png_inner chunks \<and> chunk_ok last \<and>
         chunk_type last = ascii ''IEND'' \<and>
         bs = signature @ concat (map chunk_bytes chunks) @ chunk_bytes last @ rest \<and>
         r = signature @ concat (map chunk_bytes (filter (\<lambda>c. png_keeps policy (chunk_type c)) chunks)) @
           chunk_bytes last))"
proof -
  have "png_bytes_satisfying_metadata_policy bs policy \<noteq> Panic"
    using png_policy_no_panic [of bs policy] by (simp add: no_panic_def)
  then show ?thesis
    unfolding png_policy_iff [OF assms]
    by (auto simp: png_bytes_def png_end_bytes_def png_end_def png_kept_def)
qed

definition small_png :: bytes where
  "small_png = [0x89, 0x50, 0x4E, 0x47, 0x0D, 0x0A, 0x1A, 0x0A] @ [0, 0, 0, 0] @ ascii ''tEXt'' @ [1, 2, 3, 4] @
     [0, 0, 0, 1] @ ascii ''gAMA'' @ [7, 1, 2, 3, 4] @ [0, 0, 0, 0] @ ascii ''IEND'' @ [1, 2, 3, 4] @ [9, 9]"

lemma small_png_kept:
  "png_bytes_satisfying_metadata_policy small_png StripAll =
     Ok (Some ([0x89, 0x50, 0x4E, 0x47, 0x0D, 0x0A, 0x1A, 0x0A] @ [0, 0, 0, 1] @ ascii ''gAMA'' @ [7, 1, 2, 3, 4] @
       [0, 0, 0, 0] @ ascii ''IEND'' @ [1, 2, 3, 4]))"
  by code_simp

theorem png_rewrite_is_filter_witness:
  "\<exists>signature chunks last rest. length signature = 8 \<and> list_all png_inner chunks \<and> chunk_ok last \<and>
     chunk_type last = ascii ''IEND'' \<and>
     small_png = signature @ concat (map chunk_bytes chunks) @ chunk_bytes last @ rest"
proof -
  have "length small_png = 47" by (simp add: small_png_def ascii_def)
  then have small: "length small_png \<le> usize_max" by (simp add: usize_max_def)
  have "StripAll \<noteq> KeepAll" by simp
  from iffD1 [OF conjunct2 [OF png_rewrite_is_filter [OF this small]] small_png_kept] show ?thesis by blast
qed

end
