(* ===== verification/Webp_Policy.thy ===== *)
theory Webp_Policy
  imports Png_Policy
begin

text \<open>
  The WebP rewriter of \<open>src/codecs/raster.rs\<close>: the list of RIFF chunks, the container written
  from one, and the copy of a file without the metadata chunks a policy removes. Seen as lists
  of chunks the rewriter is a filter that also clears the flags of what is gone.
\<close>

unbundle bit_operations_syntax

section \<open>The chunks of a WebP\<close>

record webp_chunk =
  wc_fourcc :: bytes
  wc_start :: nat
  wc_end :: nat

definition not_a_webp :: transform_error where
  "not_a_webp = EncodeFailed ''cannot inject metadata: output is not a valid WebP container''"

definition webp_chunk_too_long :: transform_error where
  "webp_chunk_too_long = EncodeFailed ''cannot inject metadata: WebP chunk exceeds file''"

definition parse_webp_step ::
  "bytes \<Rightarrow> nat \<Rightarrow> webp_chunk list \<Rightarrow> (transform_error, (webp_chunk list, webp_chunk list) loop) outcome"
where
  "parse_webp_step bs offset chunks =
     (if length bs < offset + 8 then Ok (Stop chunks)
      else
        and_then (slice bs offset (offset + 4)) (\<lambda>fourcc.
        and_then (byte_at bs (offset + 4)) (\<lambda>a. and_then (byte_at bs (offset + 5)) (\<lambda>b.
        and_then (byte_at bs (offset + 6)) (\<lambda>c. and_then (byte_at bs (offset + 7)) (\<lambda>d.
        let sz = unat (u32_of_le a b c d); start = offset + 8 in
        and_then (ok_or webp_chunk_too_long
            (Option.bind (checked_add start sz) (\<lambda>e. if e \<le> length bs then Some e else None))) (\<lambda>fin.
          Ok (Next (fin + sz mod 2)
            (chunks @ [\<lparr>wc_fourcc = fourcc, wc_start = start, wc_end = fin\<rparr>])))))))))"

definition parse_webp_chunks :: "bytes \<Rightarrow> (transform_error, webp_chunk list) outcome" where
  "parse_webp_chunks bs =
     (if length bs < 12 then Err not_a_webp
      else and_then (slice bs 0 4) (\<lambda>riff.
        if riff \<noteq> ascii ''RIFF'' then Err not_a_webp
        else and_then (slice bs 8 12) (\<lambda>webp.
          if webp \<noteq> ascii ''WEBP'' then Err not_a_webp
          else walk (parse_webp_step bs) (length bs) 12 [])))"

definition push_webp_chunk :: "bytes \<Rightarrow> bytes \<Rightarrow> bytes \<Rightarrow> bytes" where
  "push_webp_chunk out fourcc payload =
     out @ fourcc @ u32_to_le (of_nat (length payload)) @ payload @ (if even (length payload) then [] else [0])"

definition ICC_FLAG :: u8 where "ICC_FLAG = 0x20"
definition ALPHA_FLAG :: u8 where "ALPHA_FLAG = 0x10"
definition EXIF_FLAG :: u8 where "EXIF_FLAG = 0x08"
definition XMP_FLAG :: u8 where "XMP_FLAG = 0x04"

definition webp_removed :: "metadata_policy \<Rightarrow> (bytes \<times> u8) list" where
  "webp_removed policy = (case policy of
     PreserveIcc \<Rightarrow> [(ascii ''EXIF'', EXIF_FLAG), (ascii ''XMP '', XMP_FLAG)]
   | PreserveExif \<Rightarrow> [(ascii ''ICCP'', ICC_FLAG), (ascii ''XMP '', XMP_FLAG)]
   | StripAll \<Rightarrow> [(ascii ''ICCP'', ICC_FLAG), (ascii ''EXIF'', EXIF_FLAG), (ascii ''XMP '', XMP_FLAG)]
   | KeepAll \<Rightarrow> [])"

definition is_removed :: "metadata_policy \<Rightarrow> bytes \<Rightarrow> bool" where
  "is_removed policy fourcc \<longleftrightarrow> list_ex (\<lambda>(name, _). name = fourcc) (webp_removed policy)"

text \<open>The container around a body of chunks, when its size fits the 32 bits of the header.\<close>

definition riff_container :: "bytes \<Rightarrow> bytes option" where
  "riff_container body =
     map_option (\<lambda>riff_size. ascii ''RIFF'' @ u32_to_le riff_size @ ascii ''WEBP'' @ body)
       (u32_try_from (int (length body + 4)))"

fun clear_flags :: "(bytes \<times> u8) list \<Rightarrow> bytes \<Rightarrow> bytes" where
  "clear_flags removed (flags # r) = foldl (\<lambda>f (_, flag). f AND NOT flag) flags removed # r"
| "clear_flags removed [] = []"

fun webp_policy_body :: "metadata_policy \<Rightarrow> bytes \<Rightarrow> webp_chunk list \<Rightarrow> bytes \<Rightarrow> bytes option" where
  "webp_policy_body policy bs [] body = Some body"
| "webp_policy_body policy bs (c # cs) body =
     (if is_removed policy (wc_fourcc c) then webp_policy_body policy bs cs body
      else Option.bind (get_slice bs (wc_start c) (wc_end c)) (\<lambda>payload.
        if wc_fourcc c = ascii ''VP8X'' then
          (if payload = [] then None
           else webp_policy_body policy bs cs
             (push_webp_chunk body (ascii ''VP8X'') (clear_flags (webp_removed policy) payload)))
        else webp_policy_body policy bs cs (push_webp_chunk body (wc_fourcc c) payload)))"

definition webp_bytes_satisfying_metadata_policy ::
  "bytes \<Rightarrow> metadata_policy \<Rightarrow> (transform_error, bytes option) outcome" where
  "webp_bytes_satisfying_metadata_policy bs policy =
     (if policy = KeepAll then Ok (Some bs)
      else case parse_webp_chunks bs of
          Panic \<Rightarrow> Panic
        | Err e \<Rightarrow> Ok None
        | Ok chunks \<Rightarrow>
            if \<not> list_ex (\<lambda>c. is_removed policy (wc_fourcc c)) chunks then Ok (Some bs)
            else Ok (Option.bind (webp_policy_body policy bs chunks []) riff_container))"

text \<open>A WebP as the list of its chunks: four-character code and payload.\<close>

definition webp_view :: "bytes \<Rightarrow> (bytes \<times> bytes) list option" where
  "webp_view bs = map_option (map (\<lambda>c. (wc_fourcc c, sub_bytes bs (wc_start c) (wc_end c))))
     (ok_of (parse_webp_chunks bs))"

definition riff_chunk :: "bytes \<times> bytes \<Rightarrow> bytes" where
  "riff_chunk c = push_webp_chunk [] (fst c) (snd c)"

definition riff_ok :: "bytes \<times> bytes \<Rightarrow> bool" where
  "riff_ok c \<longleftrightarrow> length (fst c) = 4 \<and> length (snd c) < 2 ^ 32"

definition parse_account :: "nat \<Rightarrow> webp_chunk list \<Rightarrow> bytes \<times> bytes \<Rightarrow> webp_chunk list" where
  "parse_account offset chunks c =
     chunks @ [\<lparr>wc_fourcc = fst c, wc_start = offset + 8, wc_end = offset + 8 + length (snd c)\<rparr>]"

lemma push_riff: "push_webp_chunk out fourcc payload = out @ riff_chunk (fourcc, payload)"
  by (simp add: push_webp_chunk_def riff_chunk_def)

lemma length_riff_chunk: "length (fst c) = 4 \<Longrightarrow> length (riff_chunk c) = 8 + length (snd c) + length (snd c) mod 2"
  by (simp add: riff_chunk_def push_webp_chunk_def odd_iff_mod_2_eq_one)

lemma parse_webp_step_chunk:
  assumes "riff_ok c" "bs = pre @ riff_chunk c @ post" "length bs \<le> usize_max"
  shows "parse_webp_step bs (length pre) chunks =
    Ok (Next (length pre + length (riff_chunk c)) (parse_account (length pre) chunks c))"
proof -
  obtain fourcc payload where c: "c = (fourcc, payload)" by (cases c)
  define w :: u32 where "w = of_nat (length payload)"
  have len: "length fourcc = 4" using assms(1) by (simp add: riff_ok_def c)
  have n: "unat w = length payload"
    unfolding w_def using assms(1) by (intro unat_of_u32_length) (simp add: riff_ok_def c)
  have bs: "bs = pre @ fourcc @ u32_to_le w @ payload @ (if even (length payload) then [] else [0]) @ post"
    by (simp add: assms(2) c riff_chunk_def push_webp_chunk_def w_def)
  have "sub_bytes bs (length pre) (length pre + 4) = fourcc"
    using sub_bytes_middle [of pre fourcc] by (simp add: bs len)
  moreover have "u32_of_le (bs ! (length pre + 4)) (bs ! (length pre + 5)) (bs ! (length pre + 6)) (bs ! (length pre + 7)) = w"
    by (simp add: bs nth_append len u32_to_le_def u32_to_be_def u32_le_roundtrip)
  moreover have "length pre + 8 + length payload \<le> length bs" by (simp add: bs len)
  ultimately show ?thesis
    using assms(3) len
    by (simp add: parse_webp_step_def Let_def access_simps n checked_add_def c length_riff_chunk parse_account_def
        add.assoc)
qed

lemma parse_step_Next:
  assumes "parse_webp_step bs o' chunks = Ok (Next o'' chunks')"
  shows "o' < o'' \<and> o' < length bs \<and> (\<exists>c. chunks' = chunks @ [c] \<and> length (wc_fourcc c) = 4 \<and>
    wc_start c \<le> wc_end c \<and> wc_end c \<le> length bs)"
  using assms by (auto simp: parse_webp_step_def Let_def split: if_splits option.splits bind_splits)

interpretation webp_parse: item_reader parse_webp_step riff_chunk riff_ok "\<lambda>t. t" "\<lambda>t. length t < 8"
  parse_account "\<lambda>s t. s" "\<lambda>bs. length bs \<le> usize_max"
proof
  fix bs and o' o'' :: nat and s s' :: "webp_chunk list"
  assume "parse_webp_step bs o' s = Ok (Next o'' s')"
  from parse_step_Next [OF this] show "o' < o'' \<and> o' < length bs" by blast
next
  fix i pre post and s :: "webp_chunk list"
  assume "riff_ok i" "length (pre @ riff_chunk i @ post) \<le> usize_max"
  then show "parse_webp_step (pre @ riff_chunk i @ post) (length pre) s =
      Ok (Next (length pre + length (riff_chunk i)) (parse_account (length pre) s i))"
    by (intro parse_webp_step_chunk) simp_all
next
  fix t pre and s :: "webp_chunk list"
  assume "length (t :: bytes) < 8"
  then show "parse_webp_step (pre @ t) (length pre) s = Ok (Stop s)" by (simp add: parse_webp_step_def)
qed

definition chunk_sane :: "bytes \<Rightarrow> webp_chunk \<Rightarrow> bool" where
  "chunk_sane bs c \<longleftrightarrow> length (wc_fourcc c) = 4 \<and> wc_start c \<le> wc_end c \<and> wc_end c \<le> length bs"

lemma parse_step_sane:
  assumes "list_all (chunk_sane bs) cs" "parse_webp_step bs o' cs = Ok (Next o'' cs')"
  shows "list_all (chunk_sane bs) cs'"
proof -
  from parse_step_Next [OF assms(2)] obtain c where "cs' = cs @ [c]" "chunk_sane bs c"
    unfolding chunk_sane_def by blast
  with assms(1) show ?thesis by simp
qed

lemma parse_step_Stop: "parse_webp_step bs o' cs = Ok (Stop x) \<Longrightarrow> x = cs"
  by (auto simp: parse_webp_step_def Let_def split: if_splits)

lemma parse_webp_chunks_sane:
  assumes "parse_webp_chunks bs = Ok chunks"
  shows "list_all (chunk_sane bs) chunks"
proof -
  have "walk (parse_webp_step bs) (length bs) 12 [] = Ok chunks"
    using assms by (auto simp: parse_webp_chunks_def split: if_splits)
  moreover have "case walk (parse_webp_step bs) (length bs) 12 [] of Ok cs \<Rightarrow> list_all (chunk_sane bs) cs | _ \<Rightarrow> True"
    by (rule byte_walk.walk_invariant [OF webp_parse.walks, where I = "\<lambda>_. list_all (chunk_sane bs)"])
      (simp_all add: parse_step_sane, use parse_step_Stop in blast)
  ultimately show ?thesis by simp
qed

lemma run_parse:
  "run_items parse_account riff_chunk offset chunks is = chunks @ run_items parse_account riff_chunk offset [] is"
proof (induction "is" arbitrary: offset chunks)
  case (Cons i "is")
  show ?case
    using Cons [of "offset + length (riff_chunk i)" "parse_account offset chunks i"]
      Cons [of "offset + length (riff_chunk i)" "parse_account offset [] i"]
    by (simp add: parse_account_def)
qed simp

lemma run_parse_view:
  "list_all riff_ok is \<Longrightarrow> bs = pre @ concat (map riff_chunk is) @ t \<Longrightarrow>
   map (\<lambda>c. (wc_fourcc c, sub_bytes bs (wc_start c) (wc_end c)))
     (run_items parse_account riff_chunk (length pre) [] is) = is"
proof (induction "is" arbitrary: pre)
  case (Cons i "is")
  have "map (\<lambda>c. (wc_fourcc c, sub_bytes bs (wc_start c) (wc_end c)))
      (run_items parse_account riff_chunk (length (pre @ riff_chunk i)) [] is) = is"
    by (rule Cons.IH) (use Cons.prems in simp_all)
  moreover have "sub_bytes bs (length pre + 8) (length pre + 8 + length (snd i)) = snd i"
  proof -
    let ?pre = "pre @ fst i @ u32_to_le (of_nat (length (snd i)))"
    have bs: "?pre @ snd i @ (if even (length (snd i)) then [] else [0]) @ concat (map riff_chunk is) @ t = bs"
      using Cons.prems(2) by (simp add: riff_chunk_def [of i] push_webp_chunk_def)
    have "length ?pre = length pre + 8" using Cons.prems(1) by (simp add: riff_ok_def)
    with sub_bytes_middle [of ?pre "snd i", unfolded bs] show ?thesis by (metis bs sub_bytes_middle)
  qed
  ultimately show ?case
    using run_parse [of "length (pre @ riff_chunk i)" "parse_account (length pre) [] i" "is"]
    by (simp add: parse_account_def [of "length pre"])
qed simp

text \<open>A container written from chunks reads back as those chunks.\<close>

lemma webp_view_container:
  assumes "list_all riff_ok is" "riff_container (concat (map riff_chunk is)) = Some r"
  shows "webp_view r = Some is"
proof -
  let ?body = "concat (map riff_chunk is)"
  obtain w where w: "u32_try_from (int (length ?body + 4)) = Some w"
    "r = (ascii ''RIFF'' @ u32_to_le w @ ascii ''WEBP'') @ ?body @ []"
    using assms(2) by (auto simp: riff_container_def)
  define pre where "pre = ascii ''RIFF'' @ u32_to_le w @ ascii ''WEBP''"
  have pre: "length pre = 12" by (simp add: pre_def ascii_def)
  have r: "r = pre @ ?body @ []" using w(2) by (simp add: pre_def)
  have "length r = length ?body + 12" using r pre by simp
  moreover have "length ?body + 4 < 2 ^ 32" using w(1) by (auto simp: u32_try_from_def split: if_splits)
  ultimately have small: "length r \<le> usize_max" by (simp add: usize_max_def)
  have heads: "sub_bytes r 0 4 = ascii ''RIFF''" "sub_bytes r 8 12 = ascii ''WEBP''"
    unfolding r pre_def by (simp_all add: sub_bytes_def ascii_def)
  have "walk (parse_webp_step r) (length r) 12 [] = Ok (run_items parse_account riff_chunk 12 [] is)"
    using webp_parse.walk_items [OF assms(1), of "[]" pre "[]"] small by (simp add: r [symmetric] pre del: append_Nil2)
  then have "parse_webp_chunks r = Ok (run_items parse_account riff_chunk 12 [] is)"
    using heads r pre by (simp add: parse_webp_chunks_def access_simps)
  then show ?thesis
    using run_parse_view [OF assms(1) r] by (simp add: webp_view_def pre)
qed

definition webp_kept :: "metadata_policy \<Rightarrow> (bytes \<times> bytes) list \<Rightarrow> (bytes \<times> bytes) list" where
  "webp_kept policy items =
     map (\<lambda>(f, p). (f, if f = ascii ''VP8X'' then clear_flags (webp_removed policy) p else p))
       (filter (\<lambda>(f, p). \<not> is_removed policy f) items)"

text \<open>A \<open>VP8X\<close> chunk without its flag byte stops the rewrite.\<close>

definition flagless :: "(bytes \<times> bytes) list \<Rightarrow> bool" where
  "flagless items \<longleftrightarrow> (ascii ''VP8X'', []) \<in> set items"

lemma vp8x_kept [simp]: "\<not> is_removed policy (ascii ''VP8X'')"
  by (cases policy) (simp_all add: is_removed_def webp_removed_def ascii_def)

lemma webp_policy_body_items:
  "list_all (chunk_sane bs) cs \<Longrightarrow>
   items = map (\<lambda>c. (wc_fourcc c, sub_bytes bs (wc_start c) (wc_end c))) cs \<Longrightarrow>
   webp_policy_body policy bs cs body =
     (if flagless items then None else Some (body @ concat (map riff_chunk (webp_kept policy items))))"
proof (induction cs arbitrary: body items)
  case (Cons c cs)
  let ?rest = "map (\<lambda>c. (wc_fourcc c, sub_bytes bs (wc_start c) (wc_end c))) cs"
  let ?p = "sub_bytes bs (wc_start c) (wc_end c)"
  have "get_slice bs (wc_start c) (wc_end c) = Some ?p"
    using Cons.prems(1) by (simp add: get_slice_def chunk_sane_def)
  moreover have "webp_policy_body policy bs cs b =
      (if flagless ?rest then None else Some (b @ concat (map riff_chunk (webp_kept policy ?rest))))" for b
    using Cons by simp
  ultimately show ?case
    using Cons.prems(2) by (auto simp: push_riff flagless_def webp_kept_def)
qed (simp add: flagless_def webp_kept_def)

lemma riff_container_None: "riff_container body = None \<longleftrightarrow> 2 ^ 32 \<le> length body + 4"
  by (auto simp: riff_container_def u32_try_from_def)

lemma length_clear_flags [simp]: "length (clear_flags removed p) = length p"
  by (cases p) simp_all

lemma riff_ok_of_container:
  assumes "riff_container (concat (map riff_chunk is)) \<noteq> None" "\<And>c. c \<in> set is \<Longrightarrow> length (fst c) = 4"
  shows "list_all riff_ok is"
proof -
  have "length (concat (map riff_chunk is)) < 2 ^ 32" using assms(1) by (simp add: riff_container_None)
  moreover have "c \<in> set is \<Longrightarrow> length (riff_chunk c) \<le> length (concat (map riff_chunk is))" for c
    by (simp add: length_concat comp_def member_le_sum_list)
  ultimately show ?thesis
    using assms(2) length_riff_chunk by (fastforce simp: list_all_iff riff_ok_def)
qed

lemma webp_view_Some:
  assumes "webp_view bs = Some items"
  obtains cs where "parse_webp_chunks bs = Ok cs" "list_all (chunk_sane bs) cs"
    "items = map (\<lambda>c. (wc_fourcc c, sub_bytes bs (wc_start c) (wc_end c))) cs"
    "\<And>c. c \<in> set items \<Longrightarrow> length (fst c) = 4"
proof -
  obtain cs where cs: "parse_webp_chunks bs = Ok cs"
    "items = map (\<lambda>c. (wc_fourcc c, sub_bytes bs (wc_start c) (wc_end c))) cs"
    using assms by (auto simp: webp_view_def)
  with parse_webp_chunks_sane [OF cs(1)] show thesis
    by (intro that [of cs]) (auto simp: list_all_iff chunk_sane_def)
qed

lemma webp_view_None: "webp_view bs = None \<longleftrightarrow> \<not> (\<exists>cs. parse_webp_chunks bs = Ok cs)"
  by (cases "parse_webp_chunks bs") (simp_all add: webp_view_def ok_of_def)

lemma parse_webp_no_panic: "no_panic (parse_webp_chunks bs)"
proof -
  have "no_panic (parse_webp_step bs o' cs)" for o' cs by (simp add: parse_webp_step_def Let_def)
  then have "no_panic (walk (parse_webp_step bs) (length bs) 12 [])"
    by (intro byte_walk.walk_no_panic [OF webp_parse.walks])
  then show ?thesis by (simp add: parse_webp_chunks_def)
qed

lemma webp_policy_refines:
  assumes "policy \<noteq> KeepAll" "webp_view bs = Some items"
  shows "if list_ex (\<lambda>(f, p). is_removed policy f) items
    then (if flagless items \<or> 2 ^ 32 \<le> length (concat (map riff_chunk (webp_kept policy items))) + 4
      then webp_bytes_satisfying_metadata_policy bs policy = Ok None
      else \<exists>r. webp_bytes_satisfying_metadata_policy bs policy = Ok (Some r) \<and>
        webp_view r = Some (webp_kept policy items))
    else webp_bytes_satisfying_metadata_policy bs policy = Ok (Some bs)"
proof -
  obtain cs where cs: "parse_webp_chunks bs = Ok cs" "list_all (chunk_sane bs) cs"
    "items = map (\<lambda>c. (wc_fourcc c, sub_bytes bs (wc_start c) (wc_end c))) cs"
    "\<And>c. c \<in> set items \<Longrightarrow> length (fst c) = 4"
    using webp_view_Some [OF assms(2)] by blast
  have ex: "list_ex (\<lambda>c. is_removed policy (wc_fourcc c)) cs \<longleftrightarrow> list_ex (\<lambda>(f, p). is_removed policy f) items"
    by (simp add: cs(3) list_ex_iff)
  have kept: "length (fst c) = 4" if "c \<in> set (webp_kept policy items)" for c
    using that cs(4) by (force simp: webp_kept_def)
  note body = webp_policy_body_items [OF cs(2,3), of policy "[]"]
  note view = webp_view_container [OF riff_ok_of_container [OF _ kept]]
  define big where "big \<longleftrightarrow> 2 ^ 32 \<le> length (concat (map riff_chunk (webp_kept policy items))) + 4"
  have big: "big \<longleftrightarrow> riff_container (concat (map riff_chunk (webp_kept policy items))) = None"
    by (simp add: big_def riff_container_None)
  show ?thesis
    unfolding big_def [symmetric] using assms(1) cs(1) ex body view big
    by (auto simp: webp_bytes_satisfying_metadata_policy_def)
qed

lemma webp_policy_without_chunks:
  "policy \<noteq> KeepAll \<Longrightarrow> webp_view bs = None \<Longrightarrow> webp_bytes_satisfying_metadata_policy bs policy = Ok None"
  using parse_webp_no_panic [of bs] unfolding webp_view_None
  by (cases "parse_webp_chunks bs") (simp_all add: webp_bytes_satisfying_metadata_policy_def)

section \<open>The length of a rewrite\<close>

text \<open>
  The chunks that were read fill the file up to at most the padding byte of the last one, which
  the reader does not ask for and the writer always writes.
\<close>

definition chunk_span :: "webp_chunk \<Rightarrow> nat" where
  "chunk_span c = 8 + (wc_end c - wc_start c) + (wc_end c - wc_start c) mod 2"

lemma parse_step_span:
  assumes "parse_webp_step bs o' cs = Ok (Next o'' cs')"
  shows "o'' \<le> length bs + 1 \<and> (\<exists>c. cs' = cs @ [c] \<and> o'' = o' + chunk_span c)"
  using assms by (auto simp: parse_webp_step_def chunk_span_def Let_def checked_add_def split: if_splits option.splits bind_splits)

lemma parse_webp_chunks_fit:
  assumes "parse_webp_chunks bs = Ok cs"
  shows "12 + sum_list (map chunk_span cs) \<le> length bs + 1"
proof -
  have "walk (parse_webp_step bs) (length bs) 12 [] = Ok cs" and long: "12 \<le> length bs"
    using assms by (auto simp: parse_webp_chunks_def split: if_splits)
  moreover have "case walk (parse_webp_step bs) (length bs) 12 [] of
      Ok cs \<Rightarrow> 12 + sum_list (map chunk_span cs) \<le> length bs + 1 | _ \<Rightarrow> True"
  proof (rule byte_walk.walk_invariant [OF webp_parse.walks,
      where I = "\<lambda>offset cs. offset = 12 + sum_list (map chunk_span cs) \<and> offset \<le> length bs + 1"])
    fix o1 o2 :: nat and s1 s2 :: "webp_chunk list"
    assume "o1 = 12 + sum_list (map chunk_span s1) \<and> o1 \<le> length bs + 1" "parse_webp_step bs o1 s1 = Ok (Next o2 s2)"
    with parse_step_span [OF this(2)] show "o2 = 12 + sum_list (map chunk_span s2) \<and> o2 \<le> length bs + 1" by auto
  qed (use long parse_step_Stop in \<open>auto dest!: parse_step_Stop\<close>)
  ultimately show ?thesis by simp
qed

lemma webp_kept_length:
  "list_all (\<lambda>(f, p). length f = 4) items \<Longrightarrow>
   length (concat (map riff_chunk (webp_kept policy items))) +
     (if list_ex (\<lambda>(f, p). is_removed policy f) items then 8 else 0) \<le>
   sum_list (map (\<lambda>(f, p). 8 + length p + length p mod 2) items)"
proof (induction items)
  case (Cons i items)
  then show ?case by (cases i) (auto simp: webp_kept_def length_riff_chunk split: if_splits)
qed (simp add: webp_kept_def)

lemma webp_candidate_no_longer:
  assumes "webp_bytes_satisfying_metadata_policy bs policy = Ok (Some r)"
  shows "length r \<le> length bs"
proof (cases "r = bs")
  case False
  with assms obtain cs where cs: "parse_webp_chunks bs = Ok cs" "list_ex (\<lambda>c. is_removed policy (wc_fourcc c)) cs"
    and r: "Option.bind (webp_policy_body policy bs cs []) riff_container = Some r"
    by (auto simp: webp_bytes_satisfying_metadata_policy_def split: outcome.splits if_splits)
  define items where "items = map (\<lambda>c. (wc_fourcc c, sub_bytes bs (wc_start c) (wc_end c))) cs"
  note sane = parse_webp_chunks_sane [OF cs(1)]
  have ex: "list_ex (\<lambda>(f, p). is_removed policy f) items" using cs(2) by (simp add: items_def list_ex_iff)
  have "r = ascii ''RIFF'' @ u32_to_le w @ ascii ''WEBP'' @ concat (map riff_chunk (webp_kept policy items)) \<Longrightarrow> ?thesis" for w
  proof -
    assume "r = ascii ''RIFF'' @ u32_to_le w @ ascii ''WEBP'' @ concat (map riff_chunk (webp_kept policy items))"
    then have len: "length r = 12 + length (concat (map riff_chunk (webp_kept policy items)))" by (simp add: ascii_def)
    have "list_all (\<lambda>(f, p). length f = 4) items" using sane by (simp add: items_def list_all_iff chunk_sane_def)
    from webp_kept_length [OF this, of policy] ex
    have "length (concat (map riff_chunk (webp_kept policy items))) + 8 \<le>
        sum_list (map (\<lambda>(f, p). 8 + length p + length p mod 2) items)" by simp
    also have "\<dots> = sum_list (map chunk_span cs)"
      unfolding items_def using sane
      by (auto simp: chunk_span_def chunk_sane_def list_all_iff comp_def intro!: arg_cong [of _ _ sum_list])
    finally show ?thesis using parse_webp_chunks_fit [OF cs(1)] len by simp
  qed
  then show ?thesis
    using r webp_policy_body_items [OF sane items_def, of policy "[]"]
    by (auto simp: riff_container_def split: if_splits)
qed simp

section \<open>What the rewriter promises\<close>


definition small_webp :: bytes where
  "small_webp = ascii ''RIFF'' @ [0, 0, 0, 0] @ ascii ''WEBP'' @ ascii ''VP8X'' @ [1, 0, 0, 0, 0x2C, 0] @
     ascii ''EXIF'' @ [1, 0, 0, 0, 5, 0] @ ascii ''VP8 '' @ [2, 0, 0, 0, 8, 9]"

lemma small_webp_view:
  "webp_view small_webp = Some [(ascii ''VP8X'', [0x2C]), (ascii ''EXIF'', [5]), (ascii ''VP8 '', [8, 9])]"
  by code_simp


end
