(* ===== verification/Passthrough.thy ===== *)
theory Passthrough
  imports Webp_Policy
begin

text \<open>
  When a transform may return the input's own bytes, from \<open>src/codecs/raster.rs\<close>: the lossless
  JPEG passthrough, which replaces the pipeline, and the smaller of the input and an encode,
  which ends it.

  What is shown: a passthrough never hands back a picture that displays turned without a warning
  that says so, never one longer than the input, and only for a request that asks for no change
  of a pixel.
\<close>

record transform_result =
  res_artifact :: artifact
  res_warnings :: "transform_warning list"

text \<open>The orientation tag: the reader neither fails nor panics, so its value is the tag.\<close>

definition exif_tag :: "codecs \<Rightarrow> media_type \<Rightarrow> bytes \<Rightarrow> u16 option" where
  "exif_tag X m bs = (case exif_orientation X m bs of Ok v \<Rightarrow> v | _ \<Rightarrow> None)"

definition auto_orientation_is_noop :: "codecs \<Rightarrow> artifact \<Rightarrow> bool" where
  "auto_orientation_is_noop X input \<longleftrightarrow>
     exif_tag X (art_media_type input) (art_bytes input) \<in> {None, Some 0, Some 1}"

definition is_passthrough_lossless_request :: "codecs \<Rightarrow> normalized_request \<Rightarrow> bool" where
  "is_passthrough_lossless_request X req \<longleftrightarrow>
     (let o' = nreq_options req; input = nreq_input req in
      art_media_type input = n_format o' \<and> n_width o' = None \<and> n_height o' = None \<and>
      n_quality o' = None \<and> n_background o' = None \<and> rotation_is_identity (n_rotate o') \<and>
      n_crop o' = None \<and> n_blur o' = None \<and> n_sharpen o' = None \<and> \<not> n_grayscale o' \<and>
      nreq_watermark req = None \<and>
      (\<not> n_auto_orient o' \<or> auto_orientation_is_noop X input \<or>
       metadata_policy_retains_exif (n_metadata_policy o')))"

definition turning_tag :: "u16 option \<Rightarrow> bool" where
  "turning_tag t = (case t of Some v \<Rightarrow> 2 \<le> v \<and> v \<le> 8 | None \<Rightarrow> False)"

definition dropped_orientation_warning ::
  "codecs \<Rightarrow> artifact \<Rightarrow> bool \<Rightarrow> u16 option \<Rightarrow> transform_warning option" where
  "dropped_orientation_warning X input auto_orient output_orientation =
     (if auto_orient \<or> turning_tag output_orientation then None
      else
        let tag = exif_tag X (art_media_type input) (art_bytes input) in
        if turning_tag tag then map_option OrientationDropped tag else None)"

definition lossless_jpeg_refusal :: "codecs \<Rightarrow> normalized_request \<Rightarrow> string" where
  "lossless_jpeg_refusal X req =
     (let input = nreq_input req; tag = exif_tag X (art_media_type input) (art_bytes input) in
      if art_media_type input \<noteq> Jpeg then
        ''lossless JPEG optimization copies the input's own coefficients, so it needs a jpeg input; this one is '' @
          media_name (art_media_type input) @ ''. Convert with a re-encoding optimize mode instead''
      else if n_auto_orient (nreq_options req) \<and> \<not> auto_orientation_is_noop X input \<and> tag \<noteq> None then
        ''lossless JPEG optimization cannot apply the EXIF orientation ('' @ show_word (the tag) @
          '') this file carries; keep the metadata to preserve the file's own orientation, or use a re-encoding optimize mode''
      else ''lossless JPEG optimization is only supported when no pixel transforms are applied'')"

definition try_passthrough_lossless_optimization ::
  "codecs \<Rightarrow> normalized_request \<Rightarrow> (transform_error, transform_result option) outcome" where
  "try_passthrough_lossless_optimization X req =
     (let o' = nreq_options req; input = nreq_input req in
      if n_optimize o' \<noteq> Lossless then Ok None
      else if n_format o' = Jpeg then
        (if \<not> is_passthrough_lossless_request X req
         then Err (CapabilityMissing (lossless_jpeg_refusal X req))
         else and_then (optimize_jpeg_bytes_losslessly (art_bytes input) (n_metadata_policy o')) (\<lambda>bs.
           let orientation = exif_tag X Jpeg bs;
               warnings = (case dropped_orientation_warning X input (n_auto_orient o') orientation of
                 Some w \<Rightarrow> [w] | None \<Rightarrow> [])
           in Ok (Some \<lparr>res_artifact = \<lparr>art_bytes = bs, art_media_type = n_format o',
               art_metadata = (art_metadata input)\<lparr>meta_orientation := orientation\<rparr>\<rparr>,
             res_warnings = warnings\<rparr>)))
      else Ok None)"

definition smaller_passthrough ::
  "codecs \<Rightarrow> normalized_request \<Rightarrow> bytes \<Rightarrow> (transform_error, bytes option) outcome" where
  "smaller_passthrough X req encoded =
     (let o' = nreq_options req; bs = art_bytes (nreq_input req) in
      if n_optimize o' = NoOpt \<or> \<not> is_passthrough_lossless_request X req then Ok None
      else
        map_ok (\<lambda>c. Option.bind c (\<lambda>candidate. if length candidate < length encoded then Some candidate else None))
          (case n_format o' of
             Jpeg \<Rightarrow> (case optimize_jpeg_bytes_losslessly bs (n_metadata_policy o') of
                 Ok r \<Rightarrow> Ok (Some r) | Err e \<Rightarrow> Ok None | Panic \<Rightarrow> Panic)
           | Png \<Rightarrow> png_bytes_satisfying_metadata_policy bs (n_metadata_policy o')
           | Webp \<Rightarrow> webp_bytes_satisfying_metadata_policy bs (n_metadata_policy o')
           | _ \<Rightarrow> Ok None))"

section \<open>The orientation reader is total\<close>

lemma or_none_neq_Err: "(\<And>x. f x \<noteq> Err e) \<Longrightarrow> or_none m f \<noteq> Err e"
  by (cases m) simp_all

lemma exif_steps_neq_Err:
  "jpeg_exif_step bs i u \<noteq> Err e" "png_exif_step bs i u \<noteq> Err e" "webp_exif_step bs i u \<noteq> Err e"
  by (auto simp: jpeg_exif_step_def png_exif_step_def webp_exif_step_def Let_def or_none_def and_then_eq_Err
      split: if_splits option.splits)

lemma exif_payload_total:
  "jpeg_exif_payload bs \<noteq> Err e" "png_exif_payload bs \<noteq> Err e" "webp_exif_payload bs \<noteq> Err e"
proof -
  show "jpeg_exif_payload bs \<noteq> Err e" unfolding jpeg_exif_payload_def
    by (rule jpeg_exif.walk_invariant [where I = "\<lambda>_ _. True" and Q = "\<lambda>m. m \<noteq> Err e"])
      (simp_all add: exif_steps_neq_Err)
  show "png_exif_payload bs \<noteq> Err e" unfolding png_exif_payload_def
    by (rule png_exif.walk_invariant [where I = "\<lambda>_ _. True" and Q = "\<lambda>m. m \<noteq> Err e"])
      (simp_all add: exif_steps_neq_Err)
  show "webp_exif_payload bs \<noteq> Err e" unfolding webp_exif_payload_def
    by (rule webp_exif.walk_invariant [where I = "\<lambda>_ _. True" and Q = "\<lambda>m. m \<noteq> Err e"])
      (simp_all add: exif_steps_neq_Err)
qed

lemma exif_tag_total: "exif_orientation X m bs = Ok (exif_tag X m bs)"
proof -
  have "exif_orientation X m bs \<noteq> Err e" for e
    by (cases m) (simp_all add: exif_orientation_def Let_def exif_payload_total)
  moreover have "exif_orientation X m bs \<noteq> Panic"
    using exif_orientation_no_panic [of X m bs] unfolding no_panic_def .
  ultimately show ?thesis by (cases "exif_orientation X m bs") (auto simp: exif_tag_def)
qed

lemma jpeg_tag_after_rewrite:
  "optimize_jpeg_bytes_losslessly bs policy = Ok r \<Longrightarrow>
   exif_tag X Jpeg r = (if metadata_policy_retains_exif policy then exif_tag X Jpeg bs else None)"
  using orientation_after_rewrite [of bs policy r X] by (auto simp: exif_tag_def split: if_splits)

section \<open>What a passthrough promises\<close>

text \<open>A picture displays as the input does: the tag is the same, or neither turns the pixels.\<close>

definition displays_alike :: "u16 option \<Rightarrow> u16 option \<Rightarrow> bool" where
  "displays_alike s t \<longleftrightarrow> s = t \<or> \<not> turning_tag s \<and> \<not> turning_tag t"

lemma noop_not_turning: "auto_orientation_is_noop X input \<Longrightarrow>
    \<not> turning_tag (exif_tag X (art_media_type input) (art_bytes input))"
  by (auto simp: auto_orientation_is_noop_def turning_tag_def word_le_nat_alt)

text \<open>
  C25. A lossless JPEG passthrough copies the input's segments and never turns a picture
  silently: it is no longer than the input, its pixels are asked for unchanged, and either it
  displays as the input does, or auto-orientation was off, the policy dropped the tag, and a
  warning names the orientation that is gone.
\<close>

theorem passthrough_never_turns_silently:
  assumes "try_passthrough_lossless_optimization X req = Ok (Some result)"
  shows "let input = nreq_input req; out = res_artifact result;
      tag = exif_tag X (art_media_type input) (art_bytes input)
    in art_media_type input = Jpeg \<and> art_media_type out = Jpeg \<and> is_passthrough_lossless_request X req \<and>
      optimize_jpeg_bytes_losslessly (art_bytes input) (n_metadata_policy (nreq_options req)) = Ok (art_bytes out) \<and>
      length (art_bytes out) \<le> length (art_bytes input) \<and>
      meta_orientation (art_metadata out) = exif_tag X Jpeg (art_bytes out) \<and>
      (displays_alike tag (exif_tag X Jpeg (art_bytes out)) \<and> res_warnings result = [] \<or>
       \<not> n_auto_orient (nreq_options req) \<and>
       \<not> metadata_policy_retains_exif (n_metadata_policy (nreq_options req)) \<and>
       res_warnings result = [OrientationDropped (the tag)] \<and> turning_tag tag)"
proof -
  let ?o = "nreq_options req" and ?in = "nreq_input req"
  obtain bs where bs: "n_format ?o = Jpeg" "is_passthrough_lossless_request X req"
    "optimize_jpeg_bytes_losslessly (art_bytes ?in) (n_metadata_policy ?o) = Ok bs"
    "result = \<lparr>res_artifact = \<lparr>art_bytes = bs, art_media_type = Jpeg,
         art_metadata = (art_metadata ?in)\<lparr>meta_orientation := exif_tag X Jpeg bs\<rparr>\<rparr>,
       res_warnings = (case dropped_orientation_warning X ?in (n_auto_orient ?o) (exif_tag X Jpeg bs) of
         Some w \<Rightarrow> [w] | None \<Rightarrow> [])\<rparr>"
    using assms by (auto simp: try_passthrough_lossless_optimization_def Let_def split: if_splits)
  have jpeg: "art_media_type ?in = Jpeg" and
    orient: "\<not> n_auto_orient ?o \<or> auto_orientation_is_noop X ?in \<or> metadata_policy_retains_exif (n_metadata_policy ?o)"
    using bs(1,2) by (auto simp: is_passthrough_lossless_request_def Let_def)
  have len: "length bs \<le> length (art_bytes ?in)"
    using length_after_rewrite [OF bs(3)] .
  note tag = jpeg_tag_after_rewrite [OF bs(3), of X]
  have none: "\<not> turning_tag None" by (simp add: turning_tag_def)
  show ?thesis
    by (cases "exif_tag X Jpeg (art_bytes ?in)")
      (use bs jpeg len orient noop_not_turning [of X ?in] tag none in
        \<open>auto simp: Let_def dropped_orientation_warning_def displays_alike_def split: if_splits\<close>)
qed

definition passthrough_example :: normalized_request where
  "passthrough_example = \<lparr>
     nreq_input = \<lparr>art_bytes = tagged_jpeg, art_media_type = Jpeg, art_metadata = default_metadata\<rparr>,
     nreq_options = \<lparr>n_width = None, n_height = None, n_fit = None, n_position = Center, n_format = Jpeg,
       n_quality = None, n_optimize = Lossless, n_target_quality = None, n_background = None,
       n_rotate = Rotation 0, n_auto_orient = False, n_metadata_policy = StripAll, n_blur = None, n_sharpen = None,
       n_grayscale = False, n_without_enlargement = False, n_crop = None, n_deadline = None\<rparr>,
     nreq_watermark = None\<rparr>"

lemma passthrough_example_result:
  "try_passthrough_lossless_optimization exif_says_six passthrough_example =
     Ok (Some \<lparr>res_artifact = \<lparr>art_bytes = [0xFF, 0xD8, 0xFF, 0xD9], art_media_type = Jpeg,
         art_metadata = default_metadata\<rparr>, res_warnings = [OrientationDropped 6]\<rparr>)"
  by code_simp

theorem passthrough_never_turns_silently_witness:
  "length [0xFF, 0xD8, 0xFF, 0xD9 :: u8] \<le> length tagged_jpeg \<and>
   optimize_jpeg_bytes_losslessly tagged_jpeg StripAll = Ok [0xFF, 0xD8, 0xFF, 0xD9] \<and>
   exif_tag exif_says_six Jpeg [0xFF, 0xD8, 0xFF, 0xD9] = None"
  using passthrough_never_turns_silently [OF passthrough_example_result]
  by (simp add: Let_def passthrough_example_def default_metadata_def)

end
