(* ===== verification/Inject.thy ===== *)
theory Inject
  imports Passthrough
begin

text \<open>
  The metadata a transform carries over, from \<open>src/codecs/raster.rs\<close>: what is read from the
  input, what the policy and the output format keep of it, and the blocks written into the
  encoded bytes of a JPEG, a PNG or a WebP afterwards. The decoders of the \<open>image\<close> crate are the
  parameter \<open>meta_codecs\<close>.

  What is shown: seen as segments or chunks, each injection inserts its block and changes
  nothing else, a block that does not fit is refused, and what happens to the warnings then.
\<close>

unbundle bit_operations_syntax

section \<open>What is kept of the input\<close>

record retained_metadata =
  exif_metadata :: "bytes option"
  icc_profile :: "bytes option"
  xmp_metadata :: "bytes option"
  iptc_metadata :: "bytes option"

definition no_metadata :: retained_metadata where
  "no_metadata = \<lparr>exif_metadata = None, icc_profile = None, xmp_metadata = None, iptc_metadata = None\<rparr>"

definition metadata_is_empty :: "retained_metadata \<Rightarrow> bool" where
  "metadata_is_empty m \<longleftrightarrow>
     exif_metadata m = None \<and> icc_profile m = None \<and> xmp_metadata m = None \<and> iptc_metadata m = None"

definition retain_exif_only :: "retained_metadata \<Rightarrow> retained_metadata" where
  "retain_exif_only m = m\<lparr>icc_profile := None, xmp_metadata := None, iptc_metadata := None\<rparr>"

definition retain_icc_only :: "retained_metadata \<Rightarrow> retained_metadata" where
  "retain_icc_only m = m\<lparr>exif_metadata := None, xmp_metadata := None, iptc_metadata := None\<rparr>"

text \<open>What an output format carries: EXIF, ICC, XMP, IPTC.\<close>

definition carries :: "media_type \<Rightarrow> bool \<times> bool \<times> bool \<times> bool" where
  "carries output_format = (case output_format of
     Jpeg \<Rightarrow> (True, True, True, True)
   | Png \<Rightarrow> (True, True, True, False)
   | Webp \<Rightarrow> (True, True, True, False)
   | Tiff \<Rightarrow> (False, True, False, False)
   | _ \<Rightarrow> (False, False, False, False))"

definition retain_supported :: "media_type \<Rightarrow> retained_metadata \<Rightarrow> retained_metadata \<times> metadata_kind list" where
  "retain_supported output_format m =
     (case carries output_format of (exif, icc, xmp, iptc) \<Rightarrow>
        (\<lparr>exif_metadata = (if exif then exif_metadata m else None),
          icc_profile = (if icc then icc_profile m else None),
          xmp_metadata = (if xmp then xmp_metadata m else None),
          iptc_metadata = (if iptc then iptc_metadata m else None)\<rparr>,
         (if \<not> exif \<and> exif_metadata m \<noteq> None then [Exif] else []) @
         (if \<not> icc \<and> icc_profile m \<noteq> None then [Icc] else []) @
         (if \<not> xmp \<and> xmp_metadata m \<noteq> None then [Xmp] else []) @
         (if \<not> iptc \<and> iptc_metadata m \<noteq> None then [Iptc] else [])))"

datatype image_error = Unsupported | Limits | Decoding | IoError | OtherImageError

definition decode_failure :: "media_type \<Rightarrow> image_error \<Rightarrow> transform_error" where
  "decode_failure m e = DecodeFailed (media_name m @ (case e of
       Unsupported \<Rightarrow> '' file uses a feature truss cannot decode''
     | Limits \<Rightarrow> '' file is larger than truss decodes''
     | Decoding \<Rightarrow> '' image data is incomplete or corrupt''
     | IoError \<Rightarrow> '' image data is incomplete or corrupt''
     | OtherImageError \<Rightarrow> '' file could not be decoded''))"

text \<open>
  The decoders: \<open>meta_open\<close> opens the decoder of a format on the bytes, the four fields read one
  kind each from what it opened, and \<open>meta_reset_orientation\<close> is
  \<open>Orientation::remove_from_exif_chunk\<close>.
\<close>

record 'd meta_codecs =
  meta_open :: "media_type \<Rightarrow> bytes \<Rightarrow> image_error + 'd"
  meta_exif :: "'d \<Rightarrow> image_error + bytes option"
  meta_icc :: "'d \<Rightarrow> image_error + bytes option"
  meta_xmp :: "'d \<Rightarrow> image_error + bytes option"
  meta_iptc :: "'d \<Rightarrow> image_error + bytes option"
  meta_reset_orientation :: "bytes \<Rightarrow> bytes"

definition or_decode_failure :: "media_type \<Rightarrow> image_error + 'a \<Rightarrow> (transform_error, 'a) outcome" where
  "or_decode_failure m r = (case r of Inl e \<Rightarrow> Err (decode_failure m e) | Inr x \<Rightarrow> Ok x)"

definition retained_metadata_of :: "'d meta_codecs \<Rightarrow> 'd \<Rightarrow> media_type \<Rightarrow> (transform_error, retained_metadata) outcome"
where
  "retained_metadata_of M d m =
     and_then (or_decode_failure m (meta_exif M d)) (\<lambda>exif.
     and_then (or_decode_failure m (meta_icc M d)) (\<lambda>icc.
     and_then (or_decode_failure m (meta_xmp M d)) (\<lambda>xmp.
     and_then (or_decode_failure m (meta_iptc M d)) (\<lambda>iptc.
       Ok \<lparr>exif_metadata = exif, icc_profile = icc, xmp_metadata = xmp, iptc_metadata = iptc\<rparr>))))"

definition read_input_metadata :: "'d meta_codecs \<Rightarrow> artifact \<Rightarrow> (transform_error, retained_metadata) outcome" where
  "read_input_metadata M input =
     (let m = art_media_type input in
      if m = Svg \<or> m = Bmp then Ok no_metadata
      else and_then (or_decode_failure m (meta_open M m (art_bytes input))) (\<lambda>d. retained_metadata_of M d m))"

definition extract_retained_metadata ::
  "'d meta_codecs \<Rightarrow> artifact \<Rightarrow> metadata_policy \<Rightarrow> bool \<Rightarrow> media_type \<Rightarrow>
    (transform_error, retained_metadata option \<times> transform_warning list) outcome" where
  "extract_retained_metadata M input policy auto_orient output_format =
     (if policy = StripAll then Ok (None, [])
      else and_then (read_input_metadata M input) (\<lambda>read.
        let turned = (if auto_orient then read\<lparr>exif_metadata := map_option (meta_reset_orientation M) (exif_metadata read)\<rparr>
                      else read);
            kept = (case policy of PreserveIcc \<Rightarrow> retain_icc_only turned
                    | PreserveExif \<Rightarrow> retain_exif_only turned | _ \<Rightarrow> turned);
            (carried, dropped) = retain_supported output_format kept;
            warnings = map MetadataDropped dropped
        in if metadata_is_empty carried then Ok (None, warnings) else Ok (Some carried, warnings)))"

section \<open>JPEG segments\<close>

definition XMP_NAMESPACE :: bytes where
  "XMP_NAMESPACE = ascii ''http://ns.adobe.com/xap/1.0/'' @ [0]"

definition PHOTOSHOP_NAMESPACE :: bytes where
  "PHOTOSHOP_NAMESPACE = ascii ''Photoshop 3.0'' @ [0]"

definition inject_jpeg_xmp :: "bytes \<Rightarrow> bytes \<Rightarrow> (transform_error, bytes) outcome" where
  "inject_jpeg_xmp encoded xmp =
     (let invalid = EncodeFailed ''cannot inject XMP: output is not a valid JPEG'' in
      if length encoded < 2 then Err invalid
      else and_then (byte_at encoded 0) (\<lambda>a. and_then (byte_at encoded 1) (\<lambda>b.
        if a \<noteq> 0xFF \<or> b \<noteq> 0xD8 then Err invalid
        else
          let data_len = length XMP_NAMESPACE + length xmp in
          and_then (ok_or (EncodeFailed ''XMP payload exceeds the JPEG APP1 segment size limit (64KB)'')
            (u16_try_from (int (data_len + 2)))) (\<lambda>segment_len.
          and_then (slice encoded 0 2) (\<lambda>soi.
          and_then (slice encoded 2 (length encoded)) (\<lambda>rest.
            Ok (soi @ [0xFF, 0xE1] @ u16_to_be segment_len @ XMP_NAMESPACE @ xmp @ rest)))))))"

definition inject_jpeg_iptc :: "bytes \<Rightarrow> bytes \<Rightarrow> (transform_error, bytes) outcome" where
  "inject_jpeg_iptc encoded iptc =
     (let invalid = EncodeFailed ''cannot inject IPTC: output is not a valid JPEG'' in
      if length encoded < 2 then Err invalid
      else and_then (byte_at encoded 0) (\<lambda>a. and_then (byte_at encoded 1) (\<lambda>b.
        if a \<noteq> 0xFF \<or> b \<noteq> 0xD8 then Err invalid
        else
          let resource_header_len = length (ascii ''8BIM'') + 2 + 1 + 1 + 4;
              iptc_padded_len = (if even (length iptc) then length iptc else length iptc + 1);
              data_len = length PHOTOSHOP_NAMESPACE + (resource_header_len + iptc_padded_len) in
          and_then (ok_or (EncodeFailed ''IPTC payload exceeds the JPEG APP13 segment size limit (64KB)'')
            (u16_try_from (int (data_len + 2)))) (\<lambda>segment_len.
          and_then (slice encoded 0 2) (\<lambda>soi.
          and_then (slice encoded 2 (length encoded)) (\<lambda>rest.
            Ok (soi @ [0xFF, 0xED] @ u16_to_be segment_len @ PHOTOSHOP_NAMESPACE @ ascii ''8BIM'' @
              u16_to_be 0x0404 @ [0, 0] @ u32_to_be (of_nat (length iptc)) @ iptc @
              (if even (length iptc) then [] else [0]) @ rest)))))))"

section \<open>PNG chunks\<close>

definition crc_round :: "u32 \<Rightarrow> u32" where
  "crc_round crc = (if crc AND 1 \<noteq> 0 then drop_bit 1 crc XOR 0xEDB88320 else drop_bit 1 crc)"

definition crc_byte :: "u32 \<Rightarrow> u8 \<Rightarrow> u32" where
  "crc_byte crc b = (crc_round ^^ 8) (crc XOR ucast b)"

definition png_crc32 :: "bytes \<Rightarrow> u32" where
  "png_crc32 data = foldl crc_byte 0xFFFFFFFF data XOR 0xFFFFFFFF"

definition PNG_SIGNATURE :: bytes where
  "PNG_SIGNATURE = [0x89, 0x50, 0x4E, 0x47, 0x0D, 0x0A, 0x1A, 0x0A]"

definition itxt_data :: "bytes \<Rightarrow> bytes" where
  "itxt_data xmp = ascii ''XML:com.adobe.xmp'' @ [0, 0, 0, 0, 0] @ xmp"

definition inject_png_xmp :: "bytes \<Rightarrow> bytes \<Rightarrow> (transform_error, bytes) outcome" where
  "inject_png_xmp encoded xmp =
     (let invalid = EncodeFailed ''cannot inject XMP: output is not a valid PNG'' in
      if length encoded < 8 then Err invalid
      else and_then (slice encoded 0 8) (\<lambda>signature.
        if signature \<noteq> PNG_SIGNATURE then Err invalid
        else if length encoded < 8 + 4 + 4
        then Err (EncodeFailed ''cannot inject XMP: PNG is too short to contain IHDR'')
        else
          and_then (byte_at encoded 8) (\<lambda>a. and_then (byte_at encoded 9) (\<lambda>b.
          and_then (byte_at encoded 10) (\<lambda>c. and_then (byte_at encoded 11) (\<lambda>d.
          let ihdr_data_len = unat (u32_of_be a b c d);
              ihdr_end = 8 + 4 + 4 + ihdr_data_len + 4 in
          if length encoded < ihdr_end
          then Err (EncodeFailed ''cannot inject XMP: PNG IHDR chunk is truncated'')
          else
            let chunk_data = itxt_data xmp;
                crc = png_crc32 (ascii ''iTXt'' @ chunk_data) in
            and_then (slice encoded 0 ihdr_end) (\<lambda>head.
            and_then (slice encoded ihdr_end (length encoded)) (\<lambda>rest.
              Ok (head @ u32_to_be (of_nat (length chunk_data)) @ ascii ''iTXt'' @ chunk_data @
                u32_to_be crc @ rest)))))))))"

section \<open>WebP chunks\<close>

text \<open>The canvas of a simple container, from its bitstream header: width, height, alpha.\<close>

definition webp_canvas_chunk :: "bytes \<Rightarrow> bytes \<Rightarrow> (transform_error, (u32 \<times> u32 \<times> bool) option) outcome" where
  "webp_canvas_chunk fourcc data =
     (if fourcc = ascii ''VP8 '' \<and> 10 \<le> length data \<and> sub_bytes data 3 6 = [0x9D, 0x01, 0x2A] then
        and_then (byte_at data 6) (\<lambda>w0. and_then (byte_at data 7) (\<lambda>w1.
        and_then (byte_at data 8) (\<lambda>h0. and_then (byte_at data 9) (\<lambda>h1.
          Ok (Some (ucast (u16_of_le w0 w1 AND 0x3FFF), ucast (u16_of_le h0 h1 AND 0x3FFF), False))))))
      else if fourcc = ascii ''VP8L'' \<and> 5 \<le> length data \<and> data ! 0 = 0x2F then
        and_then (byte_at data 1) (\<lambda>b0. and_then (byte_at data 2) (\<lambda>b1.
        and_then (byte_at data 3) (\<lambda>b2. and_then (byte_at data 4) (\<lambda>b3.
          let bits = u32_of_le b0 b1 b2 b3 in
          Ok (Some ((bits AND 0x3FFF) + 1, (drop_bit 14 bits AND 0x3FFF) + 1, drop_bit 28 bits AND 1 \<noteq> 0))))))
      else Ok None)"

fun webp_canvas_info :: "bytes \<Rightarrow> webp_chunk list \<Rightarrow> (transform_error, u32 \<times> u32 \<times> bool) outcome" where
  "webp_canvas_info encoded [] =
     Err (EncodeFailed ''cannot inject metadata: WebP container has no image chunk'')"
| "webp_canvas_info encoded (c # cs) =
     and_then (slice encoded (wc_start c) (wc_end c)) (\<lambda>data.
     and_then (webp_canvas_chunk (wc_fourcc c) data) (\<lambda>r.
       case r of Some info \<Rightarrow> Ok info | None \<Rightarrow> webp_canvas_info encoded cs))"

definition webp_has :: "webp_chunk list \<Rightarrow> bytes \<Rightarrow> bool" where
  "webp_has chunks fourcc \<longleftrightarrow> list_ex (\<lambda>c. wc_fourcc c = fourcc) chunks"

definition find_chunk :: "webp_chunk list \<Rightarrow> bytes \<Rightarrow> webp_chunk option" where
  "find_chunk chunks fourcc = List.find (\<lambda>c. wc_fourcc c = fourcc) chunks"

text \<open>The canvas size in the 24 bits \<open>VP8X\<close> has for each axis, less one.\<close>

definition u24_le :: "u32 \<Rightarrow> bytes" where
  "u24_le w = take 3 (u32_to_le w)"

definition new_vp8x :: "bytes \<Rightarrow> webp_chunk list \<Rightarrow> (transform_error, bytes) outcome" where
  "new_vp8x encoded chunks =
     and_then (webp_canvas_info encoded chunks) (\<lambda>(width, height, has_alpha).
       if width = 0 \<or> height = 0 \<or> push_bit 24 1 < width \<or> push_bit 24 1 < height
       then Err (EncodeFailed ''cannot inject metadata: WebP canvas size is out of range'')
       else Ok ([if has_alpha \<or> webp_has chunks (ascii ''ALPH'') then ALPHA_FLAG else 0, 0, 0, 0] @
         u24_le (width - 1) @ u24_le (height - 1)))"

definition vp8x_payload :: "bytes \<Rightarrow> webp_chunk list \<Rightarrow> (transform_error, bytes) outcome" where
  "vp8x_payload encoded chunks =
     (case find_chunk chunks (ascii ''VP8X'') of
        Some c \<Rightarrow>
          if 10 \<le> wc_end c - wc_start c then slice encoded (wc_start c) (wc_start c + 10)
          else new_vp8x encoded chunks
      | None \<Rightarrow> new_vp8x encoded chunks)"

definition set_flag :: "bool \<Rightarrow> u8 \<Rightarrow> bytes \<Rightarrow> bytes" where
  "set_flag b flag vp8x = (if b then vp8x[0 := vp8x ! 0 OR flag] else vp8x)"

definition push_existing :: "bytes \<Rightarrow> webp_chunk list \<Rightarrow> bytes \<Rightarrow> bytes \<Rightarrow> (transform_error, bytes) outcome" where
  "push_existing encoded chunks fourcc body =
     (case find_chunk chunks fourcc of
        Some c \<Rightarrow> map_ok (push_webp_chunk body fourcc) (slice encoded (wc_start c) (wc_end c))
      | None \<Rightarrow> Ok body)"

definition push_or_existing ::
  "bytes \<Rightarrow> webp_chunk list \<Rightarrow> bytes \<Rightarrow> bytes option \<Rightarrow> bytes \<Rightarrow> (transform_error, bytes) outcome" where
  "push_or_existing encoded chunks fourcc new body =
     (case new of
        Some payload \<Rightarrow> Ok (push_webp_chunk body fourcc payload)
      | None \<Rightarrow> push_existing encoded chunks fourcc body)"

definition is_placed :: "bytes \<Rightarrow> bool" where
  "is_placed fourcc \<longleftrightarrow>
     fourcc = ascii ''VP8X'' \<or> fourcc = ascii ''ICCP'' \<or> fourcc = ascii ''EXIF'' \<or> fourcc = ascii ''XMP ''"

fun push_others :: "bytes \<Rightarrow> webp_chunk list \<Rightarrow> bytes \<Rightarrow> (transform_error, bytes) outcome" where
  "push_others encoded [] body = Ok body"
| "push_others encoded (c # cs) body =
     (if is_placed (wc_fourcc c) then push_others encoded cs body
      else and_then (slice encoded (wc_start c) (wc_end c)) (\<lambda>data.
        push_others encoded cs (push_webp_chunk body (wc_fourcc c) data)))"

definition webp_too_big :: transform_error where
  "webp_too_big = EncodeFailed ''cannot inject metadata: WebP output exceeds 4GB''"

definition inject_webp_metadata ::
  "bytes \<Rightarrow> bytes option \<Rightarrow> bytes option \<Rightarrow> bytes option \<Rightarrow> (transform_error, bytes) outcome" where
  "inject_webp_metadata encoded icc exif xmp =
     (if icc = None \<and> exif = None \<and> xmp = None then Ok encoded
      else
        and_then (parse_webp_chunks encoded) (\<lambda>chunks.
        let missing = (\<lambda>fourcc new. if webp_has chunks fourcc then None else new);
            icc' = missing (ascii ''ICCP'') icc;
            exif' = missing (ascii ''EXIF'') exif;
            xmp' = missing (ascii ''XMP '') xmp in
        if icc' = None \<and> exif' = None \<and> xmp' = None then Ok encoded
        else
          and_then (vp8x_payload encoded chunks) (\<lambda>vp8x.
          let vp8x' = set_flag (xmp' \<noteq> None) XMP_FLAG (set_flag (exif' \<noteq> None) EXIF_FLAG
                (set_flag (icc' \<noteq> None) ICC_FLAG vp8x)) in
          and_then (push_or_existing encoded chunks (ascii ''ICCP'') icc'
              (push_webp_chunk [] (ascii ''VP8X'') vp8x')) (\<lambda>body.
          and_then (push_others encoded chunks body) (\<lambda>body.
          and_then (push_or_existing encoded chunks (ascii ''EXIF'') exif' body) (\<lambda>body.
          and_then (push_or_existing encoded chunks (ascii ''XMP '') xmp' body) (\<lambda>body.
            ok_or webp_too_big (riff_container body))))))))"

section \<open>After the encode\<close>

definition without_warning :: "metadata_kind \<Rightarrow> transform_warning list \<Rightarrow> transform_warning list" where
  "without_warning kind = filter (\<lambda>w. w \<noteq> MetadataDropped kind)"

text \<open>An injection that failed leaves bytes and warnings as they were.\<close>

definition inject_with ::
  "metadata_kind \<Rightarrow> (bytes \<Rightarrow> bytes \<Rightarrow> (transform_error, bytes) outcome) \<Rightarrow> bytes option \<Rightarrow>
    bytes \<times> transform_warning list \<Rightarrow> (transform_error, bytes \<times> transform_warning list) outcome" where
  "inject_with kind inject payload = (\<lambda>(encoded, warnings).
     case payload of
       None \<Rightarrow> Ok (encoded, warnings)
     | Some p \<Rightarrow>
         (case inject encoded p of
            Ok result \<Rightarrow> Ok (result, without_warning kind warnings)
          | Err e \<Rightarrow> Ok (encoded, warnings)
          | Panic \<Rightarrow> Panic))"

definition inject_metadata ::
  "bytes \<Rightarrow> media_type \<Rightarrow> retained_metadata \<Rightarrow> bool \<Rightarrow> transform_warning list \<Rightarrow>
    (transform_error, bytes \<times> transform_warning list) outcome" where
  "inject_metadata encoded format metadata lossy_webp warnings =
     (case format of
        Jpeg \<Rightarrow>
          and_then (inject_with Iptc inject_jpeg_iptc (iptc_metadata metadata) (encoded, warnings))
            (inject_with Xmp inject_jpeg_xmp (xmp_metadata metadata))
      | Png \<Rightarrow> inject_with Xmp inject_png_xmp (xmp_metadata metadata) (encoded, warnings)
      | Webp \<Rightarrow>
          (let icc = (if lossy_webp then icc_profile metadata else None);
               exif = (if lossy_webp then exif_metadata metadata else None) in
           case inject_webp_metadata encoded icc exif (xmp_metadata metadata) of
             Ok result \<Rightarrow> Ok (result, without_warning Xmp warnings)
           | Err e \<Rightarrow> Ok (encoded, warnings @ (if icc \<noteq> None then [MetadataDropped Icc] else []) @
               (if exif \<noteq> None then [MetadataDropped Exif] else []))
           | Panic \<Rightarrow> Panic)
      | _ \<Rightarrow> Ok (encoded, warnings))"

section \<open>Injection into a JPEG\<close>

text \<open>The segments the two injections write.\<close>

definition xmp_segment :: "bytes \<Rightarrow> jpeg_part" where
  "xmp_segment xmp = Segment 0 0xE1 (XMP_NAMESPACE @ xmp)"

definition iptc_segment :: "bytes \<Rightarrow> jpeg_part" where
  "iptc_segment iptc = Segment 0 0xED (PHOTOSHOP_NAMESPACE @ ascii ''8BIM'' @ u16_to_be 0x0404 @ [0, 0] @
     u32_to_be (of_nat (length iptc)) @ iptc @ (if even (length iptc) then [] else [0]))"

lemma u16_try_of_nat: "u16_try_from (int n) = (if n < 65536 then Some (of_nat n) else None)"
  by (simp add: u16_try_from_def)

lemma jpeg_bytes_start:
  "\<exists>rest. jpeg_bytes parts t = 0xFF # 0xD8 # rest \<and> rest = concat (map part_bytes parts) @ tail_bytes t"
  by (simp add: jpeg_bytes_def)

lemma inject_jpeg_xmp_segment:
  "inject_jpeg_xmp (jpeg_bytes parts t) xmp =
     (if jpeg_part_ok (xmp_segment xmp) then Ok (jpeg_bytes (xmp_segment xmp # parts) t)
      else Err (EncodeFailed ''XMP payload exceeds the JPEG APP1 segment size limit (64KB)''))"
proof -
  obtain rest where r: "jpeg_bytes parts t = 0xFF # 0xD8 # rest" "rest = concat (map part_bytes parts) @ tail_bytes t"
    using jpeg_bytes_start by blast
  have ok: "jpeg_part_ok (xmp_segment xmp) \<longleftrightarrow> length XMP_NAMESPACE + length xmp + 2 < 65536"
    by (auto simp: xmp_segment_def is_standalone_marker_def)
  show ?thesis
    unfolding ok r(1)
    by (simp only: inject_jpeg_xmp_def Let_def u16_try_of_nat)
      (simp add: access_simps sub_bytes_def jpeg_bytes_def xmp_segment_def marker_bytes_def segment_bytes_def r(2))
qed

lemma inject_jpeg_iptc_segment:
  "inject_jpeg_iptc (jpeg_bytes parts t) iptc =
     (if jpeg_part_ok (iptc_segment iptc) then Ok (jpeg_bytes (iptc_segment iptc # parts) t)
      else Err (EncodeFailed ''IPTC payload exceeds the JPEG APP13 segment size limit (64KB)''))"
proof -
  obtain rest where r: "jpeg_bytes parts t = 0xFF # 0xD8 # rest" "rest = concat (map part_bytes parts) @ tail_bytes t"
    using jpeg_bytes_start by blast
  have len: "length (ascii ''8BIM'') = 4" by (simp add: ascii_def)
  show ?thesis
    unfolding r(1)
    by (simp only: inject_jpeg_iptc_def Let_def u16_try_of_nat)
      (auto simp: access_simps sub_bytes_def jpeg_bytes_def iptc_segment_def marker_bytes_def segment_bytes_def
        r(2) len is_standalone_marker_def)
qed

section \<open>Injection into a PNG\<close>

text \<open>The check value of the CRC, that of the nine digits.\<close>

lemma eight_rounds: "(f ^^ 8) x = f (f (f (f (f (f (f (f x)))))))"
  by (simp add: eval_nat_numeral)

lemma png_crc32_check: "png_crc32 [0x31, 0x32, 0x33, 0x34, 0x35, 0x36, 0x37, 0x38, 0x39] = 0xCBF43926"
  unfolding png_crc32_def foldl.simps crc_byte_def eight_rounds by (simp add: crc_round_def)

definition xmp_chunk :: "bytes \<Rightarrow> png_chunk" where
  "xmp_chunk xmp = Chunk (ascii ''iTXt'') (itxt_data xmp) (u32_to_be (png_crc32 (ascii ''iTXt'' @ itxt_data xmp)))"

lemma inject_png_xmp_chunk:
  assumes "chunk_ok ihdr"
  shows "inject_png_xmp (PNG_SIGNATURE @ chunk_bytes ihdr @ rest) xmp =
    Ok (PNG_SIGNATURE @ chunk_bytes ihdr @ chunk_bytes (xmp_chunk xmp) @ rest)"
proof -
  let ?n = "length (chunk_data ihdr)"
  define bs where "bs = PNG_SIGNATURE @ chunk_bytes ihdr @ rest"
  have len: "length (chunk_type ihdr) = 4" "length (chunk_crc ihdr) = 4" "?n < 2 ^ 32"
    using assms by (simp_all add: chunk_ok_def)
  have total: "length (chunk_bytes ihdr) = 12 + ?n" by (simp add: chunk_bytes_def len)
  have sig: "length PNG_SIGNATURE = 8" by (simp add: PNG_SIGNATURE_def)
  have n: "unat (of_nat ?n :: u32) = ?n" by (rule unat_of_u32_length [OF len(3)])
  have at: "bs ! (8 + i) = u32_to_be (of_nat ?n) ! i" if "i < 4" for i
    using that by (simp add: bs_def chunk_bytes_def nth_append sig)
  have bytes: "[bs ! 8, bs ! 9, bs ! 10, bs ! 11] = u32_to_be (of_nat ?n)"
    using at [of 0] at [of 1] at [of 2] at [of 3] by (simp add: u32_to_be_def)
  then have w: "u32_of_be (bs ! 8) (bs ! 9) (bs ! 10) (bs ! 11) = of_nat ?n"
    using u32_to_be_read [of "of_nat ?n"] unfolding bytes [symmetric] by simp
  have long: "length bs = 8 + 12 + ?n + length rest" by (simp add: bs_def sig total)
  have head: "sub_bytes bs 0 8 = PNG_SIGNATURE"
    "sub_bytes bs 0 (20 + ?n) = PNG_SIGNATURE @ chunk_bytes ihdr"
    "sub_bytes bs (20 + ?n) (length bs) = rest"
    by (simp_all add: sub_bytes_def bs_def sig total)
  have "inject_png_xmp bs xmp = Ok (PNG_SIGNATURE @ chunk_bytes ihdr @ chunk_bytes (xmp_chunk xmp) @ rest)"
    using long head by (simp add: inject_png_xmp_def Let_def access_simps w n xmp_chunk_def chunk_bytes_def)
  then show ?thesis by (simp add: bs_def)
qed

section \<open>Injection into a WebP\<close>

definition view_of :: "bytes \<Rightarrow> webp_chunk list \<Rightarrow> (bytes \<times> bytes) list" where
  "view_of bs cs = map (\<lambda>c. (wc_fourcc c, sub_bytes bs (wc_start c) (wc_end c))) cs"

definition first_of :: "bytes \<Rightarrow> (bytes \<times> bytes) list \<Rightarrow> (bytes \<times> bytes) list" where
  "first_of fourcc items = (case List.find (\<lambda>i. fst i = fourcc) items of Some i \<Rightarrow> [i] | None \<Rightarrow> [])"

definition placed :: "bytes \<Rightarrow> bytes option \<Rightarrow> (bytes \<times> bytes) list \<Rightarrow> (bytes \<times> bytes) list" where
  "placed fourcc new items = (case new of Some p \<Rightarrow> [(fourcc, p)] | None \<Rightarrow> first_of fourcc items)"

lemma find_view:
  "List.find (\<lambda>i. fst i = fourcc) (view_of bs cs) =
     map_option (\<lambda>c. (wc_fourcc c, sub_bytes bs (wc_start c) (wc_end c))) (find_chunk cs fourcc)"
  by (induction cs) (simp_all add: view_of_def find_chunk_def)

lemma find_chunk_Some: "find_chunk cs fourcc = Some c \<Longrightarrow> c \<in> set cs \<and> wc_fourcc c = fourcc"
  by (auto simp: find_chunk_def find_Some_iff)

lemma push_or_existing_view:
  assumes "list_all (chunk_sane bs) cs"
  shows "push_or_existing bs cs fourcc new body =
    Ok (body @ concat (map riff_chunk (placed fourcc new (view_of bs cs))))"
proof (cases new)
  case None
  show ?thesis
  proof (cases "find_chunk cs fourcc")
    case (Some c)
    with find_chunk_Some [OF Some] assms None show ?thesis
      by (simp add: push_or_existing_def push_existing_def placed_def first_of_def find_view list_all_iff
          chunk_sane_def access_simps push_riff)
  qed (use None in \<open>simp add: push_or_existing_def push_existing_def placed_def first_of_def find_view\<close>)
qed (simp add: push_or_existing_def placed_def push_riff)

lemma push_others_view:
  "list_all (chunk_sane bs) cs \<Longrightarrow>
   push_others bs cs body =
     Ok (body @ concat (map riff_chunk (filter (\<lambda>i. \<not> is_placed (fst i)) (view_of bs cs))))"
  by (induction cs arbitrary: body) (simp_all add: view_of_def chunk_sane_def access_simps push_riff)

lemma webp_has_view: "webp_has cs fourcc \<longleftrightarrow> (\<exists>i \<in> set (view_of bs cs). fst i = fourcc)"
  by (auto simp: webp_has_def view_of_def list_ex_iff)

text \<open>The chunks of the answer, from those of the input and the payloads that are new.\<close>

definition injected :: "bytes \<Rightarrow> bytes option \<Rightarrow> bytes option \<Rightarrow> bytes option \<Rightarrow> (bytes \<times> bytes) list \<Rightarrow> (bytes \<times> bytes) list"
where
  "injected vp8x icc exif xmp items =
     (ascii ''VP8X'', vp8x) # placed (ascii ''ICCP'') icc items @ filter (\<lambda>i. \<not> is_placed (fst i)) items @
     placed (ascii ''EXIF'') exif items @ placed (ascii ''XMP '') xmp items"

definition missing_in :: "(bytes \<times> bytes) list \<Rightarrow> bytes \<Rightarrow> bytes option \<Rightarrow> bytes option" where
  "missing_in items fourcc new = (if \<exists>i \<in> set items. fst i = fourcc then None else new)"

lemma inject_webp_view:
  assumes "parse_webp_chunks bs = Ok cs"
    and new: "icc' = missing_in (view_of bs cs) (ascii ''ICCP'') icc"
      "exif' = missing_in (view_of bs cs) (ascii ''EXIF'') exif"
      "xmp' = missing_in (view_of bs cs) (ascii ''XMP '') xmp"
    and some: "\<not> (icc' = None \<and> exif' = None \<and> xmp' = None)"
  shows "inject_webp_metadata bs icc exif xmp =
    and_then (vp8x_payload bs cs) (\<lambda>vp8x.
      ok_or webp_too_big (riff_container (concat (map riff_chunk
        (injected (set_flag (xmp' \<noteq> None) XMP_FLAG (set_flag (exif' \<noteq> None) EXIF_FLAG
          (set_flag (icc' \<noteq> None) ICC_FLAG vp8x))) icc' exif' xmp' (view_of bs cs))))))"
proof -
  have sane: "list_all (chunk_sane bs) cs" by (rule parse_webp_chunks_sane [OF assms(1)])
  have "\<not> (icc = None \<and> exif = None \<and> xmp = None)"
    using some new by (auto simp: missing_in_def split: if_splits)
  moreover have "icc' = (if webp_has cs (ascii ''ICCP'') then None else icc)"
    "exif' = (if webp_has cs (ascii ''EXIF'') then None else exif)"
    "xmp' = (if webp_has cs (ascii ''XMP '') then None else xmp)"
    using new by (simp_all add: missing_in_def webp_has_view [of cs _ bs])
  ultimately show ?thesis
    using assms(1) some
    by (simp only: inject_webp_metadata_def Let_def if_False and_then.simps simp_thms
        push_or_existing_view [OF sane] push_others_view [OF sane] push_riff)
      (simp add: injected_def)
qed

lemma find_member: "List.find P xs = Some i \<Longrightarrow> i \<in> set xs \<and> P i"
  by (induction xs) (auto split: if_splits)

lemma first_of_cases: "first_of f items = [] \<or> (\<exists>i. first_of f items = [i] \<and> i \<in> set items \<and> fst i = f)"
  by (cases "List.find (\<lambda>i. fst i = f) items") (auto simp: first_of_def dest: find_member)

lemma map_of_find: "map_of items f = map_option snd (List.find (\<lambda>i. fst i = f) items)"
  by (induction items) auto

lemma map_of_first: "map_of (first_of f items) g = (if g = f then map_of items f else None)"
proof (cases "List.find (\<lambda>i. fst i = f) items")
  case (Some i)
  then have "fst i = f" by (auto simp: find_Some_iff)
  with Some show ?thesis by (cases i) (simp add: first_of_def map_of_find)
qed (simp add: first_of_def map_of_find)

lemma map_of_placed:
  "map_of (placed f new items) g = (if g = f then (case new of Some p \<Rightarrow> Some p | None \<Rightarrow> map_of items f) else None)"
  by (cases new) (simp_all add: placed_def map_of_first)

lemma map_of_unplaced: "map_of (filter (\<lambda>i. \<not> is_placed (fst i)) items) g = (if is_placed g then None else map_of items g)"
  by (induction items) auto

lemma distinct_fourccs:
  "ascii ''VP8X'' \<noteq> ascii ''ICCP''" "ascii ''VP8X'' \<noteq> ascii ''EXIF''" "ascii ''VP8X'' \<noteq> ascii ''XMP ''"
  "ascii ''ICCP'' \<noteq> ascii ''EXIF''" "ascii ''ICCP'' \<noteq> ascii ''XMP ''" "ascii ''EXIF'' \<noteq> ascii ''XMP ''"
  by (simp_all add: ascii_def)

lemma placed_fourccs:
  "is_placed (ascii ''VP8X'')" "is_placed (ascii ''ICCP'')" "is_placed (ascii ''EXIF'')" "is_placed (ascii ''XMP '')"
  by (simp_all add: is_placed_def)

lemma missing_in_eq: "missing_in items f new = (case map_of items f of None \<Rightarrow> new | Some p \<Rightarrow> None)"
proof -
  have "(\<exists>i \<in> set items. fst i = f) \<longleftrightarrow> map_of items f \<noteq> None"
    by (induction items) auto
  then show ?thesis by (simp add: missing_in_def split: option.split)
qed

lemma lookup_placed:
  assumes "a \<noteq> b" "a \<noteq> c" "a \<noteq> d" "b \<noteq> c" "b \<noteq> d" "c \<noteq> d" "is_placed b" "is_placed c" "is_placed d"
    and out_def: "out = (a, v) # placed b x items @ filter (\<lambda>i. \<not> is_placed (fst i)) items @ placed c y items @ placed d z items"
  shows "map_of out b = (case x of Some p \<Rightarrow> Some p | None \<Rightarrow> map_of items b)"
    "map_of out c = (case y of Some p \<Rightarrow> Some p | None \<Rightarrow> map_of items c)"
    "map_of out d = (case z of Some p \<Rightarrow> Some p | None \<Rightarrow> map_of items d)"
proof -
  have ne: "(b = a) = False" "(c = a) = False" "(d = a) = False" "(c = b) = False" "(d = b) = False" "(d = c) = False"
    "(b = c) = False" "(b = d) = False" "(c = d) = False" using assms(1-6) by auto
  have out: "map_of out g = (if g = a then Some v else
      case (map_of (placed d z items) ++ map_of (placed c y items) ++
        map_of (filter (\<lambda>i. \<not> is_placed (fst i)) items) ++ map_of (placed b x items)) g of r \<Rightarrow> r)" for g
    by (simp add: out_def)
  show "map_of out b = (case x of Some p \<Rightarrow> Some p | None \<Rightarrow> map_of items b)"
    "map_of out c = (case y of Some p \<Rightarrow> Some p | None \<Rightarrow> map_of items c)"
    "map_of out d = (case z of Some p \<Rightarrow> Some p | None \<Rightarrow> map_of items d)"
    unfolding out map_add_def map_of_placed map_of_unplaced ne if_False if_True simp_thms
    using assms(7-9) by (auto split: option.splits)
qed

lemma injected_lookup:
  "map_of (injected v icc exif xmp items) (ascii ''VP8X'') = Some v"
  "map_of (injected v icc exif xmp items) (ascii ''ICCP'') = (case icc of Some p \<Rightarrow> Some p | None \<Rightarrow> map_of items (ascii ''ICCP''))"
  "map_of (injected v icc exif xmp items) (ascii ''EXIF'') = (case exif of Some p \<Rightarrow> Some p | None \<Rightarrow> map_of items (ascii ''EXIF''))"
  "map_of (injected v icc exif xmp items) (ascii ''XMP '') = (case xmp of Some p \<Rightarrow> Some p | None \<Rightarrow> map_of items (ascii ''XMP ''))"
  unfolding injected_def
  by (simp, (rule lookup_placed [OF distinct_fourccs placed_fourccs(2-4) refl])+)

lemma filter_first_of: "is_placed f \<Longrightarrow> filter (\<lambda>i. \<not> is_placed (fst i)) (first_of f items) = []"
  using first_of_cases [of f items] by auto

lemma filter_placed: "is_placed f \<Longrightarrow> filter (\<lambda>i. \<not> is_placed (fst i)) (placed f new items) = []"
  by (cases new) (simp_all add: placed_def filter_first_of)

lemma injected_others:
  "filter (\<lambda>i. \<not> is_placed (fst i)) (injected v icc exif xmp items) = filter (\<lambda>i. \<not> is_placed (fst i)) items"
  by (simp add: injected_def filter_placed placed_fourccs)

lemma injected_fourccs:
  assumes "\<And>c. c \<in> set items \<Longrightarrow> length (fst c) = 4" "c \<in> set (injected v icc exif xmp items)"
  shows "length (fst c) = 4"
proof -
  have four: "length (ascii ''VP8X'') = 4" "length (ascii ''ICCP'') = 4" "length (ascii ''EXIF'') = 4"
    "length (ascii ''XMP '') = 4"
    by (simp_all add: ascii_def)
  have old: "length (fst c) = 4" if "c \<in> set (first_of f items)" for f
    using first_of_cases [of f items] that assms(1) by auto
  have new: "length (fst c) = 4" if "c \<in> set (placed f n items)" "length f = 4" for f n
    using that old [of f] by (cases n) (simp_all add: placed_def)
  have "c = (ascii ''VP8X'', v) \<or> c \<in> set (placed (ascii ''ICCP'') icc items) \<or> c \<in> set items \<or>
      c \<in> set (placed (ascii ''EXIF'') exif items) \<or> c \<in> set (placed (ascii ''XMP '') xmp items)"
    using assms(2) by (simp add: injected_def) blast
  then show ?thesis using assms(1) new four by (elim disjE) simp_all
qed

lemma vp8x_payload_long:
  assumes "vp8x_payload bs cs = Ok v"
  shows "length v = 10"
proof -
  have "length (u24_le w) = 3" for w by (simp add: u24_le_def)
  then have "length v = 10" if "new_vp8x bs cs = Ok v"
    using that by (auto simp: new_vp8x_def split: if_splits prod.splits)
  with assms show ?thesis by (auto simp: vp8x_payload_def split: option.splits if_splits)
qed

definition advertises :: "bytes \<Rightarrow> u8 \<Rightarrow> bool" where
  "advertises vp8x flag \<longleftrightarrow> vp8x ! 0 AND flag = flag"

lemma set_flag_advertises:
  "0 < length v \<Longrightarrow> b \<Longrightarrow> advertises (set_flag b flag v) flag"
  "0 < length v \<Longrightarrow> advertises v f \<Longrightarrow> advertises (set_flag b flag v) f"
  by (auto simp: advertises_def set_flag_def bit_eq_iff bit_simps)

lemma length_set_flag [simp]: "length (set_flag b flag v) = length v"
  by (simp add: set_flag_def)

lemma flags_advertised:
  assumes "length v = 10"
  shows "a \<longrightarrow> advertises (set_flag c h (set_flag b g (set_flag a f v))) f"
    "b \<longrightarrow> advertises (set_flag c h (set_flag b g (set_flag a f v))) g"
    "c \<longrightarrow> advertises (set_flag c h (set_flag b g (set_flag a f v))) h"
proof -
  have pos: "0 < length v" "0 < length (set_flag a f v)" "0 < length (set_flag b g (set_flag a f v))"
    unfolding length_set_flag using assms by simp_all
  show "a \<longrightarrow> advertises (set_flag c h (set_flag b g (set_flag a f v))) f"
    using set_flag_advertises(2) [OF pos(3) set_flag_advertises(2) [OF pos(2) set_flag_advertises(1) [OF pos(1)]]]
    by blast
  show "b \<longrightarrow> advertises (set_flag c h (set_flag b g (set_flag a f v))) g"
    using set_flag_advertises(2) [OF pos(3) set_flag_advertises(1) [OF pos(2)]] by blast
  show "c \<longrightarrow> advertises (set_flag c h (set_flag b g (set_flag a f v))) h"
    using set_flag_advertises(1) [OF pos(3)] by blast
qed

text \<open>
  Injecting into a WebP adds what is missing and nothing else: seen as chunks, each of the
  three metadata payloads of the answer is the one the file had, or the new one where it had
  none; every other chunk is there unchanged and in order; and every payload that was added is
  advertised by its flag in \<open>VP8X\<close>.
\<close>

theorem webp_injection_adds_missing:
  assumes "webp_view bs = Some items" and "inject_webp_metadata bs icc exif xmp = Ok r"
  shows "\<exists>items'. webp_view r = Some items' \<and>
    filter (\<lambda>i. \<not> is_placed (fst i)) items' = filter (\<lambda>i. \<not> is_placed (fst i)) items \<and>
    (\<forall>(fourcc, flag, new) \<in> {(ascii ''ICCP'', ICC_FLAG, icc), (ascii ''EXIF'', EXIF_FLAG, exif),
        (ascii ''XMP '', XMP_FLAG, xmp)}.
       map_of items' fourcc = (case map_of items fourcc of Some p \<Rightarrow> Some p | None \<Rightarrow> new) \<and>
       (map_of items fourcc = None \<and> new \<noteq> None \<longrightarrow>
         (\<exists>v. map_of items' (ascii ''VP8X'') = Some v \<and> advertises v flag)))"
proof -
  obtain cs where cs: "parse_webp_chunks bs = Ok cs" "items = view_of bs cs"
    "\<And>c. c \<in> set items \<Longrightarrow> length (fst c) = 4"
    using webp_view_Some [OF assms(1)] unfolding view_of_def by blast
  define icc' exif' xmp' where d: "icc' = missing_in items (ascii ''ICCP'') icc"
    "exif' = missing_in items (ascii ''EXIF'') exif" "xmp' = missing_in items (ascii ''XMP '') xmp"
  show ?thesis
  proof (cases "icc' = None \<and> exif' = None \<and> xmp' = None")
    case True
    then have none: "\<not> (webp_has cs (ascii ''ICCP'')) \<longrightarrow> icc = None" "\<not> (webp_has cs (ascii ''EXIF'')) \<longrightarrow> exif = None"
      "\<not> (webp_has cs (ascii ''XMP '')) \<longrightarrow> xmp = None"
      by (auto simp: d missing_in_def cs(2) webp_has_view [of cs _ bs] split: if_splits)
    then have "r = bs"
      using assms(2) cs(1) by (auto simp: inject_webp_metadata_def Let_def split: if_splits)
    then show ?thesis
      using assms(1) True by (intro exI [of _ items]) (auto simp: d missing_in_eq split: option.splits)
  next
    case False
    from inject_webp_view [OF cs(1) d [unfolded cs(2)] False, unfolded assms(2)]
    obtain v where v: "vp8x_payload bs cs = Ok v" and
      r: "riff_container (concat (map riff_chunk (injected (set_flag (xmp' \<noteq> None) XMP_FLAG
        (set_flag (exif' \<noteq> None) EXIF_FLAG (set_flag (icc' \<noteq> None) ICC_FLAG v))) icc' exif' xmp' items))) = Some r"
      by (cases "vp8x_payload bs cs") (auto simp: cs(2) dest!: sym [of "Ok r"])
    let ?v = "set_flag (xmp' \<noteq> None) XMP_FLAG (set_flag (exif' \<noteq> None) EXIF_FLAG (set_flag (icc' \<noteq> None) ICC_FLAG v))"
    have view: "webp_view r = Some (injected ?v icc' exif' xmp' items)"
      by (rule webp_view_container [OF riff_ok_of_container r])
        (use r injected_fourccs [OF cs(3)] in auto)
    note flags = flags_advertised [OF vp8x_payload_long [OF v], where a = "icc' \<noteq> None" and b = "exif' \<noteq> None"
        and c = "xmp' \<noteq> None" and f = ICC_FLAG and g = EXIF_FLAG and h = XMP_FLAG]
    have gone: "icc' \<noteq> None \<longleftrightarrow> map_of items (ascii ''ICCP'') = None \<and> icc \<noteq> None"
      "exif' \<noteq> None \<longleftrightarrow> map_of items (ascii ''EXIF'') = None \<and> exif \<noteq> None"
      "xmp' \<noteq> None \<longleftrightarrow> map_of items (ascii ''XMP '') = None \<and> xmp \<noteq> None"
      by (simp_all add: d missing_in_eq split: option.splits)
    have now: "(case icc' of Some p \<Rightarrow> Some p | None \<Rightarrow> map_of items (ascii ''ICCP'')) =
        (case map_of items (ascii ''ICCP'') of Some p \<Rightarrow> Some p | None \<Rightarrow> icc)"
      "(case exif' of Some p \<Rightarrow> Some p | None \<Rightarrow> map_of items (ascii ''EXIF'')) =
        (case map_of items (ascii ''EXIF'') of Some p \<Rightarrow> Some p | None \<Rightarrow> exif)"
      "(case xmp' of Some p \<Rightarrow> Some p | None \<Rightarrow> map_of items (ascii ''XMP '')) =
        (case map_of items (ascii ''XMP '') of Some p \<Rightarrow> Some p | None \<Rightarrow> xmp)"
      by (simp_all add: d missing_in_eq split: option.splits)
    show ?thesis
      by (intro exI [of _ "injected ?v icc' exif' xmp' items"])
        (use view flags gone in \<open>simp add: injected_others injected_lookup now\<close>)
  qed
qed

definition canvas_webp :: bytes where
  "canvas_webp = ascii ''RIFF'' @ [0, 0, 0, 0] @ ascii ''WEBP'' @
     ascii ''VP8X'' @ [10, 0, 0, 0] @ [0, 0, 0, 0, 1, 0, 0, 1, 0, 0] @ ascii ''VP8 '' @ [2, 0, 0, 0, 8, 9]"

definition canvas_webp_xmp :: bytes where
  "canvas_webp_xmp = ascii ''RIFF'' @ [42, 0, 0, 0] @ ascii ''WEBP'' @
     ascii ''VP8X'' @ [10, 0, 0, 0] @ [4, 0, 0, 0, 1, 0, 0, 1, 0, 0] @ ascii ''VP8 '' @ [2, 0, 0, 0, 8, 9] @
     ascii ''XMP '' @ [1, 0, 0, 0, 7, 0]"

lemma canvas_webp_injected: "inject_webp_metadata canvas_webp None None (Some [7]) = Ok canvas_webp_xmp"
  by code_simp

lemma canvas_webp_view:
  "webp_view canvas_webp = Some [(ascii ''VP8X'', [0, 0, 0, 0, 1, 0, 0, 1, 0, 0]), (ascii ''VP8 '', [8, 9])]"
  by code_simp

theorem webp_injection_adds_missing_witness:
  "\<exists>items' v. webp_view canvas_webp_xmp = Some items' \<and> map_of items' (ascii ''XMP '') = Some [7] \<and>
     map_of items' (ascii ''VP8X'') = Some v \<and> advertises v XMP_FLAG"
proof -
  have "map_of [(ascii ''VP8X'', [0, 0, 0, 0, 1, 0, 0, 1, 0, 0 :: u8]), (ascii ''VP8 '', [8, 9])] (ascii ''XMP '') = None"
    by (simp add: ascii_def)
  with webp_injection_adds_missing [OF canvas_webp_view canvas_webp_injected] show ?thesis by auto
qed

section \<open>The whole injection into a JPEG\<close>

definition fitting :: "(bytes \<Rightarrow> jpeg_part) \<Rightarrow> bytes option \<Rightarrow> jpeg_part list" where
  "fitting segment payload =
     (case payload of Some p \<Rightarrow> if jpeg_part_ok (segment p) then [segment p] else [] | None \<Rightarrow> [])"

lemma inject_with_jpeg:
  assumes "\<And>parts p. inject (jpeg_bytes parts t) p =
    (if jpeg_part_ok (segment p) then Ok (jpeg_bytes (segment p # parts) t) else Err e)"
  shows "inject_with kind inject payload (jpeg_bytes parts t, ws) =
    Ok (jpeg_bytes (fitting segment payload @ parts) t,
      if fitting segment payload = [] then ws else without_warning kind ws)"
  using assms by (cases payload) (simp_all add: inject_with_def fitting_def)

lemma not_exif_segments:
  "first_exif (xmp_segment xmp # parts) = first_exif parts"
  "first_exif (iptc_segment iptc # parts) = first_exif parts"
proof -
  have "\<not> starts_with (XMP_NAMESPACE @ xmp) exif_prefix"
    by (simp add: XMP_NAMESPACE_def exif_prefix_def ascii_def)
  then show "first_exif (xmp_segment xmp # parts) = first_exif parts"
    by (simp add: xmp_segment_def strip_prefix_def)
qed (simp add: iptc_segment_def)

lemma first_exif_fitting:
  "first_exif (fitting xmp_segment x @ fitting iptc_segment i @ parts) = first_exif parts"
  by (auto simp: fitting_def not_exif_segments split: option.split)

lemma fitting_ok: "list_all jpeg_part_ok (fitting segment payload)"
  by (auto simp: fitting_def split: option.split)

lemma inject_jpeg_metadata:
  "inject_metadata (jpeg_bytes parts t) Jpeg m lossy ws =
     Ok (jpeg_bytes (fitting xmp_segment (xmp_metadata m) @ fitting iptc_segment (iptc_metadata m) @ parts) t,
       (if fitting xmp_segment (xmp_metadata m) = [] then (\<lambda>w. w) else without_warning Xmp)
         (if fitting iptc_segment (iptc_metadata m) = [] then ws else without_warning Iptc ws))"
  unfolding inject_metadata_def
  using inject_with_jpeg [of inject_jpeg_iptc t iptc_segment, OF inject_jpeg_iptc_segment]
    inject_with_jpeg [of inject_jpeg_xmp t xmp_segment, OF inject_jpeg_xmp_segment]
  by simp

text \<open>
  Injecting into an encoded JPEG puts, right behind its start marker, the XMP segment and
  the IPTC segment of the payloads that fit a segment, in that order, and changes no other
  segment; the orientation the file carries stays what the encoder wrote.
\<close>

theorem jpeg_injection_exact:
  assumes "list_all jpeg_part_ok parts" "tail_ok t"
  shows "\<exists>out ws'. inject_metadata (jpeg_bytes parts t) Jpeg m lossy ws = Ok (out, ws') \<and>
    out = jpeg_bytes (fitting xmp_segment (xmp_metadata m) @ fitting iptc_segment (iptc_metadata m) @ parts) t \<and>
    exif_orientation X Jpeg out = exif_orientation X Jpeg (jpeg_bytes parts t)"
proof -
  have "list_all jpeg_part_ok (fitting xmp_segment (xmp_metadata m) @ fitting iptc_segment (iptc_metadata m) @ parts)"
    using assms(1) by (simp add: fitting_ok)
  from jpeg_exif_payload_bytes [OF this assms(2)] jpeg_exif_payload_bytes [OF assms] show ?thesis
    unfolding inject_jpeg_metadata by (simp add: exif_orientation_def first_exif_fitting)
qed

theorem jpeg_injection_exact_witness:
  "\<exists>out ws'. inject_metadata (jpeg_bytes [Segment 0 0xE1 (exif_prefix @ [0])] (Eoi 0 [])) Jpeg
       \<lparr>exif_metadata = None, icc_profile = None, xmp_metadata = Some [60], iptc_metadata = None\<rparr> False [] = Ok (out, ws') \<and>
     exif_orientation exif_says_six Jpeg out = Ok (Some 6)"
proof -
  let ?m = "\<lparr>exif_metadata = None, icc_profile = None, xmp_metadata = Some [60], iptc_metadata = None\<rparr>"
  have ok: "list_all jpeg_part_ok [Segment 0 0xE1 (exif_prefix @ [0])]" "tail_ok (Eoi 0 [])"
    by (simp_all add: is_standalone_marker_def exif_prefix_def)
  have "exif_orientation exif_says_six Jpeg (jpeg_bytes [Segment 0 0xE1 (exif_prefix @ [0])] (Eoi 0 [])) = Ok (Some 6)"
    by code_simp
  then show ?thesis
    using jpeg_injection_exact [OF ok, of ?m False "[]" exif_says_six] by auto
qed

text \<open>
  Nothing is reported for a payload that does not fit: the format carries XMP, so no warning is
  raised when it is read, and none is when the segment is refused. The output has no XMP and the
  warnings of the transform do not say so.
\<close>

lemma oversized_xmp_lost_without_warning:
  assumes "extract_retained_metadata M input policy auto_orient Jpeg = Ok (Some m, ws)"
    and "xmp_metadata m = Some xmp" "65504 < length xmp"
  shows "inject_metadata (jpeg_bytes parts t) Jpeg m lossy ws =
    Ok (jpeg_bytes (fitting iptc_segment (iptc_metadata m) @ parts) t, [])"
proof -
  have "ws = []"
    using assms(1) by (auto simp: extract_retained_metadata_def retain_supported_def carries_def Let_def
        split: if_splits)
  moreover have "length XMP_NAMESPACE = 29" by (simp add: XMP_NAMESPACE_def ascii_def)
  then have "fitting xmp_segment (xmp_metadata m) = []" using assms(2,3) by (simp add: fitting_def xmp_segment_def)
  ultimately show ?thesis unfolding inject_jpeg_metadata by (simp add: without_warning_def)
qed

end
