(* ===== verification/Error_Class.thy ===== *)
theory Error_Class
  imports Core_Types
begin

text \<open>
  The failure classes of \<open>src/core/error_class.rs\<close> and what the HTTP server says for each
  (\<open>title\<close> and \<open>status\<close> of \<open>src/adapters/server/response.rs\<close>): one table, spelled as a slug for
  the \<open>type\<close> URI and the CLI, in camel case for the Wasm package, and as a status line. A
  response the server refuses a request with is a \<open>problem\<close>: the class and its detail.
\<close>

datatype error_class =
    CInvalidOptions
  | CInvalidInput
  | CDecodeFailed
  | CUnsupportedInputMediaType
  | CUnsupportedOutputMediaType
  | CEncodeFailed
  | CCapabilityMissing
  | CLimitExceeded
  | CInvalidRequest
  | CUnsupportedMediaType
  | CUnauthorized
  | CForbidden
  | CNotFound
  | CMethodNotAllowed
  | CNotAcceptable
  | CRequestTimeout
  | CPayloadTooLarge
  | CUnprocessableEntity
  | CTooManyRequests
  | CInternalError
  | CNotImplemented
  | CBadGateway
  | CServiceUnavailable
  | CLoopDetected

fun slug :: "error_class \<Rightarrow> string" where
  "slug CInvalidOptions = ''invalid-options''"
| "slug CInvalidInput = ''invalid-input''"
| "slug CDecodeFailed = ''decode-failed''"
| "slug CUnsupportedInputMediaType = ''unsupported-input-media-type''"
| "slug CUnsupportedOutputMediaType = ''unsupported-output-media-type''"
| "slug CEncodeFailed = ''encode-failed''"
| "slug CCapabilityMissing = ''capability-missing''"
| "slug CLimitExceeded = ''limit-exceeded''"
| "slug CInvalidRequest = ''invalid-request''"
| "slug CUnsupportedMediaType = ''unsupported-media-type''"
| "slug CUnauthorized = ''unauthorized''"
| "slug CForbidden = ''forbidden''"
| "slug CNotFound = ''not-found''"
| "slug CMethodNotAllowed = ''method-not-allowed''"
| "slug CNotAcceptable = ''not-acceptable''"
| "slug CRequestTimeout = ''request-timeout''"
| "slug CPayloadTooLarge = ''payload-too-large''"
| "slug CUnprocessableEntity = ''unprocessable-entity''"
| "slug CTooManyRequests = ''too-many-requests''"
| "slug CInternalError = ''internal-error''"
| "slug CNotImplemented = ''not-implemented''"
| "slug CBadGateway = ''bad-gateway''"
| "slug CServiceUnavailable = ''service-unavailable''"
| "slug CLoopDetected = ''loop-detected''"

fun camel_case_name :: "error_class \<Rightarrow> string" where
  "camel_case_name CInvalidOptions = ''invalidOptions''"
| "camel_case_name CInvalidInput = ''invalidInput''"
| "camel_case_name CDecodeFailed = ''decodeFailed''"
| "camel_case_name CUnsupportedInputMediaType = ''unsupportedInputMediaType''"
| "camel_case_name CUnsupportedOutputMediaType = ''unsupportedOutputMediaType''"
| "camel_case_name CEncodeFailed = ''encodeFailed''"
| "camel_case_name CCapabilityMissing = ''capabilityMissing''"
| "camel_case_name CLimitExceeded = ''limitExceeded''"
| "camel_case_name CInvalidRequest = ''invalidRequest''"
| "camel_case_name CUnsupportedMediaType = ''unsupportedMediaType''"
| "camel_case_name CUnauthorized = ''unauthorized''"
| "camel_case_name CForbidden = ''forbidden''"
| "camel_case_name CNotFound = ''notFound''"
| "camel_case_name CMethodNotAllowed = ''methodNotAllowed''"
| "camel_case_name CNotAcceptable = ''notAcceptable''"
| "camel_case_name CRequestTimeout = ''requestTimeout''"
| "camel_case_name CPayloadTooLarge = ''payloadTooLarge''"
| "camel_case_name CUnprocessableEntity = ''unprocessableEntity''"
| "camel_case_name CTooManyRequests = ''tooManyRequests''"
| "camel_case_name CInternalError = ''internalError''"
| "camel_case_name CNotImplemented = ''notImplemented''"
| "camel_case_name CBadGateway = ''badGateway''"
| "camel_case_name CServiceUnavailable = ''serviceUnavailable''"
| "camel_case_name CLoopDetected = ''loopDetected''"

fun title :: "error_class \<Rightarrow> string" where
  "title CInvalidOptions = ''Invalid transform options''"
| "title CInvalidInput = ''Invalid input''"
| "title CDecodeFailed = ''Input could not be decoded''"
| "title CUnsupportedInputMediaType = ''Unsupported input media type''"
| "title CUnsupportedOutputMediaType = ''Unsupported output media type''"
| "title CEncodeFailed = ''Output could not be encoded''"
| "title CCapabilityMissing = ''Capability not available''"
| "title CLimitExceeded = ''Limit exceeded''"
| "title CInvalidRequest = ''Invalid request''"
| "title CUnsupportedMediaType = ''Unsupported Media Type''"
| "title CUnauthorized = ''Unauthorized''"
| "title CForbidden = ''Forbidden''"
| "title CNotFound = ''Not Found''"
| "title CMethodNotAllowed = ''Method Not Allowed''"
| "title CNotAcceptable = ''Not Acceptable''"
| "title CRequestTimeout = ''Request Timeout''"
| "title CPayloadTooLarge = ''Payload Too Large''"
| "title CUnprocessableEntity = ''Unprocessable Entity''"
| "title CTooManyRequests = ''Too Many Requests''"
| "title CInternalError = ''Internal Server Error''"
| "title CNotImplemented = ''Not Implemented''"
| "title CBadGateway = ''Bad Gateway''"
| "title CServiceUnavailable = ''Service Unavailable''"
| "title CLoopDetected = ''Loop Detected''"

fun status :: "error_class \<Rightarrow> string \<times> u16" where
  "status CInvalidOptions = (''400 Bad Request'', 400)"
| "status CInvalidInput = (''400 Bad Request'', 400)"
| "status CDecodeFailed = (''400 Bad Request'', 400)"
| "status CUnsupportedInputMediaType = (''415 Unsupported Media Type'', 415)"
| "status CUnsupportedOutputMediaType = (''415 Unsupported Media Type'', 415)"
| "status CEncodeFailed = (''500 Internal Server Error'', 500)"
| "status CCapabilityMissing = (''501 Not Implemented'', 501)"
| "status CLimitExceeded = (''413 Payload Too Large'', 413)"
| "status CInvalidRequest = (''400 Bad Request'', 400)"
| "status CUnsupportedMediaType = (''415 Unsupported Media Type'', 415)"
| "status CUnauthorized = (''401 Unauthorized'', 401)"
| "status CForbidden = (''403 Forbidden'', 403)"
| "status CNotFound = (''404 Not Found'', 404)"
| "status CMethodNotAllowed = (''405 Method Not Allowed'', 405)"
| "status CNotAcceptable = (''406 Not Acceptable'', 406)"
| "status CRequestTimeout = (''408 Request Timeout'', 408)"
| "status CPayloadTooLarge = (''413 Payload Too Large'', 413)"
| "status CUnprocessableEntity = (''422 Unprocessable Entity'', 422)"
| "status CTooManyRequests = (''429 Too Many Requests'', 429)"
| "status CInternalError = (''500 Internal Server Error'', 500)"
| "status CNotImplemented = (''501 Not Implemented'', 501)"
| "status CBadGateway = (''502 Bad Gateway'', 502)"
| "status CServiceUnavailable = (''503 Service Unavailable'', 503)"
| "status CLoopDetected = (''508 Loop Detected'', 508)"

definition PROBLEM_TYPES_URL :: string where
  "PROBLEM_TYPES_URL = ''https://github.com/nao1215/truss/blob/main/docs/problems.md''"

definition uri :: "error_class \<Rightarrow> string" where
  "uri c = PROBLEM_TYPES_URL @ ''#'' @ slug c"

fun class_of :: "transform_error \<Rightarrow> error_class" where
  "class_of (InvalidInput _) = CInvalidInput"
| "class_of (InvalidOptions _) = CInvalidOptions"
| "class_of (UnsupportedInputMediaType _) = CUnsupportedInputMediaType"
| "class_of (UnsupportedOutputMediaType _) = CUnsupportedOutputMediaType"
| "class_of (DecodeFailed _) = CDecodeFailed"
| "class_of (EncodeFailed _) = CEncodeFailed"
| "class_of (CapabilityMissing _) = CCapabilityMissing"
| "class_of (LimitExceeded _) = CLimitExceeded"

text \<open>\<open>problem_response\<close> and the constructors that name only a class.\<close>

datatype problem = Problem (problem_class: error_class) (problem_detail: string)

definition bad_request_response :: "string \<Rightarrow> problem" where
  "bad_request_response m = Problem CInvalidRequest m"
definition payload_too_large_response :: "string \<Rightarrow> problem" where
  "payload_too_large_response m = Problem CPayloadTooLarge m"
definition request_timeout_response :: "string \<Rightarrow> problem" where
  "request_timeout_response m = Problem CRequestTimeout m"
definition internal_error_response :: "string \<Rightarrow> problem" where
  "internal_error_response m = Problem CInternalError m"
definition not_implemented_response :: "string \<Rightarrow> problem" where
  "not_implemented_response m = Problem CNotImplemented m"
definition not_found_response :: "string \<Rightarrow> problem" where
  "not_found_response m = Problem CNotFound m"
definition not_acceptable_response :: "string \<Rightarrow> problem" where
  "not_acceptable_response m = Problem CNotAcceptable m"

definition problem_status :: "problem \<Rightarrow> u16" where
  "problem_status p = snd (status (problem_class p))"

section \<open>One class, three spellings\<close>

text \<open>The camel case of a slug: every hyphen is dropped and the letter after it is raised.\<close>

fun camelize :: "string \<Rightarrow> string" where
  "camelize [] = []"
| "camelize [c] = [c]"
| "camelize (c # d # s) =
     (if c = CHR ''-'' then ascii_upper_char d # camelize s else c # camelize (d # s))"

text \<open>
  The three spellings of a failure class are one name: the camel case the Wasm package
  reports is computed from the slug, two classes never share a slug or a \<open>type\<close> URI, and the
  status line of a class starts with its own status code and is an error status.
\<close>

theorem class_spellings_agree:
  "camel_case_name c = camelize (slug c) \<and>
   (slug c = slug d \<longleftrightarrow> c = d) \<and> (uri c = uri d \<longleftrightarrow> c = d) \<and>
   (\<exists>reason. fst (status c) = show_word (snd (status c)) @ '' '' @ reason) \<and>
   400 \<le> unat (snd (status c)) \<and> unat (snd (status c)) < 600"
proof -
  have camel: "camel_case_name c = camelize (slug c)"
    by (cases c; hypsubst; code_simp)
  have inj: "slug c = slug d \<longleftrightarrow> c = d" by (cases c; cases d) simp_all
  have "starts_with (fst (status c)) (show_word (snd (status c)) @ '' '')"
    by (cases c; hypsubst; code_simp)
  then have line: "\<exists>reason. fst (status c) = show_word (snd (status c)) @ '' '' @ reason"
    by (auto dest: starts_withE)
  have range: "400 \<le> unat (snd (status c)) \<and> unat (snd (status c)) < 600"
    by (cases c) simp_all
  show ?thesis using camel inj line range by (simp add: uri_def)
qed

end
