(* ===== verification/Http_Parse.thy ===== *)
theory Http_Parse
  imports Error_Class
begin

text \<open>
  The HTTP/1.1 reader of \<open>src/adapters/server/http_parse.rs\<close>: the two phases that read a
  request off a connection, the request line and header grammar, \<open>Content-Length\<close>, the list
  headers, the storage path, and the search for a multipart boundary.

  A connection is the list of the reads it will answer: for each one, whether the header
  deadline has passed by the time it is attempted, and what it returns. The end of the list is
  the client's end of stream. A refusal is a \<open>problem\<close>.
\<close>

section \<open>Text of a request\<close>

type_synonym headers = "(string \<times> string) list"

text \<open>\<open>str::split_whitespace\<close>: the maximal runs of characters that are not white space.\<close>

fun take_word :: "string \<Rightarrow> string \<times> string" where
  "take_word [] = ([], [])"
| "take_word (c # s) =
     (if leading_ws (c # s) \<noteq> 0 then ([], c # s) else (let (w, r) = take_word s in (c # w, r)))"

lemma take_word_length: "take_word s = (w, r) \<Longrightarrow> length w + length r = length s"
  by (induction s arbitrary: w r) (auto split: if_splits prod.splits)

lemma take_word_progress: "leading_ws s = 0 \<Longrightarrow> s \<noteq> [] \<Longrightarrow> fst (take_word s) \<noteq> []"
  by (cases s) (auto split: prod.split)

lemma trim_start_no_ws: "leading_ws (trim_start s) = 0"
  by (induction s rule: trim_start.induct) (metis trim_start.simps)

function split_whitespace :: "string \<Rightarrow> string list" where
  "split_whitespace s0 =
     (let s = trim_start s0 in
      if s = [] then [] else fst (take_word s) # split_whitespace (snd (take_word s)))"
  by pat_completeness auto
termination
proof (relation "measure length", simp)
  fix s0 s :: string
  assume s: "s = trim_start s0" and ne: "s \<noteq> []"
  then have "fst (take_word s) \<noteq> []" using trim_start_no_ws take_word_progress by blast
  moreover have "length (fst (take_word s)) + length (snd (take_word s)) = length s"
    by (rule take_word_length) simp
  moreover have "length s \<le> length s0"
    using trim_start_suffix [of s0] s by (metis le_add2 length_append)
  ultimately show "(snd (take_word s), s0) \<in> measure length" by (cases "fst (take_word s)") auto
qed

declare split_whitespace.simps [simp del]

text \<open>\<open>str::split("\r\n")\<close>\<close>

fun split_crlf :: "string \<Rightarrow> string list" where
  "split_crlf [] = [[]]"
| "split_crlf [c] = [[c]]"
| "split_crlf (c # d # s) =
     (if c = CHR 0x0D \<and> d = CHR 0x0A then [] # split_crlf s
      else (case split_crlf (d # s) of [] \<Rightarrow> [[c]] | p # ps \<Rightarrow> (c # p) # ps))"

definition header_value :: "headers \<Rightarrow> string \<Rightarrow> string option" where
  "header_value hs name = map_of hs name"

definition path_of_target :: "string \<Rightarrow> string" where
  "path_of_target target = hd (split_on CHR ''?'' target)"

definition query_of_target :: "string \<Rightarrow> string option" where
  "query_of_target target = map_option snd (split_once CHR ''?'' target)"

definition parse_request_line :: "string \<Rightarrow> (problem, string \<times> string \<times> string) outcome" where
  "parse_request_line line =
     (case split_whitespace line of
        [] \<Rightarrow> Err (bad_request_response ''request line is missing an HTTP method'')
      | [_] \<Rightarrow> Err (bad_request_response ''request line is missing a target path'')
      | [_, _] \<Rightarrow> Err (bad_request_response ''request line is missing an HTTP version'')
      | [method, target, version] \<Rightarrow> Ok (method, target, version)
      | _ \<Rightarrow> Err (bad_request_response ''request line has too many fields''))"

definition SINGLETON_HEADERS :: "string list" where
  "SINGLETON_HEADERS =
     [''host'', ''authorization'', ''content-length'', ''content-type'', ''transfer-encoding'']"

fun header_lines :: "string list \<Rightarrow> (problem, headers) outcome" where
  "header_lines [] = Ok []"
| "header_lines (line # lines) =
     (if line = [] then header_lines lines
      else case split_once CHR '':'' line of
        None \<Rightarrow> Err (bad_request_response ''request headers must use `name: value` syntax'')
      | Some (name, val) \<Rightarrow>
          if name \<noteq> trim name \<or> name = [] then
            Err (bad_request_response ''header name must not be empty or contain leading/trailing whitespace'')
          else map_ok (\<lambda>hs. (ascii_lower name, trim val) # hs) (header_lines lines))"

definition header_count :: "headers \<Rightarrow> string \<Rightarrow> nat" where
  "header_count hs name = length (filter (\<lambda>(n, _). n = name) hs)"

fun check_singletons :: "string list \<Rightarrow> headers \<Rightarrow> (problem, unit) outcome" where
  "check_singletons [] hs = Ok ()"
| "check_singletons (s # ss) hs =
     (if 1 < header_count hs s
      then Err (bad_request_response (''duplicate `'' @ s @ ''` header is not allowed''))
      else check_singletons ss hs)"

definition parse_headers :: "string list \<Rightarrow> (problem, headers) outcome" where
  "parse_headers lines =
     and_then (header_lines lines) (\<lambda>hs.
     and_then (check_singletons SINGLETON_HEADERS hs) (\<lambda>_.
       if list_ex (\<lambda>(n, _). n = ''transfer-encoding'') hs
       then Err (not_implemented_response
         ''Transfer-Encoding is not supported; use Content-Length instead'')
       else Ok hs))"

definition require_host_when_the_version_demands_one ::
  "string \<Rightarrow> headers \<Rightarrow> (problem, unit) outcome" where
  "require_host_when_the_version_demands_one version hs =
     (if \<not> eq_ignore_ascii_case version ''HTTP/1.1'' then Ok ()
      else case header_value hs ''host'' of
          Some v \<Rightarrow> if trim v \<noteq> [] then Ok ()
            else Err (bad_request_response ''HTTP/1.1 requests must include a non-empty `host` header'')
        | None \<Rightarrow> Err (bad_request_response ''HTTP/1.1 requests must include a non-empty `host` header''))"

definition usize_max_int :: int where "usize_max_int = 18446744073709551615"

definition parse_content_length :: "headers \<Rightarrow> (problem, nat) outcome" where
  "parse_content_length hs =
     (case header_value hs ''content-length'' of
        None \<Rightarrow> Ok 0
      | Some v \<Rightarrow>
          if v = [] \<or> \<not> list_all is_ascii_digit v
          then Err (bad_request_response ''content-length must be a non-negative integer'')
          else case parse_unsigned usize_max_int v of
              Inr n \<Rightarrow> Ok (nat n)
            | Inl _ \<Rightarrow> Err (bad_request_response
                ''content-length is out of range: number too large to fit in target type''))"

definition content_type_matches :: "string \<Rightarrow> string \<Rightarrow> bool" where
  "content_type_matches v expected \<longleftrightarrow> eq_ignore_ascii_case (trim (hd (split_on CHR '';'' v))) expected"

definition MAX_HEADER_BYTES :: nat where "MAX_HEADER_BYTES = 16 * 1024"
definition MAX_REQUEST_BODY_BYTES :: nat where "MAX_REQUEST_BODY_BYTES = 1024 * 1024"
definition CHUNK_READ_SIZE :: nat where "CHUNK_READ_SIZE = 4096"

definition max_body_for_headers :: "headers \<Rightarrow> nat \<Rightarrow> nat" where
  "max_body_for_headers hs max_upload =
     (if list_ex (\<lambda>(n, v). n = ''content-type'' \<and> content_type_matches v ''multipart/form-data'') hs
      then max_upload else MAX_REQUEST_BODY_BYTES)"

definition header_list_contains :: "string \<Rightarrow> string \<Rightarrow> bool" where
  "header_list_contains v token \<longleftrightarrow>
     list_ex (\<lambda>item. eq_ignore_ascii_case (trim item) token) (split_on CHR '','' v)"

text \<open>The q value of a parameter list: the first parameter that is one and reads as a number.\<close>

fun q_param :: "string list \<Rightarrow> float_val option" where
  "q_param [] = None"
| "q_param (p # ps) =
     (case strip_prefix (trim p) ''q'' of
        None \<Rightarrow> q_param ps
      | Some r \<Rightarrow>
          (case strip_prefix (trim_start r) ''='' of
             None \<Rightarrow> q_param ps
           | Some v \<Rightarrow> (case parse_f32 (trim_start v) of None \<Rightarrow> q_param ps | Some q \<Rightarrow> Some q)))"

fun accepts_encoding_items :: "string list \<Rightarrow> string \<Rightarrow> bool" where
  "accepts_encoding_items [] encoding = False"
| "accepts_encoding_items (i # is) encoding =
     (let item = trim i;
          (name, params) = (case split_once CHR '';'' item of
             Some (n, p) \<Rightarrow> (trim n, Some p) | None \<Rightarrow> (item, None))
      in if \<not> eq_ignore_ascii_case name encoding \<and> name \<noteq> ''*''
         then accepts_encoding_items is encoding
         else case Option.bind params (\<lambda>p. q_param (split_on CHR '';'' p)) of
             Some q \<Rightarrow> float_lt (Fin 0) q
           | None \<Rightarrow> True)"

definition accepts_encoding :: "string \<Rightarrow> string \<Rightarrow> bool" where
  "accepts_encoding v encoding = accepts_encoding_items (split_on CHR '','' v) encoding"

section \<open>Reading a request\<close>

datatype read_result = Received bytes | TimedOut string | ReadFailed string \<comment> \<open>with the error's text\<close>

record read_event =
  past_deadline :: bool
  answer :: read_result

record partial_request =
  pr_method :: string
  pr_target :: string
  pr_version :: string
  pr_headers :: headers
  pr_overflow :: bytes
  pr_content_length :: nat

record http_request =
  hr_method :: string
  hr_target :: string
  hr_version :: string
  hr_headers :: headers
  hr_body :: bytes

record read_error =
  re_method :: "string option"
  re_response :: problem

definition crlf2 :: bytes where "crlf2 = [0x0D, 0x0A, 0x0D, 0x0A]"

definition find_header_terminator :: "bytes \<Rightarrow> nat option" where
  "find_header_terminator buffer = find_sub buffer crlf2"

definition headers_too_large :: problem where
  "headers_too_large = payload_too_large_response ''request headers are too large''"

definition headers_late :: problem where
  "headers_late = request_timeout_response ''the HTTP headers were not delivered in time''"

text \<open>
  The loop that fills the buffer until it holds the header terminator: the answer is the
  terminator's index, the buffer, and what the connection still has to say. An empty read is
  the end of the stream.
\<close>

fun await_headers ::
  "nat \<Rightarrow> bool \<Rightarrow> bytes \<Rightarrow> read_event list \<Rightarrow>
    (problem, nat \<times> bytes \<times> read_event list) outcome" where
  "await_headers max_upload has_deadline buffer events =
     (case find_header_terminator buffer of
        Some i \<Rightarrow> if MAX_HEADER_BYTES < i then Err headers_too_large else Ok (i, buffer, events)
      | None \<Rightarrow>
          (case events of
             [] \<Rightarrow> Err (bad_request_response ''request ended before the HTTP headers were complete'')
           | e # es \<Rightarrow>
               if has_deadline \<and> past_deadline e then Err headers_late
               else case answer e of
                   TimedOut m \<Rightarrow> Err headers_late
                 | ReadFailed m \<Rightarrow> Err (internal_error_response (''failed to read request: '' @ m))
                 | Received chunk \<Rightarrow>
                     if chunk = [] then
                       Err (bad_request_response ''request ended before the HTTP headers were complete'')
                     else
                       let buffer' = buffer @ chunk in
                       if MAX_HEADER_BYTES + max_upload < length buffer'
                       then Err (payload_too_large_response ''request is too large'')
                       else case find_header_terminator buffer' of
                           Some i \<Rightarrow>
                             if MAX_HEADER_BYTES < i then Err headers_too_large
                             else Ok (i, buffer', es)
                         | None \<Rightarrow>
                             if MAX_HEADER_BYTES < length buffer' then Err headers_too_large
                             else await_headers max_upload has_deadline buffer' es))"

declare await_headers.simps [simp del]

definition without_method :: "problem \<Rightarrow> read_error" where
  "without_method p = \<lparr>re_method = None, re_response = p\<rparr>"

definition with_method :: "string \<Rightarrow> problem \<Rightarrow> read_error" where
  "with_method m p = \<lparr>re_method = Some m, re_response = p\<rparr>"

text \<open>What the header block says, once it is complete: the part after the loop.\<close>

definition parse_header_block ::
  "nat \<Rightarrow> bytes \<Rightarrow> (read_error, string \<times> string \<times> string \<times> headers \<times> nat) outcome" where
  "parse_header_block max_upload block =
     and_then (ok_or (without_method (bad_request_response ''request headers must be valid UTF-8''))
       (str_from_utf8 block)) (\<lambda>text.
     let lines = split_crlf text in
     and_then (map_err without_method (parse_request_line (hd lines))) (\<lambda>(method, target, version).
     and_then (map_err (with_method method) (parse_headers (tl lines))) (\<lambda>hs.
     and_then (map_err (with_method method)
       (require_host_when_the_version_demands_one version hs)) (\<lambda>_.
     and_then (map_err (with_method method) (parse_content_length hs)) (\<lambda>n.
       if max_body_for_headers hs max_upload < n
       then Err (with_method method (payload_too_large_response ''request body is too large''))
       else Ok (method, target, version, hs, n))))))"

definition read_request_headers ::
  "nat \<Rightarrow> bool \<Rightarrow> bytes \<Rightarrow> read_event list \<Rightarrow>
    (read_error, partial_request \<times> read_event list) outcome" where
  "read_request_headers max_upload has_deadline carried_over events =
     and_then (map_err without_method (await_headers max_upload has_deadline carried_over events))
       (\<lambda>(header_end, buffer, rest).
     and_then (parse_header_block max_upload (take header_end buffer))
       (\<lambda>(method, target, version, hs, n).
         Ok (\<lparr>pr_method = method, pr_target = target, pr_version = version, pr_headers = hs,
           pr_overflow = drop (header_end + 4) buffer, pr_content_length = n\<rparr>, rest)))"

fun fill_body :: "nat \<Rightarrow> bytes \<Rightarrow> read_event list \<Rightarrow> (problem, bytes \<times> read_event list) outcome" where
  "fill_body n body events =
     (if n \<le> length body then Ok (body, events)
      else case events of
          [] \<Rightarrow> Err (bad_request_response ''request body was truncated'')
        | e # es \<Rightarrow>
            (case answer e of
               Received chunk \<Rightarrow>
                 if chunk = [] then Err (bad_request_response ''request body was truncated'')
                 else fill_body n (body @ chunk) es
             | TimedOut m \<Rightarrow> Err (internal_error_response (''failed to read request: '' @ m))
             | ReadFailed m \<Rightarrow> Err (internal_error_response (''failed to read request: '' @ m))))"

declare fill_body.simps [simp del]

definition read_request_body ::
  "partial_request \<Rightarrow> read_event list \<Rightarrow>
    (problem, http_request \<times> bytes \<times> read_event list) outcome" where
  "read_request_body p events =
     (let n = pr_content_length p;
          (body0, carry0) = (if n < length (pr_overflow p)
             then (take n (pr_overflow p), drop n (pr_overflow p)) else (pr_overflow p, []))
      in and_then (fill_body n body0 events) (\<lambda>(body, rest).
         let (body', carry) = (if n < length body
            then (take n body, drop n body @ carry0) else (body, carry0))
         in Ok (\<lparr>hr_method = pr_method p, hr_target = pr_target p, hr_version = pr_version p,
              hr_headers = pr_headers p, hr_body = body'\<rparr>, carry, rest)))"

section \<open>Storage paths\<close>

fun path_segments :: "string list \<Rightarrow> (problem, string list) outcome" where
  "path_segments [] = Ok []"
| "path_segments (seg # segs) =
     (if seg = [] then path_segments segs
      else if seg = ''.'' \<or> seg = ''..'' then
        Err (bad_request_response ''source path must not contain root, current-directory, or parent-directory segments'')
      else if CHR 0x5C \<in> set seg then
        Err (bad_request_response ''source path must not contain a backslash; the separator is `/`'')
      else if CHR 0x00 \<in> set seg then
        Err (bad_request_response ''source path must not contain a NUL byte'')
      else map_ok (\<lambda>p. seg # p) (path_segments segs))"

datatype io_kind = IoNotFound | IoInvalidInput | IoInvalidFilename | IoOther

type_synonym io_error = "io_kind \<times> string" \<comment> \<open>with the error's text\<close>

definition map_source_io_error :: "io_error \<Rightarrow> problem" where
  "map_source_io_error e =
     (case fst e of
        IoNotFound \<Rightarrow> not_found_response ''source artifact was not found''
      | IoInvalidInput \<Rightarrow> bad_request_response ''source path is not a usable file name''
      | IoInvalidFilename \<Rightarrow> bad_request_response ''source path is not a usable file name''
      | IoOther \<Rightarrow> internal_error_response (''failed to access source artifact: '' @ snd e))"

text \<open>
  A path is the list of its segments; \<open>canonicalize\<close> is the file system's answer, a parameter.
\<close>

definition resolve_storage_path ::
  "(string list \<Rightarrow> io_error + string list) \<Rightarrow> string list \<Rightarrow> string \<Rightarrow> (problem, string list) outcome"
where
  "resolve_storage_path canonicalize storage_root source_path =
     (let trimmed = dropWhile (\<lambda>c. c = CHR ''/'') source_path in
      if trimmed = [] then Err (bad_request_response ''source path must not be empty'')
      else
        and_then (path_segments (split_on CHR ''/'' trimmed)) (\<lambda>relative.
        if relative = [] then Err (bad_request_response ''source path must not be empty'')
        else case canonicalize storage_root of
            Inl e \<Rightarrow> Err (internal_error_response (''failed to resolve storage root: '' @ snd e))
          | Inr canonical_root \<Rightarrow>
              (case canonicalize (storage_root @ relative) of
                 Inl e \<Rightarrow> Err (map_source_io_error e)
               | Inr candidate \<Rightarrow>
                   if \<not> starts_with candidate canonical_root
                   then Err (bad_request_response ''source path escapes the storage root'')
                   else Ok candidate)))"

section \<open>Multipart boundaries\<close>

function find_valid_boundary_from :: "nat \<Rightarrow> bytes \<Rightarrow> bytes \<Rightarrow> nat option" where
  "find_valid_boundary_from start haystack delimiter =
     (if length haystack < start + length delimiter then None
      else case find_sub (drop start haystack) delimiter of
          None \<Rightarrow> None
        | Some pos \<Rightarrow>
            let abs = start + pos; after = abs + length delimiter in
            if after + 2 \<le> length haystack \<and>
               (sub_bytes haystack after (after + 2) = [0x0D, 0x0A] \<or>
                sub_bytes haystack after (after + 2) = [0x2D, 0x2D])
            then Some abs
            else find_valid_boundary_from (abs + 1) haystack delimiter)"
  by pat_completeness auto
termination
proof (relation "measure (\<lambda>(start, haystack, _). length haystack + 1 - start)", goal_cases)
  case (2 start haystack delimiter pos abs after)
  then have "pos + length delimiter \<le> length (drop start haystack)"
    by (auto dest: find_sub_Some)
  with 2 show ?case by auto
qed simp

declare find_valid_boundary_from.simps [simp del]

definition find_valid_boundary :: "bytes \<Rightarrow> bytes \<Rightarrow> nat option" where
  "find_valid_boundary haystack delimiter = find_valid_boundary_from 0 haystack delimiter"

section \<open>Framing does not depend on packets\<close>

lemma find_subI:
  assumes "p \<noteq> []" and "starts_with (drop i s) p" and "\<And>j. j < i \<Longrightarrow> \<not> starts_with (drop j s) p"
  shows "find_sub s p = Some i"
proof (cases "find_sub s p")
  case None
  then show ?thesis using find_sub_None [OF None assms(1)] assms(2) by blast
next
  case (Some k)
  have "\<not> k < i" using find_sub_Some [OF Some] assms(3) by blast
  moreover have "\<not> i < k" using find_sub_least [OF Some] assms(2) by blast
  ultimately show ?thesis using Some by simp
qed

text \<open>The first occurrence in a text is found in every prefix that holds it, and in no shorter one.\<close>

lemma find_sub_prefix:
  assumes "p \<noteq> []" and "find_sub (x @ y) p = Some i"
  shows "find_sub x p = (if i + length p \<le> length x then Some i else None)"
proof -
  note occ = find_sub_Some [OF assms(2)] and least = find_sub_least [OF assms(2)]
  have ext: "starts_with (drop j x) p \<Longrightarrow> starts_with (drop j (x @ y)) p" for j
    using starts_with_length [of "drop j x" p] assms(1)
    by (auto simp: starts_with_def)
  show ?thesis
  proof (cases "i + length p \<le> length x")
    case True
    then have "starts_with (drop i x) p" using occ by (simp add: starts_with_def)
    then have "find_sub x p = Some i" using ext least by (intro find_subI [OF assms(1)]) blast+
    with True show ?thesis by simp
  next
    case False
    have "find_sub x p = None"
    proof (rule ccontr)
      assume "\<not> ?thesis"
      then obtain j where j: "find_sub x p = Some j" by auto
      from find_sub_Some [OF j] False have "j < i" by linarith
      with least have "\<not> starts_with (drop j (x @ y)) p" by blast
      with ext find_sub_Some [OF j] show False by blast
    qed
    with False show ?thesis by simp
  qed
qed

lemma find_sub_extend:
  "p \<noteq> [] \<Longrightarrow> find_sub x p = Some i \<Longrightarrow> find_sub (x @ y) p = Some i"
proof (rule find_subI)
  assume p: "p \<noteq> []" and f: "find_sub x p = Some i"
  note occ = find_sub_Some [OF f]
  then show "starts_with (drop i (x @ y)) p" by (simp add: starts_with_def)
  fix j assume "j < i"
  then have "\<not> starts_with (drop j x) p" by (rule find_sub_least [OF f])
  moreover have "length p \<le> length (drop j x)"
  proof -
    have "j + length p \<le> length x" using \<open>j < i\<close> occ by linarith
    then show ?thesis by simp
  qed
  ultimately show "\<not> starts_with (drop j (x @ y)) p" using \<open>j < i\<close> occ by (simp add: starts_with_def)
qed

definition delivered :: "read_event list \<Rightarrow> bytes" where
  "delivered es = concat (map (\<lambda>e. case answer e of Received c \<Rightarrow> c | _ \<Rightarrow> []) es)"

text \<open>A connection that delivers: no read is late, none fails, and each brings a chunk.\<close>

definition delivers :: "read_event \<Rightarrow> bool" where
  "delivers e \<longleftrightarrow> \<not> past_deadline e \<and>
     (case answer e of Received c \<Rightarrow> c \<noteq> [] \<and> length c \<le> CHUNK_READ_SIZE | _ \<Rightarrow> False)"

lemma delivered_Cons: "delivers e \<Longrightarrow> answer e = Received c \<Longrightarrow> delivered (e # es) = c @ delivered es"
  by (simp add: delivered_def)

lemma deliversE:
  "delivers e \<Longrightarrow> \<exists>c. answer e = Received c \<and> c \<noteq> [] \<and> length c \<le> CHUNK_READ_SIZE \<and> \<not> past_deadline e"
  by (auto simp: delivers_def split: read_result.splits)

lemma await_headers_delivers:
  assumes "list_all delivers es" and "buffer @ delivered es = stream"
    and "find_header_terminator stream = Some i" and "i + 3 \<le> MAX_HEADER_BYTES"
    and "CHUNK_READ_SIZE \<le> max_upload"
  shows "\<exists>buffer' es'. await_headers max_upload dl buffer es = Ok (i, buffer', es') \<and>
    buffer' @ delivered es' = stream \<and> list_all delivers es' \<and> i + 4 \<le> length buffer'"
  using assms(1,2)
proof (induction es arbitrary: buffer)
  case Nil
  then have "find_header_terminator buffer = Some i" using assms(3) by (simp add: delivered_def)
  moreover from this have "i + 4 \<le> length buffer"
    unfolding find_header_terminator_def by (auto dest: find_sub_Some simp: crlf2_def)
  ultimately show ?case using Nil assms(4)
    by (subst await_headers.simps) simp
next
  case (Cons e es)
  have ne: "crlf2 \<noteq> []" and l4: "length crlf2 = 4" by (simp_all add: crlf2_def)
  have here: "find_header_terminator x = (if i + 4 \<le> length x then Some i else None)"
    if "x @ y = stream" for x y
    using find_sub_prefix [OF ne, of x y i] assms(3) that l4 by (simp add: find_header_terminator_def)
  obtain c where c: "answer e = Received c" "c \<noteq> []" "length c \<le> CHUNK_READ_SIZE" "\<not> past_deadline e"
    using Cons.prems(1) deliversE [of e] by auto
  have es: "list_all delivers es" using Cons.prems(1) by simp
  have split: "(buffer @ c) @ delivered es = stream"
    using Cons.prems c delivered_Cons [of e c es] by simp
  show ?case
  proof (cases "i + 4 \<le> length buffer")
    case True
    then have "await_headers max_upload dl buffer (e # es) = Ok (i, buffer, e # es)"
      using here [OF Cons.prems(2)] assms(4) by (subst await_headers.simps) simp
    with True Cons.prems show ?thesis by blast
  next
    case False
    then have none: "find_header_terminator buffer = None" using here [OF Cons.prems(2)] by simp
    have small: "\<not> MAX_HEADER_BYTES + max_upload < length (buffer @ c)"
      using False c(3) assms(4,5) by simp
    show ?thesis
    proof (cases "i + 4 \<le> length (buffer @ c)")
      case True
      then have "await_headers max_upload dl buffer (e # es) = Ok (i, buffer @ c, es)"
        using none c small here [OF split] assms(4) by (subst await_headers.simps) (simp add: Let_def)
      with True split es show ?thesis by blast
    next
      case short: False
      then have "await_headers max_upload dl buffer (e # es) = await_headers max_upload dl (buffer @ c) es"
        using none c small here [OF split] assms(4)
        by (subst await_headers.simps) (simp add: Let_def)
      with Cons.IH [OF es split] show ?thesis by simp
    qed
  qed
qed

lemma fill_body_delivers:
  assumes "list_all delivers es" and "n \<le> length (body @ delivered es)"
  shows "\<exists>body' es'. fill_body n body es = Ok (body', es') \<and>
    body' @ delivered es' = body @ delivered es \<and> n \<le> length body' \<and> list_all delivers es'"
  using assms
proof (induction es arbitrary: body)
  case Nil
  then show ?case by (subst fill_body.simps) (simp add: delivered_def)
next
  case (Cons e es)
  obtain c where c: "answer e = Received c" "c \<noteq> []"
    using Cons.prems(1) deliversE [of e] by auto
  show ?case
  proof (cases "n \<le> length body")
    case True
    then show ?thesis using Cons.prems(1) by (subst fill_body.simps) auto
  next
    case False
    then have "fill_body n body (e # es) = fill_body n (body @ c) es"
      using c by (subst fill_body.simps) simp
    moreover have "delivered (e # es) = c @ delivered es"
      using c Cons.prems(1) by (simp add: delivered_Cons)
    ultimately show ?thesis using Cons.IH [of "body @ c"] Cons.prems by auto
  qed
qed

lemma request_framed:
  assumes "list_all delivers events"
    and "carried @ delivered events = block @ crlf2 @ body @ tail"
    and "find_header_terminator (block @ crlf2) = Some (length block)"
    and "length block + 3 \<le> MAX_HEADER_BYTES" and "CHUNK_READ_SIZE \<le> max_upload"
    and "parse_header_block max_upload block = Ok (m, t, v, hs, length body)"
  shows "\<exists>p rest carry rest'.
    pr_method p = m \<and> pr_target p = t \<and> pr_version p = v \<and> pr_headers p = hs \<and> list_all delivers rest' \<and>
    read_request_headers max_upload dl carried events = Ok (p, rest) \<and>
    read_request_body p rest = Ok (\<lparr>hr_method = m, hr_target = t, hr_version = v,
      hr_headers = hs, hr_body = body\<rparr>, carry, rest') \<and>
    carry @ delivered rest' = tail"
proof -
  let ?n = "length body"
  have "find_header_terminator (block @ crlf2 @ body @ tail) = Some (length block)"
    using find_sub_extend [of crlf2 "block @ crlf2" "length block" "body @ tail"] assms(3)
    by (simp add: find_header_terminator_def crlf2_def)
  from await_headers_delivers [OF assms(1,2) this assms(4,5), of dl]
  obtain buf es where await: "await_headers max_upload dl carried events = Ok (length block, buf, es)"
    and data: "buf @ delivered es = block @ crlf2 @ body @ tail" and ok: "list_all delivers es"
    and long: "length block + 4 \<le> length buf" by blast
  define over where "over = drop (length block + 4) buf"
  have "take (length block) (buf @ delivered es) = block" unfolding data by simp
  then have block: "take (length block) buf = block" using long by simp
  have "drop (length block + 4) (buf @ delivered es) = body @ tail"
    unfolding data by (simp add: crlf2_def)
  then have over: "over @ delivered es = body @ tail" using long by (simp add: over_def)
  define p where "p = \<lparr>pr_method = m, pr_target = t, pr_version = v, pr_headers = hs,
    pr_overflow = over, pr_content_length = ?n\<rparr>"
  have head: "read_request_headers max_upload dl carried events = Ok (p, es)"
    by (simp add: read_request_headers_def await block assms(6) p_def over_def)
  have "\<exists>carry rest'. read_request_body p es = Ok (\<lparr>hr_method = m, hr_target = t, hr_version = v,
      hr_headers = hs, hr_body = body\<rparr>, carry, rest') \<and> carry @ delivered rest' = tail \<and> list_all delivers rest'"
  proof (cases "?n < length over")
    case True
    have "take ?n (over @ delivered es) = body" "drop ?n (over @ delivered es) = tail"
      unfolding over by simp_all
    then have parts: "take ?n over = body" "drop ?n over @ delivered es = tail" using True by simp_all
    have "fill_body ?n body es = Ok (body, es)" by (subst fill_body.simps) simp
    then show ?thesis using True parts ok by (simp add: read_request_body_def p_def)
  next
    case False
    have "?n \<le> length (over @ delivered es)" unfolding over by simp
    from fill_body_delivers [OF ok this] obtain b es' where fill: "fill_body ?n over es = Ok (b, es')"
      and b: "b @ delivered es' = body @ tail" and long': "?n \<le> length b" and ok': "list_all delivers es'"
      using over by auto
    have "take ?n (b @ delivered es') = body" "drop ?n (b @ delivered es') = tail"
      unfolding b by simp_all
    then have parts: "take ?n b = body" "drop ?n b @ delivered es' = tail" using long' by simp_all
    show ?thesis
    proof (cases "?n < length b")
      case True
      then show ?thesis using False fill parts ok' by (simp add: read_request_body_def p_def Let_def)
    next
      case short: False
      have "b = body" using parts(1) short by simp
      moreover have "delivered es' = tail" using parts(2) short by simp
      moreover have "read_request_body p es = Ok (\<lparr>hr_method = m, hr_target = t, hr_version = v,
          hr_headers = hs, hr_body = b\<rparr>, [], es')"
        using False short fill by (simp add: read_request_body_def p_def)
      ultimately show ?thesis using ok' by (intro exI [of _ "[]"] exI [of _ es']) simp
    qed
  qed
  with head show ?thesis by (intro exI [of _ p] exI [of _ es]) (auto simp: p_def)
qed

lemma parsed_head_block:
  assumes "str_from_utf8 block = Some lines_text" and "split_crlf lines_text = line # lines"
    and "parse_request_line line = Ok (m, t, v)" and "parse_headers lines = Ok hs"
    and "require_host_when_the_version_demands_one v hs = Ok ()" and "parse_content_length hs = Ok n"
    and "n \<le> max_body_for_headers hs max_upload"
  shows "parse_header_block max_upload block = Ok (m, t, v, hs, n)"
  using assms by (simp add: parse_header_block_def Let_def)

text \<open>
  C5. A request is framed by its bytes and never by its packets: however a client's bytes are
  split into reads, including a part carried over from the request before, and whatever follows
  them, a block of at most \<open>MAX_HEADER_BYTES - 3\<close> bytes that parses is read as that block, the
  body is exactly the \<open>Content-Length\<close> bytes behind it, and every byte after the body is kept
  for the next request.
\<close>

theorem request_framing_exact:
  assumes "list_all delivers events"
    and "carried @ delivered events = block @ crlf2 @ body @ tail"
    and "find_header_terminator (block @ crlf2) = Some (length block)"
    and "length block + 3 \<le> MAX_HEADER_BYTES" and "CHUNK_READ_SIZE \<le> max_upload"
    and "parse_header_block max_upload block = Ok (m, t, v, hs, length body)"
  shows "\<exists>p rest carry rest'.
    read_request_headers max_upload dl carried events = Ok (p, rest) \<and>
    read_request_body p rest = Ok (\<lparr>hr_method = m, hr_target = t, hr_version = v,
      hr_headers = hs, hr_body = body\<rparr>, carry, rest') \<and>
    carry @ delivered rest' = tail"
  using request_framed [OF assms, of dl] by blast

definition sample_event :: "bytes \<Rightarrow> read_event" where
  "sample_event c = \<lparr>past_deadline = False, answer = Received c\<rparr>"

definition sample_block :: bytes where
  "sample_block = ascii ''PUT /a HTTP/1.0'' @ [0x0D, 0x0A] @ ascii ''Content-Length: 2''"

theorem request_framing_exact_witness:
  "\<exists>p rest carry rest'.
    read_request_headers 4096 True (take 5 sample_block)
      [sample_event (drop 5 sample_block @ [0x0D, 0x0A, 0x0D]), sample_event ([0x0A] @ ascii ''hiGE''),
       sample_event (ascii ''T'')] = Ok (p, rest) \<and>
    read_request_body p rest = Ok (\<lparr>hr_method = ''PUT'', hr_target = ''/a'', hr_version = ''HTTP/1.0'',
      hr_headers = [(''content-length'', ''2'')], hr_body = ascii ''hi''\<rparr>, carry, rest') \<and>
    carry @ delivered rest' = ascii ''GET''"
proof (rule request_framing_exact [where block = sample_block])
  show "list_all delivers [sample_event (drop 5 sample_block @ [0x0D, 0x0A, 0x0D]),
      sample_event ([0x0A] @ ascii ''hiGE''), sample_event (ascii ''T'')]"
    by (simp add: delivers_def sample_event_def sample_block_def CHUNK_READ_SIZE_def ascii_def)
  show "take 5 sample_block @ delivered [sample_event (drop 5 sample_block @ [0x0D, 0x0A, 0x0D]),
      sample_event ([0x0A] @ ascii ''hiGE''), sample_event (ascii ''T'')] =
      sample_block @ crlf2 @ ascii ''hi'' @ ascii ''GET''" by code_simp
  show "find_header_terminator (sample_block @ crlf2) = Some (length sample_block)" by code_simp
  show "length sample_block + 3 \<le> MAX_HEADER_BYTES"
    by (simp add: sample_block_def MAX_HEADER_BYTES_def)
  show "CHUNK_READ_SIZE \<le> 4096" by (simp add: CHUNK_READ_SIZE_def)
  have len: "length (ascii ''hi'') = 2" by code_simp
  show "parse_header_block 4096 sample_block =
      Ok (''PUT'', ''/a'', ''HTTP/1.0'', [(''content-length'', ''2'')], length (ascii ''hi''))"
    unfolding len
    by (rule parsed_head_block [where lines_text = "''PUT /a HTTP/1.0'' @ [CHR 0x0D, CHR 0x0A] @ ''Content-Length: 2''" and
        line = "''PUT /a HTTP/1.0''" and lines = "[''Content-Length: 2'']"])
      (code_simp, code_simp, code_simp, code_simp, code_simp, code_simp,
        simp add: max_body_for_headers_def MAX_REQUEST_BODY_BYTES_def)
qed

section \<open>What the header grammar lets through\<close>

definition singleton_ok :: "headers \<Rightarrow> string \<Rightarrow> bool" where
  "singleton_ok hs s \<longleftrightarrow> header_count hs s \<le> 1"

lemma check_singletons_Ok: "check_singletons ss hs = Ok u \<Longrightarrow> s \<in> set ss \<Longrightarrow> singleton_ok hs s"
  by (induction ss) (auto simp: singleton_ok_def split: if_splits)

lemma header_lines_names:
  "header_lines lines = Ok hs \<Longrightarrow> (n, v) \<in> set hs \<Longrightarrow> n \<noteq> [] \<and> ascii_lower n = n"
  by (induction lines arbitrary: hs)
    (auto simp: ascii_lower_def split: if_splits option.splits simp del: ascii_lower_idem
      dest: arg_cong [of _ _ ascii_lower] simp flip: ascii_lower_idem)

lemma header_count_map_of:
  "header_count hs n \<le> 1 \<Longrightarrow> (n, v) \<in> set hs \<Longrightarrow> map_of hs n = Some v"
proof (induction hs)
  case (Cons h hs)
  show ?case
  proof (cases "fst h = n")
    case True
    then have "filter (\<lambda>(k, _). k = n) hs = []" using Cons.prems(1)
      by (cases h) (simp add: header_count_def)
    then have "(n, v) \<notin> set hs" by (auto simp: filter_empty_conv)
    then show ?thesis using Cons.prems(2) by auto
  next
    case False
    then show ?thesis using Cons by (cases h) (auto simp: header_count_def)
  qed
qed simp

lemma parse_content_length_Ok:
  assumes "parse_content_length hs = Ok n" and "header_value hs ''content-length'' = Some v"
  shows "v \<noteq> [] \<and> list_all is_ascii_digit v \<and> n = decimal_value v \<and> n \<le> usize_max"
proof -
  have ok: "v \<noteq> []" "list_all is_ascii_digit v" using assms
    by (auto simp: parse_content_length_def split: if_splits)
  obtain k where k: "parse_unsigned usize_max_int v = Inr k" "n = nat k"
    using assms by (auto simp: parse_content_length_def split: if_splits sum.splits)
  have "parse_unsigned usize_max_int v = (if int (decimal_value v) \<le> usize_max_int
      then Inr (int (decimal_value v)) else Inl PosOverflow)"
    using parse_unsigned_digits [OF ok(2,1)] by (simp add: usize_max_int_def)
  then have "k = int (decimal_value v)" "k \<le> usize_max_int" using k(1) by (auto split: if_splits)
  with ok k(2) show ?thesis by (simp add: usize_max_def usize_max_int_def)
qed
text \<open>
  C6. There is one reading of an accepted header block: every name is written in lower case and
  none is empty, there is no \<open>Transfer-Encoding\<close>, each of the headers that frame or
  authorise a request occurs at most once, and the body length is the decimal value of the
  only \<open>Content-Length\<close> there is, a number that fits a \<open>usize\<close>, or zero without one.
\<close>

theorem headers_have_one_framing:
  assumes "parse_headers lines = Ok hs" and "parse_content_length hs = Ok n"
  shows "(\<forall>(name, v) \<in> set hs. name \<noteq> [] \<and> ascii_lower name = name \<and> name \<noteq> ''transfer-encoding'') \<and>
    (\<forall>s \<in> set SINGLETON_HEADERS. header_count hs s \<le> 1) \<and>
    (\<forall>v. (''content-length'', v) \<in> set hs \<longrightarrow>
      v \<noteq> [] \<and> list_all is_ascii_digit v \<and> n = decimal_value v \<and> n \<le> usize_max) \<and>
    ((\<forall>v. (''content-length'', v) \<notin> set hs) \<longrightarrow> n = 0)"
proof -
  have lines: "header_lines lines = Ok hs" and single: "check_singletons SINGLETON_HEADERS hs = Ok ()"
    and te: "\<not> list_ex (\<lambda>(n, _). n = ''transfer-encoding'') hs"
    using assms(1) by (auto simp: parse_headers_def split: if_splits)
  have names: "\<forall>(name, v) \<in> set hs. name \<noteq> [] \<and> ascii_lower name = name \<and> name \<noteq> ''transfer-encoding''"
    using header_lines_names [OF lines] te by (auto simp: list_ex_iff)
  have count: "\<forall>s \<in> set SINGLETON_HEADERS. header_count hs s \<le> 1"
    using check_singletons_Ok [OF single] by (simp add: singleton_ok_def)
  then have "header_count hs ''content-length'' \<le> 1" by (simp add: SINGLETON_HEADERS_def)
  then have len: "\<forall>v. (''content-length'', v) \<in> set hs \<longrightarrow>
      v \<noteq> [] \<and> list_all is_ascii_digit v \<and> n = decimal_value v \<and> n \<le> usize_max"
    using header_count_map_of parse_content_length_Ok [OF assms(2)] by (auto simp: header_value_def)
  have "n = 0" if "\<forall>v. (''content-length'', v) \<notin> set hs"
  proof -
    have "map_of hs ''content-length'' = None" using that by (auto simp: map_of_eq_None_iff)
    then show ?thesis using assms(2) by (simp add: parse_content_length_def header_value_def)
  qed
  with names count len show ?thesis by blast
qed

theorem headers_have_one_framing_witness:
  "12 = decimal_value ''12'' \<and> 12 \<le> usize_max"
proof -
  have headers: "parse_headers [''Content-Length:  12'', ''''] = Ok [(''content-length'', ''12'')]"
    by code_simp
  have body: "parse_content_length [(''content-length'', ''12'')] = Ok 12" by code_simp
  show ?thesis using headers_have_one_framing [OF headers body] by simp
qed

text \<open>
  What a gateway in front of the server and the server itself must agree on: a list of lines
  with two lengths, or with a length and a transfer coding, is refused whatever their values.
\<close>

lemma two_lengths_refused:
  assumes "header_lines lines = Ok hs" and "1 < header_count hs ''content-length''"
  shows "\<exists>p. parse_headers lines = Err p"
proof -
  have "\<exists>p. check_singletons SINGLETON_HEADERS hs = Err p"
    using assms(2) by (simp add: SINGLETON_HEADERS_def)
  then show ?thesis using assms(1) by (auto simp: parse_headers_def)
qed

section \<open>Where a storage path may lead\<close>

lemma path_segments_Ok:
  "path_segments segs = Ok rel \<Longrightarrow>
    rel = filter (\<lambda>s. s \<noteq> []) segs \<and>
    list_all (\<lambda>s. s \<noteq> ''.'' \<and> s \<noteq> ''..'' \<and> CHR 0x5C \<notin> set s \<and> CHR 0x00 \<notin> set s) segs"
  by (induction segs arbitrary: rel) (auto split: if_splits)

text \<open>
  C7. What a storage path resolves to lies under the canonical storage root, and what the file
  system is asked for is the root with exactly the non-empty segments the request wrote behind
  it, none of which is \<open>.\<close> or \<open>..\<close> or holds a separator, a backslash or a NUL; a path that
  writes one of those is refused before the file system is asked.
\<close>

theorem storage_path_confined:
  assumes "resolve_storage_path canonicalize storage_root source = Ok file"
  shows "\<exists>rel croot. canonicalize storage_root = Inr croot \<and>
    canonicalize (storage_root @ rel) = Inr file \<and> starts_with file croot \<and>
    rel \<noteq> [] \<and> rel = filter (\<lambda>s. s \<noteq> []) (split_on CHR ''/'' source) \<and>
    (\<forall>s \<in> set rel. s \<noteq> ''.'' \<and> s \<noteq> ''..'' \<and> CHR ''/'' \<notin> set s \<and> CHR 0x5C \<notin> set s \<and>
      CHR 0x00 \<notin> set s)"
proof -
  let ?t = "dropWhile (\<lambda>c. c = CHR ''/'') source"
  obtain rel croot where segs: "path_segments (split_on CHR ''/'' ?t) = Ok rel" and "rel \<noteq> []"
    and fs: "canonicalize storage_root = Inr croot" "canonicalize (storage_root @ rel) = Inr file"
      "starts_with file croot"
    using assms by (auto simp: resolve_storage_path_def Let_def split: if_splits sum.splits)
  have lead: "filter (\<lambda>s. s \<noteq> []) (split_on CHR ''/'' (dropWhile (\<lambda>c. c = CHR ''/'') s)) =
      filter (\<lambda>s. s \<noteq> []) (split_on CHR ''/'' s)" for s
    by (induction s) auto
  have rel: "rel = filter (\<lambda>s. s \<noteq> []) (split_on CHR ''/'' ?t)"
    and ok: "list_all (\<lambda>s. s \<noteq> ''.'' \<and> s \<noteq> ''..'' \<and> CHR 0x5C \<notin> set s \<and> CHR 0x00 \<notin> set s)
      (split_on CHR ''/'' ?t)"
    using path_segments_Ok [OF segs] by blast+
  have "\<forall>s \<in> set rel. s \<noteq> ''.'' \<and> s \<noteq> ''..'' \<and> CHR ''/'' \<notin> set s \<and> CHR 0x5C \<notin> set s \<and> CHR 0x00 \<notin> set s"
    using ok split_on_pieces [of _ "CHR ''/''" ?t] unfolding rel by (auto simp: list_all_iff)
  with fs \<open>rel \<noteq> []\<close> rel lead show ?thesis by metis
qed

theorem storage_path_confined_witness:
  "\<exists>rel croot. Inr [''data'', ''img''] = (Inr croot :: io_error + string list) \<and>
    Inr ([''data'', ''img''] @ rel) = (Inr [''data'', ''img'', ''a'', ''b.png''] :: io_error + string list) \<and>
    starts_with [''data'', ''img'', ''a'', ''b.png''] croot \<and>
    rel = filter (\<lambda>s. s \<noteq> []) (split_on CHR ''/'' ''//a//b.png'')"
proof -
  have "resolve_storage_path Inr [''data'', ''img''] ''//a//b.png'' =
      Ok [''data'', ''img'', ''a'', ''b.png'']" by code_simp
  from storage_path_confined [OF this] show ?thesis by blast
qed

section \<open>Multipart boundaries\<close>

definition boundary_at :: "bytes \<Rightarrow> bytes \<Rightarrow> nat \<Rightarrow> bool" where
  "boundary_at haystack delimiter i \<longleftrightarrow>
     starts_with (drop i haystack) (delimiter @ [0x0D, 0x0A]) \<or>
     starts_with (drop i haystack) (delimiter @ [0x2D, 0x2D])"

lemma starts_with_append_iff:
  "starts_with s (p @ q) \<longleftrightarrow> starts_with s p \<and> starts_with (drop (length p) s) q"
proof
  assume "starts_with s (p @ q)"
  then obtain r where "s = p @ q @ r" using starts_withE by fastforce
  then show "starts_with s p \<and> starts_with (drop (length p) s) q" by simp
next
  assume "starts_with s p \<and> starts_with (drop (length p) s) q"
  then obtain r r' where "s = p @ r" "drop (length p) s = q @ r'" using starts_withE by metis
  then have "s = (p @ q) @ r'" by simp
  then show "starts_with s (p @ q)" by (metis starts_with_append)
qed

lemma sub_bytes_two:
  assumes "i + 2 \<le> length s" and "length q = 2"
  shows "sub_bytes s i (i + 2) = q \<longleftrightarrow> starts_with (drop i s) q"
  using assms by (simp add: sub_bytes_def starts_with_def)

lemma boundary_at_iff:
  assumes "starts_with (drop i h) d"
  shows "boundary_at h d i \<longleftrightarrow> i + length d + 2 \<le> length h \<and>
    (sub_bytes h (i + length d) (i + length d + 2) = [0x0D, 0x0A] \<or>
     sub_bytes h (i + length d) (i + length d + 2) = [0x2D, 0x2D])"
proof (cases "i + length d + 2 \<le> length h")
  case True
  then show ?thesis using assms sub_bytes_two [OF True]
    by (simp add: boundary_at_def starts_with_append_iff add.commute)
next
  case False
  have "length q = 2 \<Longrightarrow> \<not> starts_with (drop i h) (d @ q)" for q
    using False starts_with_length [of "drop i h" "d @ q"] by auto
  then show ?thesis using False by (simp add: boundary_at_def)
qed

lemma find_valid_boundary_from_correct:
  assumes "d \<noteq> []"
  shows "case find_valid_boundary_from n h d of
      None \<Rightarrow> \<forall>j \<ge> n. \<not> boundary_at h d j
    | Some i \<Rightarrow> n \<le> i \<and> boundary_at h d i \<and> (\<forall>j. n \<le> j \<and> j < i \<longrightarrow> \<not> boundary_at h d j)"
  using assms
proof (induction n h d rule: find_valid_boundary_from.induct)
  case (1 n h d)
  have short: "\<not> boundary_at h d j" if "n \<le> j" "length h < n + length d" for j
    using that starts_with_length [of "drop j h" d]
    by (auto simp: boundary_at_def starts_with_append_iff)
  have sub: "starts_with (drop j h) d" if "boundary_at h d j" for j
    using that by (auto simp: boundary_at_def starts_with_append_iff)
  show ?case
  proof (cases "length h < n + length d")
    case True
    then show ?thesis using short by (subst find_valid_boundary_from.simps) simp
  next
    case enough: False
    show ?thesis
    proof (cases "find_sub (drop n h) d")
      case None
      have "\<not> boundary_at h d j" if "n \<le> j" for j
        using find_sub_None [OF None \<open>d \<noteq> []\<close>, of "j - n"] sub [of j] that by auto
      then show ?thesis using None enough by (subst find_valid_boundary_from.simps) simp
    next
      case (Some pos)
      have here: "starts_with (drop (n + pos) h) d" using find_sub_Some [OF Some] by (simp add: add.commute)
      have before: "\<not> boundary_at h d j" if "n \<le> j" "j < n + pos" for j
        using find_sub_least [OF Some, of "j - n"] sub [of j] that by (auto simp: less_diff_conv2)
      have unfold: "find_valid_boundary_from n h d = (if boundary_at h d (n + pos) then Some (n + pos)
          else find_valid_boundary_from (n + pos + 1) h d)"
        by (subst find_valid_boundary_from.simps) (simp add: Some enough boundary_at_iff [OF here] Let_def)
      show ?thesis
      proof (cases "boundary_at h d (n + pos)")
        case True
        then show ?thesis using unfold before by auto
      next
        case False
        then have step: "find_valid_boundary_from n h d = find_valid_boundary_from (n + pos + 1) h d"
          using unfold by simp
        have gap: "\<not> boundary_at h d j" if "n \<le> j" "j < n + pos + 1" for j
          using before that False by (cases "j = n + pos") auto
        have IH: "case find_valid_boundary_from (n + pos + 1) h d of
            None \<Rightarrow> \<forall>j \<ge> n + pos + 1. \<not> boundary_at h d j
          | Some i \<Rightarrow> n + pos + 1 \<le> i \<and> boundary_at h d i \<and>
              (\<forall>j. n + pos + 1 \<le> j \<and> j < i \<longrightarrow> \<not> boundary_at h d j)"
          using "1.IH" [OF enough Some refl refl _ \<open>d \<noteq> []\<close>] False boundary_at_iff [OF here] by blast
        show ?thesis
        proof (cases "find_valid_boundary_from (n + pos + 1) h d")
          case None
          then have "\<not> boundary_at h d j" if "n \<le> j" for j
            using IH gap [OF that] by (cases "j < n + pos + 1") auto
          then show ?thesis using None step by simp
        next
          case (Some i)
          then have "n + pos + 1 \<le> i \<and> boundary_at h d i \<and>
              (\<forall>j. n + pos + 1 \<le> j \<and> j < i \<longrightarrow> \<not> boundary_at h d j)" using IH by simp
          moreover have "\<not> boundary_at h d j" if "n \<le> j" "j < i" for j
            using that gap [of j] calculation by (cases "j < n + pos + 1") auto
          ultimately show ?thesis using Some step by simp
        qed
      qed
    qed
  qed
qed

text \<open>
  \<open>find_valid_boundary\<close> finds the first place where the delimiter stands with a line end
  or the closing dashes behind it, however many times the delimiter's own bytes occur before
  it in a part's data, and answers that there is none exactly when there is none.
\<close>

theorem boundary_search_exact:
  assumes "delimiter \<noteq> []"
  shows "find_valid_boundary haystack delimiter =
    (if \<exists>i. boundary_at haystack delimiter i
     then Some (LEAST i. boundary_at haystack delimiter i) else None)"
proof (cases "find_valid_boundary_from 0 haystack delimiter")
  case None
  then show ?thesis using find_valid_boundary_from_correct [OF assms, of 0 haystack]
    by (simp add: find_valid_boundary_def)
next
  case (Some i)
  then have i: "boundary_at haystack delimiter i" "\<forall>j < i. \<not> boundary_at haystack delimiter j"
    using find_valid_boundary_from_correct [OF assms, of 0 haystack] by simp_all
  have "(LEAST k. boundary_at haystack delimiter k) = i"
    using i by (intro Least_equality) (auto simp: not_less [symmetric])
  then show ?thesis using Some i(1) by (auto simp: find_valid_boundary_def)
qed

theorem boundary_search_exact_witness:
  "find_valid_boundary (ascii ''--b--b'' @ [0x0D, 0x0A]) (ascii ''--b'') =
    (if \<exists>i. boundary_at (ascii ''--b--b'' @ [0x0D, 0x0A]) (ascii ''--b'') i
     then Some (LEAST i. boundary_at (ascii ''--b--b'' @ [0x0D, 0x0A]) (ascii ''--b'') i) else None)"
  by (rule boundary_search_exact) (simp add: ascii_def)

section \<open>Where the code and the protocol part\<close>

text \<open>
  The first item that matches decides \<open>accepts_encoding\<close>, not the most specific one: a
  wildcard in front of an explicit refusal accepts the encoding that was refused, and one in
  front of an explicit acceptance refuses it.
\<close>

lemma wildcard_shadows_refusal: "accepts_encoding ''*, gzip;q=0'' ''gzip''"
  by (simp add: accepts_encoding_def) code_simp

lemma wildcard_shadows_acceptance: "\<not> accepts_encoding ''*;q=0, gzip'' ''gzip''"
  by code_simp
end
