(* ===== verification/Negotiate.thy ===== *)
theory Negotiate
  imports Http_Parse
begin

text \<open>
  The content negotiation of \<open>src/adapters/server/negotiate.rs\<close>: the \<open>Accept\<close> header and the
  choice of an output format, the entity tag, the headers of an image response, and the
  conditional request that is answered 304. The digest and its hexadecimal text are parameters:
  SHA-256 and \<open>hex::encode\<close> are the code of other crates.
\<close>

section \<open>The Accept header\<close>

datatype accept_range = Exact string | TypeWildcard string | AnyRange

record accept_preference =
  pref_range :: accept_range
  q_millis :: u16
  specificity :: u8

definition parse_accept_range :: "string \<Rightarrow> (accept_range \<times> u8) option" where
  "parse_accept_range v =
     (if v = ''*/*'' then Some (AnyRange, 0)
      else if v = ''image/*'' then Some (TypeWildcard ''image'', 1)
      else if v = ''image/jpeg'' \<or> v = ''image/png'' \<or> v = ''image/webp'' \<or> v = ''image/bmp'' \<or>
        v = ''image/svg+xml''
      then Some (Exact v, 2)
      else None)"

text \<open>\<open>(parsed * 1000.0).round() as u16\<close> in \<open>f32\<close>, for a value already known to be in [0, 1].\<close>

definition millis :: "rat \<Rightarrow> u16" where
  "millis q =
     (case float_round (f32_of (q * 1000)) of
        Fin r \<Rightarrow> if r < 0 then 0 else if 65535 \<le> r then - 1 else word_of_int \<lfloor>r\<rfloor>
      | Inf neg \<Rightarrow> if neg then 0 else - 1
      | NaN \<Rightarrow> 0)"

definition parse_accept_qvalue :: "string \<Rightarrow> u16 option" where
  "parse_accept_qvalue v =
     (case parse_f32 v of
        None \<Rightarrow> None
      | Some parsed \<Rightarrow>
          if \<not> float_in_range (Fin 0) (Fin 1) parsed then None
          else (case parsed of Fin q \<Rightarrow> Some (millis q) | _ \<Rightarrow> None))"

text \<open>The loop over the parameters of a range: each \<open>q\<close> replaces the one before it.\<close>

fun accept_parameters :: "string list \<Rightarrow> u16 \<Rightarrow> u16 option" where
  "accept_parameters [] q = Some q"
| "accept_parameters (p # ps) q =
     (case split_once CHR ''='' p of
        None \<Rightarrow> accept_parameters ps q
      | Some (name, v) \<Rightarrow>
          if eq_ignore_ascii_case (trim name) ''q'' then
            (case parse_accept_qvalue (trim v) of
               None \<Rightarrow> None
             | Some q' \<Rightarrow> accept_parameters ps q')
          else accept_parameters ps q)"

definition parse_accept_segment :: "string \<Rightarrow> accept_preference option" where
  "parse_accept_segment segment =
     (if segment = [] then None
      else let parts = split_on CHR '';'' segment in
        case parse_accept_range (ascii_lower (trim (hd parts))) of
          None \<Rightarrow> None
        | Some (rng, spec) \<Rightarrow>
            map_option (\<lambda>q. \<lparr>pref_range = rng, q_millis = q, specificity = spec\<rparr>)
              (accept_parameters (tl parts) 1000))"

definition accept_segments :: "string \<Rightarrow> string list" where
  "accept_segments v = filter (\<lambda>s. s \<noteq> []) (map trim (split_on CHR '','' v))"

definition parse_accept_header :: "string \<Rightarrow> accept_preference list \<times> bool" where
  "parse_accept_header v =
     (List.map_filter parse_accept_segment (accept_segments v), accept_segments v \<noteq> [])"

definition accept_range_matches :: "accept_range \<Rightarrow> media_type \<Rightarrow> bool" where
  "accept_range_matches rng mt \<longleftrightarrow>
     (case rng of
        Exact expected \<Rightarrow> as_mime mt = expected
      | TypeWildcard expected \<Rightarrow> hd (split_on CHR ''/'' (as_mime mt)) = expected
      | AnyRange \<Rightarrow> True)"

text \<open>The two loops that keep a best pair compare it the same way: quality, then specificity.\<close>

definition beats :: "u16 \<times> u8 \<Rightarrow> u16 \<times> u8 \<Rightarrow> bool" where
  "beats a b \<longleftrightarrow> fst b < fst a \<or> (fst a = fst b \<and> snd b < snd a)"

definition match_accept_preferences :: "media_type \<Rightarrow> accept_preference list \<Rightarrow> u16 \<times> u8" where
  "match_accept_preferences mt prefs =
     foldl (\<lambda>best p.
       if accept_range_matches (pref_range p) mt \<and> beats (q_millis p, specificity p) best
       then (q_millis p, specificity p) else best) (0, 0) prefs"

section \<open>The candidates\<close>

definition default_base :: "artifact \<Rightarrow> media_type list" where
  "default_base a =
     (if meta_has_alpha (art_metadata a) = Some True then [Webp, Png, Jpeg] else [Webp, Jpeg, Png])"

definition push_new :: "media_type list \<Rightarrow> media_type \<Rightarrow> media_type list" where
  "push_new ordered mt = (if mt \<in> set ordered then ordered else ordered @ [mt])"

definition candidate_base :: "artifact \<Rightarrow> media_type list \<Rightarrow> media_type list" where
  "candidate_base a preference =
     (if preference = [] then default_base a
      else foldl push_new
        (foldl (\<lambda>ordered mt. if mt \<in> set (default_base a) then push_new ordered mt else ordered)
          [] preference) (default_base a))"

definition preferred_output_media_types :: "artifact \<Rightarrow> media_type list \<Rightarrow> media_type list" where
  "preferred_output_media_types a preference =
     (let base = candidate_base a preference; input = art_media_type a
      in if input \<in> set base then base else input # base)"

definition not_acceptable_for_accept :: "problem \<times> headers" where
  "not_acceptable_for_accept =
     (not_acceptable_response ''Accept does not allow any supported output media type'',
      [(''Vary'', ''Accept'')])"

text \<open>The loop over the candidates: the best so far with its quality and specificity.\<close>

definition best_candidate ::
  "accept_preference list \<Rightarrow> media_type list \<Rightarrow> media_type option \<times> u16 \<times> u8" where
  "best_candidate prefs cands =
     foldl (\<lambda>(best, b) c. let m = match_accept_preferences c prefs in
       if beats m b then (Some c, m) else (best, b)) (None, 0, 0) cands"

definition negotiate_output_format ::
  "string option \<Rightarrow> artifact \<Rightarrow> media_type list \<Rightarrow>
    (problem \<times> headers, media_type option) outcome" where
  "negotiate_output_format accept a preference =
     (case Option.bind (map_option trim accept) (\<lambda>v. if v = [] then None else Some v) of
        None \<Rightarrow> Ok None
      | Some v \<Rightarrow>
          let (prefs, had_any_segment) = parse_accept_header v in
          if prefs = [] then
            (if had_any_segment then Err not_acceptable_for_accept else Ok None)
          else let (best, best_q, best_specificity) =
              best_candidate prefs (preferred_output_media_types a preference) in
            if best_q = 0 then Err not_acceptable_for_accept
            else if best_specificity = 0 then Ok None
            else Ok best)"

section \<open>Entity tags and response headers\<close>

definition build_image_etag :: "(bytes \<Rightarrow> bytes) \<Rightarrow> (bytes \<Rightarrow> string) \<Rightarrow> bytes \<Rightarrow> string" where
  "build_image_etag sha256 hex_encode body = ''\"sha256-'' @ hex_encode (sha256 body) @ ''\"''"

text \<open>What \<open>hex::encode\<close> documents: two lower-case digits for each byte, the high one first.\<close>

definition hex_text :: "bytes \<Rightarrow> string" where
  "hex_text bs = concat (map hex2 bs)"

definition trim_quotes :: "string \<Rightarrow> string" where
  "trim_quotes s = rev (dropWhile (\<lambda>c. c = CHR 0x22) (rev (dropWhile (\<lambda>c. c = CHR 0x22) s)))"

definition etag_candidate_matches :: "string \<Rightarrow> string \<Rightarrow> bool" where
  "etag_candidate_matches etag candidate \<longleftrightarrow>
     candidate = ''*'' \<or>
     trim_quotes (trim (case strip_prefix candidate ''W/'' of None \<Rightarrow> candidate | Some r \<Rightarrow> r)) =
       trim_quotes etag"

definition if_none_match_matches :: "string option \<Rightarrow> string \<Rightarrow> bool" where
  "if_none_match_matches v etag \<longleftrightarrow>
     (case v of None \<Rightarrow> False
      | Some v \<Rightarrow> list_ex (etag_candidate_matches etag) (map trim (split_on CHR '','' v)))"

datatype cache_hit_status = CacheHit | CacheMiss | CacheDisabled

datatype image_response_policy = PublicGet | PrivateTransform

record public_cache_control =
  max_age :: u32
  stale_while_revalidate :: u32

definition cache_control_value :: "image_response_policy \<Rightarrow> public_cache_control \<Rightarrow> string" where
  "cache_control_value policy cc =
     (case policy of
        PublicGet \<Rightarrow> ''public, max-age='' @ show_word (max_age cc) @ '', stale-while-revalidate='' @
          show_word (stale_while_revalidate cc)
      | PrivateTransform \<Rightarrow> ''no-store'')"

definition build_image_response_headers ::
  "media_type \<Rightarrow> string \<Rightarrow> image_response_policy \<Rightarrow> bool \<Rightarrow> cache_hit_status \<Rightarrow>
    public_cache_control \<Rightarrow> headers \<Rightarrow> headers" where
  "build_image_response_headers mt etag policy accept_may_vary cache_status cc custom =
     [(''Cache-Control'', cache_control_value policy cc),
      (''ETag'', etag),
      (''X-Content-Type-Options'', ''nosniff''),
      (''Content-Disposition'', ''inline; filename=\"truss.'' @ media_name mt @ ''\"'')] @
     (if accept_may_vary then [(''Vary'', ''Accept'')] else []) @
     (if mt = Svg then [(''Content-Security-Policy'', ''sandbox'')] else []) @
     [(''Cache-Status'', (case cache_status of
        CacheHit \<Rightarrow> ''\"truss\"; hit'' | _ \<Rightarrow> ''\"truss\"; fwd=miss''))] @
     custom"

datatype public_source_kind = SourcePath | SourceUrl

section \<open>The best pair\<close>

definition rank :: "u16 \<times> u8 \<Rightarrow> nat" where
  "rank b = unat (fst b) * 256 + unat (snd b)"

lemma beats_rank: "beats a b \<longleftrightarrow> rank b < rank a"
proof -
  have "unat (snd a) < 256" "unat (snd b) < 256" by simp_all
  then have "rank b < rank a \<longleftrightarrow>
      unat (fst b) < unat (fst a) \<or> (unat (fst a) = unat (fst b) \<and> unat (snd b) < unat (snd a))"
    unfolding rank_def by linarith
  then show ?thesis by (simp add: beats_def word_less_nat_alt)
qed

lemma rank_inject: "rank a = rank b \<Longrightarrow> a = b"
  using beats_rank [of a b] beats_rank [of b a]
  by (auto simp: beats_def prod_eq_iff not_less intro: antisym)

lemma match_ranks:
  "foldl (\<lambda>best p. if accept_range_matches (pref_range p) mt \<and> beats (q_millis p, specificity p) best
       then (q_millis p, specificity p) else best) b prefs = r \<Longrightarrow>
   rank b \<le> rank r \<and>
   (\<forall>p \<in> set prefs. accept_range_matches (pref_range p) mt \<longrightarrow>
      rank (q_millis p, specificity p) \<le> rank r) \<and>
   (r = b \<or> (\<exists>p \<in> set prefs. accept_range_matches (pref_range p) mt \<and>
      r = (q_millis p, specificity p)))"
  by (induction prefs arbitrary: b) (fastforce simp: beats_rank split: if_splits)+

lemma match_accept_preferences_best:
  assumes "match_accept_preferences mt prefs = r"
  shows "p \<in> set prefs \<Longrightarrow> accept_range_matches (pref_range p) mt \<Longrightarrow>
      rank (q_millis p, specificity p) \<le> rank r"
    and "r = (0, 0) \<or> (\<exists>p \<in> set prefs. accept_range_matches (pref_range p) mt \<and>
      r = (q_millis p, specificity p))"
  using match_ranks [OF assms [unfolded match_accept_preferences_def]] by blast+

lemma rank_quality: "fst b < fst a \<Longrightarrow> rank b < rank a"
  using beats_rank [of a b] by (simp add: beats_def)

lemma quality_positive:
  "fst (match_accept_preferences mt prefs) \<noteq> 0 \<longleftrightarrow>
    (\<exists>p \<in> set prefs. accept_range_matches (pref_range p) mt \<and> q_millis p \<noteq> 0)"
proof -
  obtain r where r: "match_accept_preferences mt prefs = r" by blast
  note best = match_accept_preferences_best [OF r]
  have "fst r \<noteq> 0" if "p \<in> set prefs" "accept_range_matches (pref_range p) mt" "q_millis p \<noteq> 0" for p
  proof
    assume "fst r = 0"
    then have "rank r < rank (q_millis p, specificity p)"
      using that(3) by (intro rank_quality) (simp add: word_gt_0)
    with best(1) [OF that(1,2)] show False by simp
  qed
  then show ?thesis using best(2) r by auto
qed

lemma fold_candidates:
  assumes "foldl (\<lambda>(best, b) c. if beats (f c) b then (Some c, f c) else (best, b)) (x, b) cs = (y, r)"
  shows "(y = x \<and> r = b \<and> (\<forall>c \<in> set cs. rank (f c) \<le> rank b)) \<or>
    (\<exists>before c after. cs = before @ c # after \<and> y = Some c \<and> r = f c \<and> rank b < rank r \<and>
      (\<forall>d \<in> set before. rank (f d) < rank r) \<and> (\<forall>d \<in> set after. rank (f d) \<le> rank r))"
  using assms
proof (induction cs arbitrary: x b)
  case (Cons c cs)
  show ?case
  proof (cases "beats (f c) b")
    case False
    then have le: "rank (f c) \<le> rank b" by (simp add: beats_rank)
    from False Cons.prems have "(y = x \<and> r = b \<and> (\<forall>c \<in> set cs. rank (f c) \<le> rank b)) \<or>
      (\<exists>before c after. cs = before @ c # after \<and> y = Some c \<and> r = f c \<and> rank b < rank r \<and>
        (\<forall>d \<in> set before. rank (f d) < rank r) \<and> (\<forall>d \<in> set after. rank (f d) \<le> rank r))"
      by (intro Cons.IH) simp
    then show ?thesis
    proof (elim disjE exE conjE, goal_cases)
      case 1
      then show ?case using le by simp
    next
      case (2 before d after)
      then have "c # cs = (c # before) @ d # after" "\<forall>d \<in> set (c # before). rank (f d) < rank r"
        using le by auto
      with 2 show ?case by blast
    qed
  next
    case True
    then have less: "rank b < rank (f c)" by (simp add: beats_rank)
    from True Cons.prems have "(y = Some c \<and> r = f c \<and> (\<forall>d \<in> set cs. rank (f d) \<le> rank (f c))) \<or>
      (\<exists>before d after. cs = before @ d # after \<and> y = Some d \<and> r = f d \<and> rank (f c) < rank r \<and>
        (\<forall>d \<in> set before. rank (f d) < rank r) \<and> (\<forall>d \<in> set after. rank (f d) \<le> rank r))"
      by (intro Cons.IH) simp
    then show ?thesis
    proof (elim disjE exE conjE, goal_cases)
      case 1
      then have "c # cs = [] @ c # cs" "\<forall>d \<in> set []. rank (f d) < rank r" by simp_all
      with 1 less show ?case by blast
    next
      case (2 before d after)
      then have "c # cs = (c # before) @ d # after" "\<forall>d \<in> set (c # before). rank (f d) < rank r"
        by auto
      with 2 less show ?case by (blast intro: less_trans)
    qed
  qed
qed simp

lemma best_candidate_first:
  assumes "best_candidate prefs cands = (y, r)"
  shows "(r = (0, 0) \<and> (\<forall>c \<in> set cands. match_accept_preferences c prefs = (0, 0))) \<or>
    (\<exists>before c after. cands = before @ c # after \<and> y = Some c \<and>
      r = match_accept_preferences c prefs \<and>
      (\<forall>d \<in> set before. beats r (match_accept_preferences d prefs)) \<and>
      (\<forall>d \<in> set after. \<not> beats (match_accept_preferences d prefs) r))"
proof -
  have zero: "rank b \<le> rank (0, 0) \<longleftrightarrow> b = (0, 0)" for b
    using rank_inject [of b "(0, 0)"] by (auto simp: rank_def)
  have "foldl (\<lambda>(best, b) c. if beats (match_accept_preferences c prefs) b
      then (Some c, match_accept_preferences c prefs) else (best, b)) (None, 0, 0) cands = (y, r)"
    using assms by (simp only: best_candidate_def Let_def)
  from fold_candidates [OF this] show ?thesis
    unfolding zero beats_rank not_less by blast
qed

section \<open>The candidate list\<close>

lemma push_all:
  "set (foldl push_new acc xs) = set acc \<union> set xs"
  "distinct acc \<Longrightarrow> distinct (foldl push_new acc xs)"
  by (induction xs arbitrary: acc) (auto simp: push_new_def)

lemma push_listed:
  "foldl (\<lambda>ordered mt. if mt \<in> D then push_new ordered mt else ordered) acc xs =
   foldl push_new acc (filter (\<lambda>m. m \<in> D) xs)"
  by (induction xs arbitrary: acc) auto

lemma candidate_base_set:
  "set (candidate_base a preference) = {Webp, Jpeg, Png}"
  "distinct (candidate_base a preference)"
proof -
  have base: "set (default_base a) = {Webp, Jpeg, Png}" "distinct (default_base a)"
    by (auto simp: default_base_def)
  show "set (candidate_base a preference) = {Webp, Jpeg, Png}"
  proof (cases "preference = []")
    case False
    then have "set (candidate_base a preference) =
        set (filter (\<lambda>m. m \<in> set (default_base a)) preference) \<union> set (default_base a)"
      by (simp add: candidate_base_def push_listed push_all)
    then show ?thesis using base(1) by auto
  qed (simp add: candidate_base_def base(1))
  show "distinct (candidate_base a preference)"
    using base(2) by (simp add: candidate_base_def push_listed push_all)
qed

lemma candidates_are:
  "set (preferred_output_media_types a preference) = {Webp, Jpeg, Png, art_media_type a}"
  "distinct (preferred_output_media_types a preference)"
  using candidate_base_set [of a preference]
  by (auto simp: preferred_output_media_types_def Let_def)

section \<open>What negotiation answers\<close>

lemma negotiate_Some:
  "negotiate_output_format (Some h) a preference =
    (let prefs = fst (parse_accept_header (trim h));
         best = best_candidate prefs (preferred_output_media_types a preference)
     in if accept_segments (trim h) = [] then Ok None
        else if prefs = [] \<or> fst (snd best) = 0 then Err not_acceptable_for_accept
        else if snd (snd best) = 0 then Ok None else Ok (fst best))"
proof (cases "trim h = []")
  case True
  have "accept_segments [] = []" by code_simp
  then show ?thesis using True by (simp add: negotiate_output_format_def parse_accept_header_def)
next
  case False
  have "accept_segments (trim h) = [] \<Longrightarrow> fst (parse_accept_header (trim h)) = []"
    by (simp add: parse_accept_header_def List.map_filter_def)
  then show ?thesis using False
    by (auto simp: negotiate_output_format_def parse_accept_header_def Let_def split: prod.split)
qed


definition sample_artifact :: artifact where
  "sample_artifact = \<lparr>art_bytes = [], art_media_type = Bmp, art_metadata = default_metadata\<rparr>"

definition sample_accept :: "accept_preference list" where
  "sample_accept = [\<lparr>pref_range = Exact ''image/jpeg'', q_millis = 1000, specificity = 2\<rparr>,
     \<lparr>pref_range = TypeWildcard ''image'', q_millis = 0, specificity = 1\<rparr>]"


text \<open>
  The request is answered 406 exactly when it names something and nothing it names, at a
  quality above zero, is a format the answer could have; a header of nothing but separators
  and white space is no header. The 406 says that it varies on \<open>Accept\<close>.
\<close>

theorem negotiation_refuses_exactly:
  "negotiate_output_format (Some h) a preference = Err e \<longleftrightarrow>
    e = not_acceptable_for_accept \<and> accept_segments (trim h) \<noteq> [] \<and>
    \<not> (\<exists>mt \<in> {Webp, Jpeg, Png, art_media_type a}. \<exists>p \<in> set (fst (parse_accept_header (trim h))).
        accept_range_matches (pref_range p) mt \<and> q_millis p \<noteq> 0)"
proof -
  let ?prefs = "fst (parse_accept_header (trim h))"
  let ?cands = "preferred_output_media_types a preference"
  obtain y r where best: "best_candidate ?prefs ?cands = (y, r)" by (meson surj_pair)
  have "fst r = 0 \<longleftrightarrow> \<not> (\<exists>mt \<in> set ?cands. fst (match_accept_preferences mt ?prefs) \<noteq> 0)"
    (is "?l = ?r")
  proof
    assume zero: "fst r = 0"
    have top: "fst b = 0" if "\<not> beats b r" for b
    proof (rule ccontr)
      assume "fst b \<noteq> 0"
      then have "beats b r" using zero by (simp add: beats_def word_gt_0)
      with that show False by simp
    qed
    have "\<not> beats r b \<or> fst b = 0" for b using zero by (auto simp: beats_def)
    with best_candidate_first [OF best] top show ?r by (metis Un_iff fst_conv list.set_intros(1)
      set_ConsD set_append zero beats_def word_not_simps(1))
  next
    assume ?r
    with best_candidate_first [OF best] show ?l by force
  qed
  then have "fst r = 0 \<longleftrightarrow> \<not> (\<exists>mt \<in> {Webp, Jpeg, Png, art_media_type a}. \<exists>p \<in> set ?prefs.
      accept_range_matches (pref_range p) mt \<and> q_millis p \<noteq> 0)"
    unfolding quality_positive candidates_are(1) .
  then show ?thesis using best by (auto simp: negotiate_Some Let_def)
qed

text \<open>
  The best quality of any matching range counts, not the quality of the most specific one: an
  explicit refusal is overruled by a wildcard.
\<close>

lemma explicit_refusal_overruled:
  "negotiate_output_format (Some ''image/webp;q=0, image/*'')
    (sample_artifact\<lparr>art_media_type := Png\<rparr>) [] = Ok (Some Webp)"
  by code_simp

text \<open>A segment that is no media range still counts as one: the answer is 406 and not the default.\<close>

lemma malformed_segment_counts:
  "negotiate_output_format (Some ''%'') sample_artifact [] = Err not_acceptable_for_accept"
  by (simp only: negotiate_Some) code_simp

section \<open>Conditional requests\<close>

lemma trim_quotes_plain:
  assumes "list_all (\<lambda>c. c \<noteq> CHR 0x22) s"
  shows "trim_quotes (''\"'' @ s @ ''\"'') = s"
proof -
  have keep: "list_all (\<lambda>c. c \<noteq> CHR 0x22) t \<Longrightarrow> dropWhile (\<lambda>c. c = CHR 0x22) t = t" for t
    by (cases t) auto
  show ?thesis
  proof (cases s)
    case Nil
    then show ?thesis by (simp add: trim_quotes_def)
  next
    case (Cons c t)
    then have "dropWhile (\<lambda>c. c = CHR 0x22) (''\"'' @ s @ ''\"'') = s @ ''\"''" using assms by simp
    then show ?thesis using keep [of "rev s"] assms by (simp add: trim_quotes_def list_all_iff)
  qed
qed

lemma hex2_inject: "hex2 a = hex2 b \<longleftrightarrow> a = b"
proof
  assume eq: "hex2 a = hex2 b"
  have "hex_char (unat a div 16) = hex_char (unat b div 16)" "hex_char (unat a mod 16) = hex_char (unat b mod 16)"
    using eq by (simp_all add: hex2_def)
  moreover have "unat a div 16 < 16" "unat b div 16 < 16"
    using u8_less [of a] u8_less [of b] by linarith+
  ultimately have "unat a div 16 = unat b div 16" "unat a mod 16 = unat b mod 16"
    by (metis hex_val_hex_char option.inject mod_less_divisor zero_less_numeral)+
  then show "a = b" by (metis div_mult_mod_eq unat_inject)
qed simp

lemma hex_digest_inject: "concat (map hex2 xs) = concat (map hex2 ys) \<longleftrightarrow> xs = ys"
proof (induction xs arbitrary: ys)
  case Nil
  then show ?case by (cases ys) (auto simp: hex2_def)
next
  case (Cons x xs)
  have len: "length (hex2 b) = 2" for b by (simp add: hex2_def)
  show ?case
  proof (cases ys)
    case Nil
    then show ?thesis by (auto simp: hex2_def)
  next
    case (Cons y zs)
    then show ?thesis using Cons.IH [of zs] len [of x] len [of y]
      by (auto simp: append_eq_append_conv hex2_inject)
  qed
qed

lemma hex_digest_chars:
  "c \<in> set (concat (map hex2 bs)) \<Longrightarrow> plain_char c \<and> c \<noteq> CHR 0x22 \<and> c \<noteq> CHR '',''"
proof -
  have hex: "plain_char (hex_char n) \<and> hex_char n \<noteq> CHR 0x22 \<and> hex_char n \<noteq> CHR '',''" if "n < 16" for n
  proof -
    have val: "code (hex_char n) = (if n < 10 then 48 + n else 87 + n)"
      using that by (simp add: hex_char_def)
    then have "code (hex_char n) \<noteq> code CHR 0x22" "code (hex_char n) \<noteq> code CHR '',''" by simp_all
    moreover have "plain_char (hex_char n)" using val that by (simp add: plain_char_def)
    ultimately show ?thesis by metis
  qed
  have "unat b div 16 < 16" for b :: u8 using u8_less [of b] by linarith
  then show "c \<in> set (concat (map hex2 bs)) \<Longrightarrow> plain_char c \<and> c \<noteq> CHR 0x22 \<and> c \<noteq> CHR '',''"
    using hex by (auto simp: hex2_def)
qed

lemma etag_shape:
  "trim_quotes (build_image_etag sha256 hex_text b) = ''sha256-'' @ hex_text (sha256 b)"
  "list_all plain_char (build_image_etag sha256 hex_text b)"
  "CHR '','' \<notin> set (build_image_etag sha256 hex_text b)"
proof -
  have "list_all (\<lambda>c. c \<noteq> CHR 0x22) (''sha256-'' @ hex_text (sha256 b))"
    using hex_digest_chars by (fastforce simp: list_all_iff hex_text_def)
  from trim_quotes_plain [OF this]
  show "trim_quotes (build_image_etag sha256 hex_text b) = ''sha256-'' @ hex_text (sha256 b)"
    by (simp add: build_image_etag_def)
  show "list_all plain_char (build_image_etag sha256 hex_text b)"
    "CHR '','' \<notin> set (build_image_etag sha256 hex_text b)"
    using hex_digest_chars
    by (fastforce simp: build_image_etag_def hex_text_def list_all_iff plain_char_def)+
qed

text \<open>
  A client that sends back the entity tag of one body, whole or weakened by an
  intermediary, is told 304 for another body exactly when the two bodies have the same digest.
\<close>

theorem etag_identifies_body:
  assumes "\<forall>bs. hex_encode bs = hex_text bs"
  shows "(if_none_match_matches (Some (build_image_etag sha256 hex_encode b'))
        (build_image_etag sha256 hex_encode b) \<longleftrightarrow> sha256 b' = sha256 b) \<and>
   (if_none_match_matches (Some (''W/'' @ build_image_etag sha256 hex_encode b'))
        (build_image_etag sha256 hex_encode b) \<longleftrightarrow> sha256 b' = sha256 b)"
proof -
  let ?t = "build_image_etag sha256 hex_text b'"
  have hex: "hex_encode = hex_text" using assms by auto
  have trim: "trim ?t = ?t" "trim (''W/'' @ ?t) = ''W/'' @ ?t"
    using etag_shape(2) by (simp_all add: trim_plain plain_char_def)
  have split: "split_on CHR '','' ?t = [?t]" "split_on CHR '','' (''W/'' @ ?t) = [''W/'' @ ?t]"
    using etag_shape(3) by (simp_all add: split_on_no_sep)
  have strip: "strip_prefix ?t ''W/'' = None" "strip_prefix (''W/'' @ ?t) ''W/'' = Some ?t" "?t \<noteq> ''*''"
    by (simp_all add: strip_prefix_def build_image_etag_def)
  show ?thesis unfolding hex
    by (simp add: if_none_match_matches_def split trim etag_candidate_matches_def strip etag_shape(1)
      hex_text_def hex_digest_inject del: append_Cons append_Nil)
qed

theorem etag_identifies_body_witness:
  "if_none_match_matches (Some (build_image_etag id hex_text [1, 2])) (build_image_etag id hex_text [1, 2]) \<and>
   \<not> if_none_match_matches (Some (''W/'' @ build_image_etag id hex_text [1])) (build_image_etag id hex_text [2])"
  using etag_identifies_body [of hex_text id "[1, 2]" "[1, 2]"]
    etag_identifies_body [of hex_text id "[1]" "[2]"] by simp

end
