(* ===== verification/Query.thy ===== *)
theory Query
  imports Options Negotiate
begin

text \<open>
  The query string of a public request: the ordered map it is read into, the canonical form a
  signature covers, and the readers of single parameters, from
  \<open>src/adapters/server/auth.rs\<close> and \<open>src/adapters/server/http_parse.rs\<close>. The
  \<open>application/x-www-form-urlencoded\<close> codec is the code of another crate and a parameter
  here.
\<close>

section \<open>Maps ordered by key\<close>

text \<open>
  What a map that is iterated in key order promises: lookups see the last insertion, and the
  map is determined by its lookups, so the order of insertions cannot be seen.
\<close>

locale ordered_map =
  fixes insert_at :: "'k \<Rightarrow> 'v \<Rightarrow> 'm \<Rightarrow> 'm" and look :: "'m \<Rightarrow> 'k \<Rightarrow> 'v option"
    and inv :: "'m \<Rightarrow> bool"
  assumes look_insert: "look (insert_at k v m) = (look m)(k \<mapsto> v)"
    and insert_inv: "inv m \<Longrightarrow> inv (insert_at k v m)"
    and determined: "inv m \<Longrightarrow> inv m' \<Longrightarrow> look m = look m' \<Longrightarrow> m = m'"
begin

lemma commute: "inv m \<Longrightarrow> k \<noteq> k' \<Longrightarrow>
    insert_at k v (insert_at k' v' m) = insert_at k' v' (insert_at k v m)"
  by (rule determined) (simp_all add: look_insert insert_inv fun_upd_twist)

lemma overwrite: "inv m \<Longrightarrow> insert_at k v (insert_at k v' m) = insert_at k v m"
  by (rule determined) (simp_all add: look_insert insert_inv)

lemma known: "inv m \<Longrightarrow> look m k = Some v \<Longrightarrow> insert_at k v m = m"
  by (rule determined) (simp_all add: look_insert insert_inv fun_upd_idem)

end

text \<open>\<open>BTreeMap<String, _>\<close>: the entries in the order of their keys' bytes.\<close>

fun text_less :: "string \<Rightarrow> string \<Rightarrow> bool" where
  "text_less s [] = False"
| "text_less [] (d # t) = True"
| "text_less (c # s) (d # t) = (code c < code d \<or> (c = d \<and> text_less s t))"

type_synonym query = "(string \<times> string) list"

fun btree_insert :: "string \<Rightarrow> 'v \<Rightarrow> (string \<times> 'v) list \<Rightarrow> (string \<times> 'v) list" where
  "btree_insert k v [] = [(k, v)]"
| "btree_insert k v ((k', v') # m) =
     (if k = k' then (k, v) # m
      else if text_less k k' then (k, v) # (k', v') # m
      else (k', v') # btree_insert k v m)"

definition ordered :: "(string \<times> 'v) list \<Rightarrow> bool" where
  "ordered m \<longleftrightarrow> sorted_wrt (\<lambda>a b. text_less (fst a) (fst b)) m"

lemma text_less_irrefl [simp]: "\<not> text_less s s"
  by (induction s) auto

lemma text_less_trans: "text_less s t \<Longrightarrow> text_less t u \<Longrightarrow> text_less s u"
proof (induction s t arbitrary: u rule: text_less.induct)
  case (2 d t)
  then show ?case by (cases u) auto
next
  case (3 c s d t)
  then show ?case by (cases u) auto
qed simp

lemma text_less_total: "s \<noteq> t \<Longrightarrow> text_less s t \<or> text_less t s"
proof (induction s t rule: text_less.induct)
  case (1 s)
  then show ?case by (cases s) auto
next
  case (3 c s d t)
  have "code c = code d \<Longrightarrow> c = d" by (metis char_of_char)
  with 3 show ?case by (cases "code c" "code d" rule: linorder_cases) auto
qed simp

lemma ordered_Nil [simp]: "ordered []"
  by (simp add: ordered_def)

lemma ordered_Cons: "ordered (e # m) \<longleftrightarrow> (\<forall>b \<in> set m. text_less (fst e) (fst b)) \<and> ordered m"
  by (simp add: ordered_def)

lemma set_btree_insert: "set (btree_insert k v m) \<subseteq> insert (k, v) (set m)"
  by (induction k v m rule: btree_insert.induct) auto

lemma ordered_btree_insert: "ordered m \<Longrightarrow> ordered (btree_insert k v m)"
proof (induction k v m rule: btree_insert.induct)
  case (2 k v k' v' m)
  have "text_less k' k" if "k \<noteq> k'" "\<not> text_less k k'" using that text_less_total by blast
  with 2 show ?case using set_btree_insert [of k v m]
    by (auto simp: ordered_Cons intro: text_less_trans)
qed (simp add: ordered_Cons)

lemma map_of_btree_insert: "map_of (btree_insert k v m) = (map_of m)(k \<mapsto> v)"
  by (induction k v m rule: btree_insert.induct) (auto simp: fun_upd_twist)

lemma ordered_fst: "ordered ((k, v) # m) \<Longrightarrow> map_of m k = None"
  by (auto simp: ordered_Cons map_of_eq_None_iff)

lemma ordered_determined: "ordered m \<Longrightarrow> ordered m' \<Longrightarrow> map_of m = map_of m' \<Longrightarrow> m = m'"
proof (induction m arbitrary: m')
  case Nil
  then show ?case by simp
next
  case (Cons e m)
  obtain k v where e: "e = (k, v)" by (cases e)
  have mem: "map_of x a = Some b \<Longrightarrow> (a, b) \<in> set x" for x :: "(string \<times> 'a) list" and a b
    by (rule map_of_SomeD)
  show ?case
  proof (cases m')
    case Nil
    then show ?thesis using Cons.prems(3) e by (auto simp: fun_eq_iff split: if_splits)
  next
    case (Cons e' n)
    obtain k' v' where e': "e' = (k', v')" by (cases e')
    have eq: "map_of ((k, v) # m) a = map_of ((k', v') # n) a" for a
      using fun_cong [OF Cons.prems(3), of a] Cons e e' by simp
    have "k = k'"
    proof (rule ccontr)
      assume ne: "k \<noteq> k'"
      have "(k, v) \<in> set n" using eq [of k] ne by (auto intro: mem)
      moreover have "(k', v') \<in> set m" using eq [of k'] ne by (auto intro: mem)
      ultimately have "text_less k' k" "text_less k k'"
        using Cons.prems(1,2) Cons e e' by (auto simp: ordered_Cons)
      then show False using text_less_trans text_less_irrefl by blast
    qed
    moreover from this have "v = v'" using eq [of k] by simp
    moreover have "map_of m = map_of n"
    proof
      fix a
      show "map_of m a = map_of n a"
        using eq [of a] \<open>k = k'\<close> ordered_fst [of k v m] ordered_fst [of k' v' n] Cons.prems(1,2) Cons e e'
        by (cases "a = k") auto
    qed
    ultimately show ?thesis using Cons.IH [of n] Cons.prems(1,2) Cons e e'
      by (simp add: ordered_Cons)
  qed
qed

interpretation btree: ordered_map btree_insert map_of ordered
  by unfold_locales (simp_all add: map_of_btree_insert ordered_btree_insert ordered_determined)

text \<open>Inserting the entries of a map in their order builds the map.\<close>

lemma btree_insert_last:
  "\<forall>b \<in> set m. text_less (fst b) k \<Longrightarrow> btree_insert k v m = m @ [(k, v)]"
proof (induction k v m rule: btree_insert.induct)
  case (2 k v k' v' m)
  then have "text_less k' k" by simp
  then have "k \<noteq> k'" "\<not> text_less k k'" using text_less_trans text_less_irrefl by blast+
  with 2 show ?case by simp
qed simp

lemma btree_rebuild_onto:
  "ordered (acc @ m) \<Longrightarrow> foldl (\<lambda>a (k, v). btree_insert k v a) acc m = acc @ m"
proof (induction m arbitrary: acc)
  case (Cons e m)
  obtain k v where e: "e = (k, v)" by (cases e)
  have "btree_insert k v acc = acc @ [(k, v)]"
    using Cons.prems e by (intro btree_insert_last) (auto simp: ordered_def sorted_wrt_append)
  then show ?case using Cons.IH [of "acc @ [(k, v)]"] Cons.prems e by simp
qed simp

lemma btree_rebuild: "ordered m \<Longrightarrow> foldl (\<lambda>a (k, v). btree_insert k v a) [] m = m"
  using btree_rebuild_onto [of "[]" m] by simp

lemma ordered_filter: "ordered m \<Longrightarrow> ordered (filter p m)"
  by (simp add: ordered_def sorted_wrt_filter)

lemma map_of_filter_key: "map_of (filter (\<lambda>(n, _). n \<noteq> k) m) = (map_of m)(k := None)"
  by (induction m) auto

lemma filter_key_btree_insert:
  "ordered m \<Longrightarrow> filter (\<lambda>(n, _). n \<noteq> k) (btree_insert k v m) = filter (\<lambda>(n, _). n \<noteq> k) m"
  by (rule ordered_determined)
    (simp_all add: ordered_filter ordered_btree_insert map_of_filter_key map_of_btree_insert)

section \<open>Reading a query string\<close>

record form_codec =
  form_encode :: "(string \<times> string) list \<Rightarrow> string"
  form_parse :: "string \<Rightarrow> (string \<times> string) list"

text \<open>The loop of \<open>parse_query_params\<close>: a name that is already there ends it.\<close>

fun collect_params :: "(string \<times> string) list \<Rightarrow> query \<Rightarrow> (problem, query) outcome" where
  "collect_params [] params = Ok params"
| "collect_params ((name, v) # ps) params =
     (if map_of params name \<noteq> None
      then Err (bad_request_response (''query parameter `'' @ name @ ''` must not be repeated''))
      else collect_params ps (btree_insert name v params))"

definition parse_query_params :: "form_codec \<Rightarrow> http_request \<Rightarrow> (problem, query) outcome" where
  "parse_query_params form request =
     (case query_of_target (hr_target request) of
        None \<Rightarrow> Ok []
      | Some q \<Rightarrow> collect_params (form_parse form q) [])"

definition signed_url_unauthorized_response :: "string \<Rightarrow> problem" where
  "signed_url_unauthorized_response m = Problem CUnauthorized m"

definition nonempty :: "string option \<Rightarrow> string option" where
  "nonempty v = Option.bind v (\<lambda>s. if s = [] then None else Some s)"

definition required_query_param :: "query \<Rightarrow> string \<Rightarrow> (problem, string) outcome" where
  "required_query_param query name =
     ok_or (bad_request_response (''query parameter `'' @ name @ ''` is required''))
       (nonempty (map_of query name))"

definition signed_url_refused :: problem where
  "signed_url_refused = signed_url_unauthorized_response ''signed URL is invalid or expired''"

definition required_auth_query_param :: "query \<Rightarrow> string \<Rightarrow> (problem, string) outcome" where
  "required_auth_query_param query name = ok_or signed_url_refused (nonempty (map_of query name))"

definition u64_max :: int where "u64_max = 18446744073709551615"

definition parse_expires :: "string \<Rightarrow> (problem, nat) outcome" where
  "parse_expires expires =
     (case parse_unsigned u64_max expires of
        Inr n \<Rightarrow> Ok (nat n)
      | Inl PosOverflow \<Rightarrow> Err (bad_request_response
          (''query parameter `expires` must be at most '' @ show_nat (nat u64_max)))
      | Inl _ \<Rightarrow> Err (bad_request_response
          ''query parameter `expires` must be a positive integer''))"

definition parse_query_integer :: "string \<Rightarrow> string \<Rightarrow> (problem, int) outcome" where
  "parse_query_integer v name =
     ok_or (bad_request_response (''query parameter `'' @ name @ ''` must be an integer''))
       (map_option wide_saturated (wide_parse v))"

definition narrow_integer ::
  "(int \<Rightarrow> 'a option) \<Rightarrow> (int \<Rightarrow> (string, 'a) outcome) \<Rightarrow> int \<Rightarrow> (problem, 'a) outcome" where
  "narrow_integer try_from validate v = map_err bad_request_response (hold_or_judge try_from validate v)"

definition parse_optional_integer_query ::
  "query \<Rightarrow> string \<Rightarrow> (int \<Rightarrow> (string, u32) outcome) \<Rightarrow> (problem, u32 option) outcome" where
  "parse_optional_integer_query query name validate =
     (case map_of query name of
        None \<Rightarrow> Ok None
      | Some v \<Rightarrow> and_then (parse_query_integer v name) (\<lambda>n.
          map_ok Some (narrow_integer u32_try_from validate n)))"

definition parse_optional_u8_query ::
  "query \<Rightarrow> string \<Rightarrow> (int \<Rightarrow> (string, u8) outcome) \<Rightarrow> (problem, u8 option) outcome" where
  "parse_optional_u8_query query name validate =
     (case map_of query name of
        None \<Rightarrow> Ok None
      | Some v \<Rightarrow> and_then (parse_query_integer v name) (\<lambda>n.
          map_ok Some (narrow_integer u8_try_from validate n)))"

definition parse_optional_float_query ::
  "query \<Rightarrow> string \<Rightarrow> (problem, float_val option) outcome" where
  "parse_optional_float_query query name =
     (case map_of query name of
        None \<Rightarrow> Ok None
      | Some v \<Rightarrow> map_ok Some
          (ok_or (bad_request_response (''query parameter `'' @ name @ ''` must be a number''))
            (parse_f32 v)))"

definition parse_optional_bool_query :: "query \<Rightarrow> string \<Rightarrow> (problem, bool option) outcome" where
  "parse_optional_bool_query query name =
     (case map_of query name of
        None \<Rightarrow> Ok None
      | Some v \<Rightarrow>
          if v = ''true'' then Ok (Some True)
          else if v = ''false'' then Ok (Some False)
          else Err (bad_request_response
            (''query parameter `'' @ name @ ''` must be `true` or `false`'')))"

definition PUBLIC_QUERY_NAMES :: "string list" where
  "PUBLIC_QUERY_NAMES =
     [''keyId'', ''expires'', ''signature'', ''version'', ''width'', ''height'', ''fit'', ''position'',
      ''format'', ''quality'', ''optimize'', ''targetQuality'', ''background'', ''rotate'',
      ''autoOrient'', ''stripMetadata'', ''preserveExif'', ''crop'', ''blur'', ''sharpen'',
      ''grayscale'', ''withoutEnlargement'', ''watermarkUrl'', ''watermarkPosition'',
      ''watermarkOpacity'', ''watermarkMargin'', ''preset'']"

definition source_name :: "public_source_kind \<Rightarrow> string" where
  "source_name kind = (case kind of SourcePath \<Rightarrow> ''path'' | SourceUrl \<Rightarrow> ''url'')"

definition query_name_allowed :: "public_source_kind \<Rightarrow> string \<Rightarrow> bool" where
  "query_name_allowed kind name \<longleftrightarrow> name \<in> set PUBLIC_QUERY_NAMES \<or> name = source_name kind"

fun validate_public_query_names :: "query \<Rightarrow> public_source_kind \<Rightarrow> (problem, unit) outcome" where
  "validate_public_query_names [] kind = Ok ()"
| "validate_public_query_names ((name, _) # query) kind =
     (if query_name_allowed kind name then validate_public_query_names query kind
      else Err (bad_request_response
        (''query parameter `'' @ name @ ''` is not supported for this endpoint'')))"

definition canonical_query_without_signature :: "form_codec \<Rightarrow> query \<Rightarrow> string" where
  "canonical_query_without_signature form query =
     form_encode form (filter (\<lambda>(name, _). name \<noteq> ''signature'') query)"

text \<open>What \<open>form_urlencoded\<close> documents: parsing what it serialized gives the pairs back.\<close>

definition form_roundtrips :: "form_codec \<Rightarrow> bool" where
  "form_roundtrips form \<longleftrightarrow> (\<forall>ps. form_parse form (form_encode form ps) = ps)"

lemma collect_params_fresh:
  assumes "ordered m"
  shows "\<lbrakk>distinct (map fst ps); \<forall>e \<in> set ps. map_of m (fst e) = None\<rbrakk> \<Longrightarrow>
    collect_params ps m = Ok (foldl (\<lambda>a (k, v). btree_insert k v a) m ps)"
  using assms
proof (induction ps arbitrary: m)
  case (Cons e ps)
  obtain k v where e: "e = (k, v)" by (cases e)
  have "\<forall>x \<in> set ps. map_of (btree_insert k v m) (fst x) = None"
    using Cons.prems e by (auto simp: map_of_btree_insert)
  then show ?case using Cons.IH [of "btree_insert k v m"] Cons.prems e
    by (auto simp: ordered_btree_insert)
qed simp

lemma ordered_distinct: "ordered m \<Longrightarrow> distinct (map fst m)"
  by (induction m) (auto simp: ordered_Cons)

lemma collect_params_ordered: "ordered m \<Longrightarrow> collect_params m [] = Ok m"
  using collect_params_fresh [of "[]" m] by (simp add: ordered_distinct btree_rebuild)

end
