(* ===== verification/Payload.thy ===== *)
theory Payload
  imports Query
begin

text \<open>
  Transform options on the wire: the payload every route fills in, presets and overrides,
  \<open>into_options\<close>, the watermark payload and \<open>parse_public_get_request\<close> of
  \<open>src/adapters/server/handler.rs\<close>, and the query a signer writes for the same options
  (\<open>signed_source_query\<close> and \<open>extend_transform_query\<close> of \<open>auth.rs\<close>). The shortest decimal
  that reads back as a float is a parameter, \<open>show_f32\<close>.
\<close>

section \<open>Failures of a transform\<close>

definition transform_error_response :: "transform_error \<Rightarrow> problem" where
  "transform_error_response e =
     Problem (class_of e)
       (case e of
          EncodeFailed r \<Rightarrow> ''failed to encode transformed artifact: '' @ r
        | InvalidOptions r \<Rightarrow> r
        | InvalidInput r \<Rightarrow> r
        | DecodeFailed r \<Rightarrow> r
        | UnsupportedInputMediaType r \<Rightarrow> r
        | CapabilityMissing r \<Rightarrow> r
        | LimitExceeded r \<Rightarrow> r
        | UnsupportedOutputMediaType m \<Rightarrow> show_transform_error (UnsupportedOutputMediaType m))"

definition unsupported_output_media_type_response :: "string \<Rightarrow> problem" where
  "unsupported_output_media_type_response m = Problem CUnsupportedOutputMediaType m"

definition parse_named :: "string \<Rightarrow> string \<Rightarrow> (string \<Rightarrow> (string, 'a) outcome) \<Rightarrow> (problem, 'a) outcome" where
  "parse_named v field parser =
     map_err (\<lambda>reason. bad_request_response (field @ '': '' @ reason)) (parser v)"

definition parse_optional_named ::
  "string option \<Rightarrow> string \<Rightarrow> (string \<Rightarrow> (string, 'a) outcome) \<Rightarrow> (problem, 'a option) outcome" where
  "parse_optional_named v field parser =
     (case v of Some v \<Rightarrow> map_ok Some (parse_named v field parser) | None \<Rightarrow> Ok None)"

section \<open>The options payload\<close>

record options_payload =
  pl_width :: "u32 option"
  pl_height :: "u32 option"
  pl_fit :: "string option"
  pl_position :: "string option"
  pl_format :: "string option"
  pl_quality :: "u8 option"
  pl_optimize :: "string option"
  pl_target_quality :: "string option"
  pl_background :: "string option"
  pl_rotate :: "int option" \<comment> \<open>an \<open>i32\<close>\<close>
  pl_auto_orient :: "bool option"
  pl_strip_metadata :: "bool option"
  pl_preserve_exif :: "bool option"
  pl_crop :: "string option"
  pl_blur :: "float_val option"
  pl_sharpen :: "float_val option"
  pl_grayscale :: "bool option"
  pl_without_enlargement :: "bool option"
  pl_preset :: "string option"

text \<open>\<open>Option::or\<close>\<close>

fun or_else :: "'a option \<Rightarrow> 'a option \<Rightarrow> 'a option" where
  "or_else (Some x) y = Some x"
| "or_else None y = y"

lemma or_else_None [simp]: "or_else x None = x"
  by (cases x) simp_all

definition with_overrides :: "options_payload \<Rightarrow> options_payload \<Rightarrow> options_payload" where
  "with_overrides base over = \<lparr>
     pl_width = or_else (pl_width over) (pl_width base),
     pl_height = or_else (pl_height over) (pl_height base),
     pl_fit = or_else (pl_fit over) (pl_fit base),
     pl_position = or_else (pl_position over) (pl_position base),
     pl_format = or_else (pl_format over) (pl_format base),
     pl_quality = or_else (pl_quality over) (pl_quality base),
     pl_optimize = or_else (pl_optimize over) (pl_optimize base),
     pl_target_quality = or_else (pl_target_quality over) (pl_target_quality base),
     pl_background = or_else (pl_background over) (pl_background base),
     pl_rotate = or_else (pl_rotate over) (pl_rotate base),
     pl_auto_orient = or_else (pl_auto_orient over) (pl_auto_orient base),
     pl_strip_metadata = or_else (pl_strip_metadata over) (pl_strip_metadata base),
     pl_preserve_exif = or_else (pl_preserve_exif over) (pl_preserve_exif base),
     pl_crop = or_else (pl_crop over) (pl_crop base),
     pl_blur = or_else (pl_blur over) (pl_blur base),
     pl_sharpen = or_else (pl_sharpen over) (pl_sharpen base),
     pl_grayscale = or_else (pl_grayscale over) (pl_grayscale base),
     pl_without_enlargement = or_else (pl_without_enlargement over) (pl_without_enlargement base),
     pl_preset = None\<rparr>"

definition resolve_preset ::
  "(string \<Rightarrow> options_payload option) \<Rightarrow> options_payload \<Rightarrow> (problem, options_payload) outcome" where
  "resolve_preset presets p =
     (case pl_preset p of
        None \<Rightarrow> Ok p
      | Some name \<Rightarrow>
          map_ok (\<lambda>preset. with_overrides preset p)
            (ok_or (bad_request_response (''unknown preset `'' @ name @ ''`'')) (presets name)))"

definition output_format :: "options_payload \<Rightarrow> (problem, media_type option) outcome" where
  "output_format p =
     (case pl_format p of
        None \<Rightarrow> Ok None
      | Some v \<Rightarrow> and_then (parse_named v ''format'' media_from_str) (\<lambda>m.
          case unencodable_reason m of
            Some reason \<Rightarrow> Err (unsupported_output_media_type_response reason)
          | None \<Rightarrow> Ok (Some m)))"

definition show_int :: "int \<Rightarrow> string" where
  "show_int n = (if n < 0 then CHR ''-'' # show_nat (nat (- n)) else show_nat (nat n))"

definition opt_or :: "'a \<Rightarrow> 'a option \<Rightarrow> 'a" where
  "opt_or d v = (case v of Some x \<Rightarrow> x | None \<Rightarrow> d)"

definition into_options :: "options_payload \<Rightarrow> (problem, transform_options) outcome" where
  "into_options p =
     (let defaults = default_options in
      and_then (map_err (\<lambda>e. bad_request_response (show_transform_error e))
        (resolve_metadata_flags (pl_strip_metadata p) None
          (or_else (pl_preserve_exif p) (Some (opt_preserve_exif defaults)))))
        (\<lambda>(strip_metadata, preserve_exif).
      and_then (parse_optional_named (pl_fit p) ''fit'' fit_from_str) (\<lambda>fit.
      and_then (parse_optional_named (pl_position p) ''position'' position_from_str) (\<lambda>position.
      and_then (output_format p) (\<lambda>format.
      and_then (parse_optional_named (pl_optimize p) ''optimize'' optimize_from_str) (\<lambda>optimize.
      and_then (parse_optional_named (pl_target_quality p) ''targetQuality'' target_quality_from_str)
        (\<lambda>target.
      and_then (parse_optional_named (pl_background p) ''background'' rgba_from_hex) (\<lambda>background.
      and_then (case pl_rotate p of
          Some v \<Rightarrow> parse_named (show_int v) ''rotate'' rotation_from_str
        | None \<Rightarrow> Ok (opt_rotate defaults)) (\<lambda>rotate.
      and_then (parse_optional_named (pl_crop p) ''crop'' crop_from_str) (\<lambda>crop.
        let options = \<lparr>opt_width = pl_width p, opt_height = pl_height p, opt_fit = fit,
          opt_position = position, opt_format = format, opt_quality = pl_quality p,
          opt_optimize = opt_or (opt_optimize defaults) optimize, opt_target_quality = target,
          opt_background = background, opt_rotate = rotate,
          opt_auto_orient = opt_or (opt_auto_orient defaults) (pl_auto_orient p),
          opt_strip_metadata = strip_metadata, opt_preserve_exif = preserve_exif,
          opt_blur = pl_blur p, opt_sharpen = pl_sharpen p,
          opt_grayscale = opt_or (opt_grayscale defaults) (pl_grayscale p),
          opt_without_enlargement =
            opt_or (opt_without_enlargement defaults) (pl_without_enlargement p),
          opt_crop = crop, opt_deadline = opt_deadline defaults\<rparr>
        in and_then (map_err transform_error_response (validate_without_input options))
          (\<lambda>_. Ok options)))))))))))"

section \<open>The watermark payload\<close>

record watermark_payload =
  wp_url :: "string option"
  wp_position :: "string option"
  wp_opacity :: "u8 option"
  wp_margin :: "u32 option"

record validated_watermark =
  vw_url :: string
  vw_position :: position
  vw_opacity :: u8
  vw_margin :: u32

definition validate_watermark_payload ::
  "watermark_payload option \<Rightarrow> (problem, validated_watermark option) outcome" where
  "validate_watermark_payload payload =
     (case payload of
        None \<Rightarrow> Ok None
      | Some wm \<Rightarrow>
          and_then (ok_or (bad_request_response ''watermark url is required when a watermark is requested'')
            (nonempty (wp_url wm))) (\<lambda>url.
          and_then (parse_optional_named (wp_position wm) ''watermark position'' position_from_str)
            (\<lambda>position.
          let opacity = opt_or WATERMARK_DEFAULT_OPACITY (wp_opacity wm) in
          and_then (map_err bad_request_response (validate_watermark_opacity opacity)) (\<lambda>_.
            Ok (Some \<lparr>vw_url = url, vw_position = opt_or WATERMARK_DEFAULT_POSITION position,
              vw_opacity = opacity, vw_margin = opt_or WATERMARK_DEFAULT_MARGIN (wp_margin wm)\<rparr>)))))"

section \<open>The public query read\<close>

datatype source_payload =
    PathSource string "string option"
  | UrlSource string "string option"

definition parse_public_get_request ::
  "(string \<Rightarrow> options_payload option) \<Rightarrow> query \<Rightarrow> public_source_kind \<Rightarrow>
    (problem, source_payload \<times> transform_options \<times> watermark_payload option) outcome" where
  "parse_public_get_request presets query kind =
     and_then (validate_public_query_names query kind) (\<lambda>_.
     and_then (case kind of
         SourcePath \<Rightarrow> map_ok (\<lambda>p. PathSource p (map_of query ''version'')) (required_query_param query ''path'')
       | SourceUrl \<Rightarrow> map_ok (\<lambda>u. UrlSource u (map_of query ''version'')) (required_query_param query ''url''))
       (\<lambda>source.
     and_then
       (if map_of query ''watermarkUrl'' \<noteq> None then
          and_then (parse_optional_u8_query query ''watermarkOpacity'' validate_watermark_opacity_value)
            (\<lambda>opacity.
          and_then (parse_optional_integer_query query ''watermarkMargin'' validate_watermark_margin_value)
            (\<lambda>margin.
            Ok (Some \<lparr>wp_url = map_of query ''watermarkUrl'', wp_position = map_of query ''watermarkPosition'',
              wp_opacity = opacity, wp_margin = margin\<rparr>)))
        else if map_of query ''watermarkPosition'' \<noteq> None \<or> map_of query ''watermarkOpacity'' \<noteq> None \<or>
          map_of query ''watermarkMargin'' \<noteq> None
        then Err (bad_request_response
          ''watermarkPosition, watermarkOpacity, and watermarkMargin require watermarkUrl'')
        else Ok None) (\<lambda>watermark.
     and_then (parse_optional_integer_query query ''width'' validate_width_value) (\<lambda>width.
     and_then (parse_optional_integer_query query ''height'' validate_height_value) (\<lambda>height.
     and_then (parse_optional_u8_query query ''quality'' validate_quality_value) (\<lambda>quality.
     and_then (parse_optional_named (map_of query ''rotate'') ''rotate''
       (\<lambda>v. map_ok (\<lambda>r. uint (as_degrees r)) (rotation_from_str v))) (\<lambda>rotate.
     and_then (parse_optional_bool_query query ''autoOrient'') (\<lambda>auto_orient.
     and_then (parse_optional_bool_query query ''stripMetadata'') (\<lambda>strip_metadata.
     and_then (parse_optional_bool_query query ''preserveExif'') (\<lambda>preserve_exif.
     and_then (parse_optional_float_query query ''blur'') (\<lambda>blur.
     and_then (parse_optional_float_query query ''sharpen'') (\<lambda>sharpen.
     and_then (parse_optional_bool_query query ''grayscale'') (\<lambda>grayscale.
     and_then (parse_optional_bool_query query ''withoutEnlargement'') (\<lambda>without_enlargement.
       let per_request = \<lparr>pl_width = width, pl_height = height, pl_fit = map_of query ''fit'',
         pl_position = map_of query ''position'', pl_format = map_of query ''format'',
         pl_quality = quality, pl_optimize = map_of query ''optimize'',
         pl_target_quality = map_of query ''targetQuality'',
         pl_background = map_of query ''background'', pl_rotate = rotate,
         pl_auto_orient = auto_orient, pl_strip_metadata = strip_metadata,
         pl_preserve_exif = preserve_exif, pl_crop = map_of query ''crop'', pl_blur = blur,
         pl_sharpen = sharpen, pl_grayscale = grayscale,
         pl_without_enlargement = without_enlargement, pl_preset = map_of query ''preset''\<rparr>
       in and_then (resolve_preset presets per_request) (\<lambda>resolved.
          map_ok (\<lambda>options. (source, options, watermark)) (into_options resolved))))))))))))))))"

section \<open>The public query written\<close>

datatype signed_url_source =
    SignedPath string "string option"
  | SignedUrl string "string option"

fun insert_present :: "(string \<times> string option) list \<Rightarrow> query \<Rightarrow> query" where
  "insert_present [] q = q"
| "insert_present ((name, v) # ps) q =
     insert_present ps (case v of None \<Rightarrow> q | Some v \<Rightarrow> btree_insert name v q)"

definition signed_source_query :: "signed_url_source \<Rightarrow> query" where
  "signed_source_query source =
     (case source of
        SignedPath path version \<Rightarrow> insert_present [(''path'', Some path), (''version'', version)] []
      | SignedUrl url version \<Rightarrow> insert_present [(''url'', Some url), (''version'', version)] [])"

definition written_if :: "bool \<Rightarrow> string \<Rightarrow> string option" where
  "written_if c v = (if c then Some v else None)"

definition show_target :: "(float_val \<Rightarrow> string) \<Rightarrow> target_quality \<Rightarrow> string" where
  "show_target show_f32 t = metric_name (tq_metric t) @ '':'' @ show_f32 (tq_value t)"

text \<open>The option each insertion of \<open>extend_transform_query\<close> is guarded by, in its order.\<close>

definition transform_params ::
  "(float_val \<Rightarrow> string) \<Rightarrow> transform_options \<Rightarrow> (string \<times> string option) list" where
  "transform_params show_f32 o' =
     [(''width'', map_option show_word (opt_width o')),
      (''height'', map_option show_word (opt_height o')),
      (''fit'', map_option fit_name (opt_fit o')),
      (''position'', map_option position_name (opt_position o')),
      (''format'', map_option media_name (opt_format o')),
      (''quality'', map_option show_word (opt_quality o')),
      (''optimize'', written_if (opt_optimize o' \<noteq> NoOpt) (optimize_name (opt_optimize o'))),
      (''targetQuality'', map_option (show_target show_f32) (opt_target_quality o')),
      (''background'', map_option encode_background (opt_background o')),
      (''rotate'', written_if (\<not> rotation_is_identity (opt_rotate o')) (show_rotation (opt_rotate o'))),
      (''autoOrient'', written_if (\<not> opt_auto_orient o') ''false''),
      (''stripMetadata'', written_if (\<not> opt_strip_metadata o') ''false''),
      (''preserveExif'', written_if (opt_preserve_exif o') ''true''),
      (''crop'', map_option show_crop (opt_crop o')),
      (''blur'', map_option show_f32 (opt_blur o')),
      (''sharpen'', map_option show_f32 (opt_sharpen o')),
      (''grayscale'', written_if (opt_grayscale o') ''true''),
      (''withoutEnlargement'', written_if (opt_without_enlargement o') ''true'')]"

definition extend_transform_query ::
  "(float_val \<Rightarrow> string) \<Rightarrow> query \<Rightarrow> transform_options \<Rightarrow> query" where
  "extend_transform_query show_f32 query o' = insert_present (transform_params show_f32 o') query"

section \<open>What is written is what is read\<close>

lemma map_of_insert_present:
  "distinct (map fst ps) \<Longrightarrow>
    map_of (insert_present ps q) k = (case map_of ps k of Some (Some v) \<Rightarrow> Some v | _ \<Rightarrow> map_of q k)"
proof (induction ps arbitrary: q)
  case (Cons e ps)
  obtain n v where e: "e = (n, v)" by (cases e)
  have fresh: "map_of ps n = None" using Cons.prems e by (auto simp: map_of_eq_None_iff)
  show ?case
    using Cons fresh e by (auto simp: map_of_btree_insert split: option.splits)
qed simp

lemma ordered_insert_present: "ordered q \<Longrightarrow> ordered (insert_present ps q)"
  by (induction ps q rule: insert_present.induct) (auto simp: ordered_btree_insert split: option.splits)

lemma insert_present_append: "insert_present (xs @ ys) q = insert_present ys (insert_present xs q)"
  by (induction xs q rule: insert_present.induct) (auto split: option.splits)

lemma validate_public_query_names_Ok:
  "validate_public_query_names q kind = Ok () \<longleftrightarrow> (\<forall>k \<in> dom (map_of q). query_name_allowed kind k)"
proof -
  have "validate_public_query_names q kind = Ok () \<longleftrightarrow> (\<forall>e \<in> set q. query_name_allowed kind (fst e))"
  proof (induction q)
    case (Cons e q)
    then show ?case by (cases e) simp
  qed simp
  then show ?thesis by (simp add: dom_map_of_conv_image_fst)
qed

lemma show_word_parses: "wide_parse (show_word (w :: u32)) = Some (Fits (uint w))"
proof -
  have "int (unat w) = uint w" by simp
  moreover have "uint w \<le> i64_max" using less_imp_le [OF uint_u32_less [of w]] unfolding i64_max_def
    by (rule order_trans) simp
  ultimately show ?thesis using wide_parse_show_nat [of "unat w"] by (simp add: show_word_def)
qed

lemma uint_u8_less: "uint (w :: u8) < 256"
  using unsigned_less [of w, where ?'a = int] by simp

lemma show_u8_parses: "wide_parse (show_word (w :: u8)) = Some (Fits (uint w))"
proof -
  have "int (unat w) = uint w" by simp
  moreover have "uint w \<le> i64_max" using less_imp_le [OF uint_u8_less [of w]] unfolding i64_max_def
    by (rule order_trans) simp
  ultimately show ?thesis using wide_parse_show_nat [of "unat w"] by (simp add: show_word_def)
qed

named_theorems read_back \<open>a parameter written for a value reads as that value\<close>

lemma read_u32 [read_back]:
  "map_of q n = map_option show_word v \<Longrightarrow> parse_optional_integer_query q n f = Ok v"
  by (cases v) (simp_all add: parse_optional_integer_query_def parse_query_integer_def show_word_parses
    narrow_integer_def hold_or_judge_def)

lemma read_u8 [read_back]:
  "map_of q n = map_option show_word v \<Longrightarrow> parse_optional_u8_query q n f = Ok v"
  using uint_u8_less
  by (cases v) (simp_all add: parse_optional_u8_query_def parse_query_integer_def show_u8_parses
    narrow_integer_def hold_or_judge_def u8_try_from_def)

lemma read_float [read_back]:
  "map_of q n = map_option show_f32 v \<Longrightarrow> \<forall>x \<in> set_option v. parse_f32 (show_f32 x) = Some x \<Longrightarrow>
    parse_optional_float_query q n = Ok v"
  by (cases v) (simp_all add: parse_optional_float_query_def)

lemma read_false [read_back]:
  "map_of q n = written_if (\<not> b) ''false'' \<Longrightarrow>
    parse_optional_bool_query q n = Ok (if b then None else Some False)"
  by (simp add: parse_optional_bool_query_def written_if_def)

lemma read_true [read_back]:
  "map_of q n = written_if b ''true'' \<Longrightarrow>
    parse_optional_bool_query q n = Ok (if b then Some True else None)"
  by (simp add: parse_optional_bool_query_def written_if_def)

text \<open>A rotation of the core is an angle below a full turn.\<close>

definition rotation_ok :: "rotation \<Rightarrow> bool" where
  "rotation_ok r \<longleftrightarrow> as_degrees r < 360"

lemma uint_u16_bounds: "uint (w :: u16) < 65536"
  using unsigned_less [of w, where ?'a = int] by simp

lemma show_u16_parses: "wide_parse (show_word (w :: u16)) = Some (Fits (uint w))"
proof -
  have "int (unat w) = uint w" by simp
  moreover have "uint w \<le> i64_max" using less_imp_le [OF uint_u16_bounds [of w]] unfolding i64_max_def
    by (rule order_trans) simp
  ultimately show ?thesis using wide_parse_show_nat [of "unat w"] by (simp add: show_word_def)
qed

lemma show_rotation_parses: "rotation_ok r \<Longrightarrow> rotation_from_str (show_rotation r) = Ok r"
proof -
  assume ok: "rotation_ok r"
  then have small: "uint (as_degrees r) < 360" by (simp add: rotation_ok_def word_less_def)
  have rem: "rust_rem (uint (as_degrees r)) 360 = uint (as_degrees r)"
    using small by (cases "as_degrees r = 0") (simp_all add: rust_rem_def)
  have "rotation_from_degrees (uint (as_degrees r)) = r"
    using small by (cases r) (simp add: rotation_from_degrees_mod)
  then show "rotation_from_str (show_rotation r) = Ok r"
    by (simp add: rotation_from_str_def show_rotation_def show_u16_parses rem)
qed

lemma show_int_uint: "show_int (uint w) = show_word w"
  by (simp add: show_int_def show_word_def)

lemma read_rotate [read_back]:
  assumes "map_of q ''rotate'' = written_if (\<not> rotation_is_identity r) (show_rotation r)" and "rotation_ok r"
  shows "parse_optional_named (map_of q ''rotate'') ''rotate''
      (\<lambda>v. map_ok (\<lambda>r. uint (as_degrees r)) (rotation_from_str v)) =
    Ok (if rotation_is_identity r then None else Some (uint (as_degrees r)))"
  using assms by (cases "rotation_is_identity r")
    (simp_all add: parse_optional_named_def parse_named_def written_if_def show_rotation_parses)

lemma read_named:
  "named_option as_name from_str al \<Longrightarrow>
    parse_optional_named (map_option as_name v) field from_str = Ok v"
  by (cases v) (simp_all add: parse_optional_named_def parse_named_def named_option.roundtrip)

lemma media_names: "named_option media_name media_from_str media_aliases"
  by (rule media.named_option_axioms)

lemma target_reads_back:
  "parse_f32 (show_f32 (tq_value t)) = Some (tq_value t) \<Longrightarrow>
    target_quality_from_str (show_target show_f32 t) = Ok t"
proof -
  assume v: "parse_f32 (show_f32 (tq_value t)) = Some (tq_value t)"
  have "CHR '':'' \<notin> set (metric_name (tq_metric t))" by (cases "tq_metric t") simp_all
  then have "split_once CHR '':'' (show_target show_f32 t) =
      Some (metric_name (tq_metric t), show_f32 (tq_value t))"
    unfolding split_once_Some_iff by (simp add: show_target_def)
  then show "target_quality_from_str (show_target show_f32 t) = Ok t"
    using v by (simp add: target_quality_from_str_def metric.roundtrip)
qed

section \<open>The options a signer writes are the options the server reads\<close>

lemma look_insert_present:
  "distinct (map fst ps) \<Longrightarrow>
    map_of (insert_present ps q) k = or_else (Option.bind (map_of ps k) id) (map_of q k)"
  by (simp add: map_of_insert_present split: option.split)

text \<open>The payload \<open>parse_public_get_request\<close> builds from a query that holds these options.\<close>

definition written_payload :: "(float_val \<Rightarrow> string) \<Rightarrow> transform_options \<Rightarrow> options_payload" where
  "written_payload show_f32 o' = \<lparr>
     pl_width = opt_width o', pl_height = opt_height o',
     pl_fit = map_option fit_name (opt_fit o'), pl_position = map_option position_name (opt_position o'),
     pl_format = map_option media_name (opt_format o'), pl_quality = opt_quality o',
     pl_optimize = written_if (opt_optimize o' \<noteq> NoOpt) (optimize_name (opt_optimize o')),
     pl_target_quality = map_option (show_target show_f32) (opt_target_quality o'),
     pl_background = map_option encode_background (opt_background o'),
     pl_rotate = (if rotation_is_identity (opt_rotate o') then None
       else Some (uint (as_degrees (opt_rotate o')))),
     pl_auto_orient = (if opt_auto_orient o' then None else Some False),
     pl_strip_metadata = (if opt_strip_metadata o' then None else Some False),
     pl_preserve_exif = (if opt_preserve_exif o' then Some True else None),
     pl_crop = map_option show_crop (opt_crop o'), pl_blur = opt_blur o',
     pl_sharpen = opt_sharpen o', pl_grayscale = (if opt_grayscale o' then Some True else None),
     pl_without_enlargement = (if opt_without_enlargement o' then Some True else None),
     pl_preset = None\<rparr>"

text \<open>Options a signed URL can carry.\<close>

definition signable :: "(float_val \<Rightarrow> string) \<Rightarrow> transform_options \<Rightarrow> bool" where
  "signable show_f32 o' \<longleftrightarrow>
     validate_without_input o' = Ok () \<and> opt_deadline o' = None \<and> rotation_ok (opt_rotate o') \<and>
     pred_option is_encodable (opt_format o') \<and>
     pred_option (\<lambda>t. parse_f32 (show_f32 (tq_value t)) = Some (tq_value t)) (opt_target_quality o') \<and>
     pred_option (\<lambda>x. parse_f32 (show_f32 x) = Some x) (opt_blur o') \<and>
     pred_option (\<lambda>x. parse_f32 (show_f32 x) = Some x) (opt_sharpen o')"

lemma identity_rotation: "rotation_is_identity r \<Longrightarrow> r = Rotation 0"
  by (cases r) (simp add: rotation_is_identity_def)

lemma into_options_written:
  assumes "signable show_f32 o'"
  shows "into_options (written_payload show_f32 o') = Ok o'"
proof -
  let ?p = "written_payload show_f32 o'"
  have valid: "validate_without_input o' = Ok ()" and deadline: "opt_deadline o' = None"
    using assms by (simp_all add: signable_def)
  have flags: "resolve_metadata_flags (pl_strip_metadata ?p) None
      (or_else (pl_preserve_exif ?p) (Some (opt_preserve_exif default_options))) =
      Ok (opt_strip_metadata o', opt_preserve_exif o')"
    using valid unfolding validate_without_input_Ok
    by (simp add: resolve_metadata_flags_def written_payload_def default_options_def)
  have fit: "parse_optional_named (pl_fit ?p) f fit_from_str = Ok (opt_fit o')"
    and position: "parse_optional_named (pl_position ?p) f position_from_str = Ok (opt_position o')" for f
    by (simp_all add: written_payload_def read_named [OF fit.named_option_axioms]
        read_named [OF position.named_option_axioms])
  have format: "output_format ?p = Ok (opt_format o')"
    using assms by (cases "opt_format o'")
      (simp_all add: output_format_def written_payload_def parse_named_def media.roundtrip
        unencodable_reason_def signable_def)
  have optimize: "parse_optional_named (pl_optimize ?p) f optimize_from_str =
      Ok (if opt_optimize o' = NoOpt then None else Some (opt_optimize o'))" for f
    by (simp add: written_payload_def written_if_def parse_optional_named_def parse_named_def
      optimize.roundtrip)
  have target: "parse_optional_named (pl_target_quality ?p) f target_quality_from_str =
      Ok (opt_target_quality o')" for f
    using assms by (cases "opt_target_quality o'")
      (simp_all add: written_payload_def parse_optional_named_def parse_named_def target_reads_back
        signable_def)
  have background: "parse_optional_named (pl_background ?p) f rgba_from_hex = Ok (opt_background o')" for f
    by (cases "opt_background o'")
      (simp_all add: written_payload_def parse_optional_named_def parse_named_def)
  have rotate: "(case pl_rotate ?p of Some v \<Rightarrow> parse_named (show_int v) ''rotate'' rotation_from_str
      | None \<Rightarrow> Ok (opt_rotate default_options)) = Ok (opt_rotate o')"
    using assms show_rotation_parses [of "opt_rotate o'"] identity_rotation [of "opt_rotate o'"]
    by (auto simp: written_payload_def parse_named_def show_int_uint signable_def show_rotation_def
        default_options_def)
  have crop: "parse_optional_named (pl_crop ?p) f crop_from_str = Ok (opt_crop o')" for f
    using valid unfolding validate_without_input_Ok
    by (cases "opt_crop o'")
      (simp_all add: written_payload_def parse_optional_named_def parse_named_def crop_text_roundtrip)
  have same: "\<lparr>opt_width = pl_width ?p, opt_height = pl_height ?p, opt_fit = opt_fit o',
      opt_position = opt_position o', opt_format = opt_format o', opt_quality = pl_quality ?p,
      opt_optimize = opt_or (opt_optimize default_options)
        (if opt_optimize o' = NoOpt then None else Some (opt_optimize o')),
      opt_target_quality = opt_target_quality o', opt_background = opt_background o',
      opt_rotate = opt_rotate o',
      opt_auto_orient = opt_or (opt_auto_orient default_options) (pl_auto_orient ?p),
      opt_strip_metadata = opt_strip_metadata o', opt_preserve_exif = opt_preserve_exif o',
      opt_blur = pl_blur ?p, opt_sharpen = pl_sharpen ?p,
      opt_grayscale = opt_or (opt_grayscale default_options) (pl_grayscale ?p),
      opt_without_enlargement =
        opt_or (opt_without_enlargement default_options) (pl_without_enlargement ?p),
      opt_crop = opt_crop o', opt_deadline = opt_deadline default_options\<rparr> = o'"
    using deadline by (simp add: written_payload_def default_options_def opt_or_def)
  show ?thesis
    unfolding into_options_def Let_def flags fit position format optimize target background rotate crop
    by (simp only: and_then.simps prod.case same valid map_err.simps)
qed

end
