(* ===== verification/Signing.thy ===== *)
theory Signing
  imports Payload
begin

text \<open>
  Signed public URLs: the signer of \<open>src/adapters/server/signing.rs\<close> and the verifier, the bearer
  token and the canonical authority of \<open>src/adapters/server/auth.rs\<close>. The code of other crates
  is a parameter: the URL type (\<open>url_ops\<close>), HMAC-SHA256, the comparison of tags and the
  hexadecimal codec (\<open>crypto\<close>), and the urlencoded codec (\<open>form_codec\<close>).
\<close>

section \<open>What other crates provide\<close>

record crypto =
  hmac_sha256 :: "string \<Rightarrow> string \<Rightarrow> string + bytes" \<comment> \<open>key, message; or why it has no state\<close>
  ct_eq :: "bytes \<Rightarrow> bytes \<Rightarrow> bool"
  hex_encode :: "bytes \<Rightarrow> string"
  hex_decode :: "string \<Rightarrow> bytes option"

record 'u url_ops =
  url_parse :: "string \<Rightarrow> string + 'u"
  url_scheme :: "'u \<Rightarrow> string"
  url_path :: "'u \<Rightarrow> string"
  url_set_path :: "'u \<Rightarrow> string \<Rightarrow> 'u"
  url_join :: "'u \<Rightarrow> string \<Rightarrow> string + 'u"
  url_host_str :: "'u \<Rightarrow> string option"
  url_port :: "'u \<Rightarrow> u16 option"
  url_set_query :: "'u \<Rightarrow> string \<Rightarrow> 'u"
  url_text :: "'u \<Rightarrow> string"

definition of_sum :: "('e \<Rightarrow> 'f) \<Rightarrow> 'e + 'a \<Rightarrow> ('f, 'a) outcome" where
  "of_sum f r = (case r of Inl e \<Rightarrow> Err (f e) | Inr x \<Rightarrow> Ok x)"

section \<open>The bearer token\<close>

record auth_settings =
  bearer_token :: "string option"
  signing_keys :: "(string \<times> string) list"
  public_base_url :: "string option"

text \<open>\<open>str::split_once\<close> at the first white space, which may be more than one byte long.\<close>

fun split_at_ws :: "string \<Rightarrow> (string \<times> string) option" where
  "split_at_ws [] = None"
| "split_at_ws (c # s) =
     (if leading_ws (c # s) \<noteq> 0 then Some ([], drop (leading_ws (c # s)) (c # s))
      else map_option (\<lambda>(a, b). (c # a, b)) (split_at_ws s))"

definition extract_bearer_token :: "string \<Rightarrow> string option" where
  "extract_bearer_token v =
     Option.bind (split_at_ws v) (\<lambda>(scheme, token).
       if eq_ignore_ascii_case scheme ''Bearer'' then nonempty (Some (trim token)) else None)"

definition auth_required_response :: "string \<Rightarrow> problem \<times> headers" where
  "auth_required_response m = (Problem CUnauthorized m, [(''WWW-Authenticate'', ''Bearer'')])"

definition service_unavailable_response :: "string \<Rightarrow> nat option \<Rightarrow> problem \<times> headers" where
  "service_unavailable_response m retry_after =
     (Problem CServiceUnavailable m,
      (case retry_after of None \<Rightarrow> [] | Some secs \<Rightarrow> [(''Retry-After'', show_nat secs)]))"

definition authorize_request_headers ::
  "crypto \<Rightarrow> headers \<Rightarrow> auth_settings \<Rightarrow> (problem \<times> headers, unit) outcome" where
  "authorize_request_headers X hs config =
     and_then (ok_or (service_unavailable_response ''private API bearer token is not configured'' None)
       (bearer_token config)) (\<lambda>expected.
     case Option.bind (map_of hs ''authorization'') extract_bearer_token of
       Some token \<Rightarrow>
         if ct_eq X (ascii token) (ascii expected) then Ok ()
         else Err (auth_required_response ''authorization required'')
     | None \<Rightarrow> Err (auth_required_response ''authorization required''))"

definition authorize_request ::
  "crypto \<Rightarrow> http_request \<Rightarrow> auth_settings \<Rightarrow> (problem \<times> headers, unit) outcome" where
  "authorize_request X request config = authorize_request_headers X (hr_headers request) config"

section \<open>The authority a signature covers\<close>

definition url_authority :: "'u url_ops \<Rightarrow> 'u \<Rightarrow> (string, string) outcome" where
  "url_authority U url =
     and_then (ok_or ''configured public base URL must include a host'' (url_host_str U url)) (\<lambda>host.
       Ok (case url_port U url of
             Some port \<Rightarrow> host @ '':'' @ show_word port
           | None \<Rightarrow> host))"

definition canonical_request_authority ::
  "'u url_ops \<Rightarrow> http_request \<Rightarrow> auth_settings \<Rightarrow> (problem, string) outcome" where
  "canonical_request_authority U request config =
     (case public_base_url config of
        Some base \<Rightarrow>
          and_then (of_sum (\<lambda>e. internal_error_response
              (''configured public base URL is invalid at runtime: '' @ e)) (url_parse U base)) (\<lambda>parsed.
            map_err internal_error_response (url_authority U parsed))
      | None \<Rightarrow>
          ok_or (bad_request_response ''public GET requests require a Host header'')
            (nonempty (map_option trim (header_value (hr_headers request) ''host''))))"

definition canonical_text :: "string \<Rightarrow> string \<Rightarrow> string \<Rightarrow> string \<Rightarrow> string" where
  "canonical_text method authority path query =
     method @ [CHR 0x0A] @ authority @ [CHR 0x0A] @ path @ [CHR 0x0A] @ query"

section \<open>The verifier\<close>

definition SIGNATURE_HEX_LENGTH :: nat where "SIGNATURE_HEX_LENGTH = 64"

definition lower_hex_char :: "char \<Rightarrow> bool" where
  "lower_hex_char c \<longleftrightarrow> is_ascii_digit c \<or> (97 \<le> code c \<and> code c \<le> 122 \<and> code c \<le> 102)"

definition is_canonical_signature :: "string \<Rightarrow> bool" where
  "is_canonical_signature signature \<longleftrightarrow>
     length signature = SIGNATURE_HEX_LENGTH \<and> list_all lower_hex_char signature"

text \<open>The clock is read once; \<open>now\<close> is its answer, or why there is none.\<close>

definition authorize_signed_request ::
  "crypto \<Rightarrow> 'u url_ops \<Rightarrow> form_codec \<Rightarrow> string + nat \<Rightarrow> http_request \<Rightarrow> query \<Rightarrow> auth_settings \<Rightarrow>
    (problem, unit) outcome" where
  "authorize_signed_request X U form now request query config =
     (if signing_keys config = []
      then Err (fst (service_unavailable_response ''public signed URL keys are not configured'' None))
      else
        and_then (required_auth_query_param query ''keyId'') (\<lambda>key_id.
        and_then (required_auth_query_param query ''expires'') (\<lambda>expires_text.
        and_then (required_auth_query_param query ''signature'') (\<lambda>signature.
        and_then (ok_or signed_url_refused (map_of (signing_keys config) key_id)) (\<lambda>secret.
        and_then (parse_expires expires_text) (\<lambda>expires.
        and_then (of_sum (\<lambda>e. internal_error_response (''failed to read the current time: '' @ e)) now)
          (\<lambda>now_secs.
        if expires < now_secs then Err signed_url_refused
        else
          and_then (canonical_request_authority U request config) (\<lambda>authority.
          let canonical = canonical_text (hr_method request) authority
                (path_of_target (hr_target request)) (canonical_query_without_signature form query)
          in if \<not> is_canonical_signature signature then Err signed_url_refused
          else
            and_then (ok_or signed_url_refused (hex_decode X signature)) (\<lambda>provided.
            and_then (of_sum (\<lambda>e. internal_error_response
                (''failed to initialize signed URL verification: '' @ e))
                (hmac_sha256 X secret canonical)) (\<lambda>tag.
              if ct_eq X tag provided then Ok () else Err signed_url_refused))))))))))"

section \<open>The signer\<close>

record signed_watermark =
  sw_url :: string
  sw_position :: "string option"
  sw_opacity :: "u8 option"
  sw_margin :: "u32 option"

definition signing_input_error :: "string \<Rightarrow> string \<Rightarrow> signed_url_source \<Rightarrow> string option" where
  "signing_input_error key_id secret source =
     (if key_id = [] then Some ''key id must not be empty''
      else if secret = [] then Some ''secret must not be empty''
      else (case source of
          SignedPath path _ \<Rightarrow> if path = [] then Some ''path must not be empty'' else None
        | SignedUrl url _ \<Rightarrow> if url = [] then Some ''url must not be empty'' else None))"

definition watermark_params :: "signed_watermark option \<Rightarrow> (string \<times> string option) list" where
  "watermark_params wm =
     [(''watermarkUrl'', map_option sw_url wm),
      (''watermarkPosition'', Option.bind wm sw_position),
      (''watermarkOpacity'', map_option show_word (Option.bind wm sw_opacity)),
      (''watermarkMargin'', map_option show_word (Option.bind wm sw_margin))]"

definition route_of :: "signed_url_source \<Rightarrow> string" where
  "route_of source = (case source of SignedPath _ _ \<Rightarrow> ''/images/by-path'' | SignedUrl _ _ \<Rightarrow> ''/images/by-url'')"

text \<open>The query as the signer has built it when it computes the canonical text.\<close>

definition unsigned_query ::
  "(float_val \<Rightarrow> string) \<Rightarrow> signed_url_source \<Rightarrow> transform_options \<Rightarrow> string \<Rightarrow> nat \<Rightarrow>
    signed_watermark option \<Rightarrow> string option \<Rightarrow> query" where
  "unsigned_query show_f32 source options key_id expires watermark preset =
     insert_present [(''keyId'', Some key_id), (''expires'', Some (show_nat expires))]
       (insert_present (watermark_params watermark)
         (extend_transform_query show_f32
           (insert_present [(''preset'', preset)] (signed_source_query source)) options))"

text \<open>The endpoint and the query string that are put together at the end.\<close>

definition signed_url_parts ::
  "crypto \<Rightarrow> 'u url_ops \<Rightarrow> form_codec \<Rightarrow> (float_val \<Rightarrow> string) \<Rightarrow> string \<Rightarrow> string \<Rightarrow>
    signed_url_source \<Rightarrow> transform_options \<Rightarrow> string \<Rightarrow> string \<Rightarrow> nat \<Rightarrow> signed_watermark option \<Rightarrow>
    string option \<Rightarrow> (string, 'u \<times> string) outcome" where
  "signed_url_parts X U form show_f32 method base source options key_id secret expires
       watermark preset =
     and_then (of_sum (\<lambda>e. ''base URL is invalid: '' @ e) (url_parse U base)) (\<lambda>base_url.
     and_then (reject_if (url_scheme U base_url \<noteq> ''http'' \<and> url_scheme U base_url \<noteq> ''https'')
       ''base URL must use the http or https scheme'') (\<lambda>_.
     and_then (case signing_input_error key_id secret source of
         Some reason \<Rightarrow> Err reason | None \<Rightarrow> Ok ()) (\<lambda>_.
     let route_path = route_of source;
         path = url_path U base_url;
         base_url' = (if path \<noteq> [] \<and> last path = CHR ''/'' then base_url
           else url_set_path U base_url (path @ ''/''))
     in and_then (of_sum (\<lambda>e. ''failed to resolve the public endpoint URL: '' @ e)
         (url_join U base_url' (dropWhile (\<lambda>c. c = CHR ''/'') route_path))) (\<lambda>endpoint.
     and_then (url_authority U endpoint) (\<lambda>authority.
     let query = unsigned_query show_f32 source options key_id expires watermark preset;
         canonical = canonical_text (ascii_upper method) authority route_path
           (canonical_query_without_signature form query)
     in and_then (of_sum (\<lambda>e. ''failed to initialize signed URL HMAC: '' @ e)
         (hmac_sha256 X secret canonical)) (\<lambda>tag.
       Ok (endpoint, form_encode form (btree_insert ''signature'' (hex_encode X tag) query))))))))"

definition sign_public_url_with_method ::
  "crypto \<Rightarrow> 'u url_ops \<Rightarrow> form_codec \<Rightarrow> (float_val \<Rightarrow> string) \<Rightarrow> string \<Rightarrow> string \<Rightarrow>
    signed_url_source \<Rightarrow> transform_options \<Rightarrow> string \<Rightarrow> string \<Rightarrow> nat \<Rightarrow> signed_watermark option \<Rightarrow>
    string option \<Rightarrow> (string, string) outcome" where
  "sign_public_url_with_method X U form show_f32 method base source options key_id secret expires
       watermark preset =
     map_ok (\<lambda>(endpoint, query). url_text U (url_set_query U endpoint query))
       (signed_url_parts X U form show_f32 method base source options key_id secret expires
         watermark preset)"

definition sign_public_url ::
  "crypto \<Rightarrow> 'u url_ops \<Rightarrow> form_codec \<Rightarrow> (float_val \<Rightarrow> string) \<Rightarrow> string \<Rightarrow>
    signed_url_source \<Rightarrow> transform_options \<Rightarrow> string \<Rightarrow> string \<Rightarrow> nat \<Rightarrow> signed_watermark option \<Rightarrow>
    string option \<Rightarrow> (string, string) outcome" where
  "sign_public_url X U form show_f32 = sign_public_url_with_method X U form show_f32 ''GET''"

section \<open>What the other crates document\<close>

text \<open>\<open>hex::decode\<close>: pairs of digits of either case, and nothing else.\<close>

fun hex_bytes :: "string \<Rightarrow> bytes option" where
  "hex_bytes [] = Some []"
| "hex_bytes [c] = None"
| "hex_bytes (c # d # s) =
     (case hex_val c of None \<Rightarrow> None
      | Some a \<Rightarrow> (case hex_val d of None \<Rightarrow> None
         | Some b \<Rightarrow> map_option (\<lambda>r. of_nat (16 * a + b) # r) (hex_bytes s)))"

definition crypto_ok :: "crypto \<Rightarrow> bool" where
  "crypto_ok X \<longleftrightarrow>
     (\<forall>a b. ct_eq X a b \<longleftrightarrow> a = b) \<and>
     (\<forall>k m. \<exists>t. hmac_sha256 X k m = Inr t \<and> length t = 32) \<and>
     (\<forall>bs. hex_encode X bs = hex_text bs) \<and> (\<forall>s. hex_decode X s = hex_bytes s)"

lemma hex_text_Cons: "hex_text (b # bs) = hex_char (unat b div 16) # hex_char (unat b mod 16) # hex_text bs"
  by (simp add: hex_text_def hex2_def)

lemma hex_text_Nil [simp]: "hex_text [] = []"
  by (simp add: hex_text_def)

lemma length_hex_text [simp]: "length (hex_text bs) = 2 * length bs"
  by (induction bs) (simp_all add: hex_text_Cons)

lemma u8_div_16: "unat (b :: u8) div 16 < 16"
  using u8_less [of b] by linarith

lemma hex_bytes_hex_text [simp]: "hex_bytes (hex_text bs) = Some bs"
proof (induction bs)
  case (Cons b bs)
  have "(of_nat (16 * (unat b div 16) + unat b mod 16) :: u8) = b"
    unfolding mult_div_mod_eq by simp
  then show ?case using Cons u8_div_16 [of b] by (simp add: hex_text_Cons)
qed simp

lemma lower_hex_val:
  assumes "lower_hex_char c"
  obtains n where "n < 16" "hex_val c = Some n" "hex_char n = c"
proof -
  have "hex_val c = Some (if is_ascii_digit c then code c - 48 else code c - 87)"
    using assms by (auto simp: lower_hex_char_def hex_val_def is_ascii_digit_def)
  moreover have "(if is_ascii_digit c then code c - 48 else code c - 87) < 16"
    using assms by (auto simp: lower_hex_char_def is_ascii_digit_def)
  moreover have "hex_char (if is_ascii_digit c then code c - 48 else code c - 87) = c"
    using assms by (auto simp: lower_hex_char_def is_ascii_digit_def hex_char_def)
  ultimately show ?thesis using that by blast
qed

lemma hex_text_hex_bytes:
  "list_all lower_hex_char s \<Longrightarrow> hex_bytes s = Some bs \<Longrightarrow> hex_text bs = s"
proof (induction s arbitrary: bs rule: hex_bytes.induct)
  case (3 c d s)
  obtain a where a: "a < 16" "hex_val c = Some a" "hex_char a = c"
    using 3(2) lower_hex_val [of c] by auto
  obtain b where b: "b < 16" "hex_val d = Some b" "hex_char b = d"
    using 3(2) lower_hex_val [of d] by auto
  obtain r where r: "hex_bytes s = Some r" "bs = of_nat (16 * a + b) # r"
    using 3(3) a b by auto
  have "unat (of_nat (16 * a + b) :: u8) = 16 * a + b"
    using a(1) b(1) by (simp add: unsigned_of_nat take_bit_nat_eq_self del: of_nat_add of_nat_mult)
  then have "hex_text bs = hex_char a # hex_char b # hex_text r"
    using b(1) by (simp add: r(2) hex_text_Cons)
  then show ?case using 3(1) [OF a(2) b(2) _ r(1)] 3(2) a(3) b(3) by simp
qed auto

lemma hex_text_lower: "list_all lower_hex_char (hex_text bs)"
proof (induction bs)
  case (Cons b bs)
  have "lower_hex_char (hex_char n)" if "n < 16" for n
    using that by (auto simp: lower_hex_char_def hex_char_def is_ascii_digit_def)
  then show ?case using Cons u8_div_16 [of b] by (simp add: hex_text_Cons)
qed simp

section \<open>What a signature proves\<close>

text \<open>The text a request is accepted for, when there is one.\<close>

definition signed_text :: "'u url_ops \<Rightarrow> form_codec \<Rightarrow> http_request \<Rightarrow> query \<Rightarrow> string \<Rightarrow> string" where
  "signed_text U form request query authority =
     canonical_text (hr_method request) authority (path_of_target (hr_target request))
       (canonical_query_without_signature form query)"

lemma nonempty_Some [simp]: "nonempty v = Some s \<longleftrightarrow> v = Some s \<and> s \<noteq> []"
  by (auto simp: nonempty_def split: bind_splits)

lemma of_sum_eq_Ok [simp]: "of_sum f r = Ok x \<longleftrightarrow> r = Inr x"
  by (auto simp: of_sum_def split: sum.split)

lemma required_auth_Ok [simp]:
  "required_auth_query_param q n = Ok v \<longleftrightarrow> map_of q n = Some v \<and> v \<noteq> []"
  by (simp add: required_auth_query_param_def)

lemma authorize_signed_iff:
  assumes "crypto_ok X"
  shows "authorize_signed_request X U form now request query config = Ok () \<longleftrightarrow>
    (\<exists>key_id secret text expires t authority tag.
      map_of query ''keyId'' = Some key_id \<and> key_id \<noteq> [] \<and>
      map_of (signing_keys config) key_id = Some secret \<and>
      map_of query ''expires'' = Some text \<and> parse_expires text = Ok expires \<and> text \<noteq> [] \<and>
      now = Inr t \<and> t \<le> expires \<and>
      canonical_request_authority U request config = Ok authority \<and>
      hmac_sha256 X secret (signed_text U form request query authority) = Inr tag \<and>
      map_of query ''signature'' = Some (hex_text tag))"
    (is "?l \<longleftrightarrow> ?r")
proof -
  have eq: "ct_eq X a b \<longleftrightarrow> a = b" and dec: "hex_decode X s = hex_bytes s" for a b s
    using assms by (simp_all add: crypto_ok_def)
  have tag: "length t = 32" if "hmac_sha256 X k m = Inr t" for k m t
    using assms that unfolding crypto_ok_def by (metis sum.inject(2))
  have canon: "is_canonical_signature s \<and> hex_bytes s = Some tag \<longleftrightarrow> s = hex_text tag \<and> length tag = 32" for s tag
    using hex_text_hex_bytes [of s tag] hex_text_lower [of tag]
    by (auto simp: is_canonical_signature_def SIGNATURE_HEX_LENGTH_def)
  have ne: "hex_text t \<noteq> []" if "length t = 32" for t using that length_hex_text [of t] by (metis list.size(3) mult_eq_0_iff zero_neq_numeral)
  show ?thesis
  proof
    assume ?l
    then show ?r
      by (auto simp: authorize_signed_request_def eq dec Let_def signed_text_def not_less
          dest!: conjI [THEN canon [THEN iffD1]] split: if_splits)
  next
    assume ?r
    then show ?l
      using canon tag ne
      by (fastforce simp: authorize_signed_request_def eq dec Let_def signed_text_def not_less)
  qed
qed

section \<open>What is signed is what is served\<close>

definition source_params :: "signed_url_source \<Rightarrow> (string \<times> string option) list" where
  "source_params source =
     (case source of
        SignedPath path version \<Rightarrow> [(''path'', Some path), (''version'', version)]
      | SignedUrl url version \<Rightarrow> [(''url'', Some url), (''version'', version)])"

definition signed_params ::
  "(float_val \<Rightarrow> string) \<Rightarrow> signed_url_source \<Rightarrow> transform_options \<Rightarrow> string \<Rightarrow> nat \<Rightarrow>
    signed_watermark option \<Rightarrow> string option \<Rightarrow> string option \<Rightarrow> (string \<times> string option) list" where
  "signed_params show_f32 source options key_id expires watermark preset signature =
     source_params source @ (''preset'', preset) # transform_params show_f32 options @
     watermark_params watermark @
     [(''keyId'', Some key_id), (''expires'', Some (show_nat expires)), (''signature'', signature)]"

lemma signed_query_is:
  "btree_insert ''signature'' s (unsigned_query show_f32 source options key_id expires watermark preset) =
    insert_present (signed_params show_f32 source options key_id expires watermark preset (Some s)) []"
  by (cases source)
    (simp_all add: unsigned_query_def signed_params_def source_params_def insert_present_append
      extend_transform_query_def signed_source_query_def)

lemma unsigned_query_ordered:
  "ordered (unsigned_query show_f32 source options key_id expires watermark preset)"
  by (cases source)
    (simp_all add: unsigned_query_def extend_transform_query_def signed_source_query_def
      ordered_insert_present del: insert_present.simps)

lemma signed_params_distinct:
  "distinct (map fst (signed_params show_f32 source options key_id expires watermark preset s))"
  by (cases source) (simp_all add: signed_params_def source_params_def transform_params_def watermark_params_def)

definition source_kind :: "signed_url_source \<Rightarrow> public_source_kind" where
  "source_kind source = (case source of SignedPath _ _ \<Rightarrow> SourcePath | SignedUrl _ _ \<Rightarrow> SourceUrl)"

definition source_read :: "signed_url_source \<Rightarrow> source_payload" where
  "source_read source =
     (case source of SignedPath p v \<Rightarrow> PathSource p v | SignedUrl u v \<Rightarrow> UrlSource u v)"

definition watermark_read :: "signed_watermark \<Rightarrow> watermark_payload" where
  "watermark_read wm = \<lparr>wp_url = Some (sw_url wm), wp_position = sw_position wm,
     wp_opacity = sw_opacity wm, wp_margin = sw_margin wm\<rparr>"

text \<open>A query that holds exactly the parameters that are present in a list.\<close>

definition holds_params :: "query \<Rightarrow> (string \<times> string option) list \<Rightarrow> bool" where
  "holds_params q ps \<longleftrightarrow> (\<forall>k. map_of q k = Option.bind (map_of ps k) id)"

abbreviation signed_holds where
  "signed_holds q show_f32 source options key_id expires watermark signature \<equiv>
     holds_params q (signed_params show_f32 source options key_id expires watermark None (Some signature))"

lemma signed_names:
  assumes "signed_holds q show_f32 source options key_id expires watermark signature"
  shows "validate_public_query_names q (source_kind source) = Ok ()"
proof -
  have "query_name_allowed (source_kind source) k" if "map_of q k \<noteq> None" for k
  proof -
    have "map_of (signed_params show_f32 source options key_id expires watermark None (Some signature)) k \<noteq> None"
      using that assms unfolding holds_params_def by (metis Option.bind_lzero)
    then have "k \<in> fst ` set (signed_params show_f32 source options key_id expires watermark None (Some signature))"
      by (simp add: map_of_eq_None_iff)
    then show ?thesis
      by (cases source) (auto simp: signed_params_def source_params_def transform_params_def
        watermark_params_def query_name_allowed_def PUBLIC_QUERY_NAMES_def source_name_def source_kind_def)
  qed
  then show ?thesis by (auto simp: validate_public_query_names_Ok)
qed

lemma signed_lookups:
  assumes "signed_holds q show_f32 source options key_id expires watermark signature"
    and "n \<in> fst ` set (transform_params show_f32 options)"
  shows "map_of q n = Option.bind (map_of (transform_params show_f32 options) n) id"
  using assms(2,1)
  by (cases source) (auto simp: holds_params_def signed_params_def source_params_def transform_params_def)

lemma signed_source_read:
  assumes "signed_holds q show_f32 source options key_id expires watermark signature"
    and "signing_input_error key_id secret source = None"
  shows "(case source_kind source of
         SourcePath \<Rightarrow> map_ok (\<lambda>p. PathSource p (map_of q ''version'')) (required_query_param q ''path'')
       | SourceUrl \<Rightarrow> map_ok (\<lambda>u. UrlSource u (map_of q ''version'')) (required_query_param q ''url'')) =
    Ok (source_read source)"
proof (cases source)
  case (SignedPath p v)
  have "map_of q ''path'' = Some p" "map_of q ''version'' = v" "p \<noteq> []"
    using assms SignedPath
    by (auto simp: holds_params_def signed_params_def source_params_def signing_input_error_def split: if_splits)
  then show ?thesis using SignedPath
    by (simp add: source_kind_def source_read_def required_query_param_def nonempty_def)
next
  case (SignedUrl u v)
  have "map_of q ''url'' = Some u" "map_of q ''version'' = v" "u \<noteq> []"
    using assms SignedUrl
    by (auto simp: holds_params_def signed_params_def source_params_def signing_input_error_def split: if_splits)
  then show ?thesis using SignedUrl
    by (simp add: source_kind_def source_read_def required_query_param_def nonempty_def)
qed

lemma signed_watermark_lookups:
  assumes "signed_holds q show_f32 source options key_id expires watermark signature"
  shows "map_of q ''watermarkUrl'' = map_option sw_url watermark"
    "map_of q ''watermarkPosition'' = Option.bind watermark sw_position"
    "map_of q ''watermarkOpacity'' = map_option show_word (Option.bind watermark sw_opacity)"
    "map_of q ''watermarkMargin'' = map_option show_word (Option.bind watermark sw_margin)"
    "map_of q ''preset'' = None"
  using assms
  by (cases source; simp add: holds_params_def signed_params_def source_params_def
    transform_params_def watermark_params_def)+

lemma signed_query_reads:
  assumes holds: "signed_holds q show_f32 source options key_id expires watermark signature"
    and input: "signing_input_error key_id secret source = None"
    and ok: "signable show_f32 options"
  shows "parse_public_get_request presets q (source_kind source) =
    Ok (source_read source, options, map_option watermark_read watermark)"
proof -
  note wm = signed_watermark_lookups [OF holds]
  have look: "map_of q n = Option.bind (map_of (transform_params show_f32 options) n) id"
    if "n \<in> fst ` set (transform_params show_f32 options)" for n
    using signed_lookups [OF holds that] .
  note params = transform_params_def look
  have width: "map_of q ''width'' = map_option show_word (opt_width options)"
    and height: "map_of q ''height'' = map_option show_word (opt_height options)"
    and fit: "map_of q ''fit'' = map_option fit_name (opt_fit options)"
    and position: "map_of q ''position'' = map_option position_name (opt_position options)"
    and format: "map_of q ''format'' = map_option media_name (opt_format options)"
    and quality: "map_of q ''quality'' = map_option show_word (opt_quality options)"
    and optimize: "map_of q ''optimize'' =
      written_if (opt_optimize options \<noteq> NoOpt) (optimize_name (opt_optimize options))"
    and target: "map_of q ''targetQuality'' = map_option (show_target show_f32) (opt_target_quality options)"
    and background: "map_of q ''background'' = map_option encode_background (opt_background options)"
    by (subst look; simp add: transform_params_def)+
  have rotate: "map_of q ''rotate'' =
      written_if (\<not> rotation_is_identity (opt_rotate options)) (show_rotation (opt_rotate options))"
    and auto_orient: "map_of q ''autoOrient'' = written_if (\<not> opt_auto_orient options) ''false''"
    and strip: "map_of q ''stripMetadata'' = written_if (\<not> opt_strip_metadata options) ''false''"
    and preserve: "map_of q ''preserveExif'' = written_if (opt_preserve_exif options) ''true''"
    and crop: "map_of q ''crop'' = map_option show_crop (opt_crop options)"
    and blur: "map_of q ''blur'' = map_option show_f32 (opt_blur options)"
    and sharpen: "map_of q ''sharpen'' = map_option show_f32 (opt_sharpen options)"
    and gray: "map_of q ''grayscale'' = written_if (opt_grayscale options) ''true''"
    and enlarge: "map_of q ''withoutEnlargement'' = written_if (opt_without_enlargement options) ''true''"
    by (subst look; simp add: transform_params_def)+
  have rot: "rotation_ok (opt_rotate options)" using ok by (simp add: signable_def)
  have fl: "\<forall>x \<in> set_option (opt_blur options). parse_f32 (show_f32 x) = Some x"
    "\<forall>x \<in> set_option (opt_sharpen options). parse_f32 (show_f32 x) = Some x"
    using ok by (auto simp: signable_def)
  have watermark: "(if map_of q ''watermarkUrl'' \<noteq> None then
          and_then (parse_optional_u8_query q ''watermarkOpacity'' validate_watermark_opacity_value)
            (\<lambda>opacity.
          and_then (parse_optional_integer_query q ''watermarkMargin'' validate_watermark_margin_value)
            (\<lambda>margin.
            Ok (Some \<lparr>wp_url = map_of q ''watermarkUrl'', wp_position = map_of q ''watermarkPosition'',
              wp_opacity = opacity, wp_margin = margin\<rparr>)))
        else if map_of q ''watermarkPosition'' \<noteq> None \<or> map_of q ''watermarkOpacity'' \<noteq> None \<or>
          map_of q ''watermarkMargin'' \<noteq> None
        then Err (bad_request_response
          ''watermarkPosition, watermarkOpacity, and watermarkMargin require watermarkUrl'')
        else Ok None) = Ok (map_option watermark_read watermark)"
    by (cases watermark) (simp_all add: wm(1,2,5) read_u8 [OF wm(3)] read_u32 [OF wm(4)] wm(3,4) watermark_read_def)
  have payload: "\<lparr>pl_width = opt_width options, pl_height = opt_height options,
      pl_fit = map_of q ''fit'', pl_position = map_of q ''position'', pl_format = map_of q ''format'',
      pl_quality = opt_quality options, pl_optimize = map_of q ''optimize'',
      pl_target_quality = map_of q ''targetQuality'', pl_background = map_of q ''background'',
      pl_rotate = (if rotation_is_identity (opt_rotate options) then None
        else Some (uint (as_degrees (opt_rotate options)))),
      pl_auto_orient = (if opt_auto_orient options then None else Some False),
      pl_strip_metadata = (if opt_strip_metadata options then None else Some False),
      pl_preserve_exif = (if opt_preserve_exif options then Some True else None),
      pl_crop = map_of q ''crop'', pl_blur = opt_blur options, pl_sharpen = opt_sharpen options,
      pl_grayscale = (if opt_grayscale options then Some True else None),
      pl_without_enlargement = (if opt_without_enlargement options then Some True else None),
      pl_preset = map_of q ''preset''\<rparr> = written_payload show_f32 options"
    by (simp add: written_payload_def fit position format optimize target background crop wm(5))
  have resolved: "resolve_preset presets (written_payload show_f32 options) =
      Ok (written_payload show_f32 options)"
    by (simp add: resolve_preset_def written_payload_def)
  show ?thesis
    unfolding parse_public_get_request_def signed_names [OF holds] signed_source_read [OF holds input]
      watermark read_u32 [OF width] read_u32 [OF height] read_u8 [OF quality]
      read_rotate [OF rotate rot] read_false [OF auto_orient] read_false [OF strip]
      read_true [OF preserve] read_float [OF blur fl(1)] read_float [OF sharpen fl(2)]
      read_true [OF gray] read_true [OF enlarge] Let_def
    by (simp only: and_then.simps payload resolved into_options_written [OF ok] map_ok.simps)
qed

text \<open>An instance of what the other crates provide, for the witnesses.\<close>

definition sample_crypto :: crypto where
  "sample_crypto = \<lparr>hmac_sha256 = (\<lambda>k m. Inr (replicate 32 (of_nat (length k)))),
     ct_eq = (=), hex_encode = hex_text, hex_decode = hex_bytes\<rparr>"

lemma sample_crypto_ok: "crypto_ok sample_crypto"
  by (simp add: crypto_ok_def sample_crypto_def)

definition sample_urls :: "string url_ops" where
  "sample_urls = \<lparr>url_parse = Inr, url_scheme = (\<lambda>_. ''https''), url_path = (\<lambda>_. ''/''),
     url_set_path = (\<lambda>u _. u), url_join = (\<lambda>u r. Inr (u @ r)), url_host_str = (\<lambda>_. Some ''cdn''),
     url_port = (\<lambda>_. None), url_set_query = (\<lambda>u q. u @ ''?'' @ q), url_text = id\<rparr>"

text \<open>A codec that writes each byte behind a mark and ends a text with a dot.\<close>

fun mark_text :: "string \<Rightarrow> string" where
  "mark_text [] = ''.''"
| "mark_text (c # s) = CHR ''c'' # c # mark_text s"

fun unmark_text :: "string \<Rightarrow> string \<times> string" where
  "unmark_text (m # c # s) =
     (if m = CHR ''.'' then ([], c # s) else (let (t, r) = unmark_text s in (c # t, r)))"
| "unmark_text _ = ([], [])"

lemma unmark_mark [simp]: "unmark_text (mark_text s @ r) = (s, r)"
  by (induction s; cases r) simp_all

definition mark_pairs :: "(string \<times> string) list \<Rightarrow> string" where
  "mark_pairs ps = concat (map (\<lambda>(k, v). mark_text k @ mark_text v) ps)"

fun unmark_pairs :: "nat \<Rightarrow> string \<Rightarrow> (string \<times> string) list" where
  "unmark_pairs 0 s = []"
| "unmark_pairs (Suc n) s =
     (if s = [] then []
      else let (k, r) = unmark_text s; (v, r') = unmark_text r in (k, v) # unmark_pairs n r')"

lemma mark_text_length: "1 \<le> length (mark_text s)"
  by (cases s) simp_all

lemma unmark_mark_pairs: "length ps \<le> n \<Longrightarrow> unmark_pairs n (mark_pairs ps) = ps"
proof (induction ps arbitrary: n)
  case Nil
  then show ?case by (cases n) (simp_all add: mark_pairs_def)
next
  case (Cons e ps)
  obtain k v where e: "e = (k, v)" by (cases e)
  obtain m where m: "n = Suc m" using Cons.prems by (cases n) auto
  have "mark_pairs (e # ps) = mark_text k @ mark_text v @ mark_pairs ps"
    by (simp add: mark_pairs_def e)
  moreover have "mark_text k \<noteq> []" using mark_text_length [of k] by auto
  ultimately show ?case using Cons.IH [of m] Cons.prems by (simp add: m e)
qed

definition sample_form :: form_codec where
  "sample_form = \<lparr>form_encode = mark_pairs, form_parse = (\<lambda>s. unmark_pairs (length s) s)\<rparr>"

lemma sample_form_ok: "form_roundtrips sample_form"
proof -
  have "length ps \<le> length (mark_pairs ps)" for ps
  proof (induction ps)
    case (Cons e ps)
    have "length (mark_pairs (e # ps)) =
        length (mark_text (fst e)) + length (mark_text (snd e)) + length (mark_pairs ps)"
      by (cases e) (simp add: mark_pairs_def)
    then show ?case using Cons mark_text_length [of "fst e"] by (simp only: list.size)
  qed simp
  then show ?thesis by (simp add: form_roundtrips_def sample_form_def unmark_mark_pairs)
qed

text \<open>
  C14. A signed request is accepted exactly when the clock has not passed its expiry and its
  signature is the lower-case hexadecimal text of the HMAC, under the key the request names, of
  its method, authority, path and every other parameter: no other signature is accepted for the
  same request, so a signed URL is one cacheable value.
\<close>

theorem signed_request_accepted_iff:
  assumes "crypto_ok X"
  shows "authorize_signed_request X U form now request query config = Ok () \<longleftrightarrow>
    (\<exists>key_id secret text expires t authority tag.
      map_of query ''keyId'' = Some key_id \<and> key_id \<noteq> [] \<and>
      map_of (signing_keys config) key_id = Some secret \<and>
      map_of query ''expires'' = Some text \<and> parse_expires text = Ok expires \<and> text \<noteq> [] \<and>
      now = Inr t \<and> t \<le> expires \<and>
      canonical_request_authority U request config = Ok authority \<and>
      hmac_sha256 X secret (signed_text U form request query authority) = Inr tag \<and>
      map_of query ''signature'' = Some (hex_text tag))"
  by (rule authorize_signed_iff [OF assms])

definition sample_request :: http_request where
  "sample_request = \<lparr>hr_method = ''GET'', hr_target = ''/images/by-path'', hr_version = ''HTTP/1.1'',
     hr_headers = [(''host'', ''cdn'')], hr_body = []\<rparr>"

definition sample_settings :: auth_settings where
  "sample_settings = \<lparr>bearer_token = None, signing_keys = [(''k'', ''secret'')], public_base_url = None\<rparr>"

definition sample_query :: query where
  "sample_query = [(''expires'', ''9''), (''keyId'', ''k''), (''path'', ''a''),
     (''signature'', hex_text (replicate 32 6))]"

theorem signed_request_accepted_iff_witness:
  "authorize_signed_request sample_crypto sample_urls sample_form (Inr 9) sample_request sample_query
     sample_settings = Ok ()"
proof (rule signed_request_accepted_iff [OF sample_crypto_ok, THEN iffD2], intro exI conjI)
  show "map_of sample_query ''keyId'' = Some ''k''" "map_of sample_query ''expires'' = Some ''9''"
    "map_of sample_query ''signature'' = Some (hex_text (replicate 32 6))"
    by (simp_all add: sample_query_def)
  show "map_of (signing_keys sample_settings) ''k'' = Some ''secret''" by (simp add: sample_settings_def)
  show "parse_expires ''9'' = Ok 9" by code_simp
  show "(9 :: nat) \<le> 9" by simp
  show "canonical_request_authority sample_urls sample_request sample_settings = Ok ''cdn''" by code_simp
  show "hmac_sha256 sample_crypto ''secret''
      (signed_text sample_urls sample_form sample_request sample_query ''cdn'') = Inr (replicate 32 6)"
    by (simp add: sample_crypto_def)
qed simp_all

text \<open>
  C13. A signed URL is served as it was signed: a client that requests the URL's query on its
  route before the expiry, at a server that holds the key and sees the authority the URL names,
  is authorised, and what the server reads from the query is exactly the source, the transform
  options and the watermark that were signed, for every set of options that is valid without an
  input.
\<close>

theorem signed_url_is_served:
  assumes "crypto_ok X" and "form_roundtrips form"
    and "signed_url_parts X U form show_f32 method base source options key_id secret expires
      watermark None = Ok (endpoint, qs)"
    and "signable show_f32 options" and "int expires \<le> u64_max"
    and "hr_method request = ascii_upper method" and "hr_target request = route_of source @ ''?'' @ qs"
    and "url_authority U endpoint = Ok authority"
    and "canonical_request_authority U request config = Ok authority"
    and "map_of (signing_keys config) key_id = Some secret" and "now \<le> expires"
  shows "\<exists>q. parse_query_params form request = Ok q \<and>
    authorize_signed_request X U form (Inr now) request q config = Ok () \<and>
    parse_public_get_request presets q (source_kind source) =
      Ok (source_read source, options, map_option watermark_read watermark)"
proof -
  let ?u = "unsigned_query show_f32 source options key_id expires watermark None"
  obtain tag where input: "signing_input_error key_id secret source = None"
    and tag: "hmac_sha256 X secret (canonical_text (ascii_upper method) authority (route_of source)
      (canonical_query_without_signature form ?u)) = Inr tag"
    and qs: "qs = form_encode form (btree_insert ''signature'' (hex_encode X tag) ?u)"
    using assms(3,8) by (auto simp: signed_url_parts_def Let_def split: option.splits)
  define q where "q = btree_insert ''signature'' (hex_encode X tag) ?u"
  have ordered: "ordered q" "ordered ?u"
    unfolding q_def by (simp_all add: ordered_btree_insert unsigned_query_ordered)
  have hex: "hex_encode X tag = hex_text tag" using assms(1) by (simp add: crypto_ok_def)
  have holds: "signed_holds q show_f32 source options key_id expires watermark (hex_text tag)"
    by (simp add: holds_params_def q_def hex signed_query_is look_insert_present signed_params_distinct
      or_else_None)
  have route: "CHR ''?'' \<notin> set (route_of source)" by (cases source) (simp_all add: route_of_def)
  have split: "path_of_target (hr_target request) = route_of source"
    "query_of_target (hr_target request) = Some qs"
    using split_once_Some_iff [of "CHR ''?''" "hr_target request" "route_of source" qs] route assms(7)
    by (simp_all add: path_of_target_def query_of_target_def hd_split_on_eq)
  have parsed: "parse_query_params form request = Ok q"
    using assms(2) collect_params_ordered [OF ordered(1)]
    by (simp add: parse_query_params_def split qs form_roundtrips_def q_def)
  have covers: "signed_text U form request q authority = canonical_text (ascii_upper method) authority
      (route_of source) (canonical_query_without_signature form ?u)"
    by (simp add: signed_text_def assms(6) split canonical_query_without_signature_def q_def
      filter_key_btree_insert ordered)
  have present: "map_of q ''keyId'' = Some key_id" "map_of q ''expires'' = Some (show_nat expires)"
    "map_of q ''signature'' = Some (hex_text tag)"
    using holds by (cases source; simp add: holds_params_def signed_params_def source_params_def
      transform_params_def watermark_params_def)+
  have "key_id \<noteq> []" using input by (auto simp: signing_input_error_def)
  moreover have "parse_expires (show_nat expires) = Ok expires"
    using assms(5) by (simp add: parse_expires_def parse_unsigned_digits show_nat_digits)
  ultimately have "authorize_signed_request X U form (Inr now) request q config = Ok ()"
    unfolding authorize_signed_iff [OF assms(1)]
    using present tag assms(9,10,11) by (auto simp: covers)
  with parsed signed_query_reads [OF holds input assms(4)] show ?thesis by blast
qed

definition sample_options :: transform_options where
  "sample_options = default_options\<lparr>opt_width := Some 300, opt_format := Some Webp,
     opt_rotate := Rotation 90, opt_blur := Some (Fin (5 / 2))\<rparr>"

definition sample_show :: "float_val \<Rightarrow> string" where
  "sample_show _ = ''2.5''"

definition sample_mark :: signed_watermark where
  "sample_mark = \<lparr>sw_url = ''https://w'', sw_position = Some ''center'', sw_opacity = Some 40, sw_margin = None\<rparr>"

definition sample_qs :: string where
  "sample_qs = form_encode sample_form (btree_insert ''signature'' (hex_text (replicate 32 6))
     (unsigned_query sample_show (SignedPath ''a.png'' None) sample_options ''k'' 9 (Some sample_mark) None))"

lemma sample_signable: "signable sample_show sample_options"
proof -
  have "parse_f32 ''2.5'' = Some (Fin (5 / 2))" by code_simp
  moreover have "validate_without_input sample_options = Ok ()" by code_simp
  ultimately show ?thesis
    by (simp add: signable_def sample_options_def sample_show_def default_options_def rotation_ok_def
      is_encodable_def)
qed

theorem signed_url_is_served_witness:
  "\<exists>q. parse_query_params sample_form
      (sample_request\<lparr>hr_target := ''/images/by-path?'' @ sample_qs\<rparr>) = Ok q \<and>
    authorize_signed_request sample_crypto sample_urls sample_form (Inr 8)
      (sample_request\<lparr>hr_target := ''/images/by-path?'' @ sample_qs\<rparr>) q sample_settings = Ok () \<and>
    parse_public_get_request (\<lambda>_. None) q (source_kind (SignedPath ''a.png'' None)) =
      Ok (source_read (SignedPath ''a.png'' None), sample_options,
        map_option watermark_read (Some sample_mark))"
proof (rule signed_url_is_served [OF sample_crypto_ok sample_form_ok _ sample_signable])
  show "signed_url_parts sample_crypto sample_urls sample_form sample_show ''get'' ''https://cdn/''
      (SignedPath ''a.png'' None) sample_options ''k'' ''secret'' 9 (Some sample_mark) None =
      Ok (''https://cdn/images/by-path'', sample_qs)"
    by (simp add: signed_url_parts_def sample_urls_def sample_crypto_def of_sum_def signing_input_error_def
      url_authority_def route_of_def sample_qs_def)
  show "hr_method (sample_request\<lparr>hr_target := ''/images/by-path?'' @ sample_qs\<rparr>) = ascii_upper ''get''"
    by (simp add: sample_request_def) code_simp
  show "canonical_request_authority sample_urls
      (sample_request\<lparr>hr_target := ''/images/by-path?'' @ sample_qs\<rparr>) sample_settings = Ok ''cdn''"
    by (simp add: canonical_request_authority_def sample_settings_def sample_request_def header_value_def)
      code_simp
  show "url_authority sample_urls ''https://cdn/images/by-path'' = Ok ''cdn''" by code_simp
qed (simp_all add: u64_max_def sample_settings_def sample_request_def route_of_def)

end
