(* ===== verification/Response.thy ===== *)
theory Response
  imports Http_Parse
begin

text \<open>
  How an answer is put on the wire, from \<open>src/adapters/server/response.rs\<close>: the response, its
  framing with \<open>Content-Length\<close>, compression and the one \<open>Vary\<close> header, and the warnings of a
  transform as header values. The gzip encoder is a parameter. A connection takes every byte it
  is given; what a broken connection does is not modelled.
\<close>

section \<open>Responses\<close>

record http_response =
  rsp_status :: string
  rsp_content_type :: "string option"
  rsp_headers :: headers
  rsp_body :: bytes

definition response_json :: "string \<Rightarrow> bytes \<Rightarrow> http_response" where
  "response_json st body = \<lparr>rsp_status = st, rsp_content_type = Some ''application/json'',
     rsp_headers = [], rsp_body = body\<rparr>"

definition response_problem :: "string \<Rightarrow> bytes \<Rightarrow> http_response" where
  "response_problem st body = \<lparr>rsp_status = st, rsp_content_type = Some ''application/problem+json'',
     rsp_headers = [], rsp_body = body\<rparr>"

definition response_binary :: "string \<Rightarrow> string \<Rightarrow> headers \<Rightarrow> bytes \<Rightarrow> http_response" where
  "response_binary st ct hs body = \<lparr>rsp_status = st, rsp_content_type = Some ct,
     rsp_headers = hs, rsp_body = body\<rparr>"

definition response_text :: "string \<Rightarrow> string \<Rightarrow> bytes \<Rightarrow> http_response" where
  "response_text st ct body = \<lparr>rsp_status = st, rsp_content_type = Some ct,
     rsp_headers = [], rsp_body = body\<rparr>"

definition response_empty :: "string \<Rightarrow> headers \<Rightarrow> http_response" where
  "response_empty st hs = \<lparr>rsp_status = st, rsp_content_type = None, rsp_headers = hs, rsp_body = []\<rparr>"

section \<open>Writing a response\<close>

definition MIN_COMPRESS_BYTES :: nat where "MIN_COMPRESS_BYTES = 128"

definition is_compressible_content_type :: "string \<Rightarrow> bool" where
  "is_compressible_content_type ct \<longleftrightarrow>
     trim (hd (split_on CHR '';'' ct)) \<in>
       {''application/json'', ''application/problem+json'', ''text/plain'', ''application/openmetrics-text''}"

record write_options =
  wo_close :: bool
  wo_is_head :: bool
  wo_accepts_gzip :: bool
  wo_compression_level :: u32

definition closing_options :: "bool \<Rightarrow> write_options" where
  "closing_options is_head =
     \<lparr>wo_close = True, wo_is_head = is_head, wo_accepts_gzip = False, wo_compression_level = 1\<rparr>"

definition compressible :: "http_response \<Rightarrow> bool" where
  "compressible r \<longleftrightarrow> (case rsp_content_type r of None \<Rightarrow> False | Some ct \<Rightarrow> is_compressible_content_type ct)"

text \<open>The body that is sent and whether it is compressed.\<close>

definition choose_body ::
  "(u32 \<Rightarrow> bytes \<Rightarrow> string + bytes) \<Rightarrow> http_response \<Rightarrow> write_options \<Rightarrow> bytes \<times> bool" where
  "choose_body gzip r o' =
     (if wo_accepts_gzip o' \<and> MIN_COMPRESS_BYTES \<le> length (rsp_body r) \<and> compressible r then
        (case gzip (wo_compression_level o') (rsp_body r) of
           Inr compressed \<Rightarrow>
             if length compressed < length (rsp_body r) then (compressed, True) else (rsp_body r, False)
         | Inl _ \<Rightarrow> (rsp_body r, False))
      else (rsp_body r, False))"

text \<open>The loop that collects the members of every \<open>Vary\<close> header, each once.\<close>

definition push_vary :: "string list \<Rightarrow> string \<Rightarrow> string list" where
  "push_vary parts part =
     (let t = trim part in
      if t \<noteq> [] \<and> \<not> list_ex (\<lambda>v. eq_ignore_ascii_case v t) parts then parts @ [t] else parts)"

definition collect_vary :: "string list \<Rightarrow> headers \<Rightarrow> string list" where
  "collect_vary parts hs =
     foldl (\<lambda>parts (name, v).
       if eq_ignore_ascii_case name ''Vary'' then foldl push_vary parts (split_on CHR '','' v) else parts)
       parts hs"

definition vary_parts :: "http_response \<Rightarrow> write_options \<Rightarrow> string list" where
  "vary_parts r o' =
     collect_vary (if wo_accepts_gzip o' \<and> compressible r then [''Accept-Encoding''] else []) (rsp_headers r)"

definition crlf :: string where "crlf = [CHR 0x0D, CHR 0x0A]"

definition header_line :: "string \<Rightarrow> string \<Rightarrow> string" where
  "header_line name v = name @ '': '' @ v"

text \<open>The header lines, in the order they are written.\<close>

definition written_headers ::
  "(u32 \<Rightarrow> bytes \<Rightarrow> string + bytes) \<Rightarrow> http_response \<Rightarrow> write_options \<Rightarrow> headers" where
  "written_headers gzip r o' =
     (let (body, is_compressed) = choose_body gzip r o'; vary = vary_parts r o' in
      [(''Content-Length'', show_nat (length body)),
       (''Connection'', if wo_close o' then ''close'' else ''keep-alive'')] @
      (case rsp_content_type r of Some ct \<Rightarrow> [(''Content-Type'', ct)] | None \<Rightarrow> []) @
      (if is_compressed then [(''Content-Encoding'', ''gzip'')] else []) @
      (if vary \<noteq> [] then [(''Vary'', join_with '', '' vary)] else []) @
      filter (\<lambda>(name, _). \<not> eq_ignore_ascii_case name ''Vary'') (rsp_headers r))"

definition response_lines ::
  "(u32 \<Rightarrow> bytes \<Rightarrow> string + bytes) \<Rightarrow> http_response \<Rightarrow> write_options \<Rightarrow> string list" where
  "response_lines gzip r o' =
     (''HTTP/1.1 '' @ rsp_status r) # map (\<lambda>(name, v). header_line name v) (written_headers gzip r o')"

definition write_response ::
  "(u32 \<Rightarrow> bytes \<Rightarrow> string + bytes) \<Rightarrow> http_response \<Rightarrow> write_options \<Rightarrow> bytes" where
  "write_response gzip r o' =
     ascii (concat (map (\<lambda>l. l @ crlf) (response_lines gzip r o')) @ crlf) @
     (if wo_is_head o' then [] else fst (choose_body gzip r o'))"

section \<open>Warnings as headers\<close>

definition WARNING_HEADER :: string where "WARNING_HEADER = ''Truss-Warning''"

text \<open>
  A text is its UTF-8 bytes: what is not ASCII is one character that starts with a lead byte
  and goes on with continuation bytes.
\<close>

definition warning_char :: "char \<Rightarrow> string" where
  "warning_char c =
     (if c = CHR 0x09 \<or> c = CHR 0x0D \<or> c = CHR 0x0A then '' ''
      else if 32 \<le> code c \<and> code c \<le> 126 then [c]
      else if 128 \<le> code c \<and> code c < 192 then []
      else ''?'')"

definition warning_header_value :: "string \<Rightarrow> string" where
  "warning_header_value t = concat (map warning_char t)"

definition push_warning_headers :: "headers \<Rightarrow> string list \<Rightarrow> headers" where
  "push_warning_headers hs warnings = hs @ map (\<lambda>w. (WARNING_HEADER, warning_header_value w)) warnings"

section \<open>An answer reads back\<close>

text \<open>A header the grammar of the reader can carry.\<close>

definition header_ok :: "string \<times> string \<Rightarrow> bool" where
  "header_ok h \<longleftrightarrow> fst h \<noteq> [] \<and> trim (fst h) = fst h \<and> CHR '':'' \<notin> set (fst h) \<and>
     CHR 0x0D \<notin> set (fst h) \<and> CHR 0x0D \<notin> set (snd h)"

lemma split_crlf_line: "CHR 0x0D \<notin> set l \<Longrightarrow> split_crlf (l @ crlf @ s) = l # split_crlf s"
proof (induction l)
  case (Cons c l)
  then have IH: "split_crlf (l @ crlf @ s) = l # split_crlf s" and c: "c \<noteq> CHR 0x0D" by auto
  show ?case
  proof (cases l)
    case Nil
    then show ?thesis using IH c by (simp add: crlf_def)
  next
    case (Cons d l')
    then show ?thesis using IH c by simp
  qed
qed (simp add: crlf_def)

lemma split_crlf_last: "CHR 0x0D \<notin> set l \<Longrightarrow> split_crlf l = [l]"
  by (induction l rule: split_crlf.induct) auto

lemma split_crlf_join:
  "ls \<noteq> [] \<Longrightarrow> list_all (\<lambda>l. CHR 0x0D \<notin> set l) ls \<Longrightarrow> split_crlf (join_with crlf ls) = ls"
proof (induction ls rule: induct_list012)
  case (3 p q ps)
  then show ?case by (simp add: split_crlf_line)
qed (auto simp: split_crlf_last)

lemma lines_join: "ls \<noteq> [] \<Longrightarrow> concat (map (\<lambda>l. l @ crlf) ls) = join_with crlf ls @ crlf"
  by (induction ls rule: induct_list012) auto

lemma trim_leading_space: "trim (CHR '' '' # v) = trim v"
proof -
  have "leading_ws (CHR '' '' # v) = 1" by (simp add: ascii_ws_def)
  then have "trim_start (CHR '' '' # v) = trim_start v" by (subst trim_start.simps) simp
  then show ?thesis by (simp add: trim_def)
qed

lemma header_line_reads:
  "header_ok (n, v) \<Longrightarrow> split_once CHR '':'' (header_line n v) = Some (n, '' '' @ v)"
  unfolding split_once_Some_iff by (auto simp: header_ok_def header_line_def)

lemma header_lines_read:
  "list_all header_ok hs \<Longrightarrow>
    header_lines (map (\<lambda>(n, v). header_line n v) hs) = Ok (map (\<lambda>(n, v). (ascii_lower n, trim v)) hs)"
proof (induction hs)
  case (Cons h hs)
  obtain n v where h: "h = (n, v)" by (cases h)
  have ok: "header_ok (n, v)" using Cons.prems h by simp
  then have "n \<noteq> []" "trim n = n" by (simp_all add: header_ok_def)
  then show ?case using Cons header_line_reads [OF ok]
    by (simp add: h trim_leading_space header_line_def)
qed simp

lemma push_vary_chars: "set (push_vary parts part) \<subseteq> set parts \<union> {trim part}"
  by (auto simp: push_vary_def Let_def)

lemma fold_push_vary_chars:
  "t \<in> set (foldl push_vary parts ps) \<Longrightarrow> t \<in> set parts \<or> (\<exists>p \<in> set ps. t = trim p)"
proof (induction ps arbitrary: parts)
  case (Cons p ps)
  then show ?case using push_vary_chars [of parts p] by fastforce
qed simp

lemma collect_vary_chars:
  "t \<in> set (collect_vary parts hs) \<Longrightarrow> c \<in> set t \<Longrightarrow>
    (t \<in> set parts) \<or> (\<exists>h \<in> set hs. c \<in> set (snd h))"
proof (induction hs arbitrary: parts)
  case (Cons h hs)
  obtain n v where h: "h = (n, v)" by (cases h)
  let ?parts = "if eq_ignore_ascii_case n ''Vary'' then foldl push_vary parts (split_on CHR '','' v) else parts"
  have "t \<in> set (collect_vary ?parts hs)" using Cons.prems(1) by (simp add: collect_vary_def h)
  then consider "t \<in> set ?parts" | "\<exists>h \<in> set hs. c \<in> set (snd h)"
    using Cons.IH [OF _ Cons.prems(2)] by blast
  then show ?case
  proof cases
    case 1
    then have "t \<in> set parts \<or> (\<exists>p \<in> set (split_on CHR '','' v). t = trim p)"
      using fold_push_vary_chars [of t parts "split_on CHR '','' v"] by (auto split: if_splits)
    then show ?thesis
    proof
      assume "\<exists>p \<in> set (split_on CHR '','' v). t = trim p"
      then obtain p where "p \<in> set (split_on CHR '','' v)" "c \<in> set (trim p)" using Cons.prems(2) by auto
      then have "c \<in> set v" using set_trim [of p] split_on_chars by fastforce
      then show ?thesis by (auto simp: h)
    qed simp
  qed auto
qed (simp add: collect_vary_def)

lemma set_join_with: "set (join_with sep ps) \<subseteq> set sep \<union> \<Union> (set ` set ps)"
  by (induction ps rule: induct_list012) auto

lemma vary_no_cr:
  assumes "list_all header_ok (rsp_headers r)"
  shows "CHR 0x0D \<notin> set (join_with '', '' (vary_parts r o'))"
proof
  assume "CHR 0x0D \<in> set (join_with '', '' (vary_parts r o'))"
  then obtain t where t: "t \<in> set (vary_parts r o')" "CHR 0x0D \<in> set t"
    using set_join_with [of "'', ''" "vary_parts r o'"] by auto
  then show False using collect_vary_chars [of t _ "rsp_headers r" "CHR 0x0D"] assms
    by (fastforce simp: vary_parts_def list_all_iff header_ok_def split: if_splits)
qed

lemma show_nat_no_cr: "CHR 0x0D \<notin> set (show_nat n)"
proof
  assume "CHR 0x0D \<in> set (show_nat n)"
  then have "is_ascii_digit (CHR 0x0D)" using show_nat_digits [of n] by (auto simp: list_all_iff)
  then show False by (simp add: is_ascii_digit_def)
qed

lemma literal_names:
  "trim ''Content-Length'' = ''Content-Length''" "trim ''Connection'' = ''Connection''"
  "trim ''Content-Type'' = ''Content-Type''" "trim ''Content-Encoding'' = ''Content-Encoding''"
  "trim ''Vary'' = ''Vary''"
  by (simp_all add: trim_plain plain_char_def)

lemma written_headers_ok:
  assumes "list_all header_ok (rsp_headers r)" and "pred_option (\<lambda>ct. CHR 0x0D \<notin> set ct) (rsp_content_type r)"
  shows "list_all header_ok (written_headers gzip r o')"
proof -
  have rest: "list_all header_ok (filter p (rsp_headers r))" for p
    using assms(1) by (auto simp: list_all_iff)
  have vary: "header_ok (''Vary'', join_with '', '' (vary_parts r o'))"
    using vary_no_cr [OF assms(1)] literal_names by (simp add: header_ok_def)
  have len: "header_ok (''Content-Length'', show_nat n)" for n
    using show_nat_no_cr literal_names by (simp add: header_ok_def)
  have fixed: "header_ok (''Connection'', ''close'')" "header_ok (''Connection'', ''keep-alive'')"
    "header_ok (''Content-Encoding'', ''gzip'')" using literal_names by (simp_all add: header_ok_def)
  have ct: "list_all header_ok (case rsp_content_type r of Some ct \<Rightarrow> [(''Content-Type'', ct)] | None \<Rightarrow> [])"
    using assms(2) literal_names by (cases "rsp_content_type r") (simp_all add: header_ok_def)
  show ?thesis unfolding written_headers_def Let_def
    using rest vary len fixed ct by (simp split: prod.split)
qed


definition sample_response :: http_response where
  "sample_response = \<lparr>rsp_status = ''200 OK'', rsp_content_type = Some ''text/plain'',
     rsp_headers = [(''Vary'', ''Accept''), (''X-Request-Id'', ''7'')], rsp_body = replicate 200 65\<rparr>"

definition sample_gzip :: "u32 \<Rightarrow> bytes \<Rightarrow> string + bytes" where
  "sample_gzip level data = Inr (take 20 data)"


section \<open>One Vary header\<close>

text \<open>Members that are distinct as \<open>Vary\<close> compares them.\<close>

definition distinct_members :: "string list \<Rightarrow> bool" where
  "distinct_members parts \<longleftrightarrow> distinct (map ascii_lower parts)"

definition has_member :: "string list \<Rightarrow> string \<Rightarrow> bool" where
  "has_member parts t \<longleftrightarrow> (\<exists>p \<in> set parts. eq_ignore_ascii_case p t)"

lemma has_member_append: "has_member (xs @ ys) t \<longleftrightarrow> has_member xs t \<or> has_member ys t"
  by (auto simp: has_member_def)

lemma push_vary_member:
  "has_member (push_vary parts p) t \<longleftrightarrow>
    has_member parts t \<or> (trim p \<noteq> [] \<and> eq_ignore_ascii_case (trim p) t)"
  by (auto simp: push_vary_def Let_def has_member_def list_ex_iff eq_ignore_ascii_case_def)

lemma push_vary_distinct: "distinct_members parts \<Longrightarrow> distinct_members (push_vary parts p)"
  by (auto simp: push_vary_def Let_def distinct_members_def list_ex_iff eq_ignore_ascii_case_def)

lemma fold_push_vary_member:
  "has_member (foldl push_vary parts ps) t \<longleftrightarrow>
    has_member parts t \<or> (\<exists>p \<in> set ps. trim p \<noteq> [] \<and> eq_ignore_ascii_case (trim p) t)"
  by (induction ps arbitrary: parts) (auto simp: push_vary_member)

lemma fold_push_vary_distinct: "distinct_members parts \<Longrightarrow> distinct_members (foldl push_vary parts ps)"
  by (induction ps arbitrary: parts) (auto simp: push_vary_distinct)

text \<open>The members a list of headers names in its \<open>Vary\<close> headers.\<close>

definition names_member :: "headers \<Rightarrow> string \<Rightarrow> bool" where
  "names_member hs t \<longleftrightarrow> (\<exists>(n, v) \<in> set hs. eq_ignore_ascii_case n ''Vary'' \<and>
     (\<exists>p \<in> set (split_on CHR '','' v). trim p \<noteq> [] \<and> eq_ignore_ascii_case (trim p) t))"

lemma collect_vary_member:
  "has_member (collect_vary parts hs) t \<longleftrightarrow> has_member parts t \<or> names_member hs t"
proof (induction hs arbitrary: parts)
  case (Cons h hs)
  have step: "collect_vary parts (h # hs) = collect_vary (if eq_ignore_ascii_case (fst h) ''Vary''
      then foldl push_vary parts (split_on CHR '','' (snd h)) else parts) hs"
    by (cases h) (simp add: collect_vary_def)
  show ?case unfolding step Cons.IH
    by (cases h) (auto simp: fold_push_vary_member names_member_def)
qed (simp add: collect_vary_def names_member_def)

lemma collect_vary_distinct: "distinct_members parts \<Longrightarrow> distinct_members (collect_vary parts hs)"
proof (induction hs arbitrary: parts)
  case (Cons h hs)
  then show ?case by (cases h) (auto simp: collect_vary_def fold_push_vary_distinct)
qed (simp add: collect_vary_def)

text \<open>
  An answer carries at most one \<open>Vary\<close> header: its members are distinct whatever their
  case, they are exactly the members the response's own \<open>Vary\<close> headers name, in any number of
  headers, and \<open>Accept-Encoding\<close> when the encoding was negotiated for a type that can be
  compressed, whether or not this body was.
\<close>

theorem vary_is_one_list:
  "filter (\<lambda>(n, _). eq_ignore_ascii_case n ''Vary'') (written_headers gzip r o') =
      (if vary_parts r o' = [] then [] else [(''Vary'', join_with '', '' (vary_parts r o'))]) \<and>
    distinct_members (vary_parts r o') \<and>
    (has_member (vary_parts r o') t \<longleftrightarrow>
      (wo_accepts_gzip o' \<and> compressible r \<and> eq_ignore_ascii_case ''Accept-Encoding'' t) \<or>
      names_member (rsp_headers r) t)"
proof -
  have names: "\<not> eq_ignore_ascii_case ''Content-Length'' ''Vary''" "\<not> eq_ignore_ascii_case ''Connection'' ''Vary''"
    "\<not> eq_ignore_ascii_case ''Content-Type'' ''Vary''" "\<not> eq_ignore_ascii_case ''Content-Encoding'' ''Vary''"
    "eq_ignore_ascii_case ''Vary'' ''Vary''"
    by code_simp+
  have rest: "filter (\<lambda>h. (case h of (n, _) \<Rightarrow> \<not> eq_ignore_ascii_case n ''Vary'') \<and>
      (case h of (n, _) \<Rightarrow> eq_ignore_ascii_case n ''Vary'')) hs = []" for hs :: headers
    by (auto simp: filter_empty_conv)
  have "filter (\<lambda>(n, _). eq_ignore_ascii_case n ''Vary'') (written_headers gzip r o') =
      (if vary_parts r o' = [] then [] else [(''Vary'', join_with '', '' (vary_parts r o'))])"
    unfolding written_headers_def Let_def
    by (cases "choose_body gzip r o'"; cases "rsp_content_type r") (simp_all add: names rest)
  moreover have "distinct_members (vary_parts r o')"
    unfolding vary_parts_def by (rule collect_vary_distinct) (simp add: distinct_members_def)
  moreover have "has_member (vary_parts r o') t \<longleftrightarrow>
      (wo_accepts_gzip o' \<and> compressible r \<and> eq_ignore_ascii_case ''Accept-Encoding'' t) \<or>
      names_member (rsp_headers r) t"
    unfolding vary_parts_def collect_vary_member by (simp add: has_member_def)
  ultimately show ?thesis by blast
qed

end
