(* ===== verification/Json_Body.thy ===== *)
theory Json_Body
  imports Signing Response
begin

text \<open>
  The JSON bodies of the server: \<open>problem_detail_body\<close> and \<open>attach_request_id\<close> of
  \<open>src/adapters/server/response.rs\<close>, and \<open>single_line\<close> of \<open>src/core.rs\<close>, which folds the message
  of a problem onto one line. What \<open>serde_json\<close> writes and reads is a parameter, \<open>json_codec\<close>; a
  JSON object is kept as that crate keeps it, its members in the order of their names.

  What is shown: the body of a refusal names its class and its status, and the request it answers
  once the router has attached the id.
\<close>

section \<open>JSON\<close>

datatype json = JBool bool | JNum nat | JStr string | JArr "json list" | JObj "(string \<times> json) list"

record json_codec =
  json_text :: "json \<Rightarrow> string"
  json_read :: "bytes \<Rightarrow> json option"

definition json_object :: "(string \<times> json) list \<Rightarrow> json" where
  "json_object members = JObj (foldl (\<lambda>m (k, v). btree_insert k v m) [] members)"

definition json_line :: "json_codec \<Rightarrow> json \<Rightarrow> bytes" where
  "json_line J v = ascii (json_text J v) @ [10]"

section \<open>One line\<close>

text \<open>
  \<open>breaks_a_line\<close> of any character of a text: white space other than the space, or a control
  character, of which the upper ones are the lead byte C2 and one more.
\<close>

fun breaks_a_line :: "string \<Rightarrow> bool" where
  "breaks_a_line [] \<longleftrightarrow> False"
| "breaks_a_line (c # s) \<longleftrightarrow>
     (leading_ws (c # s) \<noteq> 0 \<and> c \<noteq> CHR '' '') \<or> code c < 32 \<or> code c = 127 \<or>
     (code c = 0xC2 \<and> s \<noteq> [] \<and> 0x80 \<le> code (hd s) \<and> code (hd s) < 0xA0) \<or> breaks_a_line s"

definition single_line :: "string \<Rightarrow> string" where
  "single_line message =
     (let trimmed = trim message in
      if \<not> breaks_a_line trimmed then trimmed else join_with '' '' (split_whitespace trimmed))"

lemma single_line_keeps_controls: "single_line [CHR ''a'', CHR 0x08, CHR ''b''] = [CHR ''a'', CHR 0x08, CHR ''b'']"
  by code_simp

section \<open>Problems\<close>

definition NOT_FOUND_BODY :: string where
  "NOT_FOUND_BODY = ''{\"type\":\"about:blank\",\"title\":\"Not Found\",\"status\":404,\"detail\":\"not found\"}'' @ [CHR 0x0A]"

definition problem_detail_body :: "json_codec \<Rightarrow> error_class \<Rightarrow> string \<Rightarrow> bytes" where
  "problem_detail_body J c detail =
     json_line J (json_object [(''type'', JStr (uri c)), (''title'', JStr (title c)),
       (''status'', JNum (unat (snd (status c)))), (''detail'', JStr (single_line detail))])"

definition problem_response :: "json_codec \<Rightarrow> problem \<Rightarrow> http_response" where
  "problem_response J p =
     response_problem (fst (status (problem_class p))) (problem_detail_body J (problem_class p) (problem_detail p))"

text \<open>A refusal is a problem and the headers that were pushed onto its answer.\<close>

definition refusal_response :: "json_codec \<Rightarrow> problem \<times> headers \<Rightarrow> http_response" where
  "refusal_response J r = (problem_response J (fst r))\<lparr>rsp_headers := snd r\<rparr>"

definition attach_request_id :: "json_codec \<Rightarrow> string \<Rightarrow> http_response \<Rightarrow> http_response" where
  "attach_request_id J request_id r =
     (let named = r\<lparr>rsp_headers := rsp_headers r @ [(''X-Request-Id'', request_id)]\<rparr> in
      if rsp_content_type r \<noteq> Some ''application/problem+json'' then named
      else case json_read J (rsp_body r) of
          Some (JObj problem) \<Rightarrow>
            named\<lparr>rsp_body := json_line J (JObj (btree_insert ''requestId'' (JStr request_id) problem))\<rparr>
        | _ \<Rightarrow> named)"

text \<open>The reader of JSON reads this object as its writer wrote it, the line break behind it included.\<close>

definition reads_back :: "json_codec \<Rightarrow> json \<Rightarrow> bool" where
  "reads_back J v \<longleftrightarrow> json_read J (json_line J v) = Some v"

text \<open>Objects whose members are texts and numbers, which is all that a problem holds.\<close>

fun flat_json :: "json \<Rightarrow> bool" where
  "flat_json (JObj members) \<longleftrightarrow> list_all (\<lambda>m. case snd m of JStr _ \<Rightarrow> True | JNum _ \<Rightarrow> True | _ \<Rightarrow> False) members"
| "flat_json _ \<longleftrightarrow> False"

definition json_roundtrips :: "json_codec \<Rightarrow> bool" where
  "json_roundtrips J \<longleftrightarrow> (\<forall>v. flat_json v \<longrightarrow> reads_back J v)"

text \<open>
  C40. A refusal of a failure class, before and after the router names the request in it. As it is
  built, and as a refusal is sent that comes before the head of a request was read, its body
  reads back as the object with its class, its title, its status code and its message on one
  line, and nothing tells which request it answers. Once the router has attached the id of the
  request, which it does for every refusal behind the head, the body reads back as that object
  and the id, and the id is in the headers too, behind those of the refusal. The status line
  starts with the status code of the body. (The fixed body of an unknown route is no refusal of
  a class.)
\<close>

theorem refusal_names_its_request:
  assumes "json_roundtrips J"
  shows "let built = refusal_response J (Problem c detail, hs); r = attach_request_id J request_id built in
    json_read J (rsp_body built) = Some (JObj [(''detail'', JStr (single_line detail)),
      (''status'', JNum (unat (snd (status c)))), (''title'', JStr (title c)), (''type'', JStr (uri c))]) \<and>
    rsp_headers built = hs \<and>
    json_read J (rsp_body r) = Some (JObj [(''detail'', JStr (single_line detail)), (''requestId'', JStr request_id),
      (''status'', JNum (unat (snd (status c)))), (''title'', JStr (title c)), (''type'', JStr (uri c))]) \<and>
    take 3 (rsp_status r) = show_nat (unat (snd (status c))) \<and> rsp_status r = rsp_status built \<and>
    rsp_headers r = hs @ [(''X-Request-Id'', request_id)] \<and> rsp_content_type r = Some ''application/problem+json''"
proof -
  have status: "take 3 (fst (status c)) = show_nat (unat (snd (status c)))"
    by (cases c) (simp_all, code_simp+)
  have order: "text_less ''detail'' ''status''" "text_less ''requestId'' ''status''" "\<not> text_less ''requestId'' ''detail''"
    "text_less ''title'' ''type''" "text_less ''status'' ''title''" "\<not> text_less ''status'' ''detail''"
    "text_less ''detail'' ''type''" "text_less ''detail'' ''title''" "text_less ''status'' ''type''"
    by code_simp+
  have roundtrip: "flat_json v \<Longrightarrow> reads_back J v" for v using assms by (simp add: json_roundtrips_def)
  show ?thesis
    by (simp add: attach_request_id_def refusal_response_def problem_response_def response_problem_def
        problem_detail_body_def json_object_def order status
        roundtrip [unfolded reads_back_def])
qed


text \<open>A codec for such objects, on the pairs of theory \<open>Signing\<close>.\<close>

fun flat_member :: "json \<Rightarrow> string" where
  "flat_member (JStr s) = CHR ''s'' # s"
| "flat_member (JNum n) = CHR ''n'' # show_nat n"
| "flat_member _ = []"

fun member_of :: "string \<Rightarrow> json" where
  "member_of (c # s) = (if c = CHR ''s'' then JStr s else JNum (decimal_value s))"
| "member_of [] = JBool False"

definition sample_json :: json_codec where
  "sample_json = \<lparr>json_text = (\<lambda>v. case v of JObj ms \<Rightarrow> mark_pairs (map (\<lambda>(k, m). (k, flat_member m)) ms) | _ \<Rightarrow> []),
     json_read = (\<lambda>bs. let s = butlast (str_of_bytes bs) in
       Some (JObj (map (\<lambda>(k, m). (k, member_of m)) (form_parse sample_form s))))\<rparr>"

lemma sample_json_ok: "json_roundtrips sample_json"
proof -
  have "form_parse sample_form (mark_pairs ps) = ps" for ps
    using sample_form_ok by (simp add: form_roundtrips_def sample_form_def)
  moreover have "str_of_bytes (ascii s @ [10]) = s @ [CHR 0x0A]" for s
  proof -
    have "char_of (10 :: nat) = CHR 0x0A" by code_simp
    then show ?thesis by (simp add: str_of_bytes_def ascii_def o_def)
  qed
  moreover have "decimal_value (show_nat n) = n" for n by simp
  moreover have "map (\<lambda>(k, m). (k, member_of m)) (map (\<lambda>(k, m). (k, flat_member m)) ms) = ms"
    if "flat_json (JObj ms)" for ms
    using that by (induction ms) (auto split: json.splits)
  ultimately show ?thesis
    unfolding json_roundtrips_def reads_back_def json_line_def sample_json_def
    by (auto simp: Let_def elim: flat_json.elims)
qed

theorem refusal_names_its_request_witness:
  "json_read sample_json (rsp_body (attach_request_id sample_json ''r-1''
     (refusal_response sample_json (Problem CNotFound ''no such file'', [])))) =
   Some (JObj [(''detail'', JStr (single_line ''no such file'')), (''requestId'', JStr ''r-1''), (''status'', JNum 404),
     (''title'', JStr (title CNotFound)), (''type'', JStr (uri CNotFound))])"
  using refusal_names_its_request [OF sample_json_ok, of CNotFound "''no such file''" "[]" "''r-1''"] by (simp add: Let_def)

end
