(* ===== verification/Remote_Policy.thy ===== *)
theory Remote_Policy
  imports Http_Parse
begin

text \<open>
  The rules of \<open>src/core/remote_policy.rs\<close> and the address deny-list of
  \<open>src/adapters/server/remote.rs\<close>. Addresses are kept as the code reads them: four octets, or
  eight 16-bit segments. The predicates of \<open>std::net\<close> are written out from its documentation.

  What is shown: the deny-list is exactly a table of address blocks, and an IPv4 address is judged
  the same in each of the IPv6 forms that carry it.
\<close>

section \<open>Addresses\<close>

datatype ipv4 = Ipv4 u8 u8 u8 u8

datatype ipv6 = Ipv6 u16 u16 u16 u16 u16 u16 u16 u16

datatype ip_addr = V4 ipv4 | V6 ipv6

fun is_private :: "ipv4 \<Rightarrow> bool" where
  "is_private (Ipv4 a b c d) \<longleftrightarrow>
     a = 10 \<or> a = 172 \<and> 16 \<le> b \<and> b \<le> 31 \<or> a = 192 \<and> b = 168"

fun is_loopback :: "ipv4 \<Rightarrow> bool" where
  "is_loopback (Ipv4 a b c d) \<longleftrightarrow> a = 127"

fun is_link_local :: "ipv4 \<Rightarrow> bool" where
  "is_link_local (Ipv4 a b c d) \<longleftrightarrow> a = 169 \<and> b = 254"

fun is_broadcast :: "ipv4 \<Rightarrow> bool" where
  "is_broadcast (Ipv4 a b c d) \<longleftrightarrow> a = 255 \<and> b = 255 \<and> c = 255 \<and> d = 255"

fun is_documentation :: "ipv4 \<Rightarrow> bool" where
  "is_documentation (Ipv4 a b c d) \<longleftrightarrow>
     a = 192 \<and> b = 0 \<and> c = 2 \<or> a = 198 \<and> b = 51 \<and> c = 100 \<or> a = 203 \<and> b = 0 \<and> c = 113"

fun is_unspecified :: "ipv4 \<Rightarrow> bool" where
  "is_unspecified (Ipv4 a b c d) \<longleftrightarrow> a = 0 \<and> b = 0 \<and> c = 0 \<and> d = 0"

fun is_multicast :: "ipv4 \<Rightarrow> bool" where
  "is_multicast (Ipv4 a b c d) \<longleftrightarrow> 224 \<le> a \<and> a \<le> 239"

fun to_ipv4_mapped :: "ipv6 \<Rightarrow> ipv4 option" where
  "to_ipv4_mapped (Ipv6 s0 s1 s2 s3 s4 s5 s6 s7) =
     (if s0 = 0 \<and> s1 = 0 \<and> s2 = 0 \<and> s3 = 0 \<and> s4 = 0 \<and> s5 = 0xFFFF
      then Some (Ipv4 (ucast (drop_bit 8 s6)) (ucast s6) (ucast (drop_bit 8 s7)) (ucast s7)) else None)"

definition v6_loopback :: ipv6 where "v6_loopback = Ipv6 0 0 0 0 0 0 0 1"
definition v6_unspecified :: ipv6 where "v6_unspecified = Ipv6 0 0 0 0 0 0 0 0"

fun segment0 :: "ipv6 \<Rightarrow> u16" where
  "segment0 (Ipv6 s0 s1 s2 s3 s4 s5 s6 s7) = s0"

fun segment1 :: "ipv6 \<Rightarrow> u16" where
  "segment1 (Ipv6 s0 s1 s2 s3 s4 s5 s6 s7) = s1"

section \<open>Metadata services\<close>

definition METADATA_IPV4 :: ipv4 where "METADATA_IPV4 = Ipv4 169 254 169 254"
definition METADATA_IPV6 :: ipv6 where "METADATA_IPV6 = Ipv6 0xFD00 0x0EC2 0 0 0 0 0 0x0254"

fun embedded_ipv4 :: "ipv6 \<Rightarrow> ipv4 option" where
  "embedded_ipv4 (Ipv6 s0 s1 s2 s3 s4 s5 s6 s7) =
     (case to_ipv4_mapped (Ipv6 s0 s1 s2 s3 s4 s5 s6 s7) of
        Some mapped \<Rightarrow> Some mapped
      | None \<Rightarrow>
          if s0 = 0 \<and> s1 = 0 \<and> s2 = 0 \<and> s3 = 0 \<and> s4 = 0 \<and> s5 = 0
          then Some (Ipv4 (ucast (drop_bit 8 s6)) (ucast s6) (ucast (drop_bit 8 s7)) (ucast s7))
          else if s0 = 0x2002
          then Some (Ipv4 (ucast (drop_bit 8 s1)) (ucast s1) (ucast (drop_bit 8 s2)) (ucast s2))
          else None)"

fun is_cloud_metadata_ip :: "ip_addr \<Rightarrow> bool" where
  "is_cloud_metadata_ip (V4 ip) \<longleftrightarrow> ip = METADATA_IPV4"
| "is_cloud_metadata_ip (V6 ip) \<longleftrightarrow> ip = METADATA_IPV6 \<or> embedded_ipv4 ip = Some METADATA_IPV4"

text \<open>A parsed URL as far as the rules read it; the \<open>url\<close> crate parses it.\<close>

datatype host = Domain string | Host_V4 ipv4 | Host_V6 ipv6

record remote_url =
  ru_scheme :: string
  ru_username :: string
  ru_password :: "string option"
  ru_host_str :: "string option"
  ru_host :: "host option"
  ru_port_or_known_default :: "u16 option"
  ru_text :: string

definition strip_dot :: "string \<Rightarrow> string" where
  "strip_dot h = (if h \<noteq> [] \<and> last h = CHR ''.'' then butlast h else h)"

definition is_cloud_metadata_host :: "remote_url \<Rightarrow> bool" where
  "is_cloud_metadata_host u \<longleftrightarrow>
     map_option strip_dot (ru_host_str u) \<in> {Some ''169.254.169.254'', Some ''metadata.google.internal''} \<or>
     (case ru_host u of Some (Host_V6 addr) \<Rightarrow> is_cloud_metadata_ip (V6 addr) | _ \<Rightarrow> False)"

section \<open>Responses\<close>

definition is_success_status :: "u16 \<Rightarrow> bool" where
  "is_success_status st \<longleftrightarrow> 200 \<le> st \<and> st \<le> 299"

definition is_redirect_status :: "u16 \<Rightarrow> bool" where
  "is_redirect_status st \<longleftrightarrow> st \<in> {301, 302, 303, 307, 308}"

definition unreadable_content_coding :: "string \<Rightarrow> string option" where
  "unreadable_content_coding v =
     find (\<lambda>t. \<not> eq_ignore_ascii_case t ''gzip'' \<and> \<not> eq_ignore_ascii_case t ''identity'')
       (filter (\<lambda>t. t \<noteq> []) (map trim (split_on CHR '','' v)))"

section \<open>The deny-list\<close>

fun is_disallowed_ipv4 :: "ipv4 \<Rightarrow> bool" where
  "is_disallowed_ipv4 (Ipv4 a b c d) \<longleftrightarrow>
     is_private (Ipv4 a b c d) \<or> is_loopback (Ipv4 a b c d) \<or> is_link_local (Ipv4 a b c d) \<or>
     is_broadcast (Ipv4 a b c d) \<or> is_documentation (Ipv4 a b c d) \<or> is_unspecified (Ipv4 a b c d) \<or>
     is_multicast (Ipv4 a b c d) \<or> (a = 100 \<and> b AND 0xC0 = 64) \<or> (a = 198 \<and> (b = 18 \<or> b = 19)) \<or>
     a AND 0xF0 = 240"

definition is_disallowed_ipv6 :: "ipv6 \<Rightarrow> bool" where
  "is_disallowed_ipv6 ip \<longleftrightarrow>
     (if ip = v6_loopback \<or> ip = v6_unspecified \<or> segment0 ip AND 0xFF00 = 0xFF00 then True
      else case embedded_ipv4 ip of
          Some v4 \<Rightarrow> is_disallowed_ipv4 v4
        | None \<Rightarrow>
            segment0 ip = 0x2001 \<and> segment1 ip = 0 \<or>
            segment0 ip AND 0xFE00 = 0xFC00 \<or> segment0 ip AND 0xFFC0 = 0xFE80 \<or>
            segment0 ip = 0x2001 \<and> segment1 ip = 0x0DB8)"

fun is_disallowed_remote_ip :: "ip_addr \<Rightarrow> bool" where
  "is_disallowed_remote_ip (V4 ip) = is_disallowed_ipv4 ip"
| "is_disallowed_remote_ip (V6 ip) = is_disallowed_ipv6 ip"

section \<open>The deny-list as blocks\<close>

text \<open>An address as a number, and the blocks the list is made of, as base and prefix length.\<close>

fun ipv4_number :: "ipv4 \<Rightarrow> nat" where
  "ipv4_number (Ipv4 a b c d) = ((unat a * 256 + unat b) * 256 + unat c) * 256 + unat d"

definition in_block :: "nat \<Rightarrow> ipv4 \<times> nat \<Rightarrow> bool" where
  "in_block n bl \<longleftrightarrow> n div 2 ^ (32 - snd bl) = ipv4_number (fst bl) div 2 ^ (32 - snd bl)"

definition denied_blocks :: "(ipv4 \<times> nat) list" where
  "denied_blocks =
     [(Ipv4 10 0 0 0, 8), (Ipv4 172 16 0 0, 12), (Ipv4 192 168 0 0, 16), (Ipv4 127 0 0 0, 8),
      (Ipv4 169 254 0 0, 16), (Ipv4 192 0 2 0, 24), (Ipv4 198 51 100 0, 24), (Ipv4 203 0 113 0, 24),
      (Ipv4 0 0 0 0, 32), (Ipv4 224 0 0 0, 4), (Ipv4 100 64 0 0, 10), (Ipv4 198 18 0 0, 15),
      (Ipv4 240 0 0 0, 4)]"

lemma high_bits:
  fixes b :: u8
  shows "b AND 0xC0 = push_bit 6 (drop_bit 6 b)" "b AND 0xF0 = push_bit 4 (drop_bit 4 b)"
proof -
  have cases: "n = 0 \<or> n = 1 \<or> n = 2 \<or> n = 3 \<or> n = 4 \<or> n = 5 \<or> n = 6 \<or> n = 7" if "n < 8" for n :: nat
    using that by arith
  show "b AND 0xC0 = push_bit 6 (drop_bit 6 b)"
  proof (rule bit_word_eqI)
    fix n assume "n < LENGTH(8)"
    then have "n < 8" by simp
    from cases [OF this] show "bit (b AND 0xC0) n \<longleftrightarrow> bit (push_bit 6 (drop_bit 6 b)) n"
      by (elim disjE) (simp_all add: bit_simps)
  qed
  show "b AND 0xF0 = push_bit 4 (drop_bit 4 b)"
  proof (rule bit_word_eqI)
    fix n assume "n < LENGTH(8)"
    then have "n < 8" by simp
    from cases [OF this] show "bit (b AND 0xF0) n \<longleftrightarrow> bit (push_bit 4 (drop_bit 4 b)) n"
      by (elim disjE) (simp_all add: bit_simps)
  qed
qed

lemma unat_high:
  fixes b :: u8
  assumes "k \<le> 8"
  shows "unat (push_bit k (drop_bit k b)) = unat b div 2 ^ k * 2 ^ k"
proof -
  have "unat b div 2 ^ k * 2 ^ k \<le> unat b" by simp
  then have "unat b div 2 ^ k * 2 ^ k < 256" using u8_less [of b] by linarith
  then show ?thesis
    by (simp add: unsigned_push_bit_eq unsigned_drop_bit_eq push_bit_eq_mult [of k "unat b div 2 ^ k"]
      drop_bit_eq_div [of k "unat b"] take_bit_nat_eq_self)
qed

lemma masks:
  fixes b :: u8
  shows "b AND 0xC0 = 64 \<longleftrightarrow> unat b div 64 = 1" "b AND 0xF0 = 240 \<longleftrightarrow> unat b div 16 = 15"
proof -
  have "b AND 0xC0 = 64 \<longleftrightarrow> unat (push_bit 6 (drop_bit 6 b)) = unat (64 :: u8)"
    "b AND 0xF0 = 240 \<longleftrightarrow> unat (push_bit 4 (drop_bit 4 b)) = unat (240 :: u8)"
    unfolding high_bits unat_inject by simp_all
  then show "b AND 0xC0 = 64 \<longleftrightarrow> unat b div 64 = 1" "b AND 0xF0 = 240 \<longleftrightarrow> unat b div 16 = 15"
    by (simp_all add: unat_high)
qed

lemma prefix_div:
  fixes a b c d :: nat
  assumes "b < 256" "c < 256" "d < 256"
  shows "(((a * 256 + b) * 256 + c) * 256 + d) div 16777216 = a"
    "(((a * 256 + b) * 256 + c) * 256 + d) div 65536 = a * 256 + b"
    "(((a * 256 + b) * 256 + c) * 256 + d) div 256 = (a * 256 + b) * 256 + c"
    "(((a * 256 + b) * 256 + c) * 256 + d) div 1048576 = a * 16 + b div 16"
    "(((a * 256 + b) * 256 + c) * 256 + d) div 4194304 = a * 4 + b div 64"
    "(((a * 256 + b) * 256 + c) * 256 + d) div 131072 = a * 128 + b div 2"
    "(((a * 256 + b) * 256 + c) * 256 + d) div 268435456 = a div 16"
  using assms by (simp_all add: div_nat_eqI)

lemma octet: "(x :: u8) = numeral n \<longleftrightarrow> unat x = unat (numeral n :: u8)" "(x :: u8) = 0 \<longleftrightarrow> unat x = 0"
  by (metis unat_inject) (simp add: unat_eq_0)

lemma octet_range: "(numeral m \<le> (x :: u8) \<and> x \<le> numeral n) \<longleftrightarrow> unat (numeral m :: u8) \<le> unat x \<and> unat x \<le> unat (numeral n :: u8)"
  by (simp add: word_le_nat_alt)

text \<open>
  The IPv4 deny-list refuses exactly the addresses of a table of blocks, the broadcast
  address and the reserved space among them.
\<close>

theorem denylist_is_table:
  "is_disallowed_ipv4 ip \<longleftrightarrow> list_ex (in_block (ipv4_number ip)) denied_blocks"
proof (cases ip)
  case (Ipv4 a b c d)
  let ?a = "unat a" and ?b = "unat b" and ?c = "unat c" and ?d = "unat d"
  have l: "?a < 256" "?b < 256" "?c < 256" "?d < 256" by simp_all
  have "list_ex (in_block (ipv4_number ip)) denied_blocks \<longleftrightarrow>
      ?a = 10 \<or> ?a * 16 + ?b div 16 = 2753 \<or> ?a * 256 + ?b = 49320 \<or> ?a = 127 \<or> ?a * 256 + ?b = 43518 \<or>
      (?a * 256 + ?b) * 256 + ?c = 12582914 \<or> (?a * 256 + ?b) * 256 + ?c = 12989284 \<or>
      (?a * 256 + ?b) * 256 + ?c = 13303921 \<or> ((?a * 256 + ?b) * 256 + ?c) * 256 + ?d = 0 \<or>
      ?a div 16 = 14 \<or> ?a * 4 + ?b div 64 = 401 \<or> ?a * 128 + ?b div 2 = 25353 \<or> ?a div 16 = 15"
    unfolding Ipv4 denied_blocks_def in_block_def ipv4_number.simps
    by (simp add: prefix_div [OF l(2-4)] del: distrib_right_numeral)
  also have "\<dots> \<longleftrightarrow> is_disallowed_ipv4 ip"
  proof -
    have digits: "x * m + y = k \<longleftrightarrow> x = k div m \<and> y = k mod m" if "y < m" for x y k m :: nat
      using that by auto
    note pair = digits [where m = 256]
    have low: "?b div 16 < 16" "?b div 64 < 4" "?b div 2 < 128" using l(2) by linarith+
    have quotient: "n div m = k \<longleftrightarrow> k * m \<le> n \<and> n < Suc k * m" if "0 < m" for n m k :: nat
      using less_eq_div_iff_mult_less_eq [OF that, of k n] div_less_iff_less_mult [OF that, of n "Suc k"]
      by auto
    have bits: "n div 16 = 1 \<longleftrightarrow> 16 \<le> n \<and> n \<le> 31" "n div 2 = 9 \<longleftrightarrow> n = 18 \<or> n = 19"
      "n div 16 = 14 \<longleftrightarrow> 224 \<le> n \<and> n \<le> 239" for n :: nat
      by (simp_all add: quotient) linarith+
    have wide: "?a * 16 + ?b div 16 = 2753 \<longleftrightarrow> ?a = 172 \<and> 16 \<le> ?b \<and> ?b \<le> 31"
      "?a * 4 + ?b div 64 = 401 \<longleftrightarrow> ?a = 100 \<and> ?b div 64 = 1"
      "?a * 128 + ?b div 2 = 25353 \<longleftrightarrow> ?a = 198 \<and> (?b = 18 \<or> ?b = 19)"
      unfolding digits [OF low(1)] digits [OF low(2)] digits [OF low(3)] bits(1,2) [symmetric] by simp_all
    have broadcast: "?a = 255 \<Longrightarrow> ?a div 16 = 15" by simp
    show ?thesis
      unfolding Ipv4 is_disallowed_ipv4.simps masks
      unfolding is_private.simps is_loopback.simps is_link_local.simps
        is_broadcast.simps is_documentation.simps is_unspecified.simps is_multicast.simps octet
        octet_range wide bits(3) pair [OF l(2)] pair [OF l(3)] pair [OF l(4)]
      using broadcast by (intro iffI; elim disjE conjE; simp)
  qed
  finally show ?thesis ..
qed

section \<open>One address, four spellings\<close>

fun mapped_form :: "ipv4 \<Rightarrow> ipv6" where
  "mapped_form (Ipv4 a b c d) = Ipv6 0 0 0 0 0 0xFFFF (u16_of_be a b) (u16_of_be c d)"

fun compatible_form :: "ipv4 \<Rightarrow> ipv6" where
  "compatible_form (Ipv4 a b c d) = Ipv6 0 0 0 0 0 0 (u16_of_be a b) (u16_of_be c d)"

fun six_to_four :: "ipv4 \<Rightarrow> ipv6" where
  "six_to_four (Ipv4 a b c d) = Ipv6 0x2002 (u16_of_be a b) (u16_of_be c d) 0 0 0 0 0"

lemma u16_halves: "ucast (drop_bit 8 (u16_of_be a b)) = a" "ucast (u16_of_be a b) = b"
  by (rule bit_word_eqI; auto simp: u16_of_be_def bit_simps dest: bit_imp_le_length)+

lemma embedded_forms:
  "embedded_ipv4 (mapped_form ip) = Some ip" "embedded_ipv4 (compatible_form ip) = Some ip"
  "embedded_ipv4 (six_to_four ip) = Some ip"
  by (cases ip; simp add: u16_halves)+

lemma u16_of_be_eq: "u16_of_be a b = w \<longleftrightarrow> a = ucast (drop_bit 8 w) \<and> b = ucast w"
  using u16_halves u16_be_roundtrip by metis

text \<open>
  An IPv4 address is judged the same in every IPv6 form that carries it, and is a metadata
  endpoint in all of them or in none; the one address the compatible form adds to the list is
  the one whose form is the IPv6 loopback.
\<close>

theorem embedded_forms_judged_alike:
  "(is_disallowed_remote_ip (V6 (mapped_form ip)) \<longleftrightarrow> is_disallowed_remote_ip (V4 ip)) \<and>
   (is_disallowed_remote_ip (V6 (six_to_four ip)) \<longleftrightarrow> is_disallowed_remote_ip (V4 ip)) \<and>
   (is_disallowed_remote_ip (V6 (compatible_form ip)) \<longleftrightarrow> is_disallowed_remote_ip (V4 ip) \<or> ip = Ipv4 0 0 0 1) \<and>
   is_cloud_metadata_ip (V6 (mapped_form ip)) = is_cloud_metadata_ip (V4 ip) \<and>
   is_cloud_metadata_ip (V6 (six_to_four ip)) = is_cloud_metadata_ip (V4 ip) \<and>
   is_cloud_metadata_ip (V6 (compatible_form ip)) = is_cloud_metadata_ip (V4 ip)"
proof -
  have native: "\<not> (mapped_form ip = v6_loopback \<or> mapped_form ip = v6_unspecified \<or> segment0 (mapped_form ip) AND 0xFF00 = 0xFF00)"
    "\<not> (six_to_four ip = v6_loopback \<or> six_to_four ip = v6_unspecified \<or> segment0 (six_to_four ip) AND 0xFF00 = 0xFF00)"
    by (cases ip; simp add: v6_loopback_def v6_unspecified_def)+
  have compatible: "compatible_form ip = v6_loopback \<longleftrightarrow> ip = Ipv4 0 0 0 1"
    "compatible_form ip = v6_unspecified \<longleftrightarrow> ip = Ipv4 0 0 0 0" "\<not> segment0 (compatible_form ip) AND 0xFF00 = 0xFF00"
    by (cases ip; simp add: v6_loopback_def v6_unspecified_def u16_of_be_eq conj_assoc)+
  have zero: "is_disallowed_ipv4 (Ipv4 0 0 0 0)" by simp
  have meta: "mapped_form ip \<noteq> METADATA_IPV6" "six_to_four ip \<noteq> METADATA_IPV6" "compatible_form ip \<noteq> METADATA_IPV6"
    by (cases ip; simp add: METADATA_IPV6_def)+
  show ?thesis
    using native compatible zero meta by (auto simp: is_disallowed_ipv6_def embedded_forms)
qed

end
