(* ===== verification/Cache_Key.thy ===== *)
theory Cache_Key
  imports Payload
begin

text \<open>
  The identity of a transform in the on-disk cache, from \<open>src/adapters/server/cache.rs\<close>: the
  canonical text of a source, its options and its watermark, and the key that is its digest.
  SHA-256 and \<open>hex::encode\<close> are parameters, as is the decimal text of an \<open>f32\<close>.

  What is shown: two requests share a key exactly when their source, the options that change the
  output and their watermark agree, and requests that share a key are the same transform.
\<close>

section \<open>The canonical text\<close>

definition effective_target :: "transform_options \<Rightarrow> target_quality option" where
  "effective_target o' =
     (case opt_target_quality o' of
        Some t \<Rightarrow> Some t
      | None \<Rightarrow>
          if (opt_optimize o' = Auto \<or> opt_optimize o' = Lossy) \<and> opt_quality o' = None
          then Option.bind (opt_format o') default_lossy_target_quality else None)"

text \<open>The parameters in the order the code pushes them; \<open>None\<close> where it pushes nothing.\<close>

definition cache_background :: "rgba8 \<Rightarrow> string" where
  "cache_background bg = hex2 (col_r bg) @ hex2 (col_g bg) @ hex2 (col_b bg) @ hex2 (col_a bg)"

definition cache_params ::
  "(float_val \<Rightarrow> string) \<Rightarrow> transform_options \<Rightarrow> (string \<times> string option) list" where
  "cache_params show_f32 o' =
     (let bounded = has_bounded_resize o' in
     [(''autoOrient'', written_if (opt_auto_orient o') ''true''),
      (''background'', map_option cache_background (opt_background o')),
      (''blur'', map_option show_f32 (opt_blur o')),
      (''crop'', map_option show_crop (opt_crop o')),
      (''fit'', written_if bounded
        (fit_name (case opt_fit o' of Some f \<Rightarrow> f | None \<Rightarrow> Contain))),
      (''format'', map_option media_name (opt_format o')),
      (''height'', map_option show_word (opt_height o')),
      (''optimize'', written_if (opt_optimize o' \<noteq> NoOpt) (optimize_name (opt_optimize o'))),
      (''position'', written_if bounded
        (position_name (case opt_position o' of Some p \<Rightarrow> p | None \<Rightarrow> Center))),
      (''preserveExif'', written_if (opt_preserve_exif o') ''true''),
      (''grayscale'', written_if (opt_grayscale o') ''true''),
      (''withoutEnlargement'', written_if (opt_without_enlargement o') ''true''),
      (''quality'', map_option show_word (opt_quality o')),
      (''targetQuality'', map_option (show_target show_f32) (effective_target o')),
      (''rotate'', written_if (\<not> rotation_is_identity (opt_rotate o')) (show_rotation (opt_rotate o'))),
      (''sharpen'', map_option show_f32 (opt_sharpen o')),
      (''stripMetadata'', written_if (opt_strip_metadata o') ''true''),
      (''width'', map_option show_word (opt_width o'))])"

definition present :: "('k \<times> 'v option) list \<Rightarrow> ('k \<times> 'v) list" where
  "present ps = concat (map (\<lambda>(k, v). case v of Some x \<Rightarrow> [(k, x)] | None \<Rightarrow> []) ps)"

definition push_param :: "string \<times> string \<Rightarrow> string" where
  "push_param p = fst p @ ''='' @ snd p"

definition canonical_params :: "(float_val \<Rightarrow> string) \<Rightarrow> transform_options \<Rightarrow> string" where
  "canonical_params show_f32 o' =
     join_with ''&'' (map push_param (present (cache_params show_f32 o')))"

abbreviation newline :: string where "newline \<equiv> [CHR 0x0A]"

definition cache_canonical ::
  "(float_val \<Rightarrow> string) \<Rightarrow> string \<Rightarrow> transform_options \<Rightarrow> string option \<Rightarrow> string" where
  "cache_canonical show_f32 source o' wm =
     source @ newline @ canonical_params show_f32 o' @ newline @
     (case wm of Some w \<Rightarrow> w | None \<Rightarrow> [])"

definition compute_cache_key ::
  "(bytes \<Rightarrow> bytes) \<Rightarrow> (bytes \<Rightarrow> string) \<Rightarrow> (float_val \<Rightarrow> string) \<Rightarrow>
    string \<Rightarrow> transform_options \<Rightarrow> string option \<Rightarrow> string" where
  "compute_cache_key sha256 hex_encode show_f32 source o' wm =
     hex_encode (sha256 (ascii (cache_canonical show_f32 source o' wm)))"

definition watermark_text :: "string \<Rightarrow> string \<Rightarrow> string \<Rightarrow> u8 \<Rightarrow> u32 \<Rightarrow> string" where
  "watermark_text kind what pos opacity margin =
     kind @ newline @ what @ newline @ pos @ newline @ show_word opacity @ newline @ show_word margin"

definition compute_watermark_identity ::
  "(bytes \<Rightarrow> bytes) \<Rightarrow> (bytes \<Rightarrow> string) \<Rightarrow> string \<Rightarrow> string \<Rightarrow> u8 \<Rightarrow> u32 \<Rightarrow> string" where
  "compute_watermark_identity sha256 hex_encode url pos opacity margin =
     hex_encode (sha256 (ascii (watermark_text ''watermark'' url pos opacity margin)))"

definition compute_watermark_content_identity ::
  "(bytes \<Rightarrow> bytes) \<Rightarrow> (bytes \<Rightarrow> string) \<Rightarrow> string \<Rightarrow> string \<Rightarrow> u8 \<Rightarrow> u32 \<Rightarrow> string" where
  "compute_watermark_content_identity sha256 hex_encode content_hash pos opacity margin =
     hex_encode (sha256 (ascii (watermark_text ''watermark-content'' content_hash pos opacity margin)))"

section \<open>What the text determines\<close>

text \<open>The options as far as they change the output: defaults filled in, the deadline left out.\<close>

definition cache_identity :: "transform_options \<Rightarrow> transform_options" where
  "cache_identity o' = o'\<lparr>
     opt_fit := (if has_bounded_resize o'
       then Some (case opt_fit o' of Some f \<Rightarrow> f | None \<Rightarrow> Contain) else None),
     opt_position := (if has_bounded_resize o'
       then Some (case opt_position o' of Some p \<Rightarrow> p | None \<Rightarrow> Center) else None),
     opt_target_quality := effective_target o',
     opt_deadline := None\<rparr>"

text \<open>What is relied on of the text of an \<open>f32\<close>: it reads back, and it is a plain numeral.\<close>

definition shown_ok :: "(float_val \<Rightarrow> string) \<Rightarrow> float_val \<Rightarrow> bool" where
  "shown_ok show_f32 x \<longleftrightarrow>
     parse_f32 (show_f32 x) = Some x \<and> CHR ''&'' \<notin> set (show_f32 x) \<and> CHR 0x0A \<notin> set (show_f32 x)"

definition floats_shown :: "(float_val \<Rightarrow> string) \<Rightarrow> transform_options \<Rightarrow> bool" where
  "floats_shown show_f32 o' \<longleftrightarrow>
     pred_option (shown_ok show_f32) (opt_blur o') \<and> pred_option (shown_ok show_f32) (opt_sharpen o') \<and>
     pred_option (\<lambda>t. shown_ok show_f32 (tq_value t)) (effective_target o')"

lemma present_Nil [simp]: "present [] = []"
  and present_Cons [simp]:
    "present (p # ps) = (case snd p of Some x \<Rightarrow> [(fst p, x)] | None \<Rightarrow> []) @ present ps"
  by (simp_all add: present_def split_def)

lemma present_keys: "fst ` set (present ps) \<subseteq> fst ` set ps"
  by (induction ps) (auto split: option.splits)

lemma present_inject:
  assumes "map fst ps = map fst qs" "distinct (map fst ps)" "present ps = present qs"
  shows "ps = qs"
  using assms
proof (induction ps arbitrary: qs)
  case (Cons p ps)
  then obtain q qs' where qs: "qs = q # qs'" "fst q = fst p" "map fst ps = map fst qs'"
    by (cases qs) auto
  have "set (map fst ps) = set (map fst qs')" using qs(3) by simp
  then have fresh: "fst p \<notin> fst ` set (present ps)" "fst p \<notin> fst ` set (present qs')"
    using Cons.prems(2) present_keys [of ps] present_keys [of qs'] by auto
  have "snd p = snd q \<and> present ps = present qs'"
    using Cons.prems(3) fresh qs(1,2)
    by (cases "snd p"; cases "snd q") (auto simp: image_iff Cons_eq_append_conv dest: sym)
  with Cons qs show ?case by (simp add: prod_eq_iff)
qed simp

lemma split_join:
  "xs \<noteq> [] \<Longrightarrow> \<forall>x \<in> set xs. c \<notin> set x \<Longrightarrow> split_on c (join_with [c] xs) = xs"
proof (induction xs rule: induct_list012)
  case (2 x)
  then show ?case by (simp add: split_on_no_sep)
next
  case (3 x y zs)
  then show ?case by (simp add: split_on_append_sep)
qed simp

lemma join_Nil_iff: "[] \<notin> set zs \<Longrightarrow> join_with sep zs = [] \<longleftrightarrow> zs = []"
  by (induction zs rule: induct_list012) auto

lemma join_inject:
  assumes xs: "[] \<notin> set xs" "\<forall>x \<in> set xs. c \<notin> set x" and ys: "[] \<notin> set ys" "\<forall>y \<in> set ys. c \<notin> set y"
    and eq: "join_with [c] xs = join_with [c] ys"
  shows "xs = ys"
proof (cases "xs = []")
  case True
  then have "join_with [c] ys = []" using eq by simp
  then show ?thesis using True ys(1) by (simp add: join_Nil_iff)
next
  case False
  then have "join_with [c] xs \<noteq> []" using xs(1) by (simp add: join_Nil_iff)
  then have "ys \<noteq> []" using eq by auto
  have "xs = split_on c (join_with [c] xs)" by (rule split_join [OF False xs(2), symmetric])
  also have "\<dots> = ys" unfolding eq by (rule split_join [OF \<open>ys \<noteq> []\<close> ys(2)])
  finally show ?thesis .
qed

lemma append_sep_inject:
  fixes c :: char
  assumes "c \<notin> set a" "c \<notin> set a'" "a @ c # b = a' @ c # b'"
  shows "a = a' \<and> b = b'"
proof -
  have "split_once c (a @ c # b) = Some (a, b)" "split_once c (a' @ c # b') = Some (a', b')"
    using assms(1,2) by (simp_all add: split_once_Some_iff)
  then have "Some (a, b) = Some (a', b')" unfolding assms(3) by (rule trans [OF sym])
  then show ?thesis by simp
qed

lemma sep_iff:
  fixes c :: char
  assumes "c \<notin> set a" "c \<notin> set a'"
  shows "a @ c # b = a' @ c # b' \<longleftrightarrow> a = a' \<and> b = b'"
  using append_sep_inject [OF assms] by blast

lemma push_param_inject:
  assumes "CHR ''='' \<notin> set (fst p)" "CHR ''='' \<notin> set (fst q)" "push_param p = push_param q"
  shows "p = q"
proof -
  have "fst p @ CHR ''='' # snd p = fst q @ CHR ''='' # snd q"
    using assms(3) by (simp add: push_param_def)
  from append_sep_inject [OF assms(1,2) this] show ?thesis by (simp add: prod_eq_iff)
qed

text \<open>A text without the two separators of the canonical text.\<close>

definition clean :: "string \<Rightarrow> bool" where
  "clean s \<longleftrightarrow> CHR ''&'' \<notin> set s \<and> CHR 0x0A \<notin> set s"

lemma clean_append [simp]: "clean (a @ b) \<longleftrightarrow> clean a \<and> clean b"
  by (auto simp: clean_def)

lemma clean_show_word [simp]: "clean (show_word w)"
  using show_word_digits [of w] by (auto simp: clean_def list_all_iff is_ascii_digit_def)

lemma clean_hex2 [simp]: "clean (hex2 w)"
proof -
  have "plain_char c \<and> c \<noteq> CHR ''&''" if "c \<in> set (hex2 w)" for c
  proof -
    have "plain_char c" using hex_digest_chars [of c "[w]"] that by simp
    moreover have "unat w div 16 < 16" using u8_less [of w] by linarith
    then have "hex_val c \<noteq> None" using that by (auto simp: hex2_def)
    then have "c \<noteq> CHR ''&''" by (auto simp: hex_val_def)
    ultimately show ?thesis by simp
  qed
  then show ?thesis unfolding clean_def plain_char_def by fastforce
qed

lemma clean_literals [simp]:
  "clean ''true''" "clean '',''" "clean '':''" "clean ''''"
  by (simp_all add: clean_def)

lemma clean_fit [simp]: "clean (fit_name f)"
  by (cases f) (simp_all add: clean_def)

lemma clean_position [simp]: "clean (position_name p)"
  by (cases p) (simp_all add: clean_def)

lemma clean_media [simp]: "clean (media_name m)"
  by (cases m) (simp_all add: clean_def)

lemma clean_optimize [simp]: "clean (optimize_name m)"
  by (cases m) (simp_all add: clean_def)

lemma clean_metric [simp]: "clean (metric_name m)"
  by (cases m) (simp_all add: clean_def)

lemma clean_compound [simp]:
  "clean (cache_background bg)" "clean (show_crop c)" "clean (show_rotation r)"
  unfolding cache_background_def show_crop_def show_rotation_def
  by (simp_all only: clean_append clean_hex2 clean_show_word clean_literals)

lemma clean_target: "shown_ok show_f32 (tq_value t) \<Longrightarrow> clean (show_target show_f32 t)"
  unfolding show_target_def by (simp only: clean_append clean_metric clean_literals) (simp add: shown_ok_def clean_def)

lemma clean_shown: "shown_ok show_f32 x \<Longrightarrow> clean (show_f32 x)"
  by (simp add: shown_ok_def clean_def)

lemma cache_params_clean:
  assumes "floats_shown show_f32 o'"
  shows "list_all (\<lambda>(_, v). pred_option clean v) (cache_params show_f32 o')"
  using assms unfolding floats_shown_def
  by (auto simp: cache_params_def Let_def written_if_def clean_target clean_shown option.pred_map
    comp_def pred_option_def simp del: append.simps)

definition param_names :: "string list" where
  "param_names = [''autoOrient'', ''background'', ''blur'', ''crop'', ''fit'', ''format'', ''height'',
     ''optimize'', ''position'', ''preserveExif'', ''grayscale'', ''withoutEnlargement'', ''quality'',
     ''targetQuality'', ''rotate'', ''sharpen'', ''stripMetadata'', ''width'']"

lemma cache_params_names: "map fst (cache_params show_f32 o') = param_names"
  by (simp add: cache_params_def Let_def param_names_def)

lemma param_names_plain:
  "distinct param_names" "list_all (\<lambda>k. clean k \<and> CHR ''='' \<notin> set k) param_names"
  by (simp_all add: param_names_def clean_def)

lemma present_params:
  assumes "floats_shown show_f32 o'" "p \<in> set (present (cache_params show_f32 o'))"
  shows "clean (fst p) \<and> clean (snd p) \<and> CHR ''='' \<notin> set (fst p)"
proof -
  have "fst p \<in> set (map fst (cache_params show_f32 o'))"
    using assms(2) present_keys [of "cache_params show_f32 o'"] by auto
  then have "clean (fst p) \<and> CHR ''='' \<notin> set (fst p)"
    using param_names_plain(2) unfolding cache_params_names by (simp add: list_all_iff)
  moreover have "(fst p, Some (snd p)) \<in> set (cache_params show_f32 o')"
    using assms(2) by (auto simp: present_def split: option.splits)
  ultimately show ?thesis using cache_params_clean [OF assms(1)] by (fastforce simp: list_all_iff)
qed

lemma push_params_clean:
  assumes "floats_shown show_f32 o'" "t \<in> set (map push_param (present (cache_params show_f32 o')))"
  shows "clean t \<and> t \<noteq> []"
proof -
  obtain p where p: "p \<in> set (present (cache_params show_f32 o'))" "t = push_param p" using assms(2) by auto
  have "clean ''=''" by (simp add: clean_def)
  then show ?thesis using present_params [OF assms(1) p(1)] unfolding p(2) push_param_def
    by (simp only: clean_append) simp
qed

lemma canonical_params_inject:
  assumes a: "floats_shown show_f32 a" and b: "floats_shown show_f32 b"
    and eq: "canonical_params show_f32 a = canonical_params show_f32 b"
  shows "cache_params show_f32 a = cache_params show_f32 b"
proof -
  let ?ps = "\<lambda>o'. present (cache_params show_f32 o')"
  have "map push_param (?ps a) = map push_param (?ps b)"
    using eq unfolding canonical_params_def
  proof (rule join_inject [rotated -1])
    show "[] \<notin> set (map push_param (?ps a))" "[] \<notin> set (map push_param (?ps b))"
      using push_params_clean [OF a] push_params_clean [OF b] by blast+
    show "\<forall>x \<in> set (map push_param (?ps a)). CHR ''&'' \<notin> set x"
      "\<forall>x \<in> set (map push_param (?ps b)). CHR ''&'' \<notin> set x"
      using push_params_clean [OF a] push_params_clean [OF b] unfolding clean_def by blast+
  qed
  moreover have "inj_on push_param (set (?ps a) \<union> set (?ps b))"
    using present_params [OF a] present_params [OF b] by (intro inj_onI push_param_inject) auto
  ultimately have "?ps a = ?ps b" by (rule map_inj_on)
  then show ?thesis
    by (intro present_inject) (simp_all only: cache_params_names param_names_plain)
qed

lemma clean_join: "list_all clean xs \<Longrightarrow> CHR 0x0A \<notin> set (join_with ''&'' xs)"
  by (induction xs rule: induct_list012) (auto simp: clean_def)

lemma canonical_params_line: "floats_shown show_f32 o' \<Longrightarrow> CHR 0x0A \<notin> set (canonical_params show_f32 o')"
  unfolding canonical_params_def
  by (rule clean_join) (use push_params_clean in \<open>auto simp: list_all_iff\<close>)

lemma written_if_eq [simp]:
  "written_if c v = written_if d w \<longleftrightarrow> c = d \<and> (c \<longrightarrow> v = w)"
  by (simp add: written_if_def)

lemma map_option_inject_on:
  "map_option f x = map_option f y \<Longrightarrow> inj_on f (set_option x \<union> set_option y) \<Longrightarrow> x = y"
  by (cases x; cases y) (auto dest: inj_onD)

lemma shown_inject:
  assumes "shown_ok show_f32 x" "shown_ok show_f32 y" "show_f32 x = show_f32 y"
  shows "x = y"
proof -
  have "Some x = parse_f32 (show_f32 x)" using assms(1) by (simp add: shown_ok_def)
  also have "\<dots> = Some y" unfolding assms(3) using assms(2) by (simp add: shown_ok_def)
  finally show ?thesis by simp
qed

lemma cache_background_inject: "cache_background a = cache_background b \<Longrightarrow> a = b"
  using hex_digest_inject [of "[col_r a, col_g a, col_b a, col_a a]" "[col_r b, col_g b, col_b b, col_a b]"]
  by (simp add: cache_background_def)

lemma show_crop_inject:
  assumes "show_crop a = show_crop b" shows "a = b"
proof -
  have parts: "split_on CHR '','' (show_crop c) =
      map show_word [crop_x c, crop_y c, crop_width c, crop_height c]" for c
    by (simp add: show_crop_def split_on_append_sep split_on_no_sep)
  have "map show_word [crop_x a, crop_y a, crop_width a, crop_height a] =
      map show_word [crop_x b, crop_y b, crop_width b, crop_height b]"
    unfolding parts [symmetric] assms ..
  then show ?thesis by (simp add: crop_region.equality)
qed

lemma show_target_inject:
  assumes "shown_ok show_f32 (tq_value s)" "shown_ok show_f32 (tq_value t)"
    and "show_target show_f32 s = show_target show_f32 t"
  shows "s = t"
proof -
  have "CHR '':'' \<notin> set (metric_name m)" for m by (cases m) simp_all
  then have "metric_name (tq_metric s) = metric_name (tq_metric t) \<and>
      show_f32 (tq_value s) = show_f32 (tq_value t)"
    using append_sep_inject assms(3) unfolding show_target_def by (metis append_Cons append_Nil)
  moreover have "metric_name m = metric_name n \<Longrightarrow> m = n" for m n by (cases m; cases n) simp_all
  ultimately show ?thesis using shown_inject [OF assms(1,2)] by simp
qed

lemma name_injects:
  "fit_name f = fit_name f' \<longleftrightarrow> f = f'" "position_name p = position_name p' \<longleftrightarrow> p = p'"
  "media_name m = media_name m' \<longleftrightarrow> m = m'" "optimize_name q = optimize_name q' \<longleftrightarrow> q = q'"
  using fit.name_inject position.name_inject media.name_inject
  by blast+ (cases q; cases q'; simp)

lemma cache_params_inject:
  assumes a: "floats_shown show_f32 a" and b: "floats_shown show_f32 b"
    and eq: "cache_params show_f32 a = cache_params show_f32 b"
  shows "cache_identity a = cache_identity b"
proof -
  note eqs = eq [unfolded cache_params_def Let_def, simplified]
  have shown: "inj_on show_f32 (set_option x \<union> set_option y)"
    if "pred_option (shown_ok show_f32) x" "pred_option (shown_ok show_f32) y" for x y
    using that by (intro inj_onI shown_inject [of show_f32]) (auto simp: option.pred_set)
  have texts: "map_option show_f32 (opt_blur a) = map_option show_f32 (opt_blur b)"
    "map_option show_f32 (opt_sharpen a) = map_option show_f32 (opt_sharpen b)"
    "map_option (show_target show_f32) (effective_target a) =
      map_option (show_target show_f32) (effective_target b)"
    "map_option cache_background (opt_background a) = map_option cache_background (opt_background b)"
    "map_option show_crop (opt_crop a) = map_option show_crop (opt_crop b)"
    using eqs by blast+
  have words: "map_option media_name (opt_format a) = map_option media_name (opt_format b)"
    "map_option show_word (opt_height a) = map_option show_word (opt_height b)"
    "map_option show_word (opt_quality a) = map_option show_word (opt_quality b)"
    "map_option show_word (opt_width a) = map_option show_word (opt_width b)"
    using eqs by blast+
  have flags: "opt_auto_orient a = opt_auto_orient b" "opt_preserve_exif a = opt_preserve_exif b"
    "opt_grayscale a = opt_grayscale b" "opt_without_enlargement a = opt_without_enlargement b"
    "opt_strip_metadata a = opt_strip_metadata b"
    "rotation_is_identity (opt_rotate a) = rotation_is_identity (opt_rotate b) \<and>
      (\<not> rotation_is_identity (opt_rotate a) \<longrightarrow> show_rotation (opt_rotate a) = show_rotation (opt_rotate b))"
    "(opt_optimize a = NoOpt) = (opt_optimize b = NoOpt) \<and>
      (opt_optimize a \<noteq> NoOpt \<longrightarrow> optimize_name (opt_optimize a) = optimize_name (opt_optimize b))"
    "has_bounded_resize a = has_bounded_resize b \<and> (has_bounded_resize a \<longrightarrow>
      fit_name (case opt_fit a of Some f \<Rightarrow> f | None \<Rightarrow> Contain) =
      fit_name (case opt_fit b of Some f \<Rightarrow> f | None \<Rightarrow> Contain))"
    "has_bounded_resize a \<longrightarrow>
      position_name (case opt_position a of Some p \<Rightarrow> p | None \<Rightarrow> Center) =
      position_name (case opt_position b of Some p \<Rightarrow> p | None \<Rightarrow> Center)"
    using eqs by blast+
  have "opt_blur a = opt_blur b" "opt_sharpen a = opt_sharpen b"
    by (rule map_option_inject_on, rule texts, rule shown, (use a b in \<open>simp_all add: floats_shown_def\<close>)[2])+
  moreover have "effective_target a = effective_target b"
  proof (rule map_option_inject_on [OF texts(3)])
    show "inj_on (show_target show_f32) (set_option (effective_target a) \<union> set_option (effective_target b))"
      using a b by (intro inj_onI show_target_inject [of show_f32]) (auto simp: floats_shown_def option.pred_set)
  qed
  moreover have "opt_background a = opt_background b" "opt_crop a = opt_crop b"
    by (rule map_option_inject_on, rule texts, rule inj_onI,
        erule cache_background_inject show_crop_inject)+
  moreover have "opt_format a = opt_format b" "opt_height a = opt_height b"
    "opt_quality a = opt_quality b" "opt_width a = opt_width b"
    by (rule map_option_inject_on, rule words, rule inj_onI, simp add: name_injects)+
  moreover have "opt_rotate a = opt_rotate b"
  proof (cases "rotation_is_identity (opt_rotate a)")
    case True
    with flags(6) have "rotation_is_identity (opt_rotate b)" by simp
    then show ?thesis using identity_rotation [OF True] identity_rotation [of "opt_rotate b"] by simp
  next
    case False
    with flags(6) have "show_rotation (opt_rotate a) = show_rotation (opt_rotate b)" by simp
    then show ?thesis by (simp add: show_rotation_def rotation.expand)
  qed
  ultimately show ?thesis
    using flags by (intro transform_options.equality)
      (simp_all add: cache_identity_def name_injects, (metis optimize_name.simps(1))?)
qed

lemma identity_same:
  assumes "cache_identity a = cache_identity b"
  shows "opt_width a = opt_width b" "opt_height a = opt_height b" "opt_format a = opt_format b"
    "opt_quality a = opt_quality b" "opt_optimize a = opt_optimize b" "opt_background a = opt_background b"
    "opt_rotate a = opt_rotate b" "opt_auto_orient a = opt_auto_orient b"
    "opt_strip_metadata a = opt_strip_metadata b" "opt_preserve_exif a = opt_preserve_exif b"
    "opt_blur a = opt_blur b" "opt_sharpen a = opt_sharpen b" "opt_grayscale a = opt_grayscale b"
    "opt_without_enlargement a = opt_without_enlargement b" "opt_crop a = opt_crop b"
    "has_bounded_resize a = has_bounded_resize b" "effective_target a = effective_target b"
proof -
  have f: "f (cache_identity a) = f (cache_identity b)" for f :: "transform_options \<Rightarrow> 'b"
    using assms by simp
  show "opt_width a = opt_width b" "opt_height a = opt_height b" "opt_format a = opt_format b"
    "opt_quality a = opt_quality b" "opt_optimize a = opt_optimize b" "opt_background a = opt_background b"
    "opt_rotate a = opt_rotate b" "opt_auto_orient a = opt_auto_orient b"
    "opt_strip_metadata a = opt_strip_metadata b" "opt_preserve_exif a = opt_preserve_exif b"
    "opt_blur a = opt_blur b" "opt_sharpen a = opt_sharpen b" "opt_grayscale a = opt_grayscale b"
    "opt_without_enlargement a = opt_without_enlargement b" "opt_crop a = opt_crop b"
    "has_bounded_resize a = has_bounded_resize b" "effective_target a = effective_target b"
    using f [of opt_width] f [of opt_height] f [of opt_format] f [of opt_quality] f [of opt_optimize]
      f [of opt_background] f [of opt_rotate] f [of opt_auto_orient] f [of opt_strip_metadata]
      f [of opt_preserve_exif] f [of opt_blur] f [of opt_sharpen] f [of opt_grayscale]
      f [of opt_without_enlargement] f [of opt_crop] f [of opt_target_quality]
    by (simp_all add: cache_identity_def has_bounded_resize_def)
qed

lemma identity_params:
  assumes "cache_identity a = cache_identity b"
  shows "cache_params show_f32 a = cache_params show_f32 b"
proof -
  have "opt_fit (cache_identity a) = opt_fit (cache_identity b)"
    "opt_position (cache_identity a) = opt_position (cache_identity b)" using assms by simp_all
  then show ?thesis using identity_same [OF assms]
    by (cases "has_bounded_resize b") (simp_all add: cache_params_def Let_def cache_identity_def)
qed

lemma cache_key_iff:
  assumes digest: "sha256 (ascii (cache_canonical show_f32 s a w)) = sha256 (ascii (cache_canonical show_f32 t b v)) \<Longrightarrow>
      ascii (cache_canonical show_f32 s a w) = ascii (cache_canonical show_f32 t b v)"
    and hex: "\<forall>bs. hex_encode bs = hex_text bs"
    and sources: "CHR 0x0A \<notin> set s" "CHR 0x0A \<notin> set t"
    and floats: "floats_shown show_f32 a" "floats_shown show_f32 b"
  shows "compute_cache_key sha256 hex_encode show_f32 s a w = compute_cache_key sha256 hex_encode show_f32 t b v \<longleftrightarrow>
     s = t \<and> cache_identity a = cache_identity b \<and>
     (case w of None \<Rightarrow> [] | Some x \<Rightarrow> x) = (case v of None \<Rightarrow> [] | Some x \<Rightarrow> x)"
proof -
  have ascii_inject: "ascii x = ascii y \<longleftrightarrow> x = y" for x y by (metis str_of_bytes_ascii)
  have hexes: "hex_encode x = hex_encode y \<longleftrightarrow> x = y" for x y
    using hex hex_digest_inject by (simp add: hex_text_def)
  have "compute_cache_key sha256 hex_encode show_f32 s a w = compute_cache_key sha256 hex_encode show_f32 t b v \<longleftrightarrow>
      cache_canonical show_f32 s a w = cache_canonical show_f32 t b v"
    unfolding compute_cache_key_def hexes using digest ascii_inject by metis
  also have "\<dots> \<longleftrightarrow> s = t \<and> canonical_params show_f32 a = canonical_params show_f32 b \<and>
      (case w of None \<Rightarrow> [] | Some x \<Rightarrow> x) = (case v of None \<Rightarrow> [] | Some x \<Rightarrow> x)"
    unfolding cache_canonical_def append_Cons append_Nil
      sep_iff [OF sources] sep_iff [OF canonical_params_line [OF floats(1)] canonical_params_line [OF floats(2)]] ..
  also have "canonical_params show_f32 a = canonical_params show_f32 b \<longleftrightarrow> cache_identity a = cache_identity b"
    using canonical_params_inject [OF floats] cache_params_inject [OF floats] identity_params [of a b show_f32]
    unfolding canonical_params_def by metis
  finally show ?thesis .
qed

text \<open>
  C16. Two requests share a cache key exactly when their sources are the same, the options agree
  once the defaults are filled in and the deadline is left out, and so do the watermarks.
\<close>

theorem cache_key_identifies_transform:
  assumes "sha256 (ascii (cache_canonical show_f32 s a w)) = sha256 (ascii (cache_canonical show_f32 t b v)) \<longrightarrow>
      ascii (cache_canonical show_f32 s a w) = ascii (cache_canonical show_f32 t b v)"
    and "\<forall>bs. hex_encode bs = hex_text bs"
    and "CHR 0x0A \<notin> set s" "CHR 0x0A \<notin> set t"
    and "floats_shown show_f32 a" "floats_shown show_f32 b"
  shows "compute_cache_key sha256 hex_encode show_f32 s a w = compute_cache_key sha256 hex_encode show_f32 t b v \<longleftrightarrow>
     s = t \<and> cache_identity a = cache_identity b \<and>
     (case w of None \<Rightarrow> [] | Some x \<Rightarrow> x) = (case v of None \<Rightarrow> [] | Some x \<Rightarrow> x)"
  using assms by (intro cache_key_iff) simp_all

definition identity_options :: transform_options where
  "identity_options = default_options\<lparr>opt_width := Some 10, opt_height := Some 20, opt_blur := Some (Fin (5/2))\<rparr>"

definition spelled_options :: transform_options where
  "spelled_options = identity_options\<lparr>opt_fit := Some Contain, opt_deadline := Some 9\<rparr>"

lemma sample_floats_shown:
  "floats_shown (\<lambda>_. ''2.5'') identity_options" "floats_shown (\<lambda>_. ''2.5'') spelled_options"
  and sample_identity: "cache_identity identity_options = cache_identity spelled_options"
proof -
  have "parse_f32 ''2.5'' = Some (Fin (5/2))" by code_simp
  then have "shown_ok (\<lambda>_. ''2.5'') (Fin (5/2))" by (simp add: shown_ok_def)
  then show "floats_shown (\<lambda>_. ''2.5'') identity_options" "floats_shown (\<lambda>_. ''2.5'') spelled_options"
    by (simp_all add: floats_shown_def spelled_options_def identity_options_def default_options_def
      effective_target_def)
  show "cache_identity identity_options = cache_identity spelled_options"
    by (simp add: cache_identity_def spelled_options_def identity_options_def default_options_def
      has_bounded_resize_def effective_target_def)
qed

theorem cache_key_identifies_transform_witness:
  "compute_cache_key id hex_text (\<lambda>_. ''2.5'') ''a.png'' identity_options None =
     compute_cache_key id hex_text (\<lambda>_. ''2.5'') ''a.png'' spelled_options None"
  using cache_key_identifies_transform [of id "\<lambda>_. ''2.5''" "''a.png''" identity_options None
      "''a.png''" spelled_options None hex_text] sample_floats_shown sample_identity
  by simp

section \<open>One key, one transform\<close>

text \<open>The options the codecs see, with the target the encoder falls back to written out.\<close>

definition transform_identity :: "normalized_options \<Rightarrow> normalized_options" where
  "transform_identity n = n\<lparr>
     n_target_quality := or_else (n_target_quality n)
       (if (n_optimize n = Auto \<or> n_optimize n = Lossy) \<and> n_quality n = None
        then default_lossy_target_quality (n_format n) else None),
     n_deadline := None\<rparr>"

lemma effective_default_ok:
  assumes "opt_target_quality a = None" "effective_target a = Some t"
  shows "(opt_optimize a = Auto \<or> opt_optimize a = Lossy) \<and>
    (\<exists>f. opt_format a = Some f \<and> supports_lossy_optimization f)"
  using assms by (auto simp: effective_target_def default_lossy_target_quality_def
    supports_lossy_optimization_def split: if_splits bind_splits)

text \<open>What \<open>normalize\<close> answers for options that pass the rules it shares with the adapters.\<close>

lemma normalize_accepts:
  assumes "validate_without_input o' = Ok ()"
    and "opt_optimize o' \<noteq> NoOpt \<longrightarrow> supports_optimization (resolve_format o' m)"
    and "opt_optimize o' = Lossy \<longrightarrow> supports_lossy_optimization (resolve_format o' m)"
    and "opt_preserve_exif o' \<longrightarrow> resolve_format o' m \<noteq> Svg"
    and "m = Svg \<and> resolve_format o' m = Svg \<longrightarrow> svg_passthrough_unsupported_option o' = None"
    and "opt_quality o' \<noteq> None \<longrightarrow> is_lossy (resolve_format o' m) \<and> opt_optimize o' \<noteq> Lossless"
    and "opt_target_quality o' \<noteq> None \<longrightarrow> opt_optimize o' \<noteq> NoOpt \<and> opt_optimize o' \<noteq> Lossless \<and>
      supports_lossy_optimization (resolve_format o' m)"
  shows "\<exists>n. normalize o' m = Ok n"
  using assms unfolding normalize_def Let_def by auto

lemma identity_normalize:
  assumes same: "cache_identity a = cache_identity b" and ok: "normalize a m = Ok n"
    and valid: "validate_without_input b = Ok ()"
  shows "\<exists>n'. normalize b m = Ok n' \<and> transform_identity n' = transform_identity n \<and>
    ((opt_target_quality a = None \<longleftrightarrow> opt_target_quality b = None) \<longrightarrow>
      n'\<lparr>n_deadline := None\<rparr> = n\<lparr>n_deadline := None\<rparr>)"
proof -
  note s = identity_same [OF same] and A = normalize_OkD [OF ok]
  have format: "resolve_format a m = resolve_format b m" using s(3) by (simp add: resolve_format_def)
  have target: "opt_optimize b \<noteq> NoOpt \<and> opt_optimize b \<noteq> Lossless \<and>
      supports_lossy_optimization (resolve_format b m)" if "opt_target_quality b \<noteq> None"
  proof (cases "opt_target_quality a = None")
    case True
    then show ?thesis using effective_default_ok [of a] s that
      by (auto simp: effective_target_def resolve_format_def)
  next
    case False
    then show ?thesis using A(8) s(5) format by simp
  qed
  have "\<exists>n'. normalize b m = Ok n'"
    using A(3-7) s target unfolding format
    by (intro normalize_accepts [OF valid]) (auto simp: svg_passthrough_None)
  then obtain n' where n': "normalize b m = Ok n'" by blast
  note B = normalize_OkD [OF n']
  have fallback: "or_else (opt_target_quality a) D = or_else (opt_target_quality b) D"
    if D: "D = (if (opt_optimize b = Auto \<or> opt_optimize b = Lossy) \<and> opt_quality b = None
      then default_lossy_target_quality (resolve_format b m) else None)" for D
  proof (cases "opt_format b")
    case None
    then have "effective_target x = opt_target_quality x" if "x = a \<or> x = b" for x
      using that s(3) by (auto simp: effective_target_def split: option.split)
    then show ?thesis using s(17) by simp
  next
    case (Some f)
    then have "or_else (opt_target_quality x) D = effective_target x" if "x = a \<or> x = b" for x
      using that s(3,4,5) unfolding D
      by (cases "opt_target_quality x") (auto simp: effective_target_def resolve_format_def)
    then show ?thesis using s(17) by simp
  qed
  have "opt_fit (cache_identity a) = opt_fit (cache_identity b)"
    "opt_position (cache_identity a) = opt_position (cache_identity b)" using same by simp_all
  then have place: "has_bounded_resize b \<Longrightarrow> (case opt_fit a of Some f \<Rightarrow> f | None \<Rightarrow> Contain) =
        (case opt_fit b of Some f \<Rightarrow> f | None \<Rightarrow> Contain)"
      "has_bounded_resize b \<Longrightarrow> (case opt_position a of Some f \<Rightarrow> f | None \<Rightarrow> Center) =
        (case opt_position b of Some f \<Rightarrow> f | None \<Rightarrow> Center)"
    using s(16) by (simp_all add: cache_identity_def)
  have free: "\<not> has_bounded_resize b \<Longrightarrow> opt_position a = opt_position b"
    using valid A(1) s(16) unfolding validate_without_input_Ok by metis
  have "transform_identity n' = transform_identity n"
    unfolding A(2) B(2) transform_identity_def
    by (cases "has_bounded_resize b") (simp_all add: s place free format fallback)
  moreover have "n'\<lparr>n_deadline := None\<rparr> = n\<lparr>n_deadline := None\<rparr>"
    if "opt_target_quality a = None \<longleftrightarrow> opt_target_quality b = None"
  proof -
    have "opt_target_quality a = opt_target_quality b"
      using s(17) that by (auto simp: effective_target_def split: option.splits if_splits)
    then show ?thesis
      unfolding A(2) B(2) by (cases "has_bounded_resize b") (simp_all add: s place free format)
  qed
  ultimately show ?thesis using n' by blast
qed

text \<open>
  C17. Two requests that share a cache key and pass the rules the server checks before it looks
  into the cache (\<open>validate_without_input\<close>; a request that breaks them can share a key and is
  refused) ask for the same transform: where one normalizes, so does the other, to the same
  options up to the deadline, if both name a target quality or neither does. If only one names
  it, what it names is the default the encoder falls back to for the other, and the two differ in
  nothing else; whether it was named still decides whether a shortfall is worth a warning, so the
  answers to such a pair may differ in that warning.
\<close>

theorem one_key_one_transform:
  assumes "sha256 (ascii (cache_canonical show_f32 s a w)) = sha256 (ascii (cache_canonical show_f32 t b v)) \<longrightarrow>
      ascii (cache_canonical show_f32 s a w) = ascii (cache_canonical show_f32 t b v)"
    and "\<forall>bs. hex_encode bs = hex_text bs"
    and "CHR 0x0A \<notin> set s" "CHR 0x0A \<notin> set t"
    and "floats_shown show_f32 a" "floats_shown show_f32 b"
    and key: "compute_cache_key sha256 hex_encode show_f32 s a w = compute_cache_key sha256 hex_encode show_f32 t b v"
    and "normalize a m = Ok n" "validate_without_input b = Ok ()"
  shows "\<exists>n'. normalize b m = Ok n' \<and> transform_identity n' = transform_identity n \<and>
    ((opt_target_quality a = None \<longleftrightarrow> opt_target_quality b = None) \<longrightarrow>
      n'\<lparr>n_deadline := None\<rparr> = n\<lparr>n_deadline := None\<rparr>)"
proof -
  have "cache_identity a = cache_identity b"
    using assms cache_key_iff [of sha256 show_f32 s a w t b v hex_encode] by blast
  then show ?thesis using assms(8,9) by (rule identity_normalize)
qed

theorem one_key_one_transform_witness:
  "\<exists>n'. normalize spelled_options Png = Ok n' \<and>
     n'\<lparr>n_deadline := None\<rparr> = (case normalize identity_options Png of Ok n \<Rightarrow> n)\<lparr>n_deadline := None\<rparr>"
proof -
  have "compute_cache_key id hex_text (\<lambda>_. ''2.5'') ''a.png'' identity_options None =
     compute_cache_key id hex_text (\<lambda>_. ''2.5'') ''a.png'' spelled_options None"
    using cache_key_iff [of id "\<lambda>_. ''2.5''" "''a.png''" identity_options None
      "''a.png''" spelled_options None hex_text] sample_floats_shown sample_identity by simp
  moreover have "case normalize identity_options Png of Ok n \<Rightarrow> True | _ \<Rightarrow> False" by code_simp
  then obtain n where n: "normalize identity_options Png = Ok n" by (auto split: outcome.splits)
  moreover have "validate_without_input spelled_options = Ok ()" by code_simp
  moreover have "opt_target_quality identity_options = None \<longleftrightarrow> opt_target_quality spelled_options = None"
    by (simp add: spelled_options_def)
  ultimately have "\<exists>n'. normalize spelled_options Png = Ok n' \<and> n'\<lparr>n_deadline := None\<rparr> = n\<lparr>n_deadline := None\<rparr>"
    using one_key_one_transform [of id "\<lambda>_. ''2.5''" "''a.png''" identity_options None
      "''a.png''" spelled_options None hex_text Png n] sample_floats_shown by auto
  then show ?thesis by (simp add: n)
qed

section \<open>Watermark identities\<close>

text \<open>
  The identity of a watermark is that of its source, its place, its opacity and its margin,
  and one named by its URL is never taken for one named by the hash of its bytes.
\<close>

theorem watermark_identity_exact:
  assumes collision: "\<forall>x y. sha256 (ascii x) = sha256 (ascii y) \<longrightarrow> x = y"
    and hex: "\<forall>bs. hex_encode bs = hex_text bs"
    and lines: "CHR 0x0A \<notin> set u" "CHR 0x0A \<notin> set u'"
  shows "(compute_watermark_identity sha256 hex_encode u (position_name p) q g =
      compute_watermark_identity sha256 hex_encode u' (position_name p') q' g' \<longleftrightarrow>
      u = u' \<and> p = p' \<and> q = q' \<and> g = g') \<and>
    compute_watermark_identity sha256 hex_encode u (position_name p) q g \<noteq>
      compute_watermark_content_identity sha256 hex_encode u' (position_name p') q' g'"
proof -
  have same: "hex_encode (sha256 (ascii x)) = hex_encode (sha256 (ascii y)) \<longleftrightarrow> x = y" for x y
    using collision hex hex_digest_inject by (metis hex_text_def)
  have line: "CHR 0x0A \<notin> set (position_name r)" "CHR 0x0A \<notin> set (show_word w)" for r and w :: u8
    using clean_position clean_show_word unfolding clean_def by blast+
  have kind: "CHR 0x0A \<notin> set ''watermark''" "CHR 0x0A \<notin> set ''watermark-content''"
    by simp_all
  have "position_name p = position_name p' \<longleftrightarrow> p = p'" by (simp add: name_injects)
  then show ?thesis
    unfolding compute_watermark_identity_def compute_watermark_content_identity_def same
      watermark_text_def append_Cons [of _ "[]"] append_Nil
    by (subst sep_iff [OF kind(1,1)] sep_iff [OF lines] sep_iff [OF line(1,1)] sep_iff [OF line(2,2)]
        sep_iff [OF kind(1,2)])+ simp
qed

theorem watermark_identity_exact_witness:
  "compute_watermark_identity id hex_text ''u'' (position_name Top) 50 1 \<noteq>
     compute_watermark_identity id hex_text ''u'' (position_name Top) 50 2"
proof -
  have "\<forall>x y. id (ascii x) = id (ascii y) \<longrightarrow> x = y" by (metis id_apply str_of_bytes_ascii)
  then show ?thesis
    using watermark_identity_exact [of id hex_text "''u''" "''u''" Top 50 1 Top 50 2] by simp
qed

end
