(* ===== verification/Cache.thy ===== *)
theory Cache
  imports Cache_Key Response
begin

text \<open>
  The on-disk caches of \<open>src/adapters/server/cache.rs\<close>: the entry a transform is stored as, the
  lookup with its staleness and corruption rules, the write through a temporary file, and the
  eviction that keeps the directory under its budget.

  The file system is a map from paths to files with their bytes and modification time, in
  nanoseconds since the epoch. A system call is an operation on it together with what the
  kernel answered, so every failure is a value of the run. Log lines are not modelled.

  Writers, readers and evictors run at the same time: \<open>cache_step\<close> is one system call of one of
  them, and \<open>reachable\<close> is every interleaving. What is shown: an entry is at all times the whole
  of what some write stored, so a hit is the result of a write under its own key; a write is
  read back; and a scan removes the oldest entries and no more than it must.
\<close>

section \<open>Files\<close>

type_synonym path = "string list"

record stored_file =
  sf_data :: bytes
  sf_mtime :: int

type_synonym disk = "path \<Rightarrow> stored_file option"

text \<open>\<open>PathBuf::with_extension\<close>: what follows the last dot of the file name is replaced.\<close>

definition file_stem :: "string \<Rightarrow> string" where
  "file_stem name =
     (let parts = split_on CHR ''.'' name; stem = join_with ''.'' (butlast parts) in
      if length parts = 1 \<or> stem = [] then name else stem)"

definition with_extension :: "path \<Rightarrow> string \<Rightarrow> path" where
  "with_extension p ext = butlast p @ [file_stem (last p) @ ''.'' @ ext]"

datatype system_call =
    Create_File path
  | Write_All path bytes
  | Rename path path
  | Remove_File path

text \<open>The kernel's answer. A write that fails has put some of its bytes on the disk.\<close>

datatype answer = Done | Failed nat

fun perform :: "system_call \<Rightarrow> answer \<Rightarrow> int \<Rightarrow> disk \<Rightarrow> disk \<times> bool" where
  "perform (Create_File p) Done now d = (d(p \<mapsto> \<lparr>sf_data = [], sf_mtime = now\<rparr>), True)"
| "perform (Create_File p) (Failed n) now d = (d, False)"
| "perform (Write_All p bs) r now d =
     (case d p of
        None \<Rightarrow> d
      | Some f \<Rightarrow> d(p \<mapsto> \<lparr>sf_data = sf_data f @ (case r of Done \<Rightarrow> bs | Failed n \<Rightarrow> take n bs),
          sf_mtime = now\<rparr>),
      r = Done)"
| "perform (Rename p q) Done now d =
     (case d p of None \<Rightarrow> (d, False) | Some f \<Rightarrow> (d(p := None, q \<mapsto> f), True))"
| "perform (Rename p q) (Failed n) now d = (d, False)"
| "perform (Remove_File p) Done now d = (d(p := None), True)"
| "perform (Remove_File p) (Failed n) now d = (d, False)"

section \<open>The transform cache\<close>

definition DEFAULT_CACHE_TTL_SECONDS :: nat where "DEFAULT_CACHE_TTL_SECONDS = 3600"
definition EVICTION_INTERVAL_SECS :: nat where "EVICTION_INTERVAL_SECS = 60"
definition ABANDONED_TEMP_FILE_SECS :: nat where "ABANDONED_TEMP_FILE_SECS = DEFAULT_CACHE_TTL_SECONDS"

abbreviation nanos :: int where "nanos \<equiv> 1000000000"

record transform_cache =
  tc_root :: path
  tc_ttl :: int
  tc_max_bytes :: nat
  tc_last_eviction_secs :: nat

definition cache_new :: "path \<Rightarrow> transform_cache" where
  "cache_new dir = \<lparr>tc_root = dir, tc_ttl = int DEFAULT_CACHE_TTL_SECONDS * nanos, tc_max_bytes = 0,
     tc_last_eviction_secs = 0\<rparr>"

text \<open>A key is 64 hexadecimal digits, so its slices are in range.\<close>

definition shard_path :: "path \<Rightarrow> string \<Rightarrow> path" where
  "shard_path dir key =
     dir @ [take 2 key, take 2 (drop 2 key), take 2 (drop 4 key), key]"

definition entry_path :: "transform_cache \<Rightarrow> string \<Rightarrow> path" where
  "entry_path c key = shard_path (tc_root c) key"

datatype cache_lookup =
    Hit media_type bytes int "string list"
  | Miss

text \<open>\<open>mtime.elapsed()\<close>: an error when the file is newer than the clock.\<close>

definition file_age :: "int \<Rightarrow> stored_file \<Rightarrow> int option" where
  "file_age now f = (if sf_mtime f \<le> now then Some (now - sf_mtime f) else None)"

definition flatten_warning :: "bytes \<Rightarrow> bytes" where
  "flatten_warning w = map (\<lambda>b. if b = 9 \<or> b = 10 \<or> b = 13 then 32 else b) w"

definition entry_header :: "media_type \<Rightarrow> string list \<Rightarrow> bytes" where
  "entry_header mt warnings =
     ascii (media_name mt) @ concat (map (\<lambda>w. 9 # flatten_warning (ascii w)) warnings) @ [10]"

text \<open>The header of an entry: \<open>None\<close> is an entry the lookup calls corrupted.\<close>

definition parse_entry :: "bytes \<Rightarrow> (media_type \<times> string list \<times> bytes) option" where
  "parse_entry data =
     (if 10 \<notin> set data then None
      else Option.bind (str_from_utf8 (takeWhile (\<lambda>b. b \<noteq> 10) data)) (\<lambda>header.
        case split_on CHR 0x09 header of
          name # warnings \<Rightarrow>
            (case media_from_str name of
               Ok mt \<Rightarrow> Some (mt, warnings, tl (dropWhile (\<lambda>b. b \<noteq> 10) data)) | _ \<Rightarrow> None)
        | [] \<Rightarrow> None))"

text \<open>
  What the kernel answers to the open, to the read, and to the removal of a corrupted entry.
  A read that fails is treated as corruption.
\<close>

record lookup_io =
  io_open :: bool
  io_read :: bool
  io_remove :: answer

definition remove_corrupted :: "answer \<Rightarrow> int \<Rightarrow> path \<Rightarrow> disk \<Rightarrow> disk" where
  "remove_corrupted r now p d = fst (perform (Remove_File p) r now d)"

definition cache_get ::
  "transform_cache \<Rightarrow> lookup_io \<Rightarrow> int \<Rightarrow> string \<Rightarrow> disk \<Rightarrow> cache_lookup \<times> disk" where
  "cache_get c io now key d =
     (let p = entry_path c key in
      case d p of
        None \<Rightarrow> (Miss, d)
      | Some f \<Rightarrow>
          if \<not> io_open io then (Miss, d)
          else case file_age now f of
              None \<Rightarrow> (Miss, d)
            | Some age \<Rightarrow>
                if tc_ttl c < age then (Miss, d)
                else if \<not> io_read io then (Miss, remove_corrupted (io_remove io) now p d)
                else case parse_entry (sf_data f) of
                    None \<Rightarrow> (Miss, remove_corrupted (io_remove io) now p d)
                  | Some (mt, warnings, body) \<Rightarrow> (Hit mt body age warnings, d))"

section \<open>Writing an entry\<close>

definition unique_tmp_suffix :: "nat \<Rightarrow> nat \<Rightarrow> string" where
  "unique_tmp_suffix pid seq = ''tmp.'' @ show_nat pid @ ''.'' @ show_nat seq"

definition write_calls :: "path \<Rightarrow> path \<Rightarrow> bytes list \<Rightarrow> system_call list" where
  "write_calls p tmp parts = Create_File tmp # map (Write_All tmp) parts @ [Rename tmp p]"

text \<open>
  The calls of a write in order; the first that fails ends the write, and the temporary file is
  removed. The answers are the kernel's, one for each call that is made; a process that is
  killed gets no more of them.
\<close>

fun run_writer :: "path \<Rightarrow> system_call list \<Rightarrow> answer list \<Rightarrow> int \<Rightarrow> disk \<Rightarrow> disk \<times> bool" where
  "run_writer tmp [] rs now d = (d, True)"
| "run_writer tmp (call # calls) [] now d = (d, False)"
| "run_writer tmp (call # calls) (r # rs) now d =
     (let (d', ok) = perform call r now d in
      if ok then run_writer tmp calls rs now d'
      else (case rs of [] \<Rightarrow> d' | r' # _ \<Rightarrow> fst (perform (Remove_File tmp) r' now d'), False))"

section \<open>Eviction\<close>

text \<open>
  What a walk of the directory finds: a directory that can be read or not, a regular file with
  its length and modification time when its metadata can be read, or something else.
\<close>

datatype fs_node =
    Directory "fs_node list option"
  | Regular path "(nat \<times> int) option"
  | Special

record cache_entry =
  ce_path :: path
  ce_size :: nat
  ce_mtime :: nat

definition is_temp :: "path \<Rightarrow> bool" where
  "is_temp p \<longleftrightarrow> find_sub (last p) ''.tmp.'' \<noteq> None"

text \<open>A time before the epoch counts as the epoch, which is what \<open>nat\<close> makes of it.\<close>

definition collect_file :: "int \<Rightarrow> path \<Rightarrow> (nat \<times> int) option \<Rightarrow> cache_entry list \<times> path list" where
  "collect_file now p meta =
     (case meta of
        None \<Rightarrow> ([], [])
      | Some (n, mtime) \<Rightarrow>
          if is_temp p then
            (if mtime \<le> now \<and> int ABANDONED_TEMP_FILE_SECS < (now - mtime) div nanos then ([], [p]) else ([], []))
          else ([\<lparr>ce_path = p, ce_size = n, ce_mtime = nat mtime\<rparr>], []))"

fun collect_entries :: "int \<Rightarrow> fs_node \<Rightarrow> cache_entry list \<times> path list" where
  "collect_entries now (Directory None) = ([], [])"
| "collect_entries now (Directory (Some nodes)) =
     (concat (map (\<lambda>n. fst (collect_entries now n)) nodes),
      concat (map (\<lambda>n. snd (collect_entries now n)) nodes))"
| "collect_entries now (Regular p meta) = collect_file now p meta"
| "collect_entries now Special = ([], [])"

text \<open>The loop over the sorted entries; \<open>removes p\<close> is whether the file can be removed.\<close>

fun evict_entries :: "nat \<Rightarrow> (path \<Rightarrow> bool) \<Rightarrow> cache_entry list \<Rightarrow> nat \<Rightarrow> cache_entry list" where
  "evict_entries max_bytes removes [] current = []"
| "evict_entries max_bytes removes (e # es) current =
     (if current \<le> max_bytes then []
      else if removes (ce_path e) then e # evict_entries max_bytes removes es (current - ce_size e)
      else evict_entries max_bytes removes es current)"

definition total_size :: "cache_entry list \<Rightarrow> nat" where
  "total_size es = sum_list (map ce_size es)"

definition remove_all :: "path list \<Rightarrow> disk \<Rightarrow> disk" where
  "remove_all ps d = (\<lambda>p. if p \<in> set ps then None else d p)"

definition evict_to_limit :: "transform_cache \<Rightarrow> (path \<Rightarrow> bool) \<Rightarrow> int \<Rightarrow> fs_node \<Rightarrow> disk \<Rightarrow> disk" where
  "evict_to_limit c removes now dir d =
     (let (entries, orphans) = collect_entries now dir;
          d1 = remove_all (filter removes orphans) d;
          total = total_size entries in
      if total \<le> tc_max_bytes c then d1
      else remove_all (map ce_path (evict_entries (tc_max_bytes c) removes (sort_key ce_mtime entries) total)) d1)"

text \<open>\<open>saturating_sub\<close> is subtraction on natural numbers.\<close>

definition maybe_evict :: "transform_cache \<Rightarrow> (path \<Rightarrow> bool) \<Rightarrow> int \<Rightarrow> fs_node \<Rightarrow> disk \<Rightarrow> transform_cache \<times> disk" where
  "maybe_evict c removes now dir d =
     (let now_secs = nat (now div nanos) in
      if tc_max_bytes c = 0 then (c, d)
      else if now_secs - tc_last_eviction_secs c < EVICTION_INTERVAL_SECS then (c, d)
      else (c\<lparr>tc_last_eviction_secs := now_secs\<rparr>, evict_to_limit c removes now dir d))"

text \<open>
  The write of a transform. \<open>made_parent\<close> is the answer to \<open>create_dir_all\<close>, and \<open>walk\<close> is what the
  scan finds on the disk it is given.
\<close>

definition cache_put ::
  "transform_cache \<Rightarrow> bool \<Rightarrow> string \<Rightarrow> answer list \<Rightarrow> (path \<Rightarrow> bool) \<Rightarrow> (disk \<Rightarrow> fs_node) \<Rightarrow> int \<Rightarrow>
    string \<Rightarrow> media_type \<Rightarrow> bytes \<Rightarrow> string list \<Rightarrow> disk \<Rightarrow> transform_cache \<times> disk" where
  "cache_put c made_parent suffix rs removes walk now key mt body warnings d =
     (let p = entry_path c key; tmp = with_extension p suffix in
      if \<not> made_parent then (c, d)
      else let (d', ok) = run_writer tmp (write_calls p tmp [entry_header mt warnings, body]) rs now d in
        if ok then maybe_evict c removes now (walk d') d' else (c, d'))"

section \<open>The origin cache\<close>

record origin_cache =
  oc_root :: path
  oc_ttl :: int

definition origin_new :: "path \<Rightarrow> origin_cache" where
  "origin_new cache_root =
     \<lparr>oc_root = cache_root @ [''origin''], oc_ttl = int DEFAULT_CACHE_TTL_SECONDS * nanos\<rparr>"

definition origin_entry_path ::
  "(bytes \<Rightarrow> bytes) \<Rightarrow> (bytes \<Rightarrow> string) \<Rightarrow> origin_cache \<Rightarrow> string \<Rightarrow> string \<Rightarrow> path" where
  "origin_entry_path sha256 hex_encode c namespace url =
     shard_path (oc_root c) (hex_encode (sha256 (ascii namespace @ ascii '':'' @ ascii url)))"

definition origin_get ::
  "(bytes \<Rightarrow> bytes) \<Rightarrow> (bytes \<Rightarrow> string) \<Rightarrow> origin_cache \<Rightarrow> lookup_io \<Rightarrow> int \<Rightarrow> string \<Rightarrow> string \<Rightarrow> disk \<Rightarrow> bytes option"
where
  "origin_get sha256 hex_encode c io now namespace url d =
     (case d (origin_entry_path sha256 hex_encode c namespace url) of
        None \<Rightarrow> None
      | Some f \<Rightarrow>
          if \<not> io_open io then None
          else case file_age now f of
              None \<Rightarrow> None
            | Some age \<Rightarrow> if oc_ttl c < age \<or> \<not> io_read io then None else Some (sf_data f))"

definition origin_put ::
  "(bytes \<Rightarrow> bytes) \<Rightarrow> (bytes \<Rightarrow> string) \<Rightarrow> origin_cache \<Rightarrow> bool \<Rightarrow> string \<Rightarrow> answer list \<Rightarrow> int \<Rightarrow>
    string \<Rightarrow> string \<Rightarrow> bytes \<Rightarrow> disk \<Rightarrow> disk" where
  "origin_put sha256 hex_encode c made_parent suffix rs now namespace url body d =
     (let p = origin_entry_path sha256 hex_encode c namespace url; tmp = with_extension p suffix in
      if made_parent then fst (run_writer tmp (write_calls p tmp [body]) rs now d) else d)"

section \<open>The answer to a hit\<close>

definition into_hit_response ::
  "(bytes \<Rightarrow> bytes) \<Rightarrow> (bytes \<Rightarrow> string) \<Rightarrow> cache_lookup \<Rightarrow> http_request \<Rightarrow> image_response_policy \<Rightarrow> bool \<Rightarrow>
    public_cache_control \<Rightarrow> headers \<Rightarrow> http_response option" where
  "into_hit_response sha256 hex_encode lookup request policy accept_may_vary cc custom =
     (case lookup of
        Miss \<Rightarrow> None
      | Hit mt body age warnings \<Rightarrow>
          (let etag = build_image_etag sha256 hex_encode body;
               hs = build_image_response_headers mt etag policy accept_may_vary CacheHit cc custom @
                 [(''Age'', show_nat (nat (age div nanos)))] in
           if policy = PublicGet \<and> if_none_match_matches (header_value (hr_headers request) ''if-none-match'') etag
           then Some (response_empty ''304 Not Modified'' hs)
           else Some (response_binary ''200 OK'' (as_mime mt) (push_warning_headers hs warnings) body)))"

text \<open>The lookup before the source is read: only for a versioned source and a chosen format.\<close>

definition try_versioned_cache_lookup ::
  "(bytes \<Rightarrow> bytes) \<Rightarrow> (bytes \<Rightarrow> string) \<Rightarrow> (float_val \<Rightarrow> string) \<Rightarrow> string option \<Rightarrow> transform_options \<Rightarrow>
    http_request \<Rightarrow> image_response_policy \<Rightarrow> path option \<Rightarrow> public_cache_control \<Rightarrow> headers \<Rightarrow> string option \<Rightarrow>
    lookup_io \<Rightarrow> int \<Rightarrow> disk \<Rightarrow> http_response option \<times> disk" where
  "try_versioned_cache_lookup sha256 hex_encode show_f32 versioned_hash o' request policy cache_root cc custom wm io now d =
     (case (versioned_hash, cache_root, opt_format o') of
        (Some source_hash, Some dir, Some _) \<Rightarrow>
          (let key = compute_cache_key sha256 hex_encode show_f32 source_hash o' wm;
               (lookup, d') = cache_get (cache_new dir) io now key d in
           (into_hit_response sha256 hex_encode lookup request policy False cc custom, d'))
      | _ \<Rightarrow> (None, d))"

section \<open>An entry reads back\<close>

text \<open>One character of a text: the shape of its lead byte and of what follows it.\<close>

fun utf8_char :: "bytes \<Rightarrow> bool" where
  "utf8_char [a] \<longleftrightarrow> a < 0x80"
| "utf8_char [a, b] \<longleftrightarrow> 0xC2 \<le> a \<and> a \<le> 0xDF \<and> cont_byte b"
| "utf8_char [a, b, c] \<longleftrightarrow> 0xE0 \<le> a \<and> a \<le> 0xEF \<and> second_byte_ok a b \<and> cont_byte c"
| "utf8_char [a, b, c, d] \<longleftrightarrow> 0xF0 \<le> a \<and> a \<le> 0xF4 \<and> second_byte_ok a b \<and> cont_byte c \<and> cont_byte d"
| "utf8_char _ \<longleftrightarrow> False"

lemma lead_bytes:
  fixes a :: u8
  shows "0xC2 \<le> a \<Longrightarrow> \<not> a < 0x80" "0xE0 \<le> a \<Longrightarrow> \<not> a < 0x80 \<and> \<not> a \<le> 0xDF"
    "0xF0 \<le> a \<Longrightarrow> \<not> a < 0x80 \<and> \<not> a \<le> 0xDF \<and> \<not> a \<le> 0xEF"
  by (auto simp: word_le_nat_alt word_less_nat_alt)

lemma utf8_valid_char: "utf8_char c \<Longrightarrow> utf8_valid (c @ r) = utf8_valid r"
  by (cases c rule: utf8_char.cases) (auto simp: lead_bytes)

lemma utf8_valid_split:
  "utf8_valid (a # bs) \<Longrightarrow> \<exists>c r. a # bs = c @ r \<and> c \<noteq> [] \<and> utf8_char c \<and> utf8_valid r"
proof -
  assume v: "utf8_valid (a # bs)"
  consider "a < 0x80" | "\<not> a < 0x80" "0xC2 \<le> a" "a \<le> 0xDF"
    | "\<not> a < 0x80" "\<not> (0xC2 \<le> a \<and> a \<le> 0xDF)" "0xE0 \<le> a" "a \<le> 0xEF"
    | "\<not> a < 0x80" "\<not> (0xC2 \<le> a \<and> a \<le> 0xDF)" "\<not> (0xE0 \<le> a \<and> a \<le> 0xEF)"
    by blast
  then show ?thesis
  proof cases
    case 1
    then show ?thesis using v by (intro exI [of _ "[a]"] exI [of _ bs]) simp
  next
    case 2
    then obtain b r where "bs = b # r" "cont_byte b" "utf8_valid r" using v by (auto split: list.splits)
    then show ?thesis using 2 by (intro exI [of _ "[a, b]"] exI [of _ r]) simp
  next
    case 3
    then obtain b c r where "bs = b # c # r" "second_byte_ok a b" "cont_byte c" "utf8_valid r"
      using v by (auto split: list.splits)
    then show ?thesis using 3 by (intro exI [of _ "[a, b, c]"] exI [of _ r]) simp
  next
    case 4
    then have four: "0xF0 \<le> a \<and> a \<le> 0xF4 \<and> (case bs of b # c # d # r \<Rightarrow>
           second_byte_ok a b \<and> cont_byte c \<and> cont_byte d \<and> utf8_valid r | _ \<Rightarrow> False)"
      using v unfolding utf8_valid.simps by presburger
    then obtain b c d r where "bs = b # c # d # r" "second_byte_ok a b" "cont_byte c" "cont_byte d"
        "utf8_valid r"
      by (auto split: list.splits)
    moreover have "0xF0 \<le> a" "a \<le> 0xF4" using four by blast+
    ultimately have "a # bs = [a, b, c, d] @ r \<and> utf8_char [a, b, c, d] \<and> utf8_valid r" by simp
    then show ?thesis by blast
  qed
qed

lemma utf8_induct [consumes 1, case_names Nil char]:
  assumes "utf8_valid bs" and nil: "P []"
    and char: "\<And>c r. utf8_char c \<Longrightarrow> utf8_valid r \<Longrightarrow> P r \<Longrightarrow> P (c @ r)"
  shows "P bs"
  using assms(1)
proof (induction bs rule: length_induct)
  case (1 bs)
  show ?case
  proof (cases bs)
    case Nil
    then show ?thesis using nil by simp
  next
    case (Cons a xs)
    with 1(2) utf8_valid_split obtain c r where "bs = c @ r" "c \<noteq> []" "utf8_char c" "utf8_valid r" by metis
    then show ?thesis using 1(1) char by simp
  qed
qed

lemma utf8_append: "utf8_valid xs \<Longrightarrow> utf8_valid ys \<Longrightarrow> utf8_valid (xs @ ys)"
  by (induction rule: utf8_induct) (simp_all add: utf8_valid_char)

lemma cont_byte_high: "cont_byte b \<Longrightarrow> 0x80 \<le> b" "second_byte_ok a b \<Longrightarrow> 0x80 \<le> b"
  by (auto simp: cont_byte_def second_byte_ok_def split: if_splits elim: order_trans [rotated])

definition flat_byte :: "u8 \<Rightarrow> u8" where
  "flat_byte b = (if b = 9 \<or> b = 10 \<or> b = 13 then 32 else b)"

lemma flatten_map: "flatten_warning w = map flat_byte w"
  by (simp add: flatten_warning_def flat_byte_def)

lemma flat_byte_high: "0x80 \<le> b \<Longrightarrow> flat_byte b = b"
  by (auto simp: flat_byte_def)

lemma flat_byte_low: "flat_byte b < 0x80 \<longleftrightarrow> b < 0x80" "flat_byte b \<noteq> 9" "flat_byte b \<noteq> 10"
  by (auto simp: flat_byte_def)

lemma flatten_char: "utf8_char c \<Longrightarrow> utf8_char (flatten_warning c)"
proof -
  have lead: "0xC2 \<le> a \<Longrightarrow> flat_byte a = a" "0xE0 \<le> a \<Longrightarrow> flat_byte a = a" "0xF0 \<le> a \<Longrightarrow> flat_byte a = a" for a
    using lead_bytes [of a] by (auto intro: flat_byte_high simp: not_less)
  have cont: "cont_byte b \<Longrightarrow> flat_byte b = b" "second_byte_ok a b \<Longrightarrow> flat_byte b = b" for a b
    using cont_byte_high by (auto intro: flat_byte_high)
  assume "utf8_char c"
  then show ?thesis unfolding flatten_map
    by (cases c rule: utf8_char.cases) (auto simp: lead cont flat_byte_low)
qed

lemma utf8_flatten: "utf8_valid w \<Longrightarrow> utf8_valid (flatten_warning w)"
proof (induction rule: utf8_induct)
  case (char c r)
  then show ?case using flatten_char by (simp add: flatten_map utf8_valid_char)
qed (simp add: flatten_map)

text \<open>A warning as the entry keeps it.\<close>

definition flat_text :: "string \<Rightarrow> string" where
  "flat_text w = str_of_bytes (flatten_warning (ascii w))"

definition header_bytes :: "media_type \<Rightarrow> string list \<Rightarrow> bytes" where
  "header_bytes mt ws = ascii (media_name mt) @ concat (map (\<lambda>w. 9 # flatten_warning (ascii w)) ws)"

lemma entry_header_eq: "entry_header mt ws = header_bytes mt ws @ [10]"
  by (simp add: entry_header_def header_bytes_def)

lemma ascii_media: "list_all (\<lambda>b. b < 0x80 \<and> b \<noteq> 10) (ascii (media_name mt))"
  by (cases mt) (simp_all add: ascii_def)

lemma header_no_newline: "10 \<notin> set (header_bytes mt ws)"
  using ascii_media [of mt] by (auto simp: header_bytes_def flatten_map flat_byte_low list_all_iff dest: sym)

lemma header_utf8: "list_all (\<lambda>w. utf8_valid (ascii w)) ws \<Longrightarrow> utf8_valid (header_bytes mt ws)"
proof -
  assume ws: "list_all (\<lambda>w. utf8_valid (ascii w)) ws"
  have tab: "utf8_valid (9 # xs) = utf8_valid xs" for xs :: bytes
    using utf8_valid_char [of "[9]" xs] by simp
  have "utf8_valid (concat (map (\<lambda>w. 9 # flatten_warning (ascii w)) ws))"
    using ws by (induction ws) (auto simp: tab intro: utf8_append utf8_flatten simp del: utf8_valid.simps(2))
  moreover have "utf8_valid (ascii (media_name mt))"
    using ascii_media by (intro utf8_valid_ascii) (simp add: list_all_iff)
  ultimately show ?thesis unfolding header_bytes_def by (rule utf8_append [rotated])
qed

lemma str_append: "str_of_bytes (a @ b) = str_of_bytes a @ str_of_bytes b"
  by (simp add: str_of_bytes_def)

lemma str_tab: "str_of_bytes (9 # b) = CHR 0x09 # str_of_bytes b"
proof -
  have "char_of (9 :: nat) = CHR 0x09" by code_simp
  then show ?thesis by (simp add: str_of_bytes_def)
qed

lemma header_split: "split_on CHR 0x09 (str_of_bytes (header_bytes mt ws)) = media_name mt # map flat_text ws"
proof -
  have name: "CHR 0x09 \<notin> set (media_name mt)" by (cases mt) simp_all
  have flat: "CHR 0x09 \<notin> set (flat_text w)" for w
  proof
    assume "CHR 0x09 \<in> set (flat_text w)"
    then obtain b where "b \<in> set (ascii w)" "char_of (unat (flat_byte b)) = CHR 0x09"
      by (auto simp: flat_text_def str_of_bytes_def flatten_map)
    then have "unat (flat_byte b) = code CHR 0x09" by (metis code_char_of u8_less)
    then have "unat (flat_byte b) = unat (9 :: u8)" by simp
    then have "flat_byte b = 9" unfolding unat_inject .
    then show False using flat_byte_low(2) by simp
  qed
  have split: "split_on CHR 0x09 (x @ str_of_bytes (concat (map (\<lambda>w. 9 # flatten_warning (ascii w)) ws))) =
      x # map flat_text ws" if "CHR 0x09 \<notin> set x" for x
    using that
  proof (induction ws arbitrary: x)
    case Nil
    then show ?case by (simp add: str_of_bytes_def split_on_no_sep)
  next
    case (Cons w ws)
    have "str_of_bytes (concat (map (\<lambda>w. 9 # flatten_warning (ascii w)) (w # ws))) =
        CHR 0x09 # flat_text w @ str_of_bytes (concat (map (\<lambda>w. 9 # flatten_warning (ascii w)) ws))"
      by (simp add: str_tab str_append flat_text_def)
    then show ?case using Cons.IH [OF flat [of w]] split_on_append_sep [OF Cons.prems] by simp
  qed
  show ?thesis using split [OF name] by (simp add: header_bytes_def str_append)
qed

lemma parse_written:
  assumes "list_all (\<lambda>w. utf8_valid (ascii w)) ws"
  shows "parse_entry (entry_header mt ws @ body) = Some (mt, map flat_text ws, body)"
proof -
  have "takeWhile (\<lambda>b. b \<noteq> 10) (header_bytes mt ws @ 10 # body) = header_bytes mt ws"
    "dropWhile (\<lambda>b. b \<noteq> 10) (header_bytes mt ws @ 10 # body) = 10 # body"
    using header_no_newline [of mt ws]
    by (subst takeWhile_append2 dropWhile_append2, auto)+
  then show ?thesis using header_utf8 [OF assms] header_split [of mt ws]
    by (simp add: parse_entry_def entry_header_eq str_from_utf8_def media.roundtrip)
qed

text \<open>What a write leaves on the disk when every call succeeds, and what a failed one leaves.\<close>

lemma run_writes:
  "run_writer tmp (map (Write_All tmp) parts @ calls) (replicate (length parts) Done @ rs) now
      (d(tmp \<mapsto> \<lparr>sf_data = x, sf_mtime = now\<rparr>)) =
    run_writer tmp calls rs now (d(tmp \<mapsto> \<lparr>sf_data = x @ concat parts, sf_mtime = now\<rparr>))"
  by (induction parts arbitrary: x) simp_all

lemma write_completes:
  assumes "p \<noteq> tmp"
  shows "run_writer tmp (write_calls p tmp parts) (Done # replicate (length parts) Done @ [Done]) now d =
    (d(tmp := None, p \<mapsto> \<lparr>sf_data = concat parts, sf_mtime = now\<rparr>), True)"
  unfolding write_calls_def by (simp add: run_writes assms fun_upd_twist)

text \<open>
  The temporary file of a path that is not one: its name is told from every entry, and from
  the temporary file of every other write, by its end.
\<close>

lemma find_sub_inside: "p \<noteq> [] \<Longrightarrow> find_sub (a @ p @ b) p \<noteq> None"
  using find_sub_None [of "a @ p @ b" p "length a"] by auto

lemma temp_is_temp [simp]: "is_temp (with_extension p (unique_tmp_suffix pid n))"
  using find_sub_inside [of "''.tmp.''" "file_stem (last p)" "show_nat pid @ ''.'' @ show_nat n"]
  by (simp add: is_temp_def with_extension_def unique_tmp_suffix_def)

lemma find_sub_chars: "find_sub s p \<noteq> None \<Longrightarrow> p \<noteq> [] \<Longrightarrow> set p \<subseteq> set s"
  by (metis find_sub_Some option.exhaust set_drop_subset set_append starts_withE sup_ge1 subset_trans)

lemma plain_not_temp: "CHR ''.'' \<notin> set (last p) \<Longrightarrow> \<not> is_temp p"
  using find_sub_chars [of "last p" "''.tmp.''"]
  by (cases "find_sub (last p) ''.tmp.''") (auto simp: is_temp_def)

lemma last_split: "CHR ''.'' \<notin> set t \<Longrightarrow> last (split_on CHR ''.'' (s @ CHR ''.'' # t)) = t"
proof (induction s)
  case (Cons c s)
  have "split_on CHR ''.'' (s @ CHR ''.'' # t) \<noteq> [t]"
  proof
    assume "split_on CHR ''.'' (s @ CHR ''.'' # t) = [t]"
    then have "t = s @ CHR ''.'' # t"
      using join_split_on [of "CHR ''.''" "s @ CHR ''.'' # t"] by simp
    then have "length t = length (s @ CHR ''.'' # t)" by (rule arg_cong)
    then show False by simp
  qed
  with Cons show ?case by (cases "split_on CHR ''.'' (s @ CHR ''.'' # t)") auto
qed (simp add: split_on_no_sep)

lemma show_nat_no_dot: "CHR ''.'' \<notin> set (show_nat n)"
  using show_nat_digits [of n] by (auto simp: list_all_iff is_ascii_digit_def)

lemma temp_inject:
  assumes "with_extension p (unique_tmp_suffix pid n) = with_extension q (unique_tmp_suffix pid k)"
  shows "n = k"
proof -
  have "last (split_on CHR ''.'' (last (with_extension r (unique_tmp_suffix pid i)))) = show_nat i" for r i
    using last_split [OF show_nat_no_dot, of "file_stem (last r) @ ''.tmp.'' @ show_nat pid" i]
    by (simp add: with_extension_def unique_tmp_suffix_def)
  then have "show_nat n = show_nat k" using assms by metis
  then show ?thesis by simp
qed

definition hex_key :: "string \<Rightarrow> bool" where
  "hex_key key \<longleftrightarrow> length key = 64 \<and> list_all is_ascii_hexdigit key"

lemma shard_path_last [simp]: "last (shard_path dir key) = key"
  by (simp add: shard_path_def)

lemma shard_not_temp: "hex_key key \<Longrightarrow> \<not> is_temp (shard_path dir key)"
  by (intro plain_not_temp) (auto simp: hex_key_def list_all_iff is_ascii_hexdigit_def hex_val_def)

lemma put_then_read:
  assumes "hex_key key" "tc_max_bytes c = 0" "list_all (\<lambda>w. utf8_valid (ascii w)) warnings"
    and "now \<le> later" "later - now \<le> tc_ttl r" "io_open io" "io_read io" "tc_root r = tc_root c"
    and put: "cache_put c True (unique_tmp_suffix pid seq) (replicate 4 Done) removes walk now key mt body warnings d = (c', d')"
  shows "c' = c \<and> cache_get r io later key d' = (Hit mt body (later - now) (map flat_text warnings), d')"
proof -
  let ?p = "entry_path c key" and ?tmp = "with_extension (entry_path c key) (unique_tmp_suffix pid seq)"
  have same: "entry_path r key = ?p" using assms(8) by (simp add: entry_path_def)
  have ne: "?p \<noteq> ?tmp"
    using shard_not_temp [OF assms(1)] temp_is_temp unfolding entry_path_def by metis
  have "run_writer ?tmp (write_calls ?p ?tmp [entry_header mt warnings, body]) (replicate 4 Done) now d =
      (d(?tmp := None, ?p \<mapsto> \<lparr>sf_data = entry_header mt warnings @ body, sf_mtime = now\<rparr>), True)"
    using write_completes [OF ne, of "[entry_header mt warnings, body]" now d] by (simp add: numeral_eq_Suc)
  then have "c' = c" "d' = d(?tmp := None, ?p \<mapsto> \<lparr>sf_data = entry_header mt warnings @ body, sf_mtime = now\<rparr>)"
    using put assms(2) by (auto simp: cache_put_def Let_def maybe_evict_def)
  then show ?thesis using assms(3-7) by (simp add: cache_get_def same file_age_def parse_written Let_def)
qed

text \<open>
  A write whose system calls succeed is read back until it is older than the time to live:
  the same media type and bytes, and each warning as one line.
\<close>

theorem put_then_get:
  assumes "hex_key key" "tc_max_bytes c = 0" "list_all (\<lambda>w. utf8_valid (ascii w)) warnings"
    and "now \<le> later" "later - now \<le> tc_ttl c" "io_open io" "io_read io"
  shows "let (c', d') = cache_put c True (unique_tmp_suffix pid seq) (replicate 4 Done) removes walk now
        key mt body warnings d in
     cache_get c' io later key d' = (Hit mt body (later - now) (map flat_text warnings), d')"
proof -
  obtain c' d' where put: "cache_put c True (unique_tmp_suffix pid seq) (replicate 4 Done) removes walk now key mt body
      warnings d = (c', d')" by fastforce
  with put_then_read [OF assms refl put] show ?thesis by simp
qed

definition sample_key :: string where "sample_key = replicate 64 CHR ''a''"

theorem put_then_get_witness:
  "let (c', d') = cache_put (cache_new [''r'']) True (unique_tmp_suffix 7 0) (replicate 4 Done) (\<lambda>_. True)
       (\<lambda>_. Special) 5 sample_key Png [1, 2] [''w''] (\<lambda>_. None) in
     cache_get c' \<lparr>io_open = True, io_read = True, io_remove = Done\<rparr> 9 sample_key d' =
       (Hit Png [1, 2] (9 - 5) (map flat_text [''w'']), d')"
proof -
  have "hex_key sample_key" by code_simp
  then show ?thesis
    by (intro put_then_get)
      (simp_all add: cache_new_def DEFAULT_CACHE_TTL_SECONDS_def ascii_def)
qed

section \<open>What a scan removes\<close>

lemma evict_prefix:
  "\<exists>k \<le> length F. evict_entries m removes es cur = take k F \<and>
     (cur - total_size (take k F) \<le> m \<or> k = length F) \<and> (\<forall>j < k. m < cur - total_size (take j F))"
  if "F = filter (\<lambda>e. removes (ce_path e)) es" for F
  using that
proof (induction es arbitrary: cur F)
  case (Cons e es)
  show ?case
  proof (cases "cur \<le> m")
    case True
    then show ?thesis by (intro exI [of _ 0]) (simp add: total_size_def)
  next
    case big: False
    show ?thesis
    proof (cases "removes (ce_path e)")
      case True
      then obtain G where F: "F = e # G" "G = filter (\<lambda>e. removes (ce_path e)) es" using Cons.prems by simp
      obtain k where k: "k \<le> length G" "evict_entries m removes es (cur - ce_size e) = take k G"
        "cur - ce_size e - total_size (take k G) \<le> m \<or> k = length G"
        "\<forall>j < k. m < cur - ce_size e - total_size (take j G)"
        using Cons.IH [OF F(2)] by blast
      have "m < cur - total_size (take j F)" if "j < Suc k" for j
        using that big k(4) by (cases j) (auto simp: F(1) total_size_def)
      then show ?thesis using k big True
        by (intro exI [of _ "Suc k"]) (auto simp: F(1) total_size_def)
    next
      case False
      then show ?thesis using Cons big by simp
    qed
  qed
qed (simp add: total_size_def)

text \<open>The regular files a walk meets whose metadata can be read: path, length, modification time.\<close>

fun readable_files :: "fs_node \<Rightarrow> (path \<times> nat \<times> int) list" where
  "readable_files (Directory None) = []"
| "readable_files (Directory (Some nodes)) = concat (map readable_files nodes)"
| "readable_files (Regular p None) = []"
| "readable_files (Regular p (Some (n, mtime))) = [(p, n, mtime)]"
| "readable_files Special = []"

text \<open>A temporary file nobody can still be writing: its last write is over an hour ago.\<close>

definition abandoned :: "int \<Rightarrow> int \<Rightarrow> bool" where
  "abandoned now mtime \<longleftrightarrow> (int ABANDONED_TEMP_FILE_SECS + 1) * nanos \<le> now - mtime"

lemma abandoned_iff:
  "abandoned now mtime \<longleftrightarrow> mtime \<le> now \<and> int ABANDONED_TEMP_FILE_SECS < (now - mtime) div nanos"
  unfolding abandoned_def ABANDONED_TEMP_FILE_SECS_def DEFAULT_CACHE_TTL_SECONDS_def by auto

lemma collected_files:
  "set (fst (collect_entries now dir)) =
     (\<lambda>(p, n, mtime). \<lparr>ce_path = p, ce_size = n, ce_mtime = nat mtime\<rparr>) ` {f \<in> set (readable_files dir). \<not> is_temp (fst f)}"
  "set (snd (collect_entries now dir)) = fst ` {f \<in> set (readable_files dir). is_temp (fst f) \<and> abandoned now (snd (snd f))}"
proof (induction now dir rule: collect_entries.induct)
  case (2 now nodes)
  {
    case 1
    show ?case using 2 by (auto simp: image_iff) (metis+)
  next
    case 2
    show ?case using "2.IH" by (auto simp: image_iff)
  }
next
  case (3 now q meta)
  {
    case 1
    show ?case by (cases "is_temp q"; cases meta) (auto simp: collect_file_def image_iff split: if_splits)
  next
    case 2
    show ?case by (cases "is_temp q"; cases meta) (auto simp: collect_file_def abandoned_iff image_iff split: if_splits)
  }
qed auto

text \<open>
  C19. A scan of the directory tells its files apart by name and age: its entries are the files
  without a temporary name, and its orphans are the temporary files last written more than an hour
  ago, so that one written to within the last hour is never touched. It removes the orphans it
  can, and of the entries the oldest it can remove, no more of them than it takes to come under the budget,
  and all of them when they do not suffice.
\<close>

theorem eviction_removes_oldest:
  assumes "collect_entries now dir = (entries, orphans)"
    and "F = filter (\<lambda>e. removes (ce_path e)) (sort_key ce_mtime entries)"
  shows "\<exists>k \<le> length F.
     (\<forall>p. evict_to_limit c removes now dir d p =
       (if p \<in> set (filter removes orphans) \<union> ce_path ` set (take k F) then None else d p)) \<and>
     (total_size entries - total_size (take k F) \<le> tc_max_bytes c \<or> k = length F) \<and>
     (\<forall>j < k. tc_max_bytes c < total_size entries - total_size (take j F)) \<and>
     sorted (map ce_mtime F) \<and>
     set entries = (\<lambda>(p, n, mtime). \<lparr>ce_path = p, ce_size = n, ce_mtime = nat mtime\<rparr>) `
       {f \<in> set (readable_files dir). \<not> is_temp (fst f)} \<and>
     set orphans = fst ` {f \<in> set (readable_files dir). is_temp (fst f) \<and> abandoned now (snd (snd f))}"
proof -
  obtain k where k: "k \<le> length F"
    "evict_entries (tc_max_bytes c) removes (sort_key ce_mtime entries) (total_size entries) = take k F"
    "total_size entries - total_size (take k F) \<le> tc_max_bytes c \<or> k = length F"
    "\<forall>j < k. tc_max_bytes c < total_size entries - total_size (take j F)"
    using evict_prefix [OF assms(2)] by blast
  have "k = 0" if "total_size entries \<le> tc_max_bytes c"
    using k(4) that by (cases k) (auto simp: total_size_def)
  then have "evict_to_limit c removes now dir d p =
      (if p \<in> set (filter removes orphans) \<union> ce_path ` set (take k F) then None else d p)" for p
    by (auto simp: evict_to_limit_def assms(1) Let_def remove_all_def k(2))
  moreover have "sorted (map ce_mtime F)"
    unfolding assms(2) by (rule sorted_filter) (rule sorted_sort_key)
  moreover note collected_files [of now dir, unfolded assms(1) fst_conv snd_conv]
  ultimately show ?thesis using k(1,3,4) by (intro exI [of _ k]) simp
qed

definition sample_dir :: fs_node where
  "sample_dir = Directory (Some [Regular [''r'', ''a''] (Some (5, 2)), Regular [''r'', ''b''] (Some (5, 1))])"

theorem eviction_removes_oldest_witness:
  "evict_to_limit ((cache_new [''r''])\<lparr>tc_max_bytes := 5\<rparr>) (\<lambda>_. True) 9 sample_dir Map.empty [''r'', ''b''] = None"
proof -
  let ?a = "\<lparr>ce_path = [''r'', ''a''], ce_size = 5, ce_mtime = 2\<rparr>"
  let ?b = "\<lparr>ce_path = [''r'', ''b''], ce_size = 5, ce_mtime = 1\<rparr>"
  have walk: "collect_entries 9 sample_dir = ([?a, ?b], [])"
    by (simp add: sample_dir_def collect_file_def is_temp_def)
  have F: "[?b, ?a] = filter (\<lambda>e. True) (sort_key ce_mtime [?a, ?b])" by simp
  let ?c = "(cache_new [''r''])\<lparr>tc_max_bytes := 5\<rparr>"
  obtain k where k: "\<forall>p. evict_to_limit ?c (\<lambda>_. True) 9 sample_dir Map.empty p =
      (if p \<in> set (filter (\<lambda>_. True) []) \<union> ce_path ` set (take k [?b, ?a]) then None else Map.empty p)"
    "total_size [?a, ?b] - total_size (take k [?b, ?a]) \<le> tc_max_bytes ?c \<or> k = length [?b, ?a]"
    using eviction_removes_oldest [OF walk F] by blast
  have "k \<noteq> 0" using k(2) by (intro notI) (simp add: total_size_def)
  then have "?b \<in> set (take k [?b, ?a])" by (cases k) simp_all
  then have "ce_path ?b \<in> ce_path ` set (take k [?b, ?a])" by (rule imageI)
  then show ?thesis using k(1) by simp
qed

section \<open>Interleavings\<close>

text \<open>What a writer stores: a transform under its key, or the bytes of a fetch.\<close>

datatype stored =
    Transform string media_type bytes "string list"
  | Origin string bytes

fun stored_path :: "transform_cache \<Rightarrow> stored \<Rightarrow> path" where
  "stored_path c (Transform key mt body warnings) = entry_path c key"
| "stored_path c (Origin key body) = shard_path (oc_root (origin_new (tc_root c))) key"

fun stored_parts :: "stored \<Rightarrow> bytes list" where
  "stored_parts (Transform key mt body warnings) = [entry_header mt warnings, body]"
| "stored_parts (Origin key body) = [body]"

text \<open>A key is a digest in hexadecimal, and a warning is a text.\<close>

fun stored_ok :: "stored \<Rightarrow> bool" where
  "stored_ok (Transform key mt body warnings) \<longleftrightarrow>
     hex_key key \<and> list_all (\<lambda>w. utf8_valid (ascii w)) warnings"
| "stored_ok (Origin key body) \<longleftrightarrow> hex_key key"

text \<open>
  The state of a server process: the disk, the counter of temporary names, the writers with the
  calls they have left, and the stores that were begun.
\<close>

record cache_system =
  cs_disk :: disk
  cs_counter :: nat
  cs_writers :: "(path \<times> system_call list) list"
  cs_begun :: "stored list"

text \<open>The calls a writer has left after one of them was answered.\<close>

fun calls_left :: "path \<Rightarrow> system_call list \<Rightarrow> bool \<Rightarrow> system_call list" where
  "calls_left tmp (call # calls) ok =
     (if ok then calls else if call = Remove_File tmp then [] else [Remove_File tmp])"
| "calls_left tmp [] ok = []"

inductive cache_step :: "transform_cache \<Rightarrow> nat \<Rightarrow> cache_system \<Rightarrow> cache_system \<Rightarrow> bool"
  for c :: transform_cache and pid :: nat where
  begin_write:
    "stored_ok x \<Longrightarrow> p = stored_path c x \<Longrightarrow>
     tmp = with_extension p (unique_tmp_suffix pid (cs_counter s)) \<Longrightarrow>
     cache_step c pid s (s\<lparr>cs_counter := Suc (cs_counter s),
       cs_writers := (tmp, write_calls p tmp (stored_parts x)) # cs_writers s, cs_begun := x # cs_begun s\<rparr>)"
| write_call:
    "i < length (cs_writers s) \<Longrightarrow> cs_writers s ! i = (tmp, call # calls) \<Longrightarrow>
     perform call r now (cs_disk s) = (d', ok) \<Longrightarrow>
     cache_step c pid s (s\<lparr>cs_disk := d', cs_writers := (cs_writers s)[i := (tmp, calls_left tmp (call # calls) ok)]\<rparr>)"
| lookup:
    "cache_step c pid s (s\<lparr>cs_disk := snd (cache_get c io now key (cs_disk s))\<rparr>)"
| evict:
    "cache_step c pid s (s\<lparr>cs_disk := evict_to_limit c' removes now dir (cs_disk s)\<rparr>)"

definition cache_start :: "disk \<Rightarrow> cache_system" where
  "cache_start d = \<lparr>cs_disk = d, cs_counter = 0, cs_writers = [], cs_begun = []\<rparr>"

inductive reachable :: "transform_cache \<Rightarrow> nat \<Rightarrow> disk \<Rightarrow> cache_system \<Rightarrow> bool"
  for c :: transform_cache and pid :: nat and d0 :: disk where
  start: "reachable c pid d0 (cache_start d0)"
| step: "reachable c pid d0 s \<Longrightarrow> cache_step c pid s s' \<Longrightarrow> reachable c pid d0 s'"

text \<open>
  The invariant. A writer has begun a store; before its first call it relies on nothing, and
  after it the temporary file, when nobody removed it, holds what was written so far.
\<close>

definition holds_only :: "disk \<Rightarrow> path \<Rightarrow> bytes \<Rightarrow> bool" where
  "holds_only d p data \<longleftrightarrow> (\<forall>f. d p = Some f \<longrightarrow> sf_data f = data)"

definition calls_ok :: "disk \<Rightarrow> path \<Rightarrow> path \<Rightarrow> bytes list \<Rightarrow> system_call list \<Rightarrow> bool" where
  "calls_ok d tmp p parts calls \<longleftrightarrow>
     calls = [] \<or> calls = [Remove_File tmp] \<or> calls = write_calls p tmp parts \<or>
     (\<exists>written left. parts = written @ left \<and> calls = map (Write_All tmp) left @ [Rename tmp p] \<and>
        holds_only d tmp (concat written))"

definition writer_ok :: "transform_cache \<Rightarrow> nat \<Rightarrow> cache_system \<Rightarrow> path \<times> system_call list \<Rightarrow> bool" where
  "writer_ok c pid s w \<longleftrightarrow>
     (\<exists>x n. x \<in> set (cs_begun s) \<and> n < cs_counter s \<and>
        fst w = with_extension (stored_path c x) (unique_tmp_suffix pid n) \<and>
        calls_ok (cs_disk s) (fst w) (stored_path c x) (stored_parts x) (snd w))"

definition entries_whole :: "transform_cache \<Rightarrow> disk \<Rightarrow> cache_system \<Rightarrow> bool" where
  "entries_whole c d0 s \<longleftrightarrow>
     (\<forall>p f. cs_disk s p = Some f \<and> \<not> is_temp p \<longrightarrow>
        d0 p = Some f \<or> (\<exists>x \<in> set (cs_begun s). p = stored_path c x \<and> sf_data f = concat (stored_parts x)))"

definition cache_invariant :: "transform_cache \<Rightarrow> nat \<Rightarrow> disk \<Rightarrow> cache_system \<Rightarrow> bool" where
  "cache_invariant c pid d0 s \<longleftrightarrow>
     (\<forall>w \<in> set (cs_writers s). writer_ok c pid s w) \<and> distinct (map fst (cs_writers s)) \<and>
     (\<forall>x \<in> set (cs_begun s). stored_ok x) \<and> entries_whole c d0 s"

lemma stored_not_temp: "stored_ok x \<Longrightarrow> \<not> is_temp (stored_path c x)"
  by (cases x) (simp_all add: entry_path_def shard_not_temp)

lemma writer_ok_mono:
  assumes "writer_ok c pid s w" "set (cs_begun s) \<subseteq> set (cs_begun s')" "cs_counter s \<le> cs_counter s'"
    and "cs_disk s' (fst w) = cs_disk s (fst w) \<or> cs_disk s' (fst w) = None"
  shows "writer_ok c pid s' w"
proof -
  have kept: "calls_ok (cs_disk s) (fst w) p parts calls \<Longrightarrow> calls_ok (cs_disk s') (fst w) p parts calls" for p parts calls
  proof -
    have "holds_only (cs_disk s) (fst w) data \<Longrightarrow> holds_only (cs_disk s') (fst w) data" for data
      using assms(4) by (auto simp: holds_only_def)
    then show "calls_ok (cs_disk s) (fst w) p parts calls \<Longrightarrow> ?thesis" unfolding calls_ok_def by blast
  qed
  obtain x n where x: "x \<in> set (cs_begun s)" "n < cs_counter s"
    "fst w = with_extension (stored_path c x) (unique_tmp_suffix pid n)"
    "calls_ok (cs_disk s) (fst w) (stored_path c x) (stored_parts x) (snd w)"
    using assms(1) unfolding writer_ok_def by blast
  then show ?thesis using kept [OF x(4)] assms(2,3)
    unfolding writer_ok_def by (intro exI [of _ x] exI [of _ n]) auto
qed

lemma entries_whole_mono:
  assumes "entries_whole c d0 s" "set (cs_begun s) \<subseteq> set (cs_begun s')"
    and "\<And>p. cs_disk s' p = cs_disk s p \<or> cs_disk s' p = None"
  shows "entries_whole c d0 s'"
  using assms unfolding entries_whole_def by (metis option.distinct(1) subsetD)

lemma remove_corrupted_only: "remove_corrupted r now q d p = d p \<or> remove_corrupted r now q d p = None"
  by (cases r) (auto simp: remove_corrupted_def)

lemma lookup_only_removes:
  "snd (cache_get c io now key d) p = d p \<or> snd (cache_get c io now key d) p = None"
  using remove_corrupted_only
  by (auto simp: cache_get_def Let_def split: option.split)

lemma evict_only_removes:
  "evict_to_limit c removes now dir d p = d p \<or> evict_to_limit c removes now dir d p = None"
  by (simp add: evict_to_limit_def Let_def remove_all_def split: prod.split)

text \<open>One answered call of a writer keeps the writer and the entries in order.\<close>

lemma acting_writer:
  assumes w: "writer_ok c pid s (tmp, call # calls)" and p: "perform call r now (cs_disk s) = (d', ok)"
    and begun: "\<forall>x \<in> set (cs_begun s). stored_ok x" and whole: "entries_whole c d0 s"
    and s': "s' = s\<lparr>cs_disk := d', cs_writers := ws\<rparr>"
  shows "writer_ok c pid s' (tmp, calls_left tmp (call # calls) ok) \<and> entries_whole c d0 s' \<and>
    (\<forall>q. is_temp q \<and> q \<noteq> tmp \<longrightarrow> d' q = cs_disk s q)"
proof -
  obtain x n where x: "x \<in> set (cs_begun s)" "n < cs_counter s"
    "tmp = with_extension (stored_path c x) (unique_tmp_suffix pid n)"
    and calls: "calls_ok (cs_disk s) tmp (stored_path c x) (stored_parts x) (call # calls)"
    using w by (auto simp: writer_ok_def)
  have shape: "call # calls = [Remove_File tmp] \<or>
       call # calls = write_calls (stored_path c x) tmp (stored_parts x) \<or>
       (\<exists>written left. stored_parts x = written @ left \<and>
          call # calls = map (Write_All tmp) left @ [Rename tmp (stored_path c x)] \<and>
          holds_only (cs_disk s) tmp (concat written))"
    using calls unfolding calls_ok_def by blast
  have temp: "is_temp tmp" unfolding x(3) by simp
  have plain: "\<not> is_temp (stored_path c x)" using x(1) begun stored_not_temp by blast
  have ok: "writer_ok c pid s' (tmp, cs)" if "cs = [] \<or> cs = [Remove_File tmp] \<or>
       (\<exists>written left. stored_parts x = written @ left \<and>
          cs = map (Write_All tmp) left @ [Rename tmp (stored_path c x)] \<and>
          holds_only d' tmp (concat written))" for cs
    using that x unfolding writer_ok_def calls_ok_def s' by (intro exI [of _ x] exI [of _ n]) auto
  have only_tmp: "entries_whole c d0 s'" if "\<And>q. q \<noteq> tmp \<Longrightarrow> d' q = cs_disk s q"
    using whole that temp unfolding entries_whole_def s' by simp metis
  from shape show ?thesis
  proof (elim disjE exE conjE)
    assume "call # calls = [Remove_File tmp]"
    then have "d' q = cs_disk s q" if "q \<noteq> tmp" for q
      using p that by (cases r) auto
    then show ?thesis using \<open>call # calls = [Remove_File tmp]\<close> ok only_tmp by auto
  next
    assume c: "call # calls = write_calls (stored_path c x) tmp (stored_parts x)"
    then have same: "d' q = cs_disk s q" if "q \<noteq> tmp" for q
      using p that by (cases r) (auto simp: write_calls_def)
    have data: "holds_only d' tmp (concat [])" if "ok"
      using that p c by (cases r) (auto simp: write_calls_def holds_only_def)
    have left: "stored_parts x = [] @ stored_parts x \<and>
        calls = map (Write_All tmp) (stored_parts x) @ [Rename tmp (stored_path c x)]"
      using c by (simp add: write_calls_def)
    have "writer_ok c pid s' (tmp, calls_left tmp (call # calls) ok)"
    proof (cases ok)
      case True
      then show ?thesis using data [OF True] left
        by (intro ok disjI2 exI [of _ "[]"] exI [of _ "stored_parts x"]) simp
    next
      case False
      then show ?thesis using c by (intro ok) (simp add: write_calls_def)
    qed
    then show ?thesis using same only_tmp by blast
  next
    fix written left
    assume parts: "stored_parts x = written @ left"
      and c: "call # calls = map (Write_All tmp) left @ [Rename tmp (stored_path c x)]"
      and data: "holds_only (cs_disk s) tmp (concat written)"
    show ?thesis
    proof (cases left)
      case (Cons b left')
      then have call: "call = Write_All tmp b" "calls = map (Write_All tmp) left' @ [Rename tmp (stored_path c x)]"
        using c by auto
      have same: "d' q = cs_disk s q" if "q \<noteq> tmp" for q
        using p call that by (cases "cs_disk s tmp") auto
      have data': "holds_only d' tmp (concat (written @ [b]))" if ok
        using that p call data by (cases "cs_disk s tmp"; cases r) (auto simp: holds_only_def)
      have "writer_ok c pid s' (tmp, calls_left tmp (call # calls) ok)"
      proof (cases ok)
        case True
        then show ?thesis using data' [OF True] call parts Cons
          by (intro ok disjI2 exI [of _ "written @ [b]"] exI [of _ left']) simp
      next
        case False
        then show ?thesis using call by (intro ok) simp
      qed
      then show ?thesis using same only_tmp by blast
    next
      case Nil
      then have call: "call = Rename tmp (stored_path c x)" "calls = []" using c by auto
      have "writer_ok c pid s' (tmp, calls_left tmp (call # calls) ok)"
        using call by (intro ok) simp
      moreover have d': "d' = cs_disk s \<or> (\<exists>f. cs_disk s tmp = Some f \<and>
          d' = (cs_disk s)(tmp := None, stored_path c x \<mapsto> f))"
        using p call by (cases r; cases "cs_disk s tmp") auto
      moreover have "entries_whole c d0 s'"
        unfolding entries_whole_def
      proof (intro allI impI, elim conjE)
        fix q f assume f: "cs_disk s' q = Some f" "\<not> is_temp q"
        show "d0 q = Some f \<or> (\<exists>x \<in> set (cs_begun s'). q = stored_path c x \<and> sf_data f = concat (stored_parts x))"
        proof (cases "cs_disk s q = Some f")
          case True
          then show ?thesis using whole f(2) unfolding entries_whole_def s' by simp
        next
          case False
          then have "q = stored_path c x" "cs_disk s tmp = Some f"
            using d' f(1) unfolding s' by (auto split: if_splits)
          then show ?thesis using data parts Nil x(1) unfolding s' holds_only_def by auto
        qed
      qed
      ultimately show ?thesis using plain by auto
    qed
  qed
qed

lemma step_keeps_invariant:
  assumes "cache_step c pid s s'" "cache_invariant c pid d0 s"
  shows "cache_invariant c pid d0 s'"
  using assms
proof (induction rule: cache_step.induct)
  case (begin_write x p tmp s)
  let ?s' = "s\<lparr>cs_counter := Suc (cs_counter s),
    cs_writers := (tmp, write_calls p tmp (stored_parts x)) # cs_writers s, cs_begun := x # cs_begun s\<rparr>"
  have inv: "\<forall>w \<in> set (cs_writers s). writer_ok c pid s w" "distinct (map fst (cs_writers s))"
    "\<forall>x \<in> set (cs_begun s). stored_ok x" "entries_whole c d0 s"
    using begin_write.prems by (simp_all add: cache_invariant_def)
  have old: "writer_ok c pid ?s' w" if "w \<in> set (cs_writers s)" for w
    by (rule writer_ok_mono [OF bspec [OF inv(1) that]]) auto
  have new: "writer_ok c pid ?s' (tmp, write_calls p tmp (stored_parts x))"
    unfolding writer_ok_def using begin_write(2,3)
    by (intro exI [of _ x] exI [of _ "cs_counter s"]) (simp add: calls_ok_def)
  have "tmp \<noteq> fst w" if w: "w \<in> set (cs_writers s)" for w
  proof -
    obtain y n where "n < cs_counter s" "fst w = with_extension (stored_path c y) (unique_tmp_suffix pid n)"
      using bspec [OF inv(1) w] unfolding writer_ok_def by blast
    then show ?thesis using begin_write(3) temp_inject [of p pid "cs_counter s" "stored_path c y" n] by auto
  qed
  moreover have "entries_whole c d0 ?s'" by (rule entries_whole_mono [OF inv(4)]) auto
  ultimately show ?case using inv old new begin_write(1) by (auto simp: cache_invariant_def)
next
  case (write_call i s tmp call calls r now d' ok)
  let ?w = "(tmp, calls_left tmp (call # calls) ok)"
  let ?s' = "s\<lparr>cs_disk := d', cs_writers := (cs_writers s)[i := ?w]\<rparr>"
  have inv: "\<forall>w \<in> set (cs_writers s). writer_ok c pid s w" "distinct (map fst (cs_writers s))"
    "\<forall>x \<in> set (cs_begun s). stored_ok x" "entries_whole c d0 s"
    using write_call.prems by (simp_all add: cache_invariant_def)
  have mine: "writer_ok c pid s (tmp, call # calls)" using inv(1) write_call(1,2) by (metis nth_mem)
  note act = acting_writer [OF mine write_call(3) inv(3,4), of ?s' "(cs_writers s)[i := ?w]", OF refl]
  have fsts: "map fst ((cs_writers s)[i := ?w]) = map fst (cs_writers s)"
    using write_call(1,2) by (simp add: map_update list_update_same_conv)
  have "writer_ok c pid ?s' w" if w: "w \<in> set ((cs_writers s)[i := ?w])" for w
  proof -
    obtain j where j: "j < length (cs_writers s)" "w = (cs_writers s)[i := ?w] ! j"
      using w by (auto simp: in_set_conv_nth)
    show ?thesis
    proof (cases "j = i")
      case True
      then show ?thesis using j act by simp
    next
      case False
      then have wj: "w = cs_writers s ! j" using j by simp
      then have ok: "writer_ok c pid s w" using inv(1) j(1) by simp
      have "fst w \<noteq> tmp"
        using nth_eq_iff_index_eq [OF inv(2), of i j] False write_call(1,2) j(1) wj by auto
      moreover have "is_temp (fst w)" using ok by (auto simp: writer_ok_def)
      ultimately have same: "d' (fst w) = cs_disk s (fst w)" using act by blast
      show ?thesis by (rule writer_ok_mono [OF ok]) (simp_all add: same)
    qed
  qed
  then show ?case using inv(2,3) act fsts by (simp add: cache_invariant_def)
next
  case (lookup s io now key)
  let ?s' = "s\<lparr>cs_disk := snd (cache_get c io now key (cs_disk s))\<rparr>"
  have "writer_ok c pid ?s' w" if "writer_ok c pid s w" for w
    by (rule writer_ok_mono [OF that]) (simp_all add: lookup_only_removes)
  moreover have "entries_whole c d0 ?s'" if "entries_whole c d0 s"
    by (rule entries_whole_mono [OF that]) (simp_all add: lookup_only_removes)
  ultimately show ?case using lookup.prems by (simp add: cache_invariant_def)
next
  case (evict s c' removes now dir)
  let ?s' = "s\<lparr>cs_disk := evict_to_limit c' removes now dir (cs_disk s)\<rparr>"
  have "writer_ok c pid ?s' w" if "writer_ok c pid s w" for w
    by (rule writer_ok_mono [OF that]) (simp_all add: evict_only_removes)
  moreover have "entries_whole c d0 ?s'" if "entries_whole c d0 s"
    by (rule entries_whole_mono [OF that]) (simp_all add: evict_only_removes)
  ultimately show ?case using evict.prems by (simp add: cache_invariant_def)
qed

lemma reachable_invariant: "reachable c pid d0 s \<Longrightarrow> cache_invariant c pid d0 s"
proof (induction rule: reachable.induct)
  case start
  then show ?case by (simp add: cache_invariant_def entries_whole_def cache_start_def)
next
  case (step s s')
  then show ?case using step_keeps_invariant by blast
qed

lemma shard_path_inject: "shard_path dir key = shard_path dir key' \<longleftrightarrow> key = key'"
  by (auto simp: shard_path_def)

lemma entry_is_transform:
  assumes "entry_path c key = stored_path c x"
  shows "\<exists>mt body warnings. x = Transform key mt body warnings"
proof (cases x)
  case (Origin k body)
  have "length (entry_path c key) = length (stored_path c x)" using assms by simp
  then show ?thesis using Origin by (simp add: entry_path_def shard_path_def origin_new_def)
qed (use assms in \<open>simp add: entry_path_def shard_path_inject\<close>)

text \<open>
  C18. However writes, lookups and evictions interleave, and wherever a system call fails or a
  writer is killed, a lookup in a cache that held no entry for the key never meets a torn entry:
  it answers a miss, or the whole of what some write stored under that key.
\<close>

theorem hit_is_a_whole_write:
  assumes "reachable c pid d0 s" "hex_key key" "d0 (entry_path c key) = None"
  shows "let (lookup, d') = cache_get c io now key (cs_disk s) in
    (lookup = Miss \<or>
     (\<exists>mt body age warnings. lookup = Hit mt body age (map flat_text warnings) \<and>
        Transform key mt body warnings \<in> set (cs_begun s) \<and> age \<le> tc_ttl c)) \<and>
    (io_read io \<longrightarrow> d' = cs_disk s)"
proof (cases "cs_disk s (entry_path c key)")
  case None
  then show ?thesis by (simp add: cache_get_def)
next
  case (Some f)
  have "\<not> is_temp (entry_path c key)" using shard_not_temp [OF assms(2)] by (simp add: entry_path_def)
  then obtain x where x: "x \<in> set (cs_begun s)" "entry_path c key = stored_path c x"
    "sf_data f = concat (stored_parts x)" "stored_ok x"
    using reachable_invariant [OF assms(1)] Some assms(3)
    unfolding cache_invariant_def entries_whole_def by fastforce
  obtain mt body warnings where t: "x = Transform key mt body warnings"
    using entry_is_transform [OF x(2)] by blast
  have "parse_entry (sf_data f) = Some (mt, map flat_text warnings, body)"
    using x(3,4) t by (simp add: parse_written)
  then show ?thesis using Some x(1) t
    by (cases "file_age now f") (auto simp: cache_get_def Let_def)
qed

text \<open>A run: a write in four calls, in whose course the key is looked up.\<close>

definition sample_stored :: stored where
  "sample_stored = Transform sample_key Png [1, 2] []"

definition sample_cache :: transform_cache where
  "sample_cache = cache_new [''r'']"

definition sample_tmp :: path where
  "sample_tmp = with_extension (stored_path sample_cache sample_stored) (unique_tmp_suffix 7 0)"

lemma one_writer_call:
  assumes "reachable c pid d0 \<lparr>cs_disk = d, cs_counter = n, cs_writers = [(tmp, call # calls)], cs_begun = b\<rparr>"
    and "perform call r now d = (d', ok)"
  shows "reachable c pid d0 \<lparr>cs_disk = d', cs_counter = n,
    cs_writers = [(tmp, calls_left tmp (call # calls) ok)], cs_begun = b\<rparr>"
  using reachable.step [OF assms(1) cache_step.write_call [of 0 _ tmp call calls r now d' ok]] assms(2) by simp

lemma sample_reachable:
  "reachable sample_cache 7 Map.empty \<lparr>cs_disk = [stored_path sample_cache sample_stored \<mapsto>
     \<lparr>sf_data = concat (stored_parts sample_stored), sf_mtime = 5\<rparr>], cs_counter = 1,
     cs_writers = [(sample_tmp, [])], cs_begun = [sample_stored]\<rparr>"
proof -
  let ?p = "stored_path sample_cache sample_stored" and ?t = sample_tmp
  have key: "hex_key sample_key" by code_simp
  then have plain: "?p \<noteq> ?t"
    using stored_not_temp [of sample_stored sample_cache] temp_is_temp unfolding sample_tmp_def
    by (metis list.pred_inject(1) sample_stored_def stored_ok.simps(1))
  let ?s = "\<lambda>d calls. \<lparr>cs_disk = d, cs_counter = 1, cs_writers = [(?t, calls)], cs_begun = [sample_stored]\<rparr>"
  let ?f = "\<lambda>data. [?t \<mapsto> \<lparr>sf_data = data, sf_mtime = 5\<rparr>]"
  have parts: "stored_parts sample_stored = [entry_header Png [], [1, 2]]" by (simp add: sample_stored_def)
  have "reachable sample_cache 7 Map.empty (?s Map.empty (write_calls ?p ?t (stored_parts sample_stored)))"
    using reachable.step [OF reachable.start cache_step.begin_write [of sample_stored ?p sample_cache ?t 7]] key
    by (simp add: cache_start_def sample_tmp_def sample_stored_def)
  then have a: "reachable sample_cache 7 Map.empty (?s Map.empty
      [Create_File ?t, Write_All ?t (entry_header Png []), Write_All ?t [1, 2], Rename ?t ?p])"
    by (simp add: write_calls_def parts)
  have b: "reachable sample_cache 7 Map.empty (?s (?f [])
      [Write_All ?t (entry_header Png []), Write_All ?t [1, 2], Rename ?t ?p])"
    using one_writer_call [OF a, of Done 5] by simp
  have c: "reachable sample_cache 7 Map.empty (?s (?f (entry_header Png [])) [Write_All ?t [1, 2], Rename ?t ?p])"
    using one_writer_call [OF b, of Done 5] by simp
  have "reachable sample_cache 7 Map.empty (?s (?f (entry_header Png [] @ [1, 2])) [Rename ?t ?p])"
    using one_writer_call [OF c, of Done 5] by simp
  from one_writer_call [OF this, of Done 5] show ?thesis using plain by (simp add: parts fun_upd_twist)
qed

theorem hit_is_a_whole_write_witness:
  "let (lookup, d') = cache_get sample_cache \<lparr>io_open = True, io_read = True, io_remove = Done\<rparr> 9 sample_key
     [stored_path sample_cache sample_stored \<mapsto>
       \<lparr>sf_data = concat (stored_parts sample_stored), sf_mtime = 5\<rparr>] in
   lookup = Miss \<or>
   (\<exists>mt body age warnings. lookup = Hit mt body age (map flat_text warnings) \<and>
      Transform sample_key mt body warnings \<in> set [sample_stored] \<and> age \<le> tc_ttl sample_cache)"
proof -
  have "hex_key sample_key" by code_simp
  then show ?thesis
    using hit_is_a_whole_write [OF sample_reachable, of sample_key "\<lparr>io_open = True, io_read = True, io_remove = Done\<rparr>" 9]
    by (auto simp: Let_def split: prod.splits)
qed

end
