(* ===== verification/Remote.thy ===== *)
theory Remote
  imports Remote_Policy Cache
begin

text \<open>
  Fetching a source, from \<open>src/adapters/server/remote.rs\<close>: the checks of a URL and of what its
  name resolves to, the connection pinned to those addresses, the redirect loop, the limits on
  the body, and the origin cache in front of it all.

  The URL parser, the resolver, the HTTP client and the storage backends are parameters. The
  resolver and the client may answer differently each time: an answer is a function of how many
  requests of this fetch came before. What is shown: whatever they answer, every connection of a
  fetch goes to addresses the policy allows, there is a bounded number of them, and what is
  returned or cached is within the limit.
\<close>

definition forbidden_response :: "string \<Rightarrow> problem" where
  "forbidden_response m = Problem CForbidden m"
definition bad_gateway_response :: "string \<Rightarrow> problem" where
  "bad_gateway_response m = Problem CBadGateway m"
definition too_many_redirects_response :: "string \<Rightarrow> problem" where
  "too_many_redirects_response m = Problem CLoopDetected m"

definition MAX_SOURCE_BYTES :: nat where "MAX_SOURCE_BYTES = 100 * 1024 * 1024"
definition MAX_WATERMARK_BYTES :: nat where "MAX_WATERMARK_BYTES = 10 * 1024 * 1024"
definition MAX_REMOTE_REDIRECTS :: nat where "MAX_REMOTE_REDIRECTS = 5"

section \<open>The target of a fetch\<close>

type_synonym socket_addr = "ip_addr \<times> u16"

record fetch_settings =
  allow_insecure_url_sources :: bool
  max_remote_redirects :: nat
  fs_cache_root :: "path option"
  fs_storage_root :: path
  fs_max_source_bytes :: nat
  fs_max_watermark_bytes :: nat

text \<open>What the world answers: the parser, the resolver, and the client.\<close>

record reply =
  reply_status :: u16
  reply_location :: "string option"
  reply_content_encoding :: "string option"
  reply_content_length :: "string option"
  reply_body :: bytes
  reply_broken :: "string option" \<comment> \<open>the error behind the last byte that arrives\<close>

record fetch_target =
  ft_url :: remote_url
  ft_netloc :: string
  ft_addrs :: "socket_addr list"

record web =
  web_parse :: "string \<Rightarrow> string + remote_url"
  web_join :: "remote_url \<Rightarrow> string \<Rightarrow> string + remote_url"
  web_resolve :: "nat \<Rightarrow> remote_url \<Rightarrow> string + socket_addr list"
  web_get :: "nat \<Rightarrow> fetch_target \<Rightarrow> string + reply"

definition parse_remote_url :: "web \<Rightarrow> string \<Rightarrow> (problem, remote_url) outcome" where
  "parse_remote_url W v =
     (case web_parse W v of
        Inr u \<Rightarrow> Ok u
      | Inl e \<Rightarrow> Err (bad_request_response (''remote URL is invalid: '' @ e)))"

definition validate_resolved_addrs :: "socket_addr list \<Rightarrow> fetch_settings \<Rightarrow> (problem, unit) outcome" where
  "validate_resolved_addrs addrs config =
     (if list_ex (\<lambda>a. is_cloud_metadata_ip (fst a)) addrs
      then Err (forbidden_response ''remote URL points to a cloud metadata service'')
      else if \<not> allow_insecure_url_sources config \<and> list_ex (\<lambda>a. is_disallowed_remote_ip (fst a)) addrs
      then Err (forbidden_response ''remote URL resolves to a disallowed IP range'')
      else Ok ())"

definition validate_remote_url ::
  "web \<Rightarrow> nat \<Rightarrow> remote_url \<Rightarrow> fetch_settings \<Rightarrow> (problem, socket_addr list) outcome" where
  "validate_remote_url W i u config =
     and_then (reject_if (ru_scheme u \<noteq> ''http'' \<and> ru_scheme u \<noteq> ''https'')
       (bad_request_response ''remote URL must use the http or https scheme'')) (\<lambda>_.
     and_then (reject_if (ru_username u \<noteq> [] \<or> ru_password u \<noteq> None)
       (bad_request_response ''remote URL must not embed user information'')) (\<lambda>_.
     and_then (ok_or (bad_request_response ''remote URL must include a host'') (ru_host_str u)) (\<lambda>host.
     and_then (ok_or (bad_request_response ''remote URL must resolve to a known port'')
       (ru_port_or_known_default u)) (\<lambda>port.
     and_then (reject_if (is_cloud_metadata_host u)
       (forbidden_response ''remote URL points to a cloud metadata service'')) (\<lambda>_.
     and_then (reject_if (\<not> allow_insecure_url_sources config \<and> port \<noteq> 80 \<and> port \<noteq> 443)
       (forbidden_response ''remote URL port is not allowed by the current server policy'')) (\<lambda>_.
     and_then (case web_resolve W i u of
         Inl e \<Rightarrow> Err (bad_gateway_response (''failed to resolve remote host `'' @ host @ ''`: '' @ e))
       | Inr addrs \<Rightarrow> Ok addrs) (\<lambda>addrs.
     and_then (reject_if (addrs = []) (bad_gateway_response (''failed to resolve remote host `'' @ host @ ''`''))) (\<lambda>_.
     and_then (validate_resolved_addrs addrs config) (\<lambda>_.
       Ok addrs)))))))))"

definition prepare_remote_fetch_target ::
  "web \<Rightarrow> nat \<Rightarrow> string \<Rightarrow> fetch_settings \<Rightarrow> (problem, fetch_target) outcome" where
  "prepare_remote_fetch_target W i v config =
     and_then (parse_remote_url W v) (\<lambda>u.
     and_then (validate_remote_url W i u config) (\<lambda>addrs.
     and_then (ok_or (bad_request_response ''remote URL must include a host'') (ru_host_str u)) (\<lambda>host.
     and_then (ok_or (bad_request_response ''remote URL must resolve to a known port'')
       (ru_port_or_known_default u)) (\<lambda>port.
       Ok \<lparr>ft_url = u, ft_netloc = host @ '':'' @ show_word port, ft_addrs = addrs\<rparr>))))"

section \<open>The connection\<close>

record pinned_resolver =
  expected_netloc :: string
  pinned_addrs :: "socket_addr list"

text \<open>
  What the client asks the resolver for: an authority with its host and port, and a scheme. It
  holds at most 16 addresses.
\<close>

definition resolve_pinned ::
  "pinned_resolver \<Rightarrow> (string \<times> u16 option) option \<Rightarrow> string option \<Rightarrow> socket_addr list option" where
  "resolve_pinned r authority scheme =
     Option.bind authority (\<lambda>(host, explicit).
     Option.bind (case explicit of
         Some p \<Rightarrow> Some p
       | None \<Rightarrow> if scheme = Some ''https'' then Some 443 else if scheme = Some ''http'' then Some 80 else None)
       (\<lambda>port.
       if host @ '':'' @ show_word port = expected_netloc r then
         (if pinned_addrs r = [] then None else Some (take 16 (pinned_addrs r)))
       else None))"

text \<open>The timeouts of the client, in milliseconds; \<open>remaining\<close> is the time to the deadline.\<close>

record agent =
  agent_timeout_connect :: nat
  agent_timeout_recv_body :: nat
  agent_resolver :: pinned_resolver

definition timeout_within :: "nat option \<Rightarrow> nat \<Rightarrow> nat" where
  "timeout_within remaining cap =
     (case remaining of
        Some r \<Rightarrow> if r = 0 then 1 else min r cap
      | None \<Rightarrow> cap)"

definition build_remote_agent :: "fetch_target \<Rightarrow> nat option \<Rightarrow> agent" where
  "build_remote_agent target remaining =
     \<lparr>agent_timeout_connect = timeout_within remaining 10000,
      agent_timeout_recv_body = timeout_within remaining 30000,
      agent_resolver = \<lparr>expected_netloc = ft_netloc target, pinned_addrs = ft_addrs target\<rparr>\<rparr>"

section \<open>Redirects and bodies\<close>

definition next_redirect_url ::
  "web \<Rightarrow> remote_url \<Rightarrow> reply \<Rightarrow> nat \<Rightarrow> nat \<Rightarrow> (problem, string) outcome" where
  "next_redirect_url W current r i max_redirects =
     and_then (reject_if (i = max_redirects)
       (too_many_redirects_response ''remote URL exceeded the redirect limit'')) (\<lambda>_.
     and_then (ok_or (bad_gateway_response ''remote redirect response is missing a Location header'')
       (reply_location r)) (\<lambda>location.
       case web_join W current location of
         Inl e \<Rightarrow> Err (bad_gateway_response (''remote redirect location could not be resolved: '' @ e))
       | Inr u \<Rightarrow> Ok (ru_text u)))"

definition validate_remote_content_encoding :: "reply \<Rightarrow> (problem, unit) outcome" where
  "validate_remote_content_encoding r =
     (case Option.bind (reply_content_encoding r) unreadable_content_coding of
        None \<Rightarrow> Ok ()
      | Some encoding \<Rightarrow> Err (bad_gateway_response
          (''remote response uses unsupported content-encoding `'' @ encoding @ ''`'')))"

definition u64_max :: int where "u64_max = 18446744073709551615"

text \<open>The reader is cut off behind \<open>max_bytes + 1\<close> bytes, so an error further on is not seen.\<close>

definition read_remote_response_body :: "string \<Rightarrow> reply \<Rightarrow> nat \<Rightarrow> (problem, bytes) outcome" where
  "read_remote_response_body u r max_bytes =
     (let too_large = payload_too_large_response
        (''remote response exceeds '' @ show_nat max_bytes @ '' bytes'') in
     and_then (validate_remote_content_encoding r) (\<lambda>_.
     and_then (reject_if (case reply_content_length r of
         None \<Rightarrow> False
       | Some v \<Rightarrow> (case parse_unsigned u64_max v of Inr n \<Rightarrow> int max_bytes < n | Inl _ \<Rightarrow> False)) too_large) (\<lambda>_.
       if max_bytes < length (reply_body r) then Err too_large
       else case reply_broken r of
           Some e \<Rightarrow> Err (bad_gateway_response (''failed to read remote URL `'' @ u @ ''`: '' @ e))
         | None \<Rightarrow> Ok (reply_body r))))"

section \<open>The redirect loop\<close>

record fetch_policy =
  fp_max_bytes :: nat
  fp_cache_namespace :: string
  fp_resource_label :: string

text \<open>
  One pass for each index the loop still has, with the targets that were connected to. The
  request that made the first check has number 0.
\<close>

fun fetch_loop ::
  "web \<Rightarrow> fetch_settings \<Rightarrow> fetch_policy \<Rightarrow> nat list \<Rightarrow> string \<Rightarrow> (problem, bytes) outcome \<times> fetch_target list"
where
  "fetch_loop W config policy [] current =
     (Err (too_many_redirects_response (fp_resource_label policy @ '' URL exceeded the redirect limit'')), [])"
| "fetch_loop W config policy (i # is) current =
     (case prepare_remote_fetch_target W (Suc i) current config of
        Err e \<Rightarrow> (Err e, [])
      | Panic \<Rightarrow> (Panic, [])
      | Ok target \<Rightarrow>
          (case web_get W i target of
             Inl e \<Rightarrow> (Err (bad_gateway_response (''failed to fetch '' @ fp_resource_label policy @ '': '' @ e)), [target])
           | Inr r \<Rightarrow>
               if is_redirect_status (reply_status r) then
                 (case next_redirect_url W (ft_url target) r i (max_remote_redirects config) of
                    Err e \<Rightarrow> (Err e, [target])
                  | Panic \<Rightarrow> (Panic, [target])
                  | Ok next_url \<Rightarrow>
                      (let (res, targets) = fetch_loop W config policy is next_url in (res, target # targets)))
               else if is_success_status (reply_status r) then
                 (read_remote_response_body (ru_text (ft_url target)) r (fp_max_bytes policy), [target])
               else (Err (bad_gateway_response (''failed to fetch '' @ fp_resource_label policy @
                 '': upstream HTTP '' @ show_word (reply_status r))), [target])))"

text \<open>The origin cache as one fetch uses it: the answers of the disk to its lookup and its write.\<close>

record origin_io =
  oi_lookup :: lookup_io
  oi_now :: int
  oi_made_parent :: bool
  oi_suffix :: string
  oi_answers :: "answer list"

definition fetch_remote_bytes ::
  "(bytes \<Rightarrow> bytes) \<Rightarrow> (bytes \<Rightarrow> string) \<Rightarrow> web \<Rightarrow> origin_io \<Rightarrow> string \<Rightarrow> fetch_settings \<Rightarrow> fetch_policy \<Rightarrow> disk \<Rightarrow>
    (problem, bytes) outcome \<times> fetch_target list \<times> disk" where
  "fetch_remote_bytes sha256 hex_encode W io u config policy d =
     (case prepare_remote_fetch_target W 0 u config of
        Err e \<Rightarrow> (Err e, [], d)
      | Panic \<Rightarrow> (Panic, [], d)
      | Ok _ \<Rightarrow>
          (let cache = map_option origin_new (fs_cache_root config);
               cached = Option.bind cache (\<lambda>c.
                 origin_get sha256 hex_encode c (oi_lookup io) (oi_now io) (fp_cache_namespace policy) u d)
           in case cached of
                Some bs \<Rightarrow>
                  (if fp_max_bytes policy < length bs
                   then Err (payload_too_large_response (''cached '' @ fp_resource_label policy @ '' exceeds '' @
                     show_nat (fp_max_bytes policy) @ '' bytes''))
                   else Ok bs, [], d)
              | None \<Rightarrow>
                  (let (res, targets) = fetch_loop W config policy [0..<Suc (max_remote_redirects config)] u in
                   (res, targets,
                    case (res, cache) of
                      (Ok bs, Some c) \<Rightarrow> origin_put sha256 hex_encode c (oi_made_parent io) (oi_suffix io)
                        (oi_answers io) (oi_now io) (fp_cache_namespace policy) u bs d
                    | _ \<Rightarrow> d))))"

definition source_policy :: "fetch_settings \<Rightarrow> fetch_policy" where
  "source_policy config = \<lparr>fp_max_bytes = fs_max_source_bytes config, fp_cache_namespace = ''src'',
     fp_resource_label = ''remote URL''\<rparr>"

definition watermark_policy :: "fetch_settings \<Rightarrow> fetch_policy" where
  "watermark_policy config = \<lparr>fp_max_bytes = fs_max_watermark_bytes config, fp_cache_namespace = ''wm'',
     fp_resource_label = ''watermark image''\<rparr>"

section \<open>Sources\<close>

datatype source_payload =
    SourcePathP string "string option"
  | SourceUrlP string "string option"
  | SourceStorageP "string option" string "string option"

text \<open>The files of the storage root: the canonical path, the length and the bytes.\<close>

record storage_files =
  sfs_canonicalize :: "string list \<Rightarrow> io_error + string list"
  sfs_metadata_len :: "string list \<Rightarrow> io_error + nat"
  sfs_read :: "string list \<Rightarrow> io_error + bytes"

definition of_io :: "io_error + 'a \<Rightarrow> (problem, 'a) outcome" where
  "of_io r = (case r of Inl e \<Rightarrow> Err (map_source_io_error e) | Inr x \<Rightarrow> Ok x)"

definition resolve_source_bytes ::
  "(bytes \<Rightarrow> bytes) \<Rightarrow> (bytes \<Rightarrow> string) \<Rightarrow> web \<Rightarrow> origin_io \<Rightarrow> storage_files \<Rightarrow>
    (string option \<Rightarrow> string \<Rightarrow> (problem, bytes) outcome) \<Rightarrow> source_payload \<Rightarrow> fetch_settings \<Rightarrow> disk \<Rightarrow>
    (problem, bytes) outcome \<times> fetch_target list \<times> disk" where
  "resolve_source_bytes sha256 hex_encode W io files storage source config d =
     (case source of
        SourcePathP p _ \<Rightarrow>
          (and_then (resolve_storage_path (sfs_canonicalize files) (fs_storage_root config) p) (\<lambda>file.
           and_then (of_io (sfs_metadata_len files file)) (\<lambda>n.
           and_then (reject_if (fs_max_source_bytes config < n)
             (payload_too_large_response ''source file is too large'')) (\<lambda>_.
             of_io (sfs_read files file)))), [], d)
      | SourceUrlP u _ \<Rightarrow> fetch_remote_bytes sha256 hex_encode W io u config (source_policy config) d
      | SourceStorageP bucket key _ \<Rightarrow> (storage bucket key, [], d))"

section \<open>Backend endpoints\<close>

text \<open>The endpoint of a storage backend; the resolver is asked for \<open>host:port\<close>.\<close>

definition validate_backend_endpoint_url ::
  "(string \<Rightarrow> string + remote_url) \<Rightarrow> (string \<Rightarrow> string + ip_addr list) \<Rightarrow> string \<Rightarrow> string \<Rightarrow> bool \<Rightarrow> (string, unit) outcome"
where
  "validate_backend_endpoint_url parse resolve u env_var_name allow_insecure =
     (case parse u of
        Inl e \<Rightarrow> Err (env_var_name @ '' is not a valid URL: '' @ e)
      | Inr parsed \<Rightarrow>
     and_then (reject_if (ru_scheme parsed \<noteq> ''http'' \<and> ru_scheme parsed \<noteq> ''https'')
       (env_var_name @ '' must use http or https scheme, got `'' @ ru_scheme parsed @ ''`'')) (\<lambda>_.
     and_then (reject_if (is_cloud_metadata_host parsed)
       (env_var_name @ '' must not point to a cloud metadata service'')) (\<lambda>_.
     case ru_host_str parsed of
       None \<Rightarrow> Ok ()
     | Some host \<Rightarrow>
         let port = (case ru_port_or_known_default parsed of Some p \<Rightarrow> p | None \<Rightarrow> 80) in
         and_then (case resolve (host @ '':'' @ show_word port) of
             Inr addrs \<Rightarrow> Ok addrs
           | Inl e \<Rightarrow> if allow_insecure then Ok []
               else Err (env_var_name @ '' could not be resolved: '' @ e)) (\<lambda>addrs.
         and_then (reject_if (list_ex is_cloud_metadata_ip addrs)
           (env_var_name @ '' must not point to a cloud metadata service'')) (\<lambda>_.
           reject_if (\<not> allow_insecure \<and> list_ex is_disallowed_remote_ip addrs)
             (env_var_name @ '' must not point to a private or loopback address''))))))"

section \<open>Where a fetch connects\<close>

text \<open>What the policy promises of a connection.\<close>

definition allowed_addr :: "fetch_settings \<Rightarrow> ip_addr \<Rightarrow> bool" where
  "allowed_addr config a \<longleftrightarrow>
     \<not> is_cloud_metadata_ip a \<and> (allow_insecure_url_sources config \<or> \<not> is_disallowed_remote_ip a)"

definition allowed_target :: "fetch_settings \<Rightarrow> fetch_target \<Rightarrow> bool" where
  "allowed_target config t \<longleftrightarrow>
     ft_addrs t \<noteq> [] \<and> list_all (\<lambda>a. allowed_addr config (fst a)) (ft_addrs t) \<and>
     \<not> is_cloud_metadata_host (ft_url t) \<and> ru_scheme (ft_url t) \<in> {''http'', ''https''} \<and>
     ru_username (ft_url t) = [] \<and> ru_password (ft_url t) = None \<and>
     (\<exists>host port. ru_host_str (ft_url t) = Some host \<and> ru_port_or_known_default (ft_url t) = Some port \<and>
        ft_netloc t = host @ '':'' @ show_word port \<and>
        (allow_insecure_url_sources config \<or> port = 80 \<or> port = 443))"

lemma validated_addrs: "validate_resolved_addrs addrs config = Ok u \<longleftrightarrow> list_all (\<lambda>a. allowed_addr config (fst a)) addrs"
  by (auto simp: validate_resolved_addrs_def allowed_addr_def list_ex_iff list_all_iff)

lemma answered: "(case r of Inl e \<Rightarrow> Err (f e) | Inr x \<Rightarrow> Ok x) = Ok y \<longleftrightarrow> r = Inr y"
  by (cases r) auto

lemma prepared_is_allowed:
  assumes "prepare_remote_fetch_target W i v config = Ok t"
  shows "allowed_target config t"
  using assms unfolding prepare_remote_fetch_target_def validate_remote_url_def
  by (simp add: answered validated_addrs allowed_target_def) auto

lemma loop_targets:
  "fetch_loop W config policy is current = (res, targets) \<Longrightarrow>
    list_all (allowed_target config) targets \<and> length targets \<le> length is"
  by (induction W config policy "is" current arbitrary: res targets rule: fetch_loop.induct)
    (auto simp: prepared_is_allowed split: outcome.splits sum.splits if_splits prod.splits)

lemma body_within:
  "read_remote_response_body u r n = Ok bs \<Longrightarrow> length bs \<le> n"
  by (auto simp: read_remote_response_body_def Let_def split: if_splits option.splits)

lemma loop_body:
  "fetch_loop W config policy is current = (Ok bs, targets) \<Longrightarrow> length bs \<le> fp_max_bytes policy \<and> targets \<noteq> []"
  by (induction W config policy "is" current arbitrary: targets rule: fetch_loop.induct)
    (auto simp: body_within split: outcome.splits sum.splits if_splits prod.splits)

lemma pinned_addrs_only:
  "resolve_pinned (agent_resolver (build_remote_agent t remaining)) authority scheme = Some addrs \<Longrightarrow>
    set addrs \<subseteq> set (ft_addrs t)"
  by (auto simp: resolve_pinned_def build_remote_agent_def bind_eq_Some_conv dest: in_set_takeD
    split: if_splits option.splits prod.splits)

text \<open>The addresses a connection to a target may use.\<close>

definition connects_to :: "fetch_target \<Rightarrow> ip_addr \<Rightarrow> bool" where
  "connects_to t a \<longleftrightarrow>
     (\<exists>remaining authority scheme addrs port.
        resolve_pinned (agent_resolver (build_remote_agent t remaining)) authority scheme = Some addrs \<and>
        (a, port) \<in> set addrs)"

lemma connections_allowed: "allowed_target config t \<Longrightarrow> connects_to t a \<Longrightarrow> allowed_addr config a"
  unfolding connects_to_def allowed_target_def list_all_iff using pinned_addrs_only by fastforce

lemma prepare_no_panic: "prepare_remote_fetch_target W i v config \<noteq> Panic"
proof -
  have "no_panic (prepare_remote_fetch_target W i v config)"
    by (simp add: prepare_remote_fetch_target_def parse_remote_url_def validate_remote_url_def
      validate_resolved_addrs_def split: sum.split)
  then show ?thesis by (simp add: no_panic_def)
qed

lemma redirect_no_panic: "next_redirect_url W u r i m \<noteq> Panic"
proof -
  have "no_panic (next_redirect_url W u r i m)" by (simp add: next_redirect_url_def split: sum.split)
  then show ?thesis by (simp add: no_panic_def)
qed

lemma body_no_panic: "read_remote_response_body u r n \<noteq> Panic"
proof -
  have "no_panic (read_remote_response_body u r n)"
    by (simp add: read_remote_response_body_def Let_def validate_remote_content_encoding_def split: option.split)
  then show ?thesis by (simp add: no_panic_def)
qed

lemma loop_no_panic: "fetch_loop W config policy is current = (res, targets) \<Longrightarrow> res \<noteq> Panic"
  by (induction W config policy "is" current arbitrary: res targets rule: fetch_loop.induct)
    (auto simp: prepare_no_panic redirect_no_panic body_no_panic
      split: outcome.splits sum.splits if_splits prod.splits)

text \<open>
  C20. A fetch connects only where the policy allows, whatever the origin, its redirects and the
  resolver answer: every address of every connection is no metadata endpoint and, unless the
  setting says otherwise, off the deny-list, over http or https on port 80 or 443. It makes at
  most one request more than the redirect limit, returns no more bytes than the limit, and a
  fetch that fails leaves the cache as it was.
\<close>

theorem fetch_is_confined:
  assumes "fetch_remote_bytes sha256 hex_encode W io u config policy d = (res, targets, d')"
  shows "list_all (\<lambda>t. allowed_target config t \<and> (\<forall>a. connects_to t a \<longrightarrow> allowed_addr config a)) targets \<and>
    length targets \<le> Suc (max_remote_redirects config) \<and>
    (\<forall>bs. res = Ok bs \<longrightarrow> length bs \<le> fp_max_bytes policy \<and>
      (\<exists>t. prepare_remote_fetch_target W 0 u config = Ok t)) \<and>
    ((\<forall>bs. res \<noteq> Ok bs) \<longrightarrow> d' = d) \<and> res \<noteq> Panic"
proof -
  have all: "list_all (\<lambda>t. allowed_target config t \<and> (\<forall>a. connects_to t a \<longrightarrow> allowed_addr config a)) ts"
    if "list_all (allowed_target config) ts" for ts
    using that connections_allowed by (auto simp: list_all_iff)
  show ?thesis
  proof (cases "prepare_remote_fetch_target W 0 u config")
    case (Ok t)
    obtain r ts where loop: "fetch_loop W config policy [0..<Suc (max_remote_redirects config)] u = (r, ts)"
      by (cases "fetch_loop W config policy [0..<Suc (max_remote_redirects config)] u")
    note facts = loop_targets [OF loop] loop_no_panic [OF loop]
    have within: "r = Ok bs \<Longrightarrow> length bs \<le> fp_max_bytes policy" for bs using loop_body loop by blast
    show ?thesis
      using assms facts within all Ok unfolding fetch_remote_bytes_def Let_def loop
      by (auto split: option.splits outcome.splits if_splits simp del: upt_Suc)
  qed (use assms in \<open>auto simp: fetch_remote_bytes_def prepare_no_panic\<close>)
qed

definition sample_url :: remote_url where
  "sample_url = \<lparr>ru_scheme = ''https'', ru_username = [], ru_password = None, ru_host_str = Some ''a.example'',
     ru_host = Some (Domain ''a.example''), ru_port_or_known_default = Some 443, ru_text = ''https://a.example/''\<rparr>"

definition sample_fetch_target :: fetch_target where
  "sample_fetch_target = \<lparr>ft_url = sample_url, ft_netloc = ''a.example:443'', ft_addrs = [(V4 (Ipv4 8 8 8 8), 443)]\<rparr>"

text \<open>An origin that redirects once.\<close>

definition sample_web :: web where
  "sample_web = \<lparr>web_parse = \<lambda>_. Inr sample_url, web_join = \<lambda>_ _. Inr sample_url,
     web_resolve = \<lambda>_ _. Inr [(V4 (Ipv4 8 8 8 8), 443)],
     web_get = \<lambda>i _. Inr \<lparr>reply_status = (if i = 0 then 302 else 200), reply_location = Some ''/b'',
       reply_content_encoding = None, reply_content_length = None, reply_body = [1], reply_broken = None\<rparr>\<rparr>"

definition sample_settings :: fetch_settings where
  "sample_settings = \<lparr>allow_insecure_url_sources = False, max_remote_redirects = 5, fs_cache_root = None,
     fs_storage_root = [], fs_max_source_bytes = 9, fs_max_watermark_bytes = 9\<rparr>"

definition sample_io :: origin_io where
  "sample_io = \<lparr>oi_lookup = \<lparr>io_open = True, io_read = True, io_remove = Done\<rparr>, oi_now = 0,
     oi_made_parent = True, oi_suffix = ''tmp.1.0'', oi_answers = []\<rparr>"

lemma sample_prepared: "prepare_remote_fetch_target sample_web i v sample_settings = Ok sample_fetch_target"
proof -
  have "\<not> is_cloud_metadata_host sample_url" by code_simp
  moreover have "validate_resolved_addrs [(V4 (Ipv4 8 8 8 8), 443)] sample_settings = Ok ()" by code_simp
  moreover have "show_word (443 :: u16) = ''443''" by code_simp
  ultimately show ?thesis
    by (simp add: prepare_remote_fetch_target_def parse_remote_url_def validate_remote_url_def sample_web_def
      sample_fetch_target_def sample_settings_def) (simp add: sample_url_def)
qed

lemma sample_fetch:
  "fetch_remote_bytes id hex_text sample_web sample_io ''u'' sample_settings (source_policy sample_settings) Map.empty =
     (Ok [1], [sample_fetch_target, sample_fetch_target], Map.empty)"
proof -
  have "[0..<Suc (max_remote_redirects sample_settings)] = 0 # Suc 0 # [2..<6]"
    by (simp add: sample_settings_def upt_rec)
  then show ?thesis
    by (simp add: fetch_remote_bytes_def sample_prepared Let_def del: upt_Suc)
      (simp add: sample_web_def is_redirect_status_def is_success_status_def next_redirect_url_def
        read_remote_response_body_def validate_remote_content_encoding_def source_policy_def
        sample_settings_def sample_prepared [unfolded sample_web_def sample_settings_def])
qed

theorem fetch_is_confined_witness:
  "list_all (allowed_target sample_settings) [sample_fetch_target, sample_fetch_target] \<and>
   length [1 :: u8] \<le> fp_max_bytes (source_policy sample_settings)"
  using fetch_is_confined [OF sample_fetch] by (simp add: list_all_iff)

end
