(* ===== verification/Multipart.thy ===== *)
theory Multipart
  imports Remote Sniff
begin

text \<open>
  Multipart uploads, from \<open>src/adapters/server/multipart.rs\<close>, with \<open>resolve_multipart_watermark\<close>
  of \<open>handler.rs\<close>: the boundary of a content type, the walk over the parts of a form, the headers
  of a part, and the fields an upload may carry. The reader of a JSON options field is an
  argument, which answers with the sentence \<open>json_parse_message\<close> gives its error.

  What is shown: the walk accepts exactly the forms a client can write and answers with exactly
  their parts; an accepted upload is made of its fields, one of each at most.
\<close>

section \<open>Boundary and part headers\<close>

definition unsupported_media_type_response :: "string \<Rightarrow> problem" where
  "unsupported_media_type_response m = Problem CUnsupportedMediaType m"

text \<open>\<open>Some\<close> of the value of the first parameter of the name, a syntax error met before it.\<close>

fun named_parameter :: "string \<Rightarrow> problem \<Rightarrow> string list \<Rightarrow> (problem, string option) outcome" where
  "named_parameter name syntax [] = Ok None"
| "named_parameter name syntax (segment # segments) =
     (case split_once CHR ''='' segment of
        None \<Rightarrow> Err syntax
      | Some (n, v) \<Rightarrow>
          if eq_ignore_ascii_case (trim n) name then Ok (Some (trim_quotes (trim v)))
          else named_parameter name syntax segments)"

definition required_parameter :: "problem \<Rightarrow> problem \<Rightarrow> string option \<Rightarrow> (problem, string) outcome" where
  "required_parameter blank missing v =
     (case v of Some s \<Rightarrow> if s = [] then Err blank else Ok s | None \<Rightarrow> Err missing)"

definition parse_multipart_boundary :: "http_request \<Rightarrow> (problem, string) outcome" where
  "parse_multipart_boundary request =
     (let refused = unsupported_media_type_response ''content-type must be multipart/form-data'' in
      case header_value (hr_headers request) ''content-type'' of
        None \<Rightarrow> Err refused
      | Some content_type \<Rightarrow>
          (case split_on CHR '';'' content_type of
             [] \<Rightarrow> Err refused
           | m # segments \<Rightarrow>
               if \<not> content_type_matches m ''multipart/form-data'' then Err refused
               else and_then (named_parameter ''boundary''
                   (bad_request_response ''multipart content-type parameters must use name=value syntax'') segments)
                 (required_parameter (bad_request_response ''multipart content-type boundary must not be empty'')
                   (bad_request_response ''multipart content-type requires a boundary parameter''))))"

definition parse_part_headers :: "bytes \<Rightarrow> (problem, headers) outcome" where
  "parse_part_headers block_bytes =
     and_then (ok_or (bad_request_response ''multipart part headers must be valid UTF-8'') (str_from_utf8 block_bytes))
       (\<lambda>text. parse_headers (split_crlf text))"

definition parse_multipart_part_name :: "headers \<Rightarrow> (problem, string) outcome" where
  "parse_multipart_part_name hs =
     (case header_value hs ''content-disposition'' of
        None \<Rightarrow> Err (bad_request_response ''multipart part is missing a Content-Disposition header'')
      | Some disposition \<Rightarrow>
          (case split_on CHR '';'' disposition of
             [] \<Rightarrow> Err (bad_request_response ''multipart Content-Disposition header is malformed'')
           | kind # segments \<Rightarrow>
               if \<not> eq_ignore_ascii_case (trim kind) ''form-data''
               then Err (bad_request_response ''multipart Content-Disposition header must use form-data'')
               else and_then (named_parameter ''name''
                   (bad_request_response ''multipart Content-Disposition parameters must use name=value syntax'') segments)
                 (required_parameter (bad_request_response ''multipart part name must not be empty'')
                   (bad_request_response ''multipart Content-Disposition header must include a name parameter''))))"

section \<open>The walk over the parts\<close>

record multipart_part =
  mp_name :: string
  mp_content_type :: "string option"
  mp_start :: nat
  mp_stop :: nat \<comment> \<open>the range of its data in the body\<close>

definition crlf_bytes :: bytes where "crlf_bytes = [0x0D, 0x0A]"
definition dashes :: bytes where "dashes = [0x2D, 0x2D]"

definition slice_from :: "bytes \<Rightarrow> nat \<Rightarrow> ('e, bytes) outcome" where
  "slice_from bs a = slice bs a (length bs)"

definition form_step ::
  "bytes \<Rightarrow> bytes \<Rightarrow> bytes \<Rightarrow> nat \<Rightarrow> multipart_part list \<Rightarrow>
    (problem, (multipart_part list, multipart_part list) loop) outcome" where
  "form_step lead delimiter body cursor parts =
     and_then (slice_from body cursor) (\<lambda>here.
     if \<not> starts_with here lead then Err (bad_request_response ''multipart boundary sequence is malformed'')
     else
       let behind = cursor + length lead in
       and_then (slice_from body behind) (\<lambda>mark.
       if starts_with mark dashes then
         and_then (slice_from body (behind + 2)) (\<lambda>closing.
           if closing \<noteq> [] \<and> closing \<noteq> crlf_bytes
           then Err (bad_request_response ''multipart closing boundary has unexpected trailing data'')
           else Ok (Stop parts))
       else if \<not> starts_with mark crlf_bytes
       then Err (bad_request_response ''multipart boundary must be followed by CRLF'')
       else
         let block = behind + 2 in
         and_then (slice_from body block) (\<lambda>rest.
         and_then (ok_or (bad_request_response ''multipart part is missing a header terminator'') (find_sub rest crlf2)) (\<lambda>header_end.
         and_then (slice body block (block + header_end)) (\<lambda>block_bytes.
         and_then (parse_part_headers block_bytes) (\<lambda>hs.
         let start = block + header_end + 4 in
         and_then (slice_from body start) (\<lambda>data.
         and_then (ok_or (bad_request_response ''multipart part is missing the next boundary delimiter'')
           (find_valid_boundary data delimiter)) (\<lambda>body_end.
         and_then (parse_multipart_part_name hs) (\<lambda>name.
           Ok (Next (start + body_end + 2) (parts @ [\<lparr>mp_name = name, mp_content_type = header_value hs ''content-type'',
             mp_start = start, mp_stop = start + body_end\<rparr>])))))))))))"

definition opening_of :: "string \<Rightarrow> bytes" where
  "opening_of boundary = ascii (''--'' @ boundary)"

definition delimiter_of :: "string \<Rightarrow> bytes" where
  "delimiter_of boundary = crlf_bytes @ opening_of boundary"

definition parse_multipart_form_data :: "bytes \<Rightarrow> string \<Rightarrow> (problem, multipart_part list) outcome" where
  "parse_multipart_form_data body boundary =
     (if \<not> starts_with body (opening_of boundary)
      then Err (bad_request_response ''multipart body does not start with the declared boundary'')
      else walk (form_step (opening_of boundary) (delimiter_of boundary) body) (length body) 0 [])"

section \<open>The fields of an upload\<close>

definition narrow_form_integer ::
  "(int \<Rightarrow> 'a option) \<Rightarrow> string \<Rightarrow> string \<Rightarrow> (int \<Rightarrow> (string, 'a) outcome) \<Rightarrow> (problem, 'a) outcome" where
  "narrow_form_integer try_from text field validate =
     and_then (ok_or (bad_request_response (field @ '' must be an integer''))
       (map_option wide_saturated (wide_parse (trim text)))) (narrow_integer try_from validate)"

definition resolve_multipart_watermark ::
  "codecs \<Rightarrow> bytes \<Rightarrow> string option \<Rightarrow> u8 option \<Rightarrow> u32 option \<Rightarrow> (problem, watermark_input) outcome" where
  "resolve_multipart_watermark X bs position opacity margin =
     and_then (map_err (\<lambda>e. bad_request_response (''watermark image is invalid: '' @ show_transform_error e))
       (sniff_artifact X \<lparr>raw_bytes = bs, raw_declared = None\<rparr>)) (\<lambda>artifact.
     if \<not> is_raster (art_media_type artifact)
     then Err (bad_request_response ''watermark image must be a raster format (not SVG)'')
     else
       and_then (parse_optional_named position ''watermark_position'' position_from_str) (\<lambda>p.
       let o' = opt_or WATERMARK_DEFAULT_OPACITY opacity in
       and_then (map_err bad_request_response (validate_watermark_opacity o')) (\<lambda>_.
         Ok \<lparr>wm_image = artifact, wm_position = opt_or WATERMARK_DEFAULT_POSITION p, wm_opacity = o',
           wm_margin = opt_or WATERMARK_DEFAULT_MARGIN margin\<rparr>)))"

record upload_fields =
  up_file :: "(nat \<times> nat) option"
  up_options :: "transform_options option"
  up_watermark :: "(nat \<times> nat) option"
  up_position :: "string option"
  up_opacity :: "u8 option"
  up_margin :: "u32 option"

definition no_fields :: upload_fields where
  "no_fields = \<lparr>up_file = None, up_options = None, up_watermark = None, up_position = None, up_opacity = None,
     up_margin = None\<rparr>"

definition multiple_fields :: "string \<Rightarrow> problem" where
  "multiple_fields name = bad_request_response (''multipart upload must not include multiple `'' @ name @ ''` fields'')"

definition default_payload :: options_payload where
  "default_payload = \<lparr>pl_width = None, pl_height = None, pl_fit = None, pl_position = None, pl_format = None,
     pl_quality = None, pl_optimize = None, pl_target_quality = None, pl_background = None, pl_rotate = None,
     pl_auto_orient = None, pl_strip_metadata = None, pl_preserve_exif = None, pl_crop = None, pl_blur = None,
     pl_sharpen = None, pl_grayscale = None, pl_without_enlargement = None, pl_preset = None\<rparr>"

definition field_text :: "bytes \<Rightarrow> multipart_part \<Rightarrow> (problem, string) outcome" where
  "field_text body part =
     and_then (slice body (mp_start part) (mp_stop part)) (\<lambda>bs.
       ok_or (bad_request_response (mp_name part @ '' must be valid UTF-8'')) (str_from_utf8 bs))"

text \<open>\<open>presets\<close> is the table of the configuration, \<open>json\<close> the reader of an options document.\<close>

definition options_field ::
  "(string \<Rightarrow> options_payload option) \<Rightarrow> (bytes \<Rightarrow> string + options_payload) \<Rightarrow> bytes \<Rightarrow>
    multipart_part \<Rightarrow> (problem, transform_options) outcome" where
  "options_field presets json body part =
     and_then (slice body (mp_start part) (mp_stop part)) (\<lambda>bs.
     and_then (case mp_content_type part of
         Some t \<Rightarrow> reject_if (\<not> content_type_matches t ''application/json'') (bad_request_response
           ''multipart upload `options` field must use application/json when a content type is provided'')
       | None \<Rightarrow> Ok ()) (\<lambda>_.
     and_then (if bs = [] then Ok default_payload
       else case json bs of Inl sentence \<Rightarrow> Err (bad_request_response sentence) | Inr p \<Rightarrow> Ok p) (\<lambda>payload.
     and_then (resolve_preset presets payload) into_options)))"

definition take_field ::
  "(string \<Rightarrow> options_payload option) \<Rightarrow> (bytes \<Rightarrow> string + options_payload) \<Rightarrow> bytes \<Rightarrow>
    upload_fields \<Rightarrow> multipart_part \<Rightarrow> (problem, upload_fields) outcome" where
  "take_field presets json body u part =
     (let name = mp_name part; range = (mp_start part, mp_stop part);
          blank = (mp_stop part \<le> mp_start part); repeated = (\<lambda>c. reject_if c (multiple_fields name)) in
      if name = ''file'' then
        and_then (repeated (up_file u \<noteq> None)) (\<lambda>_.
        and_then (reject_if blank (bad_request_response ''multipart upload `file` field must not be empty'')) (\<lambda>_.
          Ok (u\<lparr>up_file := Some range\<rparr>)))
      else if name = ''options'' then
        and_then (repeated (up_options u \<noteq> None)) (\<lambda>_.
          map_ok (\<lambda>o'. u\<lparr>up_options := Some o'\<rparr>) (options_field presets json body part))
      else if name = ''watermark'' then
        and_then (repeated (up_watermark u \<noteq> None)) (\<lambda>_.
        and_then (reject_if blank (bad_request_response ''multipart upload `watermark` field must not be empty'')) (\<lambda>_.
        and_then (reject_if (MAX_WATERMARK_BYTES < mp_stop part - mp_start part) (bad_request_response
          ''multipart upload `watermark` field exceeds the 10 MB size limit'')) (\<lambda>_.
          Ok (u\<lparr>up_watermark := Some range\<rparr>))))
      else if name = ''watermark_position'' then
        and_then (repeated (up_position u \<noteq> None)) (\<lambda>_.
          map_ok (\<lambda>text. u\<lparr>up_position := Some (trim text)\<rparr>) (field_text body part))
      else if name = ''watermark_opacity'' then
        and_then (repeated (up_opacity u \<noteq> None)) (\<lambda>_.
        and_then (field_text body part) (\<lambda>text.
          map_ok (\<lambda>v. u\<lparr>up_opacity := Some v\<rparr>)
            (narrow_form_integer u8_try_from text name validate_watermark_opacity_value)))
      else if name = ''watermark_margin'' then
        and_then (repeated (up_margin u \<noteq> None)) (\<lambda>_.
        and_then (field_text body part) (\<lambda>text.
          map_ok (\<lambda>v. u\<lparr>up_margin := Some v\<rparr>)
            (narrow_form_integer u32_try_from text name validate_watermark_margin_value)))
      else Err (bad_request_response (''multipart upload contains an unsupported field `'' @ name @ ''`'')))"

fun take_fields ::
  "(upload_fields \<Rightarrow> multipart_part \<Rightarrow> (problem, upload_fields) outcome) \<Rightarrow> upload_fields \<Rightarrow>
    multipart_part list \<Rightarrow> (problem, upload_fields) outcome" where
  "take_fields accept u [] = Ok u"
| "take_fields accept u (p # ps) = and_then (accept u p) (\<lambda>u'. take_fields accept u' ps)"

definition upload_watermark :: "codecs \<Rightarrow> bytes \<Rightarrow> upload_fields \<Rightarrow> (problem, watermark_input option) outcome" where
  "upload_watermark X body u =
     (case up_watermark u of
        Some (a, b) \<Rightarrow> and_then (slice body a b) (\<lambda>bs.
          map_ok Some (resolve_multipart_watermark X bs (up_position u) (up_opacity u) (up_margin u)))
      | None \<Rightarrow>
          if up_position u \<noteq> None \<or> up_opacity u \<noteq> None \<or> up_margin u \<noteq> None
          then Err (bad_request_response
            ''watermark_position, watermark_opacity, and watermark_margin require a `watermark` file field'')
          else Ok None)"

definition parse_upload_request ::
  "codecs \<Rightarrow> (string \<Rightarrow> options_payload option) \<Rightarrow> (bytes \<Rightarrow> string + options_payload) \<Rightarrow> bytes \<Rightarrow> string \<Rightarrow> (problem, bytes \<times> transform_options \<times> watermark_input option) outcome" where
  "parse_upload_request X presets json body boundary =
     and_then (parse_multipart_form_data body boundary) (\<lambda>parts.
     and_then (take_fields (take_field presets json body) no_fields parts) (\<lambda>u.
     and_then (ok_or (bad_request_response ''multipart upload requires a `file` field'') (up_file u)) (\<lambda>(a, b).
     and_then (upload_watermark X body u) (\<lambda>watermark.
     and_then (slice body a b) (\<lambda>file.
       Ok (file, opt_or default_options (up_options u), watermark))))))"

section \<open>The forms a client can write\<close>

text \<open>A part as it is written: its header block and its data, behind the opening of the form.\<close>

record form_item =
  fi_block :: bytes
  fi_data :: bytes

definition item_bytes :: "bytes \<Rightarrow> form_item \<Rightarrow> bytes" where
  "item_bytes lead i = lead @ crlf_bytes @ fi_block i @ crlf2 @ fi_data i @ crlf_bytes"

definition form_bytes :: "bytes \<Rightarrow> form_item list \<Rightarrow> bytes \<Rightarrow> bytes" where
  "form_bytes lead is closing = concat (map (item_bytes lead) is) @ lead @ dashes @ closing"

text \<open>No blank line inside a header block, no delimiter inside the data, whatever follows.\<close>

definition block_ok :: "bytes \<Rightarrow> bool" where
  "block_ok block \<longleftrightarrow> find_sub (block @ crlf2) crlf2 = Some (length block)"

definition data_ok :: "bytes \<Rightarrow> bytes \<Rightarrow> bytes \<Rightarrow> bool" where
  "data_ok lead data rest \<longleftrightarrow>
     (\<forall>j < length data. \<not> boundary_at (data @ crlf_bytes @ rest) (crlf_bytes @ lead) j)"

fun form_ok :: "bytes \<Rightarrow> form_item list \<Rightarrow> bytes \<Rightarrow> bool" where
  "form_ok lead [] closing \<longleftrightarrow> closing = [] \<or> closing = crlf_bytes"
| "form_ok lead (i # is) closing \<longleftrightarrow>
     block_ok (fi_block i) \<and> data_ok lead (fi_data i) (form_bytes lead is closing) \<and> form_ok lead is closing"

text \<open>What the parts of a form are called, and where their data lies.\<close>

definition item_part :: "bytes \<Rightarrow> nat \<Rightarrow> form_item \<Rightarrow> (problem, multipart_part) outcome" where
  "item_part lead n i =
     and_then (parse_part_headers (fi_block i)) (\<lambda>hs.
       map_ok (\<lambda>name. let start = n + length lead + 2 + length (fi_block i) + 4 in
           \<lparr>mp_name = name, mp_content_type = header_value hs ''content-type'',
            mp_start = start, mp_stop = start + length (fi_data i)\<rparr>)
         (parse_multipart_part_name hs))"

fun form_parts :: "bytes \<Rightarrow> nat \<Rightarrow> form_item list \<Rightarrow> (problem, multipart_part list) outcome" where
  "form_parts lead n [] = Ok []"
| "form_parts lead n (i # is) =
     and_then (item_part lead n i) (\<lambda>p.
       map_ok ((#) p) (form_parts lead (n + length (item_bytes lead i)) is))"

section \<open>One step of the walk\<close>

lemma slice_from_Ok: "slice_from bs a = Ok x \<longleftrightarrow> a \<le> length bs \<and> x = drop a bs"
  by (auto simp: slice_from_def slice_def sub_bytes_def)

lemma find_valid_boundary_Some:
  assumes "d \<noteq> []"
  shows "find_valid_boundary h d = Some k \<longleftrightarrow> boundary_at h d k \<and> (\<forall>j < k. \<not> boundary_at h d j)"
  using find_valid_boundary_from_correct [OF assms, of 0 h] nat_neq_iff
  by (auto simp: find_valid_boundary_def split: option.splits)

lemma block_ok_found:
  "find_sub (block @ crlf2 @ rest) crlf2 = Some (length block) \<longleftrightarrow> block_ok block"
  using find_sub_prefix [of crlf2 "block @ crlf2" rest "length block"] find_sub_extend [of crlf2 "block @ crlf2" "length block" rest]
  by (auto simp: block_ok_def crlf2_def)

lemma found_block: "find_sub s crlf2 = Some n \<Longrightarrow> n + 4 \<le> length s \<and> s = take n s @ crlf2 @ drop (n + 4) s"
proof -
  assume "find_sub s crlf2 = Some n"
  from find_sub_Some [OF this] have len: "n + 4 \<le> length s" and "starts_with (drop n s) crlf2"
    by (simp_all add: crlf2_def)
  then have "take 4 (drop n s) = crlf2" by (simp add: starts_with_def crlf2_def eval_nat_numeral)
  then have "drop n s = crlf2 @ drop 4 (drop n s)" by (metis append_take_drop_id)
  then show ?thesis using len by (simp add: add.commute) (metis append_take_drop_id)
qed

lemma boundary_behind_data:
  "boundary_at (data @ crlf_bytes @ rest) (crlf_bytes @ lead) (length data) \<longleftrightarrow>
     starts_with rest (lead @ crlf_bytes) \<or> starts_with rest (lead @ dashes)"
  by (simp add: boundary_at_def crlf_bytes_def dashes_def)

lemma found_boundary:
  assumes "boundary_at s (crlf_bytes @ lead) n"
  shows "n + 2 \<le> length s \<and> s = take n s @ crlf_bytes @ drop (n + 2) s"
proof -
  have starts: "starts_with (drop n s) crlf_bytes"
    using assms by (auto simp: boundary_at_def starts_with_append_iff)
  then have "take 2 (drop n s) = crlf_bytes" by (simp add: starts_with_def crlf_bytes_def eval_nat_numeral)
  then have "drop n s = crlf_bytes @ drop 2 (drop n s)" by (metis append_take_drop_id)
  moreover from starts_with_length [OF starts] have "n + 2 \<le> length s" by (simp add: crlf_bytes_def)
  ultimately show ?thesis by (simp add: add.commute) (metis append_take_drop_id)
qed

lemma form_starts:
  "starts_with (form_bytes lead is closing) (lead @ crlf_bytes) \<or>
   starts_with (form_bytes lead is closing) (lead @ dashes)"
proof (cases "is")
  case Nil
  have "starts_with ((lead @ dashes) @ closing) (lead @ dashes)" by (rule starts_with_append)
  then show ?thesis by (simp add: Nil form_bytes_def)
next
  case (Cons i js)
  have "starts_with ((lead @ crlf_bytes) @ x) (lead @ crlf_bytes)" for x by (rule starts_with_append)
  then show ?thesis by (simp add: Cons form_bytes_def item_bytes_def)
qed

lemma drop_behind: "drop n s = p @ r \<Longrightarrow> m = n + length p \<Longrightarrow> drop m s = r"
  by (metis append_eq_conv_conj drop_drop add.commute)

lemma starts_at: "starts_with (drop n s) p \<Longrightarrow> drop n s = p @ drop (n + length p) s"
  using starts_withE [of "drop n s" p] drop_behind [of n s p] by metis

lemma step_Stop:
  assumes "n \<le> length body"
  shows "form_step lead (crlf_bytes @ lead) body n ps = Ok (Stop r) \<longleftrightarrow>
    (\<exists>closing. drop n body = lead @ dashes @ closing \<and> (closing = [] \<or> closing = crlf_bytes) \<and> r = ps)" (is "?L \<longleftrightarrow> ?R")
proof
  assume ?L
  then have here: "starts_with (drop n body) lead" "starts_with (drop (n + length lead) body) dashes"
    and closing: "let c = drop (n + length lead + 2) body in (c = [] \<or> c = crlf_bytes) \<and> r = ps"
    by (auto simp: form_step_def Let_def slice_from_Ok split: if_splits)
  have "drop n body = lead @ dashes @ drop (n + length lead + 2) body"
    using starts_at [OF here(1)] starts_at [OF here(2)] by (simp add: dashes_def)
  then show ?R using closing by (auto simp: Let_def)
next
  assume ?R
  then obtain closing where c: "drop n body = lead @ dashes @ closing" "closing = [] \<or> closing = crlf_bytes" "r = ps"
    by blast
  from arg_cong [OF c(1), of length] assms have len: "length body = n + length lead + 2 + length closing"
    by (simp add: dashes_def)
  have mark: "drop (n + length lead) body = dashes @ closing" by (rule drop_behind [OF c(1)]) simp
  have "drop (n + length lead + 2) body = closing" by (rule drop_behind [OF mark]) (simp add: dashes_def)
  with mark show ?L using c len by (auto simp: form_step_def Let_def slice_from_Ok)
qed

lemma step_Next:
  assumes "n \<le> length body"
  shows "form_step lead (crlf_bytes @ lead) body n ps = Ok (Next n' ps') \<longleftrightarrow>
    (\<exists>i rest p. drop n body = item_bytes lead i @ rest \<and>
      (starts_with rest (lead @ crlf_bytes) \<or> starts_with rest (lead @ dashes)) \<and>
      block_ok (fi_block i) \<and> data_ok lead (fi_data i) rest \<and> item_part lead n i = Ok p \<and>
      n' = n + length (item_bytes lead i) \<and> ps' = ps @ [p])" (is "?L \<longleftrightarrow> ?R")
proof
  assume ?L
  let ?block = "n + length lead + 2"
  from \<open>?L\<close> obtain k hs e name where
    here: "starts_with (drop n body) lead" "starts_with (drop (n + length lead) body) crlf_bytes"
    and k: "find_sub (drop ?block body) crlf2 = Some k" and hs: "parse_part_headers (sub_bytes body ?block (?block + k)) = Ok hs"
    and e: "find_valid_boundary (drop (?block + k + 4) body) (crlf_bytes @ lead) = Some e"
    and name: "parse_multipart_part_name hs = Ok name"
    and answer: "n' = ?block + k + 4 + e + 2" "ps' = ps @ [\<lparr>mp_name = name, mp_content_type = header_value hs ''content-type'',
             mp_start = ?block + k + 4, mp_stop = ?block + k + 4 + e\<rparr>]"
    by (auto simp: form_step_def Let_def slice_from_Ok slice_def split: if_splits)
  define i where "i = \<lparr>fi_block = take k (drop ?block body), fi_data = take e (drop (?block + k + 4) body)\<rparr>"
  define rest where "rest = drop (?block + k + 4 + e + 2) body"
  let ?data = "drop (?block + k + 4) body"
  have delim: "crlf_bytes @ lead \<noteq> []" by (simp add: crlf_bytes_def)
  note B = e [unfolded find_valid_boundary_Some [OF delim]]
  note data = found_boundary [OF conjunct1 [OF B]] and block = found_block [OF k]
  have lens: "length (fi_block i) = k" "length (fi_data i) = e"
    using data block by (auto simp: i_def)
  have data_eq: "?data = fi_data i @ crlf_bytes @ rest"
    using data by (simp add: i_def rest_def add.commute add.left_commute)
  have block_eq: "drop ?block body = fi_block i @ crlf2 @ ?data"
    using block by (simp add: i_def add.commute add.left_commute)
  have "drop n body = lead @ crlf_bytes @ drop ?block body"
    using starts_at [OF here(1)] starts_at [OF here(2)] by (simp add: crlf_bytes_def)
  with block_eq data_eq have "drop n body = item_bytes lead i @ rest" by (simp add: item_bytes_def)
  moreover have "starts_with rest (lead @ crlf_bytes) \<or> starts_with rest (lead @ dashes)"
    using B [unfolded data_eq] boundary_behind_data [of "fi_data i" rest lead] by (simp add: lens)
  moreover have "block_ok (fi_block i)"
    using k [unfolded block_eq] block_ok_found [of "fi_block i" ?data] by (simp add: lens)
  moreover have "data_ok lead (fi_data i) rest" using B [unfolded data_eq] by (simp add: data_ok_def lens)
  moreover have "item_part lead n i = Ok \<lparr>mp_name = name, mp_content_type = header_value hs ''content-type'',
             mp_start = ?block + k + 4, mp_stop = ?block + k + 4 + e\<rparr>"
    using hs name by (simp add: item_part_def lens) (simp add: i_def sub_bytes_def Let_def)
  moreover have "n' = n + length (item_bytes lead i)"
    using answer(1) by (simp add: item_bytes_def lens crlf_bytes_def crlf2_def)
  ultimately show ?R using answer(2) by blast
next
  assume ?R
  then obtain i rest p where r: "drop n body = item_bytes lead i @ rest"
    "starts_with rest (lead @ crlf_bytes) \<or> starts_with rest (lead @ dashes)" "block_ok (fi_block i)"
    "data_ok lead (fi_data i) rest" "item_part lead n i = Ok p" "n' = n + length (item_bytes lead i)" "ps' = ps @ [p]"
    by blast
  let ?block = "n + length lead + 2" and ?k = "length (fi_block i)"
  note here = r(1) [unfolded item_bytes_def, simplified]
  have len: "n + length (item_bytes lead i) \<le> length body" using arg_cong [OF r(1), of length] assms by simp
  have mark: "drop (n + length lead) body = crlf_bytes @ fi_block i @ crlf2 @ fi_data i @ crlf_bytes @ rest"
    by (rule drop_behind [OF here]) simp
  then have block: "drop ?block body = fi_block i @ crlf2 @ fi_data i @ crlf_bytes @ rest"
    by (rule drop_behind) (simp add: crlf_bytes_def)
  then have "drop (?block + ?k) body = crlf2 @ fi_data i @ crlf_bytes @ rest" by (rule drop_behind) simp
  then have data: "drop (?block + ?k + 4) body = fi_data i @ crlf_bytes @ rest"
    by (rule drop_behind) (simp add: crlf2_def)
  have delim: "crlf_bytes @ lead \<noteq> []" by (simp add: crlf_bytes_def)
  have found: "find_sub (drop ?block body) crlf2 = Some ?k"
    unfolding block using block_ok_found r(3) by blast
  have bound: "find_valid_boundary (drop (?block + ?k + 4) body) (crlf_bytes @ lead) = Some (length (fi_data i))"
    unfolding data find_valid_boundary_Some [OF delim] boundary_behind_data using r(2,4) by (simp add: data_ok_def)
  have sub: "sub_bytes body ?block (?block + ?k) = fi_block i" using block by (simp add: sub_bytes_def)
  obtain hs name where hs: "parse_part_headers (fi_block i) = Ok hs" "parse_multipart_part_name hs = Ok name"
    "p = \<lparr>mp_name = name, mp_content_type = header_value hs ''content-type'',
             mp_start = ?block + ?k + 4, mp_stop = ?block + ?k + 4 + length (fi_data i)\<rparr>"
    using r(5) by (auto simp: item_part_def Let_def)
  have not_closing: "\<not> starts_with (crlf_bytes @ x) dashes" for x by (simp add: crlf_bytes_def dashes_def)
  have "n + length lead \<le> length body" "?block \<le> length body" "?block + ?k + 4 \<le> length body"
    "slice body ?block (?block + ?k) = Ok (fi_block i)"
    using len sub by (simp_all add: item_bytes_def crlf_bytes_def crlf2_def slice_def)
  moreover have "length (item_bytes lead i) = length lead + ?k + length (fi_data i) + 8"
    by (simp add: item_bytes_def crlf_bytes_def crlf2_def)
  ultimately show ?L
    using r(6,7) assms found bound hs here mark not_closing
    by (simp add: form_step_def Let_def slice_from_Ok)
qed

section \<open>The walk reads what was written\<close>

lemma form_walks: "byte_walk (form_step lead (crlf_bytes @ lead) body) (length body)" if "lead \<noteq> []"
proof (unfold_locales, goal_cases)
  case (1 n ps n' ps')
  then have n: "n \<le> length body" by (auto simp: form_step_def slice_from_Ok)
  from 1 [unfolded step_Next [OF n]] obtain i rest where
    i: "drop n body = item_bytes lead i @ rest" "n' = n + length (item_bytes lead i)" by blast
  moreover have "0 < length (item_bytes lead i)" using that by (simp add: item_bytes_def)
  moreover have "length (item_bytes lead i) \<le> length body - n" using arg_cong [OF i(1), of length] by simp
  ultimately show ?case by linarith
qed

lemma form_walk:
  assumes "lead \<noteq> []"
  shows "n \<le> length body \<Longrightarrow>
    walk (form_step lead (crlf_bytes @ lead) body) (length body) n ps = Ok r \<longleftrightarrow>
    (\<exists>is closing qs. drop n body = form_bytes lead is closing \<and> form_ok lead is closing \<and>
      form_parts lead n is = Ok qs \<and> r = ps @ qs)"
proof (induction "length body - n" arbitrary: n ps rule: less_induct)
  case less
  let ?step = "form_step lead (crlf_bytes @ lead) body"
  note w = byte_walk.walk_unfold [OF form_walks [OF assms], of body n ps]
  have "walk ?step (length body) n ps = Ok r \<longleftrightarrow> ?step n ps = Ok (Stop r) \<or>
      (\<exists>n' ps'. ?step n ps = Ok (Next n' ps') \<and> walk ?step (length body) n' ps' = Ok r)"
  proof (cases "?step n ps")
    case (Ok x)
    then show ?thesis by (cases x) (auto simp: w)
  qed (simp_all add: w)
  also have "\<dots> \<longleftrightarrow> (\<exists>closing. drop n body = lead @ dashes @ closing \<and> (closing = [] \<or> closing = crlf_bytes) \<and> r = ps) \<or>
      (\<exists>n' ps'. (\<exists>i rest p. drop n body = item_bytes lead i @ rest \<and>
        (starts_with rest (lead @ crlf_bytes) \<or> starts_with rest (lead @ dashes)) \<and>
        block_ok (fi_block i) \<and> data_ok lead (fi_data i) rest \<and> item_part lead n i = Ok p \<and>
        n' = n + length (item_bytes lead i) \<and> ps' = ps @ [p]) \<and>
       (\<exists>is closing qs. drop n' body = form_bytes lead is closing \<and> form_ok lead is closing \<and>
        form_parts lead n' is = Ok qs \<and> r = ps' @ qs))" (is "_ \<longleftrightarrow> ?stop \<or> ?go")
  proof -
    have "walk ?step (length body) n' ps' = Ok r \<longleftrightarrow> (\<exists>is closing qs. drop n' body = form_bytes lead is closing \<and>
        form_ok lead is closing \<and> form_parts lead n' is = Ok qs \<and> r = ps' @ qs)"
      if step: "?step n ps = Ok (Next n' ps')" for n' ps'
    proof -
      have n: "n < n'" "n < length body" using byte_walk.progress [OF form_walks [OF assms] step] by simp_all
      from step [unfolded step_Next [OF less.prems]] obtain i rest where
        i: "drop n body = item_bytes lead i @ rest" "n' = n + length (item_bytes lead i)" by blast
      have "n' \<le> length body" using arg_cong [OF i(1), of length] i(2) less.prems by simp
      with n show ?thesis by (intro less.hyps) auto
    qed
    then show ?thesis unfolding step_Stop [OF less.prems] step_Next [OF less.prems, symmetric] by blast
  qed
  also have "\<dots> \<longleftrightarrow> (\<exists>is closing qs. drop n body = form_bytes lead is closing \<and> form_ok lead is closing \<and>
      form_parts lead n is = Ok qs \<and> r = ps @ qs)" (is "_ \<longleftrightarrow> ?form")
  proof
    assume "?stop \<or> ?go"
    then show ?form
    proof
      assume ?stop
      then obtain closing where c: "drop n body = lead @ dashes @ closing" "closing = [] \<or> closing = crlf_bytes" "r = ps" by blast
      then show ?form by (intro exI [of _ "[]"] exI [of _ closing]) (simp add: form_bytes_def)
    next
      assume ?go
      then obtain i rest p "is" closing qs where g: "drop n body = item_bytes lead i @ rest"
        "block_ok (fi_block i)" "data_ok lead (fi_data i) rest" "item_part lead n i = Ok p"
        "drop (n + length (item_bytes lead i)) body = form_bytes lead is closing" "form_ok lead is closing"
        "form_parts lead (n + length (item_bytes lead i)) is = Ok qs" "r = (ps @ [p]) @ qs" by blast
      have "rest = form_bytes lead is closing" using drop_behind [OF g(1) refl] g(5) by simp
      with g show ?form by (intro exI [of _ "i # is"] exI [of _ closing]) (simp add: form_bytes_def)
    qed
  next
    assume ?form
    then obtain "is" closing qs where f: "drop n body = form_bytes lead is closing" "form_ok lead is closing"
      "form_parts lead n is = Ok qs" "r = ps @ qs" by blast
    show "?stop \<or> ?go"
    proof (cases "is")
      case Nil
      with f show ?thesis by (auto simp: form_bytes_def)
    next
      case (Cons i js)
      with f(3) obtain p rs where p: "item_part lead n i = Ok p" "form_parts lead (n + length (item_bytes lead i)) js = Ok rs"
        "qs = p # rs" by auto
      have split: "drop n body = item_bytes lead i @ form_bytes lead js closing" using f(1) Cons by (simp add: form_bytes_def)
      have "drop (n + length (item_bytes lead i)) body = form_bytes lead js closing" by (rule drop_behind [OF split refl])
      moreover have "form_ok lead js closing" "block_ok (fi_block i)" "data_ok lead (fi_data i) (form_bytes lead js closing)"
        using f(2) Cons by simp_all
      ultimately have ?go using split p f(4) form_starts [of lead js closing]
        by (intro exI [of _ "n + length (item_bytes lead i)"] exI [of _ "ps @ [p]"] conjI exI [of _ i]
            exI [of _ "form_bytes lead js closing"] exI [of _ p] exI [of _ js] exI [of _ closing] exI [of _ rs]) simp_all
      then show ?thesis ..
    qed
  qed
  finally show ?case .
qed

text \<open>
  C37. The walk over a form accepts exactly the bodies a client can write with the boundary: parts
  of a header block and data, the block without a blank line, the data without the delimiter, and
  a closing delimiter with at most a line end behind it. It answers with exactly those parts, in
  their order, each with its name, its content type and the place of its data.
\<close>

theorem form_is_its_parts:
  "parse_multipart_form_data body boundary = Ok parts \<longleftrightarrow>
   (\<exists>items closing. body = form_bytes (opening_of boundary) items closing \<and>
     form_ok (opening_of boundary) items closing \<and> form_parts (opening_of boundary) 0 items = Ok parts)"
proof -
  have ne: "opening_of boundary \<noteq> []" by (simp add: opening_of_def ascii_def)
  have "starts_with (form_bytes (opening_of boundary) items closing) (opening_of boundary)" for items closing
    using form_starts [of "opening_of boundary" items closing] by (auto simp: starts_with_append_iff)
  then show ?thesis
    using form_walk [OF ne, of 0 body "[]" parts]
    by (auto simp: parse_multipart_form_data_def delimiter_of_def)
qed

section \<open>An upload is its fields\<close>

definition upload_names :: "string list" where
  "upload_names = [''file'', ''options'', ''watermark'', ''watermark_position'', ''watermark_opacity'', ''watermark_margin'']"

definition part_of :: "string \<Rightarrow> multipart_part list \<Rightarrow> multipart_part option" where
  "part_of name parts = find (\<lambda>p. mp_name p = name) parts"

definition part_range :: "multipart_part \<Rightarrow> nat \<times> nat" where
  "part_range p = (mp_start p, mp_stop p)"

text \<open>What the fields say after the parts were taken.\<close>

definition fields_of ::
  "(string \<Rightarrow> options_payload option) \<Rightarrow> (bytes \<Rightarrow> string + options_payload) \<Rightarrow> bytes \<Rightarrow> multipart_part list \<Rightarrow>
    upload_fields \<Rightarrow> bool" where
  "fields_of presets json body parts u \<longleftrightarrow>
     up_file u = map_option part_range (part_of ''file'' parts) \<and>
     (case part_of ''file'' parts of Some p \<Rightarrow> mp_start p < mp_stop p | None \<Rightarrow> True) \<and>
     map_option Ok (up_options u) = map_option (options_field presets json body) (part_of ''options'' parts) \<and>
     up_watermark u = map_option part_range (part_of ''watermark'' parts) \<and>
     (case part_of ''watermark'' parts of
        Some p \<Rightarrow> mp_start p < mp_stop p \<and> mp_stop p - mp_start p \<le> MAX_WATERMARK_BYTES | None \<Rightarrow> True) \<and>
     (up_position u = None \<longleftrightarrow> part_of ''watermark_position'' parts = None) \<and>
     (up_opacity u = None \<longleftrightarrow> part_of ''watermark_opacity'' parts = None) \<and>
     (up_margin u = None \<longleftrightarrow> part_of ''watermark_margin'' parts = None)"

lemma part_of_other: "mp_name p \<noteq> name \<Longrightarrow> part_of name (parts @ [p]) = part_of name parts"
  by (induction parts) (simp_all add: part_of_def)

lemma part_of_new: "part_of name parts = None \<Longrightarrow> mp_name p = name \<Longrightarrow> part_of name (parts @ [p]) = Some p"
  by (induction parts) (simp_all add: part_of_def split: if_splits)

lemma part_of_None: "part_of name parts = None \<longleftrightarrow> name \<notin> mp_name ` set parts"
  by (auto simp: part_of_def find_None_iff)

lemma take_field_fields:
  assumes f: "fields_of presets json body parts u" and t: "take_field presets json body u p = Ok u'"
  shows "fields_of presets json body (parts @ [p]) u' \<and> mp_name p \<in> set upload_names \<and> mp_name p \<notin> mp_name ` set parts"
proof -
  note other = part_of_other [of p] and new = part_of_new [of _ parts p]
  have "mp_name p \<in> set upload_names"
    using t by (auto simp: take_field_def upload_names_def Let_def split: if_splits)
  then consider "mp_name p = ''file''" | "mp_name p = ''options''" | "mp_name p = ''watermark''"
    | "mp_name p = ''watermark_position''" | "mp_name p = ''watermark_opacity''" | "mp_name p = ''watermark_margin''"
    by (auto simp: upload_names_def)
  then have "part_of (mp_name p) parts = None \<and> fields_of presets json body (parts @ [p]) u'"
  proof cases
    case 1
    with t have "up_file u = None" "mp_start p < mp_stop p" "u' = u\<lparr>up_file := Some (part_range p)\<rparr>"
      by (auto simp: take_field_def Let_def part_range_def not_le simp del: not_None_eq)
    with f 1 new other show ?thesis by (simp add: fields_of_def)
  next
    case 2
    with t obtain o' where "up_options u = None" "options_field presets json body p = Ok o'" "u' = u\<lparr>up_options := Some o'\<rparr>"
      by (auto simp: take_field_def Let_def)
    with f 2 new other show ?thesis by (cases "part_of ''options'' parts") (simp_all add: fields_of_def)
  next
    case 3
    with t have "up_watermark u = None" "mp_start p < mp_stop p" "mp_stop p - mp_start p \<le> MAX_WATERMARK_BYTES"
      "u' = u\<lparr>up_watermark := Some (part_range p)\<rparr>"
      by (auto simp: take_field_def Let_def part_range_def not_less not_le simp del: not_None_eq)
    with f 3 new other show ?thesis by (simp add: fields_of_def)
  next
    case 4
    with t obtain v where "up_position u = None" "u' = u\<lparr>up_position := Some v\<rparr>"
      by (auto simp: take_field_def Let_def)
    with f 4 new other show ?thesis by (simp add: fields_of_def)
  next
    case 5
    with t obtain v where "up_opacity u = None" "u' = u\<lparr>up_opacity := Some v\<rparr>"
      by (auto simp: take_field_def Let_def)
    with f 5 new other show ?thesis by (simp add: fields_of_def)
  next
    case 6
    with t obtain v where "up_margin u = None" "u' = u\<lparr>up_margin := Some v\<rparr>"
      by (auto simp: take_field_def Let_def)
    with f 6 new other show ?thesis by (simp add: fields_of_def)
  qed
  with \<open>mp_name p \<in> set upload_names\<close> show ?thesis by (simp add: part_of_None)
qed

lemma take_fields_fields:
  "fields_of presets json body done_parts u \<Longrightarrow> distinct (map mp_name done_parts) \<Longrightarrow>
   set (map mp_name done_parts) \<subseteq> set upload_names \<Longrightarrow>
   take_fields (take_field presets json body) u parts = Ok u' \<Longrightarrow>
   fields_of presets json body (done_parts @ parts) u' \<and> distinct (map mp_name (done_parts @ parts)) \<and>
   set (map mp_name (done_parts @ parts)) \<subseteq> set upload_names"
proof (induction parts arbitrary: done_parts u)
  case (Cons p ps)
  then obtain v where v: "take_field presets json body u p = Ok v" "take_fields (take_field presets json body) v ps = Ok u'"
    by auto
  from take_field_fields [OF Cons.prems(1) v(1)] Cons.prems(2,3) Cons.IH [of "done_parts @ [p]" v] v(2) show ?case by simp
qed simp

text \<open>
  An upload that is accepted is made of its fields: the parts of the form have distinct names
  of the six an upload may use, the file is the data of the part \<open>file\<close> and not empty, the
  options are those of the part \<open>options\<close> or the defaults, and there is a watermark exactly when
  there is a part \<open>watermark\<close>, which is then a raster picture of at most ten megabytes that
  carries the bytes of that part.
\<close>

theorem upload_is_its_fields:
  assumes "parse_upload_request X presets json body boundary = Ok (file, options, watermark)"
  shows "\<exists>parts p. parse_multipart_form_data body boundary = Ok parts \<and> distinct (map mp_name parts) \<and>
    set (map mp_name parts) \<subseteq> set upload_names \<and>
    part_of ''file'' parts = Some p \<and> file = sub_bytes body (mp_start p) (mp_stop p) \<and> file \<noteq> [] \<and>
    (case part_of ''options'' parts of
       Some q \<Rightarrow> options_field presets json body q = Ok options | None \<Rightarrow> options = default_options) \<and>
    (case part_of ''watermark'' parts of
       Some q \<Rightarrow> \<exists>w. watermark = Some w \<and> art_bytes (wm_image w) = sub_bytes body (mp_start q) (mp_stop q) \<and>
         length (art_bytes (wm_image w)) \<le> MAX_WATERMARK_BYTES \<and> is_raster (art_media_type (wm_image w))
     | None \<Rightarrow> watermark = None)"
proof -
  obtain parts u a b where run: "parse_multipart_form_data body boundary = Ok parts"
    "take_fields (take_field presets json body) no_fields parts = Ok u" "up_file u = Some (a, b)"
    "upload_watermark X body u = Ok watermark" "slice body a b = Ok file" "options = opt_or default_options (up_options u)"
    using assms by (auto simp: parse_upload_request_def)
  have "fields_of presets json body [] no_fields" by (simp add: fields_of_def part_of_def no_fields_def)
  from take_fields_fields [OF this _ _ run(2)] have f: "fields_of presets json body parts u"
    and names: "distinct (map mp_name parts)" "set (map mp_name parts) \<subseteq> set upload_names" by simp_all
  have from_file: "up_file u = map_option part_range (part_of ''file'' parts)"
    "case part_of ''file'' parts of Some p \<Rightarrow> mp_start p < mp_stop p | None \<Rightarrow> True"
    using f unfolding fields_of_def by blast+
  then obtain p where p: "part_of ''file'' parts = Some p" "a = mp_start p" "b = mp_stop p" "a < b"
    using run(3) by (cases "part_of ''file'' parts") (auto simp: part_range_def)
  have bytes: "file = sub_bytes body a b" "b \<le> length body" using run(5) by (auto simp: slice_def split: if_splits)
  have "file \<noteq> []" using bytes p(4) by (simp add: sub_bytes_def)
  moreover have "case part_of ''options'' parts of
      Some q \<Rightarrow> options_field presets json body q = Ok options | None \<Rightarrow> options = default_options"
    using f run(6) unfolding fields_of_def by (cases "part_of ''options'' parts") (auto simp: opt_or_def map_option_eq_Some)
  moreover have "case part_of ''watermark'' parts of
       Some q \<Rightarrow> \<exists>w. watermark = Some w \<and> art_bytes (wm_image w) = sub_bytes body (mp_start q) (mp_stop q) \<and>
         length (art_bytes (wm_image w)) \<le> MAX_WATERMARK_BYTES \<and> is_raster (art_media_type (wm_image w))
     | None \<Rightarrow> watermark = None"
  proof (cases "part_of ''watermark'' parts")
    case None
    then have "up_watermark u = None" using f unfolding fields_of_def by simp
    with None show ?thesis using run(4) by (simp add: upload_watermark_def split: if_splits)
  next
    case (Some q)
    then have q: "up_watermark u = Some (mp_start q, mp_stop q)" "mp_stop q - mp_start q \<le> MAX_WATERMARK_BYTES"
      using f unfolding fields_of_def by (simp_all add: part_range_def)
    from run(4) q(1) obtain bs w where w: "slice body (mp_start q) (mp_stop q) = Ok bs"
      "resolve_multipart_watermark X bs (up_position u) (up_opacity u) (up_margin u) = Ok w" "watermark = Some w"
      by (auto simp: upload_watermark_def)
    have bs: "bs = sub_bytes body (mp_start q) (mp_stop q)" using w(1) by (auto simp: slice_def split: if_splits)
    have "art_bytes (wm_image w) = bs \<and> is_raster (art_media_type (wm_image w))"
      using w(2) by (auto simp: resolve_multipart_watermark_def sniff_artifact_def Let_def split: if_splits)
    with w(3) bs q(2) Some show ?thesis by (simp add: sub_bytes_def)
  qed
  ultimately show ?thesis using run(1) names p bytes(1) by blast
qed

definition sample_form :: bytes where
  "sample_form = form_bytes (opening_of ''B'')
     [\<lparr>fi_block = ascii ''content-disposition: form-data; name=file'', fi_data = [1, 13, 10]\<rparr>] crlf_bytes"

lemma sample_upload:
  "parse_upload_request exif_says_six (\<lambda>_. None) (\<lambda>_. Inl []) sample_form ''B'' = Ok ([1, 13, 10], default_options, None)"
  by code_simp

theorem upload_is_its_fields_witness:
  "\<exists>parts p. parse_multipart_form_data sample_form ''B'' = Ok parts \<and> part_of ''file'' parts = Some p \<and>
     sub_bytes sample_form (mp_start p) (mp_stop p) = [1, 13, 10]"
  using upload_is_its_fields [OF sample_upload] by force

end
