(* ===== verification/Deadline.thy ===== *)
theory Deadline
  imports Options
begin

text \<open>
  The wall clock a transform is measured against, from \<open>src/codecs/raster.rs\<close>. The clock is an
  argument: the reading a check takes is a function of the stage it names and of the place of
  the check among those of its stage (a quality, a pixel), which no two checks of a transform
  share. A duration is a number of nanoseconds.
\<close>

type_synonym clock = "string \<Rightarrow> nat list \<Rightarrow> nat"

record budget =
  bg_start :: "nat option"
  bg_deadline :: "nat option"

definition starting :: "clock \<Rightarrow> nat option \<Rightarrow> budget" where
  "starting clk deadline = \<lparr>bg_start = map_option (\<lambda>_. clk ''start'' []) deadline, bg_deadline = deadline\<rparr>"

text \<open>\<open>{:.0}\<close> and \<open>{:.1}\<close> of a finite float that is not negative: its exact value, halves to even.\<close>

definition show_fixed :: "nat \<Rightarrow> float_val \<Rightarrow> string" where
  "show_fixed digits x =
     (case x of
        Fin a \<Rightarrow>
          let n = nat (round_even (a * 10 ^ digits)); fraction = show_nat (n mod 10 ^ digits) in
          show_nat (n div 10 ^ digits) @
            (if digits = 0 then [] else CHR ''.'' # replicate (digits - length fraction) CHR ''0'' @ fraction)
      | Inf s \<Rightarrow> (if s then ''-inf'' else ''inf'')
      | NaN \<Rightarrow> ''NaN'')"

definition check_deadline :: "nat \<Rightarrow> nat \<Rightarrow> string \<Rightarrow> (transform_error, unit) outcome" where
  "check_deadline elapsed limit stage =
     reject_if (limit < elapsed) (LimitExceeded
       (''transform exceeded '' @ show_fixed 0 (as_secs_f64 limit) @ ''s deadline after '' @ stage @
        '' (elapsed: '' @ show_fixed 1 (as_secs_f64 elapsed) @ ''s)''))"

definition budget_check :: "clock \<Rightarrow> budget \<Rightarrow> string \<Rightarrow> nat list \<Rightarrow> (transform_error, unit) outcome" where
  "budget_check clk b stage place =
     (case (bg_start b, bg_deadline b) of
        (Some start, Some limit) \<Rightarrow> check_deadline (clk stage place - start) limit stage
      | _ \<Rightarrow> Ok ())"

text \<open>A check that passed: the clock had not run past the deadline when it was read.\<close>

definition in_time :: "clock \<Rightarrow> nat option \<Rightarrow> string \<Rightarrow> nat list \<Rightarrow> bool" where
  "in_time clk deadline stage place \<longleftrightarrow>
     (case deadline of Some limit \<Rightarrow> clk stage place \<le> clk ''start'' [] + limit | None \<Rightarrow> True)"

lemma check_deadline_Ok [simp]: "check_deadline elapsed limit stage = Ok u \<longleftrightarrow> elapsed \<le> limit"
  by (simp add: check_deadline_def not_less)

lemma budget_check_Ok [simp]:
  "budget_check clk (starting clk deadline) stage place = Ok u \<longleftrightarrow> in_time clk deadline stage place"
  by (auto simp: budget_check_def starting_def in_time_def split: option.splits)

lemma budget_check_no_panic [simp]: "budget_check clk b stage place \<noteq> Panic"
  by (auto simp: budget_check_def check_deadline_def split: option.splits)

end
