(* ===== verification/Pixels.thy ===== *)
theory Pixels
  imports Geometry Deadline Inject
begin

text \<open>
  The arithmetic on pixels of \<open>src/codecs/raster.rs\<close>: rotation by any angle with bilinear
  sampling in premultiplied alpha, flattening onto a background, the opacity of a watermark, the
  test for transparency, and the scores that steer the search for a quality.

  A buffer of the image crate is its size and its pixels, row by row. What that crate computes
  (\<open>Pixel::blend\<close>) and what the platform computes (sine, cosine, logarithm) are arguments.

  What is shown: no sample is read outside the buffer, and an opaque picture turned on an
  opaque background has no transparent pixel, whatever the rounding of the interpolation.
\<close>

section \<open>More of \<open>f64\<close> and \<open>f32\<close>\<close>

fun float_floor :: "float_val \<Rightarrow> float_val" where
  "float_floor (Fin a) = Fin (of_int \<lfloor>a\<rfloor>)"
| "float_floor x = x"

fun float_ceil :: "float_val \<Rightarrow> float_val" where
  "float_ceil (Fin a) = Fin (of_int \<lceil>a\<rceil>)"
| "float_ceil x = x"

fun float_abs :: "float_val \<Rightarrow> float_val" where
  "float_abs (Fin a) = Fin \<bar>a\<bar>"
| "float_abs (Inf s) = Inf False"
| "float_abs NaN = NaN"

text \<open>\<open>f64::mul_add\<close> rounds once; \<open>clamp\<close> lets a NaN through.\<close>

fun f64_mul_add :: "float_val \<Rightarrow> float_val \<Rightarrow> float_val \<Rightarrow> float_val" where
  "f64_mul_add (Fin a) (Fin b) (Fin c) = f64_of (a * b + c)"
| "f64_mul_add (Fin a) (Fin b) c = c"
| "f64_mul_add a b c = f64_add (f64_mul a b) c"

definition float_clamp :: "float_val \<Rightarrow> float_val \<Rightarrow> float_val \<Rightarrow> float_val" where
  "float_clamp lo hi x = (if float_lt x lo then lo else if float_lt hi x then hi else x)"

fun float_to_u8 :: "float_val \<Rightarrow> u8" where
  "float_to_u8 (Fin a) = (if a < 0 then 0 else if 255 \<le> a then 255 else word_of_int \<lfloor>a\<rfloor>)"
| "float_to_u8 (Inf s) = (if s then 0 else 255)"
| "float_to_u8 NaN = 0"

fun float_to_i64 :: "float_val \<Rightarrow> int" where
  "float_to_i64 (Fin a) =
     (let k = (if 0 \<le> a then \<lfloor>a\<rfloor> else \<lceil>a\<rceil>) in max (- (2 ^ 63)) (min (2 ^ 63 - 1) k))"
| "float_to_i64 (Inf s) = (if s then - (2 ^ 63) else 2 ^ 63 - 1)"
| "float_to_i64 NaN = 0"

fun f64_to_f32 :: "float_val \<Rightarrow> float_val" where
  "f64_to_f32 (Fin a) = f32_of a"
| "f64_to_f32 x = x"

definition float_of_u8 :: "u8 \<Rightarrow> float_val" where
  "float_of_u8 w = Fin (of_nat (unat w))"

section \<open>Buffers\<close>

record rgba_image =
  ri_width :: u32
  ri_height :: u32
  ri_pixels :: "rgba8 list"

definition ri_size :: "rgba_image \<Rightarrow> dim" where
  "ri_size b = (ri_width b, ri_height b)"

text \<open>The buffers the crate hands out hold a pixel for every position.\<close>

definition buffer_ok :: "rgba_image \<Rightarrow> bool" where
  "buffer_ok b \<longleftrightarrow> length (ri_pixels b) = unat (ri_width b) * unat (ri_height b)"

text \<open>\<open>get_pixel\<close> panics outside the buffer; \<open>from_pixel\<close> fills one.\<close>

definition get_pixel :: "rgba_image \<Rightarrow> u32 \<Rightarrow> u32 \<Rightarrow> ('e, rgba8) outcome" where
  "get_pixel b x y =
     (let i = unat y * unat (ri_width b) + unat x in
      if x < ri_width b \<and> y < ri_height b \<and> i < length (ri_pixels b) then Ok (ri_pixels b ! i) else Panic)"

definition from_pixel :: "u32 \<Rightarrow> u32 \<Rightarrow> rgba8 \<Rightarrow> rgba_image" where
  "from_pixel w h p = \<lparr>ri_width = w, ri_height = h, ri_pixels = replicate (unat w * unat h) p\<rparr>"

text \<open>A loop that puts a pixel at every position, row by row.\<close>

fun collect_outcomes :: "('a \<Rightarrow> ('e, 'b) outcome) \<Rightarrow> 'a list \<Rightarrow> ('e, 'b list) outcome" where
  "collect_outcomes f [] = Ok []"
| "collect_outcomes f (x # xs) = and_then (f x) (\<lambda>y. map_ok ((#) y) (collect_outcomes f xs))"

definition positions :: "u32 \<Rightarrow> u32 \<Rightarrow> (nat \<times> nat) list" where
  "positions w h = concat (map (\<lambda>y. map (\<lambda>x. (x, y)) [0..<unat w]) [0..<unat h])"

definition put_all :: "u32 \<Rightarrow> u32 \<Rightarrow> (nat \<Rightarrow> nat \<Rightarrow> ('e, rgba8) outcome) \<Rightarrow> ('e, rgba_image) outcome" where
  "put_all w h f =
     map_ok (\<lambda>ps. \<lparr>ri_width = w, ri_height = h, ri_pixels = ps\<rparr>)
       (collect_outcomes (\<lambda>(x, y). f x y) (positions w h))"

section \<open>Rotation\<close>

text \<open>Sine and cosine of a whole number of degrees, converted as the code converts it.\<close>

type_synonym trig = "u16 \<Rightarrow> float_val \<times> float_val"

definition rotated_bounding_box :: "trig \<Rightarrow> u32 \<Rightarrow> u32 \<Rightarrow> u16 \<Rightarrow> dim" where
  "rotated_bounding_box trig width height degrees =
     (if degrees = 0 \<or> degrees = 180 then (width, height)
      else if degrees = 90 \<or> degrees = 270 then (height, width)
      else
        let (sin, cos) = trig degrees; w = f64_from width; h = f64_from height;
            out_w = float_max (float_ceil (f64_add (f64_mul w (float_abs cos)) (f64_mul h (float_abs sin)))) (Fin 1);
            out_h = float_max (float_ceil (f64_add (f64_mul w (float_abs sin)) (f64_mul h (float_abs cos)))) (Fin 1)
        in (float_to_u32 out_w, float_to_u32 out_h))"

definition check_rotated_pixel_limit :: "trig \<Rightarrow> u32 \<Rightarrow> u32 \<Rightarrow> u16 \<Rightarrow> (transform_error, dim) outcome" where
  "check_rotated_pixel_limit trig width height degrees =
     (let out = rotated_bounding_box trig width height degrees in
      if MAX_OUTPUT_PIXELS < pixels_of out
      then Err (LimitExceeded (''rotating '' @ show_dim (width, height) @ '' by '' @ show_word degrees @
        '' degrees needs a '' @ show_dim out @ '' canvas ('' @ show_nat (pixels_of out) @
        '' pixels), limit is '' @ show_nat MAX_OUTPUT_PIXELS))
      else Ok out)"

text \<open>A pixel in premultiplied alpha is its four channels, red to alpha.\<close>

definition premultiply :: "rgba8 \<Rightarrow> float_val list" where
  "premultiply p =
     (let alpha = f64_div (float_of_u8 (col_a p)) (Fin 255) in
      [f64_mul (float_of_u8 (col_r p)) alpha, f64_mul (float_of_u8 (col_g p)) alpha,
       f64_mul (float_of_u8 (col_b p)) alpha, float_of_u8 (col_a p)])"

text \<open>The closure \<open>at\<close>: a position as \<open>i64\<close>, cast to \<open>u32\<close> once it is known not to be negative.\<close>

definition sample_at :: "rgba_image \<Rightarrow> float_val list \<Rightarrow> int \<Rightarrow> int \<Rightarrow> ('e, float_val list) outcome" where
  "sample_at source outside px py =
     (if px < 0 \<or> py < 0 then Ok outside
      else
        let x = word_of_int px; y = word_of_int py in
        if ri_width source \<le> x \<or> ri_height source \<le> y then Ok outside
        else map_ok premultiply (get_pixel source x y))"

definition blend_axis :: "float_val \<Rightarrow> float_val \<Rightarrow> float_val \<Rightarrow> float_val" where
  "blend_axis f a b = f64_add (f64_mul a (f64_sub (Fin 1) f)) (f64_mul b f)"

definition channel_to_u8 :: "float_val \<Rightarrow> u8" where
  "channel_to_u8 v = float_to_u8 (float_clamp (Fin 0) (Fin 255) (float_round v))"

definition unpremultiply :: "float_val list \<Rightarrow> rgba8" where
  "unpremultiply blended =
     (let alpha = blended ! 3 in
      if float_le alpha (Fin 0) then \<lparr>col_r = 0, col_g = 0, col_b = 0, col_a = 0\<rparr>
      else
        let scale = f64_div (Fin 255) alpha in
        \<lparr>col_r = channel_to_u8 (f64_mul (blended ! 0) scale), col_g = channel_to_u8 (f64_mul (blended ! 1) scale),
         col_b = channel_to_u8 (f64_mul (blended ! 2) scale), col_a = channel_to_u8 alpha\<rparr>)"

definition sample_bilinear ::
  "rgba_image \<Rightarrow> float_val \<Rightarrow> float_val \<Rightarrow> float_val list \<Rightarrow> ('e, rgba8) outcome" where
  "sample_bilinear source x y outside =
     (let x0 = float_floor x; y0 = float_floor y; fx = f64_sub x x0; fy = f64_sub y y0;
          px = float_to_i64 x0; py = float_to_i64 y0 in
      and_then (sample_at source outside px py) (\<lambda>top_left.
      and_then (sample_at source outside (px + 1) py) (\<lambda>top_right.
      and_then (sample_at source outside px (py + 1)) (\<lambda>bottom_left.
      and_then (sample_at source outside (px + 1) (py + 1)) (\<lambda>bottom_right.
        Ok (unpremultiply (map (\<lambda>c.
          let top = blend_axis fx (top_left ! c) (top_right ! c);
              bottom = blend_axis fx (bottom_left ! c) (bottom_right ! c)
          in blend_axis fy top bottom) [0..<4])))))))"

text \<open>Where the centre of an output pixel comes from: the inverse of a clockwise turn.\<close>

definition source_position :: "float_val \<times> float_val \<Rightarrow> dim \<Rightarrow> dim \<Rightarrow> nat \<Rightarrow> nat \<Rightarrow> float_val \<times> float_val" where
  "source_position sc source out x y =
     (let (sin, cos) = sc; half = (\<lambda>w. f64_div (f64_from w) (Fin 2));
          from_centre = (\<lambda>i w. f64_sub (f64_add (Fin (of_nat i)) (Fin (1 / 2))) (half w));
          dx = from_centre x (fst out); dy = from_centre y (snd out);
          back = (\<lambda>v w. f64_sub (f64_add v (half w)) (Fin (1 / 2))) in
      (back (f64_mul_add dx cos (f64_mul dy sin)) (fst source),
       back (f64_mul_add dx (float_neg sin) (f64_mul dy cos)) (snd source)))"

definition rotate_arbitrary ::
  "trig \<Rightarrow> rgba_image \<Rightarrow> rotation \<Rightarrow> rgba8 option \<Rightarrow> media_type \<Rightarrow> (transform_error, rgba_image) outcome" where
  "rotate_arbitrary trig source rotation background format =
     (let degrees = as_degrees rotation in
      and_then (check_rotated_pixel_limit trig (ri_width source) (ri_height source) degrees) (\<lambda>out.
        let outside = premultiply (background_pixel background format) in
        put_all (fst out) (snd out) (\<lambda>x y.
          let (sx, sy) = source_position (trig degrees) (ri_size source) out x y
          in sample_bilinear source sx sy outside)))"

section \<open>Images\<close>

text \<open>
  What the pipeline asks of the image crate, over an arbitrary type of decoded images. The
  alpha samples an image stores depend on its pixel layout; a layout without them stores none.
\<close>

datatype alpha_samples = No_alpha | Alpha8 "u8 list" | Alpha16 "u16 list" | Alpha32F "float_val list"

record 'i image_ops =
  im_size :: "'i \<Rightarrow> dim"
  im_alpha :: "'i \<Rightarrow> alpha_samples"
  im_to_rgba8 :: "'i \<Rightarrow> rgba_image"
  im_of_rgba8 :: "rgba_image \<Rightarrow> 'i"
  im_luma8 :: "'i \<Rightarrow> dim \<times> u8 list"
  im_fliph :: "'i \<Rightarrow> 'i"
  im_flipv :: "'i \<Rightarrow> 'i"
  im_rotate90 :: "'i \<Rightarrow> 'i"
  im_rotate180 :: "'i \<Rightarrow> 'i"
  im_rotate270 :: "'i \<Rightarrow> 'i"
  im_crop :: "u32 \<Rightarrow> u32 \<Rightarrow> u32 \<Rightarrow> u32 \<Rightarrow> 'i \<Rightarrow> 'i"
  im_resize_exact :: "u32 \<Rightarrow> u32 \<Rightarrow> 'i \<Rightarrow> 'i"
  im_blur :: "float_val \<Rightarrow> 'i \<Rightarrow> 'i"
  im_unsharpen :: "float_val \<Rightarrow> int \<Rightarrow> 'i \<Rightarrow> 'i"
  im_grayscale :: "'i \<Rightarrow> 'i"
  im_decode :: "media_type \<Rightarrow> bytes \<Rightarrow> (image_error, 'i) outcome"
  buf_overlay :: "rgba_image \<Rightarrow> rgba_image \<Rightarrow> int \<Rightarrow> int \<Rightarrow> rgba_image"
  buf_crop :: "u32 \<Rightarrow> u32 \<Rightarrow> u32 \<Rightarrow> u32 \<Rightarrow> rgba_image \<Rightarrow> rgba_image"
  px_blend :: "rgba8 \<Rightarrow> rgba8 \<Rightarrow> rgba8"
  deg_sin_cos :: trig
  f64_log10 :: "float_val \<Rightarrow> float_val"

definition image_has_transparency :: "'i image_ops \<Rightarrow> 'i \<Rightarrow> bool" where
  "image_has_transparency J img =
     (case im_alpha J img of
        Alpha8 samples \<Rightarrow> list_ex (\<lambda>a. a \<noteq> 255) samples
      | Alpha16 samples \<Rightarrow> list_ex (\<lambda>a. a \<noteq> 65535) samples
      | Alpha32F samples \<Rightarrow> list_ex (\<lambda>a. float_lt a (Fin 1)) samples
      | No_alpha \<Rightarrow> False)"

definition format_carries_alpha :: "media_type \<Rightarrow> bool" where
  "format_carries_alpha m \<longleftrightarrow> m \<noteq> Jpeg"

definition flatten_pixel :: "'i image_ops \<Rightarrow> rgba8 \<Rightarrow> rgba8 \<Rightarrow> rgba8" where
  "flatten_pixel J fill p =
     (if col_a p = 0 then fill else if col_a p = 255 then p else px_blend J fill p)"

definition map_pixels :: "(rgba8 \<Rightarrow> rgba8) \<Rightarrow> rgba_image \<Rightarrow> rgba_image" where
  "map_pixels f b = b\<lparr>ri_pixels := map f (ri_pixels b)\<rparr>"

definition flatten_for_opaque_output :: "'i image_ops \<Rightarrow> 'i \<Rightarrow> rgba8 option \<Rightarrow> media_type \<Rightarrow> 'i" where
  "flatten_for_opaque_output J img background format =
     (if format_carries_alpha format \<or> \<not> image_has_transparency J img then img
      else im_of_rgba8 J (map_pixels (flatten_pixel J (background_pixel background format)) (im_to_rgba8 J img)))"

definition output_has_alpha :: "'i image_ops \<Rightarrow> 'i \<Rightarrow> media_type \<Rightarrow> bool" where
  "output_has_alpha J img m \<longleftrightarrow> format_carries_alpha m \<and> image_has_transparency J img"

text \<open>The opacity of a watermark, in \<open>f32\<close>; the product is cut off, not rounded.\<close>

definition scaled_alpha :: "u8 \<Rightarrow> u8 \<Rightarrow> u8" where
  "scaled_alpha opacity a =
     (case (f32_of (of_nat (unat opacity) / 100)) of
        Fin s \<Rightarrow> float_to_u8 (f32_of (of_nat (unat a) * s))
      | _ \<Rightarrow> 0)"

definition apply_opacity :: "u8 \<Rightarrow> rgba_image \<Rightarrow> rgba_image" where
  "apply_opacity opacity = map_pixels (\<lambda>p. p\<lparr>col_a := scaled_alpha opacity (col_a p)\<rparr>)"

section \<open>Scores\<close>

text \<open>A pass over the pixels that reads the clock every 16384 of them.\<close>

fun metered_fold ::
  "(nat \<Rightarrow> ('e, unit) outcome) \<Rightarrow> ('s \<Rightarrow> 'a \<Rightarrow> 's) \<Rightarrow> nat \<Rightarrow> 'a list \<Rightarrow> 's \<Rightarrow> ('e, 's) outcome" where
  "metered_fold tick f i [] s = Ok s"
| "metered_fold tick f i (x # xs) s =
     and_then (if i mod 16384 = 0 then tick i else Ok ()) (\<lambda>_. metered_fold tick f (Suc i) xs (f s x))"

definition channels :: "rgba8 \<Rightarrow> u8 list" where
  "channels p = [col_r p, col_g p, col_b p, col_a p]"

definition add_squared_error :: "float_val \<Rightarrow> u8 \<times> u8 \<Rightarrow> float_val" where
  "add_squared_error acc ab =
     (let delta = f64_sub (float_of_u8 (fst ab)) (float_of_u8 (snd ab)) in f64_add acc (f64_mul delta delta))"

definition mismatched :: transform_error where
  "mismatched = EncodeFailed ''quality metric comparison produced mismatched dimensions''"

definition compute_psnr ::
  "'i image_ops \<Rightarrow> (string \<Rightarrow> nat list \<Rightarrow> (transform_error, unit) outcome) \<Rightarrow> nat list \<Rightarrow> 'i \<Rightarrow> 'i \<Rightarrow>
    (transform_error, float_val) outcome" where
  "compute_psnr J tick place reference candidate =
     (let lhs = im_to_rgba8 J reference; rhs = im_to_rgba8 J candidate in
      if ri_size lhs \<noteq> ri_size rhs then Err mismatched
      else
        and_then (metered_fold (\<lambda>i. tick ''measure lossy optimization psnr'' (place @ [i]))
            (\<lambda>acc (l, r). foldl add_squared_error acc (zip (channels l) (channels r)))
            0 (zip (ri_pixels lhs) (ri_pixels rhs)) (Fin 0)) (\<lambda>squared_error.
          let count = f64_mul (f64_mul (f64_from (ri_width lhs)) (f64_from (ri_height lhs))) (Fin 4);
              mse = f64_div squared_error (float_max count (Fin 1)) in
          if mse = Fin 0 then Ok (Inf False)
          else Ok (f64_to_f32 (f64_mul (Fin 10) (f64_log10 J (f64_div (Fin (255 * 255)) mse))))))"

definition compute_ssim ::
  "'i image_ops \<Rightarrow> (string \<Rightarrow> nat list \<Rightarrow> (transform_error, unit) outcome) \<Rightarrow> nat list \<Rightarrow> 'i \<Rightarrow> 'i \<Rightarrow>
    (transform_error, float_val) outcome" where
  "compute_ssim J tick place reference candidate =
     (let (lsize, lhs) = im_luma8 J reference; (rsize, rhs) = im_luma8 J candidate;
          count = f64_mul (f64_from (fst lsize)) (f64_from (snd lsize)); pairs = zip lhs rhs in
      if lsize \<noteq> rsize then Err mismatched
      else if float_le count (Fin 0) then Ok (Fin 1)
      else
        and_then (metered_fold (\<lambda>i. tick ''measure lossy optimization ssim mean'' (place @ [i]))
            (\<lambda>(sx, sy) (l, r). (f64_add sx (float_of_u8 l), f64_add sy (float_of_u8 r)))
            0 pairs (Fin 0, Fin 0)) (\<lambda>(sum_x, sum_y).
          let mean_x = f64_div sum_x count; mean_y = f64_div sum_y count in
        and_then (metered_fold (\<lambda>i. tick ''measure lossy optimization ssim variance'' (place @ [i]))
            (\<lambda>(vx, vy, cov) (l, r).
               let x = f64_sub (float_of_u8 l) mean_x; y = f64_sub (float_of_u8 r) mean_y in
               (f64_add vx (f64_mul x x), f64_add vy (f64_mul y y), f64_add cov (f64_mul x y)))
            0 pairs (Fin 0, Fin 0, Fin 0)) (\<lambda>(sum_vx, sum_vy, sum_cov).
          let variance_x = f64_div sum_vx count; variance_y = f64_div sum_vy count;
              covariance = f64_div sum_cov count;
              square = (\<lambda>v. f64_mul v v);
              c1 = square (f64_mul (f64_of (1 / 100)) (Fin 255)); c2 = square (f64_mul (f64_of (3 / 100)) (Fin 255));
              numerator = f64_mul (f64_add (f64_mul (f64_mul (Fin 2) mean_x) mean_y) c1)
                (f64_add (f64_mul (Fin 2) covariance) c2);
              denominator = f64_mul (f64_add (f64_add (square mean_x) (square mean_y)) c1)
                (f64_add (f64_add variance_x variance_y) c2) in
          if denominator = Fin 0 then Ok (Fin 1)
          else Ok (f64_to_f32 (float_clamp (Fin 0) (Fin 1) (f64_div numerator denominator))))))"

section \<open>Nothing is read outside a buffer\<close>

lemma get_pixel_ok:
  assumes b: "buffer_ok b" and x: "x < ri_width b" and y: "y < ri_height b"
  shows "get_pixel b x y = Ok (ri_pixels b ! (unat y * unat (ri_width b) + unat x))"
    and "unat y * unat (ri_width b) + unat x < length (ri_pixels b)"
proof -
  have "unat y * unat (ri_width b) + unat x < unat y * unat (ri_width b) + unat (ri_width b)"
    using x by (simp add: word_less_nat_alt)
  also have "\<dots> = Suc (unat y) * unat (ri_width b)" by simp
  also have "\<dots> \<le> unat (ri_height b) * unat (ri_width b)"
    using y by (intro mult_le_mono1) (simp add: word_less_nat_alt)
  finally show i: "unat y * unat (ri_width b) + unat x < length (ri_pixels b)"
    using b by (simp add: buffer_ok_def mult.commute)
  with x y show "get_pixel b x y = Ok (ri_pixels b ! (unat y * unat (ri_width b) + unat x))"
    by (simp add: get_pixel_def Let_def)
qed

lemma sample_at_reads:
  assumes "buffer_ok source"
  shows "\<exists>v. sample_at source outside px py = Ok v \<and> (v = outside \<or> v \<in> premultiply ` set (ri_pixels source))"
proof (cases "px < 0 \<or> py < 0 \<or> ri_width source \<le> word_of_int px \<or> ri_height source \<le> word_of_int py")
  case True
  then show ?thesis by (auto simp: sample_at_def Let_def)
next
  case False
  then have "word_of_int px < ri_width source" "word_of_int py < ri_height source" by (simp_all add: not_le)
  from get_pixel_ok [OF assms this] False show ?thesis
    by (auto simp: sample_at_def Let_def simp flip: not_le)
qed

lemma sample_bilinear_reads:
  assumes "buffer_ok source"
  shows "\<exists>a b c d. sample_bilinear source x y outside =
      (Ok (unpremultiply (map (\<lambda>k. blend_axis (f64_sub y (float_floor y))
        (blend_axis (f64_sub x (float_floor x)) (a ! k) (b ! k))
        (blend_axis (f64_sub x (float_floor x)) (c ! k) (d ! k))) [0..<4])) :: ('e, rgba8) outcome) \<and>
      {a, b, c, d} \<subseteq> insert outside (premultiply ` set (ri_pixels source))"
proof -
  let ?px = "float_to_i64 (float_floor x)" and ?py = "float_to_i64 (float_floor y)"
  obtain a b c d where at: "sample_at source outside ?px ?py = (Ok a :: ('e, float_val list) outcome)" "sample_at source outside (?px + 1) ?py = (Ok b :: ('e, float_val list) outcome)"
      "sample_at source outside ?px (?py + 1) = (Ok c :: ('e, float_val list) outcome)" "sample_at source outside (?px + 1) (?py + 1) = (Ok d :: ('e, float_val list) outcome)"
    and mem: "{a, b, c, d} \<subseteq> insert outside (premultiply ` set (ri_pixels source))"
    using sample_at_reads [OF assms, of outside ?px ?py] sample_at_reads [OF assms, of outside "?px + 1" ?py]
      sample_at_reads [OF assms, of outside ?px "?py + 1"] sample_at_reads [OF assms, of outside "?px + 1" "?py + 1"]
    by auto
  show ?thesis
    by (rule exI [of _ a], rule exI [of _ b], rule exI [of _ c], rule exI [of _ d])
      (simp add: sample_bilinear_def Let_def at mem [simplified])
qed

lemma collect_outcomes_ok: "(\<And>x. x \<in> set xs \<Longrightarrow> f x = Ok (g x)) \<Longrightarrow> collect_outcomes f xs = Ok (map g xs)"
  by (induction xs) simp_all

lemma length_positions: "length (positions w h) = unat w * unat h"
  by (simp add: positions_def length_concat comp_def sum_list_triv)

lemma set_positions: "(x, y) \<in> set (positions w h) \<longleftrightarrow> x < unat w \<and> y < unat h"
  by (auto simp: positions_def image_iff)

lemma put_all_ok:
  assumes "\<And>x y. x < unat w \<Longrightarrow> y < unat h \<Longrightarrow> \<exists>p. f x y = Ok p \<and> P p"
  shows "\<exists>b. put_all w h f = Ok b \<and> buffer_ok b \<and> ri_size b = (w, h) \<and> list_all P (ri_pixels b)"
proof -
  define g where "g = (\<lambda>(x, y). SOME p. f x y = Ok p \<and> P p)"
  have g: "f x y = Ok (g (x, y)) \<and> P (g (x, y))" if "(x, y) \<in> set (positions w h)" for x y
    unfolding g_def using someI_ex [OF assms] that by (simp add: set_positions)
  then have "collect_outcomes (\<lambda>(x, y). f x y) (positions w h) = Ok (map g (positions w h))"
    by (intro collect_outcomes_ok) auto
  then show ?thesis using g
    by (auto simp: put_all_def buffer_ok_def ri_size_def length_positions list_all_iff)
qed

section \<open>Opaque pixels stay opaque\<close>

definition near :: "rat \<Rightarrow> rat \<Rightarrow> float_val \<Rightarrow> bool" where
  "near e c v \<longleftrightarrow> (\<exists>r. v = Fin r \<and> \<bar>r - c\<bar> \<le> e)"

lemma fl64_unit: "0 \<le> x \<Longrightarrow> x \<le> 1 \<Longrightarrow> 0 \<le> fl64 x \<and> fl64 x \<le> 1"
  using f64.nonneg [of x] f64.mono [of x 1] f64.exact_nat [of 1] by simp

lemma fraction_unit: "\<exists>g. f64_sub (Fin x) (float_floor (Fin x)) = Fin g \<and> 0 \<le> g \<and> g \<le> 1"
proof -
  have x: "0 \<le> x - of_int \<lfloor>x\<rfloor>" "x - of_int \<lfloor>x\<rfloor> \<le> 1" by linarith+
  have "x - of_int \<lfloor>x\<rfloor> \<le> 2 ^ 100" using x(2) by (rule order_trans) simp
  then have "f64_sub (Fin x) (float_floor (Fin x)) = Fin (fl64 (x - of_int \<lfloor>x\<rfloor>))"
    using f64_of_Fin [OF x(1)] by (simp add: f64_sub_def)
  then show ?thesis using fl64_unit [OF x] by simp
qed

text \<open>One blend moves a value near 255 by less than \<open>2 ^ -24\<close>.\<close>

lemma blend_axis_near:
  assumes g: "0 \<le> g" "g \<le> 1" and a: "near e 255 a" and b: "near e 255 b" and e: "0 \<le> e" "e \<le> 1"
  shows "near (e + 1 / 2 ^ 24) 255 (blend_axis (Fin g) a b)"
proof -
  obtain s t where a': "a = Fin s" "\<bar>s - 255\<bar> \<le> e" and b': "b = Fin t" "\<bar>t - 255\<bar> \<le> e"
    using a b by (auto simp: near_def)
  have s: "0 \<le> s" "s \<le> 256" and t: "0 \<le> t" "t \<le> 256" using a'(2) b'(2) e unfolding abs_le_iff by linarith+
  have rounded: "f64_of x = Fin (fl64 x) \<and> \<bar>fl64 x - x\<bar> \<le> 1 / 2 ^ 33" if "0 \<le> x" "x \<le> 600" for x
    using f64_of_Fin [OF that(1)] fl64_near [OF that(1)] order_trans [OF that(2), of "2 ^ 20"]
      order_trans [OF that(2), of "2 ^ 100"] by simp
  define h where "h = fl64 (1 - g)"
  have d: "0 \<le> 1 - g" "1 - g \<le> 1" "1 - g \<le> 600" using g by linarith+
  have h: "0 \<le> h" "h \<le> 1" "\<bar>h - (1 - g)\<bar> \<le> 1 / 2 ^ 33"
    unfolding h_def using fl64_unit [OF d(1,2)] rounded [OF d(1,3)] by blast+
  have sub: "f64_sub (Fin 1) (Fin g) = Fin h" using rounded [OF d(1,3)] by (simp add: f64_sub_def h_def)
  have sh: "0 \<le> s * h" "s * h \<le> 256" and tg: "0 \<le> t * g" "t * g \<le> 256"
    using s h t g mult_mono [of s 256 h 1] mult_mono [of t 256 g 1] by simp_all
  define u where "u = fl64 (s * h)"
  define v where "v = fl64 (t * g)"
  have u: "f64_mul a (Fin h) = Fin u" "\<bar>u - s * h\<bar> \<le> 1 / 2 ^ 33" "0 \<le> u"
    unfolding u_def using rounded [OF sh(1)] sh(2) f64.nonneg [OF sh(1)] by (simp_all add: a')
  have v: "f64_mul b (Fin g) = Fin v" "\<bar>v - t * g\<bar> \<le> 1 / 2 ^ 33" "0 \<le> v"
    unfolding v_def using rounded [OF tg(1)] tg(2) f64.nonneg [OF tg(1)] by (simp_all add: b')
  define w where "w = fl64 (u + v)"
  have tiny: "1 / 2 ^ 33 \<le> (1::rat)" "256 * (1 / 2 ^ 33) + 3 * (1 / 2 ^ 33) \<le> (1 / 2 ^ 24 :: rat)" by simp_all
  have sum: "0 \<le> u + v" "u + v \<le> 600" using u v sh tg tiny(1) unfolding abs_le_iff by linarith+
  have w: "blend_axis (Fin g) a b = Fin w" "\<bar>w - (u + v)\<bar> \<le> 1 / 2 ^ 33"
    unfolding w_def blend_axis_def sub u(1) v(1) f64_add.simps using rounded [OF sum] by blast+
  have "\<bar>s * (1 - g) + t * g - 255\<bar> \<le> e"
  proof -
    have "\<bar>(s - 255) * (1 - g) + (t - 255) * g\<bar> \<le> \<bar>s - 255\<bar> * (1 - g) + \<bar>t - 255\<bar> * g"
      using g by (intro order_trans [OF abs_triangle_ineq]) (simp add: abs_mult)
    also have "\<dots> \<le> e * (1 - g) + e * g" using a' b' g by (intro add_mono mult_right_mono) simp_all
    finally show ?thesis by (simp add: algebra_simps)
  qed
  moreover have "\<bar>s * h - s * (1 - g)\<bar> \<le> 256 * (1 / 2 ^ 33)"
  proof -
    have "\<bar>s * (h - (1 - g))\<bar> \<le> 256 * (1 / 2 ^ 33)" unfolding abs_mult using s h(3) by (intro mult_mono) simp_all
    then show ?thesis by (simp add: right_diff_distrib)
  qed
  ultimately have "\<bar>w - 255\<bar> \<le> e + 1 / 2 ^ 24" using u(2) v(2) w(2) tiny(2) unfolding abs_le_iff by linarith
  then show ?thesis using w(1) by (simp add: near_def)
qed

section \<open>The positions sampled are finite\<close>

definition bounded :: "nat \<Rightarrow> float_val \<Rightarrow> bool" where
  "bounded k v \<longleftrightarrow> (\<exists>r. v = Fin r \<and> \<bar>r\<bar> \<le> 2 ^ k)"

lemma bounded_of: "\<bar>x\<bar> \<le> 2 ^ k \<Longrightarrow> k \<le> 100 \<Longrightarrow> bounded (k + 2) (f64_of x)"
proof -
  assume x: "\<bar>x\<bar> \<le> 2 ^ k" and k: "k \<le> 100"
  have "(2::rat) ^ k \<le> 2 ^ 100" using k by (intro power_increasing) simp_all
  with x have "\<bar>x\<bar> \<le> 2 ^ 100" by linarith
  then obtain r where r: "f64_of x = Fin r" "\<bar>r\<bar> \<le> 2 * \<bar>x\<bar> + 1" using f64_of_bounded by blast
  have "(1::rat) \<le> 2 ^ k" by simp
  then have "\<bar>r\<bar> \<le> 4 * 2 ^ k" using r(2) x by linarith
  then show ?thesis using r(1) by (simp add: bounded_def power_add)
qed

lemma bounded_add: "bounded k a \<Longrightarrow> bounded k b \<Longrightarrow> k \<le> 99 \<Longrightarrow> bounded (k + 3) (f64_add a b)"
proof -
  assume a: "bounded k a" and b: "bounded k b" and k: "k \<le> 99"
  obtain r s where r: "a = Fin r" "\<bar>r\<bar> \<le> 2 ^ k" "b = Fin s" "\<bar>s\<bar> \<le> 2 ^ k" using a b by (auto simp: bounded_def)
  have "\<bar>r + s\<bar> \<le> 2 ^ (k + 1)" using r abs_triangle_ineq [of r s] by simp
  from bounded_of [OF this] k r(1,3) show ?thesis by (simp add: numeral_3_eq_3)
qed

lemma bounded_neg: "bounded k a \<Longrightarrow> bounded k (float_neg a)"
  by (auto simp: bounded_def)

lemma bounded_sub: "bounded k a \<Longrightarrow> bounded k b \<Longrightarrow> k \<le> 99 \<Longrightarrow> bounded (k + 3) (f64_sub a b)"
  unfolding f64_sub_def by (intro bounded_add bounded_neg)

lemma bounded_mono: "bounded k a \<Longrightarrow> k \<le> l \<Longrightarrow> bounded l a"
proof -
  assume a: "bounded k a" and k: "k \<le> l"
  obtain r where r: "a = Fin r" "\<bar>r\<bar> \<le> 2 ^ k" using a by (auto simp: bounded_def)
  have "(2::rat) ^ k \<le> 2 ^ l" using k by (intro power_increasing) simp_all
  with r(2) have "\<bar>r\<bar> \<le> 2 ^ l" by linarith
  with r(1) show ?thesis by (simp add: bounded_def)
qed

lemma bounded_mul: "bounded k a \<Longrightarrow> bounded 0 b \<Longrightarrow> k \<le> 100 \<Longrightarrow> bounded (k + 2) (f64_mul a b)"
proof -
  assume a: "bounded k a" and b: "bounded 0 b" and k: "k \<le> 100"
  obtain r s where r: "a = Fin r" "\<bar>r\<bar> \<le> 2 ^ k" "b = Fin s" "\<bar>s\<bar> \<le> 1" using a b by (auto simp: bounded_def)
  have "\<bar>r * s\<bar> \<le> 2 ^ k * 1" unfolding abs_mult using r by (intro mult_mono) simp_all
  then show ?thesis using bounded_of [of "r * s" k] k r by simp
qed

lemma bounded_mul_add:
  "bounded k a \<Longrightarrow> bounded 0 b \<Longrightarrow> bounded k c \<Longrightarrow> k \<le> 99 \<Longrightarrow> bounded (k + 3) (f64_mul_add a b c)"
proof -
  assume a: "bounded k a" and b: "bounded 0 b" and c: "bounded k c" and k: "k \<le> 99"
  obtain r s t where r: "a = Fin r" "\<bar>r\<bar> \<le> 2 ^ k" "b = Fin s" "\<bar>s\<bar> \<le> 1" "c = Fin t" "\<bar>t\<bar> \<le> 2 ^ k"
    using a b c by (auto simp: bounded_def)
  have "\<bar>r * s\<bar> \<le> 2 ^ k * 1" unfolding abs_mult using r by (intro mult_mono) simp_all
  then have "\<bar>r * s + t\<bar> \<le> 2 ^ (k + 1)" using r(6) abs_triangle_ineq [of "r * s" t] by simp
  from bounded_of [OF this] k r(1,3,5) show ?thesis by (simp add: numeral_3_eq_3)
qed

lemma bounded_half: "bounded 34 (f64_div (f64_from w) (Fin 2))"
proof -
  have "(of_nat (unat w) :: rat) \<le> 4294967295" by (rule of_nat_unat_u32)
  then have le: "of_nat (unat w) / 2 \<le> (2 ^ 32 :: rat)" by simp
  have "0 \<le> (of_nat (unat w) / 2 :: rat)" by (intro divide_nonneg_nonneg of_nat_0_le_iff) simp
  with le have "\<bar>of_nat (unat w) / 2 :: rat\<bar> \<le> 2 ^ 32" by linarith
  from bounded_of [OF this] show ?thesis by (simp add: float_of_u32_def)
qed

lemma bounded_Fin: "bounded k (Fin r) \<longleftrightarrow> \<bar>r\<bar> \<le> 2 ^ k"
  by (simp add: bounded_def)

lemma bounded_small: "bounded 34 (Fin (1 / 2))"
  by (simp add: bounded_Fin)

lemma source_position_finite:
  assumes sn: "bounded 0 sn" and cs: "bounded 0 cs" and x: "x < 2 ^ 32" and y: "y < 2 ^ 32"
  shows "\<exists>a b. source_position (sn, cs) source out x y = (Fin a, Fin b)"
proof -
  have centre: "bounded 40 (f64_sub (f64_add (Fin (of_nat i)) (Fin (1 / 2))) (f64_div (f64_from w) (Fin 2)))"
    if "i < 2 ^ 32" for i w
  proof -
    have "(of_nat i :: rat) \<le> of_nat (2 ^ 32)" using that by (intro of_nat_mono) simp
    then have "bounded 34 (Fin (of_nat i))" by (simp add: bounded_def)
    then have "bounded 37 (f64_add (Fin (of_nat i)) (Fin (1 / 2)))" using bounded_add [OF _ bounded_small, of "Fin (of_nat i)"] by simp
    from bounded_sub [OF this bounded_mono [OF bounded_half]] show ?thesis by simp
  qed
  have backed: "\<exists>r. f64_sub (f64_add v (f64_div (f64_from w) (Fin 2))) (Fin (1 / 2)) = Fin r" if "bounded 45 v" for v w
  proof -
    have "bounded 48 (f64_add v (f64_div (f64_from w) (Fin 2)))"
      using bounded_add [OF that bounded_mono [OF bounded_half]] by simp
    from bounded_sub [OF this bounded_mono [OF bounded_small]] show ?thesis by (auto simp: bounded_def)
  qed
  have turned: "bounded 45 (f64_mul_add dx c (f64_mul dy s))"
    if "bounded 40 dx" "bounded 40 dy" "bounded 0 c" "bounded 0 s" for dx dy c s
    using bounded_mul_add [OF bounded_mono [OF that(1)] that(3) bounded_mul [OF that(2,4)]] by simp
  show ?thesis
    using backed [OF turned [OF centre [OF x] centre [OF y] cs sn]]
      backed [OF turned [OF centre [OF x] centre [OF y] bounded_neg [OF sn] cs]]
    by (simp add: source_position_def Let_def)
qed

lemma unpremultiply_opaque: "near (1 / 4) 255 (blended ! 3) \<Longrightarrow> col_a (unpremultiply blended) = 255"
proof -
  assume "near (1 / 4) 255 (blended ! 3)"
  then obtain r where r: "blended ! 3 = Fin r" "\<bar>r - 255\<bar> \<le> 1 / 4" by (auto simp: near_def)
  then have "\<not> r \<le> 0" "\<lfloor>r + 1 / 2\<rfloor> = 255" "0 \<le> r" unfolding abs_le_iff by linarith+
  then show ?thesis
    by (simp add: unpremultiply_def r(1) Let_def channel_to_u8_def round_away_def float_clamp_def float_lt_def)
qed

lemma opaque_premultiplied: "col_a p = 255 \<Longrightarrow> near 0 255 (premultiply p ! 3)"
  by (simp add: premultiply_def Let_def near_def float_of_u8_def)

lemma sample_opaque:
  assumes ok: "buffer_ok source" and source: "list_all (\<lambda>p. col_a p = 255) (ri_pixels source)"
    and outside: "near 0 255 (outside ! 3)"
  shows "\<exists>p. sample_bilinear source (Fin x) (Fin y) outside = (Ok p :: ('e, rgba8) outcome) \<and> col_a p = 255"
proof -
  obtain gx gy where g: "f64_sub (Fin x) (float_floor (Fin x)) = Fin gx" "0 \<le> gx" "gx \<le> 1"
      "f64_sub (Fin y) (float_floor (Fin y)) = Fin gy" "0 \<le> gy" "gy \<le> 1"
    using fraction_unit [of x] fraction_unit [of y] by blast
  obtain a b c d where s: "sample_bilinear source (Fin x) (Fin y) outside =
      (Ok (unpremultiply (map (\<lambda>k. blend_axis (Fin gy) (blend_axis (Fin gx) (a ! k) (b ! k))
        (blend_axis (Fin gx) (c ! k) (d ! k))) [0..<4])) :: ('e, rgba8) outcome)"
      "{a, b, c, d} \<subseteq> insert outside (premultiply ` set (ri_pixels source))"
    using sample_bilinear_reads [OF ok, of "Fin x" "Fin y" outside] unfolding g(1,4) by blast
  have near0: "near 0 255 (v ! 3)" if "v \<in> {a, b, c, d}" for v
    using that s(2) outside source opaque_premultiplied by (auto simp: list_all_iff)
  have near1: "near (0 + 1 / 2 ^ 24) 255 (blend_axis (Fin gx) (v ! 3) (w ! 3))" if "{v, w} \<subseteq> {a, b, c, d}" for v w
    using that near0 by (intro blend_axis_near g) auto
  have "near (0 + 1 / 2 ^ 24 + 1 / 2 ^ 24) 255 (blend_axis (Fin gy) (blend_axis (Fin gx) (a ! 3) (b ! 3))
      (blend_axis (Fin gx) (c ! 3) (d ! 3)))"
    by (intro blend_axis_near g near1) auto
  then have "near (1 / 4) 255 (blend_axis (Fin gy) (blend_axis (Fin gx) (a ! 3) (b ! 3)) (blend_axis (Fin gx) (c ! 3) (d ! 3)))"
    by (auto simp: near_def)
  then show ?thesis using s(1) by (auto intro: unpremultiply_opaque)
qed

text \<open>
  Turning an opaque picture by any angle onto an opaque background never fails but for the
  pixel limit, reads no sample outside the buffer, fills exactly the canvas the limit was checked
  for, and leaves every pixel opaque: no fringe at the turned edges and no speck of rounding
  inside. Sine and cosine only have to be finite and between -1 and 1.
\<close>

theorem rotation_keeps_opaque:
  assumes "buffer_ok source" "list_all (\<lambda>p. col_a p = 255) (ri_pixels source)"
    and "col_a (background_pixel background format) = 255"
    and "trig (as_degrees rotation) = (sn, cs)" "bounded 0 sn" "bounded 0 cs"
  shows "case check_rotated_pixel_limit trig (ri_width source) (ri_height source) (as_degrees rotation) of
      Ok out \<Rightarrow> pixels_of out \<le> MAX_OUTPUT_PIXELS \<and>
        (\<exists>b. rotate_arbitrary trig source rotation background format = Ok b \<and> buffer_ok b \<and> ri_size b = out \<and>
          list_all (\<lambda>p. col_a p = 255) (ri_pixels b))
    | Err e \<Rightarrow> rotate_arbitrary trig source rotation background format = Err e
    | Panic \<Rightarrow> False"
proof (cases "check_rotated_pixel_limit trig (ri_width source) (ri_height source) (as_degrees rotation)")
  case (Ok out)
  let ?outside = "premultiply (background_pixel background format)"
  let ?pixel = "\<lambda>x y. let (sx, sy) = source_position (sn, cs) (ri_size source) out x y
    in sample_bilinear source sx sy ?outside :: (transform_error, rgba8) outcome"
  have "\<exists>p. ?pixel x y = Ok p \<and> col_a p = 255" if "x < unat (fst out)" "y < unat (snd out)" for x y
  proof -
    have "x < 2 ^ 32" "y < 2 ^ 32" using that unat_lt_32 [of "fst out"] unat_lt_32 [of "snd out"] by linarith+
    then obtain a b where "source_position (sn, cs) (ri_size source) out x y = (Fin a, Fin b)"
      using source_position_finite [OF assms(5,6)] by blast
    then show ?thesis
      using sample_opaque [OF assms(1,2) opaque_premultiplied [OF assms(3)], of a b] by simp
  qed
  from put_all_ok [of "fst out" "snd out" ?pixel, OF this] obtain b where
    "put_all (fst out) (snd out) ?pixel = Ok b" "buffer_ok b" "ri_size b = out" "list_all (\<lambda>p. col_a p = 255) (ri_pixels b)"
    by auto
  moreover have "pixels_of out \<le> MAX_OUTPUT_PIXELS"
    using Ok by (auto simp: check_rotated_pixel_limit_def Let_def split: if_splits)
  ultimately show ?thesis using Ok by (simp add: rotate_arbitrary_def Let_def assms(4))
next
  case (Err e)
  then show ?thesis by (simp add: rotate_arbitrary_def Let_def)
next
  case Panic
  then show ?thesis by (auto simp: check_rotated_pixel_limit_def Let_def split: if_splits)
qed

definition one_red_pixel :: rgba_image where
  "one_red_pixel = from_pixel 1 1 \<lparr>col_r = 200, col_g = 0, col_b = 0, col_a = 255\<rparr>"

lemma f64_of_small: "f64_of 0 = Fin 0" "f64_of 1 = Fin 1"
  using f64_of_Fin [of 0] f64_of_Fin [of 1] f64.exact_nat [of 1] by simp_all

lemma one_red_pixel_box: "check_rotated_pixel_limit (\<lambda>_. (Fin 0, Fin 1)) 1 1 45 = Ok (1, 1)"
  by (simp add: check_rotated_pixel_limit_def rotated_bounding_box_def float_of_u32_def f64_of_small
      pixels_of_eq MAX_OUTPUT_PIXELS_def Let_def)

theorem rotation_keeps_opaque_witness:
  "\<exists>b. rotate_arbitrary (\<lambda>_. (Fin 0, Fin 1)) one_red_pixel (Rotation 45) None Jpeg = Ok b \<and>
     ri_size b = (1, 1) \<and> map col_a (ri_pixels b) = [255]"
proof -
  have "col_a (background_pixel None Jpeg) = 255" by (simp add: background_pixel_def)
  then obtain b where b: "rotate_arbitrary (\<lambda>_. (Fin 0, Fin 1)) one_red_pixel (Rotation 45) None Jpeg = Ok b"
      "buffer_ok b" "ri_size b = (1, 1)" "list_all (\<lambda>p. col_a p = 255) (ri_pixels b)"
    using rotation_keeps_opaque [of one_red_pixel None Jpeg "\<lambda>_. (Fin 0, Fin 1)" "Rotation 45"] one_red_pixel_box
    by (auto simp: one_red_pixel_def from_pixel_def buffer_ok_def bounded_def)
  then obtain p where "ri_pixels b = [p]"
    by (auto simp: buffer_ok_def ri_size_def length_Suc_conv)
  with b show ?thesis by auto
qed

end
