(* ===== verification/Stages.thy ===== *)
theory Stages
  imports Pixels
begin

text \<open>
  The stages that touch pixels, from \<open>src/codecs/raster.rs\<close>, in the order the code runs them:
  auto-orientation, rotation, crop, resize, blur, sharpen, grayscale, watermark, each followed by
  its look at the clock. The operations of the image crate are the record \<open>image_ops\<close>; what is
  relied on of them is the size each answers with (\<open>sized_ops\<close>), as the crate documents it.

  What is shown: a picture that comes out has exactly the size the geometry computes from the
  request, within the pixel and the format limits, with the crop inside the turned picture and
  every stage within the deadline; and a request the passthrough takes leaves every pixel alone.
\<close>

section \<open>Decoding\<close>

definition decode_input :: "'i image_ops \<Rightarrow> artifact \<Rightarrow> (transform_error, 'i) outcome" where
  "decode_input J input =
     (let m = art_media_type input in
      if m = Svg then Err (UnsupportedInputMediaType
        ''SVG input should be routed to transform_svg, not transform_raster'')
      else case im_decode J m (art_bytes input) of
          Ok img \<Rightarrow> Ok img
        | Err e \<Rightarrow> Err (decode_failure m e)
        | Panic \<Rightarrow> Err (DecodeFailed (media_name m @ '' image data is incomplete or corrupt'')))"

section \<open>Orientation and rotation\<close>

definition apply_exif_orientation :: "'i image_ops \<Rightarrow> u16 \<Rightarrow> 'i \<Rightarrow> 'i" where
  "apply_exif_orientation J orientation img =
     (if orientation = 2 then im_fliph J img
      else if orientation = 3 then im_rotate180 J img
      else if orientation = 4 then im_flipv J img
      else if orientation = 5 then im_rotate270 J (im_fliph J img)
      else if orientation = 6 then im_rotate90 J img
      else if orientation = 7 then im_rotate90 J (im_fliph J img)
      else if orientation = 8 then im_rotate270 J img
      else img)"

definition apply_auto_orientation :: "'i image_ops \<Rightarrow> codecs \<Rightarrow> artifact \<Rightarrow> 'i \<Rightarrow> 'i" where
  "apply_auto_orientation J X input img =
     (case exif_tag X (art_media_type input) (art_bytes input) of
        Some orientation \<Rightarrow> apply_exif_orientation J orientation img
      | None \<Rightarrow> img)"

definition apply_rotation ::
  "'i image_ops \<Rightarrow> rotation \<Rightarrow> rgba8 option \<Rightarrow> media_type \<Rightarrow> 'i \<Rightarrow> (transform_error, 'i) outcome" where
  "apply_rotation J rotation background format img =
     (let q = quarter_turns rotation in
      if q = Some 0 then Ok img
      else if q = Some 1 then Ok (im_rotate90 J img)
      else if q = Some 2 then Ok (im_rotate180 J img)
      else if q = Some 3 then Ok (im_rotate270 J img)
      else map_ok (im_of_rgba8 J)
        (rotate_arbitrary (deg_sin_cos J) (im_to_rgba8 J img) rotation background format))"

definition apply_crop :: "'i image_ops \<Rightarrow> crop_region \<Rightarrow> 'i \<Rightarrow> (transform_error, 'i) outcome" where
  "apply_crop J crop img =
     and_then (check_crop_bounds crop (im_size J img)) (\<lambda>_.
       Ok (im_crop J (crop_x crop) (crop_y crop) (crop_width crop) (crop_height crop) img))"

section \<open>Resize\<close>

definition pad_to_box ::
  "'i image_ops \<Rightarrow> dim \<Rightarrow> position \<Rightarrow> rgba8 option \<Rightarrow> media_type \<Rightarrow> 'i \<Rightarrow> 'i" where
  "pad_to_box J target pos background format img =
     (let resized = im_to_rgba8 J img;
          canvas = from_pixel (fst target) (snd target) (background_pixel background format);
          (x, y) = position_offset (fst target) (snd target) (ri_width resized) (ri_height resized) pos
      in im_of_rgba8 J (buf_overlay J canvas resized (uint x) (uint y)))"

definition cover_to_box ::
  "'i image_ops \<Rightarrow> dim \<Rightarrow> dim \<Rightarrow> position \<Rightarrow> rgba8 option \<Rightarrow> media_type \<Rightarrow> 'i \<Rightarrow> 'i" where
  "cover_to_box J content target pos background format img =
     (let resized = im_to_rgba8 J (im_resize_exact J (fst content) (snd content) img);
          crop_w = min (fst target) (fst content); crop_h = min (snd target) (snd content) in
      if fst content = crop_w \<and> snd content = crop_h then im_of_rgba8 J resized
      else
        let canvas = from_pixel crop_w crop_h (background_pixel background format);
            (x, y) = position_offset (fst content) (snd content) crop_w crop_h pos
        in im_of_rgba8 J (buf_overlay J canvas (buf_crop J x y crop_w crop_h resized) 0 0))"

definition resize_unless_same :: "'i image_ops \<Rightarrow> dim \<Rightarrow> 'i \<Rightarrow> 'i" where
  "resize_unless_same J target img =
     (if target = im_size J img then img else im_resize_exact J (fst target) (snd target) img)"

definition apply_resize ::
  "'i image_ops \<Rightarrow> u32 option \<Rightarrow> u32 option \<Rightarrow> fit option \<Rightarrow> position \<Rightarrow> rgba8 option \<Rightarrow> media_type \<Rightarrow> bool \<Rightarrow>
    'i \<Rightarrow> 'i" where
  "apply_resize J width height fit pos background format without_enlargement img =
     (let source = im_size J img in
      case (width, height) of
        (None, None) \<Rightarrow> img
      | (Some target_w, Some target_h) \<Rightarrow>
          (let fit' = fit_or_contain fit;
               content = resize_content_size source width height (Some fit') without_enlargement in
           case fit' of
             Contain \<Rightarrow> pad_to_box J (target_w, target_h) pos background format (resize_unless_same J content img)
           | Cover \<Rightarrow> cover_to_box J content (target_w, target_h) pos background format img
           | _ \<Rightarrow> resize_unless_same J content img)
      | _ \<Rightarrow> resize_unless_same J (resolved_output_dimensions source width height fit without_enlargement) img)"

section \<open>Watermark\<close>

definition apply_watermark :: "'i image_ops \<Rightarrow> watermark_input \<Rightarrow> 'i \<Rightarrow> (transform_error, 'i) outcome" where
  "apply_watermark J watermark img =
     (let declared = (case (meta_width (art_metadata (wm_image watermark)), meta_height (art_metadata (wm_image watermark))) of
            (Some w, Some h) \<Rightarrow> Some (w, h) | _ \<Rightarrow> None);
          when_declared = (\<lambda>f. case declared of Some d \<Rightarrow> f d | None \<Rightarrow> Ok ()) in
      and_then (when_declared (\<lambda>d. check_watermark_fits d (im_size J img) watermark)) (\<lambda>_.
      and_then (when_declared (\<lambda>d. reject_if (MAX_WATERMARK_PIXELS < pixels_of d) (LimitExceeded
        (''watermark image has '' @ show_nat (pixels_of d) @ '' pixels, limit is '' @ show_nat MAX_WATERMARK_PIXELS)))) (\<lambda>_.
      and_then (check_input_pixel_limit (wm_image watermark)) (\<lambda>_.
      and_then (decode_input J (wm_image watermark)) (\<lambda>decoded.
      and_then (when_declared (\<lambda>d. reject_if (im_size J decoded \<noteq> d) (InvalidInput
        (''watermark decoded dimensions ('' @ show_dim (im_size J decoded) @
         '') do not match header-declared size ('' @ show_dim d @ '')'')))) (\<lambda>_.
        let overlay = apply_opacity (wm_opacity watermark) (im_to_rgba8 J decoded) in
        and_then (check_watermark_fits (ri_size overlay) (im_size J img) watermark) (\<lambda>_.
          let (x, y) = watermark_offset (fst (im_size J img)) (snd (im_size J img))
                (ri_width overlay) (ri_height overlay) (wm_position watermark) (wm_margin watermark)
          in Ok (im_of_rgba8 J (buf_overlay J (im_to_rgba8 J img) overlay (uint x) (uint y))))))))))"

section \<open>The stages in their order\<close>

text \<open>A stage runs when it was asked for, and is followed by its check.\<close>

definition optional_stage ::
  "clock \<Rightarrow> budget \<Rightarrow> string \<Rightarrow> 'o option \<Rightarrow> ('o \<Rightarrow> 'i \<Rightarrow> (transform_error, 'i) outcome) \<Rightarrow> 'i \<Rightarrow>
    (transform_error, 'i) outcome" where
  "optional_stage clk budget name asked stage img =
     (case asked of
        None \<Rightarrow> Ok img
      | Some o' \<Rightarrow> and_then (stage o' img) (\<lambda>out. and_then (budget_check clk budget name []) (\<lambda>_. Ok out)))"

definition apply_pixel_stages ::
  "'i image_ops \<Rightarrow> codecs \<Rightarrow> clock \<Rightarrow> normalized_request \<Rightarrow> budget \<Rightarrow> crop_region option \<Rightarrow> 'i \<Rightarrow>
    (transform_error, 'i) outcome" where
  "apply_pixel_stages J X clk req budget crop img =
     (let o' = nreq_options req;
          oriented = (if n_auto_orient o' then apply_auto_orientation J X (nreq_input req) img else img) in
      and_then (apply_rotation J (n_rotate o') (n_background o') (n_format o') oriented) (\<lambda>rotated.
      and_then (budget_check clk budget ''rotate'' []) (\<lambda>_.
      and_then (optional_stage clk budget ''crop'' crop (apply_crop J) rotated) (\<lambda>cropped.
      and_then (check_output_pixel_limit (im_size J cropped) (n_width o') (n_height o') (n_fit o')
        (n_without_enlargement o') (n_format o')) (\<lambda>_.
      let resized = apply_resize J (n_width o') (n_height o') (n_fit o') (n_position o') (n_background o')
        (n_format o') (n_without_enlargement o') cropped in
      and_then (budget_check clk budget ''resize'' []) (\<lambda>_.
      and_then (optional_stage clk budget ''blur'' (n_blur o') (\<lambda>sigma i. Ok (im_blur J sigma i)) resized) (\<lambda>blurred.
      and_then (optional_stage clk budget ''sharpen'' (n_sharpen o') (\<lambda>sigma i. Ok (im_unsharpen J sigma 1 i)) blurred) (\<lambda>sharpened.
      and_then (optional_stage clk budget ''grayscale'' (if n_grayscale o' then Some () else None)
        (\<lambda>_ i. Ok (im_grayscale J i)) sharpened) (\<lambda>gray.
      optional_stage clk budget ''watermark'' (nreq_watermark req) (apply_watermark J) gray)))))))))"

section \<open>Sizes\<close>

text \<open>What the image crate documents of the sizes its operations answer with.\<close>

definition clamped_region :: "u32 \<Rightarrow> u32 \<Rightarrow> u32 \<Rightarrow> u32 \<Rightarrow> dim \<Rightarrow> dim" where
  "clamped_region x y w h d = (min w (fst d - min x (fst d)), min h (snd d - min y (snd d)))"

definition sized_ops :: "'i image_ops \<Rightarrow> bool" where
  "sized_ops J \<longleftrightarrow>
     (\<forall>i. im_size J (im_fliph J i) = im_size J i \<and> im_size J (im_flipv J i) = im_size J i \<and>
        im_size J (im_rotate180 J i) = im_size J i \<and>
        im_size J (im_rotate90 J i) = prod.swap (im_size J i) \<and>
        im_size J (im_rotate270 J i) = prod.swap (im_size J i) \<and>
        im_size J (im_grayscale J i) = im_size J i \<and> ri_size (im_to_rgba8 J i) = im_size J i) \<and>
     (\<forall>sigma i. im_size J (im_blur J sigma i) = im_size J i) \<and>
     (\<forall>sigma t i. im_size J (im_unsharpen J sigma t i) = im_size J i) \<and>
     (\<forall>x y w h i. im_size J (im_crop J x y w h i) = clamped_region x y w h (im_size J i)) \<and>
     (\<forall>w h i. im_size J (im_resize_exact J w h i) = (w, h)) \<and>
     (\<forall>b. im_size J (im_of_rgba8 J b) = ri_size b) \<and>
     (\<forall>b c x y. ri_size (buf_overlay J b c x y) = ri_size b)"

lemma sized_opsD:
  assumes "sized_ops J"
  shows "im_size J (im_fliph J i) = im_size J i" "im_size J (im_flipv J i) = im_size J i"
    "im_size J (im_rotate180 J i) = im_size J i"
    "im_size J (im_rotate90 J i) = prod.swap (im_size J i)"
    "im_size J (im_rotate270 J i) = prod.swap (im_size J i)"
    "im_size J (im_grayscale J i) = im_size J i" "ri_size (im_to_rgba8 J i) = im_size J i"
    "im_size J (im_blur J sigma i) = im_size J i" "im_size J (im_unsharpen J sigma t i) = im_size J i"
    "im_size J (im_crop J x y w h i) = clamped_region x y w h (im_size J i)"
    "im_size J (im_resize_exact J w h i) = (w, h)" "im_size J (im_of_rgba8 J b) = ri_size b"
    "ri_size (buf_overlay J b c p q) = ri_size b"
  using assms unfolding sized_ops_def by blast+

definition oriented_size :: "u16 option \<Rightarrow> dim \<Rightarrow> dim" where
  "oriented_size tag d = (if orientation_transposes tag then prod.swap d else d)"

lemma size_auto_orientation:
  assumes "sized_ops J"
  shows "im_size J (apply_auto_orientation J X input img) =
    oriented_size (exif_tag X (art_media_type input) (art_bytes input)) (im_size J img)"
proof -
  have cases: "o' \<in> {5, 6, 7, 8}" if "5 \<le> o'" "o' \<le> 8" for o' :: u16
  proof -
    have "unat o' \<in> {5, 6, 7, 8}" using that by (auto simp: word_le_nat_alt)
    then show ?thesis by (auto simp: word_unat_eq_iff)
  qed
  have "im_size J (apply_exif_orientation J o' img) = oriented_size (Some o') (im_size J img)" for o'
  proof (cases "o' \<in> {5, 6, 7, 8}")
    case True
    then show ?thesis
      by (elim insertE emptyE) (simp_all add: apply_exif_orientation_def oriented_size_def orientation_transposes_def
          sized_opsD [OF assms])
  next
    case False
    then have "\<not> (5 \<le> o' \<and> o' \<le> 8)" using cases [of o'] by blast
    then show ?thesis using False
      by (simp add: apply_exif_orientation_def oriented_size_def orientation_transposes_def sized_opsD [OF assms]) blast
  qed
  then show ?thesis
    by (auto simp: apply_auto_orientation_def oriented_size_def orientation_transposes_def split: option.splits)
qed

lemma quarter_turns_degrees:
  assumes "unat (as_degrees r) < 360" "quarter_turns r = Some q"
  shows "unat (as_degrees r) = 90 * unat q" "unat q < 4"
proof -
  have "as_degrees r mod 90 = 0" and q: "q = ucast (as_degrees r div 90)"
    using assms(2) by (auto simp: quarter_turns_def split: if_splits)
  then have "unat (as_degrees r mod 90) = 0" by simp
  then have m: "unat (as_degrees r) mod 90 = 0" by (simp add: unat_mod)
  have "unat (as_degrees r div 90) = unat (as_degrees r) div 90" by (simp add: unat_div)
  moreover have less: "unat (as_degrees r) div 90 < 4" using assms(1) by (simp add: div_less_iff_less_mult)
  ultimately have "unat (as_degrees r div 90) < 2 ^ 8" by simp
  then have "take_bit 8 (unat (as_degrees r div 90)) = unat (as_degrees r div 90)" by (rule take_bit_nat_eq_self)
  moreover have "unat q = take_bit 8 (unat (as_degrees r div 90))" unfolding q by (simp add: unsigned_ucast_eq)
  ultimately have "unat q = unat (as_degrees r) div 90" by (simp add: unat_div)
  with less m show "unat (as_degrees r) = 90 * unat q" "unat q < 4"
    using div_mult_mod_eq [of "unat (as_degrees r)" 90] by linarith+
qed

lemma rotate_arbitrary_size:
  "rotate_arbitrary trig source r bg m = Ok b \<Longrightarrow>
   ri_size b = rotated_bounding_box trig (ri_width source) (ri_height source) (as_degrees r) \<and>
   pixels_of (ri_size b) \<le> MAX_OUTPUT_PIXELS"
  by (auto simp: rotate_arbitrary_def check_rotated_pixel_limit_def Let_def put_all_def ri_size_def split: if_splits)

lemma size_rotation:
  assumes J: "sized_ops J" and r: "unat (as_degrees r) < 360" and ok: "apply_rotation J r bg m img = Ok out"
  shows "im_size J out = rotated_bounding_box (deg_sin_cos J) (fst (im_size J img)) (snd (im_size J img)) (as_degrees r)"
proof (cases "quarter_turns r = Some 0 \<or> quarter_turns r = Some 1 \<or> quarter_turns r = Some 2 \<or> quarter_turns r = Some 3")
  case True
  then obtain q where q: "quarter_turns r = Some q" "q \<in> {0, 1, 2, 3}" by auto
  have "unat (as_degrees r) = 90 * unat q" by (rule quarter_turns_degrees(1) [OF r q(1)])
  then have "as_degrees r = of_nat (90 * unat q)" by (metis of_nat_unat ucast_id)
  with q ok show ?thesis
    by (auto simp: apply_rotation_def Let_def rotated_bounding_box_def sized_opsD [OF J] prod_eq_iff)
next
  case False
  then obtain b where b: "rotate_arbitrary (deg_sin_cos J) (im_to_rgba8 J img) r bg m = Ok b" "out = im_of_rgba8 J b"
    using ok by (auto simp: apply_rotation_def Let_def)
  have "ri_size (im_to_rgba8 J img) = im_size J img" by (rule sized_opsD(7) [OF J])
  then have "ri_width (im_to_rgba8 J img) = fst (im_size J img)" "ri_height (im_to_rgba8 J img) = snd (im_size J img)"
    by (simp_all add: ri_size_def prod_eq_iff)
  with rotate_arbitrary_size [OF b(1)] show ?thesis by (simp add: b(2) sized_opsD [OF J])
qed

lemma size_resize_unless_same: "sized_ops J \<Longrightarrow> im_size J (resize_unless_same J target img) = target"
  by (simp add: resize_unless_same_def sized_opsD)

lemma size_from_pixel: "ri_size (from_pixel w h p) = (w, h)"
  by (simp add: ri_size_def from_pixel_def)

lemma size_pad: "sized_ops J \<Longrightarrow> im_size J (pad_to_box J target pos bg m img) = target"
  by (simp add: pad_to_box_def Let_def case_prod_beta sized_opsD size_from_pixel)

lemma size_cover:
  "sized_ops J \<Longrightarrow> im_size J (cover_to_box J content target pos bg m img) =
    (min (fst target) (fst content), min (snd target) (snd content))"
  by (simp add: cover_to_box_def Let_def case_prod_beta sized_opsD size_from_pixel)

lemma size_resize:
  assumes "sized_ops J"
  shows "im_size J (apply_resize J w h fit pos bg m we img) = resolved_output_dimensions (im_size J img) w h fit we"
  using size_resize_unless_same [OF assms] size_pad [OF assms] size_cover [OF assms]
  by (auto simp: apply_resize_def Let_def resolved_output_dimensions_def resize_content_size_def fit_or_contain_def
      split: option.splits fit.splits)

lemma size_watermark:
  "sized_ops J \<Longrightarrow> apply_watermark J W img = Ok out \<Longrightarrow> im_size J out = im_size J img"
  by (auto simp: apply_watermark_def Let_def case_prod_beta sized_opsD)

lemma size_crop:
  "sized_ops J \<Longrightarrow> apply_crop J c img = Ok out \<Longrightarrow>
   im_size J out = clamped_region (crop_x c) (crop_y c) (crop_width c) (crop_height c) (im_size J img)"
  by (auto simp: apply_crop_def sized_opsD)

text \<open>The size the stages give a picture, and the stages that run, from the request alone.\<close>

definition staged_size :: "'i image_ops \<Rightarrow> codecs \<Rightarrow> normalized_request \<Rightarrow> crop_region option \<Rightarrow> dim \<Rightarrow> dim" where
  "staged_size J X req crop d =
     (let o' = nreq_options req; input = nreq_input req;
          oriented = (if n_auto_orient o' then oriented_size (exif_tag X (art_media_type input) (art_bytes input)) d else d);
          turned = rotated_bounding_box (deg_sin_cos J) (fst oriented) (snd oriented) (as_degrees (n_rotate o'));
          cut = (case crop of
              Some c \<Rightarrow> clamped_region (crop_x c) (crop_y c) (crop_width c) (crop_height c) turned
            | None \<Rightarrow> turned)
      in resolved_output_dimensions cut (n_width o') (n_height o') (n_fit o') (n_without_enlargement o'))"

definition stages_run :: "normalized_request \<Rightarrow> crop_region option \<Rightarrow> string list" where
  "stages_run req crop =
     [''rotate''] @ (if crop \<noteq> None then [''crop''] else []) @ [''resize''] @
     (if n_blur (nreq_options req) \<noteq> None then [''blur''] else []) @
     (if n_sharpen (nreq_options req) \<noteq> None then [''sharpen''] else []) @
     (if n_grayscale (nreq_options req) then [''grayscale''] else []) @
     (if nreq_watermark req \<noteq> None then [''watermark''] else [])"

lemma output_limit_Ok:
  "check_output_pixel_limit source w h fit we m = Ok u \<Longrightarrow>
   pixels_of (resolved_output_dimensions source w h fit we) \<le> MAX_OUTPUT_PIXELS \<and>
   check_output_format_dimensions m (fst (resolved_output_dimensions source w h fit we))
     (snd (resolved_output_dimensions source w h fit we)) = Ok ()"
  by (auto simp: check_output_pixel_limit_def Let_def not_less)

lemma optional_stage_Ok:
  "optional_stage clk (starting clk deadline) name asked stage img = Ok out \<longleftrightarrow>
     (case asked of None \<Rightarrow> out = img | Some o' \<Rightarrow> stage o' img = Ok out \<and> in_time clk deadline name [])"
  by (auto simp: optional_stage_def split: option.splits)

lemma stages_follow_request:
  assumes J: "sized_ops J" and r: "unat (as_degrees (n_rotate (nreq_options req))) < 360"
    and ok: "apply_pixel_stages J X clk req (starting clk deadline) crop img = Ok out"
  shows "im_size J out = staged_size J X req crop (im_size J img) \<and>
    pixels_of (im_size J out) \<le> MAX_OUTPUT_PIXELS \<and>
    check_output_format_dimensions (n_format (nreq_options req)) (fst (im_size J out)) (snd (im_size J out)) = Ok () \<and>
    list_all (\<lambda>stage. in_time clk deadline stage []) (stages_run req crop)"
proof -
  let ?o = "nreq_options req"
  define oriented where "oriented = (if n_auto_orient ?o then apply_auto_orientation J X (nreq_input req) img else img)"
  have size0: "im_size J oriented = (if n_auto_orient ?o
      then oriented_size (exif_tag X (art_media_type (nreq_input req)) (art_bytes (nreq_input req))) (im_size J img)
      else im_size J img)"
    by (simp add: oriented_def size_auto_orientation [OF J])
  obtain rotated cropped blurred sharpened gray where
    rot: "apply_rotation J (n_rotate ?o) (n_background ?o) (n_format ?o) oriented = Ok rotated" "in_time clk deadline ''rotate'' []"
    and crop: "optional_stage clk (starting clk deadline) ''crop'' crop (apply_crop J) rotated = Ok cropped"
    and limit: "check_output_pixel_limit (im_size J cropped) (n_width ?o) (n_height ?o) (n_fit ?o) (n_without_enlargement ?o) (n_format ?o) = Ok ()"
    and resize: "in_time clk deadline ''resize'' []"
    and blur: "optional_stage clk (starting clk deadline) ''blur'' (n_blur ?o) (\<lambda>sigma i. Ok (im_blur J sigma i))
      (apply_resize J (n_width ?o) (n_height ?o) (n_fit ?o) (n_position ?o) (n_background ?o) (n_format ?o) (n_without_enlargement ?o) cropped) = Ok blurred"
    and sharpen: "optional_stage clk (starting clk deadline) ''sharpen'' (n_sharpen ?o) (\<lambda>sigma i. Ok (im_unsharpen J sigma 1 i)) blurred = Ok sharpened"
    and gray: "optional_stage clk (starting clk deadline) ''grayscale'' (if n_grayscale ?o then Some () else None)
      (\<lambda>_ i. Ok (im_grayscale J i)) sharpened = Ok gray"
    and mark: "optional_stage clk (starting clk deadline) ''watermark'' (nreq_watermark req) (apply_watermark J) gray = Ok out"
    using ok unfolding apply_pixel_stages_def Let_def oriented_def [symmetric] by (auto simp del: split_paired_Ex)
  have cut: "im_size J cropped = (case crop of
      Some c \<Rightarrow> clamped_region (crop_x c) (crop_y c) (crop_width c) (crop_height c) (im_size J rotated)
    | None \<Rightarrow> im_size J rotated)"
    using crop by (auto simp: optional_stage_Ok size_crop [OF J] split: option.splits)
  have "im_size J out = im_size J gray" using mark
    by (auto simp: optional_stage_Ok size_watermark [OF J] split: option.splits)
  moreover have "im_size J gray = im_size J sharpened" "im_size J sharpened = im_size J blurred"
    using gray sharpen by (auto simp: optional_stage_Ok sized_opsD [OF J] split: option.splits if_splits)
  moreover have "im_size J blurred =
      resolved_output_dimensions (im_size J cropped) (n_width ?o) (n_height ?o) (n_fit ?o) (n_without_enlargement ?o)"
    using blur by (auto simp: optional_stage_Ok sized_opsD [OF J] size_resize [OF J] split: option.splits)
  ultimately have out: "im_size J out =
      resolved_output_dimensions (im_size J cropped) (n_width ?o) (n_height ?o) (n_fit ?o) (n_without_enlargement ?o)"
    by (simp only:)
  have size: "im_size J out = staged_size J X req crop (im_size J img)"
    unfolding out cut size_rotation [OF J r rot(1)] size0 staged_size_def Let_def ..
  have "list_all (\<lambda>stage. in_time clk deadline stage []) (stages_run req crop)"
    using rot(2) crop resize blur sharpen gray mark
    by (auto simp: stages_run_def optional_stage_Ok split: option.splits if_splits)
  with size output_limit_Ok [OF limit] show ?thesis unfolding out [symmetric] by simp
qed

text \<open>
  A picture that comes out of the stages has exactly the size the request asks for, computed
  from the size that went in, the orientation tag, the angle, the crop and the box alone; that
  size is within the pixel limit and fits the output format; and every stage that ran had ended
  within the deadline when the clock was read behind it.
\<close>

theorem stages_produce_resolved_size:
  assumes "sized_ops J" "unat (as_degrees (n_rotate (nreq_options req))) < 360"
    and "apply_pixel_stages J X clk req (starting clk deadline) crop img = Ok out"
  shows "im_size J out = staged_size J X req crop (im_size J img) \<and>
    pixels_of (im_size J out) \<le> MAX_OUTPUT_PIXELS \<and>
    check_output_format_dimensions (n_format (nreq_options req)) (fst (im_size J out)) (snd (im_size J out)) = Ok () \<and>
    list_all (\<lambda>stage. in_time clk deadline stage []) (stages_run req crop)"
  using assms by (rule stages_follow_request)

text \<open>A picture type on which the laws hold: plain buffers, with the operations that move sizes.\<close>

definition resized_buffer :: "u32 \<Rightarrow> u32 \<Rightarrow> rgba_image \<Rightarrow> rgba_image" where
  "resized_buffer w h b =
     from_pixel w h (case ri_pixels b of p # _ \<Rightarrow> p | [] \<Rightarrow> \<lparr>col_r = 0, col_g = 0, col_b = 0, col_a = 0\<rparr>)"

definition plain_ops :: "rgba_image image_ops" where
  "plain_ops =
     \<lparr>im_size = ri_size, im_alpha = (\<lambda>b. Alpha8 (map col_a (ri_pixels b))), im_to_rgba8 = id, im_of_rgba8 = id,
      im_luma8 = (\<lambda>b. (ri_size b, map col_g (ri_pixels b))), im_fliph = id, im_flipv = id,
      im_rotate90 = (\<lambda>b. b\<lparr>ri_width := ri_height b, ri_height := ri_width b\<rparr>), im_rotate180 = id,
      im_rotate270 = (\<lambda>b. b\<lparr>ri_width := ri_height b, ri_height := ri_width b\<rparr>),
      im_crop = (\<lambda>x y w h b. resized_buffer (fst (clamped_region x y w h (ri_size b))) (snd (clamped_region x y w h (ri_size b))) b),
      im_resize_exact = resized_buffer, im_blur = (\<lambda>_. id), im_unsharpen = (\<lambda>_ _. id), im_grayscale = id,
      im_decode = (\<lambda>_ _. Ok one_red_pixel), buf_overlay = (\<lambda>b _ _ _. b),
      buf_crop = (\<lambda>_ _ w h. resized_buffer w h), px_blend = (\<lambda>_ p. p),
      deg_sin_cos = (\<lambda>_. (Fin 0, Fin 1)), f64_log10 = id\<rparr>"

lemma plain_ops_sized: "sized_ops plain_ops"
  by (simp add: sized_ops_def plain_ops_def ri_size_def resized_buffer_def from_pixel_def)

definition stretch_request :: normalized_request where
  "stretch_request = passthrough_example\<lparr>nreq_options := (nreq_options passthrough_example)
     \<lparr>n_width := Some 2, n_height := Some 3, n_fit := Some Fill, n_deadline := Some 5\<rparr>\<rparr>"

lemma stretched:
  "apply_pixel_stages plain_ops exif_says_six (\<lambda>_ _. 1) stretch_request (starting (\<lambda>_ _. 1) (Some 5)) None one_red_pixel =
   Ok (from_pixel 2 3 \<lparr>col_r = 200, col_g = 0, col_b = 0, col_a = 255\<rparr>)"
  by (simp add: apply_pixel_stages_def stretch_request_def passthrough_example_def apply_rotation_def quarter_turns_def
      optional_stage_def budget_check_def starting_def check_deadline_def check_output_pixel_limit_def fit_or_contain_def
      resolved_output_dimensions_def fit_content_size_def pixels_of_eq MAX_OUTPUT_PIXELS_def
      check_output_format_dimensions_def apply_resize_def resize_content_size_def resize_unless_same_def
      plain_ops_def resized_buffer_def one_red_pixel_def from_pixel_def ri_size_def Let_def)

theorem stages_produce_resolved_size_witness:
  "im_size plain_ops (from_pixel 2 3 \<lparr>col_r = 200, col_g = 0, col_b = 0, col_a = 255\<rparr>) =
     staged_size plain_ops exif_says_six stretch_request None (1, 1) \<and>
   list_all (\<lambda>stage. in_time (\<lambda>_ _. 1) (Some 5) stage []) [''rotate'', ''resize'']"
proof -
  have "unat (as_degrees (n_rotate (nreq_options stretch_request))) < 360"
    by (simp add: stretch_request_def passthrough_example_def)
  moreover have "im_size plain_ops one_red_pixel = (1, 1)"
    by (simp add: plain_ops_def one_red_pixel_def from_pixel_def ri_size_def)
  ultimately show ?thesis
    using stages_produce_resolved_size [OF plain_ops_sized _ stretched]
    by (simp add: stages_run_def stretch_request_def passthrough_example_def)
qed

section \<open>A request that asks for no change of a pixel\<close>

lemma no_orientation:
  assumes "auto_orientation_is_noop X input"
  shows "apply_auto_orientation J X input img = img"
  using assms by (auto simp: auto_orientation_is_noop_def apply_auto_orientation_def apply_exif_orientation_def)

lemma no_rotation: "rotation_is_identity r \<Longrightarrow> apply_rotation J r bg m img = Ok img"
  by (simp add: rotation_is_identity_def apply_rotation_def quarter_turns_def)

text \<open>
  What lets the code hand back the input's own bytes: for a request that may pass through,
  and that auto-orientation would not turn, the stages answer with the picture they were given.
  They can refuse it only by the clock or by the limits on the output's size.
\<close>

theorem passthrough_leaves_pixels:
  assumes "is_passthrough_lossless_request X req"
    and "n_auto_orient (nreq_options req) \<Longrightarrow> auto_orientation_is_noop X (nreq_input req)"
  shows "apply_pixel_stages J X clk req budget (n_crop (nreq_options req)) img =
    and_then (budget_check clk budget ''rotate'' []) (\<lambda>_.
    and_then (check_output_pixel_limit (im_size J img) None None (n_fit (nreq_options req))
      (n_without_enlargement (nreq_options req)) (n_format (nreq_options req))) (\<lambda>_.
    and_then (budget_check clk budget ''resize'' []) (\<lambda>_. Ok img)))"
proof -
  have "(if n_auto_orient (nreq_options req) then apply_auto_orientation J X (nreq_input req) img else img) = img"
    using assms(2) by (simp add: no_orientation)
  then show ?thesis
    using assms(1)
    by (simp add: apply_pixel_stages_def is_passthrough_lossless_request_def Let_def no_rotation optional_stage_def
        apply_resize_def)
qed

theorem passthrough_leaves_pixels_witness:
  "apply_pixel_stages plain_ops exif_says_six (\<lambda>_ _. 0) passthrough_example
     (starting (\<lambda>_ _. 0) None) None one_red_pixel = Ok one_red_pixel"
proof -
  have "is_passthrough_lossless_request exif_says_six passthrough_example"
    by (simp add: is_passthrough_lossless_request_def passthrough_example_def rotation_is_identity_def)
  moreover have "\<not> n_auto_orient (nreq_options passthrough_example)" "n_crop (nreq_options passthrough_example) = None"
    by (simp_all add: passthrough_example_def)
  ultimately show ?thesis
    using passthrough_leaves_pixels [of exif_says_six passthrough_example plain_ops "\<lambda>_ _. 0" "starting (\<lambda>_ _. 0) None" one_red_pixel]
    by (simp add: budget_check_def starting_def check_output_pixel_limit_def resolved_output_dimensions_def pixels_of_eq
        plain_ops_def one_red_pixel_def from_pixel_def ri_size_def MAX_OUTPUT_PIXELS_def
        check_output_format_dimensions_def passthrough_example_def Let_def)
qed

end
