(* ===== verification/Quality_Search.thy ===== *)
theory Quality_Search
  imports Options
begin

text \<open>
  The search for the lowest quality that reaches a target, from \<open>src/codecs/raster.rs\<close>, in the
  \<open>u8\<close> arithmetic of the code. A probe encodes and scores at one quality and is a parameter. The
  loop carries fuel; \<open>None\<close> is a search that was still running.

  What is shown: with the qualities the options allow, nine rounds are enough, what is found
  reaches the target and the quality below it misses it, a shortfall is the encode at the top of
  the range, and where the score rises with the quality the answer is the least quality that
  reaches the target. A range up to 255 can keep the loop running for ever.
\<close>

datatype 't quality_search =
    Met (met_quality: u8) (met_output: 't)
  | Shortfall u8 't float_val

definition u8_saturating_inc :: "u8 \<Rightarrow> u8" where
  "u8_saturating_inc w = (if w = 255 then 255 else w + 1)"

fun search_loop ::
  "nat \<Rightarrow> (u8 \<Rightarrow> ('e, 't \<times> float_val) outcome) \<Rightarrow> float_val \<Rightarrow> u8 \<Rightarrow> u8 \<Rightarrow> (u8 \<times> 't) option \<Rightarrow>
    (u8 \<times> 't \<times> float_val) option \<Rightarrow>
    ('e, (u8 \<times> 't) option \<times> (u8 \<times> 't \<times> float_val) option) outcome option" where
  "search_loop 0 probe target low high met shortfall = None"
| "search_loop (Suc fuel) probe target low high met shortfall =
     (if \<not> low \<le> high then Some (Ok (met, shortfall))
      else let mid = low + (high - low) div 2 in
        case probe mid of
          Err e \<Rightarrow> Some (Err e)
        | Panic \<Rightarrow> Some Panic
        | Ok (candidate, score) \<Rightarrow>
            if float_le target score then
              (if mid = 1 then Some (Ok (Some (mid, candidate), shortfall))
               else search_loop fuel probe target low (mid - 1) (Some (mid, candidate)) shortfall)
            else search_loop fuel probe target (u8_saturating_inc mid) high met (Some (mid, candidate, score)))"

definition search_quality_for_target ::
  "nat \<Rightarrow> target_quality \<Rightarrow> u8 \<Rightarrow> (u8 \<Rightarrow> ('e, 't \<times> float_val) outcome) \<Rightarrow> ('e, 't quality_search) outcome option"
where
  "search_quality_for_target fuel target max_quality probe =
     map_option (\<lambda>r. and_then r (\<lambda>(met, shortfall).
         case met of
           Some (q, output) \<Rightarrow> Ok (Met q output)
         | None \<Rightarrow>
             (case shortfall of
                Some (q, output, score) \<Rightarrow> Ok (Shortfall q output score)
              | None \<Rightarrow> Panic)))
       (search_loop fuel probe (tq_value target) 1 (max max_quality 1) None None)"

text \<open>What the caller makes of the answer: the encode, and the warning a shortfall is worth.\<close>

fun search_answer :: "target_quality \<Rightarrow> 't quality_search \<Rightarrow> 't \<times> transform_warning list" where
  "search_answer target (Met q output) = (output, [])"
| "search_answer target (Shortfall q output score) = (output, [TargetQualityNotReached target score q])"

definition encode_lossy_with_target ::
  "nat \<Rightarrow> target_quality \<Rightarrow> u8 \<Rightarrow> (u8 \<Rightarrow> ('e, 't) outcome) \<Rightarrow> (quality_metric \<Rightarrow> 't \<Rightarrow> ('e, float_val) outcome) \<Rightarrow>
    ('e, 't \<times> transform_warning list) outcome option" where
  "encode_lossy_with_target fuel target max_quality encode measure_metric =
     map_option (map_ok (search_answer target))
       (search_quality_for_target fuel target max_quality (\<lambda>q.
          and_then (encode q) (\<lambda>candidate.
          and_then (measure_metric (tq_metric target) candidate) (\<lambda>score. Ok (candidate, score)))))"

definition default_lossy_quality :: "media_type \<Rightarrow> u8" where
  "default_lossy_quality m = (case m of Jpeg \<Rightarrow> 76 | Webp \<Rightarrow> 75 | _ \<Rightarrow> 80)"

section \<open>The loop\<close>

lemma unat_u8_add: "unat a + unat (b :: u8) < 256 \<Longrightarrow> unat (a + b) = unat a + unat b"
  by (simp add: unat_word_ariths)

lemma unat_mid:
  assumes "low \<le> (high :: u8)"
  shows "unat (low + (high - low) div 2) = unat low + (unat high - unat low) div 2"
proof -
  have half: "unat ((high - low) div 2) = (unat high - unat low) div 2"
    using assms by (simp add: unat_div unat_sub)
  have "unat low + (unat high - unat low) div 2 \<le> unat high"
    using assms by (simp add: word_le_nat_alt)
  then have "unat low + unat ((high - low) div 2) < 256" using u8_less [of high] unfolding half by linarith
  then have "unat (low + (high - low) div 2) = unat low + unat ((high - low) div 2)"
    by (rule unat_u8_add)
  then show ?thesis by (simp only: half)
qed

lemma unat_inc: "w \<noteq> 255 \<Longrightarrow> unat (u8_saturating_inc w) = unat w + 1"
proof -
  assume "w \<noteq> 255"
  then have "unat w \<noteq> unat (255 :: u8)" unfolding unat_inject .
  then have "unat w \<noteq> 255" by simp
  then have "unat w + 1 < 256" using u8_less [of w] by linarith
  then show ?thesis using \<open>w \<noteq> 255\<close> by (simp add: u8_saturating_inc_def unat_word_ariths)
qed

lemma unat_dec: "1 \<le> (w :: u8) \<Longrightarrow> unat (w - 1) = unat w - 1"
  by (simp add: unat_sub)

text \<open>What a probe of a quality came to.\<close>

definition probe_meets :: "(u8 \<Rightarrow> ('e, 't \<times> float_val) outcome) \<Rightarrow> float_val \<Rightarrow> u8 \<Rightarrow> 't \<Rightarrow> bool" where
  "probe_meets probe target q out \<longleftrightarrow> (\<exists>s. probe q = Ok (out, s) \<and> float_le target s)"

definition probe_misses :: "(u8 \<Rightarrow> ('e, 't \<times> float_val) outcome) \<Rightarrow> float_val \<Rightarrow> u8 \<Rightarrow> 't \<Rightarrow> float_val \<Rightarrow> bool" where
  "probe_misses probe target q out s \<longleftrightarrow> probe q = Ok (out, s) \<and> \<not> float_le target s"

text \<open>
  The invariant: what lies below \<open>low\<close> was probed at its upper end and failed, what lies above
  \<open>high\<close> was probed at its lower end and met the target.
\<close>

definition search_inv ::
  "(u8 \<Rightarrow> ('e, 't \<times> float_val) outcome) \<Rightarrow> float_val \<Rightarrow> u8 \<Rightarrow> u8 \<Rightarrow> u8 \<Rightarrow> (u8 \<times> 't) option \<Rightarrow> (u8 \<times> 't \<times> float_val) option \<Rightarrow> bool"
where
  "search_inv probe target limit low high met shortfall \<longleftrightarrow>
     1 \<le> unat low \<and> unat high \<le> unat limit \<and> unat low \<le> unat high + 1 \<and>
     (case met of None \<Rightarrow> high = limit
      | Some (q, out) \<Rightarrow> unat q = unat high + 1 \<and> unat q \<le> unat limit \<and> probe_meets probe target q out) \<and>
     (case shortfall of None \<Rightarrow> low = 1
      | Some (q, out, s) \<Rightarrow> unat low = unat q + 1 \<and> 1 \<le> unat q \<and> probe_misses probe target q out s)"

definition search_done ::
  "(u8 \<Rightarrow> ('e, 't \<times> float_val) outcome) \<Rightarrow> float_val \<Rightarrow> u8 \<Rightarrow> (u8 \<times> 't) option \<Rightarrow> (u8 \<times> 't \<times> float_val) option \<Rightarrow> bool"
where
  "search_done probe target limit met shortfall \<longleftrightarrow>
     (case met of
        Some (q, out) \<Rightarrow> 1 \<le> unat q \<and> unat q \<le> unat limit \<and> probe_meets probe target q out \<and>
          (unat q = 1 \<or> (\<exists>p out' s. unat p + 1 = unat q \<and> probe_misses probe target p out' s))
      | None \<Rightarrow> (\<exists>out s. shortfall = Some (limit, out, s) \<and> probe_misses probe target limit out s))"

text \<open>An outcome of the loop: what was found, or the failure of a quality of the range.\<close>

definition search_ends ::
  "(u8 \<Rightarrow> ('e, 't \<times> float_val) outcome) \<Rightarrow> float_val \<Rightarrow> u8 \<Rightarrow>
    ('e, (u8 \<times> 't) option \<times> (u8 \<times> 't \<times> float_val) option) outcome option \<Rightarrow> bool"
where
  "search_ends probe target limit r \<longleftrightarrow>
     (case r of
        None \<Rightarrow> False
      | Some (Ok (met, shortfall)) \<Rightarrow> search_done probe target limit met shortfall
      | Some (Err e) \<Rightarrow> (\<exists>q. 1 \<le> unat q \<and> unat q \<le> unat limit \<and> probe q = Err e)
      | Some Panic \<Rightarrow> (\<exists>q. 1 \<le> unat q \<and> unat q \<le> unat limit \<and> probe q = Panic))"

lemma search_finished:
  assumes "search_inv probe target limit low high met shortfall" "\<not> low \<le> high"
    and "1 \<le> unat limit"
  shows "search_done probe target limit met shortfall"
proof -
  have low: "unat low = unat high + 1" using assms(1,2) by (auto simp: search_inv_def word_le_nat_alt)
  show ?thesis
  proof (cases met)
    case None
    then have "high = limit" using assms(1) by (simp add: search_inv_def)
    with low assms(3) have "low \<noteq> 1" by auto
    with assms(1) obtain q out s where
      q: "shortfall = Some (q, out, s)" "unat low = unat q + 1" "probe_misses probe target q out s"
      by (auto simp: search_inv_def split: option.splits)
    then have "q = limit" using low \<open>high = limit\<close> by (simp flip: unat_inject)
    with q None show ?thesis by (simp add: search_done_def)
  next
    case (Some m)
    obtain q out where m: "m = (q, out)" by (cases m)
    have "unat q = 1 \<or> (\<exists>p out' s. unat p + 1 = unat q \<and> probe_misses probe target p out' s)"
      using assms(1) low Some m by (auto simp: search_inv_def split: option.splits)
    with assms(1) low Some m show ?thesis by (auto simp: search_inv_def search_done_def)
  qed
qed

lemma search_loop_correct:
  assumes limit: "unat limit \<le> 254" "1 \<le> unat limit"
  shows "search_inv probe target limit low high met shortfall \<Longrightarrow> unat high + 1 - unat low < 2 ^ fuel \<Longrightarrow>
    search_ends probe target limit (search_loop (Suc fuel) probe target low high met shortfall)"
proof (induction fuel arbitrary: low high met shortfall)
  case 0
  then have "\<not> low \<le> high" by (auto simp: word_le_nat_alt)
  with search_finished [OF 0(1) this limit(2)] show ?case by (simp add: search_ends_def)
next
  case (Suc fuel)
  note inv = Suc.prems(1)
  show ?case
  proof (cases "low \<le> high")
    case False
    with search_finished [OF inv False limit(2)] show ?thesis by (simp add: search_ends_def)
  next
    case True
    define mid where "mid = low + (high - low) div 2"
    have mid: "unat mid = unat low + (unat high - unat low) div 2" unfolding mid_def by (rule unat_mid [OF True])
    have bounds: "unat low \<le> unat mid" "unat mid \<le> unat high" "1 \<le> unat low" "unat high \<le> unat limit"
      using mid True inv by (auto simp: search_inv_def word_le_nat_alt)
    have within: "1 \<le> unat mid" "unat mid \<le> unat limit" using bounds by linarith+
    have loop: "search_loop (Suc (Suc fuel)) probe target low high met shortfall =
        (case probe mid of Err e \<Rightarrow> Some (Err e) | Panic \<Rightarrow> Some Panic
         | Ok (out, s) \<Rightarrow>
             if float_le target s
             then (if mid = 1 then Some (Ok (Some (mid, out), shortfall))
               else search_loop (Suc fuel) probe target low (mid - 1) (Some (mid, out)) shortfall)
             else search_loop (Suc fuel) probe target (u8_saturating_inc mid) high met (Some (mid, out, s)))"
      unfolding search_loop.simps(2) [of "Suc fuel"] Let_def mid_def [symmetric]
      using True by (simp del: search_loop.simps cong: outcome.case_cong)
    show ?thesis
    proof (cases "probe mid")
      case (Err e)
      then show ?thesis unfolding loop using within by (auto simp: search_ends_def)
    next
      case Panic
      then show ?thesis unfolding loop using within by (auto simp: search_ends_def)
    next
      case (Ok r)
      obtain out s where r: "probe mid = Ok (out, s)" using Ok by (cases r) auto
      show ?thesis
      proof (cases "float_le target s")
        case met: True
        then have meets: "probe_meets probe target mid out" using r by (auto simp: probe_meets_def)
        show ?thesis
        proof (cases "mid = 1")
          case True
          then show ?thesis unfolding loop using r met meets within by (simp add: search_ends_def search_done_def)
        next
          case False
          then have two: "2 \<le> unat mid" using bounds(1,3) by (metis One_nat_def Suc_1 le_antisym not_less_eq_eq
              order_trans unat_1 unat_inject)
          have dec: "unat (mid - 1) = unat mid - 1" using two by (simp add: unat_dec word_le_nat_alt)
          have "search_inv probe target limit low (mid - 1) (Some (mid, out)) shortfall"
            using inv bounds two dec meets by (auto simp: search_inv_def split: option.splits)
          moreover have "unat (mid - 1) + 1 - unat low < 2 ^ fuel"
            using Suc.prems(2) mid two bounds unfolding dec by simp
          ultimately have "search_ends probe target limit (search_loop (Suc fuel) probe target low (mid - 1) (Some (mid, out)) shortfall)"
            by (rule Suc.IH)
          then show ?thesis unfolding loop using r met False by (simp del: search_loop.simps)
        qed
      next
        case short: False
        then have misses: "probe_misses probe target mid out s" using r by (simp add: probe_misses_def)
        have "mid \<noteq> 255"
        proof
          assume "mid = 255"
          then show False using bounds limit(1) by simp
        qed
        then have inc: "unat (u8_saturating_inc mid) = unat mid + 1" by (rule unat_inc)
        have "search_inv probe target limit (u8_saturating_inc mid) high met (Some (mid, out, s))"
          using inv bounds inc misses by (auto simp: search_inv_def split: option.splits)
        moreover have "unat high + 1 - unat (u8_saturating_inc mid) < 2 ^ fuel"
          using Suc.prems(2) mid bounds unfolding inc by simp
        ultimately have "search_ends probe target limit
            (search_loop (Suc fuel) probe target (u8_saturating_inc mid) high met (Some (mid, out, s)))"
          by (rule Suc.IH)
        then show ?thesis unfolding loop using r short by (simp del: search_loop.simps)
      qed
    qed
  qed
qed

section \<open>Returning\<close>

lemma halving:
  fixes l h x :: nat
  assumes "l \<le> h" "1 \<le> l" "h + 1 - l < 2 * x"
  shows "h + 1 - (l + (h - l) div 2 + 1) < x" "l + (h - l) div 2 - 1 + 1 - l < x"
  using assms by linarith+

lemma search_loop_returns:
  "unat high \<le> 254 \<Longrightarrow> 1 \<le> unat low \<Longrightarrow> unat high + 1 - unat low < 2 ^ fuel \<Longrightarrow>
    search_loop (Suc fuel) probe target low high met shortfall \<noteq> None"
proof (induction fuel arbitrary: low high met shortfall)
  case 0
  then have "\<not> low \<le> high" by (auto simp: word_le_nat_alt)
  then show ?case by simp
next
  case (Suc fuel)
  show ?case
  proof (cases "low \<le> high")
    case True
    define mid where "mid = low + (high - low) div 2"
    have mid: "unat mid = unat low + (unat high - unat low) div 2" unfolding mid_def by (rule unat_mid [OF True])
    have bounds: "unat low \<le> unat mid" "unat mid \<le> unat high" "unat low \<le> unat high"
      using mid True by (auto simp: word_le_nat_alt)
    have inc: "unat (u8_saturating_inc mid) = unat mid + 1"
      using bounds Suc.prems(1) by (intro unat_inc) auto
    have dec: "unat (mid - 1) = unat mid - 1" using bounds Suc.prems(2) by (simp add: unat_dec word_le_nat_alt)
    have up: "search_loop (Suc fuel) probe target (u8_saturating_inc mid) high m s \<noteq> None" for m s
      by (rule Suc.IH) (use Suc.prems(1) bounds halving(1) [OF bounds(3) Suc.prems(2), of "2 ^ fuel"] Suc.prems(3) in
        \<open>simp_all add: inc mid\<close>)
    have down: "search_loop (Suc fuel) probe target low (mid - 1) m s \<noteq> None" for m s
      by (rule Suc.IH) (use Suc.prems(1,2) bounds halving(2) [OF bounds(3) Suc.prems(2), of "2 ^ fuel"] Suc.prems(3) in
        \<open>simp_all add: dec mid\<close>)
    show ?thesis unfolding search_loop.simps(2) [of "Suc fuel"] Let_def mid_def [symmetric]
      by (cases "probe mid"; cases "mid = 1") (use True up down in \<open>auto simp del: search_loop.simps\<close>)
  qed simp
qed

text \<open>A range that reaches 255 has no such bound: the saturated bound never passes the top.\<close>

lemma unat_255: "unat (255 :: u8) = 255"
  by simp

lemma search_loop_may_not_return:
  assumes "\<And>q. probe q = Ok (enc q, score q)" "\<And>q. \<not> float_le target (score q)"
  shows "search_loop fuel probe target low 255 met shortfall = None"
proof (induction fuel arbitrary: low met shortfall)
  case (Suc fuel)
  have "low \<le> 255" using u8_less [of low] unfolding word_le_nat_alt unat_255 by linarith
  with Suc show ?case by (simp add: Let_def assms)
qed simp

definition top_quality :: "u8 \<Rightarrow> u8" where
  "top_quality max_quality = max max_quality 1"

lemma unat_top_quality: "unat (top_quality m) = max (unat m) 1"
  by (simp add: top_quality_def max_def word_le_nat_alt)

lemma quality_search_returns:
  assumes "unat max_quality \<le> 254"
  shows "search_quality_for_target 9 target max_quality probe \<noteq> None"
proof -
  have nine: "(9 :: nat) = Suc 8" by simp
  have "search_loop 9 probe t 1 (top_quality max_quality) None None \<noteq> None" for t
    unfolding nine using assms by (intro search_loop_returns) (auto simp: unat_top_quality)
  then show ?thesis by (simp add: search_quality_for_target_def top_quality_def)
qed

text \<open>
  The search returns within nine rounds whatever the probes answer, errors included, for
  every range of qualities that ends below 255; the options allow none above 100.
\<close>

theorem search_returns:
  assumes "unat max_quality \<le> 254"
  shows "search_quality_for_target 9 target max_quality probe \<noteq> None"
  using assms by (rule quality_search_returns)

theorem search_returns_witness:
  "search_quality_for_target 9 \<lparr>tq_metric = Ssim, tq_value = Fin 1\<rparr> 80
     (\<lambda>q. if q < 40 then Err q else Panic :: (u8, u8 \<times> float_val) outcome) \<noteq> None"
  by (rule search_returns) simp

lemma search_quality_outcome:
  assumes top: "unat max_quality \<le> 254"
  shows "\<exists>r. search_ends probe (tq_value target) (top_quality max_quality) (Some r) \<and>
    search_quality_for_target 9 target max_quality probe =
      Some (and_then r (\<lambda>(met, shortfall). case met of Some (q, output) \<Rightarrow> Ok (Met q output)
        | None \<Rightarrow> (case shortfall of Some (q, output, s) \<Rightarrow> Ok (Shortfall q output s) | None \<Rightarrow> Panic)))"
proof -
  let ?top = "top_quality max_quality"
  have nine: "(9 :: nat) = Suc 8" by simp
  have top_bounds: "unat ?top \<le> 254" "1 \<le> unat ?top" using top by (auto simp: unat_top_quality)
  have start: "search_inv probe (tq_value target) ?top 1 ?top None None" "unat ?top + 1 - unat (1 :: u8) < 2 ^ 8"
    using top_bounds by (auto simp: search_inv_def)
  have ends: "search_ends probe (tq_value target) ?top (search_loop (Suc 8) probe (tq_value target) 1 ?top None None)"
    by (rule search_loop_correct [OF top_bounds start])
  then obtain r where r: "search_loop (Suc 8) probe (tq_value target) 1 ?top None None = Some r"
    by (cases "search_loop (Suc 8) probe (tq_value target) 1 ?top None None") (simp_all add: search_ends_def del: search_loop.simps)
  show ?thesis
    using ends r unfolding nine
    by (intro exI [of _ r]) (simp add: search_quality_for_target_def top_quality_def [symmetric] del: search_loop.simps)
qed

text \<open>The scores of the range rise past the target and stay there.\<close>

definition rises :: "(u8 \<Rightarrow> ('e, 't \<times> float_val) outcome) \<Rightarrow> float_val \<Rightarrow> bool" where
  "rises probe target \<longleftrightarrow>
     (\<forall>p q out out' s. p \<le> q \<longrightarrow> probe_meets probe target p out \<longrightarrow> \<not> probe_misses probe target q out' s)"

lemma found_quality:
  assumes "search_done probe t limit (Some (q, out)) shortfall"
  shows "1 \<le> q \<and> q \<le> limit \<and> probe_meets probe t q out \<and>
    (q = 1 \<or> (\<exists>out' s. probe_misses probe t (q - 1) out' s)) \<and>
    (rises probe t \<longrightarrow> (\<forall>p out'. 1 \<le> p \<longrightarrow> probe_meets probe t p out' \<longrightarrow> q \<le> p))"
proof -
  have q: "1 \<le> unat q" "unat q \<le> unat limit" "probe_meets probe t q out"
    "unat q = 1 \<or> (\<exists>p out' s. unat p + 1 = unat q \<and> probe_misses probe t p out' s)"
    using assms by (auto simp: search_done_def)
  show ?thesis
  proof (cases "unat q = 1")
    case True
    then have "q = 1" by (metis unat_1 unat_inject)
    with q(2,3) show ?thesis by (simp add: word_le_nat_alt)
  next
    case False
    then obtain p out' s where p: "unat p + 1 = unat q" "probe_misses probe t p out' s" using q(4) by blast
    have "unat (q - 1) = unat p" using p(1) q(1) by (simp add: unat_dec word_le_nat_alt)
    then have pred: "q - 1 = p" by (simp only: unat_inject)
    have "q \<le> p'" if "rises probe t" "probe_meets probe t p' out''" for p' out''
    proof (rule ccontr)
      assume "\<not> q \<le> p'"
      then have "p' \<le> p" using p(1) by (simp add: word_le_nat_alt)
      with p(2) that show False unfolding rises_def by blast
    qed
    with q p(2) pred show ?thesis by (auto simp: word_le_nat_alt)
  qed
qed

text \<open>
  C21. Whatever the probes answer and however the score moves with the quality: the search
  returns; what it finds is the encode of a quality of the range that was probed and reaches the
  target, and the quality just below it, if there is one, was probed and misses it; a shortfall is
  the encode at the top of the range with its score, which misses the target; and an error or a
  panic is that of a probe in the range. Only where the scores rise is more known: then the
  quality found is the least one whose probe reaches the target, and a shortfall says that no
  quality of the range reaches it.
\<close>

theorem search_finds_least_quality:
  assumes "unat max_quality \<le> 254"
  shows "case search_quality_for_target 9 target max_quality probe of
      Some (Ok (Met q output)) \<Rightarrow>
        1 \<le> q \<and> q \<le> top_quality max_quality \<and> probe_meets probe (tq_value target) q output \<and>
        (q = 1 \<or> (\<exists>output' s. probe_misses probe (tq_value target) (q - 1) output' s)) \<and>
        (rises probe (tq_value target) \<longrightarrow>
          (\<forall>p output'. 1 \<le> p \<longrightarrow> probe_meets probe (tq_value target) p output' \<longrightarrow> q \<le> p))
    | Some (Ok (Shortfall q output s)) \<Rightarrow>
        q = top_quality max_quality \<and> probe_misses probe (tq_value target) q output s \<and>
        (rises probe (tq_value target) \<longrightarrow>
          (\<forall>p output'. p \<le> q \<longrightarrow> \<not> probe_meets probe (tq_value target) p output'))
    | Some (Err e) \<Rightarrow> \<exists>q. 1 \<le> q \<and> q \<le> top_quality max_quality \<and> probe q = Err e
    | Some Panic \<Rightarrow> \<exists>q. 1 \<le> q \<and> q \<le> top_quality max_quality \<and> probe q = Panic
    | None \<Rightarrow> False"
proof -
  let ?t = "tq_value target" and ?top = "top_quality max_quality"
  obtain r where ends: "search_ends probe ?t ?top (Some r)" and
    eq: "search_quality_for_target 9 target max_quality probe =
      Some (and_then r (\<lambda>(met, shortfall). case met of Some (q, output) \<Rightarrow> Ok (Met q output)
        | None \<Rightarrow> (case shortfall of Some (q, output, s) \<Rightarrow> Ok (Shortfall q output s) | None \<Rightarrow> Panic)))"
    using search_quality_outcome [OF assms] by blast
  show ?thesis
  proof (cases r)
    case (Ok x)
    obtain met shortfall where x: "x = (met, shortfall)" by (cases x)
    have fin: "search_done probe ?t ?top met shortfall" using ends Ok x by (simp add: search_ends_def)
    show ?thesis
    proof (cases met)
      case None
      with fin obtain out s where "shortfall = Some (?top, out, s)" "probe_misses probe ?t ?top out s"
        by (auto simp: search_done_def)
      with eq Ok x None show ?thesis by (auto simp: rises_def)
    next
      case (Some m)
      obtain q out where m: "met = Some (q, out)" using Some by (cases m) auto
      from found_quality [OF fin [unfolded m]] show ?thesis using eq Ok x m by simp
    qed
  next
    case (Err e)
    with ends eq show ?thesis by (simp add: search_ends_def word_le_nat_alt)
  next
    case Panic
    with ends eq show ?thesis by (simp add: search_ends_def word_le_nat_alt)
  qed
qed

text \<open>
  A score that falls again: at 45 the probe reaches the target, at 46 to 56 it misses it, so the
  quality 57 that is found is not the least one.
\<close>

definition stepped_score :: "u8 \<Rightarrow> float_val" where
  "stepped_score q = (if q < 57 \<and> q \<noteq> 45 then Fin 0 else Fin 1)"

lemma stepped_search:
  "search_quality_for_target 9 \<lparr>tq_metric = Ssim, tq_value = Fin 1\<rparr> 80
     (\<lambda>q. Ok (q, stepped_score q) :: (u8, u8 \<times> float_val) outcome) = Some (Ok (Met 57 57))"
  by code_simp

theorem search_finds_least_quality_witness:
  "\<exists>output s. probe_misses (\<lambda>q. Ok (q, stepped_score q) :: (u8, u8 \<times> float_val) outcome) (Fin 1) 56 output s"
  using search_finds_least_quality [where probe = "\<lambda>q. Ok (q, stepped_score q) :: (u8, u8 \<times> float_val) outcome"
      and max_quality = 80 and target = "\<lparr>tq_metric = Ssim, tq_value = Fin 1\<rparr>"]
  by (simp add: stepped_search)

end
