(* ===== verification/Encode.thy ===== *)
theory Encode
  imports Stages Quality_Search
begin

text \<open>
  Encoding, from \<open>src/codecs/raster.rs\<close>: the baseline encoders, the searches that optimize an
  output, and the choice between them. The encoders themselves are the record \<open>encoders\<close>; an
  error of theirs is the text the code wraps.

  The search for a quality carries fuel, so an encode is a value of type \<open>outcome option\<close>, \<open>None\<close>
  when the search was still running; nine rounds are enough for every quality a request may name.

  What is shown: encoding returns, an automatic optimization without a named target is never
  longer than the plain encode, and a warning about a missed target is given exactly for a
  target the caller named.
\<close>

section \<open>Encoders\<close>

datatype png_compression = Default_compression | Best_compression | Level u8
datatype png_filter = Adaptive | Paeth | Sub

datatype encoder =
    Jpeg_encoder u8
  | Png_encoder png_compression png_filter
  | Webp_lossless_encoder
  | Bmp_encoder
  | Tiff_encoder

text \<open>The samples an encoder is given: RGB where every pixel is opaque.\<close>

datatype encode_samples = Rgb_samples dim bytes | Rgba_samples dim bytes

fun samples_dimensions :: "encode_samples \<Rightarrow> dim" where
  "samples_dimensions (Rgb_samples d _) = d"
| "samples_dimensions (Rgba_samples d _) = d"

record 'i encoders =
  en_to_rgb8 :: "'i \<Rightarrow> dim \<times> bytes"
  en_set_icc :: "encoder \<Rightarrow> bytes \<Rightarrow> string option"
  en_set_exif :: "encoder \<Rightarrow> bytes \<Rightarrow> string option"
  en_write :: "encoder \<Rightarrow> bytes option \<Rightarrow> bytes option \<Rightarrow> encode_samples \<Rightarrow> string + bytes"
  en_webp_lossy :: "(encode_samples \<Rightarrow> u8 \<Rightarrow> (unit, bytes) outcome) option" \<comment> \<open>the feature webp-lossy\<close>

definition samples_from_image :: "'i image_ops \<Rightarrow> 'i encoders \<Rightarrow> 'i \<Rightarrow> encode_samples" where
  "samples_from_image J E img =
     (if image_has_transparency J img
      then let b = im_to_rgba8 J img in Rgba_samples (ri_size b) (concat (map channels (ri_pixels b)))
      else let (d, raw) = en_to_rgb8 E img in Rgb_samples d raw)"

definition or_encode_failed :: "string option \<Rightarrow> (transform_error, unit) outcome" where
  "or_encode_failed e = (case e of Some text \<Rightarrow> Err (EncodeFailed text) | None \<Rightarrow> Ok ())"

definition set_with :: "(bytes \<Rightarrow> string option) \<Rightarrow> bytes option \<Rightarrow> (transform_error, unit) outcome" where
  "set_with setter payload = (case payload of Some p \<Rightarrow> or_encode_failed (setter p) | None \<Rightarrow> Ok ())"

text \<open>Set what is retained, write, and wrap the first error.\<close>

definition encode_with ::
  "'i encoders \<Rightarrow> encoder \<Rightarrow> bytes option \<Rightarrow> bytes option \<Rightarrow> encode_samples \<Rightarrow> (transform_error, bytes) outcome" where
  "encode_with E enc icc exif samples =
     and_then (set_with (en_set_icc E enc) icc) (\<lambda>_.
     and_then (set_with (en_set_exif E enc) exif) (\<lambda>_.
       case en_write E enc icc exif samples of Inl text \<Rightarrow> Err (EncodeFailed text) | Inr bs \<Rightarrow> Ok bs))"

definition retained_icc :: "retained_metadata option \<Rightarrow> bytes option" where
  "retained_icc m = Option.bind m icc_profile"

definition retained_exif :: "retained_metadata option \<Rightarrow> bytes option" where
  "retained_exif m = Option.bind m exif_metadata"

definition encode_jpeg ::
  "'i encoders \<Rightarrow> u8 \<Rightarrow> retained_metadata option \<Rightarrow> 'i \<Rightarrow> (transform_error, bytes) outcome" where
  "encode_jpeg E quality m img =
     encode_with E (Jpeg_encoder quality) (retained_icc m) (retained_exif m)
       (let (d, raw) = en_to_rgb8 E img in Rgb_samples d raw)"

definition encode_png ::
  "'i image_ops \<Rightarrow> 'i encoders \<Rightarrow> png_compression \<Rightarrow> png_filter \<Rightarrow> retained_metadata option \<Rightarrow> 'i \<Rightarrow>
    (transform_error, bytes) outcome" where
  "encode_png J E compression prefilter m img =
     encode_with E (Png_encoder compression prefilter) (retained_icc m) (retained_exif m) (samples_from_image J E img)"

definition encode_bmp :: "'i image_ops \<Rightarrow> 'i encoders \<Rightarrow> 'i \<Rightarrow> (transform_error, bytes) outcome" where
  "encode_bmp J E img = encode_with E Bmp_encoder None None (samples_from_image J E img)"

definition encode_tiff ::
  "'i image_ops \<Rightarrow> 'i encoders \<Rightarrow> retained_metadata option \<Rightarrow> 'i \<Rightarrow> (transform_error, bytes) outcome" where
  "encode_tiff J E m img = encode_with E Tiff_encoder (retained_icc m) None (samples_from_image J E img)"

definition encode_webp_lossy_bytes ::
  "'i image_ops \<Rightarrow> 'i encoders \<Rightarrow> u8 \<Rightarrow> 'i \<Rightarrow> (transform_error, bytes) outcome" where
  "encode_webp_lossy_bytes J E quality img =
     (case en_webp_lossy E of
        None \<Rightarrow> Err (CapabilityMissing ''lossy WebP encoding is not enabled in this build'')
      | Some encode \<Rightarrow>
          let samples = samples_from_image J E img in
          case encode samples quality of
            Ok bs \<Rightarrow> Ok bs
          | _ \<Rightarrow> Err (EncodeFailed (''the WebP encoder refused a '' @ show_dim (samples_dimensions samples) @ '' image'')))"

record encoded_output =
  eo_bytes :: bytes
  eo_lossy_webp :: bool

definition plain_output :: "bytes \<Rightarrow> encoded_output" where
  "plain_output bs = \<lparr>eo_bytes = bs, eo_lossy_webp = False\<rparr>"

definition lossy_webp_output :: "bytes \<Rightarrow> encoded_output" where
  "lossy_webp_output bs = \<lparr>eo_bytes = bs, eo_lossy_webp = True\<rparr>"

definition encode_webp_lossless ::
  "'i image_ops \<Rightarrow> 'i encoders \<Rightarrow> retained_metadata option \<Rightarrow> 'i \<Rightarrow> (transform_error, encoded_output) outcome" where
  "encode_webp_lossless J E m img =
     map_ok plain_output (encode_with E Webp_lossless_encoder (retained_icc m) (retained_exif m) (samples_from_image J E img))"

definition encode_baseline_output ::
  "'i image_ops \<Rightarrow> 'i encoders \<Rightarrow> media_type \<Rightarrow> u8 option \<Rightarrow> retained_metadata option \<Rightarrow> 'i \<Rightarrow>
    (transform_error, encoded_output) outcome" where
  "encode_baseline_output J E m quality retained img =
     (case m of
        Jpeg \<Rightarrow> map_ok plain_output (encode_jpeg E (case quality of Some q \<Rightarrow> q | None \<Rightarrow> 80) retained img)
      | Png \<Rightarrow> map_ok plain_output (encode_png J E Default_compression Adaptive retained img)
      | Webp \<Rightarrow> (case quality of
            Some q \<Rightarrow> map_ok lossy_webp_output (encode_webp_lossy_bytes J E q img)
          | None \<Rightarrow> encode_webp_lossless J E retained img)
      | Bmp \<Rightarrow> map_ok plain_output (encode_bmp J E img)
      | Tiff \<Rightarrow> map_ok plain_output (encode_tiff J E retained img)
      | Svg \<Rightarrow> Err (EncodeFailed ''SVG encoding should be handled by transform_svg'')
      | Gif \<Rightarrow> Err (EncodeFailed ''GIF output should be rejected before encoding''))"

section \<open>Optimized encodes\<close>

text \<open>The loop over the strategies keeps the shortest; \<open>i\<close> is the place of a check.\<close>

fun best_png ::
  "(png_compression \<times> png_filter \<Rightarrow> (transform_error, bytes) outcome) \<Rightarrow> (nat \<Rightarrow> (transform_error, unit) outcome) \<Rightarrow>
    nat \<Rightarrow> (png_compression \<times> png_filter) list \<Rightarrow> bytes \<Rightarrow> (transform_error, bytes) outcome" where
  "best_png encode tick i [] best = Ok best"
| "best_png encode tick i (s # strategies) best =
     and_then (encode s) (\<lambda>candidate.
     and_then (tick i) (\<lambda>_.
       best_png encode tick (Suc i) strategies (if length candidate < length best then candidate else best)))"

definition png_strategies :: "(png_compression \<times> png_filter) list" where
  "png_strategies = [(Best_compression, Adaptive), (Best_compression, Paeth), (Best_compression, Sub),
     (Level 9, Adaptive), (Level 9, Paeth)]"

definition encode_png_optimized ::
  "'i image_ops \<Rightarrow> 'i encoders \<Rightarrow> clock \<Rightarrow> budget \<Rightarrow> retained_metadata option \<Rightarrow> 'i \<Rightarrow>
    (transform_error, encoded_output) outcome" where
  "encode_png_optimized J E clk budget m img =
     and_then (encode_png J E Default_compression Adaptive m img) (\<lambda>first.
     and_then (budget_check clk budget ''encode png optimization baseline'' []) (\<lambda>_.
       map_ok plain_output
         (best_png (\<lambda>(compression, prefilter). encode_png J E compression prefilter m img)
           (\<lambda>i. budget_check clk budget ''encode png optimization candidate'' [i]) 0 png_strategies first)))"

definition encode_lossy_with_quality ::
  "'i image_ops \<Rightarrow> 'i encoders \<Rightarrow> clock \<Rightarrow> budget \<Rightarrow> media_type \<Rightarrow> u8 \<Rightarrow> retained_metadata option \<Rightarrow> 'i \<Rightarrow>
    (transform_error, encoded_output) outcome" where
  "encode_lossy_with_quality J E clk budget m quality retained img =
     (let place = [unat quality] in
      case m of
        Jpeg \<Rightarrow> and_then (encode_jpeg E quality retained img) (\<lambda>bs.
          and_then (budget_check clk budget ''encode lossy jpeg'' place) (\<lambda>_. Ok (plain_output bs)))
      | Webp \<Rightarrow> and_then (encode_webp_lossy_bytes J E quality img) (\<lambda>bs.
          and_then (budget_check clk budget ''encode lossy webp'' place) (\<lambda>_. Ok (lossy_webp_output bs)))
      | _ \<Rightarrow> Err (InvalidOptions (''lossy optimization is not supported for '' @ media_name m @ '' output'')))"

text \<open>\<open>sniff_artifact\<close> and the decoder, on a candidate.\<close>

definition decode_encoded_output ::
  "'i image_ops \<Rightarrow> codecs \<Rightarrow> media_type \<Rightarrow> bytes \<Rightarrow> (transform_error, 'i) outcome" where
  "decode_encoded_output J X m bs =
     and_then (sniff_artifact X \<lparr>raw_bytes = bs, raw_declared = Some m\<rparr>) (decode_input J)"

definition measure_quality_metric ::
  "'i image_ops \<Rightarrow> codecs \<Rightarrow> clock \<Rightarrow> budget \<Rightarrow> media_type \<Rightarrow> quality_metric \<Rightarrow> u8 \<Rightarrow> 'i \<Rightarrow> bytes \<Rightarrow>
    (transform_error, float_val) outcome" where
  "measure_quality_metric J X clk budget m metric quality reference bs =
     and_then (decode_encoded_output J X m bs) (\<lambda>decoded.
     and_then (budget_check clk budget ''decode lossy optimization candidate'' [unat quality]) (\<lambda>_.
       (case metric of
          Ssim \<Rightarrow> compute_ssim J (budget_check clk budget) [unat quality] reference decoded
        | Psnr \<Rightarrow> compute_psnr J (budget_check clk budget) [unat quality] reference decoded)))"

section \<open>The search, and the modes\<close>

text \<open>
  A candidate is kept together with its quality, which is what the clock's readings during its
  measurement are known by.
\<close>

definition encode_lossy_with_target_output ::
  "nat \<Rightarrow> 'i image_ops \<Rightarrow> 'i encoders \<Rightarrow> codecs \<Rightarrow> clock \<Rightarrow> budget \<Rightarrow> media_type \<Rightarrow> target_quality \<Rightarrow> u8 \<Rightarrow>
    retained_metadata option \<Rightarrow> 'i \<Rightarrow> (transform_error, encoded_output \<times> transform_warning list) outcome option" where
  "encode_lossy_with_target_output fuel J E X clk budget m target max_quality retained img =
     map_option (map_ok (\<lambda>((q, output), warnings). (output, warnings)))
       (encode_lossy_with_target fuel target max_quality
         (\<lambda>quality. and_then (encode_lossy_with_quality J E clk budget m quality retained img) (\<lambda>candidate.
            and_then (budget_check clk budget ''encode lossy optimization candidate'' [unat quality]) (\<lambda>_.
              Ok (quality, candidate))))
         (\<lambda>metric (quality, candidate).
            and_then (measure_quality_metric J X clk budget m metric quality img (eo_bytes candidate)) (\<lambda>score.
            and_then (budget_check clk budget ''measure lossy optimization quality'' [unat quality]) (\<lambda>_. Ok score))))"

definition encode_lossy_optimized_output ::
  "nat \<Rightarrow> 'i image_ops \<Rightarrow> 'i encoders \<Rightarrow> codecs \<Rightarrow> clock \<Rightarrow> budget \<Rightarrow> media_type \<Rightarrow> normalized_options \<Rightarrow>
    retained_metadata option \<Rightarrow> 'i \<Rightarrow> (transform_error, encoded_output \<times> transform_warning list) outcome option" where
  "encode_lossy_optimized_output fuel J E X clk budget m o' retained img =
     (let target = (case n_target_quality o' of
            Some t \<Rightarrow> Some t
          | None \<Rightarrow> if n_quality o' = None then default_lossy_target_quality m else None)
      in case target of
           Some t \<Rightarrow>
             map_option (map_ok (\<lambda>(output, shortfall).
                 (output, if n_target_quality o' \<noteq> None then shortfall else [])))
               (encode_lossy_with_target_output fuel J E X clk budget m t
                 (case n_quality o' of Some q \<Rightarrow> q | None \<Rightarrow> 100) retained img)
         | None \<Rightarrow>
             Some (map_ok (\<lambda>output. (output, []))
               (encode_lossy_with_quality J E clk budget m
                 (case n_quality o' of Some q \<Rightarrow> q | None \<Rightarrow> default_lossy_quality m) retained img)))"

definition encode_lossless_optimized_output ::
  "'i image_ops \<Rightarrow> 'i encoders \<Rightarrow> clock \<Rightarrow> budget \<Rightarrow> media_type \<Rightarrow> retained_metadata option \<Rightarrow> 'i \<Rightarrow>
    (transform_error, encoded_output) outcome" where
  "encode_lossless_optimized_output J E clk budget m retained img =
     (case m of
        Png \<Rightarrow> encode_png_optimized J E clk budget retained img
      | Webp \<Rightarrow> and_then (budget_check clk budget ''encode lossless webp'' []) (\<lambda>_.
          encode_webp_lossless J E retained img)
      | Jpeg \<Rightarrow> Err (CapabilityMissing
          ''lossless JPEG optimization is only supported when no pixel transforms are applied'')
      | _ \<Rightarrow> Err (InvalidOptions (''optimization is not supported for '' @ media_name m @ '' output'')))"

text \<open>The shorter of the plain encode and the attempt; a named target is not weighed against size.\<close>

definition choose_output ::
  "bool \<Rightarrow> encoded_output \<Rightarrow> encoded_output \<times> transform_warning list \<Rightarrow> encoded_output \<times> transform_warning list" where
  "choose_output named baseline attempt =
     (if named \<or> length (eo_bytes (fst attempt)) < length (eo_bytes baseline) then attempt else (baseline, []))"

definition encode_auto_output ::
  "nat \<Rightarrow> 'i image_ops \<Rightarrow> 'i encoders \<Rightarrow> codecs \<Rightarrow> clock \<Rightarrow> budget \<Rightarrow> media_type \<Rightarrow> normalized_options \<Rightarrow>
    retained_metadata option \<Rightarrow> 'i \<Rightarrow> (transform_error, encoded_output \<times> transform_warning list) outcome option" where
  "encode_auto_output fuel J E X clk budget m o' retained img =
     (let named = n_target_quality o' \<noteq> None in
      case and_then (encode_baseline_output J E m (n_quality o') retained img) (\<lambda>baseline.
             and_then (budget_check clk budget ''encode auto baseline'' []) (\<lambda>_. Ok baseline)) of
        Err e \<Rightarrow> Some (Err e)
      | Panic \<Rightarrow> Some Panic
      | Ok baseline \<Rightarrow>
          if m = Png then
            Some (map_ok (\<lambda>output. choose_output named baseline (output, []))
              (encode_png_optimized J E clk budget retained img))
          else if m = Jpeg \<or> m = Webp then
            map_option (\<lambda>attempt. case attempt of
                Ok optimized \<Rightarrow> Ok (choose_output named baseline optimized)
              | Err (CapabilityMissing text) \<Rightarrow>
                  if m = Webp then Ok (baseline, []) else Err (CapabilityMissing text)
              | Err e \<Rightarrow> Err e
              | Panic \<Rightarrow> Panic)
              (encode_lossy_optimized_output fuel J E X clk budget m o' retained img)
          else Some (Ok (baseline, [])))"

definition encode_output ::
  "nat \<Rightarrow> 'i image_ops \<Rightarrow> 'i encoders \<Rightarrow> codecs \<Rightarrow> clock \<Rightarrow> budget \<Rightarrow> media_type \<Rightarrow> normalized_options \<Rightarrow>
    retained_metadata option \<Rightarrow> 'i \<Rightarrow> (transform_error, encoded_output \<times> transform_warning list) outcome option" where
  "encode_output fuel J E X clk budget m o' retained img =
     (case n_optimize o' of
        NoOpt \<Rightarrow> Some (map_ok (\<lambda>output. (output, [])) (encode_baseline_output J E m (n_quality o') retained img))
      | Auto \<Rightarrow> encode_auto_output fuel J E X clk budget m o' retained img
      | Lossless \<Rightarrow> Some (map_ok (\<lambda>output. (output, [])) (encode_lossless_optimized_output J E clk budget m retained img))
      | Lossy \<Rightarrow> encode_lossy_optimized_output fuel J E X clk budget m o' retained img)"

section \<open>Encoding returns\<close>

lemma target_output_returns:
  "unat max_quality \<le> 254 \<Longrightarrow>
   encode_lossy_with_target_output 9 J E X clk budget m t max_quality retained img \<noteq> None"
  unfolding encode_lossy_with_target_output_def encode_lossy_with_target_def
  by (simp add: quality_search_returns del: not_None_eq)

lemma lossy_output_returns:
  assumes "case n_quality o' of Some q \<Rightarrow> unat q \<le> 254 | None \<Rightarrow> True"
  shows "encode_lossy_optimized_output 9 J E X clk budget m o' retained img \<noteq> None"
proof -
  have "unat (case n_quality o' of Some q \<Rightarrow> q | None \<Rightarrow> 100) \<le> 254" using assms by (auto split: option.splits)
  note returns = target_output_returns [OF this, of J E X clk budget m _ retained img]
  have none: "map_option f x \<noteq> None" if "x \<noteq> None" for f :: "_ \<Rightarrow> 'b" and x using that by simp
  show ?thesis
    unfolding encode_lossy_optimized_output_def Let_def
    by (split option.split, intro conjI impI allI none returns) simp
qed

lemma encode_output_returns:
  assumes "case n_quality o' of Some q \<Rightarrow> unat q \<le> 254 | None \<Rightarrow> True"
  shows "encode_output 9 J E X clk budget m o' retained img \<noteq> None"
  using lossy_output_returns [OF assms]
  by (auto simp: encode_output_def encode_auto_output_def Let_def split: optimize_mode.splits outcome.splits)

section \<open>What an optimized encode promises\<close>

lemma best_png_no_longer: "best_png encode tick i ss best = Ok r \<Longrightarrow> length r \<le> length best"
proof (induction ss arbitrary: i best)
  case (Cons s ss)
  then obtain c where "best_png encode tick (Suc i) ss (if length c < length best then c else best) = Ok r" by auto
  from Cons.IH [OF this] show ?case by (auto split: if_splits)
qed simp

lemma unnamed_target_no_warning:
  assumes "n_target_quality o' = None"
    and "encode_lossy_optimized_output fuel J E X clk budget m o' retained img = Some (Ok (output, warnings))"
  shows "warnings = []"
  using assms(2) unfolding encode_lossy_optimized_output_def Let_def assms(1)
  by (auto split: option.splits if_splits)

text \<open>
  An automatic optimization with no target named answers with no more bytes than the plain
  encode of the same picture, and never with a warning about a target that nobody named; the
  PNG strategies and the fallback when lossy WebP is not built in are included.
\<close>

theorem auto_no_longer_than_baseline:
  assumes "n_optimize o' = Auto" "n_target_quality o' = None"
    and "encode_output fuel J E X clk budget m o' retained img = Some (Ok (output, warnings))"
  shows "\<exists>baseline. encode_baseline_output J E m (n_quality o') retained img = Ok baseline \<and>
    length (eo_bytes output) \<le> length (eo_bytes baseline) \<and> warnings = []"
proof -
  obtain baseline where b: "encode_baseline_output J E m (n_quality o') retained img = Ok baseline"
    "budget_check clk budget ''encode auto baseline'' [] = Ok ()"
    using assms by (auto simp: encode_output_def encode_auto_output_def Let_def split: outcome.splits)
  have run: "encode_auto_output fuel J E X clk budget m o' retained img = Some (Ok (output, warnings))"
    using assms by (simp add: encode_output_def)
  note auto_run = run [unfolded encode_auto_output_def Let_def b and_then.simps assms(2), simplified]
  have "length (eo_bytes output) \<le> length (eo_bytes baseline) \<and> warnings = []"
  proof (cases "m = Png")
    case True
    with auto_run show ?thesis by (auto simp: choose_output_def split: if_splits)
  next
    case not_png: False
    show ?thesis
    proof (cases "m = Jpeg \<or> m = Webp")
      case True
      with not_png auto_run obtain attempt where
        attempt: "encode_lossy_optimized_output fuel J E X clk budget m o' retained img = Some attempt"
        and answer: "(case attempt of
            Ok optimized \<Rightarrow> Ok (choose_output False baseline optimized)
          | Err (CapabilityMissing text) \<Rightarrow> if m = Webp then Ok (baseline, []) else Err (CapabilityMissing text)
          | Err e \<Rightarrow> Err e | Panic \<Rightarrow> Panic) = Ok (output, warnings)"
        by auto
      show ?thesis
      proof (cases attempt)
        case (Ok optimized)
        then have "snd optimized = []" using unnamed_target_no_warning [OF assms(2)] attempt by (cases optimized) simp
        with answer Ok show ?thesis by (auto simp: choose_output_def split: if_splits)
      next
        case (Err e)
        with answer show ?thesis by (cases e) (simp_all split: if_splits)
      next
        case Panic
        with answer show ?thesis by simp
      qed
    next
      case False
      with not_png auto_run show ?thesis by simp
    qed
  qed
  with b(1) show ?thesis by blast
qed

definition sample_encoders :: "rgba_image encoders" where
  "sample_encoders =
     \<lparr>en_to_rgb8 = (\<lambda>b. (ri_size b, [])), en_set_icc = (\<lambda>_ _. None), en_set_exif = (\<lambda>_ _. None),
      en_write = (\<lambda>enc _ _ _. case enc of Png_encoder Default_compression _ \<Rightarrow> Inr [1, 2] | _ \<Rightarrow> Inr [1]),
      en_webp_lossy = None\<rparr>"

lemma sample_auto_png:
  "encode_output 9 plain_ops sample_encoders exif_says_six (\<lambda>_ _. 0) (starting (\<lambda>_ _. 0) None) Png
     ((nreq_options passthrough_example)\<lparr>n_optimize := Auto\<rparr>) None one_red_pixel =
   Some (Ok (plain_output [1], []))"
  by (simp add: encode_output_def encode_auto_output_def encode_baseline_output_def encode_png_def encode_with_def
      encode_png_optimized_def png_strategies_def set_with_def retained_icc_def retained_exif_def sample_encoders_def
      budget_check_def starting_def choose_output_def plain_output_def passthrough_example_def Let_def)

theorem auto_no_longer_than_baseline_witness:
  "\<exists>baseline. encode_baseline_output plain_ops sample_encoders Png None None one_red_pixel = Ok baseline \<and>
     length (eo_bytes (plain_output [1])) \<le> length (eo_bytes baseline)"
  using auto_no_longer_than_baseline [OF _ _ sample_auto_png]
  by (auto simp: passthrough_example_def)

end
