(* ===== verification/Transform.thy ===== *)
theory Transform
  imports Encode
begin

text \<open>
  A whole transform: \<open>transform_raster\<close> of \<open>src/codecs/raster.rs\<close> and the dispatcher
  \<open>transform\<close> of \<open>src/codecs/mod.rs\<close>, composed of the parts the other theories model. The SVG
  codec is an argument of the dispatcher.

  What is shown: a transform returns for every request; what it reports of its output (format,
  size, orientation, one frame) is what it made; an optimization that changes no pixel answers
  with no more bytes than the rewritten input; and an animation or an output the program cannot
  write is refused.
\<close>

section \<open>Containers checked before a decoder opens them\<close>

definition incomplete :: "media_type \<Rightarrow> transform_error" where
  "incomplete m = DecodeFailed (media_name m @ '' image data is incomplete or corrupt'')"

definition validate_webp_chunks :: "bytes \<Rightarrow> (transform_error, unit) outcome" where
  "validate_webp_chunks bs =
     (case parse_webp_chunks bs of Ok _ \<Rightarrow> Ok () | Err _ \<Rightarrow> Err (incomplete Webp) | Panic \<Rightarrow> Panic)"

definition bad_palette :: "bytes \<Rightarrow> nat \<Rightarrow> bool" where
  "bad_palette kind len \<longleftrightarrow> kind = ascii ''PLTE'' \<and> (len = 0 \<or> 768 < len \<or> len mod 3 \<noteq> 0)"

definition png_palette_step :: "bytes \<Rightarrow> nat \<Rightarrow> unit \<Rightarrow> (transform_error, (unit, unit) loop) outcome" where
  "png_palette_step bs offset s =
     (if length bs < offset + 12 then Ok (Stop ())
      else
        and_then (slice bs offset (offset + 4)) (\<lambda>digits.
        and_then (read_u32_be digits) (\<lambda>len.
        and_then (ok_or (incomplete Png) (Option.bind (checked_add offset 12) (\<lambda>n. checked_add n (unat len)))) (\<lambda>fin.
        if length bs < fin then Err (incomplete Png)
        else and_then (slice bs (offset + 4) (offset + 8)) (\<lambda>kind.
          if bad_palette kind (unat len) then Err (incomplete Png)
          else if kind = ascii ''IEND'' then Ok (Stop ())
          else Ok (Next fin ()))))))"

definition validate_png_palette :: "bytes \<Rightarrow> (transform_error, unit) outcome" where
  "validate_png_palette bs = walk (png_palette_step bs) (length bs) 8 ()"

definition validate_container :: "artifact \<Rightarrow> (transform_error, unit) outcome" where
  "validate_container input =
     (case art_media_type input of
        Png \<Rightarrow> validate_png_palette (art_bytes input)
      | Webp \<Rightarrow> validate_webp_chunks (art_bytes input)
      | _ \<Rightarrow> Ok ())"

section \<open>The raster codec\<close>

text \<open>The \<open>?\<close> operator in front of a step that may search for ever.\<close>

definition run_then ::
  "('e, 'a) outcome \<Rightarrow> ('a \<Rightarrow> ('e, 'b) outcome option) \<Rightarrow> ('e, 'b) outcome option" where
  "run_then m f = (case m of Ok x \<Rightarrow> f x | Err e \<Rightarrow> Some (Err e) | Panic \<Rightarrow> Some Panic)"

text \<open>From the encode to the result: injection, the smaller of encode and input, the report.\<close>

definition report_output ::
  "'i image_ops \<Rightarrow> codecs \<Rightarrow> normalized_request \<Rightarrow> 'i \<Rightarrow> transform_warning list \<Rightarrow> transform_warning list \<Rightarrow> bytes \<Rightarrow>
    bytes option \<Rightarrow> transform_result" where
  "report_output J X n img warnings encode_warnings encoded smaller =
     (let o' = nreq_options n;
          (out, ws) = (case smaller of
              Some input_bytes \<Rightarrow> (input_bytes, warnings) | None \<Rightarrow> (encoded, warnings @ encode_warnings));
          orientation = exif_tag X (n_format o') out;
          dropped = (case dropped_orientation_warning X (nreq_input n) (n_auto_orient o') orientation of
              Some w \<Rightarrow> [w] | None \<Rightarrow> [])
      in \<lparr>res_artifact = \<lparr>art_bytes = out, art_media_type = n_format o',
           art_metadata = \<lparr>meta_width = Some (fst (im_size J img)), meta_height = Some (snd (im_size J img)),
             meta_frame_count = 1, meta_duration = None,
             meta_has_alpha = Some (output_has_alpha J img (n_format o')), meta_orientation = orientation\<rparr>\<rparr>,
         res_warnings = ws @ dropped\<rparr>)"

definition finish_transform ::
  "'i image_ops \<Rightarrow> codecs \<Rightarrow> normalized_request \<Rightarrow> retained_metadata option \<Rightarrow> transform_warning list \<Rightarrow> 'i \<Rightarrow>
    encoded_output \<Rightarrow> transform_warning list \<Rightarrow> (transform_error, transform_result) outcome" where
  "finish_transform J X n retained warnings img encoded encode_warnings =
     and_then (case retained of
         Some metadata \<Rightarrow> inject_metadata (eo_bytes encoded) (n_format (nreq_options n)) metadata (eo_lossy_webp encoded) warnings
       | None \<Rightarrow> Ok (eo_bytes encoded, warnings)) (\<lambda>(bs, ws).
       map_ok (report_output J X n img ws encode_warnings bs) (smaller_passthrough X n bs))"

definition transform_pixels ::
  "nat \<Rightarrow> 'i image_ops \<Rightarrow> 'i encoders \<Rightarrow> codecs \<Rightarrow> 'd meta_codecs \<Rightarrow> clock \<Rightarrow> normalized_request \<Rightarrow>
    (transform_error, transform_result) outcome option" where
  "transform_pixels fuel J E X M clk n =
     (let o' = nreq_options n; input = nreq_input n; budget = starting clk (n_deadline o') in
      run_then (extract_retained_metadata M input (n_metadata_policy o') (n_auto_orient o') (n_format o')) (\<lambda>(retained, warnings).
      run_then (check_input_pixel_limit input) (\<lambda>_.
      run_then (decode_input J input) (\<lambda>decoded.
      run_then (budget_check clk budget ''decode'' []) (\<lambda>_.
      run_then (apply_pixel_stages J X clk n budget (n_crop o') decoded) (\<lambda>staged.
      let img = flatten_for_opaque_output J staged (n_background o') (n_format o') in
      case encode_output fuel J E X clk budget (n_format o') o' retained img of
        None \<Rightarrow> None
      | Some encode \<Rightarrow>
          Some (and_then encode (\<lambda>(encoded, encode_warnings).
            and_then (budget_check clk budget ''encode'' []) (\<lambda>_.
              finish_transform J X n retained warnings img encoded encode_warnings)))))))))"

definition transform_raster ::
  "nat \<Rightarrow> 'i image_ops \<Rightarrow> 'i encoders \<Rightarrow> codecs \<Rightarrow> 'd meta_codecs \<Rightarrow> clock \<Rightarrow> transform_request \<Rightarrow>
    (transform_error, transform_result) outcome option" where
  "transform_raster fuel J E X M clk req =
     run_then (normalize_request req) (\<lambda>n.
     run_then (validate_container (nreq_input n)) (\<lambda>_.
     run_then (try_passthrough_lossless_optimization X n) (\<lambda>passed.
       case passed of
         Some result \<Rightarrow> Some (Ok result)
       | None \<Rightarrow> transform_pixels fuel J E X M clk n)))"

section \<open>The dispatcher\<close>

text \<open>\<open>svg\<close> is the SVG codec, \<open>None\<close> in a build without the feature.\<close>

definition animated_refusal :: "artifact \<Rightarrow> string" where
  "animated_refusal input =
     ''animated '' @ media_name (art_media_type input) @ '' is not supported ('' @
     show_word (meta_frame_count (art_metadata input)) @ '' frames); truss transforms single-frame images only''"

definition transform ::
  "(transform_request \<Rightarrow> (transform_error, transform_result) outcome option) option \<Rightarrow>
   nat \<Rightarrow> 'i image_ops \<Rightarrow> 'i encoders \<Rightarrow> codecs \<Rightarrow> 'd meta_codecs \<Rightarrow> clock \<Rightarrow> transform_request \<Rightarrow>
    (transform_error, transform_result) outcome option" where
  "transform svg fuel J E X M clk req =
     (if art_media_type (req_input req) = Svg then
        (case svg of
           Some transform_svg \<Rightarrow> transform_svg req
         | None \<Rightarrow> Some (Err (CapabilityMissing ''SVG processing is not enabled in this build'')))
      else if opt_format (req_options req) = Some Svg then Some (Err (UnsupportedOutputMediaType Svg))
      else if opt_format (req_options req) = Some Gif then Some (Err (UnsupportedOutputMediaType Gif))
      else if 1 < meta_frame_count (art_metadata (req_input req))
      then Some (Err (UnsupportedInputMediaType (animated_refusal (req_input req))))
      else transform_raster fuel J E X M clk req)"

section \<open>A transform returns\<close>

lemma run_then_returns: "(\<And>x. m = Ok x \<Longrightarrow> f x \<noteq> None) \<Longrightarrow> run_then m f \<noteq> None"
  by (cases m) (auto simp: run_then_def)

lemma run_then_returns_pair:
  "(\<And>a b. m = Ok (a, b) \<Longrightarrow> f a b \<noteq> None) \<Longrightarrow> run_then m (\<lambda>(a, b). f a b) \<noteq> None"
  by (rule run_then_returns) auto

lemma run_then_Ok: "run_then m f = Some (Ok r) \<longleftrightarrow> (\<exists>x. m = Ok x \<and> f x = Some (Ok r))"
  by (cases m) (auto simp: run_then_def)

lemma normalized_fields:
  assumes "normalize_request req = Ok n"
  shows "nreq_input n = req_input req" "nreq_watermark n = req_watermark req"
    "n_rotate (nreq_options n) = opt_rotate (req_options req)"
    "n_format (nreq_options n) = resolve_format (req_options req) (art_media_type (req_input req))"
    "n_deadline (nreq_options n) = opt_deadline (req_options req)"
    "n_optimize (nreq_options n) = opt_optimize (req_options req)"
    "case n_quality (nreq_options n) of Some q \<Rightarrow> unat q \<le> 254 | None \<Rightarrow> True"
proof -
  obtain o' where o': "normalize (req_options req) (art_media_type (req_input req)) = Ok o'"
    and n: "n = \<lparr>nreq_input = req_input req, nreq_options = o', nreq_watermark = req_watermark req\<rparr>"
    using assms by (auto simp: normalize_request_def)
  note d = normalize_OkD [OF o']
  show "nreq_input n = req_input req" "nreq_watermark n = req_watermark req"
    "n_rotate (nreq_options n) = opt_rotate (req_options req)"
    "n_format (nreq_options n) = resolve_format (req_options req) (art_media_type (req_input req))"
    "n_deadline (nreq_options n) = opt_deadline (req_options req)"
    "n_optimize (nreq_options n) = opt_optimize (req_options req)"
    using d(2) by (simp_all add: n)
  have "\<forall>q. opt_quality (req_options req) = Some q \<longrightarrow> unat q \<le> 100"
    using d(1) unfolding validate_without_input_Ok by blast
  then show "case n_quality (nreq_options n) of Some q \<Rightarrow> unat q \<le> 254 | None \<Rightarrow> True"
    using d(2) by (auto simp: n split: option.splits)
qed

text \<open>
  C29. Every raster transform returns: with nine rounds for the search of a quality, an answer or
  an error comes back for every request, whatever the decoder, the encoders and the clock do.
\<close>

theorem transform_raster_returns: "transform_raster 9 J E X M clk req \<noteq> None"
proof -
  have pixels: "transform_pixels 9 J E X M clk n \<noteq> None" if "normalize_request req = Ok n" for n
    unfolding transform_pixels_def Let_def
    using encode_output_returns [OF normalized_fields(7) [OF that]]
    by (intro run_then_returns_pair run_then_returns) (simp split: option.split)
  show ?thesis
    unfolding transform_raster_def using pixels by (intro run_then_returns) (auto split: option.splits)
qed

section \<open>What a transform reports\<close>

lemma flatten_size: "sized_ops J \<Longrightarrow> im_size J (flatten_for_opaque_output J img bg m) = im_size J img"
  by (simp add: flatten_for_opaque_output_def sized_opsD map_pixels_def ri_size_def [of "_\<lparr>ri_pixels := _\<rparr>"])
    (simp add: ri_size_def [symmetric] sized_opsD)

lemma transform_pixels_Ok:
  assumes "transform_pixels fuel J E X M clk n = Some (Ok result)"
  shows "\<exists>retained warnings decoded staged encoded encode_warnings.
    extract_retained_metadata M (nreq_input n) (n_metadata_policy (nreq_options n)) (n_auto_orient (nreq_options n))
      (n_format (nreq_options n)) = Ok (retained, warnings) \<and>
    check_input_pixel_limit (nreq_input n) = Ok () \<and> decode_input J (nreq_input n) = Ok decoded \<and>
    in_time clk (n_deadline (nreq_options n)) ''decode'' [] \<and>
    apply_pixel_stages J X clk n (starting clk (n_deadline (nreq_options n))) (n_crop (nreq_options n)) decoded = Ok staged \<and>
    encode_output fuel J E X clk (starting clk (n_deadline (nreq_options n))) (n_format (nreq_options n)) (nreq_options n)
      retained (flatten_for_opaque_output J staged (n_background (nreq_options n)) (n_format (nreq_options n))) =
      Some (Ok (encoded, encode_warnings)) \<and>
    in_time clk (n_deadline (nreq_options n)) ''encode'' [] \<and>
    finish_transform J X n retained warnings
      (flatten_for_opaque_output J staged (n_background (nreq_options n)) (n_format (nreq_options n)))
      encoded encode_warnings = Ok result"
  using assms unfolding transform_pixels_def Let_def run_then_Ok
  by (auto simp: run_then_Ok split: option.splits prod.splits)

text \<open>The bytes of the encode once the retained metadata is in them.\<close>

definition with_metadata ::
  "media_type \<Rightarrow> retained_metadata option \<Rightarrow> transform_warning list \<Rightarrow> encoded_output \<Rightarrow>
    (transform_error, bytes \<times> transform_warning list) outcome" where
  "with_metadata m retained warnings encoded =
     (case retained of
        Some metadata \<Rightarrow> inject_metadata (eo_bytes encoded) m metadata (eo_lossy_webp encoded) warnings
      | None \<Rightarrow> Ok (eo_bytes encoded, warnings))"

lemma finish_transform_Ok:
  assumes "finish_transform J X n retained warnings img encoded encode_warnings = Ok result"
  shows "\<exists>bs ws smaller. with_metadata (n_format (nreq_options n)) retained warnings encoded = Ok (bs, ws) \<and>
    smaller_passthrough X n bs = Ok smaller \<and>
    result = report_output J X n img ws encode_warnings bs smaller"
  using assms by (auto simp: finish_transform_def with_metadata_def split: prod.splits)

lemma report_output_fields:
  "art_media_type (res_artifact (report_output J X n img ws es bs smaller)) = n_format (nreq_options n)"
  "art_bytes (res_artifact (report_output J X n img ws es bs smaller)) =
     (case smaller of Some input_bytes \<Rightarrow> input_bytes | None \<Rightarrow> bs)"
  "art_metadata (res_artifact (report_output J X n img ws es bs smaller)) =
    \<lparr>meta_width = Some (fst (im_size J img)), meta_height = Some (snd (im_size J img)), meta_frame_count = 1,
     meta_duration = None, meta_has_alpha = Some (output_has_alpha J img (n_format (nreq_options n))),
     meta_orientation = exif_tag X (n_format (nreq_options n)) (case smaller of Some input_bytes \<Rightarrow> input_bytes | None \<Rightarrow> bs)\<rparr>"
  by (cases smaller; simp add: report_output_def Let_def)+

text \<open>
  The bytes a transform answers with, made of a staged picture: its encode in the format of the
  request, with the metadata the policy retains, unless a rewrite of the input may be answered
  and is smaller.
\<close>

definition made_from ::
  "nat \<Rightarrow> 'i image_ops \<Rightarrow> 'i encoders \<Rightarrow> codecs \<Rightarrow> 'd meta_codecs \<Rightarrow> clock \<Rightarrow> normalized_request \<Rightarrow> 'i \<Rightarrow> bytes \<Rightarrow> bool"
where
  "made_from fuel J E X M clk n img out \<longleftrightarrow>
     (let o' = nreq_options n; m = n_format o' in
      \<exists>retained warnings encoded encode_warnings bs ws smaller.
        extract_retained_metadata M (nreq_input n) (n_metadata_policy o') (n_auto_orient o') m = Ok (retained, warnings) \<and>
        encode_output fuel J E X clk (starting clk (n_deadline o')) m o' retained img = Some (Ok (encoded, encode_warnings)) \<and>
        with_metadata m retained warnings encoded = Ok (bs, ws) \<and>
        smaller_passthrough X n bs = Ok smaller \<and>
        out = (case smaller of Some rewrite \<Rightarrow> rewrite | None \<Rightarrow> bs))"

text \<open>
  C30. A raster transform that answers says of its output what it made. The format is the one the
  request resolves to and the orientation is the tag read back from the very bytes that are
  returned. Either the request is the lossless optimization of a JPEG: then the bytes are the
  rewrite of the input's own and everything else that is reported is what the input was known
  to be. Or the picture was decoded, ran through the stages the request names and was put on its
  background, and the bytes are made from that picture: its encode, with the retained metadata,
  or the smaller rewrite of the input. What is reported is then the size and the alpha channel of
  that very picture, its size is the one the stages compute from the decoded picture and within
  the pixel limit, there is one frame, and the deadline held after the decode, after every stage
  and after the encode.
\<close>

theorem transform_reports_what_it_made:
  assumes J: "sized_ops J" and r: "unat (as_degrees (opt_rotate (req_options req))) < 360"
    and ok: "transform_raster fuel J E X M clk req = Some (Ok result)"
  shows "\<exists>n. normalize_request req = Ok n \<and>
    (let out = res_artifact result; o' = nreq_options n; m = n_format o' in
     art_media_type out = m \<and> meta_orientation (art_metadata out) = exif_tag X m (art_bytes out) \<and>
     (case try_passthrough_lossless_optimization X n of
        Ok (Some passed) \<Rightarrow> result = passed \<and>
          optimize_jpeg_bytes_losslessly (art_bytes (req_input req)) (n_metadata_policy o') = Ok (art_bytes out) \<and>
          art_metadata out = (art_metadata (req_input req))\<lparr>meta_orientation := exif_tag X m (art_bytes out)\<rparr>
      | Ok None \<Rightarrow> \<exists>decoded staged. decode_input J (req_input req) = Ok decoded \<and>
          apply_pixel_stages J X clk n (starting clk (n_deadline o')) (n_crop o') decoded = Ok staged \<and>
          (let img = flatten_for_opaque_output J staged (n_background o') m in
           made_from fuel J E X M clk n img (art_bytes out) \<and>
           meta_width (art_metadata out) = Some (fst (im_size J img)) \<and>
           meta_height (art_metadata out) = Some (snd (im_size J img)) \<and>
           meta_has_alpha (art_metadata out) = Some (output_has_alpha J img m) \<and>
           im_size J img = staged_size J X n (n_crop o') (im_size J decoded) \<and>
           pixels_of (im_size J img) \<le> MAX_OUTPUT_PIXELS) \<and>
          meta_frame_count (art_metadata out) = 1 \<and>
          list_all (\<lambda>stage. in_time clk (opt_deadline (req_options req)) stage [])
            ([''decode''] @ stages_run n (n_crop o') @ [''encode''])
      | _ \<Rightarrow> False))"
proof -
  obtain n passed where n: "normalize_request req = Ok n"
    and passed: "try_passthrough_lossless_optimization X n = Ok passed"
    and rest: "case passed of Some r \<Rightarrow> r = result | None \<Rightarrow> transform_pixels fuel J E X M clk n = Some (Ok result)"
    using ok by (auto simp: transform_raster_def run_then_Ok split: option.splits)
  note f = normalized_fields [OF n]
  show ?thesis
  proof (cases passed)
    case (Some p)
    with passed rest f(1) show ?thesis
      by (intro exI [of _ n]) (auto simp: n try_passthrough_lossless_optimization_def Let_def split: if_splits)
  next
    case None
    with rest have "transform_pixels fuel J E X M clk n = Some (Ok result)" by simp
    from transform_pixels_Ok [OF this, unfolded f(1,5)] obtain retained warnings decoded staged encoded ews where
      run: "extract_retained_metadata M (req_input req) (n_metadata_policy (nreq_options n)) (n_auto_orient (nreq_options n))
          (n_format (nreq_options n)) = Ok (retained, warnings)"
        "decode_input J (req_input req) = Ok decoded" "in_time clk (opt_deadline (req_options req)) ''decode'' []"
        "apply_pixel_stages J X clk n (starting clk (opt_deadline (req_options req))) (n_crop (nreq_options n)) decoded = Ok staged"
        "encode_output fuel J E X clk (starting clk (opt_deadline (req_options req))) (n_format (nreq_options n)) (nreq_options n)
          retained (flatten_for_opaque_output J staged (n_background (nreq_options n)) (n_format (nreq_options n))) =
          Some (Ok (encoded, ews))"
        "in_time clk (opt_deadline (req_options req)) ''encode'' []"
        "finish_transform J X n retained warnings
          (flatten_for_opaque_output J staged (n_background (nreq_options n)) (n_format (nreq_options n))) encoded ews = Ok result"
      by blast
    let ?img = "flatten_for_opaque_output J staged (n_background (nreq_options n)) (n_format (nreq_options n))"
    have "unat (as_degrees (n_rotate (nreq_options n))) < 360" using r by (simp add: f)
    note stages = stages_follow_request [OF J this run(4)]
    from finish_transform_Ok [OF run(7)] obtain bs ws smaller where
      fin: "with_metadata (n_format (nreq_options n)) retained warnings encoded = Ok (bs, ws)"
        "smaller_passthrough X n bs = Ok smaller" "result = report_output J X n ?img ws ews bs smaller" by blast
    have made: "made_from fuel J E X M clk n ?img (art_bytes (res_artifact result))"
      unfolding made_from_def Let_def f(1,5) using run(1,5) fin by (auto simp: report_output_fields simp del: split_paired_Ex)
    show ?thesis
      using n passed None run(2,3,4,6) stages made
      by (auto simp: fin(3) report_output_fields flatten_size [OF J] Let_def f(5) simp del: split_paired_Ex)
  qed
qed

text \<open>
  One report is not that of the bytes it stands beside. Where the rewrite of an oriented input
  is answered in place of the encode, the pixels in it are the stored ones and its tag still
  turns them, while the reported size is that of the picture the pipeline had turned: width and
  height are swapped against what reading the same bytes gives.
\<close>

lemma passthrough_staged_size:
  "is_passthrough_lossless_request X n \<Longrightarrow> staged_size J X n (n_crop (nreq_options n)) d =
     (if n_auto_orient (nreq_options n)
      then oriented_size (exif_tag X (art_media_type (nreq_input n)) (art_bytes (nreq_input n))) d else d)"
  by (simp add: is_passthrough_lossless_request_def staged_size_def rotation_is_identity_def rotated_bounding_box_def
      resolved_output_dimensions_def Let_def)

lemma returned_rewrite_reports_turned_size:
  assumes J: "sized_ops J" and pass: "is_passthrough_lossless_request X n" and orient: "n_auto_orient (nreq_options n)"
    and tag: "orientation_transposes (exif_tag X (art_media_type (nreq_input n)) (art_bytes (nreq_input n)))"
    and stages: "apply_pixel_stages J X clk n (starting clk deadline) (n_crop (nreq_options n)) decoded = Ok staged"
    and report: "reported = art_metadata (res_artifact (report_output J X n
      (flatten_for_opaque_output J staged (n_background (nreq_options n)) (n_format (nreq_options n))) ws es encoded (Some rewrite)))"
  shows "meta_width reported = Some (snd (im_size J decoded)) \<and> meta_height reported = Some (fst (im_size J decoded)) \<and>
    meta_orientation reported = exif_tag X (n_format (nreq_options n)) rewrite"
proof -
  have "unat (as_degrees (n_rotate (nreq_options n))) < 360"
    using pass by (simp add: is_passthrough_lossless_request_def rotation_is_identity_def Let_def)
  from stages_follow_request [OF J this stages] have "im_size J staged = prod.swap (im_size J decoded)"
    using pass orient tag by (simp add: passthrough_staged_size oriented_size_def)
  then show ?thesis by (simp add: report report_output_fields flatten_size [OF J])
qed

section \<open>Optimization never grows a file\<close>

lemma png_candidate_no_longer:
  assumes "png_bytes_satisfying_metadata_policy bs policy = Ok (Some r)" "length bs \<le> usize_max"
  shows "length r \<le> length bs"
proof (cases "policy = KeepAll")
  case True
  with assms(1) show ?thesis by (simp add: png_bytes_satisfying_metadata_policy_def)
next
  case False
  have kept: "length (concat (map chunk_bytes (png_kept policy cs))) \<le> length (concat (map chunk_bytes cs))" for cs
    by (induction cs) (simp_all add: png_kept_def)
  from assms png_policy_iff [OF False assms(2)] obtain signature chunks t where
    "bs = png_bytes signature chunks (png_end_bytes t)" "r = png_bytes signature (png_kept policy chunks) (chunk_bytes (fst t))"
    by blast
  with kept [of chunks] show ?thesis by (cases t) (simp add: png_bytes_def png_end_bytes_def)
qed

text \<open>The rewrite of the input's own bytes that the metadata policy asks for, where there is one.\<close>

definition lossless_rewrite :: "normalized_request \<Rightarrow> bytes option" where
  "lossless_rewrite n =
     (let bs = art_bytes (nreq_input n); policy = n_metadata_policy (nreq_options n) in
      case n_format (nreq_options n) of
        Jpeg \<Rightarrow> ok_of (optimize_jpeg_bytes_losslessly bs policy)
      | Png \<Rightarrow> Option.bind (ok_of (png_bytes_satisfying_metadata_policy bs policy)) (\<lambda>r. r)
      | Webp \<Rightarrow> Option.bind (ok_of (webp_bytes_satisfying_metadata_policy bs policy)) (\<lambda>r. r)
      | _ \<Rightarrow> None)"

lemma lossless_rewrite_no_longer:
  assumes "lossless_rewrite n = Some r" "length (art_bytes (nreq_input n)) \<le> usize_max"
  shows "length r \<le> length (art_bytes (nreq_input n))"
  using assms length_after_rewrite png_candidate_no_longer webp_candidate_no_longer
  by (cases "n_format (nreq_options n)") (auto simp: lossless_rewrite_def Let_def ok_of_Some bind_eq_Some_conv)

lemma smaller_passthrough_bounds:
  assumes "is_passthrough_lossless_request X n" "n_optimize (nreq_options n) \<noteq> NoOpt" "lossless_rewrite n = Some r"
    and "smaller_passthrough X n encoded = Ok smaller"
  shows "length (case smaller of Some c \<Rightarrow> c | None \<Rightarrow> encoded) \<le> length r"
  using assms by (cases "n_format (nreq_options n)")
    (auto simp: lossless_rewrite_def smaller_passthrough_def Let_def ok_of_Some bind_eq_Some_conv split: if_splits)

text \<open>
  C31. Optimization never grows a JPEG, a PNG or a WebP it can rewrite: where a request asks for an
  optimization and for no change of a pixel, and the input's own bytes have a rewrite under the
  metadata policy, what comes back is no longer than that rewrite, and the rewrite is no longer
  than the input, whatever the encoder made of it, the metadata that was injected included. An
  input that has no rewrite (a container that cannot be walked, or another format) is answered
  with its encode, of whatever length that is.
\<close>

theorem optimized_never_grows:
  assumes n: "normalize_request req = Ok n" and opt: "opt_optimize (req_options req) \<noteq> NoOpt"
    and pass: "is_passthrough_lossless_request X n" and rewrite: "lossless_rewrite n = Some r"
    and len: "length (art_bytes (req_input req)) \<le> usize_max"
    and ok: "transform_raster fuel J E X M clk req = Some (Ok result)"
  shows "length (art_bytes (res_artifact result)) \<le> length r \<and> length r \<le> length (art_bytes (req_input req))"
proof -
  note f = normalized_fields [OF n]
  have opt': "n_optimize (nreq_options n) \<noteq> NoOpt"
    using opt by (simp add: f)
  obtain passed where passed: "try_passthrough_lossless_optimization X n = Ok passed"
    using ok n by (auto simp: transform_raster_def run_then_Ok)
  have "length (art_bytes (res_artifact result)) \<le> length r"
  proof (cases passed)
    case (Some p)
    then have "p = result" using ok n passed by (auto simp: transform_raster_def run_then_Ok)
    then have "optimize_jpeg_bytes_losslessly (art_bytes (nreq_input n)) (n_metadata_policy (nreq_options n)) =
        Ok (art_bytes (res_artifact result))" "n_format (nreq_options n) = Jpeg"
      using passed Some by (auto simp: try_passthrough_lossless_optimization_def Let_def split: if_splits)
    with rewrite show ?thesis by (simp add: lossless_rewrite_def ok_of_Some)
  next
    case None
    then have "transform_pixels fuel J E X M clk n = Some (Ok result)"
      using ok n passed by (auto simp: transform_raster_def run_then_Ok)
    from transform_pixels_Ok [OF this] obtain retained warnings img encoded ews where
      "finish_transform J X n retained warnings img encoded ews = Ok result" by blast
    from finish_transform_Ok [OF this] obtain bs ws smaller where
      "smaller_passthrough X n bs = Ok smaller" "result = report_output J X n img ws ews bs smaller" by blast
    with smaller_passthrough_bounds [OF pass opt' rewrite, of bs smaller] show ?thesis
      by (simp add: report_output_fields)
  qed
  with lossless_rewrite_no_longer [OF rewrite] len show ?thesis by (simp add: f)
qed

section \<open>What the dispatcher refuses\<close>

lemma resolved_format_raster:
  "opt_format opts \<noteq> Some Svg \<Longrightarrow> opt_format opts \<noteq> Some Gif \<Longrightarrow> m \<noteq> Svg \<Longrightarrow> resolve_format opts m \<notin> {Gif, Svg}"
  by (auto simp: resolve_format_def is_encodable_def default_output_def split: option.splits)

text \<open>
  C32. Where the input is not a drawing, a transform answers only for a single frame, and only with
  a format the program can write.
\<close>

theorem transform_answers_one_frame:
  assumes svg: "art_media_type (req_input req) \<noteq> Svg"
    and ok: "transform svg fuel J E X M clk req = Some (Ok result)"
  shows "meta_frame_count (art_metadata (req_input req)) \<le> 1 \<and> art_media_type (res_artifact result) \<notin> {Gif, Svg}"
proof -
  have raster: "transform_raster fuel J E X M clk req = Some (Ok result)"
    and one: "\<not> 1 < meta_frame_count (art_metadata (req_input req))"
    and fmt: "opt_format (req_options req) \<noteq> Some Svg" "opt_format (req_options req) \<noteq> Some Gif"
    using ok svg by (auto simp: transform_def split: if_splits)
  obtain n passed where n: "normalize_request req = Ok n" "try_passthrough_lossless_optimization X n = Ok passed"
    using raster by (auto simp: transform_raster_def run_then_Ok)
  have "art_media_type (res_artifact result) = n_format (nreq_options n)"
  proof (cases passed)
    case (Some r)
    then have "r = result" using raster n by (auto simp: transform_raster_def run_then_Ok)
    then show ?thesis using n(2) Some
      by (auto simp: try_passthrough_lossless_optimization_def Let_def split: if_splits)
  next
    case None
    then have "transform_pixels fuel J E X M clk n = Some (Ok result)"
      using raster n by (auto simp: transform_raster_def run_then_Ok)
    from transform_pixels_Ok [OF this] obtain retained warnings img encoded ews where
      "finish_transform J X n retained warnings img encoded ews = Ok result" by blast
    from finish_transform_Ok [OF this] show ?thesis by (auto simp: report_output_fields)
  qed
  with one resolved_format_raster [OF fmt svg] show ?thesis
    by (simp add: normalized_fields [OF n(1)] not_less)
qed

section \<open>A concrete transform\<close>

definition plain_request :: "optimize_mode \<Rightarrow> transform_request" where
  "plain_request mode = \<lparr>req_input = \<lparr>art_bytes = tagged_jpeg, art_media_type = Jpeg, art_metadata = default_metadata\<rparr>,
     req_options = default_options\<lparr>opt_auto_orient := False, opt_optimize := mode\<rparr>, req_watermark = None\<rparr>"

definition plain_normal :: "optimize_mode \<Rightarrow> metadata_policy \<Rightarrow> normalized_request" where
  "plain_normal mode policy = passthrough_example\<lparr>nreq_options :=
     (nreq_options passthrough_example)\<lparr>n_optimize := mode, n_metadata_policy := policy\<rparr>\<rparr>"

definition no_metadata :: "unit meta_codecs" where
  "no_metadata = \<lparr>meta_open = (\<lambda>_ _. Inr ()), meta_exif = (\<lambda>_. Inr None), meta_icc = (\<lambda>_. Inr None),
     meta_xmp = (\<lambda>_. Inr None), meta_iptc = (\<lambda>_. Inr None), meta_reset_orientation = id\<rparr>"

lemma plain_normalized:
  "normalize_request (plain_request NoOpt) = Ok (plain_normal NoOpt StripAll)"
  "normalize_request (plain_request Lossless) = Ok (plain_normal Lossless PreserveIcc)"
  by code_simp+

lemma plain_not_passed: "try_passthrough_lossless_optimization exif_says_six (plain_normal NoOpt StripAll) = Ok None"
  by code_simp

lemma plain_tags: "exif_tag exif_says_six Jpeg [1] = None" "exif_tag exif_says_six Jpeg tagged_jpeg = Some 6"
  by code_simp+

lemma plain_stages:
  "apply_pixel_stages plain_ops exif_says_six (\<lambda>_ _. 0) (plain_normal NoOpt StripAll) (starting (\<lambda>_ _. 0) None) None
     one_red_pixel = Ok one_red_pixel"
  by (simp add: apply_pixel_stages_def plain_normal_def passthrough_example_def apply_rotation_def quarter_turns_def
      optional_stage_def budget_check_def starting_def check_output_pixel_limit_def resolved_output_dimensions_def
      pixels_of_eq MAX_OUTPUT_PIXELS_def check_output_format_dimensions_def apply_resize_def
      plain_ops_def one_red_pixel_def from_pixel_def ri_size_def Let_def)

lemma plain_decoded: "decode_input plain_ops (nreq_input (plain_normal NoOpt StripAll)) = Ok one_red_pixel"
  by (simp add: decode_input_def plain_normal_def passthrough_example_def plain_ops_def)

lemma plain_flat: "flatten_for_opaque_output plain_ops one_red_pixel None Jpeg = one_red_pixel"
  by (simp add: flatten_for_opaque_output_def image_has_transparency_def plain_ops_def one_red_pixel_def from_pixel_def)

lemma plain_encoded:
  "encode_output 9 plain_ops sample_encoders exif_says_six (\<lambda>_ _. 0) (starting (\<lambda>_ _. 0) None) Jpeg
     (nreq_options (plain_normal NoOpt StripAll)) None one_red_pixel = Some (Ok (plain_output [1], []))"
  by (simp add: encode_output_def encode_baseline_output_def encode_jpeg_def encode_with_def set_with_def
      retained_icc_def retained_exif_def sample_encoders_def plain_normal_def passthrough_example_def plain_output_def)

lemma no_deadline_passes: "budget_check clk (starting clk None) stage place = Ok ()"
  by (simp add: budget_check_def starting_def)

lemma plain_transformed:
  "\<exists>result. transform_raster 9 plain_ops sample_encoders exif_says_six no_metadata (\<lambda>_ _. 0) (plain_request NoOpt) =
     Some (Ok result)"
proof -
  let ?n = "plain_normal NoOpt StripAll"
  have fields: "n_metadata_policy (nreq_options ?n) = StripAll" "n_format (nreq_options ?n) = Jpeg"
    "n_background (nreq_options ?n) = None" "n_deadline (nreq_options ?n) = None" "n_crop (nreq_options ?n) = None"
    "n_optimize (nreq_options ?n) = NoOpt"
    by (simp_all add: plain_normal_def passthrough_example_def)
  have input: "check_input_pixel_limit (nreq_input ?n) = Ok ()" "validate_container (nreq_input ?n) = Ok ()"
    by (simp_all add: plain_normal_def passthrough_example_def check_input_pixel_limit_def default_metadata_def
        validate_container_def)
  have "smaller_passthrough exif_says_six ?n (eo_bytes (plain_output [1])) = Ok None"
    by (simp add: smaller_passthrough_def fields)
  then show ?thesis
    unfolding transform_raster_def run_then_Ok plain_normalized
    by (simp add: plain_not_passed input transform_pixels_def Let_def run_then_def extract_retained_metadata_def fields
        plain_decoded plain_stages plain_flat plain_encoded finish_transform_def no_deadline_passes)
qed

theorem transform_reports_what_it_made_witness:
  "\<exists>result. transform_raster 9 plain_ops sample_encoders exif_says_six no_metadata (\<lambda>_ _. 0) (plain_request NoOpt) =
     Some (Ok result) \<and> meta_width (art_metadata (res_artifact result)) = Some 1 \<and> art_bytes (res_artifact result) = [1] \<and>
     meta_orientation (art_metadata (res_artifact result)) = None"
proof -
  obtain result where ok: "transform_raster 9 plain_ops sample_encoders exif_says_six no_metadata (\<lambda>_ _. 0)
      (plain_request NoOpt) = Some (Ok result)" using plain_transformed by blast
  have "unat (as_degrees (opt_rotate (req_options (plain_request NoOpt)))) < 360"
    by (simp add: plain_request_def default_options_def)
  note report = transform_reports_what_it_made [OF plain_ops_sized this ok]
  have size: "im_size plain_ops one_red_pixel = (1, 1)"
    by (simp add: plain_ops_def one_red_pixel_def from_pixel_def ri_size_def)
  have decoded: "decode_input plain_ops (req_input (plain_request NoOpt)) = Ok one_red_pixel"
    by (simp add: decode_input_def plain_request_def plain_ops_def)
  have fields: "n_format (nreq_options (plain_normal NoOpt StripAll)) = Jpeg"
    "n_crop (nreq_options (plain_normal NoOpt StripAll)) = None" "n_deadline (nreq_options (plain_normal NoOpt StripAll)) = None"
    "n_background (nreq_options (plain_normal NoOpt StripAll)) = None"
    "n_metadata_policy (nreq_options (plain_normal NoOpt StripAll)) = StripAll"
    "n_optimize (nreq_options (plain_normal NoOpt StripAll)) = NoOpt"
    by (simp_all add: plain_normal_def passthrough_example_def)
  have bytes: "made_from 9 plain_ops sample_encoders exif_says_six no_metadata (\<lambda>_ _. 0) (plain_normal NoOpt StripAll) one_red_pixel out
      \<Longrightarrow> out = [1]" for out
    by (auto simp: made_from_def Let_def fields extract_retained_metadata_def plain_encoded with_metadata_def plain_output_def
        smaller_passthrough_def)
  with report ok show ?thesis
    by (auto dest!: bytes simp: plain_normalized plain_not_passed decoded fields plain_stages plain_flat size plain_tags Let_def)
qed

lemma plain_passed:
  "\<exists>result. transform_raster 9 plain_ops sample_encoders exif_says_six no_metadata (\<lambda>_ _. 0) (plain_request Lossless) =
     Some (Ok result)"
proof -
  have "validate_container (nreq_input (plain_normal Lossless PreserveIcc)) = Ok ()"
    by (simp add: plain_normal_def passthrough_example_def validate_container_def)
  moreover have "(case try_passthrough_lossless_optimization exif_says_six (plain_normal Lossless PreserveIcc) of
      Ok (Some _) \<Rightarrow> True | _ \<Rightarrow> False)" by code_simp
  then obtain r where "try_passthrough_lossless_optimization exif_says_six (plain_normal Lossless PreserveIcc) = Ok (Some r)"
    by (auto split: outcome.splits option.splits)
  ultimately show ?thesis by (auto simp: transform_raster_def run_then_Ok plain_normalized)
qed

theorem optimized_never_grows_witness:
  "\<exists>result. transform_raster 9 plain_ops sample_encoders exif_says_six no_metadata (\<lambda>_ _. 0) (plain_request Lossless) =
     Some (Ok result) \<and> length (art_bytes (res_artifact result)) \<le> length tagged_jpeg"
proof -
  obtain result where ok: "transform_raster 9 plain_ops sample_encoders exif_says_six no_metadata (\<lambda>_ _. 0)
      (plain_request Lossless) = Some (Ok result)" using plain_passed by blast
  have "opt_optimize (req_options (plain_request Lossless)) \<noteq> NoOpt" by (simp add: plain_request_def)
  moreover have "is_passthrough_lossless_request exif_says_six (plain_normal Lossless PreserveIcc)"
    by code_simp
  moreover have "(case lossless_rewrite (plain_normal Lossless PreserveIcc) of Some _ \<Rightarrow> True | None \<Rightarrow> False)" by code_simp
  then obtain r where "lossless_rewrite (plain_normal Lossless PreserveIcc) = Some r" by (auto split: option.splits)
  moreover have "length (art_bytes (req_input (plain_request Lossless))) \<le> usize_max"
    by (simp add: plain_request_def tagged_jpeg_def exif_prefix_def ascii_def usize_max_def)
  moreover have "art_bytes (req_input (plain_request Lossless)) = tagged_jpeg" by (simp add: plain_request_def)
  ultimately show ?thesis using optimized_never_grows [OF plain_normalized(2) _ _ _ _ ok] ok by fastforce
qed

theorem transform_answers_one_frame_witness:
  "\<exists>result. transform None 9 plain_ops sample_encoders exif_says_six no_metadata (\<lambda>_ _. 0) (plain_request NoOpt) =
     Some (Ok result) \<and> art_media_type (res_artifact result) \<notin> {Gif, Svg}"
proof -
  have raster: "art_media_type (req_input (plain_request NoOpt)) \<noteq> Svg" by (simp add: plain_request_def)
  obtain result where "transform_raster 9 plain_ops sample_encoders exif_says_six no_metadata (\<lambda>_ _. 0)
      (plain_request NoOpt) = Some (Ok result)" using plain_transformed by blast
  then have ok: "transform None 9 plain_ops sample_encoders exif_says_six no_metadata (\<lambda>_ _. 0) (plain_request NoOpt) =
      Some (Ok result)"
    by (simp add: transform_def plain_request_def default_options_def default_metadata_def)
  from transform_answers_one_frame [OF raster ok] ok show ?thesis by blast
qed

end
