(* ===== verification/Handlers.thy ===== *)
theory Handlers
  imports Signing Multipart Transform
begin

text \<open>
  The request handlers of \<open>src/adapters/server/handler.rs\<close>: the JSON transform, the two public
  GET routes and the upload, and the pipeline they share, \<open>transform_source_bytes\<close>. A handler
  reads a record of what the world answers during the request, \<open>serve_world\<close>, and passes on a
  state: the disk of the caches, the counter of transforms in flight, and the events it left
  behind, in their order. The transform itself is \<open>transform\<close> of theory \<open>Transform\<close> with nine
  rounds of fuel.

  What is shown: the identifier of a versioned source determines the source; a request that is
  refused for its credentials leaves no trace; every path gives its slot back, and no picture is
  fetched or decoded without one; a picture that is served is the answer of the transform to the
  request, and the next request for it is answered from the cache with the same bytes.
\<close>

section \<open>Where a source is stored\<close>

datatype storage_backend = Filesystem | S3 | Gcs | Azure

text \<open>The default bucket and the endpoint of each backend that is configured.\<close>

record backends =
  be_backend :: storage_backend
  be_s3 :: "(string \<times> string option) option"
  be_gcs :: "(string \<times> string option) option"
  be_azure :: "(string \<times> string) option"

definition storage_scheme_and_bucket :: "string option \<Rightarrow> backends \<Rightarrow> string \<times> string option" where
  "storage_scheme_and_bucket explicit b =
     (case be_backend b of
        S3 \<Rightarrow> (''s3'', or_else explicit (map_option fst (be_s3 b)))
      | Gcs \<Rightarrow> (''gcs'', or_else explicit (map_option fst (be_gcs b)))
      | Filesystem \<Rightarrow> (''fs'', explicit)
      | Azure \<Rightarrow> (''azure'', or_else explicit (map_option fst (be_azure b))))"

definition is_object_storage_backend :: "backends \<Rightarrow> bool" where
  "is_object_storage_backend b \<longleftrightarrow> be_backend b \<noteq> Filesystem"

fun storage_backend_label :: "storage_backend \<Rightarrow> string" where
  "storage_backend_label Filesystem = ''fs-backend''"
| "storage_backend_label S3 = ''s3-backend''"
| "storage_backend_label Gcs = ''gcs-backend''"
| "storage_backend_label Azure = ''azure-backend''"

definition push_identifier_field :: "string \<Rightarrow> string \<Rightarrow> string" where
  "push_identifier_field text field = text @ show_nat (length field) @ '':'' @ field"

definition prefixed_fields :: "string list \<Rightarrow> string" where
  "prefixed_fields parts = foldl push_identifier_field [] parts"

record serve_config =
  sc_fetch :: fetch_settings
  sc_auth :: auth_settings
  sc_presets :: "string \<Rightarrow> options_payload option"
  sc_backends :: backends
  sc_storage_root_text :: string
  sc_max_input_pixels :: nat
  sc_format_preference :: "media_type list"
  sc_disable_accept_negotiation :: bool
  sc_cache_control :: public_cache_control
  sc_transform_deadline_secs :: nat
  sc_custom_headers :: headers
  sc_cache_max_bytes :: nat
  sc_max_concurrent_transforms :: u64

text \<open>The fields of the identifier of a versioned source; \<open>None\<close> where there is no version.\<close>

definition source_reference :: "Remote.source_payload \<Rightarrow> backends \<Rightarrow> (string \<times> string \<times> string option) option" where
  "source_reference source b =
     (case source of
        SourcePathP path version \<Rightarrow> Some (''path'', path, version)
      | SourceUrlP url version \<Rightarrow> Some (''url'', url, version)
      | SourceStorageP bucket key version \<Rightarrow>
          (let (scheme, effective) = storage_scheme_and_bucket bucket b in
           map_option (\<lambda>bkt. (''storage'', prefixed_fields [scheme, bkt, key], version)) effective))"

definition endpoint_fields :: "backends \<Rightarrow> string list" where
  "endpoint_fields b =
     (case Option.bind (be_s3 b) snd of Some e \<Rightarrow> [e] | None \<Rightarrow> []) @
     (case Option.bind (be_gcs b) snd of Some e \<Rightarrow> [e] | None \<Rightarrow> []) @
     (case be_azure b of Some (_, e) \<Rightarrow> [e] | None \<Rightarrow> [])"

definition source_fields :: "Remote.source_payload \<Rightarrow> serve_config \<Rightarrow> string list option" where
  "source_fields source config =
     Option.bind (source_reference source (sc_backends config)) (\<lambda>(kind, reference, version).
       map_option (\<lambda>v. [kind, reference, v, sc_storage_root_text config,
           if allow_insecure_url_sources (sc_fetch config) then ''insecure'' else ''strict'',
           storage_backend_label (be_backend (sc_backends config))] @ endpoint_fields (sc_backends config)) version)"

definition versioned_source_hash ::
  "(bytes \<Rightarrow> bytes) \<Rightarrow> (bytes \<Rightarrow> string) \<Rightarrow> Remote.source_payload \<Rightarrow> serve_config \<Rightarrow> string option" where
  "versioned_source_hash sha256 hex source config =
     map_option (\<lambda>parts. hex (sha256 (ascii (prefixed_fields parts)))) (source_fields source config)"

section \<open>Warnings as text\<close>

fun show_warning :: "(float_val \<Rightarrow> string) \<Rightarrow> transform_warning \<Rightarrow> string" where
  "show_warning show_f32 (MetadataDropped kind) =
     metadata_kind_name kind @ '' metadata was present in the input but could not be preserved by the output encoder''"
| "show_warning show_f32 (OrientationDropped orientation) =
     ''the input carries EXIF orientation '' @ show_word orientation @ ''; with autoOrient off and the metadata stripped the output records it neither in its pixels nor in its metadata, so it displays rotated. Keep the metadata to preserve the tag, or leave autoOrient on to apply it to the pixels''"
| "show_warning show_f32 (TargetQualityNotReached target achieved quality) =
     ''the lossy encode did not reach '' @ show_target show_f32 target @
     (if quality < 100
      then '' within the quality cap of '' @ show_word quality @ '': at that quality it reached '' @
        metric_name (tq_metric target) @ '' '' @ show_fixed 3 achieved @ ''. Raise the cap or lower the target''
      else '' at quality 100, where it reached '' @ metric_name (tq_metric target) @ '' '' @ show_fixed 3 achieved @
        ''. The quality range is sampled rather than scanned, so a setting the search did not try may still reach it; lower the target for one it will find'')"

section \<open>What a request finds and what it leaves\<close>

type_synonym refusal = "problem \<times> headers"

datatype serve_event =
    Connected "fetch_target list"
  | Hit_counted
  | Miss_counted
  | Slot_taken
  | Slot_refused
  | Slot_freed
  | Watermark_counted
  | Transform_error_counted transform_error
  | Transformed transform_request
  | Duration_counted media_type
  | Logged string
  | Put string

record serve_state =
  ss_disk :: disk
  ss_eviction_secs :: nat
  ss_in_flight :: u64
  ss_events :: "serve_event list"

definition note_event :: "serve_event \<Rightarrow> serve_state \<Rightarrow> serve_state" where
  "note_event e s = s\<lparr>ss_events := ss_events s @ [e]\<rparr>"

text \<open>
  The answers of the world: hashes and codecs, the clock in seconds, the origins of the source and
  of the watermark, the files, the object stores, and what the disk answers to the lookup before
  the source is read, to the one behind it, and to the write of the entry.
\<close>

record ('u, 'i, 'd) serve_world =
  w_sha256 :: "bytes \<Rightarrow> bytes"
  w_show_f32 :: "float_val \<Rightarrow> string"
  w_codecs :: codecs
  w_crypto :: crypto
  w_urls :: "'u url_ops"
  w_form :: form_codec
  w_clock_secs :: "string + nat"
  w_source_web :: web
  w_source_io :: origin_io
  w_files :: storage_files
  w_storage :: "string option \<Rightarrow> string \<Rightarrow> (problem, bytes) outcome"
  w_watermark_web :: web
  w_watermark_io :: origin_io
  w_early_lookup :: lookup_io
  w_early_now :: int
  w_lookup :: lookup_io
  w_now :: int
  w_made_parent :: bool
  w_suffix :: string
  w_answers :: "answer list"
  w_removes :: "path \<Rightarrow> bool"
  w_walk :: "disk \<Rightarrow> fs_node"
  w_put_now :: int
  w_json :: "bytes \<Rightarrow> string + (Remote.source_payload \<times> options_payload \<times> watermark_payload option)"
  w_json_options :: "bytes \<Rightarrow> string + options_payload"
  w_ops :: "'i image_ops"
  w_encoders :: "'i encoders"
  w_meta :: "'d meta_codecs"
  w_clock :: clock
  w_svg :: "(transform_request \<Rightarrow> (transform_error, transform_result) outcome option) option"

text \<open>
  The transform of the request; nine rounds are enough for every raster one. Behind them stands
  \<open>Panic\<close>, which no raster request reaches.
\<close>

definition run_transform ::
  "('u, 'i, 'd) serve_world \<Rightarrow> transform_request \<Rightarrow> (transform_error, transform_result) outcome" where
  "run_transform W req =
     (case transform (w_svg W) 9 (w_ops W) (w_encoders W) (w_codecs W) (w_meta W) (w_clock W) req of
        Some r \<Rightarrow> r
      | None \<Rightarrow> Panic)"

abbreviation w_hex :: "('u, 'i, 'd) serve_world \<Rightarrow> bytes \<Rightarrow> string" where
  "w_hex W \<equiv> hex_encode (w_crypto W)"

definition plain_refusal :: "problem \<Rightarrow> refusal" where
  "plain_refusal p = (p, [])"

section \<open>The concurrency slot\<close>

definition try_acquire :: "u64 \<Rightarrow> u64 \<Rightarrow> bool \<times> u64" where
  "try_acquire limit counter =
     (let prev = counter; added = counter + 1 in if limit \<le> prev then (False, added - 1) else (True, added))"

definition drop_slot :: "u64 \<Rightarrow> u64" where
  "drop_slot counter = counter - 1"

text \<open>The slot is dropped however the body ends, by a panic too.\<close>

definition with_slot ::
  "u64 \<Rightarrow> (serve_state \<Rightarrow> (refusal, 'a) outcome \<times> serve_state) \<Rightarrow> serve_state \<Rightarrow> (refusal, 'a) outcome \<times> serve_state"
where
  "with_slot limit body s =
     (let (acquired, counter) = try_acquire limit (ss_in_flight s) in
      if \<not> acquired
      then (Err (service_unavailable_response ''too many concurrent transforms; retry later'' (Some 1)),
        note_event Slot_refused (s\<lparr>ss_in_flight := counter\<rparr>))
      else
        let (r, s') = body (note_event Slot_taken (s\<lparr>ss_in_flight := counter\<rparr>)) in
        (r, note_event Slot_freed (s'\<lparr>ss_in_flight := drop_slot (ss_in_flight s')\<rparr>)))"

section \<open>Watermarks\<close>

datatype watermark_source = Deferred validated_watermark | Ready watermark_input | No_watermark

definition watermark_artifact :: "codecs \<Rightarrow> validated_watermark \<Rightarrow> bytes \<Rightarrow> (problem, watermark_input) outcome" where
  "watermark_artifact X v bs =
     and_then (map_err (\<lambda>e. bad_request_response (''watermark image is invalid: '' @ show_transform_error e))
       (sniff_artifact X \<lparr>raw_bytes = bs, raw_declared = None\<rparr>)) (\<lambda>artifact.
     if \<not> is_raster (art_media_type artifact)
     then Err (bad_request_response ''watermark image must be a raster format (not SVG)'')
     else Ok \<lparr>wm_image = artifact, wm_position = vw_position v, wm_opacity = vw_opacity v, wm_margin = vw_margin v\<rparr>)"

definition fetch_watermark ::
  "('u, 'i, 'd) serve_world \<Rightarrow> serve_config \<Rightarrow> validated_watermark \<Rightarrow> serve_state \<Rightarrow>
    (refusal, watermark_input) outcome \<times> serve_state" where
  "fetch_watermark W config v s =
     (let (res, targets, d) = fetch_remote_bytes (w_sha256 W) (w_hex W) (w_watermark_web W) (w_watermark_io W)
            (vw_url v) (sc_fetch config) (watermark_policy (sc_fetch config)) (ss_disk s)
      in (map_err plain_refusal (and_then res (watermark_artifact (w_codecs W) v)),
          note_event (Connected targets) (s\<lparr>ss_disk := d\<rparr>)))"

definition resolve_watermark ::
  "('u, 'i, 'd) serve_world \<Rightarrow> serve_config \<Rightarrow> bool \<Rightarrow> watermark_source \<Rightarrow> serve_state \<Rightarrow>
    (refusal, watermark_input option) outcome \<times> serve_state" where
  "resolve_watermark W config drawing source s =
     (if drawing \<and> source \<noteq> No_watermark
      then (Err (plain_refusal (bad_request_response ''watermark is not supported for SVG source images'')), s)
      else case source of
          Deferred v \<Rightarrow>
            (let (res, s') = fetch_watermark W config v s in
             case res of
               Ok wm \<Rightarrow> (Ok (Some wm), note_event Watermark_counted s')
             | Err e \<Rightarrow> (Err e, s')
             | Panic \<Rightarrow> (Panic, s'))
        | Ready wm \<Rightarrow> (Ok (Some wm), note_event Watermark_counted s)
        | No_watermark \<Rightarrow> (Ok None, s))"

section \<open>The pipeline\<close>

definition resolve_output_options ::
  "serve_config \<Rightarrow> http_request \<Rightarrow> artifact \<Rightarrow> transform_options \<Rightarrow>
    (refusal, transform_options \<times> bool) outcome" where
  "resolve_output_options config request artifact options =
     (let accept_may_vary = (opt_format options = None \<and> \<not> sc_disable_accept_negotiation config) in
      and_then (if accept_may_vary
        then negotiate_output_format (header_value (hr_headers request) ''accept'') artifact (sc_format_preference config)
        else Ok None) (\<lambda>negotiated.
        let named = (case negotiated of Some f \<Rightarrow> options\<lparr>opt_format := Some f\<rparr> | None \<Rightarrow> options) in
        Ok (if opt_format named = None
            then named\<lparr>opt_format := Some (default_output (art_media_type artifact))\<rparr> else named, accept_may_vary)))"

definition check_server_pixel_limit :: "serve_config \<Rightarrow> artifact \<Rightarrow> (refusal, unit) outcome" where
  "check_server_pixel_limit config artifact =
     (case (meta_width (art_metadata artifact), meta_height (art_metadata artifact)) of
        (Some w, Some h) \<Rightarrow> reject_if (sc_max_input_pixels config < pixels_of (w, h))
          (plain_refusal (Problem CUnprocessableEntity (''input image has '' @ show_nat (pixels_of (w, h)) @
            '' pixels, server limit is '' @ show_nat (sc_max_input_pixels config))))
      | _ \<Rightarrow> Ok ())"

definition serve_cache :: "serve_config \<Rightarrow> serve_state \<Rightarrow> transform_cache option" where
  "serve_cache config s =
     map_option (\<lambda>root. (cache_new root)\<lparr>tc_max_bytes := sc_cache_max_bytes config,
         tc_last_eviction_secs := ss_eviction_secs s\<rparr>) (fs_cache_root (sc_fetch config))"

definition put_entry ::
  "('u, 'i, 'd) serve_world \<Rightarrow> transform_cache option \<Rightarrow> string \<Rightarrow> artifact \<Rightarrow> string list \<Rightarrow> serve_state \<Rightarrow> serve_state" where
  "put_entry W cache key output warnings s =
     (case cache of
        None \<Rightarrow> s
      | Some c \<Rightarrow>
          (let (c', d) = cache_put c (w_made_parent W) (w_suffix W) (w_answers W) (w_removes W) (w_walk W) (w_put_now W)
                 key (art_media_type output) (art_bytes output) warnings (ss_disk s)
           in note_event (Put key) (s\<lparr>ss_disk := d, ss_eviction_secs := tc_last_eviction_secs c'\<rparr>)))"

definition image_response ::
  "('u, 'i, 'd) serve_world \<Rightarrow> serve_config \<Rightarrow> http_request \<Rightarrow> image_response_policy \<Rightarrow> bool \<Rightarrow> cache_hit_status \<Rightarrow> bool \<Rightarrow>
    artifact \<Rightarrow> string list \<Rightarrow> http_response" where
  "image_response W config request policy accept_may_vary cache_status had_watermark output warnings =
     (let etag = build_image_etag (w_sha256 W) (w_hex W) (art_bytes output);
          hs = build_image_response_headers (art_media_type output) etag policy accept_may_vary cache_status
            (sc_cache_control config) (sc_custom_headers config)
      in if policy = PublicGet \<and> if_none_match_matches (header_value (hr_headers request) ''if-none-match'') etag
         then response_empty ''304 Not Modified'' hs
         else response_binary ''200 OK'' (as_mime (art_media_type output))
           (push_warning_headers hs warnings @ (if had_watermark then [(''X-Truss-Watermark'', ''true'')] else []))
           (art_bytes output))"

text \<open>From the answer of the transform to the response: the log, the entry, the headers.\<close>

definition answer_transformed ::
  "('u, 'i, 'd) serve_world \<Rightarrow> serve_config \<Rightarrow> http_request \<Rightarrow> image_response_policy \<Rightarrow> transform_cache option \<Rightarrow> string \<Rightarrow>
    bool \<Rightarrow> bool \<Rightarrow> transform_result \<Rightarrow> serve_state \<Rightarrow> (refusal, http_response) outcome \<times> serve_state" where
  "answer_transformed W config request policy cache key accept_may_vary had_watermark result s =
     (let texts = map (show_warning (w_show_f32 W)) (res_warnings result);
          warnings = map warning_header_value texts;
          logged = foldl (\<lambda>s text. note_event (Logged (''truss: '' @ text)) s) s texts;
          output = res_artifact result
      in (Ok (image_response W config request policy accept_may_vary (if cache \<noteq> None then CacheMiss else CacheDisabled)
            had_watermark output warnings),
          put_entry W cache key output warnings logged))"

definition transform_in_slot ::
  "('u, 'i, 'd) serve_world \<Rightarrow> serve_config \<Rightarrow> http_request \<Rightarrow> image_response_policy \<Rightarrow> transform_cache option \<Rightarrow> string \<Rightarrow>
    bool \<Rightarrow> artifact \<Rightarrow> transform_options \<Rightarrow> watermark_source \<Rightarrow> serve_state \<Rightarrow>
    (refusal, http_response) outcome \<times> serve_state" where
  "transform_in_slot W config request policy cache key accept_may_vary artifact options source s =
     (let (wm, s1) = resolve_watermark W config (art_media_type artifact = Svg) source s in
      case wm of
        Err e \<Rightarrow> (Err e, s1)
      | Panic \<Rightarrow> (Panic, s1)
      | Ok watermark \<Rightarrow>
          (let req = \<lparr>req_input = artifact, req_options = options, req_watermark = watermark\<rparr>;
               s2 = note_event (Transformed req) s1
           in case run_transform W req of
                Err e \<Rightarrow> (Err (plain_refusal (transform_error_response e)), note_event (Transform_error_counted e) s2)
              | Panic \<Rightarrow> (Panic, s2)
              | Ok result \<Rightarrow> answer_transformed W config request policy cache key accept_may_vary (watermark \<noteq> None) result
                  (note_event (Duration_counted (art_media_type (res_artifact result))) s2)))"

definition with_deadline :: "serve_config \<Rightarrow> transform_options \<Rightarrow> transform_options" where
  "with_deadline config options =
     (if opt_deadline options = None
      then options\<lparr>opt_deadline := Some (sc_transform_deadline_secs config * 1000000000)\<rparr> else options)"

definition transform_source_bytes_inner ::
  "('u, 'i, 'd) serve_world \<Rightarrow> serve_config \<Rightarrow> bytes \<Rightarrow> transform_options \<Rightarrow> http_request \<Rightarrow> image_response_policy \<Rightarrow>
    transform_cache option \<Rightarrow> string \<Rightarrow> watermark_source \<Rightarrow> string option \<Rightarrow> serve_state \<Rightarrow>
    (refusal, http_response) outcome \<times> serve_state" where
  "transform_source_bytes_inner W config source_bytes options0 request policy cache source_hash source wm_identity s =
     (case sniff_artifact (w_codecs W) \<lparr>raw_bytes = source_bytes, raw_declared = None\<rparr> of
        Err e \<Rightarrow> (Err (plain_refusal (transform_error_response e)), note_event (Transform_error_counted e) s)
      | Panic \<Rightarrow> (Panic, s)
      | Ok artifact \<Rightarrow>
          (case and_then (resolve_output_options config request artifact (with_deadline config options0)) (\<lambda>resolved.
               map_ok (\<lambda>_. resolved) (check_server_pixel_limit config artifact)) of
             Err e \<Rightarrow> (Err e, s)
           | Panic \<Rightarrow> (Panic, s)
           | Ok (options, accept_may_vary) \<Rightarrow>
               (let key = compute_cache_key (w_sha256 W) (w_hex W) (w_show_f32 W) source_hash options wm_identity;
                    missed = (\<lambda>s. with_slot (sc_max_concurrent_transforms config)
                      (transform_in_slot W config request policy cache key accept_may_vary artifact options source) s)
                in case cache of
                     None \<Rightarrow> missed s
                   | Some c \<Rightarrow>
                       (let (lookup, d) = cache_get c (w_lookup W) (w_now W) key (ss_disk s);
                            s1 = s\<lparr>ss_disk := d\<rparr>
                        in case into_hit_response (w_sha256 W) (w_hex W) lookup request policy accept_may_vary
                               (sc_cache_control config) (sc_custom_headers config) of
                             Some response \<Rightarrow> (Ok response, note_event Hit_counted s1)
                           | None \<Rightarrow> missed (note_event Miss_counted s1)))))"

definition transform_source_bytes ::
  "('u, 'i, 'd) serve_world \<Rightarrow> serve_config \<Rightarrow> bytes \<Rightarrow> transform_options \<Rightarrow> string option \<Rightarrow> http_request \<Rightarrow>
    image_response_policy \<Rightarrow> watermark_source \<Rightarrow> string option \<Rightarrow> serve_state \<Rightarrow>
    (refusal, http_response) outcome \<times> serve_state" where
  "transform_source_bytes W config source_bytes options versioned_hash request policy source wm_identity s =
     transform_source_bytes_inner W config source_bytes options request policy (serve_cache config s)
       (case versioned_hash of Some hash \<Rightarrow> hash | None \<Rightarrow> w_hex W (w_sha256 W source_bytes)) source wm_identity s"

section \<open>The handlers\<close>

definition watermark_of :: "validated_watermark option \<Rightarrow> watermark_source" where
  "watermark_of v = (case v of Some w \<Rightarrow> Deferred w | None \<Rightarrow> No_watermark)"

definition watermark_ready :: "watermark_input option \<Rightarrow> watermark_source" where
  "watermark_ready v = (case v of Some w \<Rightarrow> Ready w | None \<Rightarrow> No_watermark)"

definition watermark_identity :: "('u, 'i, 'd) serve_world \<Rightarrow> validated_watermark \<Rightarrow> string" where
  "watermark_identity W v =
     compute_watermark_identity (w_sha256 W) (w_hex W) (vw_url v) (position_name (vw_position v)) (vw_opacity v) (vw_margin v)"

definition read_source ::
  "('u, 'i, 'd) serve_world \<Rightarrow> serve_config \<Rightarrow> Remote.source_payload \<Rightarrow> serve_state \<Rightarrow> (refusal, bytes) outcome \<times> serve_state" where
  "read_source W config source s =
     (let (res, targets, d) = resolve_source_bytes (w_sha256 W) (w_hex W) (w_source_web W) (w_source_io W)
            (w_files W) (w_storage W) source (sc_fetch config) (ss_disk s)
      in (map_err plain_refusal res, note_event (Connected targets) (s\<lparr>ss_disk := d\<rparr>)))"

text \<open>What the JSON route and the public routes do once they know what is asked.\<close>

definition serve_source ::
  "('u, 'i, 'd) serve_world \<Rightarrow> serve_config \<Rightarrow> http_request \<Rightarrow> image_response_policy \<Rightarrow> Remote.source_payload \<Rightarrow>
    transform_options \<Rightarrow> validated_watermark option \<Rightarrow> serve_state \<Rightarrow> (refusal, http_response) outcome \<times> serve_state"
where
  "serve_source W config request policy source options watermark s =
     (let versioned = versioned_source_hash (w_sha256 W) (w_hex W) source config;
          wm_identity = map_option (watermark_identity W) watermark;
          (early, d) = try_versioned_cache_lookup (w_sha256 W) (w_hex W) (w_show_f32 W) versioned options request policy
            (fs_cache_root (sc_fetch config)) (sc_cache_control config) (sc_custom_headers config) wm_identity
            (w_early_lookup W) (w_early_now W) (ss_disk s);
          s1 = s\<lparr>ss_disk := d\<rparr>
      in case early of
           Some response \<Rightarrow> (Ok response, note_event Hit_counted s1)
         | None \<Rightarrow>
             (let (res, s2) = read_source W config source s1 in
              case res of
                Err e \<Rightarrow> (Err e, s2)
              | Panic \<Rightarrow> (Panic, s2)
              | Ok source_bytes \<Rightarrow> transform_source_bytes W config source_bytes options versioned request policy
                  (watermark_of watermark) wm_identity s2))"

definition reject_query_string :: "form_codec \<Rightarrow> http_request \<Rightarrow> (problem, unit) outcome" where
  "reject_query_string form request =
     (case nonempty (query_of_target (hr_target request)) of
        None \<Rightarrow> Ok ()
      | Some q \<Rightarrow> Err (bad_request_response
          (''this route takes its options from the request body, not the query string; remove '' @
           join_with '', '' (map (\<lambda>(name, _). ''`'' @ name @ ''`'') (form_parse form q)))))"

definition request_has_json_content_type :: "http_request \<Rightarrow> bool" where
  "request_has_json_content_type request \<longleftrightarrow>
     (case header_value (hr_headers request) ''content-type'' of
        Some v \<Rightarrow> content_type_matches v ''application/json'' | None \<Rightarrow> False)"

definition read_transform_request ::
  "('u, 'i, 'd) serve_world \<Rightarrow> serve_config \<Rightarrow> http_request \<Rightarrow>
    (refusal, Remote.source_payload \<times> transform_options \<times> validated_watermark option) outcome" where
  "read_transform_request W config request =
     and_then (authorize_request (w_crypto W) request (sc_auth config)) (\<lambda>_.
     map_err plain_refusal
       (and_then (reject_query_string (w_form W) request) (\<lambda>_.
        and_then (reject_if (\<not> request_has_json_content_type request)
          (unsupported_media_type_response ''content-type must be application/json'')) (\<lambda>_.
        and_then (case w_json W (hr_body request) of Inl sentence \<Rightarrow> Err (bad_request_response sentence) | Inr p \<Rightarrow> Ok p)
          (\<lambda>(source, payload, watermark).
        and_then (and_then (resolve_preset (sc_presets config) payload) into_options) (\<lambda>options.
        and_then (validate_watermark_payload watermark) (\<lambda>validated.
          Ok (source, options, validated))))))))"

text \<open>\<open>trim_start_matches('/')\<close>\<close>

definition object_key :: "string \<Rightarrow> string" where
  "object_key path = dropWhile (\<lambda>c. c = CHR 0x2F) path"

fun public_source :: "serve_config \<Rightarrow> Payload.source_payload \<Rightarrow> Remote.source_payload" where
  "public_source config (PathSource path version) =
     (if is_object_storage_backend (sc_backends config) then SourceStorageP None (object_key path) version
      else SourcePathP path version)"
| "public_source config (UrlSource url version) = SourceUrlP url version"

definition read_public_request ::
  "('u, 'i, 'd) serve_world \<Rightarrow> serve_config \<Rightarrow> http_request \<Rightarrow> public_source_kind \<Rightarrow>
    (refusal, Remote.source_payload \<times> transform_options \<times> validated_watermark option) outcome" where
  "read_public_request W config request kind =
     map_err plain_refusal
       (and_then (parse_query_params (w_form W) request) (\<lambda>query.
        and_then (authorize_signed_request (w_crypto W) (w_urls W) (w_form W) (w_clock_secs W) request query (sc_auth config))
          (\<lambda>_.
        and_then (parse_public_get_request (sc_presets config) query kind) (\<lambda>(source, options, watermark).
        and_then (validate_watermark_payload watermark) (\<lambda>validated.
          Ok (public_source config source, options, validated))))))"

definition read_upload_request ::
  "('u, 'i, 'd) serve_world \<Rightarrow> serve_config \<Rightarrow> http_request \<Rightarrow>
    (refusal, bytes \<times> transform_options \<times> watermark_input option) outcome" where
  "read_upload_request W config request =
     and_then (authorize_request (w_crypto W) request (sc_auth config)) (\<lambda>_.
     map_err plain_refusal
       (and_then (reject_query_string (w_form W) request) (\<lambda>_.
        and_then (parse_multipart_boundary request) (\<lambda>boundary.
          parse_upload_request (w_codecs W) (sc_presets config) (w_json_options W) (hr_body request) boundary))))"

definition answer_with ::
  "('a \<Rightarrow> serve_state \<Rightarrow> (refusal, http_response) outcome \<times> serve_state) \<Rightarrow> (refusal, 'a) outcome \<Rightarrow> serve_state \<Rightarrow>
    (refusal, http_response) outcome \<times> serve_state" where
  "answer_with f asked s = (case asked of Ok x \<Rightarrow> f x s | Err e \<Rightarrow> (Err e, s) | Panic \<Rightarrow> (Panic, s))"

definition handle_transform_request ::
  "('u, 'i, 'd) serve_world \<Rightarrow> serve_config \<Rightarrow> http_request \<Rightarrow> serve_state \<Rightarrow> (refusal, http_response) outcome \<times> serve_state" where
  "handle_transform_request W config request =
     answer_with (\<lambda>(source, options, watermark). serve_source W config request PrivateTransform source options watermark)
       (read_transform_request W config request)"

definition handle_public_get_request ::
  "('u, 'i, 'd) serve_world \<Rightarrow> serve_config \<Rightarrow> public_source_kind \<Rightarrow> http_request \<Rightarrow> serve_state \<Rightarrow>
    (refusal, http_response) outcome \<times> serve_state" where
  "handle_public_get_request W config kind request =
     answer_with (\<lambda>(source, options, watermark). serve_source W config request PublicGet source options watermark)
       (read_public_request W config request kind)"

definition handle_upload_request ::
  "('u, 'i, 'd) serve_world \<Rightarrow> serve_config \<Rightarrow> http_request \<Rightarrow> serve_state \<Rightarrow> (refusal, http_response) outcome \<times> serve_state" where
  "handle_upload_request W config request =
     answer_with (\<lambda>(file, options, watermark).
         transform_source_bytes W config file options None request PrivateTransform (watermark_ready watermark)
           (map_option (\<lambda>wm. compute_watermark_content_identity (w_sha256 W) (w_hex W)
              (w_hex W (w_sha256 W (art_bytes (wm_image wm)))) (position_name (wm_position wm)) (wm_opacity wm) (wm_margin wm))
            watermark))
       (read_upload_request W config request)"

section \<open>A versioned source and its identifier\<close>

lemma field_prefix_inject:
  assumes "show_nat (length a) @ '':'' @ a @ r = show_nat (length b) @ '':'' @ b @ t"
  shows "a = b \<and> r = t"
proof -
  have digits: "CHR '':'' \<notin> set (show_nat n)" for n
    using show_nat_digits [of n] by (auto simp: list_all_iff is_ascii_digit_def)
  have split: "split_once CHR '':'' (show_nat (length a) @ CHR '':'' # a @ r) = Some (show_nat (length a), a @ r)"
    "split_once CHR '':'' (show_nat (length b) @ CHR '':'' # b @ t) = Some (show_nat (length b), b @ t)"
    using digits by (simp_all add: split_once_Some_iff)
  have "(show_nat (length a), a @ r) = (show_nat (length b), b @ t)"
    using arg_cong [OF assms, of "split_once CHR '':''"] unfolding append_Cons append_Nil split by simp
  then show ?thesis using append_eq_append_conv [of a b r t] by auto
qed

lemma prefixed_fields_concat:
  "prefixed_fields parts = concat (map (\<lambda>f. show_nat (length f) @ '':'' @ f) parts)"
proof -
  have "foldl push_identifier_field acc parts = acc @ concat (map (\<lambda>f. show_nat (length f) @ '':'' @ f) parts)" for acc
    by (induction parts arbitrary: acc) (simp_all add: push_identifier_field_def)
  then show ?thesis by (simp add: prefixed_fields_def)
qed

text \<open>Length-prefixed fields can be told apart whatever they hold.\<close>

lemma prefixed_fields_inject: "prefixed_fields a = prefixed_fields b \<longleftrightarrow> a = b"
proof
  assume "prefixed_fields a = prefixed_fields b"
  then show "a = b"
  proof (induction a arbitrary: b)
    case Nil
    then show ?case by (cases b) (simp_all add: prefixed_fields_concat)
  next
    case (Cons x xs)
    then obtain y ys where b: "b = y # ys" by (cases b) (simp_all add: prefixed_fields_concat)
    from Cons.prems have "x = y \<and> prefixed_fields xs = prefixed_fields ys"
      by (intro field_prefix_inject) (simp add: b prefixed_fields_concat)
    with Cons.IH b show ?case by blast
  qed
qed simp

text \<open>Two sources name the same thing under their configurations.\<close>

fun same_source :: "Remote.source_payload \<Rightarrow> backends \<Rightarrow> Remote.source_payload \<Rightarrow> backends \<Rightarrow> bool" where
  "same_source (SourcePathP p v) b (SourcePathP q w) c \<longleftrightarrow> p = q \<and> v = w"
| "same_source (SourceUrlP p v) b (SourceUrlP q w) c \<longleftrightarrow> p = q \<and> v = w"
| "same_source (SourceStorageP x k v) b (SourceStorageP y l w) c \<longleftrightarrow>
     storage_scheme_and_bucket x b = storage_scheme_and_bucket y c \<and> k = l \<and> v = w"
| "same_source _ b _ c \<longleftrightarrow> False"

text \<open>
  The identifier a versioned source is cached under, instead of its content, is shared by two
  sources exactly when they are of the same kind, name the same path, URL or object, at the same
  version, under the same storage root, URL policy, backend and endpoints. No value of a field
  can reach into the next one.
\<close>

theorem source_identifier_exact:
  assumes "source_fields source config = Some a" "source_fields source' config' = Some b"
  shows "prefixed_fields a = prefixed_fields b \<longleftrightarrow>
    same_source source (sc_backends config) source' (sc_backends config') \<and>
    sc_storage_root_text config = sc_storage_root_text config' \<and>
    allow_insecure_url_sources (sc_fetch config) = allow_insecure_url_sources (sc_fetch config') \<and>
    be_backend (sc_backends config) = be_backend (sc_backends config') \<and>
    endpoint_fields (sc_backends config) = endpoint_fields (sc_backends config')"
proof -
  have labels: "storage_backend_label x = storage_backend_label y \<longleftrightarrow> x = y" for x y
    by (cases x; cases y) simp_all
  obtain k r v where x: "source_reference source (sc_backends config) = Some (k, r, Some v)"
    "a = [k, r, v, sc_storage_root_text config,
           if allow_insecure_url_sources (sc_fetch config) then ''insecure'' else ''strict'',
           storage_backend_label (be_backend (sc_backends config))] @ endpoint_fields (sc_backends config)"
    using assms(1) by (auto simp: source_fields_def bind_eq_Some_conv)
  obtain k' r' v' where y: "source_reference source' (sc_backends config') = Some (k', r', Some v')"
    "b = [k', r', v', sc_storage_root_text config',
           if allow_insecure_url_sources (sc_fetch config') then ''insecure'' else ''strict'',
           storage_backend_label (be_backend (sc_backends config'))] @ endpoint_fields (sc_backends config')"
    using assms(2) by (auto simp: source_fields_def bind_eq_Some_conv)
  have "k = k' \<and> r = r' \<and> v = v' \<longleftrightarrow> same_source source (sc_backends config) source' (sc_backends config')"
    using x(1) y(1)
    by (cases source; cases source') (auto simp: source_reference_def prefixed_fields_inject split: prod.splits)
  then show ?thesis by (auto simp: prefixed_fields_inject x(2) y(2) labels)
qed

text \<open>A witness: the same object named by its own bucket and by the default one.\<close>

definition sample_backends :: backends where
  "sample_backends = \<lparr>be_backend = S3, be_s3 = Some (''b'', None), be_gcs = None, be_azure = None\<rparr>"

definition sample_config :: serve_config where
  "sample_config = \<lparr>sc_fetch = \<lparr>allow_insecure_url_sources = False, max_remote_redirects = 5, fs_cache_root = Some [''c''],
       fs_storage_root = [''r''], fs_max_source_bytes = 100, fs_max_watermark_bytes = 100\<rparr>,
     sc_auth = \<lparr>bearer_token = Some ''t'', signing_keys = [], public_base_url = None\<rparr>, sc_presets = (\<lambda>_. None),
     sc_backends = sample_backends, sc_storage_root_text = ''/r'', sc_max_input_pixels = 1000,
     sc_format_preference = [], sc_disable_accept_negotiation = True,
     sc_cache_control = \<lparr>max_age = 1, stale_while_revalidate = 1\<rparr>, sc_transform_deadline_secs = 30,
     sc_custom_headers = [], sc_cache_max_bytes = 0, sc_max_concurrent_transforms = 1\<rparr>"

theorem source_identifier_exact_witness:
  "\<exists>a b. source_fields (SourceStorageP None ''k'' (Some ''1'')) sample_config = Some a \<and>
     source_fields (SourceStorageP (Some ''b'') ''k'' (Some ''1'')) sample_config = Some b \<and>
     prefixed_fields a = prefixed_fields b"
proof -
  obtain a b where "source_fields (SourceStorageP None ''k'' (Some ''1'')) sample_config = Some a"
    "source_fields (SourceStorageP (Some ''b'') ''k'' (Some ''1'')) sample_config = Some b"
    by (simp add: source_fields_def source_reference_def storage_scheme_and_bucket_def sample_config_def sample_backends_def)
  with source_identifier_exact [OF this] show ?thesis
    by (simp add: storage_scheme_and_bucket_def sample_config_def sample_backends_def)
qed

section \<open>What a request leaves behind\<close>

fun is_slot_event :: "serve_event \<Rightarrow> bool" where
  "is_slot_event Slot_taken \<longleftrightarrow> True"
| "is_slot_event Slot_freed \<longleftrightarrow> True"
| "is_slot_event _ \<longleftrightarrow> False"

fun is_transformed :: "serve_event \<Rightarrow> bool" where
  "is_transformed (Transformed req) \<longleftrightarrow> True"
| "is_transformed _ \<longleftrightarrow> False"

text \<open>The counter is as it was, and these events are new.\<close>

definition leaves :: "serve_state \<Rightarrow> serve_event list \<Rightarrow> serve_state \<Rightarrow> bool" where
  "leaves s es s' \<longleftrightarrow> ss_in_flight s' = ss_in_flight s \<and> ss_events s' = ss_events s @ es"

definition at_most_one_transform :: "serve_event list \<Rightarrow> bool" where
  "at_most_one_transform es \<longleftrightarrow> length (filter is_transformed es) \<le> 1"

text \<open>
  A request that may reach the transform: its output format and its time budget are set, a picture
  whose size is known is no larger than the server allows, and no watermark is put on a drawing.
\<close>

definition admitted :: "serve_config \<Rightarrow> transform_request \<Rightarrow> bool" where
  "admitted config req \<longleftrightarrow>
     opt_format (req_options req) \<noteq> None \<and> opt_deadline (req_options req) \<noteq> None \<and>
     check_server_pixel_limit config (req_input req) = Ok () \<and>
     (art_media_type (req_input req) = Svg \<longrightarrow> req_watermark req = None)"

fun admitted_event :: "serve_config \<Rightarrow> serve_event \<Rightarrow> bool" where
  "admitted_event config (Transformed req) \<longleftrightarrow> admitted config req"
| "admitted_event config _ \<longleftrightarrow> True"

text \<open>
  New events in which a transform, if there is one, runs on an admitted request inside a slot that
  is given back.
\<close>

definition guarded :: "serve_config \<Rightarrow> u64 \<Rightarrow> serve_event list \<Rightarrow> bool" where
  "guarded config in_flight es \<longleftrightarrow>
     list_all (\<lambda>e. \<not> is_slot_event e \<and> \<not> is_transformed e) es \<or>
     (in_flight < sc_max_concurrent_transforms config \<and>
      (\<exists>before inside. es = before @ [Slot_taken] @ inside @ [Slot_freed] \<and>
        list_all (\<lambda>e. \<not> is_slot_event e \<and> \<not> is_transformed e) before \<and>
        list_all (\<lambda>e. \<not> is_slot_event e) inside \<and> at_most_one_transform inside \<and>
        list_all (admitted_event config) inside))"

lemma leaves_refl: "leaves s [] s"
  by (simp add: leaves_def)

lemma leaves_note: "leaves s es s' \<Longrightarrow> leaves s (es @ [e]) (note_event e s')"
  by (simp add: leaves_def note_event_def)

lemma leaves_disk [simp]: "leaves s es (s'\<lparr>ss_disk := d\<rparr>) \<longleftrightarrow> leaves s es s'"
  "leaves s es (s'\<lparr>ss_disk := d, ss_eviction_secs := n\<rparr>) \<longleftrightarrow> leaves s es s'"
  "leaves (s\<lparr>ss_disk := d\<rparr>) es s' \<longleftrightarrow> leaves s es s'"
  by (simp_all add: leaves_def)

lemma leaves_trans: "leaves s es t \<Longrightarrow> leaves t ds u \<Longrightarrow> leaves s (es @ ds) u"
  by (simp add: leaves_def)

definition quiet :: "serve_event list \<Rightarrow> bool" where
  "quiet es \<longleftrightarrow> list_all (\<lambda>e. \<not> is_slot_event e \<and> \<not> is_transformed e) es"

lemma quiet_simps [simp]:
  "quiet []" "quiet (e # es) \<longleftrightarrow> \<not> is_slot_event e \<and> \<not> is_transformed e \<and> quiet es"
  "quiet (es @ ds) \<longleftrightarrow> quiet es \<and> quiet ds"
  by (auto simp: quiet_def)

lemma fetch_watermark_leaves: "fetch_watermark W config v s = (res, s') \<Longrightarrow> \<exists>targets. leaves s [Connected targets] s'"
  by (auto simp: fetch_watermark_def leaves_def note_event_def Let_def split: prod.splits)

lemma resolve_watermark_leaves:
  assumes "resolve_watermark W config drawing source s = (res, s')"
  shows "\<exists>es. leaves s es s' \<and> quiet es"
proof (cases source)
  case (Deferred v)
  obtain r t where f: "fetch_watermark W config v s = (r, t)" by (cases "fetch_watermark W config v s")
  then obtain targets where t: "leaves s [Connected targets] t" using fetch_watermark_leaves by blast
  have "s' = s \<or> s' = t \<or> s' = note_event Watermark_counted t"
    using assms f Deferred by (auto simp: resolve_watermark_def split: if_splits outcome.splits)
  then show ?thesis using leaves_refl [of s] t leaves_note [OF t, of Watermark_counted]
    by (elim disjE) (auto intro: exI [of _ "[]"] exI [of _ "[Connected targets]"] exI [of _ "[Connected targets, Watermark_counted]"])
next
  case (Ready wm)
  then have "s' = s \<or> s' = note_event Watermark_counted s"
    using assms by (auto simp: resolve_watermark_def split: if_splits)
  then show ?thesis using leaves_refl [of s] leaves_note [OF leaves_refl, of s Watermark_counted]
    by (elim disjE) (auto intro: exI [of _ "[]"] exI [of _ "[Watermark_counted]"])
next
  case No_watermark
  then show ?thesis using assms leaves_refl [of s] by (auto simp: resolve_watermark_def intro: exI [of _ "[]"])
qed

lemma logged_leaves: "leaves s (map (\<lambda>text. Logged (p @ text)) texts) (foldl (\<lambda>s text. note_event (Logged (p @ text)) s) s texts)"
proof (induction texts arbitrary: s)
  case (Cons t ts)
  have "leaves s [Logged (p @ t)] (note_event (Logged (p @ t)) s)" using leaves_note [OF leaves_refl] by simp
  from leaves_trans [OF this Cons.IH] show ?case by simp
qed (simp add: leaves_refl)

lemma answer_transformed_leaves:
  assumes "answer_transformed W config request policy cache key vary marked result s = (res, s')"
  shows "\<exists>es. leaves s es s' \<and> quiet es"
proof -
  let ?texts = "map (show_warning (w_show_f32 W)) (res_warnings result)"
  let ?logs = "map (\<lambda>text. Logged (''truss: '' @ text)) ?texts"
  note logs = logged_leaves [of s "''truss: ''" ?texts]
  have quiet: "quiet ?logs" by (simp add: quiet_def list_all_iff)
  show ?thesis
  proof (cases cache)
    case None
    then show ?thesis using assms logs quiet by (auto simp: answer_transformed_def put_entry_def Let_def)
  next
    case (Some c)
    with assms have "leaves s (?logs @ [Put key]) s'" using logs
      by (auto simp: answer_transformed_def put_entry_def Let_def leaves_def note_event_def split: prod.splits)
    then show ?thesis using quiet by (intro exI [of _ "?logs @ [Put key]"]) simp
  qed
qed

lemma transform_in_slot_leaves:
  assumes "transform_in_slot W config request policy cache key vary artifact options source s = (res, s')"
    and admits: "\<And>wm. (art_media_type artifact = Svg \<Longrightarrow> wm = None) \<Longrightarrow>
      admitted config \<lparr>req_input = artifact, req_options = options, req_watermark = wm\<rparr>"
  shows "\<exists>es. leaves s es s' \<and> list_all (\<lambda>e. \<not> is_slot_event e) es \<and> at_most_one_transform es \<and>
    list_all (admitted_event config) es"
proof -
  have unquiet: "quiet es \<Longrightarrow> list_all (\<lambda>e. \<not> is_slot_event e) es \<and> filter is_transformed es = [] \<and>
      list_all (admitted_event config) es" for es
  proof (induction es)
    case (Cons e es)
    then show ?case by (cases e) auto
  qed simp
  obtain wm s1 where r: "resolve_watermark W config (art_media_type artifact = Svg) source s = (wm, s1)"
    by (cases "resolve_watermark W config (art_media_type artifact = Svg) source s")
  from resolve_watermark_leaves [OF this] obtain es where es: "leaves s es s1" "quiet es" by blast
  show ?thesis
  proof (cases wm)
    case (Ok watermark)
    have "art_media_type artifact = Svg \<Longrightarrow> watermark = None"
      using r Ok by (auto simp: resolve_watermark_def split: if_splits)
    from admits [OF this] have adm: "admitted config \<lparr>req_input = artifact, req_options = options, req_watermark = watermark\<rparr>" .
    define req where "req = \<lparr>req_input = artifact, req_options = options, req_watermark = watermark\<rparr>"
    note adm = adm [folded req_def]
    note t = leaves_note [OF es(1), of "Transformed req"]
    show ?thesis
    proof (cases "run_transform W req")
      case fine: (Ok result)
      let ?d = "Duration_counted (art_media_type (res_artifact result))"
      have "answer_transformed W config request policy cache key vary (watermark \<noteq> None) result
          (note_event ?d (note_event (Transformed req) s1)) = (res, s')"
        using assms(1) r Ok fine by (simp add: transform_in_slot_def req_def [symmetric] Let_def del: not_None_eq)
      from answer_transformed_leaves [OF this] obtain ds where
        "leaves (note_event ?d (note_event (Transformed req) s1)) ds s'" "quiet ds" by blast
      with leaves_trans [OF leaves_note [OF t]] have "leaves s ((es @ [Transformed req, ?d]) @ ds) s'" by fastforce
      then show ?thesis using unquiet [OF es(2)] unquiet [OF \<open>quiet ds\<close>]
        by (intro exI [of _ "(es @ [Transformed req, ?d]) @ ds"]) (simp add: at_most_one_transform_def adm)
    next
      case (Err e)
      with assms(1) r Ok have "s' = note_event (Transform_error_counted e) (note_event (Transformed req) s1)"
        by (simp add: transform_in_slot_def req_def [symmetric] Let_def)
      with leaves_note [OF t] unquiet [OF es(2)] show ?thesis
        by (intro exI [of _ "es @ [Transformed req, Transform_error_counted e]"]) (simp add: at_most_one_transform_def adm)
    next
      case Panic
      with assms(1) r Ok have "s' = note_event (Transformed req) s1"
        by (simp add: transform_in_slot_def req_def [symmetric] Let_def)
      with t unquiet [OF es(2)] show ?thesis
        by (intro exI [of _ "es @ [Transformed req]"]) (simp add: at_most_one_transform_def adm)
    qed
  next
    case (Err e)
    with assms(1) r have "s' = s1" by (simp add: transform_in_slot_def)
    with es(1) unquiet [OF es(2)] show ?thesis by (intro exI [of _ es]) (simp add: at_most_one_transform_def)
  next
    case Panic
    with assms(1) r have "s' = s1" by (simp add: transform_in_slot_def)
    with es(1) unquiet [OF es(2)] show ?thesis by (intro exI [of _ es]) (simp add: at_most_one_transform_def)
  qed
qed

lemma with_slot_leaves:
  assumes body: "\<And>s r s'. body s = (r, s') \<Longrightarrow>
      \<exists>es. leaves s es s' \<and> list_all (\<lambda>e. \<not> is_slot_event e) es \<and> at_most_one_transform es \<and>
        list_all (admitted_event config) es"
    and run: "with_slot (sc_max_concurrent_transforms config) body s = (res, s')"
  shows "\<exists>es. leaves s es s' \<and> guarded config (ss_in_flight s) es"
proof (cases "sc_max_concurrent_transforms config \<le> ss_in_flight s")
  case True
  then have "leaves s [Slot_refused] s'"
    using run by (auto simp: with_slot_def try_acquire_def Let_def leaves_def note_event_def)
  then show ?thesis by (intro exI [of _ "[Slot_refused]"]) (simp add: guarded_def)
next
  case False
  let ?s = "note_event Slot_taken (s\<lparr>ss_in_flight := ss_in_flight s + 1\<rparr>)"
  obtain r t where t: "body ?s = (r, t)" by (cases "body ?s")
  from body [OF this] obtain es where
    es: "leaves ?s es t" "list_all (\<lambda>e. \<not> is_slot_event e) es" "at_most_one_transform es"
      "list_all (admitted_event config) es" by blast
  have "s' = note_event Slot_freed (t\<lparr>ss_in_flight := drop_slot (ss_in_flight t)\<rparr>)"
    using run False t by (auto simp: with_slot_def try_acquire_def Let_def)
  then have "leaves s ([] @ [Slot_taken] @ es @ [Slot_freed]) s'"
    using es(1) by (simp add: leaves_def note_event_def drop_slot_def)
  moreover have "guarded config (ss_in_flight s) ([] @ [Slot_taken] @ es @ [Slot_freed])"
    unfolding guarded_def using False es(2-4)
    by (intro disjI2 conjI exI [of _ "[]"] exI [of _ es]) (simp_all add: not_le)
  ultimately show ?thesis by blast
qed

lemma guarded_quiet: "quiet es \<Longrightarrow> guarded config n es"
  by (simp add: guarded_def quiet_def)

lemma guarded_behind: "quiet ds \<Longrightarrow> guarded config n es \<Longrightarrow> guarded config n (ds @ es)"
  unfolding guarded_def quiet_def
proof (elim disjE conjE exE, goal_cases)
  case (2 before inside)
  then show ?case
    by (intro disjI2 conjI exI [of _ "ds @ before"] exI [of _ inside]) simp_all
qed simp

lemma guarded_noted: "leaves (note_event e s) es s' \<Longrightarrow> quiet [e] \<Longrightarrow> guarded config (ss_in_flight s) es \<Longrightarrow>
    leaves s (e # es) s' \<and> guarded config (ss_in_flight s) (e # es)"
  using guarded_behind [of "[e]" config "ss_in_flight s" es] by (simp add: leaves_def note_event_def)

lemma in_flight_kept [simp]: "ss_in_flight (note_event e s) = ss_in_flight s"
  "ss_events (note_event e s) = ss_events s @ [e]" "ss_disk (note_event e s) = ss_disk s"
  "ss_eviction_secs (note_event e s) = ss_eviction_secs s"
  by (simp_all add: note_event_def)

lemma slot_work_guarded:
  assumes "with_slot (sc_max_concurrent_transforms config) (transform_in_slot W config request policy cache key vary artifact options source) s = (res, s')"
    and "\<And>wm. (art_media_type artifact = Svg \<Longrightarrow> wm = None) \<Longrightarrow>
      admitted config \<lparr>req_input = artifact, req_options = options, req_watermark = wm\<rparr>"
  shows "\<exists>es. leaves s es s' \<and> guarded config (ss_in_flight s) es"
  by (rule with_slot_leaves [OF _ assms(1)]) (rule transform_in_slot_leaves [OF _ assms(2)])

lemma resolved_admitted:
  assumes "and_then (resolve_output_options config request artifact (with_deadline config options0))
      (\<lambda>resolved. map_ok (\<lambda>_. resolved) (check_server_pixel_limit config artifact)) = Ok (options, vary)"
    and "art_media_type artifact = Svg \<Longrightarrow> wm = None"
  shows "admitted config \<lparr>req_input = artifact, req_options = options, req_watermark = wm\<rparr>"
proof -
  have deadline: "opt_deadline (with_deadline config options0) \<noteq> None" by (simp add: with_deadline_def)
  have "resolve_output_options config request artifact (with_deadline config options0) = Ok (options, vary)"
    and limit: "check_server_pixel_limit config artifact = Ok ()"
    using assms(1) by auto
  then have "opt_format options \<noteq> None" "opt_deadline options \<noteq> None"
    using deadline by (auto simp: resolve_output_options_def Let_def split: option.splits if_splits)
  with limit assms(2) show ?thesis by (simp add: admitted_def)
qed

lemma transform_source_bytes_inner_guarded:
  assumes run: "transform_source_bytes_inner W config bs options0 request policy cache hash source wm_identity s = (res, s')"
  shows "\<exists>es. leaves s es s' \<and> guarded config (ss_in_flight s) es"
proof (cases "sniff_artifact (w_codecs W) \<lparr>raw_bytes = bs, raw_declared = None\<rparr>")
  case (Err e)
  with run have "s' = note_event (Transform_error_counted e) s" by (simp add: transform_source_bytes_inner_def)
  then show ?thesis using leaves_note [OF leaves_refl] guarded_quiet [of "[Transform_error_counted e]"] by fastforce
next
  case Panic
  with run have "s' = s" by (simp add: transform_source_bytes_inner_def)
  then show ?thesis using leaves_refl guarded_quiet [of "[]"] by fastforce
next
  case sniffed: (Ok artifact)
  let ?resolved = "and_then (resolve_output_options config request artifact (with_deadline config options0))
      (\<lambda>resolved. map_ok (\<lambda>_. resolved) (check_server_pixel_limit config artifact))"
  show ?thesis
  proof (cases ?resolved)
    case (Err e)
    with run sniffed have "s' = s" by (simp add: transform_source_bytes_inner_def)
    then show ?thesis using leaves_refl guarded_quiet [of "[]"] by fastforce
  next
    case Panic
    with run sniffed have "s' = s" by (simp add: transform_source_bytes_inner_def)
    then show ?thesis using leaves_refl guarded_quiet [of "[]"] by fastforce
  next
    case (Ok resolved)
    then obtain options vary where ok: "?resolved = Ok (options, vary)" by (cases resolved) simp
    note adm = resolved_admitted [OF this]
    define key where "key = compute_cache_key (w_sha256 W) (w_hex W) (w_show_f32 W) hash options wm_identity"
    show ?thesis
    proof (cases cache)
      case None
      with run sniffed ok have "with_slot (sc_max_concurrent_transforms config)
          (transform_in_slot W config request policy None key vary artifact options source) s = (res, s')"
        by (simp add: transform_source_bytes_inner_def Let_def key_def)
      from slot_work_guarded [OF this adm] show ?thesis .
    next
      case (Some c)
      obtain lookup d where get: "cache_get c (w_lookup W) (w_now W) key (ss_disk s) = (lookup, d)"
        by (cases "cache_get c (w_lookup W) (w_now W) key (ss_disk s)")
      let ?t = "s\<lparr>ss_disk := d\<rparr>"
      show ?thesis
      proof (cases "into_hit_response (w_sha256 W) (w_hex W) lookup request policy vary (sc_cache_control config)
          (sc_custom_headers config)")
        case (Some response)
        with run sniffed ok get \<open>cache = Some c\<close> have "s' = note_event Hit_counted ?t"
          by (simp add: transform_source_bytes_inner_def key_def [symmetric])
        then show ?thesis using leaves_note [OF leaves_refl, of ?t Hit_counted] guarded_quiet [of "[Hit_counted]"]
          by (intro exI [of _ "[Hit_counted]"]) (simp add: leaves_def)
      next
        case None
        with run sniffed ok get \<open>cache = Some c\<close>
        have "with_slot (sc_max_concurrent_transforms config)
            (transform_in_slot W config request policy (Some c) key vary artifact options source)
            (note_event Miss_counted ?t) = (res, s')"
          by (simp add: transform_source_bytes_inner_def key_def [symmetric])
        from slot_work_guarded [OF this adm] obtain es where
          "leaves (note_event Miss_counted ?t) es s'" "guarded config (ss_in_flight s) es"
          by auto
        with guarded_noted [of Miss_counted ?t es s'] show ?thesis by auto
      qed
    qed
  qed
qed

lemma serve_source_guarded:
  assumes run: "serve_source W config request policy source options watermark s = (res, s')"
  shows "\<exists>es. leaves s es s' \<and> guarded config (ss_in_flight s) es"
proof -
  define versioned where "versioned = versioned_source_hash (w_sha256 W) (w_hex W) source config"
  define identity where "identity = map_option (watermark_identity W) watermark"
  obtain early d where e: "try_versioned_cache_lookup (w_sha256 W) (w_hex W) (w_show_f32 W) versioned options request policy
            (fs_cache_root (sc_fetch config)) (sc_cache_control config) (sc_custom_headers config) identity
            (w_early_lookup W) (w_early_now W) (ss_disk s) = (early, d)" by fastforce
  note run = run [unfolded serve_source_def versioned_def [symmetric] identity_def [symmetric] Let_def e prod.case]
  let ?s = "s\<lparr>ss_disk := d\<rparr>"
  show ?thesis
  proof (cases early)
    case (Some response)
    with run have "s' = note_event Hit_counted ?s" by simp
    then show ?thesis using guarded_quiet [of "[Hit_counted]"]
      by (intro exI [of _ "[Hit_counted]"]) (simp add: leaves_def)
  next
    case None
    obtain r t where read: "read_source W config source ?s = (r, t)" by fastforce
    then obtain targets where t: "leaves s [Connected targets] t"
      by (auto simp: read_source_def leaves_def Let_def split: prod.splits)
    note quiet = guarded_quiet [of "[Connected targets]"]
    show ?thesis
    proof (cases r)
      case (Ok bs)
      with None run read have "transform_source_bytes W config bs options versioned request policy (watermark_of watermark)
          identity t = (res, s')" by simp
      from transform_source_bytes_inner_guarded [OF this [unfolded transform_source_bytes_def]] obtain es where
        es: "leaves t es s'" "guarded config (ss_in_flight s) es"
        using t by (auto simp: leaves_def)
      from leaves_trans [OF t es(1)] guarded_behind [OF _ es(2), of "[Connected targets]"]
      show ?thesis by (intro exI [of _ "[Connected targets] @ es"]) simp
    qed (use None run read t quiet in auto)
  qed
qed

section \<open>The image routes\<close>

datatype image_route = Transform_route | Upload_route | Public_route public_source_kind

fun handle_image ::
  "('u, 'i, 'd) serve_world \<Rightarrow> serve_config \<Rightarrow> image_route \<Rightarrow> http_request \<Rightarrow> serve_state \<Rightarrow>
    (refusal, http_response) outcome \<times> serve_state" where
  "handle_image W config Transform_route request s = handle_transform_request W config request s"
| "handle_image W config Upload_route request s = handle_upload_request W config request s"
| "handle_image W config (Public_route kind) request s = handle_public_get_request W config kind request s"

text \<open>What a route asks of a request before it does anything: the token, or the signature.\<close>

fun may_ask :: "('u, 'i, 'd) serve_world \<Rightarrow> serve_config \<Rightarrow> image_route \<Rightarrow> http_request \<Rightarrow> bool" where
  "may_ask W config (Public_route kind) request \<longleftrightarrow>
     (case parse_query_params (w_form W) request of
        Ok query \<Rightarrow> authorize_signed_request (w_crypto W) (w_urls W) (w_form W) (w_clock_secs W) request query
          (sc_auth config) = Ok ()
      | _ \<Rightarrow> False)"
| "may_ask W config route request \<longleftrightarrow> authorize_request (w_crypto W) request (sc_auth config) = Ok ()"

lemma answer_with_cases:
  assumes "answer_with f asked s = (res, s')"
  obtains (refused) "s' = s" "\<not> (\<exists>r. res = Ok r)" | (asked) x where "asked = Ok x" "f x s = (res, s')"
  using assms by (cases asked) (auto simp: answer_with_def)

lemma read_requests_authorised:
  "read_transform_request W config request = Ok x \<Longrightarrow> may_ask W config Transform_route request"
  "read_upload_request W config request = Ok y \<Longrightarrow> may_ask W config Upload_route request"
  "read_public_request W config request kind = Ok z \<Longrightarrow> may_ask W config (Public_route kind) request"
  by (auto simp: read_transform_request_def read_upload_request_def read_public_request_def)

lemma answer_with_guarded:
  assumes "answer_with f asked s = (res, s')"
    and "\<And>x. f x s = (res, s') \<Longrightarrow> \<exists>es. leaves s es s' \<and> guarded config (ss_in_flight s) es"
  shows "\<exists>es. leaves s es s' \<and> guarded config (ss_in_flight s) es"
  using assms(1)
proof (cases rule: answer_with_cases)
  case refused
  then show ?thesis using leaves_refl [of s] guarded_quiet [of "[]" config "ss_in_flight s"] by (intro exI [of _ "[]"]) simp
next
  case (asked x)
  then show ?thesis by (intro assms(2))
qed

lemma handle_image_guarded:
  assumes "handle_image W config route request s = (res, s')"
  shows "\<exists>es. leaves s es s' \<and> guarded config (ss_in_flight s) es"
proof (cases route)
  case Transform_route
  then show ?thesis using assms
    by (auto simp: handle_transform_request_def intro: answer_with_guarded serve_source_guarded split: prod.splits)
next
  case Upload_route
  with assms have "handle_upload_request W config request s = (res, s')" by simp
  then show ?thesis unfolding handle_upload_request_def
    by (rule answer_with_guarded)
      (auto simp: transform_source_bytes_def split: prod.splits intro: transform_source_bytes_inner_guarded)
next
  case (Public_route kind)
  then show ?thesis using assms
    by (auto simp: handle_public_get_request_def intro: answer_with_guarded serve_source_guarded split: prod.splits)
qed

text \<open>
  C33. A slot that a request takes is given back, whatever happens to the request, and a transform
  runs only inside one: at most one for a request, never above the limit, and only with a format
  and a time budget set, on a picture whose pixels the server allows, and with no watermark on a
  drawing.
\<close>

theorem handlers_guard_transforms:
  assumes "handle_image W config route request s = (res, s')"
  shows "ss_in_flight s' = ss_in_flight s \<and>
    (\<exists>es. ss_events s' = ss_events s @ es \<and> guarded config (ss_in_flight s) es)"
  using handle_image_guarded [OF assms] by (auto simp: leaves_def)

text \<open>
  C36. A request that changes anything, a file of the caches, a counter or the trace, or that is
  answered with a picture, carried the token or the signature its route asks for.
\<close>

theorem only_authorised_requests_act:
  assumes "handle_image W config route request s = (res, s')"
    and "s' \<noteq> s \<or> (\<exists>response. res = Ok response)"
  shows "may_ask W config route request"
proof (cases route)
  case Transform_route
  with assms obtain x where "read_transform_request W config request = Ok x"
    by (auto simp: handle_transform_request_def elim: answer_with_cases)
  then show ?thesis unfolding Transform_route by (rule read_requests_authorised)
next
  case Upload_route
  with assms obtain x where "read_upload_request W config request = Ok x"
    by (auto simp: handle_upload_request_def elim: answer_with_cases)
  then show ?thesis unfolding Upload_route by (rule read_requests_authorised)
next
  case (Public_route kind)
  with assms obtain x where "read_public_request W config request kind = Ok x"
    by (auto simp: handle_public_get_request_def elim: answer_with_cases)
  then show ?thesis unfolding Public_route by (rule read_requests_authorised)
qed

section \<open>A repeated request\<close>

definition printable :: "string \<Rightarrow> bool" where
  "printable t \<longleftrightarrow> list_all (\<lambda>c. 32 \<le> code c \<and> code c \<le> 126) t"

lemma warning_printable: "printable (warning_header_value t)"
proof -
  have "code CHR '' '' = (32 :: nat)" "code CHR ''?'' = (63 :: nat)" by code_simp+
  then show ?thesis by (auto simp: printable_def warning_header_value_def warning_char_def list_all_iff)
qed

lemma printable_stored:
  assumes "printable t"
  shows "flat_text t = t" "utf8_valid (ascii t)"
proof -
  have small: "(of_char c :: u8) < 0x80 \<and> flat_byte (of_char c) = of_char c" if "c \<in> set t" for c
  proof -
    have "32 \<le> code c" "code c \<le> 126" using assms that by (auto simp: printable_def list_all_iff)
    then have "32 \<le> unat (of_char c :: u8)" "unat (of_char c :: u8) \<le> 126" by simp_all
    then show ?thesis by (auto simp: flat_byte_def word_less_nat_alt simp del: unat_of_char)
  qed
  then have "flatten_warning (ascii t) = ascii t"
    by (simp add: flatten_map ascii_def)
  then show "flat_text t = t" by (simp add: flat_text_def)
  from small show "utf8_valid (ascii t)" by (intro utf8_valid_ascii) (auto simp: ascii_def list_all_iff)
qed

lemma with_slot_Ok:
  assumes "with_slot limit body s = (Ok r, s')"
  obtains t where "ss_in_flight s < limit"
    "body (note_event Slot_taken (s\<lparr>ss_in_flight := ss_in_flight s + 1\<rparr>)) = (Ok r, t)"
    "ss_disk s' = ss_disk t" "ss_eviction_secs s' = ss_eviction_secs t"
  using assms by (auto simp: with_slot_def try_acquire_def Let_def note_event_def not_le split: if_splits prod.splits)

lemma resolve_watermark_eviction:
  "resolve_watermark W config drawing source s = (r, s') \<Longrightarrow> ss_eviction_secs s' = ss_eviction_secs s"
  by (auto simp: resolve_watermark_def fetch_watermark_def Let_def split: if_splits outcome.splits prod.splits
      watermark_source.splits)

lemma transform_in_slot_Ok:
  assumes "transform_in_slot W config request policy cache key vary artifact options source s = (Ok r, s')"
  obtains wm result t where "art_media_type artifact \<noteq> Svg \<or> wm = None"
    "run_transform W \<lparr>req_input = artifact, req_options = options, req_watermark = wm\<rparr> = Ok result"
    "answer_transformed W config request policy cache key vary (wm \<noteq> None) result t = (Ok r, s')"
proof -
  obtain w u where w: "resolve_watermark W config (art_media_type artifact = Svg) source s = (w, u)" by fastforce
  with assms obtain wm where wm: "w = Ok wm"
    by (cases w) (simp_all add: transform_in_slot_def)
  have drawing: "art_media_type artifact \<noteq> Svg \<or> wm = None"
    using w wm by (auto simp: resolve_watermark_def split: if_splits)
  from assms w wm show ?thesis
    unfolding transform_in_slot_def Let_def
    by (cases "run_transform W \<lparr>req_input = artifact, req_options = options, req_watermark = wm\<rparr>")
      (auto simp del: not_None_eq intro: that [OF drawing])
qed

lemma logs_keep: "ss_disk (foldl (\<lambda>s text. note_event (f text) s) s texts) = ss_disk s"
  by (induction texts arbitrary: s) simp_all

text \<open>What a picture that was made just now is answered with, and what it leaves on the disk.\<close>

lemma answer_transformed_Ok:
  assumes "answer_transformed W config request policy (Some c) key vary had_watermark result t = (Ok r, s')"
  defines "warnings \<equiv> map (\<lambda>w. warning_header_value (show_warning (w_show_f32 W) w)) (res_warnings result)"
  shows "r = image_response W config request policy vary CacheMiss had_watermark (res_artifact result) warnings"
    "\<exists>c'. cache_put c (w_made_parent W) (w_suffix W) (w_answers W) (w_removes W) (w_walk W) (w_put_now W)
        key (art_media_type (res_artifact result)) (art_bytes (res_artifact result)) warnings (ss_disk t) = (c', ss_disk s')"
  using assms(1)
  by (auto simp: answer_transformed_def put_entry_def Let_def warnings_def o_def logs_keep
      split: prod.splits)


text \<open>The lemma of theory \<open>Cache\<close> on the cache of a server that sets no limit to its size.\<close>

lemma served_entry_reads:
  assumes put: "cache_put c True (unique_tmp_suffix pid seq) (replicate 4 Done) removes found now key mt body
      (map warning_header_value texts) d = (c', d')"
    and c: "serve_cache config s = Some c" "serve_cache config t = Some r" "sc_cache_max_bytes config = 0" "hex_key key"
    and fresh: "now \<le> later" "later - now \<le> int DEFAULT_CACHE_TTL_SECONDS * nanos" "io_open io" "io_read io"
  shows "cache_get r io later key d' = (Hit mt body (later - now) (map warning_header_value texts), d')"
proof -
  have r: "tc_root r = tc_root c" "tc_ttl r = int DEFAULT_CACHE_TTL_SECONDS * nanos" "tc_max_bytes c = 0"
    using c(1-3) by (auto simp: serve_cache_def cache_new_def)
  have utf8: "list_all (\<lambda>w. utf8_valid (ascii w)) (map warning_header_value texts)"
    using printable_stored(2) [OF warning_printable] by (simp add: list_all_iff)
  have flat: "map flat_text (map warning_header_value texts) = map warning_header_value texts"
    using printable_stored(1) [OF warning_printable] by simp
  from put_then_read [OF c(4) r(3) utf8 fresh(1) _ fresh(3,4) r(1) put] fresh(2) flat show ?thesis by (simp add: r(2))
qed

definition same_picture :: "http_response \<Rightarrow> http_response \<Rightarrow> bool" where
  "same_picture a b \<longleftrightarrow> rsp_status a = rsp_status b \<and> rsp_content_type a = rsp_content_type b \<and> rsp_body a = rsp_body b \<and>
     filter (\<lambda>h. fst h \<in> {''ETag'', WARNING_HEADER}) (rsp_headers a) =
     filter (\<lambda>h. fst h \<in> {''ETag'', WARNING_HEADER}) (rsp_headers b)"

lemma hit_is_the_picture:
  "\<exists>response'. into_hit_response (w_sha256 W) (w_hex W) (Hit (art_media_type output) (art_bytes output) age warnings) request
      policy vary (sc_cache_control config) (sc_custom_headers config) = Some response' \<and>
    same_picture response' (image_response W config request policy vary CacheMiss had_watermark output warnings)"
  by (auto simp: into_hit_response_def image_response_def Let_def same_picture_def response_empty_def response_binary_def
      push_warning_headers_def build_image_response_headers_def WARNING_HEADER_def)


lemma inner_Ok:
  assumes "transform_source_bytes_inner W config bs options0 request policy (Some c) hash source ident s = (Ok r, s')"
  obtains artifact options vary lookup d where
    "sniff_artifact (w_codecs W) \<lparr>raw_bytes = bs, raw_declared = None\<rparr> = Ok artifact"
    "and_then (resolve_output_options config request artifact (with_deadline config options0)) (\<lambda>resolved.
       map_ok (\<lambda>_. resolved) (check_server_pixel_limit config artifact)) = Ok (options, vary)"
    "cache_get c (w_lookup W) (w_now W) (compute_cache_key (w_sha256 W) (w_hex W) (w_show_f32 W) hash options ident)
       (ss_disk s) = (lookup, d)"
    "case into_hit_response (w_sha256 W) (w_hex W) lookup request policy vary (sc_cache_control config)
         (sc_custom_headers config) of
       Some response \<Rightarrow> s' = note_event Hit_counted (s\<lparr>ss_disk := d\<rparr>) \<and> r = response
     | None \<Rightarrow> with_slot (sc_max_concurrent_transforms config)
         (transform_in_slot W config request policy (Some c)
            (compute_cache_key (w_sha256 W) (w_hex W) (w_show_f32 W) hash options ident) vary artifact options source)
         (note_event Miss_counted (s\<lparr>ss_disk := d\<rparr>)) = (Ok r, s')"
  using assms unfolding transform_source_bytes_inner_def Let_def
  by (auto split: outcome.splits prod.splits option.splits)

text \<open>
  C34. A picture that was made for a request and written to the cache is what the same request is
  answered with until the entry is older than the time to live, however many transforms are in
  flight by then: the status, the bytes, the media type, the entity tag and the warnings are the
  same, and nothing is fetched, decoded or transformed.
\<close>

theorem repeat_is_answered_from_cache:
  assumes first: "transform_source_bytes W config bs options versioned request policy source ident s = (Ok response, s')"
    and made: "ss_events s' \<noteq> ss_events s @ [Hit_counted]"
    and server: "fs_cache_root (sc_fetch config) = Some dir" "sc_cache_max_bytes config = 0"
    and written: "w_made_parent W" "w_suffix W = unique_tmp_suffix pid seq" "w_answers W = replicate 4 Done"
    and keys: "\<And>m. hex_key (w_hex W (w_sha256 W m))"
    and now: "w_put_now W \<le> later" "later - w_put_now W \<le> int DEFAULT_CACHE_TTL_SECONDS * nanos" "io_open io" "io_read io"
    and kept: "ss_disk t = ss_disk s'"
  shows "\<exists>response'. same_picture response' response \<and>
    transform_source_bytes (W\<lparr>w_lookup := io, w_now := later\<rparr>) config bs options versioned request policy source' ident t =
      (Ok response', note_event Hit_counted t)"
proof -
  define hash where "hash = (case versioned of Some h \<Rightarrow> h | None \<Rightarrow> w_hex W (w_sha256 W bs))"
  obtain c r where c: "serve_cache config s = Some c" and r: "serve_cache config t = Some r"
    using server(1) by (simp add: serve_cache_def)
  have "transform_source_bytes_inner W config bs options request policy (Some c) hash source ident s = (Ok response, s')"
    using first c by (simp add: transform_source_bytes_def hash_def)
  then obtain artifact resolved vary lookup d where
    sniffed: "sniff_artifact (w_codecs W) \<lparr>raw_bytes = bs, raw_declared = None\<rparr> = Ok artifact"
    and opts: "and_then (resolve_output_options config request artifact (with_deadline config options)) (\<lambda>resolved.
       map_ok (\<lambda>_. resolved) (check_server_pixel_limit config artifact)) = Ok (resolved, vary)"
    and slot: "with_slot (sc_max_concurrent_transforms config)
         (transform_in_slot W config request policy (Some c)
            (compute_cache_key (w_sha256 W) (w_hex W) (w_show_f32 W) hash resolved ident) vary artifact resolved source)
         (note_event Miss_counted (s\<lparr>ss_disk := d\<rparr>)) = (Ok response, s')"
    by (rule inner_Ok) (use made in \<open>auto split: option.splits\<close>)
  define key where "key = compute_cache_key (w_sha256 W) (w_hex W) (w_show_f32 W) hash resolved ident"
  from slot [folded key_def] obtain u where in_slot:
    "transform_in_slot W config request policy (Some c) key vary artifact resolved source
       (note_event Slot_taken ((note_event Miss_counted (s\<lparr>ss_disk := d\<rparr>))
         \<lparr>ss_in_flight := ss_in_flight (note_event Miss_counted (s\<lparr>ss_disk := d\<rparr>)) + 1\<rparr>)) = (Ok response, u)"
    and disk: "ss_disk s' = ss_disk u"
    by (rule with_slot_Ok)
  from in_slot obtain wm result v where
    "run_transform W \<lparr>req_input = artifact, req_options = resolved, req_watermark = wm\<rparr> = Ok result"
    and out: "answer_transformed W config request policy (Some c) key vary (wm \<noteq> None) result v = (Ok response, u)"
    by (rule transform_in_slot_Ok)
  let ?texts = "map (show_warning (w_show_f32 W)) (res_warnings result)" and ?out = "res_artifact result"
  from answer_transformed_Ok [OF out] obtain c' where
    response: "response = image_response W config request policy vary CacheMiss (wm \<noteq> None) ?out (map warning_header_value ?texts)"
    and put: "cache_put c True (unique_tmp_suffix pid seq) (replicate 4 Done) (w_removes W) (w_walk W) (w_put_now W)
        key (art_media_type ?out) (art_bytes ?out) (map warning_header_value ?texts) (ss_disk v) = (c', ss_disk u)"
    using written by (auto simp: o_def)
  have "hex_key key" using keys by (simp add: key_def compute_cache_key_def)
  from served_entry_reads [OF put c r server(2) this now]
  have get: "cache_get r io later key (ss_disk t) =
      (Hit (art_media_type ?out) (art_bytes ?out) (later - w_put_now W) (map warning_header_value ?texts), ss_disk t)"
    using kept disk by simp
  obtain response' where hit: "into_hit_response (w_sha256 W) (w_hex W) (Hit (art_media_type ?out) (art_bytes ?out)
      (later - w_put_now W) (map warning_header_value ?texts)) request policy vary (sc_cache_control config)
      (sc_custom_headers config) = Some response'" "same_picture response' response"
    using hit_is_the_picture unfolding response by blast
  have "transform_source_bytes (W\<lparr>w_lookup := io, w_now := later\<rparr>) config bs options versioned request policy source' ident t =
      transform_source_bytes_inner (W\<lparr>w_lookup := io, w_now := later\<rparr>) config bs options request policy (Some r) hash source'
        ident t"
    by (cases versioned) (simp_all add: transform_source_bytes_def r hash_def)
  also have "\<dots> = (Ok response', note_event Hit_counted t)"
    using sniffed opts get hit(1) by (simp add: transform_source_bytes_inner_def key_def [symmetric] Let_def)
  finally show ?thesis using hit(2) by blast
qed


lemma fresh_slot:
  assumes run: "transform_source_bytes W config bs options versioned request policy source ident s = (Ok response, s')"
    and made: "ss_events s' \<noteq> ss_events s @ [Hit_counted]"
  obtains artifact resolved vary key u where
    "sniff_artifact (w_codecs W) \<lparr>raw_bytes = bs, raw_declared = None\<rparr> = Ok artifact"
    "and_then (resolve_output_options config request artifact (with_deadline config options)) (\<lambda>resolved.
       map_ok (\<lambda>_. resolved) (check_server_pixel_limit config artifact)) = Ok (resolved, vary)"
    "with_slot (sc_max_concurrent_transforms config) (transform_in_slot W config request policy (serve_cache config s) key vary
       artifact resolved source) u = (Ok response, s')"
proof (cases "serve_cache config s")
  case None
  with run show ?thesis unfolding transform_source_bytes_def transform_source_bytes_inner_def Let_def
    by (auto split: outcome.splits prod.splits intro: that)
next
  case (Some c)
  from run [unfolded transform_source_bytes_def Some] show ?thesis
    by (rule inner_Ok) (use made that [unfolded Some] in \<open>auto split: option.splits\<close>)
qed

lemma answered_with:
  "answer_transformed W config request policy cache key vary had_watermark result t = (Ok r, s') \<Longrightarrow>
    \<exists>status warnings. r = image_response W config request policy vary status had_watermark (res_artifact result) warnings"
  by (auto simp: answer_transformed_def Let_def)

text \<open>
  C35. A picture that does not come from the cache is the answer of the transform to an admitted
  request whose input is the source, recognised by its content: its bytes, under its own media
  type, marked when a watermark was drawn; only a public request that names the entity tag of
  these bytes is answered without them.
\<close>

theorem served_picture_is_transformed:
  assumes run: "transform_source_bytes W config bs options versioned request policy source ident s = (Ok response, s')"
    and made: "ss_events s' \<noteq> ss_events s @ [Hit_counted]"
  shows "\<exists>req result. sniff_artifact (w_codecs W) \<lparr>raw_bytes = bs, raw_declared = None\<rparr> = Ok (req_input req) \<and>
    admitted config req \<and> run_transform W req = Ok result \<and>
    (if policy = PublicGet \<and> if_none_match_matches (header_value (hr_headers request) ''if-none-match'')
          (build_image_etag (w_sha256 W) (w_hex W) (art_bytes (res_artifact result)))
     then rsp_status response = ''304 Not Modified'' \<and> rsp_body response = []
     else rsp_status response = ''200 OK'' \<and> rsp_body response = art_bytes (res_artifact result) \<and>
       rsp_content_type response = Some (as_mime (art_media_type (res_artifact result))) \<and>
       (req_watermark req = None \<or> (''X-Truss-Watermark'', ''true'') \<in> set (rsp_headers response)))"
proof -
  obtain artifact resolved vary key u where
    sniffed: "sniff_artifact (w_codecs W) \<lparr>raw_bytes = bs, raw_declared = None\<rparr> = Ok artifact"
    and opts: "and_then (resolve_output_options config request artifact (with_deadline config options)) (\<lambda>resolved.
       map_ok (\<lambda>_. resolved) (check_server_pixel_limit config artifact)) = Ok (resolved, vary)"
    and slot: "with_slot (sc_max_concurrent_transforms config) (transform_in_slot W config request policy
      (serve_cache config s) key vary artifact resolved source) u = (Ok response, s')"
    using run made by (rule fresh_slot)
  from slot obtain v t where "transform_in_slot W config request policy (serve_cache config s) key vary artifact resolved source
      v = (Ok response, t)" by (rule with_slot_Ok)
  then obtain wm result x where drawing: "art_media_type artifact \<noteq> Svg \<or> wm = None"
    and result: "run_transform W \<lparr>req_input = artifact, req_options = resolved, req_watermark = wm\<rparr> = Ok result"
    and out: "answer_transformed W config request policy (serve_cache config s) key vary (wm \<noteq> None) result x = (Ok response, t)"
    by (rule transform_in_slot_Ok)
  from answered_with [OF out] obtain status warnings where response:
    "response = image_response W config request policy vary status (wm \<noteq> None) (res_artifact result) warnings" by blast
  show ?thesis
    using sniffed resolved_admitted [OF opts] drawing result
    by (intro exI [of _ "\<lparr>req_input = artifact, req_options = resolved, req_watermark = wm\<rparr>"] exI [of _ result]; cases wm)
      (simp_all add: response image_response_def Let_def response_empty_def response_binary_def push_warning_headers_def)
qed

text \<open>A world in which the file that is asked for is a drawing, and the renderer answers one byte.\<close>

definition sample_drawing :: bytes where
  "sample_drawing = ascii ''<svg/>''"

definition sample_world :: "(string, rgba_image, unit) serve_world" where
  "sample_world = \<lparr>w_sha256 = (\<lambda>_. replicate 32 7), w_show_f32 = sample_show, w_codecs = exif_says_six,
     w_crypto = sample_crypto, w_urls = sample_urls, w_form = Signing.sample_form, w_clock_secs = Inr 8,
     w_source_web = sample_web, w_source_io = sample_io,
     w_files = \<lparr>sfs_canonicalize = Inr, sfs_metadata_len = (\<lambda>_. Inr 6), sfs_read = (\<lambda>_. Inr sample_drawing)\<rparr>,
     w_storage = (\<lambda>_ _. Ok sample_drawing), w_watermark_web = sample_web, w_watermark_io = sample_io,
     w_early_lookup = oi_lookup sample_io, w_early_now = 0, w_lookup = oi_lookup sample_io, w_now = 0,
     w_made_parent = True, w_suffix = unique_tmp_suffix 1 0, w_answers = replicate 4 Done, w_removes = (\<lambda>_. True),
     w_walk = (\<lambda>_. Special), w_put_now = 5,
     w_json = (\<lambda>_. Inr (SourcePathP ''/a.svg'' None, default_payload, None)), w_json_options = (\<lambda>_. Inr default_payload),
     w_ops = plain_ops, w_encoders = sample_encoders, w_meta = no_metadata, w_clock = (\<lambda>_ _. 0),
     w_svg = Some (\<lambda>_. Some (Ok \<lparr>res_artifact = \<lparr>art_bytes = [1], art_media_type = Svg, art_metadata = default_metadata\<rparr>,
       res_warnings = []\<rparr>))\<rparr>"

definition sample_post :: http_request where
  "sample_post = \<lparr>hr_method = ''POST'', hr_target = ''/images:transform'', hr_version = ''HTTP/1.1'',
     hr_headers = [(''authorization'', ''Bearer t''), (''content-type'', ''application/json'')], hr_body = []\<rparr>"

definition sample_start :: serve_state where
  "sample_start = \<lparr>ss_disk = (\<lambda>_. None), ss_eviction_secs = 0, ss_in_flight = 0, ss_events = []\<rparr>"

lemma sample_sniffed:
  obtains a where "sniff_artifact exif_says_six \<lparr>raw_bytes = sample_drawing, raw_declared = None\<rparr> = Ok a"
    "art_media_type a = Svg" "meta_width (art_metadata a) = None"
proof -
  have "case sniff_artifact exif_says_six \<lparr>raw_bytes = sample_drawing, raw_declared = None\<rparr> of
      Ok a \<Rightarrow> art_media_type a = Svg \<and> meta_width (art_metadata a) = None | _ \<Rightarrow> False" by code_simp
  then show ?thesis using that by (auto split: outcome.splits)
qed

text \<open>What the request leaves behind: a miss, a slot that is given back, and one transform inside it.\<close>

lemma sample_served:
  assumes "ss_disk s = Map.empty" "ss_in_flight s = 0"
  shows "\<exists>response s' req. transform_source_bytes sample_world sample_config sample_drawing default_options versioned sample_post
     PrivateTransform No_watermark None s = (Ok response, s') \<and>
     ss_events s' = ss_events s @ [Miss_counted, Slot_taken, Transformed req, Duration_counted Svg,
       Put (hex_text (replicate 32 7)), Slot_freed]"
proof -
  obtain a where a: "sniff_artifact exif_says_six \<lparr>raw_bytes = sample_drawing, raw_declared = None\<rparr> = Ok a"
    "art_media_type a = Svg" "meta_width (art_metadata a) = None" by (rule sample_sniffed)
  have config: "sc_disable_accept_negotiation sample_config" "sc_max_concurrent_transforms sample_config = 1"
    "fs_cache_root (sc_fetch sample_config) = Some [''c'']"
    by (simp_all add: sample_config_def)
  have world: "w_codecs sample_world = exif_says_six" "w_sha256 sample_world bs = replicate 32 7"
    "w_hex sample_world = hex_text" "w_svg sample_world = Some (\<lambda>_. Some (Ok \<lparr>res_artifact = \<lparr>art_bytes = [1], art_media_type = Svg,
       art_metadata = default_metadata\<rparr>, res_warnings = []\<rparr>))" for bs
    by (simp_all add: sample_world_def sample_crypto_def)
  show ?thesis
    by (simp add: transform_source_bytes_def transform_source_bytes_inner_def world a config serve_cache_def
        resolve_output_options_def with_deadline_def default_options_def check_server_pixel_limit_def Let_def cache_get_def assms
        into_hit_response_def with_slot_def try_acquire_def transform_in_slot_def resolve_watermark_def run_transform_def
        transform_def answer_transformed_def put_entry_def compute_cache_key_def split: prod.splits)
qed


lemma sample_read:
  "read_transform_request sample_world sample_config sample_post = Ok (SourcePathP ''/a.svg'' None, default_options, None)"
proof -
  have "authorize_request sample_crypto sample_post (sc_auth sample_config) = Ok ()" by code_simp
  moreover have "reject_query_string Signing.sample_form sample_post = Ok ()" by code_simp
  moreover have "request_has_json_content_type sample_post" by code_simp
  moreover have "and_then (resolve_preset (\<lambda>_. None) default_payload) into_options = Ok default_options" by code_simp
  moreover have "validate_watermark_payload None = Ok None" by code_simp
  moreover have "sc_presets sample_config = (\<lambda>_. None)" by (simp add: sample_config_def)
  ultimately show ?thesis by (simp add: read_transform_request_def sample_world_def del: and_then_eq_Ok)
qed

lemma sample_source:
  "read_source sample_world sample_config (SourcePathP ''/a.svg'' None) s = (Ok sample_drawing, note_event (Connected []) s)"
proof -
  have "case resolve_storage_path Inr [''r''] ''/a.svg'' of Ok _ \<Rightarrow> True | _ \<Rightarrow> False" by code_simp
  then obtain p where "resolve_storage_path Inr [''r''] ''/a.svg'' = Ok p" by (auto split: outcome.splits)
  then show ?thesis
    by (simp add: read_source_def resolve_source_bytes_def sample_world_def sample_config_def of_io_def)
qed

lemma sample_handled:
  "\<exists>response s' req. handle_image sample_world sample_config Transform_route sample_post sample_start = (Ok response, s') \<and>
     ss_events s' = [Connected [], Miss_counted, Slot_taken, Transformed req, Duration_counted Svg,
       Put (hex_text (replicate 32 7)), Slot_freed]"
proof -
  have "versioned_source_hash f g (SourcePathP ''/a.svg'' None) sample_config = None" for f g
    by (simp add: versioned_source_hash_def source_fields_def source_reference_def)
  then show ?thesis
    using sample_served [of "note_event (Connected []) sample_start" None]
    by (simp add: handle_transform_request_def answer_with_def sample_read serve_source_def try_versioned_cache_lookup_def
        sample_source watermark_of_def sample_start_def note_event_def)
qed


theorem handlers_guard_transforms_witness:
  "\<exists>res s' es. handle_image sample_world sample_config Transform_route sample_post sample_start = (res, s') \<and>
     ss_events s' = es \<and> ss_in_flight s' = 0 \<and> guarded sample_config 0 es \<and> list_ex is_transformed es"
proof -
  obtain response s' req where run:
    "handle_image sample_world sample_config Transform_route sample_post sample_start = (Ok response, s')"
    "ss_events s' = [Connected [], Miss_counted, Slot_taken, Transformed req, Duration_counted Svg,
       Put (hex_text (replicate 32 7)), Slot_freed]"
    using sample_handled by blast
  with handlers_guard_transforms [OF run(1)] show ?thesis by (simp add: sample_start_def)
qed

theorem only_authorised_requests_act_witness:
  "may_ask sample_world sample_config Transform_route sample_post"
proof -
  obtain response s' where "handle_image sample_world sample_config Transform_route sample_post sample_start = (Ok response, s')"
    using sample_handled by blast
  then show ?thesis by (rule only_authorised_requests_act) simp
qed

text \<open>The request again nine nanoseconds after the epoch, with the one slot taken.\<close>

theorem repeat_is_answered_from_cache_witness:
  "\<exists>response s' response'.
     transform_source_bytes sample_world sample_config sample_drawing default_options None sample_post PrivateTransform
       No_watermark None sample_start = (Ok response, s') \<and> same_picture response' response \<and>
     transform_source_bytes (sample_world\<lparr>w_lookup := oi_lookup sample_io, w_now := 9\<rparr>) sample_config sample_drawing
       default_options None sample_post PrivateTransform No_watermark None (s'\<lparr>ss_in_flight := 1\<rparr>) =
       (Ok response', note_event Hit_counted (s'\<lparr>ss_in_flight := 1\<rparr>))"
proof -
  obtain response s' req where run: "transform_source_bytes sample_world sample_config sample_drawing default_options None
      sample_post PrivateTransform No_watermark None sample_start = (Ok response, s')"
    and es: "ss_events s' = ss_events sample_start @ [Miss_counted, Slot_taken, Transformed req, Duration_counted Svg,
       Put (hex_text (replicate 32 7)), Slot_freed]"
    using sample_served [of sample_start None] by (auto simp: sample_start_def)
  have key: "hex_key (hex_text (replicate 32 7))" by code_simp
  have "\<exists>response'. same_picture response' response \<and>
      transform_source_bytes (sample_world\<lparr>w_lookup := oi_lookup sample_io, w_now := 9\<rparr>) sample_config sample_drawing
       default_options None sample_post PrivateTransform No_watermark None (s'\<lparr>ss_in_flight := 1\<rparr>) =
       (Ok response', note_event Hit_counted (s'\<lparr>ss_in_flight := 1\<rparr>))"
    by (rule repeat_is_answered_from_cache [OF run, where dir = "[''c'']" and pid = 1 and seq = 0])
      (simp_all add: es key sample_config_def sample_world_def sample_crypto_def sample_io_def DEFAULT_CACHE_TTL_SECONDS_def)
  with run show ?thesis by blast
qed

theorem served_picture_is_transformed_witness:
  "\<exists>response s' req result. transform_source_bytes sample_world sample_config sample_drawing default_options None sample_post
       PrivateTransform No_watermark None sample_start = (Ok response, s') \<and> admitted sample_config req \<and>
     run_transform sample_world req = Ok result \<and> rsp_body response = art_bytes (res_artifact result)"
proof -
  obtain response s' req where run: "transform_source_bytes sample_world sample_config sample_drawing default_options None
      sample_post PrivateTransform No_watermark None sample_start = (Ok response, s')"
    and es: "ss_events s' = ss_events sample_start @ [Miss_counted, Slot_taken, Transformed req, Duration_counted Svg,
       Put (hex_text (replicate 32 7)), Slot_freed]"
    using sample_served [of sample_start None] by (auto simp: sample_start_def)
  from served_picture_is_transformed [OF run] es run show ?thesis by auto
qed

end
