(* ===== verification/Health.thy ===== *)
theory Health
  imports Json_Body Handlers
begin

text \<open>
  The health endpoints of \<open>src/adapters/server/handler.rs\<close>: the measurements that are kept for a
  while (\<open>HealthCache\<close>), the threshold checks with hysteresis, the report of the checks and the three
  handlers. What a measurement answers, the clock and what \<open>serde_json\<close> writes are arguments; the
  text of the metrics is one too.

  What is shown: with a margin the configuration accepts, the recovery point of a check lies on
  the good side of its threshold, in the arithmetic of \<open>f64\<close>, and readings between the two never
  make the check change its mind twice; readiness is the conjunction of the checks and does not
  depend on how many transforms are in flight.
\<close>

section \<open>Measurements that are kept for a while\<close>

definition CACHED_NONE :: u64 where "CACHED_NONE = - 1"

definition DEFAULT_HEALTH_CACHE_TTL_SECS :: u64 where "DEFAULT_HEALTH_CACHE_TTL_SECS = 5"

datatype threshold_direction = HigherIsWorse | LowerIsWorse

record health_cache =
  hc_disk_free :: u64
  hc_disk_free_at :: u64
  hc_rss :: u64
  hc_rss_at :: u64
  hc_ttl_nanos :: u64
  hc_margin :: float_val
  hc_disk_state :: u8
  hc_rss_state :: u8

definition saturating_mul_u64 :: "u64 \<Rightarrow> u64 \<Rightarrow> u64" where
  "saturating_mul_u64 a b = (if unat a * unat b < 2 ^ 64 then a * b else - 1)"

definition health_cache_new :: "u64 \<Rightarrow> float_val \<Rightarrow> health_cache" where
  "health_cache_new ttl_secs margin =
     \<lparr>hc_disk_free = CACHED_NONE, hc_disk_free_at = 0, hc_rss = CACHED_NONE, hc_rss_at = 0,
      hc_ttl_nanos = saturating_mul_u64 ttl_secs 1000000000, hc_margin = margin, hc_disk_state = 0, hc_rss_state = 0\<rparr>"

definition of_cached :: "u64 \<Rightarrow> u64 option" where
  "of_cached v = (if v = CACHED_NONE then None else Some v)"

definition to_cached :: "u64 option \<Rightarrow> u64" where
  "to_cached m = (case m of Some v \<Rightarrow> v | None \<Rightarrow> CACHED_NONE)"

definition disk_free :: "u64 \<Rightarrow> u64 option \<Rightarrow> health_cache \<Rightarrow> u64 option \<times> health_cache" where
  "disk_free now measured h =
     (if now - hc_disk_free_at h < hc_ttl_nanos h \<and> hc_disk_free_at h \<noteq> 0 then (of_cached (hc_disk_free h), h)
      else (measured, h\<lparr>hc_disk_free := to_cached measured, hc_disk_free_at := now\<rparr>))"

definition rss :: "u64 \<Rightarrow> u64 option \<Rightarrow> health_cache \<Rightarrow> u64 option \<times> health_cache" where
  "rss now measured h =
     (if now - hc_rss_at h < hc_ttl_nanos h \<and> hc_rss_at h \<noteq> 0 then (of_cached (hc_rss h), h)
      else (measured, h\<lparr>hc_rss := to_cached measured, hc_rss_at := now\<rparr>))"

section \<open>Thresholds with hysteresis\<close>

definition float_of_u64 :: "u64 \<Rightarrow> float_val" where
  "float_of_u64 w = f64_of (of_nat (unat w))"

text \<open>\<open>as u64\<close>: truncates towards zero, saturates at the ends, and takes NaN to 0.\<close>

fun float_to_u64 :: "float_val \<Rightarrow> u64" where
  "float_to_u64 (Fin a) = (if a < 0 then 0 else if 2 ^ 64 - 1 \<le> a then - 1 else word_of_int \<lfloor>a\<rfloor>)"
| "float_to_u64 (Inf s) = (if s then 0 else - 1)"
| "float_to_u64 NaN = 0"

fun recovery_point :: "float_val \<Rightarrow> threshold_direction \<Rightarrow> u64 \<Rightarrow> u64" where
  "recovery_point margin HigherIsWorse threshold = float_to_u64 (f64_mul (float_of_u64 threshold) (f64_sub (Fin 1) margin))"
| "recovery_point margin LowerIsWorse threshold = float_to_u64 (f64_mul (float_of_u64 threshold) (f64_add (Fin 1) margin))"

text \<open>The answer is whether the check is ok and whether it is recovering; the state is 1 after a failure.\<close>

definition check_with_hysteresis ::
  "float_val \<Rightarrow> u8 \<Rightarrow> u64 \<Rightarrow> u64 \<Rightarrow> threshold_direction \<Rightarrow> (bool \<times> bool) \<times> u8" where
  "check_with_hysteresis margin state current threshold direction =
     (let prev_fail = (state = 1);
          recovery = recovery_point margin direction threshold;
          (ok, recovering) = (case direction of
              HigherIsWorse \<Rightarrow>
                if prev_fail then (current < recovery, \<not> current < recovery \<and> current < threshold)
                else (current < threshold, False)
            | LowerIsWorse \<Rightarrow>
                if prev_fail then (recovery < current, \<not> recovery < current \<and> threshold \<le> current)
                else (threshold \<le> current, False))
      in ((ok, recovering), if ok then 0 else 1))"

section \<open>The report\<close>

record health_config =
  hg_storage_backend :: storage_backend
  hg_cache_root :: bool \<comment> \<open>whether a cache directory is configured\<close>
  hg_min_free_bytes :: "u64 option"
  hg_max_memory_bytes :: "u64 option"
  hg_max_concurrent_transforms :: u64
  hg_max_input_pixels :: nat

text \<open>What the system answers while a report is made.\<close>

record health_world =
  hw_storage_is_dir :: bool
  hw_reachable :: bool \<comment> \<open>\<open>check_reachable\<close> of the backend's context, false when there is none\<close>
  hw_cache_is_dir :: bool
  hw_disk_now :: u64
  hw_disk_measured :: "u64 option"
  hw_rss_now :: u64
  hw_rss_measured :: "u64 option"
  hw_in_flight :: u64
  hw_draining :: bool
  hw_uptime_seconds :: nat

definition storage_health_check :: "health_config \<Rightarrow> health_world \<Rightarrow> (bool \<times> string) list" where
  "storage_health_check config W =
     (hw_storage_is_dir W, ''storageRoot'') #
     (if hg_storage_backend config \<in> {S3, Gcs, Azure} then [(hw_reachable W, ''storageBackend'')] else [])"

definition ok_or_fail :: "bool \<Rightarrow> json" where
  "ok_or_fail ok = JStr (if ok then ''ok'' else ''fail'')"

definition plain_check :: "string \<Rightarrow> bool \<Rightarrow> json" where
  "plain_check name ok = json_object [(''name'', JStr name), (''status'', ok_or_fail ok)]"

text \<open>A check of a measurement: the reading, the threshold and the recovery are members when they are known.\<close>

definition measured_check :: "string \<Rightarrow> bool \<Rightarrow> string \<Rightarrow> u64 option \<Rightarrow> u64 option \<Rightarrow> bool \<Rightarrow> json" where
  "measured_check name ok reading value threshold recovering =
     json_object ([(''name'', JStr name), (''status'', ok_or_fail ok)] @
       (case value of Some v \<Rightarrow> [(reading, JNum (unat v))] | None \<Rightarrow> []) @
       (case threshold of Some t \<Rightarrow> [(''thresholdBytes'', JNum (unat t))] | None \<Rightarrow> []) @
       (if recovering then [(''recovering'', JBool True)] else []))"

definition disk_check :: "health_config \<Rightarrow> health_world \<Rightarrow> health_cache \<Rightarrow> (json \<times> bool) \<times> health_cache" where
  "disk_check config W h =
     (let (free, h1) = disk_free (hw_disk_now W) (hw_disk_measured W) h;
          ((ok, recovering), h2) = (case (free, hg_min_free_bytes config) of
              (Some f, Some least) \<Rightarrow>
                (let (r, st) = check_with_hysteresis (hc_margin h1) (hc_disk_state h1) f least LowerIsWorse
                 in (r, h1\<lparr>hc_disk_state := st\<rparr>))
            | _ \<Rightarrow> ((True, False), h1))
      in ((measured_check ''cacheDiskFree'' ok ''freeBytes'' free (hg_min_free_bytes config) recovering, ok), h2))"

definition memory_check :: "health_config \<Rightarrow> health_world \<Rightarrow> health_cache \<Rightarrow> (json \<times> bool) list \<times> health_cache" where
  "memory_check config W h =
     (let (measured, h1) = rss (hw_rss_now W) (hw_rss_measured W) h in
      case measured of
        None \<Rightarrow> ([], h1)
      | Some bs \<Rightarrow>
          (let ((ok, recovering), h2) = (case hg_max_memory_bytes config of
               Some most \<Rightarrow>
                 (let (r, st) = check_with_hysteresis (hc_margin h1) (hc_rss_state h1) bs most HigherIsWorse
                  in (r, h1\<lparr>hc_rss_state := st\<rparr>))
             | None \<Rightarrow> ((True, False), h1))
           in ([(measured_check ''memoryUsage'' ok ''rssBytes'' (Some bs) (hg_max_memory_bytes config) recovering, ok)], h2)))"

definition capacity_check :: "health_config \<Rightarrow> health_world \<Rightarrow> json" where
  "capacity_check config W = json_object [(''name'', JStr ''transformCapacity''), (''status'', JStr ''ok''),
     (''current'', JNum (unat (hw_in_flight W))), (''max'', JNum (unat (hg_max_concurrent_transforms config)))]"

definition collect_resource_checks ::
  "health_config \<Rightarrow> health_world \<Rightarrow> health_cache \<Rightarrow> (json list \<times> bool) \<times> health_cache" where
  "collect_resource_checks config W h =
     (let storage = map (\<lambda>(ok, name). (plain_check name ok, ok)) (storage_health_check config W);
          cache = (if hg_cache_root config then [(plain_check ''cacheRoot'' (hw_cache_is_dir W), hw_cache_is_dir W)] else []);
          (disk, h1) = (if hg_cache_root config then (let (c, h1) = disk_check config W h in ([c], h1)) else ([], h));
          (memory, h2) = memory_check config W h1;
          checks = storage @ cache @ disk @ [(capacity_check config W, True)] @ memory
      in ((map fst checks, list_all snd checks), h2))"

section \<open>The handlers\<close>

definition CARGO_PKG_VERSION :: string where "CARGO_PKG_VERSION = ''0.27.0''"

definition handle_health_live :: "json_codec \<Rightarrow> http_response" where
  "handle_health_live J = response_json ''200 OK'' (json_line J (json_object
     [(''status'', JStr ''ok''), (''service'', JStr ''truss''), (''version'', JStr CARGO_PKG_VERSION)]))"

definition handle_health_ready ::
  "json_codec \<Rightarrow> health_config \<Rightarrow> health_world \<Rightarrow> health_cache \<Rightarrow> http_response \<times> health_cache" where
  "handle_health_ready J config W h =
     (if hw_draining W
      then ((response_json ''503 Service Unavailable'' (json_line J (json_object
        [(''status'', JStr ''fail''), (''checks'', JArr [plain_check ''draining'' False])])))
          \<lparr>rsp_headers := [(''Retry-After'', ''5'')]\<rparr>, h)
      else
        let ((checks, all_ok), h') = collect_resource_checks config W h;
            body = json_line J (json_object [(''status'', ok_or_fail all_ok), (''checks'', JArr checks)])
        in (response_json (if all_ok then ''200 OK'' else ''503 Service Unavailable'') body, h'))"

definition handle_health ::
  "json_codec \<Rightarrow> health_config \<Rightarrow> health_world \<Rightarrow> health_cache \<Rightarrow> http_response \<times> health_cache" where
  "handle_health J config W h =
     (let ((checks, all_ok), h') = collect_resource_checks config W h in
      (response_json ''200 OK'' (json_line J (json_object
        [(''status'', ok_or_fail all_ok), (''service'', JStr ''truss''), (''version'', JStr CARGO_PKG_VERSION),
         (''uptimeSeconds'', JNum (hw_uptime_seconds W)), (''checks'', JArr checks),
         (''maxInputPixels'', JNum (hg_max_input_pixels config))])), h'))"

section \<open>Where a check recovers\<close>

lemma fl64_between:
  assumes "1 / 2 ^ 60 \<le> x"
  shows "fl64 x \<le> x * (1 + 1 / 2 ^ 53)" "x * (1 - 1 / 2 ^ 53) \<le> fl64 x"
proof -
  have "(2::rat) powi (- 64) \<le> 1 / 2 ^ 60" by (simp add: power_int_minus)
  from order_trans [OF this assms] have "(2::rat) powi (- 64) \<le> x" .
  from fl64_close [OF this] have close: "\<bar>fl64 x - x\<bar> \<le> x * (1 / 2 ^ 53)"
    by (simp only: power_int_minus power_int_numeral inverse_eq_divide)
  have around: "\<bar>y - x\<bar> \<le> x * e \<Longrightarrow> y \<le> x * (1 + e) \<and> x * (1 - e) \<le> y" for y e :: rat
    by (auto simp: abs_le_iff algebra_simps)
  show "fl64 x \<le> x * (1 + 1 / 2 ^ 53)" "x * (1 - 1 / 2 ^ 53) \<le> fl64 x"
    using around [OF close] by blast+
qed

lemma unat_below: "unat (w :: u64) < 2 ^ 64"
  using unsigned_less [of w, where ?'a = nat] by simp

lemma float_to_u64_floor: "0 \<le> x \<Longrightarrow> x < 2 ^ 64 - 1 \<Longrightarrow> int (unat (float_to_u64 (Fin x))) = \<lfloor>x\<rfloor>"
proof -
  assume x: "0 \<le> x" "x < 2 ^ 64 - 1"
  then have "0 \<le> \<lfloor>x\<rfloor>" "\<lfloor>x\<rfloor> < 2 ^ 64" by (auto simp: floor_less_iff)
  then have "uint (word_of_int \<lfloor>x\<rfloor> :: u64) = \<lfloor>x\<rfloor>" by (simp add: uint_word_of_int)
  with x show ?thesis by (simp add: not_le)
qed

lemma unat_top: "unat (- 1 :: u64) = 2 ^ 64 - 1"
  by (simp add: unsigned_minus_1_eq_mask mask_eq_exp_minus_1)

lemma float_to_u64_le:
  assumes "0 \<le> x" "x \<le> of_nat n"
  shows "unat (float_to_u64 (Fin x)) \<le> n"
proof (cases "2 ^ 64 - 1 \<le> x")
  case True
  with assms have "(of_nat (2 ^ 64 - 1) :: rat) \<le> of_nat n" by simp
  then have "2 ^ 64 - 1 \<le> n" by (simp only: of_nat_le_iff)
  with True assms(1) unat_top show ?thesis by simp
next
  case False
  then have "int (unat (float_to_u64 (Fin x))) = \<lfloor>x\<rfloor>" by (intro float_to_u64_floor) (use assms in auto)
  moreover have "\<lfloor>x\<rfloor> \<le> int n" using assms(2) by (metis floor_mono floor_of_nat)
  ultimately show ?thesis by linarith
qed

lemma float_to_u64_ge:
  assumes "of_nat n \<le> x" "n < 2 ^ 64"
  shows "n \<le> unat (float_to_u64 (Fin x))"
proof (cases "2 ^ 64 - 1 \<le> x")
  case True
  then have "\<not> x < 0" by simp
  with True assms(2) unat_top show ?thesis by simp
next
  case False
  have "0 \<le> x" using assms(1) of_nat_0_le_iff order_trans by blast
  with False have "int (unat (float_to_u64 (Fin x))) = \<lfloor>x\<rfloor>" by (intro float_to_u64_floor) auto
  moreover have "int n \<le> \<lfloor>x\<rfloor>" using assms(1) by (simp add: le_floor_iff)
  ultimately show ?thesis by linarith
qed

text \<open>The margins that the configuration accepts, as what their difference and sum with 1 are.\<close>

definition margin_ok :: "float_val \<Rightarrow> bool" where
  "margin_ok margin \<longleftrightarrow>
     (case (f64_sub (Fin 1) margin, f64_add (Fin 1) margin) of
        (Fin a, Fin b) \<Rightarrow> 1 / 4 \<le> a \<and> a \<le> 995 / 1000 \<and> 1005 / 1000 \<le> b \<and> b \<le> 2 | _ \<Rightarrow> False)"

lemma scaled_threshold:
  fixes c :: rat
  assumes "1 \<le> t" "t \<le> 2 ^ 64" "1 / 4 \<le> c" "c \<le> 2"
  shows "f64_mul (Fin (fl64 t)) (Fin c) = Fin (fl64 (fl64 t * c))"
    "fl64 (fl64 t * c) \<le> t * c * ((1 + 1 / 2 ^ 53) * (1 + 1 / 2 ^ 53))"
    "t * c * ((1 - 1 / 2 ^ 53) * (1 - 1 / 2 ^ 53)) \<le> fl64 (fl64 t * c)"
proof -
  have t: "fl64 t \<le> t * (1 + 1 / 2 ^ 53)" "t * (1 - 1 / 2 ^ 53) \<le> fl64 t"
    by (intro fl64_between; use assms in simp)+
  have "1 * (1 - 1 / 2 ^ 53) \<le> t * (1 - 1 / 2 ^ 53)" using assms(1) by (intro mult_right_mono) simp_all
  with t have low: "1 / 2 \<le> fl64 t" by simp
  have "t * (1 + 1 / 2 ^ 53) \<le> 2 ^ 64 * 2" using assms(2) by (intro mult_mono) simp_all
  with t have high: "fl64 t \<le> 2 ^ 65" by simp
  have "1 / 2 * (1 / 4) \<le> fl64 t * c" using low assms(3) by (intro mult_mono) simp_all
  then have P: "1 / 2 ^ 60 \<le> fl64 t * c" "0 \<le> fl64 t * c" by (simp_all add: order_trans [rotated])
  have "fl64 t * c \<le> 2 ^ 65 * 2" using high low assms(3,4) by (intro mult_mono) simp_all
  with P(2) show "f64_mul (Fin (fl64 t)) (Fin c) = Fin (fl64 (fl64 t * c))" by (simp add: f64_of_Fin)
  have "fl64 t * c \<le> t * (1 + 1 / 2 ^ 53) * c" using t(1) assms(3) by (intro mult_right_mono) simp_all
  then have "fl64 t * c * (1 + 1 / 2 ^ 53) \<le> t * (1 + 1 / 2 ^ 53) * c * (1 + 1 / 2 ^ 53)" by (rule mult_right_mono) simp
  then have "fl64 (fl64 t * c) \<le> t * (1 + 1 / 2 ^ 53) * c * (1 + 1 / 2 ^ 53)" by (rule order_trans [OF fl64_between(1) [OF P(1)]])
  also have "\<dots> = t * c * ((1 + 1 / 2 ^ 53) * (1 + 1 / 2 ^ 53))" by (simp only: mult_ac)
  finally show "fl64 (fl64 t * c) \<le> t * c * ((1 + 1 / 2 ^ 53) * (1 + 1 / 2 ^ 53))" .
  have "t * (1 - 1 / 2 ^ 53) * c \<le> fl64 t * c" using t(2) assms(3) by (intro mult_right_mono) simp_all
  then have "t * (1 - 1 / 2 ^ 53) * c * (1 - 1 / 2 ^ 53) \<le> fl64 t * c * (1 - 1 / 2 ^ 53)" by (rule mult_right_mono) simp
  then have "t * (1 - 1 / 2 ^ 53) * c * (1 - 1 / 2 ^ 53) \<le> fl64 (fl64 t * c)" by (rule order_trans [OF _ fl64_between(2) [OF P(1)]])
  moreover have "t * (1 - 1 / 2 ^ 53) * c * (1 - 1 / 2 ^ 53) = t * c * ((1 - 1 / 2 ^ 53) * (1 - 1 / 2 ^ 53))" by (simp only: mult_ac)
  ultimately show "t * c * ((1 - 1 / 2 ^ 53) * (1 - 1 / 2 ^ 53)) \<le> fl64 (fl64 t * c)" by simp
qed

lemma recovery_side:
  assumes "margin_ok margin"
  shows "recovery_point margin HigherIsWorse threshold \<le> threshold"
    "threshold \<le> recovery_point margin LowerIsWorse threshold"
proof -
  obtain a b where ab: "f64_sub (Fin 1) margin = Fin a" "f64_add (Fin 1) margin = Fin b"
    "1 / 4 \<le> a" "a \<le> 995 / 1000" "1005 / 1000 \<le> b" "b \<le> 2"
    using assms by (auto simp: margin_ok_def split: float_val.splits)
  define t :: rat where "t = of_nat (unat threshold)"
  have "(of_nat (unat threshold) :: rat) \<le> of_nat (2 ^ 64)"
    by (rule of_nat_mono) (rule less_imp_le [OF unat_below])
  then have "t \<le> 2 ^ 64" unfolding t_def by (simp only: of_nat_power of_nat_numeral)
  then have t: "0 \<le> t" "t \<le> 2 ^ 64" unfolding t_def by (simp_all only: of_nat_0_le_iff)
  have conv: "float_of_u64 threshold = Fin (fl64 t)"
    unfolding float_of_u64_def t_def [symmetric] using t by (intro f64_of_Fin) simp_all
  have "unat (recovery_point margin HigherIsWorse threshold) \<le> unat threshold \<and>
      unat threshold \<le> unat (recovery_point margin LowerIsWorse threshold)"
  proof (cases "threshold = 0")
    case True
    have "float_of_u64 0 = Fin 0" by (simp add: float_of_u64_def f64_of_Fin)
    then show ?thesis using True ab(1,2) by (simp add: f64_of_Fin)
  next
    case False
    then have "1 \<le> unat threshold" by (simp add: Suc_le_eq unat_gt_0)
    then have "(of_nat 1 :: rat) \<le> of_nat (unat threshold)" by (intro of_nat_mono) simp
    then have t1: "1 \<le> t" unfolding t_def by (simp only: of_nat_1)
    note A = scaled_threshold [OF t1 t(2), of a] and B = scaled_threshold [OF t1 t(2), of b]
    have "t * a * ((1 + 1 / 2 ^ 53) * (1 + 1 / 2 ^ 53)) \<le> t * (995 / 1000) * ((1 + 1 / 2 ^ 53) * (1 + 1 / 2 ^ 53))"
      using t ab by (intro mult_right_mono mult_left_mono) simp_all
    also have "\<dots> \<le> t * 1" unfolding mult.assoc using t by (intro mult_left_mono) simp_all
    finally have up: "fl64 (fl64 t * a) \<le> t" using A(2) ab by simp
    have "t * 1 \<le> t * ((1005 / 1000) * ((1 - 1 / 2 ^ 53) * (1 - 1 / 2 ^ 53)))" using t by (intro mult_left_mono) simp_all
    also have "\<dots> \<le> t * b * ((1 - 1 / 2 ^ 53) * (1 - 1 / 2 ^ 53))"
      unfolding mult.assoc [symmetric] using t ab by (intro mult_right_mono mult_left_mono) simp_all
    finally have down: "t \<le> fl64 (fl64 t * b)" using B(3) ab by simp
    have "0 \<le> t * a * ((1 - 1 / 2 ^ 53) * (1 - 1 / 2 ^ 53))" using t ab by (intro mult_nonneg_nonneg) simp_all
    then have "0 \<le> fl64 (fl64 t * a)" by (rule order_trans [OF _ A(3)]) (use ab in simp_all)
    with up have "unat (float_to_u64 (Fin (fl64 (fl64 t * a)))) \<le> unat threshold"
      unfolding t_def by (intro float_to_u64_le)
    moreover have "unat threshold \<le> unat (float_to_u64 (Fin (fl64 (fl64 t * b))))"
      using down unat_below unfolding t_def by (intro float_to_u64_ge)
    ultimately show ?thesis using A(1) B(1) ab by (simp add: conv)
  qed
  then show "recovery_point margin HigherIsWorse threshold \<le> threshold"
    "threshold \<le> recovery_point margin LowerIsWorse threshold"
    by (simp_all add: word_le_nat_alt)
qed


text \<open>What \<open>TRUSS_HEALTH_HYSTERESIS_MARGIN\<close> accepts: from 0.01 to 0.50.\<close>

definition margin_accepted :: "float_val \<Rightarrow> bool" where
  "margin_accepted margin \<longleftrightarrow> float_in_range (f64_of (1 / 100)) (f64_of (1 / 2)) margin"

lemma accepted_margin_ok:
  assumes "margin_accepted margin"
  shows "margin_ok margin"
proof -
  have ends: "9 / 1000 \<le> fl64 (1 / 100)" "fl64 (1 / 2) \<le> 6 / 10"
    by (rule order_trans [OF _ fl64_between(2)], simp, simp, rule order_trans [OF fl64_between(1)], simp, simp)
  obtain m where m: "margin = Fin m" "fl64 (1 / 100) \<le> m" "m \<le> fl64 (1 / 2)"
    using assms by (cases margin) (auto simp: margin_accepted_def float_in_range_def f64_of_Fin)
  from m(2,3) ends have range: "9 / 1000 \<le> m" "m \<le> 6 / 10" by linarith+
  have "(1 - m) * (1 + 1 / 2 ^ 53) \<le> (991 / 1000) * (1 + 1 / 2 ^ 53)" using range by (intro mult_right_mono) simp_all
  also have "\<dots> \<le> 995 / (1000 :: rat)" by simp
  finally have "fl64 (1 - m) \<le> 995 / 1000" using range by (intro order_trans [OF fl64_between(1)]) simp_all
  moreover have "1 / 4 \<le> (4 / 10) * (1 - 1 / (2 :: rat) ^ 53)" by simp
  moreover have "(4 / 10) * (1 - 1 / 2 ^ 53) \<le> (1 - m) * (1 - 1 / 2 ^ 53)" using range by (intro mult_right_mono) simp_all
  ultimately have minus: "fl64 (1 - m) \<le> 995 / 1000" "1 / 4 \<le> fl64 (1 - m)"
    using fl64_between(2) [of "1 - m"] range by (simp_all del: of_nat_numeral)
  have "(1 + m) * (1 + 1 / 2 ^ 53) \<le> (16 / 10) * (1 + 1 / 2 ^ 53)" using range by (intro mult_right_mono) simp_all
  also have "\<dots> \<le> (2 :: rat)" by simp
  finally have plus: "fl64 (1 + m) \<le> 2" using range by (intro order_trans [OF fl64_between(1)]) simp_all
  have "1005 / 1000 \<le> (1009 / 1000) * (1 - 1 / (2 :: rat) ^ 53)" by simp
  also have "\<dots> \<le> (1 + m) * (1 - 1 / 2 ^ 53)" using range by (intro mult_right_mono) simp_all
  finally have "1005 / 1000 \<le> fl64 (1 + m)" using range by (intro order_trans [OF _ fl64_between(2)]) simp_all
  with plus minus show ?thesis using range by (simp add: margin_ok_def m(1) f64_sub_def f64_of_Fin)
qed

text \<open>A run of readings of one check, from the state it is in: its answers.\<close>

fun run_check :: "float_val \<Rightarrow> threshold_direction \<Rightarrow> u64 \<Rightarrow> u8 \<Rightarrow> u64 list \<Rightarrow> bool list" where
  "run_check margin direction threshold state [] = []"
| "run_check margin direction threshold state (v # vs) =
     (let ((ok, _), state') = check_with_hysteresis margin state v threshold direction
      in ok # run_check margin direction threshold state' vs)"

text \<open>What a threshold alone would answer, and whether a reading is past the recovery point.\<close>

fun passes :: "threshold_direction \<Rightarrow> u64 \<Rightarrow> u64 \<Rightarrow> bool" where
  "passes HigherIsWorse threshold v \<longleftrightarrow> v < threshold"
| "passes LowerIsWorse threshold v \<longleftrightarrow> threshold \<le> v"

fun recovered :: "float_val \<Rightarrow> threshold_direction \<Rightarrow> u64 \<Rightarrow> u64 \<Rightarrow> bool" where
  "recovered margin HigherIsWorse threshold v \<longleftrightarrow> v < recovery_point margin HigherIsWorse threshold"
| "recovered margin LowerIsWorse threshold v \<longleftrightarrow> recovery_point margin LowerIsWorse threshold < v"

lemma check_answers:
  "check_with_hysteresis margin state v threshold direction =
     (let ok = (if state = 1 then recovered margin direction threshold v else passes direction threshold v) in
      ((ok, state = 1 \<and> \<not> ok \<and> passes direction threshold v), if ok then 0 else 1))"
  by (cases direction) (auto simp: check_with_hysteresis_def Let_def)

lemma recovered_passes: "margin_ok margin \<Longrightarrow> recovered margin direction threshold v \<Longrightarrow> passes direction threshold v"
  using recovery_side [of margin threshold] by (cases direction) auto

lemma run_check_failing:
  "\<not> list_ex (recovered margin direction threshold) vs \<Longrightarrow>
    run_check margin direction threshold 1 vs = replicate (length vs) False"
  by (induction vs) (simp_all add: check_answers)

text \<open>
  C39. A check never answers ok for a reading that its threshold alone would fail, and says that it is
  recovering exactly when it fails one that the threshold alone would pass; and as long as no
  reading goes past the recovery point, the check changes its mind at most once.
\<close>

theorem checks_do_not_flap:
  assumes accepted: "margin_accepted margin"
  shows "(let ((ok, recovering), _) = check_with_hysteresis margin state v threshold direction in
      (\<not> ok \<or> passes direction threshold v) \<and> recovering = (\<not> ok \<and> passes direction threshold v)) \<and>
    (list_ex (recovered margin direction threshold) vs \<or>
     (\<exists>k. run_check margin direction threshold state vs = replicate k True @ replicate (length vs - k) False))"
proof (intro conjI)
  show "let ((ok, recovering), _) = check_with_hysteresis margin state v threshold direction in
      (\<not> ok \<or> passes direction threshold v) \<and> recovering = (\<not> ok \<and> passes direction threshold v)"
    using recovered_passes [OF accepted_margin_ok [OF accepted]] by (auto simp: check_answers Let_def)
  have "\<exists>k. run_check margin direction threshold state vs = replicate k True @ replicate (length vs - k) False"
    if "\<not> list_ex (recovered margin direction threshold) vs" for state
    using that
  proof (induction vs arbitrary: state)
    case (Cons v vs)
    then have no: "\<not> recovered margin direction threshold v" "\<not> list_ex (recovered margin direction threshold) vs" by auto
    show ?case
    proof (cases "state \<noteq> 1 \<and> passes direction threshold v")
      case True
      with Cons.IH [OF no(2), of 0] obtain k where
        "run_check margin direction threshold state (v # vs) = True # replicate k True @ replicate (length vs - k) False"
        by (auto simp: check_answers Let_def)
      then show ?thesis by (intro exI [of _ "Suc k"]) simp
    next
      case False
      with no have "run_check margin direction threshold state (v # vs) = False # replicate (length vs) False"
        by (auto simp: check_answers Let_def run_check_failing)
      then show ?thesis by (intro exI [of _ 0]) simp
    qed
  qed simp
  then show "list_ex (recovered margin direction threshold) vs \<or>
     (\<exists>k. run_check margin direction threshold state vs = replicate k True @ replicate (length vs - k) False)" by blast
qed


lemma sample_recovery: "recovery_point (Fin (1 / 4)) HigherIsWorse 100 = 75"
proof -
  have "fl64 (of_nat 3 / 4) = of_nat 3 / 4" "fl64 (of_nat 400 / 4) = of_nat 400 / 4" "fl64 (of_nat 300 / 4) = of_nat 300 / 4"
    by (intro fl64_exact_quarter; simp)+
  note quarters = this [unfolded of_nat_numeral]
  have "(400 :: rat) / 4 = 100" "(300 :: rat) / 4 = 75" by simp_all
  with quarters have exact: "fl64 (3 / 4) = 3 / 4" "fl64 100 = 100" "fl64 75 = 75" by (simp_all only:)
  have "f64_sub (Fin 1) (Fin (1 / 4)) = Fin (3 / 4)" by (simp add: f64_sub_def f64_of_Fin exact)
  moreover have "float_of_u64 100 = Fin 100" by (simp add: float_of_u64_def f64_of_Fin exact)
  ultimately show ?thesis by (simp add: f64_of_Fin exact)
qed

theorem checks_do_not_flap_witness:
  "\<exists>k. run_check (Fin (1 / 4)) HigherIsWorse 100 0 [90, 100, 99, 80, 75] = replicate k True @ replicate (5 - k) False"
proof -
  have "fl64 (1 / 100) \<le> 1 / 4" "1 / 4 \<le> fl64 (1 / 2)"
    by (rule order_trans [OF fl64_between(1)], simp, simp, rule order_trans [OF _ fl64_between(2)], simp, simp)
  then have accepted: "margin_accepted (Fin (1 / 4))" by (simp add: margin_accepted_def float_in_range_def f64_of_Fin)
  have "\<not> list_ex (recovered (Fin (1 / 4)) HigherIsWorse 100) [90, 100, 99, 80, 75]"
    by (simp add: sample_recovery del: recovery_point.simps)
  with checks_do_not_flap [OF accepted, of 0 0 100 HigherIsWorse "[90, 100, 99, 80, 75]"]
  have "\<exists>k. run_check (Fin (1 / 4)) HigherIsWorse 100 0 [90, 100, 99, 80, 75] =
      replicate k True @ replicate (length [90, 100, 99, 80, 75 :: u64] - k) False" by blast
  moreover have "length [90, 100, 99, 80, 75 :: u64] = 5" by simp
  ultimately show ?thesis by (simp only:)
qed

section \<open>Readiness\<close>

lemma memory_check_load [simp]: "memory_check config (W\<lparr>hw_in_flight := n\<rparr>) h = memory_check config W h"
  by (simp add: memory_check_def)

lemma disk_check_load [simp]: "disk_check config (W\<lparr>hw_in_flight := n\<rparr>) h = disk_check config W h"
  by (simp add: disk_check_def)

text \<open>
  A server that is not draining is ready exactly when every check of its report but the one of
  its capacity is ok; the number of transforms in flight changes neither that answer nor what is
  remembered for the next report, and a server that is draining is never ready.
\<close>

theorem readiness_ignores_load:
  "rsp_status (fst (handle_health_ready J config (W\<lparr>hw_in_flight := n\<rparr>) h)) =
     rsp_status (fst (handle_health_ready J config W h)) \<and>
   snd (handle_health_ready J config (W\<lparr>hw_in_flight := n\<rparr>) h) = snd (handle_health_ready J config W h) \<and>
   (rsp_status (fst (handle_health_ready J config W h)) = ''200 OK'' \<longleftrightarrow>
     \<not> hw_draining W \<and> snd (fst (collect_resource_checks config W h)))"
proof -
  have same: "snd (fst (collect_resource_checks config (W\<lparr>hw_in_flight := n\<rparr>) h)) =
      snd (fst (collect_resource_checks config W h))"
    "snd (collect_resource_checks config (W\<lparr>hw_in_flight := n\<rparr>) h) = snd (collect_resource_checks config W h)"
    by (simp_all add: collect_resource_checks_def storage_health_check_def Let_def split: prod.splits)
  show ?thesis using same
    by (simp add: handle_health_ready_def response_json_def Let_def split: prod.splits) auto
qed

end
