(* ===== verification/Client_Ip.thy ===== *)
theory Client_Ip
  imports Remote_Policy Http_Parse
begin

text \<open>
  Who a request came from: the trusted proxies of \<open>src/adapters/server/config.rs\<close>
  (\<open>TrustedProxy\<close>) and, in \<open>src/adapters/server/routing.rs\<close>, the client address that the rate
  limiter buckets by, the request id, the cache status and the watermark flag of an answer, and
  whether the connection is kept. The text form of an address is the one of the standard library.

  What is shown: a CIDR block that was read from the configuration holds exactly the addresses
  that agree with it in the bits of its prefix; a client behind a trusted proxy cannot choose the
  bucket it is counted in, since what it forges stands to the left of what the proxy appended.
\<close>

section \<open>Addresses as text\<close>

text \<open>
  The reader of the standard library, \<open>core::net::parser\<close>: each function takes the text that is
  left and answers what it read and the rest; what fails consumes nothing.
\<close>

definition digit_in :: "nat \<Rightarrow> char \<Rightarrow> nat option" where
  "digit_in radix c = Option.bind (hex_val c) (\<lambda>d. if d < radix then Some d else None)"

fun read_digits :: "nat \<Rightarrow> string \<Rightarrow> nat list \<times> string" where
  "read_digits radix [] = ([], [])"
| "read_digits radix (c # s) =
     (case digit_in radix c of
        Some d \<Rightarrow> (let (ds, r) = read_digits radix s in (d # ds, r))
      | None \<Rightarrow> ([], c # s))"

definition read_number :: "nat \<Rightarrow> nat \<Rightarrow> bool \<Rightarrow> nat \<Rightarrow> string \<Rightarrow> (nat \<times> string) option" where
  "read_number radix max_digits allow_zero_prefix highest s =
     (let (ds, r) = read_digits radix s; n = foldl (\<lambda>a d. a * radix + d) 0 ds in
      if ds = [] \<or> max_digits < length ds \<or> (\<not> allow_zero_prefix \<and> hd ds = 0 \<and> 1 < length ds) \<or> highest < n
      then None else Some (n, r))"

definition read_char :: "char \<Rightarrow> string \<Rightarrow> string option" where
  "read_char c s = (case s of x # r \<Rightarrow> if x = c then Some r else None | [] \<Rightarrow> None)"

definition read_octet :: "string \<Rightarrow> (u8 \<times> string) option" where
  "read_octet s = map_option (\<lambda>(n, r). (of_nat n, r)) (read_number 10 3 False 255 s)"

definition read_dot_octet :: "string \<Rightarrow> (u8 \<times> string) option" where
  "read_dot_octet s = Option.bind (read_char CHR ''.'' s) read_octet"

definition read_ipv4 :: "string \<Rightarrow> (ipv4 \<times> string) option" where
  "read_ipv4 s =
     Option.bind (read_octet s) (\<lambda>(a, s).
     Option.bind (read_dot_octet s) (\<lambda>(b, s).
     Option.bind (read_dot_octet s) (\<lambda>(c, s).
     map_option (\<lambda>(d, s). (Ipv4 a b c d, s)) (read_dot_octet s))))"

definition with_colon :: "nat \<Rightarrow> (string \<Rightarrow> 'a option) \<Rightarrow> string \<Rightarrow> 'a option" where
  "with_colon i f s = (if i = 0 then f s else Option.bind (read_char CHR '':'' s) f)"

definition be_pair :: "u8 \<Rightarrow> u8 \<Rightarrow> u16" where
  "be_pair a b = push_bit 8 (ucast a) OR ucast b"

text \<open>Up to \<open>todo\<close> groups behind the \<open>i\<close> that were read; the flag says that IPv4 closed them.\<close>

fun read_groups :: "nat \<Rightarrow> nat \<Rightarrow> string \<Rightarrow> u16 list \<times> bool \<times> string" where
  "read_groups i 0 s = ([], False, s)"
| "read_groups i (Suc todo) s =
     (case (if todo = 0 then None else with_colon i read_ipv4 s) of
        Some (Ipv4 a b c d, r) \<Rightarrow> ([be_pair a b, be_pair c d], True, r)
      | None \<Rightarrow>
          (case with_colon i (read_number 16 4 True 65535) s of
             Some (g, r) \<Rightarrow> (let (gs, v4, r') = read_groups (i + 1) todo r in (of_nat g # gs, v4, r'))
           | None \<Rightarrow> ([], False, s)))"

fun ipv6_of :: "u16 list \<Rightarrow> ipv6 option" where
  "ipv6_of [a, b, c, d, e, f, g, h] = Some (Ipv6 a b c d e f g h)"
| "ipv6_of _ = None"

definition read_ipv6 :: "string \<Rightarrow> (ipv6 \<times> string) option" where
  "read_ipv6 s =
     (let (front, v4, r) = read_groups 0 8 s in
      if length front = 8 then map_option (\<lambda>a. (a, r)) (ipv6_of front)
      else if v4 then None
      else Option.bind (Option.bind (read_char CHR '':'' r) (read_char CHR '':'')) (\<lambda>r.
        let (rear, _, r') = read_groups 0 (8 - (length front + 1)) r in
        map_option (\<lambda>a. (a, r')) (ipv6_of (front @ replicate (8 - length front - length rear) 0 @ rear))))"

definition parse_ip :: "string \<Rightarrow> ip_addr option" where
  "parse_ip s =
     (case (case read_ipv4 s of
              Some (a, r) \<Rightarrow> Some (V4 a, r)
            | None \<Rightarrow> map_option (\<lambda>(a, r). (V6 a, r)) (read_ipv6 s)) of
        Some (a, []) \<Rightarrow> Some a
      | _ \<Rightarrow> None)"

section \<open>Trusted proxies\<close>

datatype trusted_proxy = Addr ip_addr | Cidr ip_addr u8

fun ipv4_word :: "ipv4 \<Rightarrow> u32" where
  "ipv4_word (Ipv4 a b c d) = push_bit 24 (ucast a) OR push_bit 16 (ucast b) OR push_bit 8 (ucast c) OR ucast d"

fun ipv6_word :: "ipv6 \<Rightarrow> 128 word" where
  "ipv6_word (Ipv6 a b c d e f g h) =
     push_bit 112 (ucast a) OR push_bit 96 (ucast b) OR push_bit 80 (ucast c) OR push_bit 64 (ucast d) OR
     push_bit 48 (ucast e) OR push_bit 32 (ucast f) OR push_bit 16 (ucast g) OR ucast h"

fun max_prefix :: "ip_addr \<Rightarrow> nat" where
  "max_prefix (V4 _) = 32"
| "max_prefix (V6 _) = 128"

text \<open>The mask is shifted by less than the width, since a prefix of zero bits returns before.\<close>

fun proxy_contains :: "trusted_proxy \<Rightarrow> ip_addr \<Rightarrow> bool" where
  "proxy_contains (Addr a) ip \<longleftrightarrow> a = ip"
| "proxy_contains (Cidr (V4 net) prefix) (V4 addr) \<longleftrightarrow>
     prefix = 0 \<or> (let mask = push_bit (unat (32 - prefix)) (- 1) in ipv4_word net AND mask = ipv4_word addr AND mask)"
| "proxy_contains (Cidr (V6 net) prefix) (V6 addr) \<longleftrightarrow>
     prefix = 0 \<or> (let mask = push_bit (unat (128 - prefix)) (- 1) in ipv6_word net AND mask = ipv6_word addr AND mask)"
| "proxy_contains _ _ \<longleftrightarrow> False"

definition is_trusted_proxy :: "trusted_proxy list \<Rightarrow> ip_addr \<Rightarrow> bool" where
  "is_trusted_proxy trusted ip \<longleftrightarrow> list_ex (\<lambda>t. proxy_contains t ip) trusted"

fun show_int_error :: "int_error \<Rightarrow> string" where
  "show_int_error Empty = ''cannot parse integer from empty string''"
| "show_int_error InvalidDigit = ''invalid digit found in string''"
| "show_int_error PosOverflow = ''number too large to fit in target type''"
| "show_int_error NegOverflow = ''number too small to fit in target type''"

definition bad_ip :: string where "bad_ip = ''invalid IP address syntax''"

definition parse_proxy :: "string \<Rightarrow> (string, trusted_proxy) outcome" where
  "parse_proxy s =
     (case split_once CHR ''/'' s of
        Some (addr_text, prefix_text0) \<Rightarrow>
          and_then (ok_or (''invalid IP in CIDR `'' @ s @ ''`: '' @ bad_ip) (parse_ip (trim addr_text))) (\<lambda>addr.
          let prefix_text = trim prefix_text0 in
          and_then (case parse_unsigned 255 prefix_text of
              Inl PosOverflow \<Rightarrow> Err (''prefix length '' @ prefix_text @ '' exceeds maximum '' @ show_nat (max_prefix addr) @
                '' for `'' @ s @ ''`'')
            | Inl e \<Rightarrow> Err (''invalid prefix length in CIDR `'' @ s @ ''`: '' @ show_int_error e)
            | Inr p \<Rightarrow> Ok (nat p)) (\<lambda>prefix.
          if max_prefix addr < prefix
          then Err (''prefix length '' @ show_nat prefix @ '' exceeds maximum '' @ show_nat (max_prefix addr) @
            '' for `'' @ s @ ''`'')
          else Ok (Cidr addr (of_nat prefix))))
      | None \<Rightarrow>
          and_then (ok_or (''invalid trusted proxy IP `'' @ s @ ''`: '' @ bad_ip) (parse_ip (trim s))) (\<lambda>addr.
            Ok (Addr addr)))"


section \<open>The client of a request\<close>

text \<open>A forwarded address that reads as one and is not a proxy of our own.\<close>

definition untrusted_ip :: "trusted_proxy list \<Rightarrow> string \<Rightarrow> ip_addr option" where
  "untrusted_ip proxies t =
     (case parse_ip (trim t) of
        Some ip \<Rightarrow> if is_trusted_proxy proxies ip then None else Some ip
      | None \<Rightarrow> None)"

fun first_some :: "('a \<Rightarrow> 'b option) \<Rightarrow> 'a list \<Rightarrow> 'b option" where
  "first_some f [] = None"
| "first_some f (x # xs) = (case f x of Some y \<Rightarrow> Some y | None \<Rightarrow> first_some f xs)"

definition values_of :: "string \<Rightarrow> headers \<Rightarrow> string list" where
  "values_of name hs = map snd (filter (\<lambda>h. eq_ignore_ascii_case (fst h) name) hs)"

definition resolve_client_ip :: "ip_addr \<Rightarrow> headers \<Rightarrow> trusted_proxy list \<Rightarrow> ip_addr" where
  "resolve_client_ip peer hs proxies =
     (if proxies = [] \<or> \<not> is_trusted_proxy proxies peer then peer
      else
        let xff = values_of ''x-forwarded-for'' hs in
        case (if xff = [] then None
              else first_some (untrusted_ip proxies) (rev (split_on CHR '','' (join_with '','' xff)))) of
          Some ip \<Rightarrow> ip
        | None \<Rightarrow>
            (case values_of ''x-real-ip'' (rev hs) of
               v # _ \<Rightarrow> (case untrusted_ip proxies v of Some ip \<Rightarrow> ip | None \<Rightarrow> peer)
             | [] \<Rightarrow> peer))"

section \<open>What a connection reads off a request and an answer\<close>

definition MAX_REQUEST_ID_LEN :: nat where "MAX_REQUEST_ID_LEN = 128"

definition request_id_ok :: "string \<times> string \<Rightarrow> bool" where
  "request_id_ok h \<longleftrightarrow> fst h = ''x-request-id'' \<and> snd h \<noteq> [] \<and> length (snd h) \<le> MAX_REQUEST_ID_LEN \<and>
     list_all (\<lambda>c. 32 \<le> code c \<and> code c \<le> 126) (snd h)"

definition extract_request_id :: "headers \<Rightarrow> string option" where
  "extract_request_id hs = map_option snd (find request_id_ok hs)"

definition extract_cache_status :: "headers \<Rightarrow> string option" where
  "extract_cache_status hs =
     map_option (\<lambda>v. if find_sub v ''hit'' \<noteq> None then ''hit'' else ''miss'') (map_of hs ''Cache-Status'')"

text \<open>\<open>swap_remove\<close>: the last header takes the place of the one that is removed.\<close>

definition swap_remove :: "nat \<Rightarrow> 'a list \<Rightarrow> 'a list" where
  "swap_remove i xs = butlast (xs[i := last xs])"

definition extract_watermark_flag :: "headers \<Rightarrow> bool \<times> headers" where
  "extract_watermark_flag hs =
     (let i = length (takeWhile (\<lambda>h. fst h \<noteq> ''X-Truss-Watermark'') hs) in
      if i < length hs then (True, swap_remove i hs) else (False, hs))"

definition client_wants_close :: "string \<Rightarrow> headers \<Rightarrow> bool" where
  "client_wants_close version hs =
     (let connection = header_value hs ''connection'';
          says = (\<lambda>member. case connection of Some v \<Rightarrow> header_list_contains v member | None \<Rightarrow> False)
      in if says ''close'' then True
         else if eq_ignore_ascii_case version ''HTTP/1.1'' then False
         else \<not> says ''keep-alive'')"

section \<open>A block holds what agrees with its prefix\<close>

text \<open>The bits of an address, the first one of its text first.\<close>

fun ip_bit :: "ip_addr \<Rightarrow> nat \<Rightarrow> bool" where
  "ip_bit (V4 a) i \<longleftrightarrow> bit (ipv4_word a) (31 - i)"
| "ip_bit (V6 a) i \<longleftrightarrow> bit (ipv6_word a) (127 - i)"

lemma prefix_mask:
  fixes a b :: "'a::len word"
  assumes "0 < p" "p \<le> LENGTH('a)"
  shows "a AND push_bit (LENGTH('a) - p) (- 1) = b AND push_bit (LENGTH('a) - p) (- 1) \<longleftrightarrow>
    (\<forall>i < p. bit a (LENGTH('a) - 1 - i) \<longleftrightarrow> bit b (LENGTH('a) - 1 - i))"
proof
  assume eq: "a AND push_bit (LENGTH('a) - p) (- 1) = b AND push_bit (LENGTH('a) - p) (- 1)"
  show "\<forall>i < p. bit a (LENGTH('a) - 1 - i) \<longleftrightarrow> bit b (LENGTH('a) - 1 - i)"
  proof (intro allI impI)
    fix i assume "i < p"
    then have "LENGTH('a) - p \<le> LENGTH('a) - 1 - i" "LENGTH('a) - 1 - i < LENGTH('a)" using assms by auto
    with arg_cong [OF eq, of "\<lambda>w. bit w (LENGTH('a) - 1 - i)"]
    show "bit a (LENGTH('a) - 1 - i) \<longleftrightarrow> bit b (LENGTH('a) - 1 - i)"
      by (auto simp: bit_simps)
  qed
next
  assume bits: "\<forall>i < p. bit a (LENGTH('a) - 1 - i) \<longleftrightarrow> bit b (LENGTH('a) - 1 - i)"
  show "a AND push_bit (LENGTH('a) - p) (- 1) = b AND push_bit (LENGTH('a) - p) (- 1)"
  proof (rule bit_word_eqI)
    fix n assume n: "n < LENGTH('a)"
    show "bit (a AND push_bit (LENGTH('a) - p) (- 1)) n = bit (b AND push_bit (LENGTH('a) - p) (- 1)) n"
    proof (cases "LENGTH('a) - p \<le> n")
      case True
      then have "LENGTH('a) - 1 - n < p" "LENGTH('a) - 1 - (LENGTH('a) - 1 - n) = n" using n assms by auto
      with bits have "bit a n = bit b n" by metis
      then show ?thesis by (simp add: bit_simps)
    next
      case False
      then show ?thesis by (simp add: bit_simps)
    qed
  qed
qed

lemma parsed_block:
  assumes "parse_proxy s = Ok (Cidr net p)"
  shows "unat p \<le> max_prefix net"
proof -
  have small: "n \<le> max_prefix net \<Longrightarrow> unat (of_nat n :: u8) \<le> max_prefix net" for n
    by (cases net) (auto simp: unat_of_nat intro: order_trans [OF mod_less_eq_dividend])
  from assms obtain a b where parts: "split_once CHR ''/'' s = Some (a, b)"
    by (cases "split_once CHR ''/'' s") (auto simp: parse_proxy_def)
  have "\<exists>n. parse_unsigned 255 (trim b) = Inr n \<and> nat n \<le> max_prefix net \<and> p = of_nat (nat n)"
  proof (cases "parse_unsigned 255 (trim b)")
    case (Inl e)
    with assms parts show ?thesis by (cases e) (auto simp: parse_proxy_def Let_def)
  next
    case (Inr n)
    with assms parts show ?thesis by (auto simp: parse_proxy_def Let_def split: if_splits)
  qed
  then show ?thesis using small by auto
qed

lemma mask_distance:
  "unat p \<le> 32 \<Longrightarrow> unat ((32 :: u8) - p) = 32 - unat p"
  "unat p \<le> 128 \<Longrightarrow> unat ((128 :: u8) - p) = 128 - unat p"
  by (simp_all add: unat_sub word_le_nat_alt)

text \<open>
  A CIDR block of the trusted proxies, once it is read, holds exactly the addresses of its own
  family that agree with it in the bits of its prefix, and its prefix is no longer than an address.
\<close>

theorem block_is_its_prefix:
  assumes "parse_proxy s = Ok (Cidr net p)"
  shows "unat p \<le> max_prefix net \<and>
    (proxy_contains (Cidr net p) ip \<longleftrightarrow>
      max_prefix ip = max_prefix net \<and> (\<forall>i < unat p. ip_bit net i = ip_bit ip i))"
proof -
  have p: "unat p \<le> max_prefix net" by (rule parsed_block [OF assms])
  have zero: "p = 0 \<longleftrightarrow> unat p = 0" by (simp add: unat_eq_0)
  have "proxy_contains (Cidr net p) ip \<longleftrightarrow>
      max_prefix ip = max_prefix net \<and> (\<forall>i < unat p. ip_bit net i = ip_bit ip i)"
  proof (cases net; cases ip)
    fix a b assume nets: "net = V4 a" "ip = V4 b"
    with p have "unat p \<le> 32" by simp
    then show ?thesis using prefix_mask [of "unat p" "ipv4_word a" "ipv4_word b"]
      by (cases "unat p = 0") (simp_all add: nets zero mask_distance Let_def)
  next
    fix a b assume nets: "net = V6 a" "ip = V6 b"
    with p have "unat p \<le> 128" by simp
    then show ?thesis using prefix_mask [of "unat p" "ipv6_word a" "ipv6_word b"]
      by (cases "unat p = 0") (simp_all add: nets zero mask_distance Let_def)
  qed simp_all
  with p show ?thesis by simp
qed

theorem block_is_its_prefix_witness:
  "parse_proxy ''172.16.0.0/12'' = Ok (Cidr (V4 (Ipv4 172 16 0 0)) 12) \<and>
   (proxy_contains (Cidr (V4 (Ipv4 172 16 0 0)) 12) (V4 (Ipv4 172 31 255 255)) \<longleftrightarrow>
     list_all (\<lambda>i. ip_bit (V4 (Ipv4 172 16 0 0)) i = ip_bit (V4 (Ipv4 172 31 255 255)) i) [0..<12])"
proof -
  have read: "parse_proxy ''172.16.0.0/12'' = Ok (Cidr (V4 (Ipv4 172 16 0 0)) 12)" by code_simp
  have "list_all P [0..<12] \<longleftrightarrow> (\<forall>i < 12. P i)" for P :: "nat \<Rightarrow> bool" by (auto simp: list_all_iff)
  with block_is_its_prefix [OF read, of "V4 (Ipv4 172 31 255 255)"] read show ?thesis by simp
qed

section \<open>What a client forges\<close>

lemma split_on_join: "split_on c (s @ c # t) = split_on c s @ split_on c t"
  by (induction s) (auto split: list.splits simp: neq_Nil_conv)

lemma first_some_append:
  "first_some f (xs @ ys) = (case first_some f xs of Some y \<Rightarrow> Some y | None \<Rightarrow> first_some f ys)"
  by (induction xs) (auto split: option.splits)

lemma first_some_None: "first_some f xs = None \<longleftrightarrow> \<not> list_ex (\<lambda>x. f x \<noteq> None) xs"
  by (induction xs) (auto split: option.splits)

lemma first_some_Some: "first_some f xs = Some y \<Longrightarrow> \<exists>x \<in> set xs. f x = Some y"
  by (induction xs) (auto split: option.splits)

lemma untrusted_ip_SomeD: "untrusted_ip proxies t = Some ip \<Longrightarrow> \<not> is_trusted_proxy proxies ip"
  by (auto simp: untrusted_ip_def split: option.splits if_splits)

text \<open>
  C38. Behind a trusted proxy the address a request is counted under is the rightmost one of what
  the proxies appended to \<open>X-Forwarded-For\<close> that is not a proxy of ours, and nothing the client
  wrote to the left of it, in however many headers, changes it.
\<close>

theorem forged_forwarding_is_ignored:
  assumes "is_trusted_proxy proxies peer"
    and "join_with '','' (values_of ''x-forwarded-for'' hs) = forged @ CHR '','' # appended"
    and "list_ex (\<lambda>t. untrusted_ip proxies t \<noteq> None) (split_on CHR '','' appended)"
  shows "Some (resolve_client_ip peer hs proxies) = first_some (untrusted_ip proxies) (rev (split_on CHR '','' appended)) \<and>
    \<not> is_trusted_proxy proxies (resolve_client_ip peer hs proxies)"
proof -
  have "list_ex (\<lambda>t. untrusted_ip proxies t \<noteq> None) (rev (split_on CHR '','' appended))"
    using assms(3) by (simp add: list_ex_iff)
  then obtain ip where ip: "first_some (untrusted_ip proxies) (rev (split_on CHR '','' appended)) = Some ip"
    using first_some_None [of "untrusted_ip proxies"] by blast
  have some: "values_of ''x-forwarded-for'' hs \<noteq> []" "proxies \<noteq> []"
    using assms(1,2) by (auto simp: is_trusted_proxy_def)
  have "resolve_client_ip peer hs proxies = ip"
    using assms(1) some by (simp add: resolve_client_ip_def assms(2) split_on_join first_some_append ip Let_def)
  moreover have "\<not> is_trusted_proxy proxies ip"
    using first_some_Some [OF ip] untrusted_ip_SomeD by blast
  ultimately show ?thesis by (simp add: ip)
qed

theorem forged_forwarding_is_ignored_witness:
  "resolve_client_ip (V4 (Ipv4 10 0 0 1))
     [(''x-forwarded-for'', ''8.8.8.8''), (''X-Forwarded-For'', ''203.0.113.9, 10.0.0.2'')]
     [Cidr (V4 (Ipv4 10 0 0 0)) 8] = V4 (Ipv4 203 0 113 9)"
proof -
  let ?p = "[Cidr (V4 (Ipv4 10 0 0 0)) 8]"
    and ?hs = "[(''x-forwarded-for'', ''8.8.8.8''), (''X-Forwarded-For'', ''203.0.113.9, 10.0.0.2'')]"
  have "is_trusted_proxy ?p (V4 (Ipv4 10 0 0 1))" by code_simp
  moreover have "join_with '','' (values_of ''x-forwarded-for'' ?hs) = ''8.8.8.8'' @ CHR '','' # ''203.0.113.9, 10.0.0.2''"
    by code_simp
  moreover have "list_ex (\<lambda>t. untrusted_ip ?p t \<noteq> None) (split_on CHR '','' ''203.0.113.9, 10.0.0.2'')" by code_simp
  moreover have "first_some (untrusted_ip ?p) (rev (split_on CHR '','' ''203.0.113.9, 10.0.0.2'')) =
      Some (V4 (Ipv4 203 0 113 9))" by code_simp
  ultimately show ?thesis using forged_forwarding_is_ignored by (metis option.inject)
qed

end
