(* ===== verification/Rate_Limit.thy ===== *)
theory Rate_Limit
  imports Remote_Policy Floats "HOL-Library.AList"
begin

text \<open>
  The token buckets of \<open>adapters/server/rate_limit.rs\<close>: a limiter is its burst, its rate and
  sixteen maps from client address to bucket, and \<open>check\<close> is one request. The clock is an
  argument, in nanoseconds, and so is the hash of an address; the arithmetic is the rounded
  one of theory \<open>Floats\<close>.

  Requests are taken in the order in which they hold the lock of their shard, with clock
  readings that do not go back (the code reads the clock before it takes the lock, so this is
  a condition on a run and not a fact about every one). Then the limiter answers each client as
  one bucket of its own would that may be lost after five idle minutes, and is not missed when
  the rate refills the burst in that time (\<open>limiter_is_one_bucket_each\<close>); such a bucket serves
  no more than its bursts and its rate allow (\<open>served_within_allowance\<close>), and it serves a client
  that has waited for a token (\<open>patient_client_served\<close>).
\<close>

section \<open>The limiter\<close>

definition NUM_SHARDS :: nat where
  "NUM_SHARDS = 16"

definition CLEANUP_THRESHOLD_PER_SHARD :: nat where
  "CLEANUP_THRESHOLD_PER_SHARD = 1000"

definition CLEANUP_IDLE_SECS :: float_val where
  "CLEANUP_IDLE_SECS = Fin 300"

record bucket =
  bk_tokens :: float_val
  bk_last_refill :: nat \<comment> \<open>nanoseconds\<close>

type_synonym shard = "(ip_addr \<times> bucket) list"

record limiter =
  lim_burst :: float_val
  lim_rate :: float_val
  lim_shards :: "shard list"

definition shard_index :: "(ip_addr \<Rightarrow> u64) \<Rightarrow> ip_addr \<Rightarrow> nat" where
  "shard_index hash ip = unat (hash ip AND of_nat (NUM_SHARDS - 1))"

definition new_limiter :: "float_val \<Rightarrow> float_val \<Rightarrow> limiter" where
  "new_limiter rate burst = \<lparr>lim_burst = burst, lim_rate = rate, lim_shards = replicate NUM_SHARDS []\<rparr>"

text \<open>The sweep of a shard that has grown large.\<close>

definition cleanup :: "nat \<Rightarrow> shard \<Rightarrow> shard" where
  "cleanup now shard =
     (if CLEANUP_THRESHOLD_PER_SHARD < length shard
      then filter (\<lambda>(_, b). float_lt (as_secs_f64 (now - bk_last_refill b)) CLEANUP_IDLE_SECS) shard
      else shard)"

text \<open>What a request does to the client's bucket: it refills it, and takes a token if there is one.\<close>

definition refill :: "float_val \<Rightarrow> float_val \<Rightarrow> nat \<Rightarrow> bucket \<Rightarrow> bucket" where
  "refill burst rate now b =
     (let elapsed = as_secs_f64 (now - bk_last_refill b) in
      \<lparr>bk_tokens = float_min (f64_add (bk_tokens b) (f64_mul elapsed rate)) burst, bk_last_refill = now\<rparr>)"

definition take_token :: "bucket \<Rightarrow> bool \<times> bucket" where
  "take_token b =
     (if float_le (Fin 1) (bk_tokens b)
      then (True, b\<lparr>bk_tokens := f64_sub (bk_tokens b) (Fin 1)\<rparr>)
      else (False, b))"

definition check :: "(ip_addr \<Rightarrow> u64) \<Rightarrow> nat \<Rightarrow> ip_addr \<Rightarrow> limiter \<Rightarrow> bool \<times> limiter" where
  "check hash now ip lmt =
     (let idx = shard_index hash ip;
          shard = cleanup now (lim_shards lmt ! idx);
          b = (case map_of shard ip of
                 Some b \<Rightarrow> b | None \<Rightarrow> \<lparr>bk_tokens = lim_burst lmt, bk_last_refill = now\<rparr>);
          (allowed, b') = take_token (refill (lim_burst lmt) (lim_rate lmt) now b)
      in (allowed, lmt\<lparr>lim_shards := (lim_shards lmt)[idx := AList.update ip b' shard]\<rparr>))"

text \<open>A run of requests, each with the clock reading it took.\<close>

fun run_checks :: "(ip_addr \<Rightarrow> u64) \<Rightarrow> (nat \<times> ip_addr) list \<Rightarrow> limiter \<Rightarrow> bool list \<times> limiter" where
  "run_checks hash [] lmt = ([], lmt)"
| "run_checks hash ((now, ip) # reqs) lmt =
     (let (a, lmt') = check hash now ip lmt; (answers, lmt'') = run_checks hash reqs lmt'
      in (a # answers, lmt''))"

section \<open>One bucket per client\<close>

text \<open>
  The contract: a client that is met for the first time gets a full bucket, which is its own
  and is kept for ever. \<open>client_run\<close> answers the readings at which one client asks.
\<close>

definition client_step :: "float_val \<Rightarrow> float_val \<Rightarrow> nat \<Rightarrow> bucket option \<Rightarrow> bool \<times> bucket" where
  "client_step burst rate now ob =
     take_token (refill burst rate now
       (case ob of Some b \<Rightarrow> b | None \<Rightarrow> \<lparr>bk_tokens = burst, bk_last_refill = now\<rparr>))"

fun client_run :: "float_val \<Rightarrow> float_val \<Rightarrow> bucket option \<Rightarrow> nat list \<Rightarrow> bool list" where
  "client_run burst rate ob [] = []"
| "client_run burst rate ob (now # nows) =
     (let (a, b) = client_step burst rate now ob in a # client_run burst rate (Some b) nows)"

text \<open>
  The sweep may have dropped a bucket that was idle for five minutes; the client is then met as
  a new one. \<open>client_answers\<close> are the answers a client can get when it may.
\<close>

inductive client_answers :: "float_val \<Rightarrow> float_val \<Rightarrow> bucket option \<Rightarrow> nat list \<Rightarrow> bool list \<Rightarrow> bool"
  for burst rate :: float_val where
  asks_nothing: "client_answers burst rate ob [] []"
| kept: "client_step burst rate now ob = (a, b) \<Longrightarrow> client_answers burst rate (Some b) nows as \<Longrightarrow>
    client_answers burst rate ob (now # nows) (a # as)"
| dropped: "300 * 10 ^ 9 \<le> now - bk_last_refill b\<^sub>0 \<Longrightarrow> client_step burst rate now None = (a, b) \<Longrightarrow>
    client_answers burst rate (Some b) nows as \<Longrightarrow>
    client_answers burst rate (Some b\<^sub>0) (now # nows) (a # as)"

inductive_cases client_answers_ConsE: "client_answers burst rate ob (now # nows) answers"
inductive_simps client_answers_Nil: "client_answers burst rate ob [] answers"

definition readings_of :: "ip_addr \<Rightarrow> (nat \<times> ip_addr) list \<Rightarrow> nat list" where
  "readings_of ip reqs = map fst (filter (\<lambda>(_, a). a = ip) reqs)"

definition answers_to :: "ip_addr \<Rightarrow> (nat \<times> ip_addr) list \<Rightarrow> bool list \<Rightarrow> bool list" where
  "answers_to ip reqs answers = map snd (filter (\<lambda>((_, a), _). a = ip) (zip reqs answers))"

section \<open>The arithmetic of a bucket\<close>

text \<open>
  The bounds the configuration sets: both numbers are whole, at least 1 and at most 100000. A
  reading stays below \<open>2 ^ 70\<close> nanoseconds, which is longer than any clock runs.
\<close>

definition limits_ok :: "nat \<Rightarrow> nat \<Rightarrow> bool" where
  "limits_ok burst rate \<longleftrightarrow> 1 \<le> burst \<and> burst \<le> 100000 \<and> 1 \<le> rate \<and> rate \<le> 100000"

definition reading_ok :: "nat \<Rightarrow> bool" where
  "reading_ok now \<longleftrightarrow> now \<le> 2 ^ 70"

definition secs64 :: "nat \<Rightarrow> rat" where
  "secs64 n = fl64 (fl64 (of_nat (n div 10 ^ 9)) + fl64 (of_nat (n mod 10 ^ 9) / 10 ^ 9))"

lemma div_second_le: "reading_ok n \<Longrightarrow> (of_nat (n div 10 ^ 9) :: rat) \<le> 2 ^ 70"
proof -
  assume "reading_ok n"
  then have "n div 10 ^ 9 \<le> 2 ^ 70" unfolding reading_ok_def by (meson div_le_dividend le_trans)
  then have "(of_nat (n div 10 ^ 9) :: rat) \<le> of_nat (2 ^ 70)" by (rule of_nat_mono)
  then show ?thesis by simp
qed

lemma fraction_bounds: "0 \<le> (of_nat (n mod 10 ^ 9) / 10 ^ 9 :: rat)" "(of_nat (n mod 10 ^ 9) / 10 ^ 9 :: rat) \<le> 1"
proof -
  have "n mod 10 ^ 9 \<le> 10 ^ 9" by simp
  then have "(of_nat (n mod 10 ^ 9) :: rat) \<le> of_nat (10 ^ 9)" by (rule of_nat_mono)
  then show "(of_nat (n mod 10 ^ 9) / 10 ^ 9 :: rat) \<le> 1" by simp
qed simp

lemma rounded_sum:
  assumes "0 \<le> q" "q \<le> 2 ^ 70" "0 \<le> m" "m \<le> (1::rat)"
  shows "0 \<le> fl64 q + fl64 m" "fl64 q + fl64 m \<le> 2 ^ 72" "fl64 (fl64 q + fl64 m) \<le> 2 ^ 74"
proof -
  have "fl64 q \<le> 2 * q + 1" "fl64 m \<le> 2 * m + 1" using assms by (auto intro: fl64_le_double)
  with assms show le: "fl64 q + fl64 m \<le> 2 ^ 72" by simp
  show "0 \<le> fl64 q + fl64 m" using assms by (auto intro!: add_nonneg_nonneg f64.nonneg)
  with le fl64_le_double [of "fl64 q + fl64 m"] show "fl64 (fl64 q + fl64 m) \<le> 2 ^ 74" by simp
qed

lemma secs64_bounds:
  assumes "reading_ok n"
  shows "0 \<le> secs64 n" "secs64 n \<le> 2 ^ 74"
  unfolding secs64_def
  using rounded_sum [OF of_nat_0_le_iff div_second_le [OF assms] fraction_bounds [of n]] by (auto intro: f64.nonneg)

lemma as_secs_f64_Fin: "reading_ok n \<Longrightarrow> as_secs_f64 n = Fin (secs64 n)"
proof -
  assume n: "reading_ok n"
  let ?q = "of_nat (n div 10 ^ 9) :: rat" and ?m = "of_nat (n mod 10 ^ 9) / 10 ^ 9 :: rat"
  note sum = rounded_sum [OF of_nat_0_le_iff div_second_le [OF n] fraction_bounds [of n]]
  have "f64_of ?q = Fin (fl64 ?q)"
    by (rule f64_of_Fin) (simp, rule order_trans [OF div_second_le [OF n]], simp)
  moreover have "f64_of ?m = Fin (fl64 ?m)"
    by (rule f64_of_Fin [OF fraction_bounds(1)]) (rule order_trans [OF fraction_bounds(2)], simp)
  moreover have "f64_of (fl64 ?q + fl64 ?m) = Fin (fl64 (fl64 ?q + fl64 ?m))"
    by (rule f64_of_Fin [OF sum(1)]) (rule order_trans [OF sum(2)], simp)
  ultimately show ?thesis by (simp add: as_secs_f64_def secs64_def)
qed

text \<open>What the elapsed time adds to a bucket, rounded as the code rounds it.\<close>

definition gain64 :: "nat \<Rightarrow> nat \<Rightarrow> rat" where
  "gain64 rate n = fl64 (secs64 n * of_nat rate)"

lemma gain64_bounds:
  assumes "reading_ok n" "rate \<le> 100000"
  shows "0 \<le> gain64 rate n" "gain64 rate n \<le> 2 ^ 99"
    and "f64_mul (as_secs_f64 n) (Fin (of_nat rate)) = Fin (gain64 rate n)"
proof -
  have r: "(of_nat rate :: rat) \<le> 100000" using assms(2) by (metis of_nat_le_iff of_nat_numeral)
  have p: "0 \<le> secs64 n * of_nat rate" using secs64_bounds(1) [OF assms(1)] by simp
  have "secs64 n * of_nat rate \<le> 2 ^ 74 * 100000"
    using secs64_bounds [OF assms(1)] r by (intro mult_mono) auto
  then have le: "secs64 n * of_nat rate \<le> 2 ^ 74 * 100000" .
  show "0 \<le> gain64 rate n" unfolding gain64_def by (rule f64.nonneg [OF p])
  show "gain64 rate n \<le> 2 ^ 99" unfolding gain64_def using fl64_le_double [OF p] le by simp
  show "f64_mul (as_secs_f64 n) (Fin (of_nat rate)) = Fin (gain64 rate n)"
    using le f64_of_Fin [OF p] by (simp add: as_secs_f64_Fin assms gain64_def)
qed

lemma secs64_below_second:
  "n < 10 ^ 9 \<Longrightarrow> secs64 n = fl64 (fl64 (of_nat n / 10 ^ 9))"
  by (simp add: secs64_def)

lemma fl64_relative:
  assumes "2 powi (- 64) \<le> x"
  shows "x * (1 - 1 / 2 ^ 53) \<le> fl64 x" "fl64 x \<le> x * (1 + 1 / 2 ^ 53)"
proof -
  have "\<bar>fl64 x - x\<bar> \<le> x * (1 / 2 ^ 53)" using f64.close [OF assms] by (simp add: power_int_minus)
  then show "x * (1 - 1 / 2 ^ 53) \<le> fl64 x" "fl64 x \<le> x * (1 + 1 / 2 ^ 53)"
    unfolding right_diff_distrib distrib_left by linarith+
qed

lemma nanosecond_large: "0 < n \<Longrightarrow> (2::rat) powi (- 64) \<le> of_nat n / 10 ^ 9"
proof -
  assume "0 < n"
  then have "(1::rat) \<le> of_nat n" by simp
  then show ?thesis by (simp add: power_int_minus)
qed

text \<open>More than \<open>1 / rate\<close> seconds are worth a token.\<close>

lemma gain64_ge_1:
  assumes n: "reading_ok n" and r: "1 \<le> rate" and w: "10 ^ 9 < n * rate"
  shows "1 \<le> gain64 rate n"
proof -
  have one: "fl64 1 = 1" using f64.exact_nat [of 1] by simp
  have "1 \<le> secs64 n * of_nat rate"
  proof (cases "n < 10 ^ 9")
    case False
    then have "(1::rat) \<le> of_nat (n div 10 ^ 9)" by (simp add: div_greater_zero_iff Suc_le_eq)
    then have "1 \<le> fl64 (of_nat (n div 10 ^ 9))" using f64.mono [of 1] one by simp
    then have "1 \<le> secs64 n" unfolding secs64_def
      using f64.mono [of 1 "fl64 (of_nat (n div 10 ^ 9)) + fl64 (of_nat (n mod 10 ^ 9) / 10 ^ 9)"] one
        f64.nonneg [OF fraction_bounds(1) [of n]] by simp
    with r mult_mono [of 1 "secs64 n" 1 "of_nat rate :: rat"] show ?thesis by simp
  next
    case True
    from w have pos: "0 < n" by (cases n) auto
    let ?x = "of_nat n / 10 ^ 9 :: rat" and ?c = "1 - 1 / 2 ^ 53 :: rat"
    have x: "2 powi (- 64) \<le> ?x" by (rule nanosecond_large [OF pos])
    have x1: "?x * ?c \<le> fl64 ?x" by (rule fl64_relative(1) [OF x])
    have "1 / 2 ^ 30 \<le> ?x" using pos by simp
    with x1 have "2 powi (- 64) \<le> fl64 ?x" by (simp add: power_int_minus)
    from fl64_relative(1) [OF this] have "fl64 ?x * ?c \<le> secs64 n" unfolding secs64_below_second [OF True] .
    moreover have "?x * ?c * ?c \<le> fl64 ?x * ?c" using x1 by (intro mult_right_mono) auto
    ultimately have "?x * ?c * ?c \<le> secs64 n" by linarith
    then have "?x * ?c * ?c * of_nat rate \<le> secs64 n * of_nat rate" by (intro mult_right_mono) auto
    moreover have "(10 ^ 9 + 1 :: rat) \<le> of_nat (n * rate)"
      using w by (metis Suc_eq_plus1 Suc_leI of_nat_Suc of_nat_le_iff of_nat_numeral of_nat_power add.commute)
    then have "1 \<le> of_nat (n * rate) / 10 ^ 9 * (?c * ?c)" by simp
    ultimately show ?thesis by (simp add: algebra_simps)
  qed
  from f64.mono [OF _ this] one show ?thesis by (simp add: gain64_def)
qed

lemma whole_and_fraction: "(of_nat n :: rat) / 10 ^ 9 = of_nat (n div 10 ^ 9) + of_nat (n mod 10 ^ 9) / 10 ^ 9"
proof -
  have "(of_nat n :: rat) = of_nat (n div d) * of_nat d + of_nat (n mod d)" for d
    by (metis div_mult_mod_eq of_nat_add of_nat_mult)
  from this [of "10 ^ 9"] show ?thesis by (simp add: add_divide_distrib)
qed

lemma exact_seconds: "n < 2 ^ 32 * 10 ^ 9 \<Longrightarrow> fl64 (of_nat (n div 10 ^ 9)) = of_nat (n div 10 ^ 9)"
  by (rule f64.exact_nat) (simp add: div_less_iff_less_mult)

lemma secs64_upper:
  assumes "n < 2 ^ 32 * 10 ^ 9"
  shows "secs64 n \<le> of_nat n / 10 ^ 9 * (1 + 1 / 2 ^ 53) * (1 + 1 / 2 ^ 53)"
proof (cases "n = 0")
  case True
  then show ?thesis by (simp add: secs64_def)
next
  case False
  let ?q = "of_nat (n div 10 ^ 9) :: rat" and ?m = "of_nat (n mod 10 ^ 9) / 10 ^ 9 :: rat" and ?c = "1 + 1 / 2 ^ 53 :: rat"
  let ?y = "of_nat n / 10 ^ 9 * ?c"
  have "fl64 ?m \<le> ?m * ?c"
  proof (cases "n mod 10 ^ 9 = 0")
    case True
    then show ?thesis by simp
  next
    case False
    then show ?thesis by (intro fl64_relative(2) nanosecond_large) simp
  qed
  moreover have "?q \<le> ?q * ?c" by (simp add: mult_le_cancel_left1)
  ultimately have "fl64 ?q + fl64 ?m \<le> ?y"
    unfolding exact_seconds [OF assms] whole_and_fraction [of n] distrib_right by (rule add_mono [rotated])
  then have "secs64 n \<le> fl64 ?y" unfolding secs64_def
    by (rule f64.mono [rotated]) (auto intro!: add_nonneg_nonneg f64.nonneg)
  also have "\<dots> \<le> ?y * ?c"
  proof (rule fl64_relative(2))
    have "2 powi (- 64) \<le> (of_nat n / 10 ^ 9 :: rat)" using False by (intro nanosecond_large) simp
    also have "\<dots> \<le> ?y" by (simp add: mult_le_cancel_left1)
    finally show "2 powi (- 64) \<le> ?y" .
  qed
  finally show ?thesis .
qed

text \<open>The time that passes is worth no more tokens than it should be, up to rounding.\<close>

lemma gain64_upper:
  assumes lim: "limits_ok burst rate" and less: "n * rate < burst * 10 ^ 9"
  shows "gain64 rate n \<le> of_nat (n * rate) / 10 ^ 9 + 2 / 2 ^ 33" "gain64 rate n \<le> 2 ^ 19"
proof -
  have "n * 1 \<le> n * rate" using lim by (intro mult_le_mono2) (simp add: limits_ok_def)
  also have "\<dots> < burst * 10 ^ 9" by (rule less)
  also have "\<dots> \<le> 100000 * 10 ^ 9" using lim by (intro mult_le_mono1) (simp add: limits_ok_def)
  finally have n: "n < 2 ^ 32 * 10 ^ 9" by simp
  define g :: rat where "g = of_nat (n * rate) / 10 ^ 9"
  have "(of_nat (n * rate) :: rat) \<le> of_nat (100000 * 10 ^ 9)"
    using less lim by (intro of_nat_mono) (simp add: limits_ok_def)
  then have g: "g \<le> 100000" by (simp add: g_def)
  have "secs64 n * of_nat rate \<le> of_nat n / 10 ^ 9 * (1 + 1 / 2 ^ 53) * (1 + 1 / 2 ^ 53) * of_nat rate"
    by (rule mult_right_mono [OF secs64_upper [OF n]]) simp
  also have "\<dots> = g * ((1 + 1 / 2 ^ 53) * (1 + 1 / 2 ^ 53))" by (simp add: g_def)
  finally have s: "secs64 n * of_nat rate \<le> g + 1 / 2 ^ 33" using g by simp
  have "0 \<le> secs64 n" unfolding secs64_def by (auto intro!: add_nonneg_nonneg f64.nonneg)
  then have "\<bar>gain64 rate n - secs64 n * of_nat rate\<bar> \<le> 1 / 2 ^ 33"
    unfolding gain64_def using s g by (intro fl64_near) simp_all
  with s have le: "gain64 rate n \<le> g + 2 / 2 ^ 33" unfolding abs_le_iff by linarith
  then show "gain64 rate n \<le> of_nat (n * rate) / 10 ^ 9 + 2 / 2 ^ 33" by (simp only: g_def)
  show "gain64 rate n \<le> 2 ^ 19" using le g by (rule order_trans [OF _ order_trans [OF add_right_mono]]) simp
qed

text \<open>The sweep drops exactly what has been idle for five minutes: no rounding reaches the boundary.\<close>

lemma idle_exact:
  assumes "reading_ok n"
  shows "300 \<le> secs64 n \<longleftrightarrow> 300 * 10 ^ 9 \<le> n"
proof
  assume "300 * 10 ^ 9 \<le> n"
  then have "300 \<le> n div 10 ^ 9" by (simp add: less_eq_div_iff_mult_less_eq)
  then have "(300::rat) \<le> of_nat (n div 10 ^ 9)" by (metis of_nat_le_iff of_nat_numeral)
  then have "fl64 300 \<le> fl64 (of_nat (n div 10 ^ 9))" by (rule f64.mono [rotated]) simp
  moreover have e: "fl64 300 = 300" using f64.exact_nat [of 300] by simp
  ultimately have "300 \<le> fl64 (of_nat (n div 10 ^ 9)) + fl64 (of_nat (n mod 10 ^ 9) / 10 ^ 9)"
    using f64.nonneg [OF fraction_bounds(1) [of n]] by linarith
  then have "fl64 300 \<le> secs64 n" unfolding secs64_def by (rule f64.mono [rotated]) simp
  then show "300 \<le> secs64 n" by (simp only: e)
next
  assume le: "300 \<le> secs64 n"
  show "300 * 10 ^ 9 \<le> n"
  proof (rule ccontr)
    assume "\<not> ?thesis"
    then have n: "n < 300 * 10 ^ 9" by simp
    let ?q = "of_nat (n div 10 ^ 9) :: rat" and ?m = "of_nat (n mod 10 ^ 9) / 10 ^ 9 :: rat"
    have q: "fl64 ?q = ?q" using n by (intro exact_seconds) simp
    have "\<bar>fl64 ?m - ?m\<bar> \<le> 1 / 2 ^ 33"
      using fraction_bounds [of n] by (intro fl64_near) (assumption, rule order_trans, assumption, simp)
    moreover have "?q + ?m \<le> 300 - 1 / 10 ^ 9"
    proof -
      have "(of_nat (n + 1) :: rat) \<le> of_nat (300 * 10 ^ 9)" using n by (intro of_nat_mono) simp
      then show ?thesis unfolding whole_and_fraction [of n, symmetric] by simp
    qed
    ultimately have x: "fl64 ?q + fl64 ?m \<le> 300 - 1 / 10 ^ 9 + 1 / 2 ^ 33" unfolding q by (simp only: abs_le_iff) linarith
    have "\<bar>secs64 n - (fl64 ?q + fl64 ?m)\<bar> \<le> 1 / 2 ^ 33" unfolding secs64_def
    proof (rule fl64_near)
      show "0 \<le> fl64 ?q + fl64 ?m" by (auto intro!: add_nonneg_nonneg f64.nonneg)
      show "fl64 ?q + fl64 ?m \<le> 2 ^ 20" by (rule order_trans [OF x]) simp
    qed
    with x le show False by (simp add: abs_le_iff)
  qed
qed

section \<open>One bucket\<close>

definition bucket_holds :: "nat \<Rightarrow> bucket \<Rightarrow> rat \<Rightarrow> bool" where
  "bucket_holds burst b t \<longleftrightarrow> bk_tokens b = Fin t \<and> 0 \<le> t \<and> t \<le> of_nat burst"

definition refilled :: "nat \<Rightarrow> nat \<Rightarrow> nat \<Rightarrow> rat \<Rightarrow> rat" where
  "refilled burst rate n t = min (fl64 (t + gain64 rate n)) (of_nat burst)"

lemma burst_bound: "limits_ok burst rate \<Longrightarrow> (1::rat) \<le> of_nat burst \<and> (of_nat burst :: rat) \<le> 100000"
  unfolding limits_ok_def by (metis of_nat_1 of_nat_le_iff of_nat_numeral)

lemma exact_burst: "limits_ok burst rate \<Longrightarrow> fl64 (of_nat burst) = of_nat burst"
  by (rule f64.exact_nat) (simp add: limits_ok_def)

lemma reading_ok_diff: "reading_ok n \<Longrightarrow> reading_ok (n - m)"
  by (simp add: reading_ok_def)

lemma refill_holds:
  assumes lim: "limits_ok burst rate" and now: "reading_ok now" and b: "bucket_holds burst b t"
  shows "refill (Fin (of_nat burst)) (Fin (of_nat rate)) now b =
      \<lparr>bk_tokens = Fin (refilled burst rate (now - bk_last_refill b) t), bk_last_refill = now\<rparr>"
    and "0 \<le> refilled burst rate n t" and "refilled burst rate n t \<le> of_nat burst"
proof -
  let ?n = "now - bk_last_refill b"
  note n = reading_ok_diff [OF now, of "bk_last_refill b"]
  have t: "0 \<le> t" "t \<le> 100000" using b burst_bound [OF lim] by (auto simp: bucket_holds_def)
  have rate: "rate \<le> 100000" using lim by (simp add: limits_ok_def)
  note g = gain64_bounds [OF n rate]
  have sum: "0 \<le> t + gain64 rate ?n" "t + gain64 rate ?n \<le> 2 ^ 100" using t g by simp_all
  have "f64_of (t + gain64 rate ?n) = Fin (fl64 (t + gain64 rate ?n))" by (rule f64_of_Fin [OF sum])
  then show "refill (Fin (of_nat burst)) (Fin (of_nat rate)) now b =
      \<lparr>bk_tokens = Fin (refilled burst rate ?n t), bk_last_refill = now\<rparr>"
    using b by (simp add: refill_def bucket_holds_def g(3) float_min_def refilled_def min_def Let_def)
  have "0 \<le> secs64 n" for n unfolding secs64_def by (auto intro!: add_nonneg_nonneg f64.nonneg)
  then have "0 \<le> gain64 rate n" unfolding gain64_def by (intro f64.nonneg) simp
  with t show "0 \<le> refilled burst rate n t" by (simp add: refilled_def f64.nonneg)
  show "refilled burst rate n t \<le> of_nat burst" by (simp add: refilled_def)
qed

lemma refilled_serves:
  assumes "limits_ok burst rate" "reading_ok n" "0 \<le> t" "10 ^ 9 < n * rate"
  shows "1 \<le> refilled burst rate n t"
proof -
  have "1 \<le> t + gain64 rate n" using gain64_ge_1 assms by (simp add: limits_ok_def add_increasing)
  then have "fl64 1 \<le> fl64 (t + gain64 rate n)" by (rule f64.mono [rotated]) simp
  then show ?thesis using f64.exact_nat [of 1] burst_bound [OF assms(1)] by (simp add: refilled_def)
qed

lemma refilled_upper:
  assumes lim: "limits_ok burst rate" and t: "0 \<le> t" "t \<le> of_nat burst"
  shows "refilled burst rate n t \<le> t + of_nat (n * rate) / 10 ^ 9 + 3 / 2 ^ 33"
proof (cases "n * rate < burst * 10 ^ 9")
  case False
  then have "(of_nat (burst * 10 ^ 9) :: rat) \<le> of_nat (n * rate)" by (intro of_nat_mono) simp
  then have "(of_nat burst :: rat) \<le> of_nat (n * rate) / 10 ^ 9" by simp
  moreover have "refilled burst rate n t \<le> of_nat burst" by (simp add: refilled_def)
  ultimately show ?thesis using t(1) by simp
next
  case True
  note up = gain64_upper [OF lim True]
  have "0 \<le> secs64 n" unfolding secs64_def by (auto intro!: add_nonneg_nonneg f64.nonneg)
  then have g: "0 \<le> gain64 rate n" unfolding gain64_def by (intro f64.nonneg) simp
  have "t + gain64 rate n \<le> 2 ^ 20" using t burst_bound [OF lim] up(2) by simp
  then have "\<bar>fl64 (t + gain64 rate n) - (t + gain64 rate n)\<bar> \<le> 1 / 2 ^ 33"
    using t g by (intro fl64_near) simp_all
  moreover have "refilled burst rate n t \<le> fl64 (t + gain64 rate n)" by (simp add: refilled_def)
  ultimately show ?thesis using up(1) unfolding abs_le_iff by linarith
qed

text \<open>After five idle minutes a bucket whose burst the rate can fill in that time is full.\<close>

lemma idle_bucket_full:
  assumes lim: "limits_ok burst rate" and small: "burst \<le> 300 * rate" and n: "reading_ok n" "300 * 10 ^ 9 \<le> n"
    and t: "0 \<le> t"
  shows "refilled burst rate n t = of_nat burst"
proof -
  have "300 \<le> secs64 n" using idle_exact [OF n(1)] n(2) by simp
  then have "300 * of_nat rate \<le> secs64 n * of_nat rate" by (rule mult_right_mono) simp
  moreover have "(of_nat burst :: rat) \<le> 300 * of_nat rate"
    using small by (metis of_nat_le_iff of_nat_mult of_nat_numeral)
  ultimately have "fl64 (of_nat burst) \<le> gain64 rate n" unfolding gain64_def by (intro f64.mono) simp_all
  then have "of_nat burst \<le> t + gain64 rate n" using t exact_burst [OF lim] by simp
  then have "fl64 (of_nat burst) \<le> fl64 (t + gain64 rate n)" by (rule f64.mono [rotated]) simp
  then show ?thesis using exact_burst [OF lim] by (simp add: refilled_def)
qed

lemma full_bucket: "limits_ok burst rate \<Longrightarrow> refilled burst rate 0 (of_nat burst) = of_nat burst"
  using exact_burst by (auto simp: refilled_def gain64_def secs64_def)

lemma take_token_holds:
  fixes now :: nat
  assumes lim: "limits_ok burst rate" and t: "0 \<le> t" "t \<le> of_nat burst"
  defines "b \<equiv> \<lparr>bk_tokens = Fin t, bk_last_refill = now\<rparr>"
  shows "fst (take_token b) \<longleftrightarrow> 1 \<le> t"
    and "\<exists>t'. bucket_holds burst (snd (take_token b)) t' \<and>
      t' + of_bool (fst (take_token b)) \<le> t + 1 / 2 ^ 33"
    and "bk_last_refill (snd (take_token b)) = now"
proof -
  show "fst (take_token b) \<longleftrightarrow> 1 \<le> t" by (simp add: take_token_def b_def)
  show "bk_last_refill (snd (take_token b)) = now" by (simp add: take_token_def b_def)
  show "\<exists>t'. bucket_holds burst (snd (take_token b)) t' \<and> t' + of_bool (fst (take_token b)) \<le> t + 1 / 2 ^ 33"
  proof (cases "1 \<le> t")
    case False
    then show ?thesis using t by (simp add: take_token_def b_def bucket_holds_def)
  next
    case True
    have le: "t - 1 \<le> 2 ^ 20" using t burst_bound [OF lim] by simp
    have "f64_sub (Fin t) (Fin 1) = Fin (fl64 (t - 1))"
      using f64_of_Fin [of "t - 1"] True le by (simp add: f64_sub_def)
    moreover have "\<bar>fl64 (t - 1) - (t - 1)\<bar> \<le> 1 / 2 ^ 33" using True le by (intro fl64_near) simp_all
    then have "fl64 (t - 1) + 1 \<le> t + 1 / 2 ^ 33" unfolding abs_le_iff by linarith
    moreover have "fl64 (t - 1) \<le> fl64 (of_nat burst)" using True t by (intro f64.mono) simp_all
    ultimately show ?thesis
      using True exact_burst [OF lim] f64.nonneg [of "t - 1"] by (simp add: take_token_def b_def bucket_holds_def)
  qed
qed

section \<open>One client\<close>

lemma client_step_None:
  "client_step burst rate now None = client_step burst rate now (Some \<lparr>bk_tokens = burst, bk_last_refill = now\<rparr>)"
  by (simp add: client_step_def)

lemma full_holds: "bucket_holds burst \<lparr>bk_tokens = Fin (of_nat burst), bk_last_refill = now\<rparr> (of_nat burst)"
  by (simp add: bucket_holds_def)

lemma client_step_holds:
  assumes lim: "limits_ok burst rate" and now: "reading_ok now" and b: "bucket_holds burst b t"
  defines "cs \<equiv> client_step (Fin (of_nat burst)) (Fin (of_nat rate)) now (Some b)"
  shows "\<exists>t'. bucket_holds burst (snd cs) t' \<and>
      t' + of_bool (fst cs) \<le> t + of_nat ((now - bk_last_refill b) * rate) / 10 ^ 9 + 4 / 2 ^ 33"
    and "bk_last_refill (snd cs) = now"
    and "10 ^ 9 < (now - bk_last_refill b) * rate \<Longrightarrow> fst cs"
proof -
  let ?t = "refilled burst rate (now - bk_last_refill b) t"
  have t: "0 \<le> t" "t \<le> of_nat burst" using b by (auto simp: bucket_holds_def)
  note r = refill_holds [OF lim now b]
  have cs: "cs = take_token \<lparr>bk_tokens = Fin ?t, bk_last_refill = now\<rparr>" by (simp add: cs_def client_step_def r(1))
  note take = take_token_holds [OF lim r(2) r(3), of "now - bk_last_refill b" now, folded cs]
  show "\<exists>t'. bucket_holds burst (snd cs) t' \<and>
      t' + of_bool (fst cs) \<le> t + of_nat ((now - bk_last_refill b) * rate) / 10 ^ 9 + 4 / 2 ^ 33"
    using take(2) refilled_upper [OF lim t, of "now - bk_last_refill b"]
    by (elim exE conjE) (rule exI, rule conjI, assumption, linarith)
  show "bk_last_refill (snd cs) = now" by (rule take(3))
  show "fst cs" if "10 ^ 9 < (now - bk_last_refill b) * rate"
    using take(1) refilled_serves [OF lim reading_ok_diff [OF now] t(1) that] by simp
qed

text \<open>Elapsed times add up along readings that do not go back.\<close>

lemma allowance_step:
  "(c::rat) \<le> t' + e2 + k * x \<Longrightarrow> t' + s \<le> t + e1 + x \<Longrightarrow> e1 + e2 = e \<Longrightarrow> s + c \<le> t + e + (1 + k) * x"
  by (simp add: algebra_simps)

lemma client_run_bound:
  assumes lim: "limits_ok burst rate"
  shows "bucket_holds burst b t \<Longrightarrow> sorted (bk_last_refill b # nows) \<Longrightarrow> \<forall>n\<in>set nows. reading_ok n \<Longrightarrow>
    of_nat (count_list (client_run (Fin (of_nat burst)) (Fin (of_nat rate)) (Some b) nows) True) \<le>
      t + of_nat ((last (bk_last_refill b # nows) - bk_last_refill b) * rate) / 10 ^ 9 + of_nat (length nows) * (4 / 2 ^ 33)"
proof (induction nows arbitrary: b t)
  case Nil
  then show ?case by (simp add: bucket_holds_def)
next
  case (Cons now nows)
  let ?cs = "client_step (Fin (of_nat burst)) (Fin (of_nat rate)) now (Some b)"
  let ?l = "bk_last_refill b" and ?fin = "last (now # nows)"
  have now: "reading_ok now" and le: "?l \<le> now" "now \<le> ?fin"
    using Cons.prems by (auto simp: sorted_append)
  obtain t' where t': "bucket_holds burst (snd ?cs) t'"
    "t' + of_bool (fst ?cs) \<le> t + of_nat ((now - ?l) * rate) / 10 ^ 9 + 4 / 2 ^ 33"
    using client_step_holds(1) [OF lim now Cons.prems(1)] by blast
  have last: "bk_last_refill (snd ?cs) = now" by (rule client_step_holds(2) [OF lim now Cons.prems(1)])
  have rest: "of_nat (count_list (client_run (Fin (of_nat burst)) (Fin (of_nat rate)) (Some (snd ?cs)) nows) True) \<le>
      t' + of_nat ((?fin - now) * rate) / 10 ^ 9 + of_nat (length nows) * (4 / 2 ^ 33)"
    using Cons.IH [OF t'(1)] Cons.prems last by simp
  have "(now - ?l) * rate + (?fin - now) * rate = (?fin - ?l) * rate"
    using le by (simp add: add_mult_distrib [symmetric])
  then have time: "of_nat ((now - ?l) * rate) / 10 ^ 9 + of_nat ((?fin - now) * rate) / 10 ^ 9 =
      (of_nat ((?fin - ?l) * rate) / 10 ^ 9 :: rat)"
    by (simp only: add_divide_distrib [symmetric] of_nat_add [symmetric])
  have "count_list (client_run (Fin (of_nat burst)) (Fin (of_nat rate)) (Some b) (now # nows)) True =
      of_bool (fst ?cs) + count_list (client_run (Fin (of_nat burst)) (Fin (of_nat rate)) (Some (snd ?cs)) nows) True"
    by (simp add: case_prod_beta Let_def)
  then have count: "(of_nat (count_list (client_run (Fin (of_nat burst)) (Fin (of_nat rate)) (Some b) (now # nows)) True) :: rat) =
      of_bool (fst ?cs) + of_nat (count_list (client_run (Fin (of_nat burst)) (Fin (of_nat rate)) (Some (snd ?cs)) nows) True)"
    by (simp only: of_nat_add of_nat_of_bool)
  have "(of_nat (length (now # nows)) :: rat) = 1 + of_nat (length nows)"
    and "last (?l # now # nows) = ?fin" by simp_all
  then show ?case unfolding count by (simp only: allowance_step [OF rest t'(2) time])
qed

section \<open>The limiter and its buckets\<close>

text \<open>
  The simulation: a shard holds the bucket its client has in the contract, or has dropped it
  after five idle minutes.
\<close>

definition stored_as :: "nat \<Rightarrow> nat \<Rightarrow> bucket option \<Rightarrow> bucket option \<Rightarrow> bool" where
  "stored_as burst now own stored \<longleftrightarrow>
     (case own of
        None \<Rightarrow> stored = None
      | Some b \<Rightarrow> (\<exists>t. bucket_holds burst b t) \<and> bk_last_refill b \<le> now \<and>
          (stored = Some b \<or> stored = None \<and> 300 * 10 ^ 9 \<le> now - bk_last_refill b))"

definition tracks :: "nat \<Rightarrow> nat \<Rightarrow> (ip_addr \<Rightarrow> u64) \<Rightarrow> nat \<Rightarrow> limiter \<Rightarrow> (ip_addr \<Rightarrow> bucket option) \<Rightarrow> bool" where
  "tracks burst rate hash now lmt G \<longleftrightarrow>
     lim_burst lmt = Fin (of_nat burst) \<and> lim_rate lmt = Fin (of_nat rate) \<and>
     length (lim_shards lmt) = NUM_SHARDS \<and> (\<forall>s\<in>set (lim_shards lmt). distinct (map fst s)) \<and>
     (\<forall>ip. stored_as burst now (G ip) (map_of (lim_shards lmt ! shard_index hash ip) ip))"

lemma shard_index_less: "shard_index hash ip < NUM_SHARDS"
  using word_and_le1 [of "hash ip" 15] by (simp add: shard_index_def NUM_SHARDS_def word_le_nat_alt)

lemma stored_as_later: "stored_as burst before own stored \<Longrightarrow> before \<le> now \<Longrightarrow> stored_as burst now own stored"
  by (auto simp: stored_as_def split: option.splits)

lemma stored_as_None: "stored_as burst now None stored \<longleftrightarrow> stored = None"
  by (simp add: stored_as_def)

lemma stored_as_Some: "stored_as burst now (Some b) stored \<longleftrightarrow>
    (\<exists>t. bucket_holds burst b t) \<and> bk_last_refill b \<le> now \<and>
    (stored = Some b \<or> stored = None \<and> 300 * 10 ^ 9 \<le> now - bk_last_refill b)"
  by (simp add: stored_as_def)

lemma map_of_filter_value:
  "distinct (map fst xs) \<Longrightarrow>
   map_of (filter (\<lambda>(_, v). P v) xs) k = (case map_of xs k of Some v \<Rightarrow> if P v then Some v else None | None \<Rightarrow> None)"
  by (induction xs) (auto split: option.splits dest: map_of_SomeD simp: rev_image_eqI)

lemma cleanup_drops_idle:
  assumes "distinct (map fst s)" "map_of s ip = Some b" "reading_ok now"
  shows "map_of (cleanup now s) ip = Some b \<or>
    map_of (cleanup now s) ip = None \<and> 300 * 10 ^ 9 \<le> now - bk_last_refill b"
proof -
  have "\<not> float_lt (as_secs_f64 (now - bk_last_refill b)) CLEANUP_IDLE_SECS \<Longrightarrow> 300 * 10 ^ 9 \<le> now - bk_last_refill b"
    using idle_exact [OF reading_ok_diff [OF assms(3)], of "bk_last_refill b"]
    by (auto simp: as_secs_f64_Fin reading_ok_diff assms(3) CLEANUP_IDLE_SECS_def float_lt_def not_le not_less)
  then show ?thesis using assms by (auto simp: cleanup_def map_of_filter_value)
qed

lemma cleanup_None: "map_of s ip = None \<Longrightarrow> map_of (cleanup now s) ip = None"
  by (auto simp: cleanup_def map_of_eq_None_iff)

lemma distinct_cleanup: "distinct (map fst s) \<Longrightarrow> distinct (map fst (cleanup now s))"
  by (simp add: cleanup_def distinct_map_filter)

text \<open>A full bucket and one that was idle long enough become the same bucket.\<close>

lemma dropped_bucket_step:
  assumes lim: "limits_ok burst rate" and small: "burst \<le> 300 * rate" and now: "reading_ok now"
    and b: "bucket_holds burst b t" and idle: "300 * 10 ^ 9 \<le> now - bk_last_refill b"
  shows "client_step (Fin (of_nat burst)) (Fin (of_nat rate)) now (Some b) =
    client_step (Fin (of_nat burst)) (Fin (of_nat rate)) now None"
proof -
  have "0 \<le> t" using b by (simp add: bucket_holds_def)
  then have "refilled burst rate (now - bk_last_refill b) t = of_nat burst"
    by (rule idle_bucket_full [OF lim small reading_ok_diff [OF now] idle])
  then show ?thesis
    unfolding client_step_None
    using refill_holds(1) [OF lim now b] refill_holds(1) [OF lim now full_holds, of now] full_bucket [OF lim]
    by (simp add: client_step_def)
qed

lemma check_is_client_step:
  "check hash now ip lmt =
     (let idx = shard_index hash ip; shard = cleanup now (lim_shards lmt ! idx);
          (allowed, b) = client_step (lim_burst lmt) (lim_rate lmt) now (map_of shard ip)
      in (allowed, lmt\<lparr>lim_shards := (lim_shards lmt)[idx := AList.update ip b shard]\<rparr>))"
  by (simp add: check_def client_step_def Let_def)

lemma stored_after_sweep:
  assumes "stored_as burst now own (map_of s ip)" "distinct (map fst s)" "reading_ok now"
  shows "stored_as burst now own (map_of (cleanup now s) ip)"
proof (cases own)
  case None
  with assms(1) show ?thesis by (simp add: stored_as_None cleanup_None)
next
  case (Some b)
  show ?thesis
  proof (cases "map_of s ip")
    case None
    with assms(1) Some show ?thesis by (simp add: stored_as_Some cleanup_None)
  next
    case (Some b')
    with cleanup_drops_idle [OF assms(2) Some assms(3)] assms(1) \<open>own = Some b\<close> show ?thesis
      by (auto simp: stored_as_Some)
  qed
qed

lemma client_step_ok:
  assumes lim: "limits_ok burst rate" and now: "reading_ok now" and b: "\<And>b. ob = Some b \<Longrightarrow> \<exists>t. bucket_holds burst b t"
  defines "cs \<equiv> client_step (Fin (of_nat burst)) (Fin (of_nat rate)) now ob"
  shows "\<exists>t. bucket_holds burst (snd cs) t" "bk_last_refill (snd cs) = now"
proof -
  obtain c t where c: "cs = client_step (Fin (of_nat burst)) (Fin (of_nat rate)) now (Some c)" "bucket_holds burst c t"
    using b full_holds [of burst now] by (cases ob) (auto simp: cs_def client_step_None)
  show "\<exists>t. bucket_holds burst (snd cs) t" "bk_last_refill (snd cs) = now"
    unfolding c(1) using client_step_holds [OF lim now c(2)] by auto
qed

definition swept_bucket :: "(ip_addr \<Rightarrow> u64) \<Rightarrow> nat \<Rightarrow> ip_addr \<Rightarrow> limiter \<Rightarrow> bucket option" where
  "swept_bucket hash now ip lmt = map_of (cleanup now (lim_shards lmt ! shard_index hash ip)) ip"

lemma check_tracks:
  fixes ip :: ip_addr
  assumes lim: "limits_ok burst rate" and now: "reading_ok now"
    and G: "tracks burst rate hash before lmt G" and le: "before \<le> now"
  defines "ob \<equiv> swept_bucket hash now ip lmt"
  defines "cs \<equiv> client_step (Fin (of_nat burst)) (Fin (of_nat rate)) now ob"
  shows "fst (check hash now ip lmt) = fst cs"
    and "tracks burst rate hash now (snd (check hash now ip lmt)) (G(ip \<mapsto> snd cs))"
    and "ob = G ip \<or> ob = None \<and> (\<exists>b. G ip = Some b \<and> 300 * 10 ^ 9 \<le> now - bk_last_refill b)"
proof -
  let ?idx = "shard_index hash ip" and ?shards = "lim_shards lmt"
  let ?s = "cleanup now (?shards ! ?idx)"
  have rates: "lim_burst lmt = Fin (of_nat burst)" "lim_rate lmt = Fin (of_nat rate)"
    and len: "length ?shards = NUM_SHARDS" and dist: "\<And>s. s \<in> set ?shards \<Longrightarrow> distinct (map fst s)"
    and stored: "\<And>a. stored_as burst now (G a) (map_of (?shards ! shard_index hash a) a)"
    using G stored_as_later [OF _ le] by (auto simp: tracks_def)
  have idx: "?idx < length ?shards" by (simp add: len shard_index_less)
  note d = dist [OF nth_mem [OF idx]]
  have swept: "shard_index hash a = ?idx \<Longrightarrow> stored_as burst now (G a) (map_of ?s a)" for a
    using stored_after_sweep [OF _ d now, of burst "G a" a] stored [of a] by simp
  have ob: "ob = map_of ?s ip" by (simp add: ob_def swept_bucket_def)
  show kept: "ob = G ip \<or> ob = None \<and> (\<exists>b. G ip = Some b \<and> 300 * 10 ^ 9 \<le> now - bk_last_refill b)"
    using swept [of ip] unfolding ob by (cases "G ip") (auto simp: stored_as_None stored_as_Some)
  have "\<And>b. G ip = Some b \<Longrightarrow> \<exists>t. bucket_holds burst b t" using stored [of ip] by (auto simp: stored_as_Some)
  with kept have ok: "\<And>b. ob = Some b \<Longrightarrow> \<exists>t. bucket_holds burst b t" by auto
  have check: "check hash now ip lmt =
      (fst cs, lmt\<lparr>lim_shards := ?shards[?idx := AList.update ip (snd cs) ?s]\<rparr>)"
    by (simp add: check_is_client_step rates Let_def case_prod_beta cs_def ob)
  then show "fst (check hash now ip lmt) = fst cs" by simp
  have cs: "\<exists>t. bucket_holds burst (snd cs) t" "bk_last_refill (snd cs) = now"
    unfolding cs_def by (rule client_step_ok [OF lim now ok], assumption)+
  have "stored_as burst now ((G(ip \<mapsto> snd cs)) a)
      (map_of (?shards[?idx := AList.update ip (snd cs) ?s] ! shard_index hash a) a)" for a
    using cs stored [of a] swept [of a] idx by (auto simp: update_conv' stored_as_Some nth_list_update)
  moreover have "distinct (map fst s)" if "s \<in> set (?shards[?idx := AList.update ip (snd cs) ?s])" for s
    using that dist set_update_subset_insert [of ?shards ?idx] distinct_update [OF distinct_cleanup [OF d]] by blast
  ultimately show "tracks burst rate hash now (snd (check hash now ip lmt)) (G(ip \<mapsto> snd cs))"
    using rates len unfolding check tracks_def by simp
qed

lemma tracks_new: "tracks burst rate hash 0 (new_limiter (Fin (of_nat rate)) (Fin (of_nat burst))) (\<lambda>_. None)"
  using shard_index_less [of hash] by (auto simp: tracks_def new_limiter_def stored_as_None)

lemma run_tracks:
  assumes lim: "limits_ok burst rate"
  shows "tracks burst rate hash before lmt G \<Longrightarrow> sorted (before # map fst reqs) \<Longrightarrow>
    \<forall>(now, _)\<in>set reqs. reading_ok now \<Longrightarrow>
    client_answers (Fin (of_nat burst)) (Fin (of_nat rate)) (G ip) (readings_of ip reqs)
      (answers_to ip reqs (fst (run_checks hash reqs lmt)))"
proof (induction reqs arbitrary: before lmt G)
  case Nil
  then show ?case by (simp add: answers_to_def readings_of_def client_answers_Nil)
next
  case (Cons req reqs)
  obtain now a where req: "req = (now, a)" by (cases req)
  have now: "reading_ok now" "before \<le> now" using Cons.prems req by auto
  note step = check_tracks [OF lim now(1) Cons.prems(1) now(2), of a]
  let ?cs = "client_step (Fin (of_nat burst)) (Fin (of_nat rate)) now (swept_bucket hash now a lmt)"
  have rest: "client_answers (Fin (of_nat burst)) (Fin (of_nat rate)) ((G(a \<mapsto> snd ?cs)) ip) (readings_of ip reqs)
      (answers_to ip reqs (fst (run_checks hash reqs (snd (check hash now a lmt)))))"
    using Cons.IH [OF step(2)] Cons.prems req by auto
  have run: "fst (run_checks hash ((now, a) # reqs) lmt) =
      fst (check hash now a lmt) # fst (run_checks hash reqs (snd (check hash now a lmt)))"
    by (simp add: case_prod_beta Let_def)
  show ?case
  proof (cases "a = ip")
    case True
    have "client_answers (Fin (of_nat burst)) (Fin (of_nat rate)) (G ip) (now # readings_of ip reqs)
        (fst ?cs # answers_to ip reqs (fst (run_checks hash reqs (snd (check hash now a lmt)))))"
      using step(3)
    proof (elim disjE conjE exE)
      assume "swept_bucket hash now a lmt = G a"
      with rest True show ?thesis by (intro client_answers.kept [where b = "snd ?cs"]) simp_all
    next
      fix b
      assume "swept_bucket hash now a lmt = None" "G a = Some b" "300 * 10 ^ 9 \<le> now - bk_last_refill b"
      with rest True have "client_answers (Fin (of_nat burst)) (Fin (of_nat rate)) (Some b) (now # readings_of ip reqs)
          (fst ?cs # answers_to ip reqs (fst (run_checks hash reqs (snd (check hash now a lmt)))))"
        by (intro client_answers.dropped [where b = "snd ?cs"]) simp_all
      with True \<open>G a = Some b\<close> show ?thesis by simp
    qed
    then show ?thesis using step(1) True
      by (simp add: req run [unfolded True] answers_to_def readings_of_def del: run_checks.simps)
  next
    case False
    then show ?thesis using rest by (simp add: req run answers_to_def readings_of_def del: run_checks.simps)
  qed
qed

lemma limiter_answers:
  assumes "limits_ok burst rate" "sorted (map fst reqs)" "\<forall>(now, _)\<in>set reqs. reading_ok now"
  shows "client_answers (Fin (of_nat burst)) (Fin (of_nat rate)) None (readings_of ip reqs)
    (answers_to ip reqs (fst (run_checks hash reqs (new_limiter (Fin (of_nat rate)) (Fin (of_nat burst))))))"
  using run_tracks [OF assms(1) tracks_new _ assms(3)] assms(2) by simp

text \<open>Where the rate refills the burst in five minutes, a dropped bucket makes no difference.\<close>

lemma client_answers_run:
  assumes lim: "limits_ok burst rate" and small: "burst \<le> 300 * rate"
  shows "client_answers (Fin (of_nat burst)) (Fin (of_nat rate)) ob nows answers \<Longrightarrow>
    (\<And>b. ob = Some b \<Longrightarrow> \<exists>t. bucket_holds burst b t) \<Longrightarrow> \<forall>n\<in>set nows. reading_ok n \<Longrightarrow>
    answers = client_run (Fin (of_nat burst)) (Fin (of_nat rate)) ob nows"
proof (induction rule: client_answers.induct)
  case (kept now ob a b nows as)
  have "reading_ok now" using kept.prems by simp
  from client_step_ok(1) [OF lim this, of ob] kept show ?case by simp
next
  case (dropped now b\<^sub>0 a b nows as)
  have now: "reading_ok now" using dropped.prems by simp
  obtain t where t: "bucket_holds burst b\<^sub>0 t" using dropped.prems by blast
  show ?case using dropped client_step_ok(1) [OF lim now, of None]
    by (simp add: dropped_bucket_step [OF lim small now t dropped.hyps(1)])
qed simp

text \<open>Two clients of one shard at one request a second; the second one takes a token in between.\<close>

definition sample_client :: ip_addr where
  "sample_client = V4 (Ipv4 192 0 2 1)"

definition sample_requests :: "(nat \<times> ip_addr) list" where
  "sample_requests = [(0, sample_client), (400000000000, V4 (Ipv4 192 0 2 2))]"

lemma sample_requests_ok:
  "limits_ok 1 1" "sorted (map fst (sample_requests @ [(500000000000, sample_client)]))"
  "\<forall>(now, _)\<in>set (sample_requests @ [(500000000000, sample_client)]). reading_ok now"
  "readings_of sample_client sample_requests = [0]"
  by (simp_all add: limits_ok_def sample_requests_def sample_client_def reading_ok_def readings_of_def)

section \<open>What a client is granted\<close>

lemma readings_of_ok:
  assumes "sorted (map fst reqs)" "\<forall>(now, _)\<in>set reqs. reading_ok now"
  shows "sorted (readings_of ip reqs)" "\<forall>n\<in>set (readings_of ip reqs). reading_ok n"
  using assms by (auto simp: readings_of_def sorted_map sorted_wrt_filter)

text \<open>What one client of a new limiter is answered in a run.\<close>

abbreviation limiter_answers_to :: "nat \<Rightarrow> nat \<Rightarrow> (ip_addr \<Rightarrow> u64) \<Rightarrow> (nat \<times> ip_addr) list \<Rightarrow> ip_addr \<Rightarrow> bool list" where
  "limiter_answers_to burst rate hash reqs ip \<equiv>
     answers_to ip reqs (fst (run_checks hash reqs (new_limiter (Fin (of_nat rate)) (Fin (of_nat burst)))))"

lemma limiter_answers_run:
  assumes "limits_ok burst rate" "burst \<le> 300 * rate" "sorted (map fst reqs)" "\<forall>(now, _)\<in>set reqs. reading_ok now"
  shows "limiter_answers_to burst rate hash reqs ip =
    client_run (Fin (of_nat burst)) (Fin (of_nat rate)) None (readings_of ip reqs)"
  by (rule client_answers_run [OF assms(1,2) limiter_answers [OF assms(1,3,4)]])
    (use readings_of_ok [OF assms(3,4)] in simp_all)

text \<open>
  C26. For every burst and rate the configuration admits, and requests that reach the limiter
  with clock readings that do not go back: the answers to each client, whatever the others ask
  and however their addresses hash, are those of one bucket that it alone uses and that may be
  lost only where the client had not asked for five minutes. Where the rate refills the burst
  in those five minutes not even that can be observed: the answers are those of one bucket that
  is never dropped.
\<close>

theorem limiter_is_one_bucket_each:
  assumes "limits_ok burst rate" and "sorted (map fst reqs)" "\<forall>(now, _)\<in>set reqs. reading_ok now"
  shows "client_answers (Fin (of_nat burst)) (Fin (of_nat rate)) None (readings_of ip reqs)
      (limiter_answers_to burst rate hash reqs ip) \<and>
    (burst \<le> 300 * rate \<longrightarrow> limiter_answers_to burst rate hash reqs ip =
      client_run (Fin (of_nat burst)) (Fin (of_nat rate)) None (readings_of ip reqs))"
  using limiter_answers [OF assms] limiter_answers_run [OF assms(1) _ assms(2,3)] by blast

theorem limiter_is_one_bucket_each_witness:
  "answers_to sample_client sample_requests
     (fst (run_checks (\<lambda>_. 0) sample_requests (new_limiter (Fin (of_nat 1)) (Fin (of_nat 1))))) =
   client_run (Fin (of_nat 1)) (Fin (of_nat 1)) None [0]"
  using limiter_is_one_bucket_each [of 1 1 sample_requests sample_client "\<lambda>_. 0"] sample_requests_ok
  by (simp add: sorted_append)

text \<open>The pauses of a client: the gaps of five minutes and more between two of its readings.\<close>

fun pauses :: "nat \<Rightarrow> nat list \<Rightarrow> nat" where
  "pauses before [] = 0"
| "pauses before (now # nows) = of_bool (300 * 10 ^ 9 \<le> now - before) + pauses now nows"

lemma pauses_start: "pauses first (first # later) = pauses first later"
  by simp

lemma kept_step:
  "(c::rat) \<le> (t' + p) + e2 + k * x \<Longrightarrow> t' + s \<le> t + e1 + x \<Longrightarrow> e1 + e2 = e \<Longrightarrow> p \<le> p' \<Longrightarrow>
   s + c \<le> (t + p') + e + (1 + k) * x"
  by (simp add: algebra_simps)

lemma dropped_step:
  "(c::rat) \<le> (t' + p) + e2 + k * x \<Longrightarrow> t' + s \<le> full + x \<Longrightarrow> e1 + e2 = e \<Longrightarrow> p' = full + p \<Longrightarrow> 0 \<le> t \<Longrightarrow> 0 \<le> e1 \<Longrightarrow>
   s + c \<le> (t + p') + e + (1 + k) * x"
  by (simp add: algebra_simps)

lemma count_Cons_True: "(of_nat (count_list (a # as) True) :: rat) = of_bool a + of_nat (count_list as True)"
  by simp

lemma split_time:
  "(l::nat) \<le> now \<Longrightarrow> now \<le> fin \<Longrightarrow>
   of_nat ((now - l) * rate) / 10 ^ 9 + of_nat ((fin - now) * rate) / 10 ^ 9 = (of_nat ((fin - l) * rate) / 10 ^ 9 :: rat)"
  by (simp only: add_divide_distrib [symmetric] of_nat_add [symmetric] add_mult_distrib [symmetric]) simp

lemma client_answers_bound:
  assumes lim: "limits_ok burst rate"
  shows "client_answers (Fin (of_nat burst)) (Fin (of_nat rate)) ob nows answers \<Longrightarrow> ob = Some b \<Longrightarrow> bucket_holds burst b t \<Longrightarrow>
    sorted (bk_last_refill b # nows) \<Longrightarrow> \<forall>n\<in>set nows. reading_ok n \<Longrightarrow>
    of_nat (count_list answers True) \<le>
      (t + of_nat (burst * pauses (bk_last_refill b) nows)) +
      of_nat ((last (bk_last_refill b # nows) - bk_last_refill b) * rate) / 10 ^ 9 + of_nat (length nows) * (4 / 2 ^ 33)"
proof (induction arbitrary: b t rule: client_answers.induct)
  case (asks_nothing ob)
  then show ?case by (simp add: bucket_holds_def)
next
  case (kept now ob a b' nows as)
  let ?l = "bk_last_refill b" and ?fin = "last (now # nows)"
  have now: "reading_ok now" and le: "?l \<le> now" "now \<le> ?fin"
    using kept.prems by (auto simp: sorted_append)
  note holds = client_step_holds [OF lim now kept.prems(2)]
  have cs: "client_step (Fin (of_nat burst)) (Fin (of_nat rate)) now (Some b) = (a, b')" using kept by simp
  obtain t' where t': "bucket_holds burst b' t'" "t' + of_bool a \<le> t + of_nat ((now - ?l) * rate) / 10 ^ 9 + 4 / 2 ^ 33"
    using holds(1) unfolding cs by auto
  have last: "bk_last_refill b' = now" using holds(2) unfolding cs by simp
  have rest: "of_nat (count_list as True) \<le> (t' + of_nat (burst * pauses now nows)) +
      of_nat ((?fin - now) * rate) / 10 ^ 9 + of_nat (length nows) * (4 / 2 ^ 33)"
    using kept.IH [OF refl t'(1)] kept.prems last by simp
  have more: "(of_nat (burst * pauses now nows) :: rat) \<le> of_nat (burst * pauses ?l (now # nows))" by (intro of_nat_mono) simp
  have "(of_nat (length (now # nows)) :: rat) = 1 + of_nat (length nows)" and "last (?l # now # nows) = ?fin" by simp_all
  then show ?case unfolding count_Cons_True by (simp only: kept_step [OF rest t'(2) split_time [OF le] more])
next
  case (dropped now b\<^sub>0 a b' nows as)
  let ?l = "bk_last_refill b" and ?fin = "last (now # nows)"
  have now: "reading_ok now" and le: "?l \<le> now" "now \<le> ?fin"
    using dropped.prems by (auto simp: sorted_append)
  note holds = client_step_holds [OF lim now full_holds [of burst now], folded client_step_None, unfolded dropped.hyps(2)]
  obtain t' where t': "bucket_holds burst b' t'" "t' + of_bool a \<le> of_nat burst + 4 / 2 ^ 33"
    using holds(1) by auto
  have last: "bk_last_refill b' = now" using holds(2) by simp
  have rest: "of_nat (count_list as True) \<le> (t' + of_nat (burst * pauses now nows)) +
      of_nat ((?fin - now) * rate) / 10 ^ 9 + of_nat (length nows) * (4 / 2 ^ 33)"
    using dropped.IH [OF refl t'(1)] dropped.prems last by simp
  have again: "(of_nat (burst * pauses ?l (now # nows)) :: rat) = of_nat burst + of_nat (burst * pauses now nows)"
    using dropped by (simp add: algebra_simps)
  have zero: "0 \<le> t" "(0::rat) \<le> of_nat ((now - ?l) * rate) / 10 ^ 9" using dropped.prems by (simp_all add: bucket_holds_def)
  have "(of_nat (length (now # nows)) :: rat) = 1 + of_nat (length nows)" and "last (?l # now # nows) = ?fin" by simp_all
  then show ?case unfolding count_Cons_True
    by (simp only: dropped_step [OF rest t'(2) split_time [OF le] again zero])
qed

text \<open>A window of a client's requests starts from a bucket of at most the burst.\<close>

lemma client_step_capped:
  assumes lim: "limits_ok burst rate" and now: "reading_ok now" and b: "\<And>b. ob = Some b \<Longrightarrow> \<exists>t. bucket_holds burst b t"
    and step: "client_step (Fin (of_nat burst)) (Fin (of_nat rate)) now ob = (a, c)"
  shows "\<exists>t. bucket_holds burst c t \<and> t + of_bool a \<le> of_nat burst + 4 / 2 ^ 33" "bk_last_refill c = now"
proof -
  obtain d u where d: "client_step (Fin (of_nat burst)) (Fin (of_nat rate)) now (Some d) = (a, c)" "bucket_holds burst d u"
    using b step full_holds [of burst now] by (cases ob) (auto simp: client_step_None)
  let ?t = "refilled burst rate (now - bk_last_refill d) u"
  note r = refill_holds [OF lim now d(2)]
  have cs: "take_token \<lparr>bk_tokens = Fin ?t, bk_last_refill = now\<rparr> = (a, c)" using d(1) by (simp add: client_step_def r(1))
  note took = take_token_holds [OF lim r(2) r(3), of "now - bk_last_refill d" now, unfolded cs fst_conv snd_conv]
  obtain t where t: "bucket_holds burst c t" "t + of_bool a \<le> ?t + 1 / 2 ^ 33" using took(2) by blast
  have "?t + 1 / 2 ^ 33 \<le> of_nat burst + 4 / 2 ^ 33" using r(3) [of "now - bk_last_refill d"] by (rule add_mono) simp
  with t show "\<exists>t. bucket_holds burst c t \<and> t + of_bool a \<le> of_nat burst + 4 / 2 ^ 33" by (meson order_trans)
  show "bk_last_refill c = now" by (rule took(3))
qed

lemma client_answers_first:
  assumes lim: "limits_ok burst rate" and now: "reading_ok now" and b: "\<And>b. ob = Some b \<Longrightarrow> \<exists>t. bucket_holds burst b t"
    and run: "client_answers (Fin (of_nat burst)) (Fin (of_nat rate)) ob (now # nows) answers"
  shows "\<exists>a c as t. answers = a # as \<and> client_answers (Fin (of_nat burst)) (Fin (of_nat rate)) (Some c) nows as \<and>
    bucket_holds burst c t \<and> t + of_bool a \<le> of_nat burst + 4 / 2 ^ 33 \<and> bk_last_refill c = now"
proof -
  from run obtain ob' a c as where step: "answers = a # as" "ob' = ob \<or> ob' = None"
    "client_step (Fin (of_nat burst)) (Fin (of_nat rate)) now ob' = (a, c)"
    "client_answers (Fin (of_nat burst)) (Fin (of_nat rate)) (Some c) nows as"
    by (auto elim!: client_answers_ConsE)
  have "\<And>b. ob' = Some b \<Longrightarrow> \<exists>t. bucket_holds burst b t" using b step(2) by auto
  from client_step_capped [OF lim now this step(3)] step(1,4) show ?thesis by blast
qed

lemma client_answers_drop:
  assumes lim: "limits_ok burst rate"
  shows "client_answers (Fin (of_nat burst)) (Fin (of_nat rate)) ob (before @ nows) answers \<Longrightarrow>
    \<forall>n\<in>set before. reading_ok n \<Longrightarrow> (\<And>b. ob = Some b \<Longrightarrow> \<exists>t. bucket_holds burst b t) \<Longrightarrow>
    \<exists>ob'. (\<forall>b. ob' = Some b \<longrightarrow> (\<exists>t. bucket_holds burst b t)) \<and>
      client_answers (Fin (of_nat burst)) (Fin (of_nat rate)) ob' nows (drop (length before) answers)"
proof (induction before arbitrary: ob answers)
  case Nil
  then show ?case by auto
next
  case (Cons n before)
  have n: "reading_ok n" and run: "client_answers (Fin (of_nat burst)) (Fin (of_nat rate)) ob (n # before @ nows) answers"
    using Cons.prems by simp_all
  from client_answers_first [OF lim n Cons.prems(3) run] obtain a c as t where
    "answers = a # as" "client_answers (Fin (of_nat burst)) (Fin (of_nat rate)) (Some c) (before @ nows) as" "bucket_holds burst c t"
    by blast
  with Cons.IH [of "Some c" as] Cons.prems(2) show ?case by auto
qed

lemma client_answers_take:
  "client_answers burst rate ob (nows @ after) answers \<Longrightarrow>
   client_answers burst rate ob nows (take (length nows) answers)"
proof (induction nows arbitrary: ob answers)
  case Nil
  then show ?case by (simp add: client_answers_Nil)
next
  case (Cons n nows)
  from Cons.prems have "client_answers burst rate ob (n # nows @ after) answers" by simp
  then consider (kept) a b as where "answers = a # as" "client_step burst rate n ob = (a, b)"
      "client_answers burst rate (Some b) (nows @ after) as"
    | (dropped) b\<^sub>0 a b as where "ob = Some b\<^sub>0" "answers = a # as" "300 * 10 ^ 9 \<le> n - bk_last_refill b\<^sub>0"
      "client_step burst rate n None = (a, b)" "client_answers burst rate (Some b) (nows @ after) as"
    by (auto elim!: client_answers_ConsE)
  then show ?case
  proof cases
    case kept
    then show ?thesis using Cons.IH [of "Some b" as] by (auto intro: client_answers.kept)
  next
    case dropped
    then show ?thesis using Cons.IH [of "Some b" as] by (auto intro: client_answers.dropped)
  qed
qed

lemma window_bound:
  assumes lim: "limits_ok burst rate" and b: "\<And>b. ob = Some b \<Longrightarrow> \<exists>t. bucket_holds burst b t"
    and run: "client_answers (Fin (of_nat burst)) (Fin (of_nat rate)) ob (first # later) answers"
    and ok: "sorted (first # later)" "\<forall>n\<in>set (first # later). reading_ok n"
  shows "of_nat (count_list answers True) \<le> of_nat (burst * (1 + pauses first later)) +
      of_nat ((last (first # later) - first) * rate) / 10 ^ 9 + of_nat (length (first # later)) * (4 / 2 ^ 33 :: rat) \<and>
    (burst \<le> 300 * rate \<longrightarrow> of_nat (count_list answers True) \<le> of_nat burst +
      of_nat ((last (first # later) - first) * rate) / 10 ^ 9 + of_nat (length (first # later)) * (4 / 2 ^ 33 :: rat))"
proof -
  have first: "reading_ok first" "\<forall>n\<in>set later. reading_ok n" using ok(2) by auto
  from client_answers_first [OF lim first(1) b run] obtain a c as t where
    c: "answers = a # as" "client_answers (Fin (of_nat burst)) (Fin (of_nat rate)) (Some c) later as" "bucket_holds burst c t"
      "t + of_bool a \<le> of_nat burst + 4 / 2 ^ 33" "bk_last_refill c = first" by blast
  have count: "(of_nat (count_list answers True) :: rat) = of_bool a + of_nat (count_list as True)"
    unfolding c(1) by (rule count_Cons_True)
  have len: "(of_nat (length (first # later)) * (4 / 2 ^ 33) :: rat) = of_nat (length later) * (4 / 2 ^ 33) + 4 / 2 ^ 33"
    by (simp add: distrib_right)
  have more: "(of_nat (burst * (1 + pauses first later)) :: rat) = of_nat burst + of_nat (burst * pauses first later)"
    by (simp add: distrib_left)
  have "of_nat (count_list as True) \<le> (t + of_nat (burst * pauses first later)) +
      of_nat ((last (first # later) - first) * rate) / 10 ^ 9 + of_nat (length later) * (4 / 2 ^ 33)"
    using client_answers_bound [OF lim c(2) refl c(3)] ok(1) first(2) unfolding c(5) by blast
  moreover have "of_nat (count_list as True) \<le> t +
      of_nat ((last (first # later) - first) * rate) / 10 ^ 9 + of_nat (length later) * (4 / 2 ^ 33)" if small: "burst \<le> 300 * rate"
  proof -
    have "as = client_run (Fin (of_nat burst)) (Fin (of_nat rate)) (Some c) later"
      using client_answers_run [OF lim small c(2)] c(3) first(2) by blast
    with client_run_bound [OF lim c(3), of later] ok(1) first(2) show ?thesis unfolding c(5) by blast
  qed
  ultimately show ?thesis using c(4) unfolding count len more by linarith
qed

text \<open>The rate times the time between the first and the last reading, and the rounding.\<close>

definition earned_in :: "nat \<Rightarrow> nat \<Rightarrow> nat list \<Rightarrow> rat" where
  "earned_in rate first later =
     of_nat ((last (first # later) - first) * rate) / 10 ^ 9 + of_nat (length (first # later)) / 10 ^ 9"

text \<open>
  C27. For every burst and rate the configuration admits, in a run whose clock readings do not
  go back: among any requests of a client that follow one another, whatever it asked before and
  after, at most its burst is granted, once more for each pause of five minutes or longer
  between two of them, plus the rate times the time from the first to the last of them, plus a
  billionth of a request for the rounding of each. Where the rate refills the burst in five
  minutes the pauses add nothing.
\<close>

theorem served_within_allowance:
  assumes lim: "limits_ok burst rate"
    and reqs: "sorted (map fst reqs)" "\<forall>(now, _)\<in>set reqs. reading_ok now"
    and nows: "readings_of ip reqs = before @ (first # later) @ after"
  shows "let granted = of_nat (count_list
        (take (length (first # later)) (drop (length before) (limiter_answers_to burst rate hash reqs ip))) True)
    in granted \<le> of_nat (burst * (1 + pauses first later)) + earned_in rate first later \<and>
      (burst \<le> 300 * rate \<longrightarrow> granted \<le> of_nat burst + earned_in rate first later)"
proof -
  note ok = readings_of_ok [OF reqs, of ip, unfolded nows]
  have window: "sorted (first # later)" "\<forall>n\<in>set (first # later). reading_ok n" "\<forall>n\<in>set before. reading_ok n"
    using ok by (auto simp: sorted_append)
  from client_answers_drop [OF lim limiter_answers [OF lim reqs, of ip hash, unfolded nows] window(3)] obtain ob where
    ob: "\<And>b. ob = Some b \<Longrightarrow> \<exists>t. bucket_holds burst b t" and
    run: "client_answers (Fin (of_nat burst)) (Fin (of_nat rate)) ob ((first # later) @ after)
      (drop (length before) (limiter_answers_to burst rate hash reqs ip))" by blast
  have "(of_nat (length (first # later)) * (4 / 2 ^ 33) :: rat) \<le> of_nat (length (first # later)) / 10 ^ 9"
    using mult_left_mono [of "4 / 2 ^ 33 :: rat" "1 / 10 ^ 9" "of_nat (length (first # later))"] by simp
  with window_bound [OF lim ob client_answers_take [OF run] window(1,2)] show ?thesis
    unfolding earned_in_def Let_def by linarith
qed

text \<open>The second of two requests of a client.\<close>

theorem served_within_allowance_witness:
  "(of_nat (count_list (take 1 (drop 1 (limiter_answers_to 1 1 (\<lambda>_. 0)
     (sample_requests @ [(500000000000, sample_client)]) sample_client))) True) :: rat) \<le> 1 + 1 / 10 ^ 9"
  using served_within_allowance [OF sample_requests_ok(1-3), of sample_client "[0]" 500000000000 "[]" "[]" "\<lambda>_. 0"]
    sample_requests_ok(4) by (simp add: readings_of_def earned_in_def Let_def)

lemma client_answers_last:
  "client_answers burst rate ob nows answers \<Longrightarrow> length answers = length nows"
  by (induction rule: client_answers.induct) simp_all

lemma fresh_bucket_serves:
  assumes "limits_ok burst rate" "reading_ok now"
  shows "fst (client_step (Fin (of_nat burst)) (Fin (of_nat rate)) now None)"
proof -
  have "1 \<le> refilled burst rate 0 (of_nat burst)" using full_bucket [OF assms(1)] burst_bound [OF assms(1)] by simp
  then show ?thesis
    unfolding client_step_None
    using refill_holds(1) [OF assms full_holds, of now] by (simp add: client_step_def take_token_def)
qed

lemma patient_client:
  assumes lim: "limits_ok burst rate" and now: "reading_ok now"
  shows "client_answers (Fin (of_nat burst)) (Fin (of_nat rate)) ob (nows @ [now]) answers \<Longrightarrow>
    \<forall>n\<in>set nows. reading_ok n \<Longrightarrow> (\<And>b. ob = Some b \<Longrightarrow> \<exists>t. bucket_holds burst b t) \<Longrightarrow>
    (case ob of Some b \<Rightarrow> nows = [] \<longrightarrow> 10 ^ 9 < (now - bk_last_refill b) * rate | None \<Rightarrow> True) \<Longrightarrow>
    nows = [] \<or> 10 ^ 9 < (now - last nows) * rate \<Longrightarrow> last answers"
proof (induction nows arbitrary: ob answers)
  case Nil
  have "fst (client_step (Fin (of_nat burst)) (Fin (of_nat rate)) now ob)"
  proof (cases ob)
    case None
    then show ?thesis using fresh_bucket_serves [OF lim now] by simp
  next
    case (Some b)
    then obtain t where "bucket_holds burst b t" using Nil.prems by blast
    from client_step_holds(3) [OF lim now this] show ?thesis using Nil.prems Some by simp
  qed
  with Nil.prems(1) fresh_bucket_serves [OF lim now] show ?case
    by (auto elim!: client_answers_ConsE simp: client_answers_Nil)
next
  case (Cons m nows)
  have m: "reading_ok m" using Cons.prems by simp
  from Cons.prems(1) obtain ob' a b as where step:
    "answers = a # as" "ob' = ob \<or> ob' = None" "client_step (Fin (of_nat burst)) (Fin (of_nat rate)) m ob' = (a, b)"
    "client_answers (Fin (of_nat burst)) (Fin (of_nat rate)) (Some b) (nows @ [now]) as"
    by (auto elim!: client_answers_ConsE)
  have "\<exists>t. bucket_holds burst b t" "bk_last_refill b = m"
    using client_step_ok [OF lim m, of ob'] Cons.prems(3) step(2,3) by auto
  with Cons.prems have "last as"
    by (intro Cons.IH [OF step(4)]) (auto split: if_splits)
  moreover have "as \<noteq> []" using client_answers_last [OF step(4)] by auto
  ultimately show ?case by (simp add: step(1))
qed

text \<open>
  C28. No client is starved: in a run whose clock readings do not go back, whatever came before,
  from it and from others, a request that arrives more than one refill period after the
  client's last one, or is its first, is granted. This holds for every burst and rate the
  configuration admits.
\<close>

theorem patient_client_served:
  assumes lim: "limits_ok burst rate"
    and reqs: "sorted (map fst (reqs @ [(now, ip)]))" "\<forall>(n, _)\<in>set (reqs @ [(now, ip)]). reading_ok n"
    and patient: "readings_of ip reqs = [] \<or> 10 ^ 9 < (now - last (readings_of ip reqs)) * rate"
  shows "last (answers_to ip (reqs @ [(now, ip)])
    (fst (run_checks hash (reqs @ [(now, ip)]) (new_limiter (Fin (of_nat rate)) (Fin (of_nat burst))))))"
proof -
  have readings: "readings_of ip (reqs @ [(now, ip)]) = readings_of ip reqs @ [now]" by (simp add: readings_of_def)
  have ok: "reading_ok now" "\<forall>n\<in>set (readings_of ip reqs). reading_ok n"
    using reqs(2) by (auto simp: readings_of_def)
  show ?thesis
    by (rule patient_client [OF lim ok(1) limiter_answers [OF lim reqs, of ip hash, unfolded readings] ok(2)])
      (use patient in simp_all)
qed

theorem patient_client_served_witness:
  "last (answers_to sample_client (sample_requests @ [(500000000000, sample_client)])
     (fst (run_checks (\<lambda>_. 0) (sample_requests @ [(500000000000, sample_client)])
       (new_limiter (Fin (of_nat 1)) (Fin (of_nat 1))))))"
  using patient_client_served [OF sample_requests_ok(1-3), of "\<lambda>_. 0"] sample_requests_ok(4)
  by simp

end
