(* ===== verification/Routing.thy ===== *)
theory Routing
  imports Health Client_Ip Rate_Limit
begin

text \<open>
  The requests of one connection, after \<open>src/adapters/server/routing.rs\<close>: the routing table, the
  refusals that come before a body is read, and the loop of \<open>handle_stream\<close>, which reads a request,
  answers it, and goes on with what the client wrote behind it. What a turn of the loop does to the
  outside is a list of events: what was counted, written, timed and logged.

  The timeouts of the socket are not modelled; the deadline of the header phase is, in theory
  \<open>Http_Parse\<close>. The text of the metrics is an argument.

  What is shown: the loop answers what a client writes as if each request arrived alone, whatever
  the packets; it answers at most as many requests as the configuration allows, and closes with
  the last; a request that is shed or refused before its body reaches no handler.
\<close>

section \<open>The routing table\<close>

datatype route_metric =
    Metric_health | Metric_health_live | Metric_health_ready | Metric_by_path | Metric_by_url | Metric_transform
  | Metric_upload | Metric_metrics | Metric_unknown

fun as_label :: "route_metric \<Rightarrow> string" where
  "as_label Metric_health = ''/health''"
| "as_label Metric_health_live = ''/health/live''"
| "as_label Metric_health_ready = ''/health/ready''"
| "as_label Metric_by_path = ''/images/by-path''"
| "as_label Metric_by_url = ''/images/by-url''"
| "as_label Metric_transform = ''/images:transform''"
| "as_label Metric_upload = ''/images''"
| "as_label Metric_metrics = ''/metrics''"
| "as_label Metric_unknown = ''<unknown>''"

datatype route_handler = Run_health | Run_health_live | Run_health_ready | Run_metrics | Run_image image_route

record route =
  rt_path :: string
  rt_methods :: "string list"
  rt_metric :: route_metric
  rt_rate_limited :: bool
  rt_handler :: route_handler

definition GET_HEAD :: "string list" where "GET_HEAD = [''GET'', ''HEAD'']"

definition POST :: "string list" where "POST = [''POST'']"

definition ROUTES :: "route list" where
  "ROUTES =
     [\<lparr>rt_path = ''/health'', rt_methods = GET_HEAD, rt_metric = Metric_health, rt_rate_limited = False,
        rt_handler = Run_health\<rparr>,
      \<lparr>rt_path = ''/health/live'', rt_methods = GET_HEAD, rt_metric = Metric_health_live, rt_rate_limited = False,
        rt_handler = Run_health_live\<rparr>,
      \<lparr>rt_path = ''/health/ready'', rt_methods = GET_HEAD, rt_metric = Metric_health_ready, rt_rate_limited = False,
        rt_handler = Run_health_ready\<rparr>,
      \<lparr>rt_path = ''/metrics'', rt_methods = GET_HEAD, rt_metric = Metric_metrics, rt_rate_limited = False,
        rt_handler = Run_metrics\<rparr>,
      \<lparr>rt_path = ''/images/by-path'', rt_methods = GET_HEAD, rt_metric = Metric_by_path, rt_rate_limited = True,
        rt_handler = Run_image (Public_route SourcePath)\<rparr>,
      \<lparr>rt_path = ''/images/by-url'', rt_methods = GET_HEAD, rt_metric = Metric_by_url, rt_rate_limited = True,
        rt_handler = Run_image (Public_route SourceUrl)\<rparr>,
      \<lparr>rt_path = ''/images:transform'', rt_methods = POST, rt_metric = Metric_transform, rt_rate_limited = True,
        rt_handler = Run_image Transform_route\<rparr>,
      \<lparr>rt_path = ''/images'', rt_methods = POST, rt_metric = Metric_upload, rt_rate_limited = True,
        rt_handler = Run_image Upload_route\<rparr>]"

definition route_lookup :: "string \<Rightarrow> route option" where
  "route_lookup path = find (\<lambda>r. rt_path r = path) ROUTES"

definition serves :: "route \<Rightarrow> string \<Rightarrow> bool" where
  "serves r method \<longleftrightarrow> method \<in> set (rt_methods r)"

definition allow_header :: "route \<Rightarrow> string" where
  "allow_header r = join_with '', '' (rt_methods r) @ '', OPTIONS''"

definition is_rate_limited :: "string \<Rightarrow> bool" where
  "is_rate_limited path = (case route_lookup path of None \<Rightarrow> True | Some r \<Rightarrow> rt_rate_limited r)"

definition classify_route_from_path :: "string \<Rightarrow> route_metric" where
  "classify_route_from_path path = (case route_lookup path of None \<Rightarrow> Metric_unknown | Some r \<Rightarrow> rt_metric r)"

section \<open>What a server keeps and what it finds\<close>

record routing_config =
  rc_serve :: serve_config
  rc_health :: health_config
  rc_json :: json_codec
  rc_hash_ip :: "ip_addr \<Rightarrow> u64"
  rc_trusted_proxies :: "trusted_proxy list"
  rc_max_upload_bytes :: nat
  rc_enable_compression :: bool
  rc_compression_level :: u32
  rc_disable_metrics :: bool
  rc_metrics_token :: "string option"
  rc_health_token :: "string option"
  rc_keep_alive_max_requests :: nat

record server_state =
  sv_serve :: serve_state
  sv_health :: health_cache
  sv_limiter :: "limiter option"

text \<open>What the world answers during one turn of the loop; \<open>tw_write\<close> is the error of the write, if it fails.\<close>

record ('u, 'i, 'd) turn_world =
  tw_serve :: "('u, 'i, 'd) serve_world"
  tw_health :: health_world
  tw_uuid :: string
  tw_limiter_now :: nat
  tw_metrics_text :: "u64 \<Rightarrow> u64 \<Rightarrow> string"
  tw_write :: "string option"

record access_entry =
  ae_request_id :: string
  ae_method :: string
  ae_path :: string
  ae_route :: string
  ae_status :: string
  ae_cache_status :: "string option"
  ae_watermark :: bool

datatype conn_event =
    Counted route_metric string
  | Answered http_response write_options
  | Timed route_metric
  | Access access_entry

section \<open>Routing a request\<close>

definition token_matches :: "('u, 'i, 'd) turn_world \<Rightarrow> headers \<Rightarrow> string \<Rightarrow> bool" where
  "token_matches T hs expected \<longleftrightarrow>
     (case Option.bind (header_value hs ''authorization'') extract_bearer_token of
        Some token \<Rightarrow> ct_eq (w_crypto (tw_serve T)) (ascii token) (ascii expected)
      | None \<Rightarrow> False)"

definition not_found :: http_response where
  "not_found = response_problem ''404 Not Found'' (ascii NOT_FOUND_BODY)"

definition metrics_refusal :: "('u, 'i, 'd) turn_world \<Rightarrow> routing_config \<Rightarrow> headers \<Rightarrow> http_response option" where
  "metrics_refusal T config hs =
     (if rc_disable_metrics config then Some not_found
      else case rc_metrics_token config of
          Some expected \<Rightarrow>
            if token_matches T hs expected then None
            else Some (refusal_response (rc_json config) (auth_required_response ''metrics endpoint requires authentication''))
        | None \<Rightarrow> None)"

definition handle_metrics_request ::
  "('u, 'i, 'd) turn_world \<Rightarrow> routing_config \<Rightarrow> http_request \<Rightarrow> u64 \<Rightarrow> http_response" where
  "handle_metrics_request T config request in_flight =
     (case metrics_refusal T config (hr_headers request) of
        Some r \<Rightarrow> r
      | None \<Rightarrow> response_text ''200 OK'' ''text/plain; version=0.0.4; charset=utf-8''
          (ascii (tw_metrics_text T (sc_max_concurrent_transforms (rc_serve config)) in_flight)))"

definition health_world_of :: "('u, 'i, 'd) turn_world \<Rightarrow> server_state \<Rightarrow> health_world" where
  "health_world_of T S = (tw_health T)\<lparr>hw_in_flight := ss_in_flight (sv_serve S)\<rparr>"

text \<open>\<open>None\<close> is a panic of the handler, which ends the connection.\<close>

fun run_handler ::
  "('u, 'i, 'd) turn_world \<Rightarrow> routing_config \<Rightarrow> route_handler \<Rightarrow> http_request \<Rightarrow> server_state \<Rightarrow>
    http_response option \<times> server_state" where
  "run_handler T config Run_health request S =
     (let (r, h) = handle_health (rc_json config) (rc_health config) (health_world_of T S) (sv_health S)
      in (Some r, S\<lparr>sv_health := h\<rparr>))"
| "run_handler T config Run_health_live request S = (Some (handle_health_live (rc_json config)), S)"
| "run_handler T config Run_health_ready request S =
     (let (r, h) = handle_health_ready (rc_json config) (rc_health config) (health_world_of T S) (sv_health S)
      in (Some r, S\<lparr>sv_health := h\<rparr>))"
| "run_handler T config Run_metrics request S =
     (Some (handle_metrics_request T config request (ss_in_flight (sv_serve S))), S)"
| "run_handler T config (Run_image route) request S =
     (let (r, s) = handle_image (tw_serve T) (rc_serve config) route request (sv_serve S)
      in (case r of Ok response \<Rightarrow> Some response | Err e \<Rightarrow> Some (refusal_response (rc_json config) e) | Panic \<Rightarrow> None,
          S\<lparr>sv_serve := s\<rparr>))"

definition route_request ::
  "('u, 'i, 'd) turn_world \<Rightarrow> routing_config \<Rightarrow> http_request \<Rightarrow> server_state \<Rightarrow> http_response option \<times> server_state" where
  "route_request T config request S =
     (case route_lookup (path_of_target (hr_target request)) of
        None \<Rightarrow> (Some not_found, S)
      | Some r \<Rightarrow>
          if hr_method request = ''OPTIONS''
          then (Some (response_empty ''204 No Content'' [(''Allow'', allow_header r)]), S)
          else if \<not> serves r (hr_method request)
          then (Some (refusal_response (rc_json config)
            (Problem CMethodNotAllowed (rt_path r @ '' does not serve '' @ hr_method request), [(''Allow'', allow_header r)])), S)
          else run_handler T config (rt_handler r) request S)"

section \<open>Before the body\<close>

definition request_id_of :: "('u, 'i, 'd) turn_world \<Rightarrow> http_request \<Rightarrow> string" where
  "request_id_of T head = (case extract_request_id (hr_headers head) of Some i \<Rightarrow> i | None \<Rightarrow> tw_uuid T)"

definition accepts_gzip :: "routing_config \<Rightarrow> http_request \<Rightarrow> bool" where
  "accepts_gzip config head \<longleftrightarrow> rc_enable_compression config \<and>
     (case header_value (hr_headers head) ''accept-encoding'' of
        Some v \<Rightarrow> accepts_encoding v ''gzip'' | None \<Rightarrow> False)"

definition write_options_of :: "routing_config \<Rightarrow> http_request \<Rightarrow> bool \<Rightarrow> write_options" where
  "write_options_of config head close = \<lparr>wo_close = close, wo_is_head = (hr_method head = ''HEAD''),
     wo_accepts_gzip = accepts_gzip config head, wo_compression_level = rc_compression_level config\<rparr>"

definition status_code :: "string \<Rightarrow> string" where
  "status_code line = (case split_whitespace line of w # _ \<Rightarrow> w | [] \<Rightarrow> ''unknown'')"

text \<open>The client of a request, asked of the limiter only for the routes that are limited.\<close>

definition limiter_allows ::
  "('u, 'i, 'd) turn_world \<Rightarrow> routing_config \<Rightarrow> ip_addr option \<Rightarrow> http_request \<Rightarrow> server_state \<Rightarrow> bool \<times> server_state" where
  "limiter_allows T config peer head S =
     (case (sv_limiter S, peer) of
        (Some l, Some ip) \<Rightarrow>
          if is_rate_limited (path_of_target (hr_target head))
          then (let client = (if rc_trusted_proxies config = [] then ip
                     else resolve_client_ip ip (hr_headers head) (rc_trusted_proxies config));
                    (allowed, l') = check (rc_hash_ip config) (tw_limiter_now T) client l
                in (allowed, S\<lparr>sv_limiter := Some l'\<rparr>))
          else (True, S)
      | _ \<Rightarrow> (True, S))"

definition too_many_requests_response :: "string \<Rightarrow> problem \<times> headers" where
  "too_many_requests_response message = (Problem CTooManyRequests message, [(''Retry-After'', ''1'')])"

definition private_route :: "http_request \<Rightarrow> bool" where
  "private_route head \<longleftrightarrow> hr_method head = ''POST'' \<and> path_of_target (hr_target head) \<in> {''/images:transform'', ''/images''}"

definition reads_from :: "string \<Rightarrow> http_request \<Rightarrow> bool" where
  "reads_from path head \<longleftrightarrow> hr_method head \<in> {''GET'', ''HEAD''} \<and> path_of_target (hr_target head) = path"

text \<open>The refusals of a request by its head alone: what it is counted and logged as, and the answer.\<close>

definition early_refusal ::
  "('u, 'i, 'd) turn_world \<Rightarrow> routing_config \<Rightarrow> http_request \<Rightarrow> (route_metric \<times> string \<times> http_response) option" where
  "early_refusal T config head =
     (case (if private_route head
            then authorize_request_headers (w_crypto (tw_serve T)) (hr_headers head) (sc_auth (rc_serve config)) else Ok ()) of
        Err e \<Rightarrow> Some (Metric_unknown, path_of_target (hr_target head), refusal_response (rc_json config) e)
      | _ \<Rightarrow>
          if reads_from ''/metrics'' head \<and> metrics_refusal T config (hr_headers head) \<noteq> None
          then map_option (\<lambda>r. (Metric_metrics, ''/metrics'', r)) (metrics_refusal T config (hr_headers head))
          else if reads_from ''/health'' head
          then (case rc_health_token config of
              Some expected \<Rightarrow>
                if token_matches T (hr_headers head) expected then None
                else Some (Metric_health, ''/health'',
                  refusal_response (rc_json config) (auth_required_response ''health endpoint requires authentication''))
            | None \<Rightarrow> None)
          else None)"

section \<open>One turn of the loop\<close>

datatype turn_end = Closed "string option" | Crashed | Carry bytes

text \<open>An answer that ends the connection: it is counted and logged whether or not it could be written.\<close>

definition refuse ::
  "('u, 'i, 'd) turn_world \<Rightarrow> routing_config \<Rightarrow> http_request \<Rightarrow> write_options \<Rightarrow> route_metric \<Rightarrow> string \<Rightarrow> http_response \<Rightarrow>
    turn_end \<times> conn_event list" where
  "refuse T config head options metric label r =
     (let answer = attach_request_id (rc_json config) (request_id_of T head) r in
      (Closed (tw_write T),
       [Counted metric (rsp_status r), Answered answer options, Timed metric,
        Access \<lparr>ae_request_id = request_id_of T head, ae_method = hr_method head,
          ae_path = path_of_target (hr_target head), ae_route = label, ae_status = status_code (rsp_status r),
          ae_cache_status = None, ae_watermark = False\<rparr>]))"

text \<open>What the head of a request decides: a refusal, or that the body is read.\<close>

definition before_body ::
  "('u, 'i, 'd) turn_world \<Rightarrow> routing_config \<Rightarrow> ip_addr option \<Rightarrow> http_request \<Rightarrow> server_state \<Rightarrow>
    (turn_end \<times> conn_event list) option \<times> server_state" where
  "before_body T config peer head S =
     (let (allowed, S1) = limiter_allows T config peer head S in
      if \<not> allowed
      then (let metric = classify_route_from_path (path_of_target (hr_target head)) in
        (Some (refuse T config head (closing_options (hr_method head = ''HEAD'')) metric (as_label metric)
          (refusal_response (rc_json config) (too_many_requests_response
            (''rate limit exceeded '' @ [CHR 0xE2, CHR 0x80, CHR 0x94] @ '' try again later'')))), S1))
      else (map_option (\<lambda>(metric, label, r). refuse T config head (write_options_of config head True) metric label r)
              (early_refusal T config head), S1))"

text \<open>The request is whole: it is routed, answered and logged.\<close>

definition after_body ::
  "('u, 'i, 'd) turn_world \<Rightarrow> routing_config \<Rightarrow> nat \<Rightarrow> http_request \<Rightarrow> server_state \<Rightarrow>
    bytes \<Rightarrow> turn_end \<times> conn_event list \<times> server_state" where
  "after_body T config served request S leftover =
     (let metric = classify_route_from_path (path_of_target (hr_target request));
          (routed, S1) = route_request T config request S
      in case routed of
           None \<Rightarrow> (Crashed, [], S1)
         | Some r \<Rightarrow>
             (let named = attach_request_id (rc_json config) (request_id_of T request) r;
                  (had_watermark, hs) = extract_watermark_flag (rsp_headers named);
                  answer = named\<lparr>rsp_headers := hs\<rparr>;
                  close_after = (client_wants_close (hr_version request) (hr_headers request) \<or>
                    rc_keep_alive_max_requests config \<le> served + 1);
                  written = [Counted metric (rsp_status r), Answered answer (write_options_of config request close_after)]
              in if tw_write T \<noteq> None then (Closed (tw_write T), written, S1)
                 else (if close_after then Closed None else Carry leftover,
                   written @ [Timed metric,
                     Access \<lparr>ae_request_id = request_id_of T request, ae_method = hr_method request,
                       ae_path = path_of_target (hr_target request), ae_route = as_label metric,
                       ae_status = status_code (rsp_status r), ae_cache_status = extract_cache_status (rsp_headers named),
                       ae_watermark = had_watermark\<rparr>], S1)))"

definition head_of :: "partial_request \<Rightarrow> http_request" where
  "head_of p = \<lparr>hr_method = pr_method p, hr_target = pr_target p, hr_version = pr_version p,
     hr_headers = pr_headers p, hr_body = []\<rparr>"

definition serve_turn ::
  "('u, 'i, 'd) turn_world \<Rightarrow> routing_config \<Rightarrow> ip_addr option \<Rightarrow> nat \<Rightarrow> bytes \<Rightarrow> read_event list \<Rightarrow> server_state \<Rightarrow>
    turn_end \<times> read_event list \<times> conn_event list \<times> server_state" where
  "serve_turn T config peer served carried_over reads S =
     (case read_request_headers (rc_max_upload_bytes config) True carried_over reads of
        Panic \<Rightarrow> (Crashed, reads, [], S)
      | Err e \<Rightarrow>
          if 0 < served then (Closed None, reads, [], S)
          else (Closed (tw_write T), reads,
            [Answered (problem_response (rc_json config) (re_response e)) (closing_options (re_method e = Some ''HEAD''))], S)
      | Ok (p, rest) \<Rightarrow>
          (let (early, S1) = before_body T config peer (head_of p) S in
           case early of
             Some (ended, es) \<Rightarrow> (ended, rest, es, S1)
           | None \<Rightarrow>
               (case read_request_body p rest of
                  Panic \<Rightarrow> (Crashed, rest, [], S1)
                | Err e \<Rightarrow>
                    (let (ended, es) = refuse T config (head_of p) (write_options_of config (head_of p) True) Metric_unknown
                       (path_of_target (pr_target p)) (problem_response (rc_json config) e)
                     in (ended, rest, es, S1))
                | Ok (request, leftover, rest') \<Rightarrow>
                    (let (ended, es, S2) = after_body T config served request S1 leftover
                     in (ended, rest', es, S2)))))"

lemma carry_continues:
  assumes "serve_turn T config peer served carried_over reads S = (Carry leftover, rest, es, S')"
  shows "served + 1 < rc_keep_alive_max_requests config"
proof -
  have "refuse T config head options metric label r \<noteq> (Carry leftover, es)" for head options metric label r es
    by (simp add: refuse_def Let_def)
  then have early: "before_body T config peer head S \<noteq> (Some (Carry leftover, es), S1)" for head es S1
    by (auto simp: before_body_def Let_def split: prod.splits if_splits)
  show ?thesis using assms early
    by (auto simp: serve_turn_def after_body_def refuse_def Let_def not_le split: outcome.splits option.splits prod.splits if_splits)
qed

section \<open>The loop\<close>

text \<open>
  The world of turn \<open>n\<close> is \<open>T n\<close>. The answer is what the worker gets, \<open>None\<close> for a panic, and the
  events of every turn.
\<close>

function handle_stream ::
  "(nat \<Rightarrow> ('u, 'i, 'd) turn_world) \<Rightarrow> routing_config \<Rightarrow> ip_addr option \<Rightarrow> nat \<Rightarrow> bytes \<Rightarrow> read_event list \<Rightarrow> server_state \<Rightarrow>
    string option option \<times> conn_event list \<times> server_state" where
  "handle_stream T config peer served carried_over reads S =
     (case serve_turn (T served) config peer served carried_over reads S of
        (Closed written, rest, es, S') \<Rightarrow> (Some written, es, S')
      | (Crashed, rest, es, S') \<Rightarrow> (None, es, S')
      | (Carry leftover, rest, es, S') \<Rightarrow>
          (let (r, es', S'') = handle_stream T config peer (served + 1) leftover rest S' in (r, es @ es', S'')))"
  by pat_completeness auto
termination
  by (relation "measure (\<lambda>(T, config, peer, served, _). rc_keep_alive_max_requests config - served)")
    (auto dest: carry_continues [OF sym])

declare handle_stream.simps [simp del]


section \<open>What a client wrote, one request after the other\<close>

text \<open>
  The contract of the loop: the requests are answered in their order, each from the state the one
  before left, until one closes the connection.
\<close>

fun conversation ::
  "(nat \<Rightarrow> ('u, 'i, 'd) turn_world) \<Rightarrow> routing_config \<Rightarrow> ip_addr option \<Rightarrow> nat \<Rightarrow> http_request list \<Rightarrow> server_state \<Rightarrow>
    string option option \<times> conn_event list \<times> server_state" where
  "conversation T config peer served [] S = (Some None, [], S)"
| "conversation T config peer served (request # requests) S =
     (case before_body (T served) config peer (request\<lparr>hr_body := []\<rparr>) S of
        (Some (Closed written, es), S1) \<Rightarrow> (Some written, es, S1)
      | (Some (_, es), S1) \<Rightarrow> (None, es, S1)
      | (None, S1) \<Rightarrow>
          (case after_body (T served) config served request S1 [] of
             (Closed written, es, S2) \<Rightarrow> (Some written, es, S2)
           | (Crashed, es, S2) \<Rightarrow> (None, es, S2)
           | (Carry _, es, S2) \<Rightarrow>
               (let (r, es', S3) = conversation T config peer (served + 1) requests S2 in (r, es @ es', S3))))"

text \<open>A request as its client writes it: the block of its head, the empty line, the body.\<close>

record wire_request =
  wr_block :: bytes
  wr_request :: http_request

definition wire_bytes :: "wire_request \<Rightarrow> bytes" where
  "wire_bytes w = wr_block w @ crlf2 @ hr_body (wr_request w)"

definition wire_ok :: "nat \<Rightarrow> wire_request \<Rightarrow> bool" where
  "wire_ok max_upload w \<longleftrightarrow>
     find_header_terminator (wr_block w @ crlf2) = Some (length (wr_block w)) \<and>
     length (wr_block w) + 3 \<le> MAX_HEADER_BYTES \<and>
     (case parse_header_block max_upload (wr_block w) of
        Ok (method, target, version, hs, n) \<Rightarrow>
          wr_request w = \<lparr>hr_method = method, hr_target = target, hr_version = version, hr_headers = hs,
            hr_body = hr_body (wr_request w)\<rparr> \<and> n = length (hr_body (wr_request w))
      | _ \<Rightarrow> False)"

lemma before_body_closes:
  "before_body T config peer head S = (Some (ended, es), S1) \<Longrightarrow> ended = Closed (tw_write T)"
  by (auto simp: before_body_def refuse_def Let_def split: prod.splits if_splits)

lemma after_body_leftover:
  "after_body T config served request S leftover =
     (case after_body T config served request S [] of
        (Carry _, es, S') \<Rightarrow> (Carry leftover, es, S')
      | ended \<Rightarrow> ended)"
  by (auto simp: after_body_def Let_def split: prod.splits option.splits)

lemma end_of_stream:
  assumes "0 < served"
  shows "handle_stream T config peer served [] [] S = (Some None, [], S)"
proof -
  have "find_header_terminator [] = None" by code_simp
  then have "\<exists>e. read_request_headers (rc_max_upload_bytes config) True [] [] = Err e"
    by (simp add: read_request_headers_def) (subst await_headers.simps, simp)
  then show ?thesis using assms by (subst handle_stream.simps) (auto simp: serve_turn_def)
qed

lemma nothing_delivered:
  assumes "list_all delivers es" "delivered es = []" shows "es = []"
proof (cases es)
  case (Cons e es')
  then obtain c where "read_event.answer e = Received c" "c \<noteq> []" using assms(1) deliversE [of e] by auto
  then show ?thesis using assms Cons by (simp add: delivered_Cons)
qed simp

text \<open>One turn over what a client wrote: the request in front is answered, and what is behind it stays.\<close>

lemma serve_turn_wire:
  assumes "list_all delivers es" and "carried @ delivered es = wire_bytes w @ tail"
    and "wire_ok (rc_max_upload_bytes config) w" and "CHUNK_READ_SIZE \<le> rc_max_upload_bytes config"
  obtains rest carry rest' where "list_all delivers rest'" and "carry @ delivered rest' = tail"
    and "serve_turn T config peer served carried es S =
      (case before_body T config peer ((wr_request w)\<lparr>hr_body := []\<rparr>) S of
         (Some (ended, evs), S1) \<Rightarrow> (ended, rest, evs, S1)
       | (None, S1) \<Rightarrow>
           (let (ended, evs, S2) = after_body T config served (wr_request w) S1 carry in (ended, rest', evs, S2)))"
proof -
  obtain m t v hs where parse: "parse_header_block (rc_max_upload_bytes config) (wr_block w) =
      Ok (m, t, v, hs, length (hr_body (wr_request w)))"
    and w: "wr_request w = \<lparr>hr_method = m, hr_target = t, hr_version = v, hr_headers = hs, hr_body = hr_body (wr_request w)\<rparr>"
    using assms(3) by (auto simp: wire_ok_def split: outcome.splits)
  have "carried @ delivered es = wr_block w @ crlf2 @ hr_body (wr_request w) @ tail"
    using assms(2) by (simp add: wire_bytes_def)
  then obtain p rest carry rest' where head: "read_request_headers (rc_max_upload_bytes config) True carried es = Ok (p, rest)"
    and p: "pr_method p = m" "pr_target p = t" "pr_version p = v" "pr_headers p = hs"
    and body: "read_request_body p rest = Ok (wr_request w, carry, rest')"
    and rest: "carry @ delivered rest' = tail" "list_all delivers rest'"
    using request_framed [OF assms(1) _ _ _ assms(4) parse, of carried tail True] assms(3) w
    by (auto simp: wire_ok_def)
  have "head_of p = (wr_request w)\<lparr>hr_body := []\<rparr>" unfolding head_of_def p by (subst w) simp
  then have "serve_turn T config peer served carried es S =
      (case before_body T config peer ((wr_request w)\<lparr>hr_body := []\<rparr>) S of
         (Some (ended, evs), S1) \<Rightarrow> (ended, rest, evs, S1)
       | (None, S1) \<Rightarrow>
           (let (ended, evs, S2) = after_body T config served (wr_request w) S1 carry in (ended, rest', evs, S2)))"
    by (simp add: serve_turn_def head body Let_def split: prod.splits option.splits)
  with rest show thesis using that by blast
qed

lemma stream_is_conversation:
  assumes "list_all delivers es" and "carried @ delivered es = concat (map wire_bytes ws)"
    and "list_all (wire_ok (rc_max_upload_bytes config)) ws" and "CHUNK_READ_SIZE \<le> rc_max_upload_bytes config"
    and "ws \<noteq> [] \<or> 0 < served"
  shows "handle_stream T config peer served carried es S = conversation T config peer served (map wr_request ws) S"
  using assms
proof (induction ws arbitrary: carried es served S)
  case Nil
  then show ?case using nothing_delivered [of es] by (simp add: end_of_stream)
next
  case (Cons w ws)
  have split: "carried @ delivered es = wire_bytes w @ concat (map wire_bytes ws)" using Cons.prems(2) by simp
  have ok: "wire_ok (rc_max_upload_bytes config) w" "list_all (wire_ok (rc_max_upload_bytes config)) ws"
    using Cons.prems(3) by simp_all
  obtain rest carry rest' where rest: "list_all delivers rest'" "carry @ delivered rest' = concat (map wire_bytes ws)"
    and turn: "serve_turn (T served) config peer served carried es S =
      (case before_body (T served) config peer ((wr_request w)\<lparr>hr_body := []\<rparr>) S of
         (Some (ended, evs), S1) \<Rightarrow> (ended, rest, evs, S1)
       | (None, S1) \<Rightarrow>
           (let (ended, evs, S2) = after_body (T served) config served (wr_request w) S1 carry in (ended, rest', evs, S2)))"
    by (rule serve_turn_wire [OF Cons.prems(1) split ok(1) Cons.prems(4), of "T served" peer served S])
  have IH: "handle_stream T config peer (served + 1) carry rest' S2 =
      conversation T config peer (served + 1) (map wr_request ws) S2" for S2
    by (rule Cons.IH [OF rest ok(2) Cons.prems(4)]) simp
  obtain early S1 where before: "before_body (T served) config peer ((wr_request w)\<lparr>hr_body := []\<rparr>) S = (early, S1)"
    by fastforce
  show ?case
  proof (cases early)
    case (Some x)
    obtain ended evs where x: "x = (ended, evs)" by fastforce
    have "ended = Closed (tw_write (T served))" using before_body_closes before Some x by blast
    then show ?thesis using turn before Some x by (subst handle_stream.simps) simp
  next
    case None
    obtain ended evs S2 where after: "after_body (T served) config served (wr_request w) S1 [] = (ended, evs, S2)"
      by (metis prod_cases3)
    show ?thesis using turn before None after after_body_leftover [of "T served" config served "wr_request w" S1 carry] IH
      by (subst handle_stream.simps) (simp split: turn_end.split)
  qed
qed

section \<open>What a connection leaves\<close>

fun answers :: "conn_event list \<Rightarrow> (http_response \<times> write_options) list" where
  "answers [] = []"
| "answers (Answered r options # es) = (r, options) # answers es"
| "answers (Counted _ _ # es) = answers es"
| "answers (Timed _ # es) = answers es"
| "answers (Access _ # es) = answers es"

lemma answers_append [simp]: "answers (es @ es') = answers es @ answers es'"
  by (induction es rule: answers.induct) simp_all

definition kept_open :: "http_response \<times> write_options \<Rightarrow> bool" where
  "kept_open a \<longleftrightarrow> \<not> wo_close (snd a)"

lemma before_body_answers:
  assumes "before_body T config peer head S = (Some (ended, es), S1)"
  shows "\<exists>a. answers es = [a] \<and> \<not> kept_open a"
  using assms
  by (auto simp: before_body_def refuse_def Let_def closing_options_def write_options_of_def kept_open_def
      split: prod.splits if_splits)

lemma before_body_state:
  "before_body T config peer head S = (early, S1) \<Longrightarrow> \<exists>l. S1 = S\<lparr>sv_limiter := l\<rparr>"
  by (auto simp: before_body_def limiter_allows_def Let_def intro: exI [of _ "sv_limiter S"]
      split: prod.splits if_splits option.splits)

lemma after_body_answers:
  assumes "after_body T config served request S leftover = (ended, es, S')"
  shows "case ended of
      Carry _ \<Rightarrow> \<exists>a. answers es = [a] \<and> kept_open a
    | _ \<Rightarrow> length (answers es) \<le> 1"
  using assms by (auto simp: after_body_def Let_def write_options_of_def kept_open_def split: prod.splits option.splits if_splits)

lemma serve_turn_answers:
  assumes "serve_turn T config peer served carried reads S = (ended, rest, es, S')"
  shows "case ended of
      Carry _ \<Rightarrow> \<exists>a. answers es = [a] \<and> kept_open a
    | _ \<Rightarrow> length (answers es) \<le> 1"
proof -
  have after: "case ended of Carry _ \<Rightarrow> \<exists>a. answers es = [a] \<and> kept_open a | _ \<Rightarrow> length (answers es) \<le> 1"
    if "after_body T config served request S1 leftover = (ended, es, S2)" for request S1 leftover S2
    using that by (rule after_body_answers)
  have before: "ended = Closed (tw_write T) \<and> length (answers es) \<le> 1"
    if "before_body T config peer head S = (Some (ended, es), S1)" for head S1
    using before_body_closes [OF that] before_body_answers [OF that] by auto
  have refused: "ended = Closed (tw_write T) \<and> length (answers es) \<le> 1"
    if "refuse T config head options metric label r = (ended, es)" for head options metric label r
    using that by (auto simp: refuse_def Let_def)
  show ?thesis
    using assms after before refused
    by (auto simp: serve_turn_def Let_def split: outcome.splits prod.splits option.splits if_splits turn_end.split) blast+
qed

lemma connection_answers:
  assumes "handle_stream T config peer served carried reads S = (r, es, S')"
  shows "length (answers es) \<le> max 1 (rc_keep_alive_max_requests config - served) \<and>
    list_all kept_open (butlast (answers es))"
  using assms
proof (induction T config peer served carried reads S arbitrary: r es S' rule: handle_stream.induct)
  case (1 T config peer served carried reads S)
  obtain ended rest evs S1 where turn: "serve_turn (T served) config peer served carried reads S = (ended, rest, evs, S1)"
    by (metis prod_cases4)
  note one = serve_turn_answers [OF turn]
  have short: "list_all kept_open (butlast as)" if "length as \<le> 1" for as :: "(http_response \<times> write_options) list"
    using that by (cases as) simp_all
  show ?case
  proof (cases ended)
    case (Carry leftover)
    obtain r' es' S'' where more: "handle_stream T config peer (served + 1) leftover rest S1 = (r', es', S'')"
      by (metis prod_cases3)
    have es: "es = evs @ es'" using "1.prems" turn Carry more by (subst (asm) handle_stream.simps) simp
    have "length (answers es') \<le> max 1 (rc_keep_alive_max_requests config - (served + 1)) \<and>
        list_all kept_open (butlast (answers es'))"
      using "1.IH" [OF turn [symmetric]] Carry more by blast
    moreover have "served + 1 < rc_keep_alive_max_requests config" using carry_continues turn Carry by blast
    ultimately show ?thesis using one Carry es by (auto simp: butlast_append)
  qed (use "1.prems" turn one short in \<open>subst (asm) handle_stream.simps, auto\<close>)+
qed

section \<open>The loop is its contract\<close>

text \<open>
  C1. However the bytes of a client are split into reads, \<open>handle_stream\<close> answers the requests it
  wrote, in their order and each from the state the one before left, exactly as if each arrived
  alone: the events of the connection, what it returns and the state it leaves are those of
  \<open>conversation\<close>, which knows no bytes. No byte of a body is taken for a request, and no request
  behind another is lost.
\<close>

theorem handle_stream_is_conversation:
  assumes "list_all delivers events"
    and "carried @ delivered events = concat (map wire_bytes ws)"
    and "list_all (wire_ok (rc_max_upload_bytes config)) ws"
    and "CHUNK_READ_SIZE \<le> rc_max_upload_bytes config"
    and "ws \<noteq> [] \<or> 0 < served"
  shows "handle_stream T config peer served carried events S = conversation T config peer served (map wr_request ws) S"
  using assms by (rule stream_is_conversation)

text \<open>
  C3. A connection is bounded: from the moment it has served \<open>served\<close> requests it is answered at
  most \<open>keep_alive_max_requests - served\<close> times more, or once, and every answer but the last one
  announces that the connection stays open.
\<close>

theorem connection_is_bounded:
  "case handle_stream T config peer served carried reads S of (r, es, S') \<Rightarrow>
     length (answers es) \<le> max 1 (rc_keep_alive_max_requests config - served) \<and>
     list_all kept_open (butlast (answers es))"
  using connection_answers [of T config peer served carried reads S] by (auto split: prod.split)

text \<open>
  C2. The body of a request that may not ask is never looked at: when the head names a private
  route and its credentials are refused, the connection is answered once, with an answer that
  closes it, whatever the client goes on to send, and nothing of the server has changed but the
  books of the limiter.
\<close>

theorem refused_body_is_never_read:
  assumes "read_request_headers (rc_max_upload_bytes config) True carried reads = Ok (p, rest)"
    and "read_request_headers (rc_max_upload_bytes config) True carried reads' = Ok (p, rest')"
    and "private_route (head_of p)"
    and "authorize_request_headers (w_crypto (tw_serve (T served))) (pr_headers p) (sc_auth (rc_serve config)) = Err e"
  shows "\<exists>es a l.
    handle_stream T config peer served carried reads S = (Some (tw_write (T served)), es, S\<lparr>sv_limiter := l\<rparr>) \<and>
    handle_stream T config peer served carried reads' S = (Some (tw_write (T served)), es, S\<lparr>sv_limiter := l\<rparr>) \<and>
    answers es = [a] \<and> \<not> kept_open a"
proof -
  have "early_refusal (T served) config (head_of p) \<noteq> None"
    using assms(3,4) by (simp add: early_refusal_def head_of_def)
  then have "fst (before_body (T served) config peer (head_of p) S) \<noteq> None"
    by (auto simp: before_body_def Let_def split: prod.split)
  then obtain ended es S1 where before: "before_body (T served) config peer (head_of p) S = (Some (ended, es), S1)"
    by (cases "before_body (T served) config peer (head_of p) S") auto
  note ended = before_body_closes [OF before]
  obtain l where "S1 = S\<lparr>sv_limiter := l\<rparr>" using before_body_state [OF before] by blast
  moreover obtain a where "answers es = [a]" "\<not> kept_open a" using before_body_answers [OF before] by blast
  ultimately show ?thesis using assms(1,2) before ended
    by (intro exI [of _ es] exI [of _ a] exI [of _ l]; intro conjI; (subst handle_stream.simps)?) (simp_all add: serve_turn_def)
qed

section \<open>Two requests in three packets\<close>

definition sample_routing :: routing_config where
  "sample_routing = \<lparr>rc_serve = sample_config,
     rc_health = \<lparr>hg_storage_backend = Filesystem, hg_cache_root = False, hg_min_free_bytes = None, hg_max_memory_bytes = None,
       hg_max_concurrent_transforms = 1, hg_max_input_pixels = 1000\<rparr>,
     rc_json = sample_json, rc_hash_ip = (\<lambda>_. 0), rc_trusted_proxies = [], rc_max_upload_bytes = 4096,
     rc_enable_compression = False, rc_compression_level = 1, rc_disable_metrics = False, rc_metrics_token = None,
     rc_health_token = None, rc_keep_alive_max_requests = 2\<rparr>"

definition sample_turn :: "(string, rgba_image, unit) turn_world" where
  "sample_turn = \<lparr>tw_serve = sample_world,
     tw_health = \<lparr>hw_storage_is_dir = True, hw_reachable = True, hw_cache_is_dir = True, hw_disk_now = 0, hw_disk_measured = None,
       hw_rss_now = 0, hw_rss_measured = None, hw_in_flight = 0, hw_draining = False, hw_uptime_seconds = 1\<rparr>,
     tw_uuid = ''u'', tw_limiter_now = 0, tw_metrics_text = (\<lambda>_ _. ''m''), tw_write = None\<rparr>"

definition sample_server :: server_state where
  "sample_server = \<lparr>sv_serve = sample_start, sv_health = health_cache_new 5 (Fin 0), sv_limiter = None\<rparr>"

definition sample_probe :: wire_request where
  "sample_probe = \<lparr>wr_block = ascii ''OPTIONS /images HTTP/1.1'' @ [0x0D, 0x0A] @ ascii ''Host: b'',
     wr_request = \<lparr>hr_method = ''OPTIONS'', hr_target = ''/images'', hr_version = ''HTTP/1.1'', hr_headers = [(''host'', ''b'')],
       hr_body = []\<rparr>\<rparr>"

definition sample_put :: wire_request where
  "sample_put = \<lparr>wr_block = sample_block,
     wr_request = \<lparr>hr_method = ''PUT'', hr_target = ''/a'', hr_version = ''HTTP/1.0'',
       hr_headers = [(''content-length'', ''2'')], hr_body = ascii ''hi''\<rparr>\<rparr>"

definition sample_post_block :: bytes where
  "sample_post_block = ascii ''POST /images HTTP/1.0'' @ [0x0D, 0x0A] @ ascii ''Content-Length: 2''"

lemma sample_probe_ok: "wire_ok 4096 sample_probe"
proof -
  have "parse_header_block 4096 (wr_block sample_probe) = Ok (''OPTIONS'', ''/images'', ''HTTP/1.1'', [(''host'', ''b'')], 0)"
    by (rule parsed_head_block [where lines_text = "''OPTIONS /images HTTP/1.1'' @ [CHR 0x0D, CHR 0x0A] @ ''Host: b''" and
        line = "''OPTIONS /images HTTP/1.1''" and lines = "[''Host: b'']"])
      (code_simp, code_simp, code_simp, code_simp, code_simp, code_simp, simp)
  moreover have "find_header_terminator (wr_block sample_probe @ crlf2) = Some (length (wr_block sample_probe))" by code_simp
  moreover have "length (wr_block sample_probe) = 33" by code_simp
  ultimately show ?thesis by (simp add: wire_ok_def MAX_HEADER_BYTES_def) (simp add: sample_probe_def)
qed

lemma sample_put_ok: "wire_ok 4096 sample_put"
proof -
  have "parse_header_block 4096 (wr_block sample_put) = Ok (''PUT'', ''/a'', ''HTTP/1.0'', [(''content-length'', ''2'')], 2)"
    by (rule parsed_head_block [where lines_text = "''PUT /a HTTP/1.0'' @ [CHR 0x0D, CHR 0x0A] @ ''Content-Length: 2''" and
        line = "''PUT /a HTTP/1.0''" and lines = "[''Content-Length: 2'']"])
      (code_simp, code_simp, code_simp, code_simp, code_simp, code_simp,
        simp add: max_body_for_headers_def MAX_REQUEST_BODY_BYTES_def)
  moreover have "find_header_terminator (wr_block sample_put @ crlf2) = Some (length (wr_block sample_put))" by code_simp
  moreover have "length (wr_block sample_put) = 34" by code_simp
  moreover have "length (hr_body (wr_request sample_put)) = 2" by code_simp
  ultimately show ?thesis by (simp add: wire_ok_def MAX_HEADER_BYTES_def) (simp add: sample_put_def)
qed

lemma attach_keeps_status [simp]: "rsp_status (attach_request_id J i r) = rsp_status r"
  by (simp add: attach_request_id_def Let_def split: option.split json.split)

lemma sample_conversation:
  "case conversation (\<lambda>_. sample_turn) sample_routing None 0 [wr_request sample_probe, wr_request sample_put] sample_server of
     (r, es, _) \<Rightarrow> r = Some None \<and> map (rsp_status \<circ> fst) (answers es) = [''204 No Content'', ''404 Not Found'']"
proof -
  have paths: "path_of_target ''/images'' = ''/images''" "path_of_target ''/a'' = ''/a''" by code_simp+
  have known: "case route_lookup ''/images'' of Some r \<Rightarrow> True | None \<Rightarrow> False" "route_lookup ''/a'' = None"
    by (simp_all add: route_lookup_def ROUTES_def)
  have close: "\<not> client_wants_close ''HTTP/1.1'' [(''host'', ''b'')]" "client_wants_close ''HTTP/1.0'' [(''content-length'', ''2'')]"
    by code_simp+
  have turns: "tw_write sample_turn = None" "rc_keep_alive_max_requests sample_routing = 2" "sv_limiter sample_server = None"
    by (simp_all add: sample_turn_def sample_routing_def sample_server_def)
  have probe: "route_request sample_turn sample_routing (wr_request sample_probe) sample_server =
      (Some (response_empty ''204 No Content'' [(''Allow'', allow_header (the (route_lookup ''/images'')))]), sample_server)"
    using known by (simp add: route_request_def sample_probe_def paths split: option.splits)
  have put: "route_request sample_turn sample_routing (wr_request sample_put) sample_server = (Some not_found, sample_server)"
    using known by (simp add: route_request_def sample_put_def paths)
  have early: "before_body sample_turn sample_routing None ((wr_request sample_probe)\<lparr>hr_body := []\<rparr>) sample_server = (None, sample_server)"
      "before_body sample_turn sample_routing None ((wr_request sample_put)\<lparr>hr_body := []\<rparr>) sample_server = (None, sample_server)"
    by (simp_all add: before_body_def limiter_allows_def early_refusal_def private_route_def reads_from_def sample_probe_def
      sample_put_def turns paths)
  have first: "\<exists>es a. after_body sample_turn sample_routing 0 (wr_request sample_probe) sample_server [] = (Carry [], es, sample_server) \<and>
      answers es = [a] \<and> rsp_status (fst a) = ''204 No Content''"
    using close by (simp add: after_body_def Let_def probe turns split: prod.split)
      (simp add: sample_probe_def response_empty_def)
  have last: "\<exists>es a. after_body sample_turn sample_routing 1 (wr_request sample_put) sample_server [] = (Closed None, es, sample_server) \<and>
      answers es = [a] \<and> rsp_status (fst a) = ''404 Not Found''"
    using close by (simp add: after_body_def Let_def put turns split: prod.split)
      (simp add: sample_put_def not_found_def response_problem_def)
  from first last show ?thesis by (auto simp: early)
qed

text \<open>The first request and the second arrive in three packets, cut inside the first and inside the body of the second.\<close>

theorem handle_stream_is_conversation_witness:
  "case handle_stream (\<lambda>_. sample_turn) sample_routing None 0 []
       [sample_event (take 9 (wire_bytes sample_probe)), sample_event (drop 9 (wire_bytes sample_probe) @ sample_block @ crlf2 @ [0x68]),
        sample_event [0x69]] sample_server of
     (r, es, _) \<Rightarrow> r = Some None \<and> map (rsp_status \<circ> fst) (answers es) = [''204 No Content'', ''404 Not Found'']"
proof -
  have max: "rc_max_upload_bytes sample_routing = 4096" by (simp add: sample_routing_def)
  have "handle_stream (\<lambda>_. sample_turn) sample_routing None 0 []
       [sample_event (take 9 (wire_bytes sample_probe)), sample_event (drop 9 (wire_bytes sample_probe) @ sample_block @ crlf2 @ [0x68]),
        sample_event [0x69]] sample_server =
      conversation (\<lambda>_. sample_turn) sample_routing None 0 (map wr_request [sample_probe, sample_put]) sample_server"
  proof (rule handle_stream_is_conversation)
    show "list_all delivers [sample_event (take 9 (wire_bytes sample_probe)),
        sample_event (drop 9 (wire_bytes sample_probe) @ sample_block @ crlf2 @ [0x68]), sample_event [0x69]]"
      by code_simp
    show "[] @ delivered [sample_event (take 9 (wire_bytes sample_probe)),
        sample_event (drop 9 (wire_bytes sample_probe) @ sample_block @ crlf2 @ [0x68]), sample_event [0x69]] =
        concat (map wire_bytes [sample_probe, sample_put])"
      by code_simp
    show "list_all (wire_ok (rc_max_upload_bytes sample_routing)) [sample_probe, sample_put]"
      using sample_probe_ok sample_put_ok by (simp add: max)
    show "CHUNK_READ_SIZE \<le> rc_max_upload_bytes sample_routing" by (simp add: max CHUNK_READ_SIZE_def)
  qed simp
  then show ?thesis using sample_conversation by simp
qed

lemma sample_head:
  "read_request_headers 4096 True [] (sample_event (sample_post_block @ crlf2) # rest) =
     Ok (\<lparr>pr_method = ''POST'', pr_target = ''/images'', pr_version = ''HTTP/1.0'', pr_headers = [(''content-length'', ''2'')],
       pr_overflow = [], pr_content_length = 2\<rparr>, rest)"
proof -
  have block: "parse_header_block 4096 sample_post_block =
      Ok (''POST'', ''/images'', ''HTTP/1.0'', [(''content-length'', ''2'')], 2)"
    by (rule parsed_head_block [where lines_text = "''POST /images HTTP/1.0'' @ [CHR 0x0D, CHR 0x0A] @ ''Content-Length: 2''" and
        line = "''POST /images HTTP/1.0''" and lines = "[''Content-Length: 2'']"])
      (code_simp, code_simp, code_simp, code_simp, code_simp, code_simp,
        simp add: max_body_for_headers_def MAX_REQUEST_BODY_BYTES_def)
  have "find_header_terminator (sample_post_block @ crlf2) = Some 40" "find_header_terminator [] = None"
    "length (sample_post_block @ crlf2) = 44" "crlf2 \<noteq> []" by code_simp+
  then have "await_headers 4096 True [] (sample_event (sample_post_block @ crlf2) # rest) = Ok (40, sample_post_block @ crlf2, rest)"
    by (subst await_headers.simps, subst await_headers.simps)
      (simp add: sample_event_def MAX_HEADER_BYTES_def Let_def)
  moreover have "take 40 (sample_post_block @ crlf2) = sample_post_block" "drop (40 + 4) (sample_post_block @ crlf2) = []" by code_simp+
  ultimately show ?thesis by (simp add: read_request_headers_def block)
qed

text \<open>A post without credentials, and two bodies of it.\<close>

theorem refused_body_is_never_read_witness:
  "\<exists>es a l.
    handle_stream (\<lambda>_. sample_turn) sample_routing None 0 [] [sample_event (sample_post_block @ crlf2), sample_event (ascii ''hi'')]
      sample_server = (Some None, es, sample_server\<lparr>sv_limiter := l\<rparr>) \<and>
    handle_stream (\<lambda>_. sample_turn) sample_routing None 0 [] [sample_event (sample_post_block @ crlf2), sample_event (ascii ''no'')]
      sample_server = (Some None, es, sample_server\<lparr>sv_limiter := l\<rparr>) \<and>
    answers es = [a] \<and> \<not> kept_open a"
proof -
  have max: "rc_max_upload_bytes sample_routing = 4096" by (simp add: sample_routing_def)
  have "path_of_target ''/images'' = ''/images''" by code_simp
  then have asks: "private_route (head_of \<lparr>pr_method = ''POST'', pr_target = ''/images'', pr_version = ''HTTP/1.0'',
      pr_headers = [(''content-length'', ''2'')], pr_overflow = [], pr_content_length = 2\<rparr>)"
    by (simp add: private_route_def head_of_def)
  have "case authorize_request_headers sample_crypto [(''content-length'', ''2'')] (sc_auth sample_config) of Err e \<Rightarrow> True | _ \<Rightarrow> False"
    by code_simp
  then obtain e where refused:
    "authorize_request_headers (w_crypto (tw_serve sample_turn)) [(''content-length'', ''2'')] (sc_auth (rc_serve sample_routing)) = Err e"
    by (auto simp: sample_turn_def sample_world_def sample_routing_def split: outcome.splits)
  have writes: "tw_write sample_turn = None" by (simp add: sample_turn_def)
  show ?thesis
    using refused_body_is_never_read [of sample_routing "[]" _ _ _ _ _ "\<lambda>_. sample_turn" 0 e None sample_server,
      unfolded max, OF sample_head sample_head asks] refused
    by (simp add: writes)
qed

end
