(* ===== verification/Spec2Isabelle.thy ===== *)
theory Spec2Isabelle
  imports Sniff Geometry Inject Routing
begin

text \<open>
  A model of truss, an image transformation toolkit with a library core, a command line, an
  HTTP server and a WebAssembly package. Modelled are the core, the raster codec and the HTTP
  server, from the bytes of a connection to the bytes of an answer.

  \<^bold>\<open>The program and its parts\<close>

  A connection (\<open>handle_stream\<close>) reads a head, asks the rate limiter, looks the route up, refuses
  what it can refuse before the body, reads the body and calls a handler. A handler authorises the
  request, reads its options, resolves the source (a file, a URL, an upload), looks into the cache,
  takes a slot, sniffs the bytes, checks them against the limits of the server and calls the
  transform. The transform normalizes the options, checks the container, decodes, runs the stages,
  encodes, carries the metadata over and reports what it made. The answer is cached, negotiated,
  compressed and written.

  \<^bold>\<open>Which theory models what\<close>

  Shared ground. \<open>Prelude\<close>: machine integers, the result type \<open>outcome\<close> of fallible code
  (\<open>Ok\<close>, \<open>Err\<close> and \<open>Panic\<close> for a Rust panic), checked slices, and the monadic \<open>and_then\<close> that
  stands for \<open>?\<close>. \<open>Text\<close>: the methods of \<open>str\<close> the program calls and its integer parsers, on
  strings of bytes. \<open>Floats\<close>: rounding to \<open>f32\<close> and \<open>f64\<close> as exact rationals, infinities and NaN,
  with the laws of a rounding in the locale \<open>rounding\<close>, interpreted for \<open>f64\<close>.

  The core, \<open>src/core.rs\<close>. \<open>Media\<close> and \<open>Core_Types\<close>: the enumerations and value types and their
  names (locale \<open>named_option\<close>). \<open>Options\<close>: \<open>normalize\<close> and the rules between options. \<open>Svg_Text\<close>
  and \<open>Sniff\<close>: detection of the media type and the walks over PNG, JPEG, WebP, GIF, BMP and TIFF
  headers (locale \<open>byte_walk\<close>, one interpretation per walk). \<open>Error_Class\<close>:
  \<open>src/core/error_class.rs\<close>. \<open>Remote_Policy\<close>: \<open>src/core/remote_policy.rs\<close>.

  The raster codec, \<open>src/codecs/raster.rs\<close>. \<open>Geometry\<close>: the sizes of a resize, limits, offsets.
  \<open>Containers\<close>, \<open>Jpeg_Policy\<close>, \<open>Png_Policy\<close>, \<open>Webp_Policy\<close>: the lossless rewriters, over the
  locales \<open>item_reader\<close> and \<open>item_grammar\<close>, which say once how a walk reads a list of written
  items. \<open>Passthrough\<close> and \<open>Inject\<close>: when the input's own bytes are the answer, and the metadata
  that is carried over. \<open>Deadline\<close>, \<open>Pixels\<close>, \<open>Stages\<close>: the clock, the arithmetic on pixels and
  the stages in their order. \<open>Quality_Search\<close> and \<open>Encode\<close>: the encoders and the search for a
  quality. \<open>Transform\<close>: \<open>transform_raster\<close> and the dispatcher of \<open>src/codecs/mod.rs\<close>.

  The server, \<open>src/adapters/server/\<close>. \<open>Http_Parse\<close> (\<open>http_parse.rs\<close>): both phases of reading a
  request, the header grammar, storage paths. \<open>Negotiate\<close> (\<open>negotiate.rs\<close>), \<open>Query\<close>, \<open>Payload\<close>
  and \<open>Signing\<close> (\<open>auth.rs\<close>, \<open>signing.rs\<close>, parts of \<open>handler.rs\<close>): what a request asks for and
  whether it may; the ordered map of a query is the locale \<open>ordered_map\<close>. \<open>Response\<close> and
  \<open>Json_Body\<close> (\<open>response.rs\<close>): answers and problem bodies. \<open>Cache_Key\<close> and \<open>Cache\<close> (\<open>cache.rs\<close>):
  keys, and the directory as a map from paths to contents on which the system calls of any number
  of writers, readers and evictions interleave. \<open>Remote\<close> (\<open>remote.rs\<close>): fetching a source.
  \<open>Multipart\<close> (\<open>multipart.rs\<close>), \<open>Handlers\<close> and \<open>Health\<close> (\<open>handler.rs\<close>), \<open>Rate_Limit\<close>
  (\<open>rate_limit.rs\<close>), \<open>Client_Ip\<close> (\<open>config.rs\<close>, \<open>routing.rs\<close>) and \<open>Routing\<close> (\<open>routing.rs\<close>).

  Names are those of the source; a name that clashes with one of HOL has a suffix. A method that
  reads the clock, asks the system or calls a crate takes the answer, or the function that gives
  it, as an argument. State that a method changes behind \<open>&mut\<close> or a lock is passed in and
  returned.

  \<^bold>\<open>What the theorems show\<close>

  Parsing: the sniffers panic on one shape of input only (C4) and name the only format the bytes
  carry (C11); the HTTP reader frames requests the same however they are split (C5), accepts one
  framing only (C6) and confines paths (C7); the multipart reader accepts exactly what a writer of
  parts produces (C37); the forwarding headers cannot be forged (C38). Options and sizes:
  normalized options are well formed (C8), fit modes meet their box through the rounding of
  \<open>f64\<close> (C9) and every accepted buffer is bounded (C10). Identity and authority: negotiation (C12),
  signed URLs (C13, C14), written responses (C15), cache keys (C16, C17). Storage and network: the
  cache under interleaving (C18), eviction (C19), confined fetches (C20). The codec: the quality
  search for any probe (C21), the rewriters as filters (C22 to C24), passthrough (C25), the whole
  transform returns (C29), reports what it made (C30), does not grow what it can rewrite (C31) and
  answers single frames (C32). The server: rate limiting (C26 to C28), slots and admission (C33),
  cached repeats (C34), transformed answers (C35), credentials (C36), health (C39), refusals
  (C40), and on top the refinement of the connection loop: however the bytes of a client arrive,
  the loop answers its requests in order, one at a time (C1), reads no body it has refused (C2)
  and keeps within its count (C3).

  Each component's lemmas are proved in its own theory; the properties that span components are
  in \<open>Transform\<close>, \<open>Handlers\<close> and \<open>Routing\<close>.

  \<^bold>\<open>Bounds and fuel\<close>

  The walks over bytes recurse on the distance to the last byte and need no fuel; a step that does
  not advance is excluded by the laws of \<open>byte_walk\<close>. The quality search has a fuel argument: nine
  rounds are enough for every range of 8 bits below 255, proved for all probes (\<open>search_returns\<close>),
  and the options admit no quality above 100. The redirect loop of a fetch and the loop of a
  connection are bounded by the counters of the code itself. The limiter is studied for the bursts
  and rates the configuration admits, 1 to 100000, readings up to \<open>2 ^ 70\<close> nanoseconds and runs
  whose readings do not go back. Lengths of buffers are below \<open>usize::MAX\<close> where a statement says
  so.

  \<^bold>\<open>Parameters\<close>

  Crates are arguments with documented behaviour as named hypotheses where one is needed: the
  operations of \<open>image\<close> on pictures (\<open>image_ops\<close>, with the sizes they give in \<open>sized_ops\<close>), its
  encoders and metadata decoders (\<open>encoders\<close>, \<open>meta_codecs\<close>), the Exif reader (\<open>codecs\<close>), HMAC,
  SHA-256 and hex (\<open>crypto\<close>), \<open>url\<close> and \<open>form_urlencoded\<close>, the resolver, the HTTP client and the
  storage backends (\<open>web\<close>), gzip, the JSON crate (\<open>json_codec\<close>), the clock and the hash of the
  maps. Every theorem with such a hypothesis is applied to a concrete function in its witness.

  \<^bold>\<open>What is not modelled\<close>

  The SVG codec (\<open>src/codecs/svg.rs\<close>: sanitizing and rasterizing are calls into \<open>quick-xml\<close> and
  \<open>resvg\<close>; the dispatcher takes it as an argument); the object stores (calls into the cloud SDKs);
  reading the configuration from the environment; the start and shutdown of the server, its
  threads, metrics counters and the text of \<open>/metrics\<close>; the timeouts of sockets and the timers of
  the storage calls; the command line; and the glue of the WebAssembly package. The deadline of a
  request is modelled where the transform checks it, not where the server starts it.
\<close>

end
